(* ===== verification/Prelude.thy ===== *)
theory Prelude
  imports Main "HOL-Library.Word"
begin

text \<open>
  Shared vocabulary of the development: the fixed-width integer types of the C++ code, the
  result type that models both \<open>Result<T, E>\<close> and a thrown exception, decimal rendering of
  unsigned integers as \<open>%u\<close> and \<open>{}\<close> produce it, and generic lemmas on words, lists and
  arithmetic that several components use.  The collection \<open>size_simps\<close> holds the size
  equations of wire structures, \<open>wire_simps\<close> the unfolding equations of byte-level writers.
\<close>

unbundle bit_operations_syntax

named_theorems size_simps \<open>size equations of structures in the packet memory\<close>
named_theorems wire_simps \<open>byte-level equations of the packet writers\<close>
named_theorems result_simps \<open>elimination of result values\<close>

section \<open>Machine types and results\<close>

type_synonym u8 = "8 word"
type_synonym u16 = "16 word"
type_synonym u32 = "32 word"
type_synonym u64 = "64 word"

type_synonym ('e, 'a) outcome = "'e + 'a"

abbreviation Fail :: "'e \<Rightarrow> ('e, 'a) outcome" where "Fail \<equiv> Inl"
abbreviation Ok :: "'a \<Rightarrow> ('e, 'a) outcome" where "Ok \<equiv> Inr"

definition and_then :: "('e, 'a) outcome \<Rightarrow> ('a \<Rightarrow> ('e, 'b) outcome) \<Rightarrow> ('e, 'b) outcome" where
  "and_then r f = (case r of Inl e \<Rightarrow> Inl e | Inr a \<Rightarrow> f a)"

lemma and_then_simps [simp, result_simps]:
  "and_then (Inl e) f = Inl e"
  "and_then (Inr a) f = f a"
  by (simp_all add: and_then_def)

lemma and_then_Inr_iff:
  "and_then r f = Inr b \<longleftrightarrow> (\<exists>a. r = Inr a \<and> f a = Inr b)"
  by (cases r) simp_all

lemma and_then_assoc: "and_then (and_then r f) g = and_then r (\<lambda>a. and_then (f a) g)"
  by (cases r) simp_all

section \<open>Decimal rendering\<close>

text \<open>The characters \<open>0\<close> to \<open>9\<close>, and the decimal digits of a number, most significant first.\<close>

definition dec_char :: "nat \<Rightarrow> char" where
  "dec_char d = char_of (48 + d)"

definition is_digit :: "char \<Rightarrow> bool" where
  "is_digit c \<longleftrightarrow> 48 \<le> (of_char c :: nat) \<and> (of_char c :: nat) \<le> 57"

definition digit_val :: "char \<Rightarrow> nat" where
  "digit_val c = (of_char c :: nat) - 48"

fun dec_string :: "nat \<Rightarrow> string" where
  "dec_string n = (if n < 10 then [dec_char n] else dec_string (n div 10) @ [dec_char (n mod 10)])"

declare dec_string.simps [simp del]

lemma of_char_dec_char: "d < 10 \<Longrightarrow> (of_char (dec_char d) :: nat) = 48 + d"
  by (simp add: dec_char_def)

lemma is_digit_dec_char [simp]: "d < 10 \<Longrightarrow> is_digit (dec_char d)"
  by (simp add: is_digit_def of_char_dec_char)

lemma digit_val_dec_char [simp]: "d < 10 \<Longrightarrow> digit_val (dec_char d) = d"
  by (simp add: digit_val_def of_char_dec_char)

lemma digit_val_less: "is_digit c \<Longrightarrow> digit_val c < 10"
  by (auto simp: is_digit_def digit_val_def)

lemma digit_chars [simp]:
  "is_digit (CHR ''0'')" "digit_val (CHR ''0'') = 0"
  "is_digit (CHR ''1'')" "digit_val (CHR ''1'') = 1"
  "is_digit (CHR ''2'')" "digit_val (CHR ''2'') = 2"
  "is_digit (CHR ''3'')" "digit_val (CHR ''3'') = 3"
  "is_digit (CHR ''4'')" "digit_val (CHR ''4'') = 4"
  "is_digit (CHR ''5'')" "digit_val (CHR ''5'') = 5"
  "is_digit (CHR ''6'')" "digit_val (CHR ''6'') = 6"
  "is_digit (CHR ''7'')" "digit_val (CHR ''7'') = 7"
  "is_digit (CHR ''8'')" "digit_val (CHR ''8'') = 8"
  "is_digit (CHR ''9'')" "digit_val (CHR ''9'') = 9"
  by (simp_all add: is_digit_def digit_val_def)

lemma not_digit_chars [simp]:
  "\<not> is_digit (CHR ''-'')" "\<not> is_digit (CHR ''+'')" "\<not> is_digit (CHR ''.'')" "\<not> is_digit (CHR ''/'')"
  "\<not> is_digit (CHR 0x00)"
  by (simp_all add: is_digit_def)

text \<open>The value of a string of digits, as a left fold from an accumulator.\<close>

fun digits_value :: "nat \<Rightarrow> string \<Rightarrow> nat" where
  "digits_value acc [] = acc"
| "digits_value acc (c # cs) = digits_value (acc * 10 + digit_val c) cs"

lemma digits_value_append: "digits_value acc (xs @ ys) = digits_value (digits_value acc xs) ys"
  by (induction xs arbitrary: acc) simp_all

lemma digits_value_mono: "acc \<le> digits_value acc cs"
proof (induction cs arbitrary: acc)
  case (Cons c cs)
  have "acc \<le> acc * 10 + digit_val c" by simp
  also have "\<dots> \<le> digits_value (acc * 10 + digit_val c) cs" by (rule Cons.IH)
  finally show ?case by simp
qed simp

lemma digits_value_dec_string [simp]: "digits_value 0 (dec_string n) = n"
proof (induction n rule: dec_string.induct)
  case (1 n)
  then show ?case
    by (cases "n < 10") (simp_all add: dec_string.simps [of n] digits_value_append)
qed

lemma dec_string_digits: "c \<in> set (dec_string n) \<Longrightarrow> is_digit c"
proof (induction n rule: dec_string.induct)
  case (1 n)
  then show ?case
    by (cases "n < 10") (auto simp: dec_string.simps [of n])
qed

lemma dec_string_nonempty [simp]: "dec_string n \<noteq> []"
  by (subst dec_string.simps) simp

lemma length_dec_string_1: "n < 10 \<Longrightarrow> length (dec_string n) = 1"
  by (simp add: dec_string.simps [of n])

lemma length_dec_string_step: "10 \<le> n \<Longrightarrow> length (dec_string n) = Suc (length (dec_string (n div 10)))"
  by (simp add: dec_string.simps [of n])

text \<open>
  A character array read through \<open>cssentinel\<close> ends at its first null character.  A range of
  characters and its end iterator are modelled by the list of the characters between them, and an
  iterator into a range by the characters from it to the end.
\<close>

definition cstring :: "string \<Rightarrow> string" where
  "cstring mem = takeWhile (\<lambda>c. c \<noteq> CHR 0x00) mem"

lemma cstring_terminated: "CHR 0x00 \<notin> set s \<Longrightarrow> cstring (s @ CHR 0x00 # rest) = s"
  by (induction s) (auto simp: cstring_def)

lemma decimal_le_iff:
  fixes a q d r :: nat
  shows "d < 10 \<Longrightarrow> r < 10 \<Longrightarrow> a * 10 + d \<le> q * 10 + r \<longleftrightarrow> a < q \<or> a = q \<and> d \<le> r"
  by arith

section \<open>Words\<close>

lemma unat_less: "unat (w :: 'a::len word) < 2 ^ LENGTH('a)"
  by (rule unsigned_less)

lemma unat_u8_less [simp]: "unat (w :: u8) < 256"
  by (rule order_less_le_trans [OF unsigned_less]) simp

lemma unat_u16_less [simp]: "unat (w :: u16) < 65536"
  by (rule order_less_le_trans [OF unsigned_less]) simp

lemma unat_u32_less [simp]: "unat (w :: u32) < 4294967296"
  by (rule order_less_le_trans [OF unsigned_less]) simp

lemma unat_u64_less [simp]: "unat (w :: u64) < 18446744073709551616"
  by (rule order_less_le_trans [OF unsigned_less]) simp

lemma unat_of_nat_small:
  "n < 256 \<Longrightarrow> unat (of_nat n :: u8) = n"
  "n < 65536 \<Longrightarrow> unat (of_nat n :: u16) = n"
  "n < 4294967296 \<Longrightarrow> unat (of_nat n :: u32) = n"
  "n < 18446744073709551616 \<Longrightarrow> unat (of_nat n :: u64) = n"
  by (simp_all add: unsigned_of_nat take_bit_nat_eq_self_iff)

text \<open>Four octets, most significant first, as a 32-bit word.\<close>

lemma unat_be32:
  "unat (push_bit 24 (ucast (a :: u8)) + push_bit 16 (ucast (b :: u8)) + push_bit 8 (ucast (c :: u8)) +
     ucast (d :: u8) :: u32) = unat a * 16777216 + unat b * 65536 + unat c * 256 + unat d"
proof -
  have u: "unat (ucast x :: u32) = unat x" for x :: u8
    by (simp add: unsigned_ucast_eq take_bit_nat_eq_self_iff less_trans [OF unat_u8_less])
  have p: "unat (push_bit k (ucast x) :: u32) = unat x * 2 ^ k" if "k \<le> 24" for x :: u8 and k
  proof -
    have "unat x * 2 ^ k < 256 * 2 ^ k" by simp
    also have "(256 :: nat) * 2 ^ k \<le> 256 * 2 ^ 24" using that by (intro mult_le_mono power_increasing) auto
    finally have "unat x * 2 ^ k < 2 ^ 32" by simp
    then show ?thesis
      by (simp only: unsigned_push_bit_eq u) (simp add: push_bit_eq_mult take_bit_nat_eq_self_iff)
  qed
  have "unat a * 16777216 + unat b * 65536 + unat c * 256 + unat d < 4294967296"
    using unat_u8_less [of a] unat_u8_less [of b] unat_u8_less [of c] unat_u8_less [of d] by linarith
  then show ?thesis
    by (simp add: unat_word_ariths p u)
qed

lemma and_255_nat: "(n :: nat) AND 255 = n mod 256"
proof -
  have "(mask 8 :: nat) = 255" by (simp add: mask_eq_exp_minus_1)
  then have "n AND 255 = take_bit 8 n" by (simp only: take_bit_eq_mask)
  then show ?thesis by (simp add: take_bit_eq_mod)
qed

lemma base256_digits:
  "(n :: nat) div 16777216 * 16777216 + n div 65536 mod 256 * 65536 + n div 256 mod 256 * 256 + n mod 256 = n"
proof -
  have "n div 65536 = n div 256 div 256" "n div 16777216 = n div 65536 div 256"
    using div_mult2_eq [of n 256 256] div_mult2_eq [of n 65536 256] by simp_all
  moreover have "a * 16777216 + b * 65536 + c * 256 + d = n"
    if "n = q * 256 + d" "q = r * 256 + c" "r = a * 256 + b" for a b c d q r :: nat
    using that by simp
  ultimately show ?thesis
    by (metis div_mult_mod_eq)
qed

lemma base256_parts:
  fixes a b c d :: nat
  assumes "b < 256" "c < 256" "d < 256"
  shows "(a * 16777216 + b * 65536 + c * 256 + d) div 16777216 = a"
    and "(a * 16777216 + b * 65536 + c * 256 + d) div 65536 = a * 256 + b"
    and "(a * 16777216 + b * 65536 + c * 256 + d) div 256 = a * 65536 + b * 256 + c"
    and "(a * 16777216 + b * 65536 + c * 256 + d) mod 256 = d"
proof -
  have n: "a * 16777216 + b * 65536 + c * 256 + d = ((a * 256 + b) * 256 + c) * 256 + d" by simp
  have step: "(x * 256 + y) div 256 = x" "(x * 256 + y) mod 256 = y" if "y < 256" for x y :: nat
    using that by simp_all
  have two: "m div 65536 = m div 256 div 256" "m div 16777216 = m div 256 div 256 div 256" for m :: nat
    using div_mult2_eq [of m 256 256] div_mult2_eq [of m 65536 256] by simp_all
  show "(a * 16777216 + b * 65536 + c * 256 + d) div 16777216 = a"
    "(a * 16777216 + b * 65536 + c * 256 + d) div 65536 = a * 256 + b"
    "(a * 16777216 + b * 65536 + c * 256 + d) mod 256 = d"
    by (simp_all only: n two step assms)
  show "(a * 16777216 + b * 65536 + c * 256 + d) div 256 = a * 65536 + b * 256 + c"
    by (simp only: n step assms) simp
qed

lemma base256_mod:
  fixes a b c :: nat
  shows "b < 256 \<Longrightarrow> (a * 256 + b) mod 256 = b"
    and "c < 256 \<Longrightarrow> (a * 65536 + b * 256 + c) mod 256 = c"
proof -
  show "b < 256 \<Longrightarrow> (a * 256 + b) mod 256 = b" by simp
  assume "c < 256"
  then have "((a * 256 + b) * 256 + c) mod 256 = c" by (simp only: mod_mult_self3 mod_less)
  moreover have "a * 65536 + b * 256 + c = (a * 256 + b) * 256 + c" by simp
  ultimately show "(a * 65536 + b * 256 + c) mod 256 = c" by (simp only:)
qed

text \<open>A positive number with no bit in common with its predecessor is a power of two.\<close>

lemma and_pred_power:
  fixes n :: nat
  assumes "0 < n" and "n AND (n - 1) = 0"
  shows "\<exists>k. n = 2 ^ k"
  using assms
proof (induction n rule: less_induct)
  case (less n)
  show ?case
  proof (cases "even n")
    case True
    then obtain m where m: "n = 2 * m" by (elim evenE)
    with less.prems have pos: "0 < m" by simp
    have "n - 1 = 2 * (m - 1) + 1" using m pos by simp
    with less.prems m have "(2 * m) AND (2 * (m - 1) + 1) = 0" by simp
    then have "m AND (m - 1) = 0" using pos by (simp add: and_nat_unfold [of "2 * m"])
    with less.IH [of m] m pos obtain k where "m = 2 ^ k" by auto
    with m show ?thesis by (auto intro: exI [of _ "Suc k"])
  next
    case False
    then obtain m where m: "n = 2 * m + 1" by (elim oddE)
    with less.prems have "(2 * m + 1) AND (2 * m) = 0" by simp
    then have "(2 * m + 1) div 2 AND (2 * m) div 2 = 0"
      by (simp add: and_nat_unfold [of "Suc (2 * m)"] split: if_splits)
    then have "m = 0" by simp
    with m show ?thesis by (auto intro: exI [of _ 0])
  qed
qed

section \<open>Loops that may throw or not end\<close>

text \<open>
  \<open>run_while b step s\<close> is a loop over the state \<open>s\<close> with the guard \<open>b\<close>: its body may throw,
  and the value is \<open>None\<close> if the loop never ends.
\<close>

partial_function (option) run_while ::
    "('s \<Rightarrow> bool) \<Rightarrow> ('s \<Rightarrow> ('e, 's) outcome) \<Rightarrow> 's \<Rightarrow> ('e, 's) outcome option" where
  "run_while b step s =
     (if b s then (case step s of Inl e \<Rightarrow> Some (Inl e) | Inr s' \<Rightarrow> run_while b step s')
      else Some (Inr s))"

declare run_while.simps [code]

lemma run_while_step: "b s \<Longrightarrow> step s = Inr s' \<Longrightarrow> run_while b step s = run_while b step s'"
  by (simp add: run_while.simps)

lemma run_while_end: "\<not> b s \<Longrightarrow> run_while b step s = Some (Inr s)"
  by (simp add: run_while.simps)

lemma run_while_throw: "b s \<Longrightarrow> step s = Inl e \<Longrightarrow> run_while b step s = Some (Inl e)"
  by (simp add: run_while.simps)

lemma run_while_total:
  fixes m :: "'s \<Rightarrow> nat"
  assumes step: "\<And>s. P s \<Longrightarrow> b s \<Longrightarrow> \<exists>s'. step s = Inr s' \<and> P s' \<and> m s' < m s"
    and "P s"
  shows "\<exists>t. run_while b step s = Some (Inr t) \<and> P t \<and> \<not> b t"
  using \<open>P s\<close>
proof (induction "m s" arbitrary: s rule: less_induct)
  case less
  show ?case
  proof (cases "b s")
    case True
    then obtain s' where s': "step s = Inr s'" "P s'" "m s' < m s"
      using step less.prems by blast
    from less.hyps [OF s'(3,2)] True s'(1) show ?thesis
      by (simp add: run_while.simps [of b step s])
  next
    case False
    with less.prems show ?thesis by (simp add: run_while.simps)
  qed
qed

lemma run_while_diverges:
  assumes step: "\<And>s. P s \<Longrightarrow> b s \<and> (\<exists>s'. step s = Inr s' \<and> P s')"
    and "P s"
  shows "run_while b step s = None"
proof (rule ccontr)
  assume "run_while b step s \<noteq> None"
  then obtain r where r: "run_while b step s = Some r" by blast
  have "\<not> P s"
  proof (rule run_while.raw_induct [where P = "\<lambda>b' step' s r. b' = b \<longrightarrow> step' = step \<longrightarrow> \<not> P s", OF _ r, THEN mp, THEN mp])
    fix f b' step' s r
    assume IH: "\<And>b' step' s r. f b' step' s = Some r \<Longrightarrow> b' = b \<longrightarrow> step' = step \<longrightarrow> \<not> P s"
      and eq: "(if b' s then case step' s of Inl e \<Rightarrow> Some (Inl e) | Inr s' \<Rightarrow> f b' step' s' else Some (Inr s)) = Some r"
    show "b' = b \<longrightarrow> step' = step \<longrightarrow> \<not> P s"
    proof (intro impI notI)
      assume "b' = b" "step' = step" "P s"
      with step [of s] eq IH show False by auto
    qed
  qed simp_all
  with \<open>P s\<close> show False by simp
qed

section \<open>Sizes\<close>

text \<open>Subtraction of \<open>size_t\<close> values, which wraps at 64 bits.\<close>

definition size_sub :: "nat \<Rightarrow> nat \<Rightarrow> nat" where
  "size_sub a b = (if b \<le> a then a - b else a + 2 ^ 64 - b)"

lemma size_sub_le [simp]: "b \<le> a \<Longrightarrow> size_sub a b = a - b"
  by (simp add: size_sub_def)


text \<open>Sequencing of computations that may throw and may not end.\<close>

definition run_then ::
    "('e, 'a) outcome option \<Rightarrow> ('a \<Rightarrow> ('e, 'b) outcome option) \<Rightarrow> ('e, 'b) outcome option" where
  "run_then r f =
     (case r of None \<Rightarrow> None | Some (Inl e) \<Rightarrow> Some (Inl e) | Some (Inr a) \<Rightarrow> f a)"

lemma run_then_simps [simp, result_simps]:
  "run_then None f = None"
  "run_then (Some (Inl e)) f = Some (Inl e)"
  "run_then (Some (Inr a)) f = f a"
  by (simp_all add: run_then_def)


section \<open>Maps that keep their insertion order\<close>

text \<open>
  \<open>alist_upsert k f v0 m\<close> inserts \<open>v0\<close> at \<open>k\<close> if the key is new, and then applies \<open>f\<close> to the
  value at \<open>k\<close>: \<open>f(m.try_emplace(k, v0).first->second)\<close>.
\<close>

fun alist_upsert :: "'k \<Rightarrow> ('v \<Rightarrow> 'v) \<Rightarrow> 'v \<Rightarrow> ('k \<times> 'v) list \<Rightarrow> ('k \<times> 'v) list" where
  "alist_upsert k f v0 [] = [(k, f v0)]"
| "alist_upsert k f v0 ((k', v) # m) =
     (if k' = k then (k', f v) # m else (k', v) # alist_upsert k f v0 m)"

lemma map_of_alist_upsert:
  "map_of (alist_upsert k f v0 m) k' =
     (if k' = k then Some (f (case map_of m k of None \<Rightarrow> v0 | Some v \<Rightarrow> v)) else map_of m k')"
  by (induction m) auto

lemma keys_alist_upsert:
  "map fst (alist_upsert k f v0 m) = map fst m @ (if k \<in> set (map fst m) then [] else [k])"
proof (induction m)
  case (Cons x m)
  then show ?case by (cases x) simp
qed simp

lemma set_keys_alist_upsert [simp]: "fst ` set (alist_upsert k f v0 m) = insert k (fst ` set m)"
  using arg_cong [OF keys_alist_upsert, of set k f v0 m] by auto

lemma distinct_alist_upsert:
  "distinct (map fst m) \<Longrightarrow> distinct (map fst (alist_upsert k f v0 m))"
  by (simp add: keys_alist_upsert)

lemma map_of_map_keys:
  "map_of (map (\<lambda>(k, v). (k, f k)) m) k = (if k \<in> fst ` set m then Some (f k) else None)"
  by (induction m) auto

text \<open>\<open>std::map\<close>, as the list of its entries in ascending order of their keys.\<close>

definition omap_emplace :: "'k::linorder \<Rightarrow> 'v \<Rightarrow> ('k \<times> 'v) list \<Rightarrow> ('k \<times> 'v) list" where
  "omap_emplace k v m = (if k \<in> set (map fst m) then m else insort_key fst (k, v) m)"

definition omap :: "('k::linorder \<times> 'v) list \<Rightarrow> bool" where
  "omap m \<longleftrightarrow> sorted (map fst m) \<and> distinct (map fst m)"

lemma insort_key_fst: "map fst (insort_key fst (k, v) m) = insort k (map fst m)"
  by (induction m) auto

lemma map_of_insort:
  "k \<notin> set (map fst m) \<Longrightarrow> map_of (insort_key fst (k, v) m) = (map_of m)(k \<mapsto> v)"
  by (induction m) auto

lemma omap_emplace [simp]: "omap m \<Longrightarrow> omap (omap_emplace k v m)"
  by (simp add: omap_def omap_emplace_def insort_key_fst sorted_insort distinct_insort)

lemma omap_Nil [simp]: "omap []"
  by (simp add: omap_def)

lemma map_of_omap_emplace:
  "map_of (omap_emplace k v m) = (case map_of m k of None \<Rightarrow> (map_of m)(k \<mapsto> v) | Some _ \<Rightarrow> map_of m)"
proof (cases "k \<in> set (map fst m)")
  case True
  then have "map_of m k \<noteq> None" by (simp add: map_of_eq_None_iff)
  with True show ?thesis by (auto simp: omap_emplace_def)
next
  case False
  then have "map_of m k = None" by (simp add: map_of_eq_None_iff)
  with False show ?thesis by (simp add: omap_emplace_def map_of_insort)
qed

text \<open>Assignment to the value at a key that is present.\<close>

definition alist_modify :: "'k \<Rightarrow> ('v \<Rightarrow> 'v) \<Rightarrow> ('k \<times> 'v) list \<Rightarrow> ('k \<times> 'v) list" where
  "alist_modify k f m = map (\<lambda>(k', v). (k', if k' = k then f v else v)) m"

lemma keys_alist_modify [simp]: "map fst (alist_modify k f m) = map fst m"
  by (induction m) (auto simp: alist_modify_def)

lemma map_of_alist_modify:
  "map_of (alist_modify k f m) k' = (if k' = k then map_option f (map_of m k) else map_of m k')"
  by (induction m) (auto simp: alist_modify_def)

lemma omap_modify [simp]: "omap (alist_modify k f m) \<longleftrightarrow> omap m"
  by (simp add: omap_def)

end
