(* ===== verification/IPv4.thy ===== *)
theory IPv4
  imports Prelude
begin

text \<open>
  The classes \<open>IPv4Address\<close> and \<open>IPv4Prefix\<close> of \<open>lib/pimc/net\<close> and the dotted decimal
  formatters of \<open>lib/pimc/formatters\<close>.  An address is a wrapped 32-bit word; the comparison
  operators of the class are the instance of the order classes, so the library's sorted
  lists and sets apply to addresses as \<open>std::set<IPv4Address>\<close> does.  A thrown exception
  is a value of \<open>ip_error\<close>.
\<close>

section \<open>Addresses\<close>

datatype IPv4Address = IPv4Address (addr_val: u32)

datatype ip_error =
    InvalidArgument u32      \<comment> \<open>\<open>std::invalid_argument\<close>: illegal prefix length\<close>
  | NotAMask IPv4Address     \<comment> \<open>\<open>std::logic_error\<close>: the address is not a subnet mask\<close>

definition DefaultAddressValue :: u32 where
  "DefaultAddressValue = 0"

definition LocalBroadcastAddressValue :: u32 where
  "LocalBroadcastAddressValue = 0xFFFFFFFF"

definition ofOctets :: "u8 \<Rightarrow> u8 \<Rightarrow> u8 \<Rightarrow> u8 \<Rightarrow> IPv4Address" where
  "ofOctets o1 o2 o3 o4 =
     IPv4Address (push_bit 24 (ucast o1) + push_bit 16 (ucast o2) + push_bit 8 (ucast o3) + ucast o4)"

definition oct1 :: "IPv4Address \<Rightarrow> u8" where
  "oct1 a = ucast (drop_bit 24 (addr_val a))"

definition oct2 :: "IPv4Address \<Rightarrow> u8" where
  "oct2 a = ucast (drop_bit 16 (addr_val a) AND 0xFF)"

definition oct3 :: "IPv4Address \<Rightarrow> u8" where
  "oct3 a = ucast (drop_bit 8 (addr_val a) AND 0xFF)"

definition oct4 :: "IPv4Address \<Rightarrow> u8" where
  "oct4 a = ucast (addr_val a AND 0xFF)"

definition isMcast :: "IPv4Address \<Rightarrow> bool" where
  "isMcast a \<longleftrightarrow> drop_bit 28 (addr_val a) = 14"

definition isLocalBroadcast :: "IPv4Address \<Rightarrow> bool" where
  "isLocalBroadcast a \<longleftrightarrow> addr_val a = LocalBroadcastAddressValue"

definition isDefault :: "IPv4Address \<Rightarrow> bool" where
  "isDefault a \<longleftrightarrow> addr_val a = DefaultAddressValue"

definition isLoopback :: "IPv4Address \<Rightarrow> bool" where
  "isLoopback a \<longleftrightarrow> drop_bit 24 (addr_val a) = 127"

text \<open>The comparison operators, each from its own definition; they are the operators of the order classes.\<close>

definition addr_lt :: "IPv4Address \<Rightarrow> IPv4Address \<Rightarrow> bool" where "addr_lt a b \<longleftrightarrow> addr_val a < addr_val b"

definition addr_le :: "IPv4Address \<Rightarrow> IPv4Address \<Rightarrow> bool" where "addr_le a b \<longleftrightarrow> addr_val a \<le> addr_val b"

definition addr_gt :: "IPv4Address \<Rightarrow> IPv4Address \<Rightarrow> bool" where "addr_gt a b \<longleftrightarrow> addr_val b < addr_val a"

definition addr_ge :: "IPv4Address \<Rightarrow> IPv4Address \<Rightarrow> bool" where "addr_ge a b \<longleftrightarrow> addr_val b \<le> addr_val a"

definition addr_eq :: "IPv4Address \<Rightarrow> IPv4Address \<Rightarrow> bool" where "addr_eq a b \<longleftrightarrow> addr_val a = addr_val b"

definition addr_ne :: "IPv4Address \<Rightarrow> IPv4Address \<Rightarrow> bool" where "addr_ne a b \<longleftrightarrow> addr_val a \<noteq> addr_val b"

instantiation IPv4Address :: linorder
begin

definition less_IPv4Address :: "IPv4Address \<Rightarrow> IPv4Address \<Rightarrow> bool" where
  "less_IPv4Address = addr_lt"

definition less_eq_IPv4Address :: "IPv4Address \<Rightarrow> IPv4Address \<Rightarrow> bool" where
  "less_eq_IPv4Address = addr_le"

instance
  by standard
    (auto simp: less_IPv4Address_def less_eq_IPv4Address_def addr_lt_def addr_le_def IPv4Address.expand)

end

lemma addr_order: "a < b \<longleftrightarrow> addr_val a < addr_val b" "a \<le> b \<longleftrightarrow> addr_val a \<le> addr_val b"
  for a b :: IPv4Address
  by (simp_all add: less_IPv4Address_def less_eq_IPv4Address_def addr_lt_def addr_le_def)

definition addr_and :: "IPv4Address \<Rightarrow> IPv4Address \<Rightarrow> IPv4Address" where
  "addr_and a b = IPv4Address (addr_val a AND addr_val b)"

definition addr_xor :: "IPv4Address \<Rightarrow> IPv4Address \<Rightarrow> IPv4Address" where
  "addr_xor a b = IPv4Address (addr_val a XOR addr_val b)"

definition addr_or :: "IPv4Address \<Rightarrow> IPv4Address \<Rightarrow> IPv4Address" where
  "addr_or a b = IPv4Address (addr_val a OR addr_val b)"

definition addr_not :: "IPv4Address \<Rightarrow> IPv4Address" where
  "addr_not a = IPv4Address (NOT (addr_val a))"

section \<open>Subnet masks\<close>

text \<open>
  \<open>maskValue\<close> documents prefix lengths above 32 as undefined; there the C++ shift count
  leaves the width of the type.  Every caller of the library establishes \<open>plen \<le> 32\<close>.
\<close>

definition maskValue :: "u32 \<Rightarrow> u32" where
  "maskValue plen =
     (if plen = 0 then 0
      else LocalBroadcastAddressValue - (push_bit (unat (32 - plen)) 1 - 1))"

definition toMask :: "u32 \<Rightarrow> (ip_error, IPv4Address) outcome" where
  "toMask plen = (if 32 < plen then Fail (InvalidArgument plen) else Ok (IPv4Address (maskValue plen)))"

definition isMask :: "IPv4Address \<Rightarrow> bool" where
  "isMask a =
     (if addr_val a = DefaultAddressValue then True
      else (let m = LocalBroadcastAddressValue - addr_val a in ((m + 1) AND m) = 0))"

text \<open>The binary search of \<open>toMask() const\<close>: the loop state is \<open>pl\<close>, \<open>m\<close>, \<open>s\<close>.\<close>

function maskSearch :: "u32 \<Rightarrow> u32 \<Rightarrow> u32 \<Rightarrow> u32 \<times> u32" where
  "maskSearch pl m s =
     (if 1 < s then
        (let mn = drop_bit (unat s) m; sn = drop_bit 1 s
         in if 0 < mn then maskSearch (pl - sn) mn sn
            else maskSearch (pl + sn) m sn)
      else (pl, m))"
  by pat_completeness auto
termination
proof (relation "measure (\<lambda>(pl, m, s). unat s)")
  have *: "unat (drop_bit 1 s) < unat s" if "1 < s" for s :: u32
  proof -
    from that have "s \<noteq> 0" by (cases "s = 0") auto
    then have "0 < unat s" by (simp add: unat_gt_0)
    then show ?thesis by (simp add: unat_drop_bit_eq drop_bit_nat_def)
  qed
  show "((pl - sn, mn, sn), pl, m, s) \<in> measure (\<lambda>(pl, m, s). unat s)"
    if "1 < s" "mn = drop_bit (unat s) m" "sn = drop_bit 1 s" "0 < mn" for pl m s mn sn :: u32
    using * that by simp
  show "((pl + sn, m, sn), pl, m, s) \<in> measure (\<lambda>(pl, m, s). unat s)"
    if "1 < s" "mn = drop_bit (unat s) m" "sn = drop_bit 1 s" "\<not> 0 < mn" for pl m s mn sn :: u32
    using * that by simp
qed simp

declare maskSearch.simps [simp del]

definition maskLength :: "IPv4Address \<Rightarrow> (ip_error, u32) outcome" where
  "maskLength a =
     (if addr_val a = LocalBroadcastAddressValue then Ok 32
      else if \<not> isMask a then Fail (NotAMask a)
      else (case maskSearch 16 (LocalBroadcastAddressValue - addr_val a) 16 of
              (pl, m) \<Rightarrow> if m = 1 then Ok pl else Ok (pl - 1)))"

subsection \<open>The mask functions agree\<close>

lemma maskValue_of_nat:
  assumes "p \<le> 32"
  shows "maskValue (of_nat p) = NOT (mask (32 - p))"
proof (cases "p = 0")
  case True
  have "(mask 32 :: u32) = - 1" by (simp add: mask_eq_exp_minus_1)
  with True show ?thesis by (simp add: maskValue_def)
next
  case False
  have u: "unat (of_nat p :: u32) = p" using assms by (simp add: unat_of_nat_small)
  have "(32 :: u32) - of_nat p = of_nat (32 - p)" using assms by simp
  then have n: "unat ((32 :: u32) - of_nat p) = 32 - p"
    using assms by (simp add: unat_of_nat_small del: of_nat_diff)
  have "(of_nat p :: u32) \<noteq> 0" using u False by auto
  then show ?thesis
    using n by (simp add: maskValue_def LocalBroadcastAddressValue_def mask_eq_exp_minus_1 not_eq_complement push_bit_eq_mult)
qed
lemma maskLength_maskValue_all:
  "list_all (\<lambda>p. maskLength (IPv4Address (maskValue (of_nat p))) = Ok (of_nat p)) [0..<33]"
  by (simp add: upt_rec maskLength_def maskValue_def maskSearch.simps isMask_def
      LocalBroadcastAddressValue_def DefaultAddressValue_def Let_def)

lemma broadcast_minus: "LocalBroadcastAddressValue - x = NOT x"
proof -
  have "(4294967295 :: u32) = - 1" by simp
  then show ?thesis by (simp only: LocalBroadcastAddressValue_def not_eq_complement) (simp add: algebra_simps)
qed

lemma isMask_iff: "isMask a \<longleftrightarrow> (\<exists>p\<le>32. a = IPv4Address (maskValue (of_nat p)))"
proof
  assume a: "isMask a"
  show "\<exists>p\<le>32. a = IPv4Address (maskValue (of_nat p))"
  proof (cases "addr_val a = 0")
    case True
    then have "a = IPv4Address (maskValue (of_nat 0))"
      by (cases a) (simp add: maskValue_def)
    then show ?thesis by blast
  next
    case False
    let ?m = "NOT (addr_val a)"
    have "?m + 1 \<noteq> 0" using False by (simp add: not_eq_complement)
    then have pos: "0 < unat (?m + 1)" by (simp add: unat_gt_0)
    have m: "unat ?m = unat (?m + 1) - 1"
      using unat_minus_one [OF \<open>?m + 1 \<noteq> 0\<close>] by simp
    have "(?m + 1) AND ?m = 0"
      using a False by (simp add: isMask_def DefaultAddressValue_def broadcast_minus Let_def)
    then have "unat ((?m + 1) AND ?m) = 0" by simp
    then have "unat (?m + 1) AND (unat (?m + 1) - 1) = 0"
      by (simp only: unsigned_and_eq m)
    with pos obtain k where k: "unat (?m + 1) = 2 ^ k" using and_pred_power by blast
    have "k < 32"
    proof (rule ccontr)
      assume "\<not> k < 32"
      then have "(2::nat) ^ 32 \<le> 2 ^ k" by (intro power_increasing) auto
      then show False using unat_u32_less [of "?m + 1"] k by simp
    qed
    have "?m + 1 = of_nat (unat (?m + 1))" by simp
    then have "?m + 1 = of_nat (2 ^ k)" by (simp only: k)
    then have "addr_val a = NOT (mask k)"
      by (simp add: mask_eq_exp_minus_1 not_eq_complement algebra_simps) (metis minus_minus)
    then have "a = IPv4Address (maskValue (of_nat (32 - k)))"
      using \<open>k < 32\<close> by (cases a) (simp add: maskValue_of_nat del: of_nat_diff)
    then show ?thesis by (intro exI [of _ "32 - k"]) simp
  qed
next
  assume "\<exists>p\<le>32. a = IPv4Address (maskValue (of_nat p))"
  then obtain p where p: "p \<le> 32" "a = IPv4Address (maskValue (of_nat p))" by blast
  have "mask k + 1 = (2 ^ k :: u32)" for k
    by (simp add: mask_eq_exp_minus_1)
  moreover have "take_bit k (2 ^ k) = (0 :: u32)" for k
    by (rule bit_word_eqI) (auto simp: bit_simps)
  ultimately have "(mask k + 1) AND mask k = (0 :: u32)" for k
    by (simp flip: take_bit_eq_mask)
  with p show "isMask a"
    by (simp add: isMask_def maskValue_of_nat broadcast_minus Let_def)
qed

lemma maskLength_maskValue: "p \<le> 32 \<Longrightarrow> maskLength (IPv4Address (maskValue (of_nat p))) = Ok (of_nat p)"
  using maskLength_maskValue_all by (simp only: list_all_iff set_upt) auto

lemma toMask_iff: "toMask n = Ok a \<longleftrightarrow> (\<exists>p\<le>32. n = of_nat p \<and> a = IPv4Address (maskValue (of_nat p)))"
proof
  assume t: "toMask n = Ok a"
  then have "n \<le> 32" by (auto simp: toMask_def not_less split: if_splits)
  then have "unat n \<le> 32" by (simp add: word_le_nat_alt)
  with t show "\<exists>p\<le>32. n = of_nat p \<and> a = IPv4Address (maskValue (of_nat p))"
    by (intro exI [of _ "unat n"]) (auto simp: toMask_def split: if_splits)
next
  assume "\<exists>p\<le>32. n = of_nat p \<and> a = IPv4Address (maskValue (of_nat p))"
  then obtain p where p: "p \<le> 32" "n = of_nat p" "a = IPv4Address (maskValue (of_nat p))" by blast
  then have "\<not> 32 < (of_nat p :: u32)"
    by (simp add: word_less_nat_alt unat_of_nat_small)
  with p show "toMask n = Ok a" by (simp add: toMask_def)
qed

text \<open>the two mask conversions are inverse to each other: an address converts to the prefix
  length \<open>n\<close> exactly when \<open>n\<close> converts to that address, and the conversion fails, with the
  address in the error, exactly on the addresses no prefix length produces.\<close>

theorem maskLength_inverse:
  "(maskLength a = Ok n \<longleftrightarrow> toMask n = Ok a) \<and>
   (maskLength a = Fail e \<longleftrightarrow> e = NotAMask a \<and> (\<nexists>m. toMask m = Ok a))"
proof -
  have ok: "maskLength a = Ok m \<longleftrightarrow> toMask m = Ok a" for m
  proof
    assume m: "maskLength a = Ok m"
    have "isMask a"
    proof (cases "addr_val a = LocalBroadcastAddressValue")
      case True
      then have "a = IPv4Address (maskValue (of_nat 32))"
        by (cases a) (simp add: maskValue_def)
      then show ?thesis by (auto simp: isMask_iff)
    next
      case False
      with m show ?thesis by (auto simp: maskLength_def split: if_splits)
    qed
    with m show "toMask m = Ok a"
      by (auto simp: isMask_iff toMask_iff maskLength_maskValue)
  next
    assume "toMask m = Ok a"
    then show "maskLength a = Ok m"
      by (auto simp: toMask_iff maskLength_maskValue)
  qed
  have "maskLength a = Fail e' \<Longrightarrow> e' = NotAMask a" for e'
    by (auto simp: maskLength_def split: if_splits prod.splits)
  then show ?thesis
    by (cases "maskLength a") (auto simp flip: ok)
qed

section \<open>Prefixes\<close>

datatype IPv4Prefix = IPv4Prefix (pfx_addr: IPv4Address) (pfx_len: u32)

definition make :: "IPv4Address \<Rightarrow> u32 \<Rightarrow> (ip_error, IPv4Prefix) outcome" where
  "make addr n = and_then (toMask n) (\<lambda>m. Ok (IPv4Prefix (addr_and addr m) n))"

definition contains :: "IPv4Prefix \<Rightarrow> IPv4Address \<Rightarrow> bool" where
  "contains p a \<longleftrightarrow> pfx_addr p = addr_and a (IPv4Address (maskValue (pfx_len p)))"

definition containsPrefix :: "IPv4Prefix \<Rightarrow> IPv4Prefix \<Rightarrow> bool" where
  "containsPrefix p q = (if pfx_len q \<le> pfx_len p then False else contains p (pfx_addr q))"

definition DefaultPrefix :: IPv4Prefix where
  "DefaultPrefix = IPv4Prefix (ofOctets 0 0 0 0) 0"

definition LoopbackPrefix :: IPv4Prefix where
  "LoopbackPrefix = IPv4Prefix (ofOctets 127 0 0 0) 8"

definition MulticastPrefix :: IPv4Prefix where
  "MulticastPrefix = IPv4Prefix (ofOctets 224 0 0 0) 4"

definition ZeroPrefix :: IPv4Prefix where
  "ZeroPrefix = IPv4Prefix (ofOctets 0 0 0 0) 8"

text \<open>The comparison operators of a prefix use those of its address, as the code does.\<close>

definition prefix_lt :: "IPv4Prefix \<Rightarrow> IPv4Prefix \<Rightarrow> bool" where
  "prefix_lt p q =
     (if addr_lt (pfx_addr p) (pfx_addr q) then True
      else if addr_gt (pfx_addr p) (pfx_addr q) then False
      else pfx_len p < pfx_len q)"

definition prefix_le :: "IPv4Prefix \<Rightarrow> IPv4Prefix \<Rightarrow> bool" where
  "prefix_le p q =
     (if addr_lt (pfx_addr p) (pfx_addr q) then True
      else if addr_gt (pfx_addr p) (pfx_addr q) then False
      else pfx_len p \<le> pfx_len q)"

definition prefix_gt :: "IPv4Prefix \<Rightarrow> IPv4Prefix \<Rightarrow> bool" where
  "prefix_gt p q =
     (if addr_gt (pfx_addr p) (pfx_addr q) then True
      else if addr_lt (pfx_addr p) (pfx_addr q) then False
      else pfx_len q < pfx_len p)"

definition prefix_ge :: "IPv4Prefix \<Rightarrow> IPv4Prefix \<Rightarrow> bool" where
  "prefix_ge p q =
     (if addr_gt (pfx_addr p) (pfx_addr q) then True
      else if addr_lt (pfx_addr p) (pfx_addr q) then False
      else pfx_len q \<le> pfx_len p)"

definition prefix_eq :: "IPv4Prefix \<Rightarrow> IPv4Prefix \<Rightarrow> bool" where
  "prefix_eq p q \<longleftrightarrow> addr_eq (pfx_addr p) (pfx_addr q) \<and> pfx_len p = pfx_len q"

definition prefix_ne :: "IPv4Prefix \<Rightarrow> IPv4Prefix \<Rightarrow> bool" where
  "prefix_ne p q \<longleftrightarrow> addr_ne (pfx_addr p) (pfx_addr q) \<or> pfx_len p \<noteq> pfx_len q"

instantiation IPv4Prefix :: linorder
begin

definition less_IPv4Prefix :: "IPv4Prefix \<Rightarrow> IPv4Prefix \<Rightarrow> bool" where
  "less_IPv4Prefix = prefix_lt"

definition less_eq_IPv4Prefix :: "IPv4Prefix \<Rightarrow> IPv4Prefix \<Rightarrow> bool" where
  "less_eq_IPv4Prefix = prefix_le"

instance
  by standard
    (auto simp: less_IPv4Prefix_def less_eq_IPv4Prefix_def prefix_lt_def prefix_le_def addr_lt_def addr_gt_def
      IPv4Prefix.expand IPv4Address.expand split: if_splits)

end

lemma comparisons_agree:
  "addr_lt a b \<longleftrightarrow> a < b" "addr_le a b \<longleftrightarrow> a \<le> b" "addr_gt a b \<longleftrightarrow> b < a" "addr_ge a b \<longleftrightarrow> b \<le> a"
  "addr_eq a b \<longleftrightarrow> a = b" "addr_ne a b \<longleftrightarrow> a \<noteq> b"
  "prefix_lt p q \<longleftrightarrow> p < q" "prefix_le p q \<longleftrightarrow> p \<le> q" "prefix_gt p q \<longleftrightarrow> q < p" "prefix_ge p q \<longleftrightarrow> q \<le> p"
  "prefix_eq p q \<longleftrightarrow> p = q" "prefix_ne p q \<longleftrightarrow> p \<noteq> q"
proof -
  show "addr_lt a b \<longleftrightarrow> a < b" "addr_le a b \<longleftrightarrow> a \<le> b" "addr_gt a b \<longleftrightarrow> b < a" "addr_ge a b \<longleftrightarrow> b \<le> a"
    by (simp_all add: addr_order addr_lt_def addr_le_def addr_gt_def addr_ge_def)
  show eq: "addr_eq a b \<longleftrightarrow> a = b" for a b by (cases a; cases b) (simp add: addr_eq_def)
  show ne: "addr_ne a b \<longleftrightarrow> a \<noteq> b" for a b by (cases a; cases b) (simp add: addr_ne_def)
  show "prefix_lt p q \<longleftrightarrow> p < q" "prefix_le p q \<longleftrightarrow> p \<le> q" "prefix_gt p q \<longleftrightarrow> q < p" "prefix_ge p q \<longleftrightarrow> q \<le> p"
    by (auto simp: less_IPv4Prefix_def less_eq_IPv4Prefix_def prefix_lt_def prefix_le_def prefix_gt_def prefix_ge_def
        addr_lt_def addr_gt_def)
  show "prefix_eq p q \<longleftrightarrow> p = q" "prefix_ne p q \<longleftrightarrow> p \<noteq> q"
    by (cases p; cases q; simp add: prefix_eq_def prefix_ne_def eq ne)+
qed

subsection \<open>Membership is agreement on the leading bits\<close>

lemma drop_bit_and_NOT_mask [simp]:
  fixes z :: "'a::len word"
  shows "drop_bit k (z AND NOT (mask k)) = drop_bit k z"
  by (rule bit_word_eqI) (auto simp: bit_simps dest: bit_imp_le_length)

lemma and_NOT_mask_eq_iff:
  fixes x y :: "'a::len word"
  shows "x AND NOT (mask k) = y AND NOT (mask k) \<longleftrightarrow> drop_bit k x = drop_bit k y"
proof
  assume "x AND NOT (mask k) = y AND NOT (mask k)"
  then have "drop_bit k (x AND NOT (mask k)) = drop_bit k (y AND NOT (mask k))" by simp
  then show "drop_bit k x = drop_bit k y" by (simp only: drop_bit_and_NOT_mask)
next
  assume d: "drop_bit k x = drop_bit k y"
  have "bit x i = bit y i" if "k \<le> i" for i
  proof -
    have "bit (drop_bit k x) (i - k) = bit (drop_bit k y) (i - k)" by (simp add: d)
    with that show ?thesis by (simp add: bit_drop_bit_eq)
  qed
  then show "x AND NOT (mask k) = y AND NOT (mask k)"
    by (intro bit_word_eqI) (auto simp: bit_simps)
qed

lemma drop_bit_coarser:
  fixes x y :: "'a::len word"
  assumes "drop_bit k x = drop_bit k y" and "k \<le> l"
  shows "drop_bit l x = drop_bit l y"
proof -
  have "drop_bit l z = drop_bit (l - k) (drop_bit k z)" for z :: "'a word"
    using assms(2) by (simp add: drop_bit_drop_bit)
  from this [of x] this [of y] show ?thesis by (simp only: assms(1))
qed

lemma make_iff:
  "make a n = Ok p \<longleftrightarrow>
     n \<le> 32 \<and> pfx_len p = n \<and> addr_val (pfx_addr p) = addr_val a AND NOT (mask (32 - unat n))"
proof -
  have "n \<le> 32 \<Longrightarrow> maskValue n = NOT (mask (32 - unat n))"
    using maskValue_of_nat [of "unat n"] by (simp add: word_le_nat_alt)
  then show ?thesis
    by (cases p; cases "pfx_addr p") (auto simp: make_def toMask_def addr_and_def not_less and_then_def)
qed

lemma contains_iff:
  assumes "make a n = Ok p"
  shows "contains p b \<longleftrightarrow> drop_bit (32 - unat n) (addr_val b) = drop_bit (32 - unat n) (addr_val a)"
proof -
  have m: "n \<le> 32 \<Longrightarrow> maskValue n = NOT (mask (32 - unat n))"
    using maskValue_of_nat [of "unat n"] by (simp add: word_le_nat_alt)
  with assms show ?thesis
    by (cases "pfx_addr p")
      (auto simp: make_iff contains_def addr_and_def and_NOT_mask_eq_iff simp flip: and_NOT_mask_eq_iff)
qed

lemma drop_bit_pfx_addr:
  assumes "make a n = Ok p"
  shows "drop_bit (32 - unat n) (addr_val (pfx_addr p)) = drop_bit (32 - unat n) (addr_val a)"
  using assms by (simp add: make_iff del: drop_bit_and)

text \<open>C38: one prefix contains another, as the code decides it from the lengths and one address,
  exactly when its set of addresses is a proper superset of the other's.\<close>

theorem containsPrefix_subset:
  assumes p: "make a n = Ok p" and q: "make b m = Ok q"
  shows "containsPrefix p q \<longleftrightarrow> {x. contains q x} \<subset> {x. contains p x}"
proof -
  let ?k = "32 - unat n" and ?l = "32 - unat m"
  have len: "pfx_len p = n" "pfx_len q = m" and le: "unat n \<le> 32" "unat m \<le> 32"
    using p q by (simp_all add: make_iff word_le_nat_alt)
  have qq: "contains q (pfx_addr q)"
    using q drop_bit_pfx_addr [OF q] by (simp add: contains_iff)
  have inc: "{x. contains q x} \<subseteq> {x. contains p x}"
    if "unat n \<le> unat m" "contains p (pfx_addr q)"
  proof -
    from that(2) have "drop_bit ?k (addr_val (pfx_addr q)) = drop_bit ?k (addr_val a)"
      by (simp add: contains_iff [OF p])
    moreover have "drop_bit ?k (addr_val x) = drop_bit ?k (addr_val (pfx_addr q))" if "contains q x" for x
      using that \<open>unat n \<le> unat m\<close> drop_bit_pfx_addr [OF q]
      by (intro drop_bit_coarser [of ?l _ _ ?k]) (simp_all add: contains_iff [OF q])
    ultimately show ?thesis by (auto simp: contains_iff [OF p])
  qed
  show ?thesis
  proof
    assume c: "containsPrefix p q"
    then have lt: "unat n < unat m" and cp: "contains p (pfx_addr q)"
      by (auto simp: containsPrefix_def len not_le word_less_nat_alt split: if_splits)
    let ?x = "IPv4Address (addr_val (pfx_addr q) XOR push_bit ?l 1)"
    have "drop_bit ?k (addr_val ?x) = drop_bit ?k (addr_val (pfx_addr q))"
      using lt le by (intro bit_word_eqI) (auto simp: bit_simps)
    with cp have "contains p ?x" by (simp add: contains_iff [OF p])
    moreover have "drop_bit ?l (addr_val ?x) \<noteq> drop_bit ?l (addr_val (pfx_addr q))"
    proof
      assume "drop_bit ?l (addr_val ?x) = drop_bit ?l (addr_val (pfx_addr q))"
      then have "bit (drop_bit ?l (addr_val ?x)) 0 = bit (drop_bit ?l (addr_val (pfx_addr q))) 0" by simp
      with lt le show False by (simp add: bit_simps)
    qed
    then have "\<not> contains q ?x"
      using drop_bit_pfx_addr [OF q] by (simp add: contains_iff [OF q])
    ultimately show "{x. contains q x} \<subset> {x. contains p x}"
      using inc lt cp by auto
  next
    assume s: "{x. contains q x} \<subset> {x. contains p x}"
    with qq have cp: "contains p (pfx_addr q)" by auto
    have "unat n < unat m"
    proof (rule ccontr)
      assume "\<not> unat n < unat m"
      then have "drop_bit ?l (addr_val x) = drop_bit ?l (addr_val (pfx_addr q))" if "contains p x" for x
        using that cp by (intro drop_bit_coarser [of ?k _ _ ?l]) (simp_all add: contains_iff [OF p])
      then have "{x. contains p x} \<subseteq> {x. contains q x}"
        using drop_bit_pfx_addr [OF q] by (auto simp: contains_iff [OF q])
      with s show False by auto
    qed
    with cp show "containsPrefix p q"
      by (simp add: containsPrefix_def len not_le [symmetric] word_le_nat_alt)
  qed
qed
theorem containsPrefix_subset_witness:
  "containsPrefix MulticastPrefix (IPv4Prefix (ofOctets 239 0 0 0) 8) \<longleftrightarrow>
     {x. contains (IPv4Prefix (ofOctets 239 0 0 0) 8) x} \<subset> {x. contains MulticastPrefix x}"
  by (rule containsPrefix_subset [of "ofOctets 224 1 2 3" 4 _ "ofOctets 239 1 2 3" 8])
    (simp_all add: make_def toMask_def maskValue_def LocalBroadcastAddressValue_def MulticastPrefix_def
      addr_and_def ofOctets_def)

section \<open>Octets\<close>

lemma unat_octets:
  "unat (oct1 a) = unat (addr_val a) div 16777216"
  "unat (oct2 a) = unat (addr_val a) div 65536 mod 256"
  "unat (oct3 a) = unat (addr_val a) div 256 mod 256"
  "unat (oct4 a) = unat (addr_val a) mod 256"
proof -
  have u: "unat (ucast (x :: u32) :: u8) = unat x mod 256" for x
    by (simp add: unsigned_ucast_eq take_bit_eq_mod)
  have m: "unat (x AND 0xFF) = unat x mod 256" for x :: u32
    by (simp add: unsigned_and_eq and_255_nat)
  have d: "unat (drop_bit k x) = unat x div 2 ^ k" for k and x :: u32
    by (simp only: unat_drop_bit_eq) (simp add: drop_bit_eq_div)
  show "unat (oct1 a) = unat (addr_val a) div 16777216"
    using unat_u32_less [of "addr_val a"] by (simp add: oct1_def u d div_less_iff_less_mult)
  show "unat (oct2 a) = unat (addr_val a) div 65536 mod 256"
    by (simp add: oct2_def u m d)
  show "unat (oct3 a) = unat (addr_val a) div 256 mod 256"
    by (simp add: oct3_def u m d)
  show "unat (oct4 a) = unat (addr_val a) mod 256"
    by (simp add: oct4_def u m)
qed
lemma ofOctets_octs [simp]: "ofOctets (oct1 a) (oct2 a) (oct3 a) (oct4 a) = a"
proof -
  have "addr_val (ofOctets (oct1 a) (oct2 a) (oct3 a) (oct4 a)) = addr_val a"
    by (rule word_unat_eq_iff [THEN iffD2]) (simp add: ofOctets_def unat_be32 unat_octets base256_digits)
  then show ?thesis by (simp add: IPv4Address.expand)
qed


lemma unat_addr_ofOctets [simp]:
  "unat (addr_val (ofOctets o1 o2 o3 o4)) = unat o1 * 16777216 + unat o2 * 65536 + unat o3 * 256 + unat o4"
  by (simp add: ofOctets_def unat_be32)

lemma octs_ofOctets [simp]:
  "oct1 (ofOctets o1 o2 o3 o4) = o1" "oct2 (ofOctets o1 o2 o3 o4) = o2"
  "oct3 (ofOctets o1 o2 o3 o4) = o3" "oct4 (ofOctets o1 o2 o3 o4) = o4"
  by (simp_all add: word_unat_eq_iff unat_octets base256_parts base256_mod)

section \<open>Dotted decimal text\<close>

definition addr_string :: "IPv4Address \<Rightarrow> string" where
  "addr_string a =
     dec_string (unat (oct1 a)) @ ''.'' @ dec_string (unat (oct2 a)) @ ''.'' @
     dec_string (unat (oct3 a)) @ ''.'' @ dec_string (unat (oct4 a))"

definition prefix_string :: "IPv4Prefix \<Rightarrow> string" where
  "prefix_string p = addr_string (pfx_addr p) @ ''/'' @ dec_string (unat (pfx_len p))"

definition octlen :: "u8 \<Rightarrow> nat" where
  "octlen oct = (if oct < 10 then 1 else if oct < 100 then 2 else 3)"

definition charlen :: "IPv4Address \<Rightarrow> nat" where
  "charlen a = octlen (oct1 a) + octlen (oct2 a) + octlen (oct3 a) + octlen (oct4 a) + 3"

definition prefix_charlen :: "IPv4Prefix \<Rightarrow> nat" where
  "prefix_charlen p = charlen (pfx_addr p) + 1 + (if pfx_len p < 10 then 1 else 2)"

lemma length_dec_string:
  "n < 1000 \<Longrightarrow> length (dec_string n) = (if n < 10 then 1 else if n < 100 then 2 else 3)"
  by (simp add: length_dec_string_1 length_dec_string_step)

lemma octlen_length: "octlen x = length (dec_string (unat x))"
proof -
  have "unat x < 1000" by (rule less_trans [OF unat_u8_less]) simp
  then show ?thesis by (simp add: octlen_def length_dec_string word_less_nat_alt)
qed

lemma charlen_length: "charlen a = length (addr_string a)"
  by (simp add: charlen_def addr_string_def octlen_length)

text \<open>
  \<open>formatters/IPv4Ostream.hpp\<close>: the stream operators print into a buffer of 64 characters, of which \<open>snprintf\<close> uses the
  last for the terminator.
\<close>

definition snprintf_text :: "nat \<Rightarrow> string \<Rightarrow> string" where "snprintf_text sz t = take (sz - 1) t"

definition ostream_addr :: "IPv4Address \<Rightarrow> string" where
  "ostream_addr a = snprintf_text 64
     (dec_string (unat (oct1 a)) @ ''.'' @ dec_string (unat (oct2 a)) @ ''.'' @
      dec_string (unat (oct3 a)) @ ''.'' @ dec_string (unat (oct4 a)))"

definition ostream_prefix :: "IPv4Prefix \<Rightarrow> string" where
  "ostream_prefix p = (let addr = pfx_addr p in snprintf_text 64
     (dec_string (unat (oct1 addr)) @ ''.'' @ dec_string (unat (oct2 addr)) @ ''.'' @
      dec_string (unat (oct3 addr)) @ ''.'' @ dec_string (unat (oct4 addr)) @ ''/'' @ dec_string (unat (pfx_len p))))"

lemma octlen_le: "octlen x \<le> 3" by (simp add: octlen_def)

lemma charlen_le: "charlen a \<le> 15"
  using octlen_le [of "oct1 a"] octlen_le [of "oct2 a"] octlen_le [of "oct3 a"] octlen_le [of "oct4 a"]
  by (simp add: charlen_def)

text \<open>The buffer is never too small: the stream operators print the texts of the formatters.\<close>

theorem ostream_texts:
  "ostream_addr a = addr_string a" "make a n = Ok p \<Longrightarrow> ostream_prefix p = prefix_string p"
proof -
  have "length (addr_string a) \<le> 15" for a using charlen_le [of a] by (simp add: charlen_length)
  note len = this
  show "ostream_addr a = addr_string a"
    using len [of a] by (simp add: ostream_addr_def addr_string_def snprintf_text_def)
  assume "make a n = Ok p"
  then have "length (dec_string (unat (pfx_len p))) \<le> 2"
    by (simp add: make_iff word_le_nat_alt length_dec_string)
  then show "ostream_prefix p = prefix_string p"
    using len [of "pfx_addr p"]
    by (simp add: ostream_prefix_def prefix_string_def addr_string_def snprintf_text_def Let_def)
qed

text \<open>\<open>charlen()\<close> of a prefix that \<open>make\<close> returns is the length of the text its formatter
  prints, at every address and every prefix length.\<close>

theorem prefix_charlen_length:
  "make a n = Ok p \<Longrightarrow> prefix_charlen p = length (prefix_string p)"
proof -
  assume "make a n = Ok p"
  then have "unat (pfx_len p) \<le> 32" by (simp add: make_iff word_le_nat_alt)
  then show ?thesis
    by (simp add: prefix_charlen_def prefix_string_def charlen_length length_dec_string word_less_nat_alt)
qed

theorem prefix_charlen_length_witness:
  "prefix_charlen MulticastPrefix = length (prefix_string MulticastPrefix)"
  by (rule prefix_charlen_length [of "ofOctets 239 1 2 3" 4])
    (simp add: make_def toMask_def maskValue_def LocalBroadcastAddressValue_def MulticastPrefix_def
      addr_and_def ofOctets_def)

end
