(* ===== verification/NumberParsers.thy ===== *)
theory NumberParsers
  imports Prelude
begin

text \<open>
  The decimal parsers of \<open>lib/pimc/parsers/NumberParsers.hpp\<close>: one generic algorithm for
  unsigned and one for signed targets, each instantiated at four widths.  The template parameters
  \<open>LastStep\<close> and \<open>LastDigit\<close> are arguments; the locale \<open>uint_limits\<close> states
  what the algorithm needs of them, and is interpreted at the four instances the header has.
\<close>

datatype NumberParseError = Invalid | Overflow

section \<open>Unsigned targets\<close>

fun parseUnsignedLoop ::
    "'a::len word \<Rightarrow> 'a word \<Rightarrow> bool \<Rightarrow> 'a word \<Rightarrow> string \<Rightarrow> (NumberParseError, 'a word) outcome" where
  "parseUnsignedLoop LastStep LastDigit ovf acc [] = (if ovf then Fail Overflow else Ok acc)"
| "parseUnsignedLoop LastStep LastDigit ovf acc (c # cs) =
     (if \<not> is_digit c then Fail Invalid
      else if ovf then parseUnsignedLoop LastStep LastDigit ovf acc cs
      else (let d = of_nat (digit_val c)
            in if acc < LastStep \<or> (acc = LastStep \<and> d \<le> LastDigit)
               then parseUnsignedLoop LastStep LastDigit ovf (acc * 10 + d) cs
               else parseUnsignedLoop LastStep LastDigit True acc cs))"

definition parseDecimalUnsignedInteger ::
    "'a::len word \<Rightarrow> 'a word \<Rightarrow> string \<Rightarrow> (NumberParseError, 'a word) outcome" where
  "parseDecimalUnsignedInteger LastStep LastDigit s =
     (if s = [] then Fail Invalid else parseUnsignedLoop LastStep LastDigit False 0 s)"

definition parseDecimalUInt64 :: "string \<Rightarrow> (NumberParseError, u64) outcome" where
  "parseDecimalUInt64 = parseDecimalUnsignedInteger 1844674407370955161 5"

definition parseDecimalUInt32 :: "string \<Rightarrow> (NumberParseError, u32) outcome" where
  "parseDecimalUInt32 = parseDecimalUnsignedInteger 429496729 5"

definition parseDecimalUInt16 :: "string \<Rightarrow> (NumberParseError, u16) outcome" where
  "parseDecimalUInt16 = parseDecimalUnsignedInteger 6553 5"

definition parseDecimalUInt8 :: "string \<Rightarrow> (NumberParseError, u8) outcome" where
  "parseDecimalUInt8 = parseDecimalUnsignedInteger 25 5"

text \<open>The overloads on character arrays.\<close>

definition parseDecimalUInt64C :: "string \<Rightarrow> (NumberParseError, u64) outcome" where
  "parseDecimalUInt64C mem = parseDecimalUInt64 (cstring mem)"

definition parseDecimalUInt32C :: "string \<Rightarrow> (NumberParseError, u32) outcome" where
  "parseDecimalUInt32C mem = parseDecimalUInt32 (cstring mem)"

definition parseDecimalUInt16C :: "string \<Rightarrow> (NumberParseError, u16) outcome" where
  "parseDecimalUInt16C mem = parseDecimalUInt16 (cstring mem)"

definition parseDecimalUInt8C :: "string \<Rightarrow> (NumberParseError, u8) outcome" where
  "parseDecimalUInt8C mem = parseDecimalUInt8 (cstring mem)"

text \<open>The contract: a decimal numeral of at least one digit, read with unbounded arithmetic.\<close>

definition unsigned_spec :: "nat \<Rightarrow> string \<Rightarrow> (NumberParseError, nat) outcome" where
  "unsigned_spec bound s =
     (if s = [] \<or> \<not> list_all is_digit s then Fail Invalid
      else if digits_value 0 s < bound then Ok (digits_value 0 s)
      else Fail Overflow)"

lemma parseUnsignedLoop_ovf:
  "parseUnsignedLoop LastStep LastDigit True acc cs =
     (if list_all is_digit cs then Fail Overflow else Fail Invalid)"
  by (induction cs) auto

locale uint_limits =
  fixes LastStep :: "'a::len word" and LastDigit :: "'a word"
  assumes last_step: "unat LastStep = (2 ^ LENGTH('a) - 1) div 10"
    and last_digit: "unat LastDigit = (2 ^ LENGTH('a) - 1) mod 10"
    and wide: "16 \<le> (2 :: nat) ^ LENGTH('a)"
begin

lemma unat_digit: "d < 10 \<Longrightarrow> unat (of_nat d :: 'a word) = d"
  using wide by (simp add: unsigned_of_nat take_bit_nat_eq_self_iff)

lemma step_fits:
  assumes "d < 10"
  shows "acc < LastStep \<or> acc = LastStep \<and> of_nat d \<le> LastDigit \<longleftrightarrow> unat acc * 10 + d < 2 ^ LENGTH('a)"
proof -
  let ?M = "(2 ^ LENGTH('a) - 1) :: nat"
  have M: "n < 2 ^ LENGTH('a) \<longleftrightarrow> n \<le> ?M" for n :: nat
    using wide by arith
  have "a * 10 + d \<le> ?M \<longleftrightarrow> a < ?M div 10 \<or> a = ?M div 10 \<and> d \<le> ?M mod 10" for a
    using decimal_le_iff [OF assms, of "?M mod 10" a "?M div 10"] by simp
  then show ?thesis
    using assms by (simp add: M word_less_nat_alt word_le_nat_alt word_unat_eq_iff last_step last_digit unat_digit)
qed

lemma unat_step:
  fixes acc :: "'a word"
  assumes "d < 10" and "unat acc * 10 + d < 2 ^ LENGTH('a)"
  shows "unat (acc * 10 + of_nat d) = unat acc * 10 + d"
proof -
  have "unat (of_nat 10 :: 'a word) = 10"
    using wide by (simp add: unsigned_of_nat take_bit_nat_eq_self_iff del: of_nat_numeral)
  then have "unat (10 :: 'a word) = 10" by simp
  then show ?thesis
    using assms by (simp add: unat_word_ariths unat_digit)
qed

lemma loop_spec:
  assumes "unat acc = n"
  shows "map_sum id unat (parseUnsignedLoop LastStep LastDigit False acc cs) =
     (if \<not> list_all is_digit cs then Fail Invalid
      else if digits_value n cs < 2 ^ LENGTH('a) then Ok (digits_value n cs) else Fail Overflow)"
  using assms
proof (induction cs arbitrary: acc n)
  case Nil
  then show ?case using unat_less [of acc] by simp
next
  case (Cons c cs)
  show ?case
  proof (cases "is_digit c")
    case dig: True
    then have d: "digit_val c < 10" by (rule digit_val_less)
    note fits = step_fits [OF d, of acc]
    show ?thesis
    proof (cases "unat acc * 10 + digit_val c < 2 ^ LENGTH('a)")
      case True
      then have "unat (acc * 10 + of_nat (digit_val c)) = n * 10 + digit_val c"
        using unat_step [OF d] Cons.prems by simp
      from Cons.IH [OF this] show ?thesis
        using dig True fits by (simp add: Let_def)
    next
      case False
      have "n * 10 + digit_val c \<le> digits_value (n * 10 + digit_val c) cs"
        by (rule digits_value_mono)
      with False Cons.prems have "\<not> digits_value (n * 10 + digit_val c) cs < 2 ^ LENGTH('a)"
        by simp
      then show ?thesis
        using dig False fits by (auto simp: Let_def parseUnsignedLoop_ovf)
    qed
  qed simp
qed

lemma parse_spec:
  "map_sum id unat (parseDecimalUnsignedInteger LastStep LastDigit s) = unsigned_spec (2 ^ LENGTH('a)) s"
  by (auto simp: parseDecimalUnsignedInteger_def unsigned_spec_def loop_spec [of 0 0])

lemma parse_dec_string:
  "unat w = n \<Longrightarrow> parseDecimalUnsignedInteger LastStep LastDigit (dec_string n) = Ok (w :: 'a word)"
proof -
  assume w: "unat w = n"
  have "map_sum id unat (parseDecimalUnsignedInteger LastStep LastDigit (dec_string n)) = Ok n"
    using unat_less [of w] w
    by (simp add: parse_spec unsigned_spec_def list_all_iff dec_string_digits)
  with w show ?thesis
    by (cases "parseDecimalUnsignedInteger LastStep LastDigit (dec_string n)") (auto simp: word_unat_eq_iff)
qed

end

interpretation p64: uint_limits "1844674407370955161 :: u64" 5 by unfold_locales simp_all
interpretation p32: uint_limits "429496729 :: u32" 5 by unfold_locales simp_all
interpretation p16: uint_limits "6553 :: u16" 5 by unfold_locales simp_all
interpretation p8: uint_limits "25 :: u8" 5 by unfold_locales simp_all

text \<open>C39: each of the four unsigned parsers computes the unbounded decimal value of its input, and
  tells an input that is not a numeral from one whose value exceeds the target type.\<close>

theorem parse_unsigned_correct:
  "map_sum id unat (parseDecimalUInt64 s) = unsigned_spec 18446744073709551616 s \<and>
   map_sum id unat (parseDecimalUInt32 s) = unsigned_spec 4294967296 s \<and>
   map_sum id unat (parseDecimalUInt16 s) = unsigned_spec 65536 s \<and>
   map_sum id unat (parseDecimalUInt8 s) = unsigned_spec 256 s"
  using p64.parse_spec p32.parse_spec p16.parse_spec p8.parse_spec
  by (simp add: parseDecimalUInt64_def parseDecimalUInt32_def parseDecimalUInt16_def parseDecimalUInt8_def)

text \<open>printing a value and parsing the text, also from a terminated character array, gives the
  value back, at every width.\<close>

theorem parse_unsigned_roundtrip:
  "parseDecimalUInt64C (dec_string (unat a) @ CHR 0x00 # r) = Ok a \<and>
   parseDecimalUInt32C (dec_string (unat b) @ CHR 0x00 # r) = Ok b \<and>
   parseDecimalUInt16C (dec_string (unat c) @ CHR 0x00 # r) = Ok c \<and>
   parseDecimalUInt8C (dec_string (unat d) @ CHR 0x00 # r) = Ok d"
proof -
  have "\<not> is_digit (CHR 0x00)" by (simp add: is_digit_def)
  then have "CHR 0x00 \<notin> set (dec_string n)" for n
    using dec_string_digits by blast
  then show ?thesis
    by (simp add: parseDecimalUInt64C_def parseDecimalUInt32C_def parseDecimalUInt16C_def
        parseDecimalUInt8C_def cstring_terminated parseDecimalUInt64_def parseDecimalUInt32_def
        parseDecimalUInt16_def parseDecimalUInt8_def p64.parse_dec_string p32.parse_dec_string
        p16.parse_dec_string p8.parse_dec_string)
qed

section \<open>Signed targets\<close>

text \<open>
  The signed algorithm computes in the promoted type: \<open>int\<close> for targets of at most 32 bits,
  the target itself at 64.  \<open>signed_arith n v\<close> is the conversion of the mathematical result
  \<open>v\<close> of such an operation to the \<open>n\<close>-bit target; it is \<open>None\<close> where the promoted type
  cannot represent \<open>v\<close>, which C++ leaves undefined.
\<close>

definition signed_arith :: "nat \<Rightarrow> int \<Rightarrow> int option" where
  "signed_arith n v =
     (let p = max n 32
      in if - (2 ^ (p - 1)) \<le> v \<and> v < 2 ^ (p - 1) then Some (signed_take_bit (n - 1) v) else None)"

fun parseSignedLoop ::
    "nat \<Rightarrow> int \<Rightarrow> int \<Rightarrow> bool \<Rightarrow> int \<Rightarrow> string \<Rightarrow> (NumberParseError, int) outcome option" where
  "parseSignedLoop n LastStep lastDigit ovf acc [] = Some (if ovf then Fail Overflow else Ok acc)"
| "parseSignedLoop n LastStep lastDigit ovf acc (c # cs) =
     (if \<not> is_digit c then Some (Fail Invalid)
      else if ovf then parseSignedLoop n LastStep lastDigit ovf acc cs
      else (let d = int (digit_val c)
            in if acc < LastStep \<or> (acc = LastStep \<and> d \<le> lastDigit)
               then (case signed_arith n (acc * 10 + d) of
                       None \<Rightarrow> None
                     | Some acc' \<Rightarrow> parseSignedLoop n LastStep lastDigit ovf acc' cs)
               else parseSignedLoop n LastStep lastDigit True acc cs))"

text \<open>
  \<open>None\<close>: the run performs an operation C++ leaves undefined.  An error inside the loop
  returns at once; the sign is applied to the result of the loop.
\<close>

definition parseDecimalSignedInteger ::
    "nat \<Rightarrow> int \<Rightarrow> int \<Rightarrow> int \<Rightarrow> string \<Rightarrow> (NumberParseError, int) outcome option" where
  "parseDecimalSignedInteger n LastStep PositiveLastDigit NegativeLastDigit s =
     (case s of
        [] \<Rightarrow> Some (Fail Invalid)
      | c # cs \<Rightarrow>
          if c = CHR ''-'' then
            (if cs = [] then Some (Fail Invalid)
             else (case parseSignedLoop n LastStep NegativeLastDigit False 0 cs of
                     None \<Rightarrow> None
                   | Some (Inl e) \<Rightarrow> Some (Fail e)
                   | Some (Inr acc) \<Rightarrow> map_option Ok (signed_arith n (- acc))))
          else if c = CHR ''+'' then
            (if cs = [] then Some (Fail Invalid)
             else parseSignedLoop n LastStep PositiveLastDigit False 0 cs)
          else parseSignedLoop n LastStep PositiveLastDigit False 0 s)"

definition parseDecimalInt64 :: "string \<Rightarrow> (NumberParseError, int) outcome option" where
  "parseDecimalInt64 = parseDecimalSignedInteger 64 922337203685477580 7 8"

definition parseDecimalInt32 :: "string \<Rightarrow> (NumberParseError, int) outcome option" where
  "parseDecimalInt32 = parseDecimalSignedInteger 32 214748364 7 8"

definition parseDecimalInt16 :: "string \<Rightarrow> (NumberParseError, int) outcome option" where
  "parseDecimalInt16 = parseDecimalSignedInteger 16 3276 7 8"

definition parseDecimalInt8 :: "string \<Rightarrow> (NumberParseError, int) outcome option" where
  "parseDecimalInt8 = parseDecimalSignedInteger 8 12 7 8"

definition parseDecimalInt64C :: "string \<Rightarrow> (NumberParseError, int) outcome option" where
  "parseDecimalInt64C mem = parseDecimalInt64 (cstring mem)"

definition parseDecimalInt32C :: "string \<Rightarrow> (NumberParseError, int) outcome option" where
  "parseDecimalInt32C mem = parseDecimalInt32 (cstring mem)"

definition parseDecimalInt16C :: "string \<Rightarrow> (NumberParseError, int) outcome option" where
  "parseDecimalInt16C mem = parseDecimalInt16 (cstring mem)"

definition parseDecimalInt8C :: "string \<Rightarrow> (NumberParseError, int) outcome option" where
  "parseDecimalInt8C mem = parseDecimalInt8 (cstring mem)"

subsection \<open>What the signed parsers compute\<close>

text \<open>
  \<open>reaches B a cs\<close>: reading digits from the value \<open>a\<close>, some prefix of \<open>cs\<close> has the
  value \<open>B\<close>.  With \<open>B\<close> the magnitude of the least value of the target type this is where
  the accumulator leaves the target's range.
\<close>

fun reaches :: "nat \<Rightarrow> nat \<Rightarrow> string \<Rightarrow> bool" where
  "reaches B a [] = False"
| "reaches B a (c # cs) =
     (is_digit c \<and> (a * 10 + digit_val c = B \<or> reaches B (a * 10 + digit_val c) cs))"

fun reaches_min :: "nat \<Rightarrow> string \<Rightarrow> bool" where
  "reaches_min B [] = False"
| "reaches_min B (c # cs) = (c = CHR ''-'' \<and> reaches B 0 cs)"

definition signed_spec :: "nat \<Rightarrow> string \<Rightarrow> (NumberParseError, int) outcome" where
  "signed_spec B s =
     (case s of
        [] \<Rightarrow> Fail Invalid
      | c # cs \<Rightarrow>
          if c = CHR ''-'' then map_sum id (\<lambda>v. - int v) (unsigned_spec (Suc B) cs)
          else if c = CHR ''+'' then map_sum id int (unsigned_spec B cs)
          else map_sum id int (unsigned_spec B s))"

lemma reaches_above: "B < a \<Longrightarrow> \<not> reaches B a cs"
proof (induction cs arbitrary: a)
  case (Cons c cs)
  then have "B < a * 10 + digit_val c" by simp
  with Cons.IH show ?case by simp
qed simp

lemma reaches_value: "\<not> reaches B a cs \<Longrightarrow> a \<noteq> B \<Longrightarrow> list_all is_digit cs \<Longrightarrow> digits_value a cs \<noteq> B"
  by (induction cs arbitrary: a) auto

lemma parseSignedLoop_ovf:
  "parseSignedLoop n LastStep ld True acc cs =
     Some (if list_all is_digit cs then Fail Overflow else Fail Invalid)"
  by (induction cs) auto

lemma signed_arith_exact:
  assumes "- (2 ^ (n - 1)) \<le> v" and "v < 2 ^ (n - 1)"
  shows "signed_arith n v = Some v"
proof -
  have "(2 :: int) ^ (n - 1) \<le> 2 ^ (max n 32 - 1)" by (rule power_increasing) auto
  then have "- (2 ^ (max n 32 - 1)) \<le> v" "v < 2 ^ (max n 32 - 1)"
    using assms by linarith+
  moreover have "signed_take_bit (n - 1) v = v"
    using assms by (simp add: signed_take_bit_int_eq_self_iff)
  ultimately show ?thesis by (simp add: signed_arith_def Let_def)
qed

locale sint_limits =
  fixes n :: nat and B :: nat and LastStep :: int and PosLast :: int and NegLast :: int
  assumes B_def: "B = 2 ^ (n - 1)"
    and steps: "int B = LastStep * 10 + NegLast" "NegLast = PosLast + 1" "0 \<le> PosLast" "NegLast \<le> 9"
    and width: "n \<noteq> 0"
begin

lemma B_int: "(2 :: int) ^ (n - Suc 0) = int B"
  by (simp add: B_def)

lemma B_nat: "(2 :: nat) ^ (n - Suc 0) = B"
  by (simp add: B_def)

lemma B_pos: "0 < B"
  by (simp add: B_def)

lemma arith_exact: "v < B \<Longrightarrow> signed_arith n (int v) = Some (int v)"
  by (rule signed_arith_exact) (auto simp: B_int)

lemma arith_neg_exact: "v < B \<Longrightarrow> signed_arith n (- int v) = Some (- int v)"
  by (rule signed_arith_exact) (auto simp: B_int)

lemma arith_neg_min: "signed_arith n (- int B) = Some (- int B)"
  using B_pos by (intro signed_arith_exact) (auto simp: B_int)

lemma arith_min: "signed_arith n (int B) = (if 32 \<le> n then None else Some (- int B))"
proof (cases "32 \<le> n")
  case True
  then have "max n 32 - 1 = n - 1" by simp
  then show ?thesis using True by (simp add: signed_arith_def Let_def B_int B_nat)
next
  case False
  then have "(2 :: int) ^ (n - 1) < 2 ^ (max n 32 - 1)"
    by (intro power_strict_increasing) auto
  then have "int B < 2 ^ (max n 32 - 1)" by (simp add: B_int)
  moreover have "signed_take_bit (n - 1) (int B) = - int B"
    by (simp add: signed_take_bit_eq_if_negative B_def bit_exp_iff mask_eq_exp_minus_1 not_int_def flip: B_int)
  ultimately show ?thesis using False by (simp add: signed_arith_def Let_def)
qed

lemma accept_neg:
  "d < 10 \<Longrightarrow> int a < LastStep \<or> int a = LastStep \<and> int d \<le> NegLast \<longleftrightarrow> a * 10 + d \<le> B"
  using steps by linarith

lemma accept_pos:
  "d < 10 \<Longrightarrow> int a < LastStep \<or> int a = LastStep \<and> int d \<le> PosLast \<longleftrightarrow> a * 10 + d < B"
  using steps by linarith

lemma loop_pos:
  "a < B \<Longrightarrow> parseSignedLoop n LastStep PosLast False (int a) cs =
     Some (if \<not> list_all is_digit cs then Fail Invalid
           else if digits_value a cs < B then Ok (int (digits_value a cs)) else Fail Overflow)"
proof (induction cs arbitrary: a)
  case (Cons c cs)
  show ?case
  proof (cases "is_digit c")
    case dig: True
    let ?a = "a * 10 + digit_val c"
    have acc: "int a < LastStep \<or> int a = LastStep \<and> int (digit_val c) \<le> PosLast \<longleftrightarrow> ?a < B"
      by (rule accept_pos) (rule digit_val_less [OF dig])
    have val: "int a * 10 + int (digit_val c) = int ?a" by simp
    show ?thesis
    proof (cases "?a < B")
      case True
      with Cons.IH [OF True] dig acc show ?thesis
        by (simp only: parseSignedLoop.simps Let_def val arith_exact [OF True]) simp
    next
      case False
      then have "\<not> digits_value ?a cs < B" using digits_value_mono [of ?a cs] by simp
      with False dig acc show ?thesis by (auto simp: Let_def parseSignedLoop_ovf)
    qed
  qed simp
qed simp

text \<open>With the digit of the least value allowed, as after a minus sign.\<close>

lemma loop_neg:
  "a < B \<Longrightarrow> \<not> reaches B a cs \<Longrightarrow> parseSignedLoop n LastStep NegLast False (int a) cs =
     Some (if \<not> list_all is_digit cs then Fail Invalid
           else if digits_value a cs < B then Ok (int (digits_value a cs)) else Fail Overflow)"
proof (induction cs arbitrary: a)
  case (Cons c cs)
  show ?case
  proof (cases "is_digit c")
    case dig: True
    let ?a = "a * 10 + digit_val c"
    have acc: "int a < LastStep \<or> int a = LastStep \<and> int (digit_val c) \<le> NegLast \<longleftrightarrow> ?a \<le> B"
      by (rule accept_neg) (rule digit_val_less [OF dig])
    have val: "int a * 10 + int (digit_val c) = int ?a" by simp
    from Cons.prems dig have nr: "?a \<noteq> B" "\<not> reaches B ?a cs" by auto
    show ?thesis
    proof (cases "?a < B")
      case True
      with Cons.IH [OF True nr(2)] dig acc show ?thesis
        by (simp only: parseSignedLoop.simps Let_def val arith_exact [OF True]) simp
    next
      case False
      then have "\<not> digits_value ?a cs < B" using digits_value_mono [of ?a cs] by simp
      with False nr dig acc show ?thesis by (auto simp: Let_def parseSignedLoop_ovf)
    qed
  qed simp
qed simp

lemma loop_min_wide:
  "32 \<le> n \<Longrightarrow> a < B \<Longrightarrow> reaches B a cs \<Longrightarrow> parseSignedLoop n LastStep NegLast False (int a) cs = None"
proof (induction cs arbitrary: a)
  case (Cons c cs)
  let ?a = "a * 10 + digit_val c"
  from Cons.prems have dig: "is_digit c" by simp
  have acc: "int a < LastStep \<or> int a = LastStep \<and> int (digit_val c) \<le> NegLast \<longleftrightarrow> ?a \<le> B"
    by (rule accept_neg) (rule digit_val_less [OF dig])
  have val: "int a * 10 + int (digit_val c) = int ?a" by simp
  consider "?a < B" | "?a = B" | "B < ?a" by linarith
  then show ?case
  proof cases
    case 1
    with Cons.prems have "reaches B ?a cs" by auto
    with Cons.IH [OF Cons.prems(1) 1] dig acc 1 show ?thesis
      by (simp only: parseSignedLoop.simps Let_def val arith_exact [OF 1]) simp
  next
    case 2
    with dig acc Cons.prems(1) arith_min show ?thesis
      by (simp only: parseSignedLoop.simps Let_def val 2) simp
  next
    case 3
    with Cons.prems reaches_above [OF 3] show ?thesis by auto
  qed
qed simp

lemma loop_min_narrow:
  "n < 32 \<Longrightarrow> a < B \<Longrightarrow> list_all is_digit cs \<Longrightarrow> digits_value a cs = B \<Longrightarrow>
   parseSignedLoop n LastStep NegLast False (int a) cs = Some (Ok (- int B))"
proof (induction cs arbitrary: a)
  case (Cons c cs)
  let ?a = "a * 10 + digit_val c"
  from Cons.prems have dig: "is_digit c" by simp
  have acc: "int a < LastStep \<or> int a = LastStep \<and> int (digit_val c) \<le> NegLast \<longleftrightarrow> ?a \<le> B"
    by (rule accept_neg) (rule digit_val_less [OF dig])
  have val: "int a * 10 + int (digit_val c) = int ?a" by simp
  have "?a \<le> B" using digits_value_mono [of ?a cs] Cons.prems by simp
  then consider "?a < B" | "?a = B" by linarith
  then show ?case
  proof cases
    case 1
    with Cons.IH [OF Cons.prems(1) 1] Cons.prems dig acc show ?thesis
      by (simp only: parseSignedLoop.simps Let_def val arith_exact [OF 1]) simp
  next
    case 2
    have "cs = []"
    proof (cases cs)
      case (Cons d ds)
      have "B * 10 \<le> digits_value (B * 10 + digit_val d) ds"
        by (rule order_trans [OF _ digits_value_mono]) simp
      with Cons.prems 2 Cons have "B * 10 \<le> B" by simp
      then show ?thesis using \<open>a < B\<close> by simp
    qed
    with 2 dig acc Cons.prems(1) arith_min show ?thesis
      by (simp only: parseSignedLoop.simps Let_def val 2) simp
  qed
qed simp

lemma zero_loop:
  "parseSignedLoop n LastStep PosLast False 0 cs =
     Some (if \<not> list_all is_digit cs then Fail Invalid
           else if digits_value 0 cs < B then Ok (int (digits_value 0 cs)) else Fail Overflow)"
  using loop_pos [OF B_pos] by simp

lemma parse_signed_spec:
  assumes "\<not> reaches_min B s"
  shows "parseDecimalSignedInteger n LastStep PosLast NegLast s = Some (signed_spec B s)"
proof (cases s)
  case Nil
  then show ?thesis by (simp add: parseDecimalSignedInteger_def signed_spec_def)
next
  case (Cons c cs)
  show ?thesis
  proof (cases "c = CHR ''-''")
    case True
    with assms Cons have nr: "\<not> reaches B 0 cs" by simp
    then have "list_all is_digit cs \<Longrightarrow> digits_value 0 cs \<noteq> B"
      using reaches_value [OF nr] B_pos by simp
    then show ?thesis
      using True Cons loop_neg [OF B_pos nr]
      by (auto simp: parseDecimalSignedInteger_def signed_spec_def unsigned_spec_def arith_neg_exact)
  next
    case False
    then show ?thesis
      using Cons
      by (auto simp: parseDecimalSignedInteger_def signed_spec_def unsigned_spec_def zero_loop
          simp del: parseSignedLoop.simps digits_value.simps list.pred_inject)
  qed
qed

lemma parse_signed_wide:
  assumes "32 \<le> n"
  shows "parseDecimalSignedInteger n LastStep PosLast NegLast s =
           (if reaches_min B s then None else Some (signed_spec B s))"
proof (cases "reaches_min B s")
  case True
  then obtain cs where "s = CHR ''-'' # cs" "reaches B 0 cs" by (cases s) auto
  moreover from this have "cs \<noteq> []" by auto
  ultimately show ?thesis
    using True loop_min_wide [OF assms B_pos] by (simp add: parseDecimalSignedInteger_def)
next
  case False
  then show ?thesis by (simp add: parse_signed_spec)
qed

lemma parse_signed_narrow_min:
  assumes "n < 32" and "list_all is_digit cs" and "digits_value 0 cs = B"
  shows "parseDecimalSignedInteger n LastStep PosLast NegLast (CHR ''-'' # cs) = Some (Ok (- int B))"
proof -
  have "cs \<noteq> []" using assms(3) B_pos by auto
  moreover have "signed_arith n (int B) = Some (- int B)" using assms(1) by (simp add: arith_min)
  ultimately show ?thesis
    using loop_min_narrow [OF assms(1) B_pos assms(2,3)]
    by (simp add: parseDecimalSignedInteger_def)
qed

end

interpretation s64: sint_limits 64 "2 ^ 63" 922337203685477580 7 8 by unfold_locales simp_all
interpretation s32: sint_limits 32 "2 ^ 31" 214748364 7 8 by unfold_locales simp_all
interpretation s16: sint_limits 16 "2 ^ 15" 3276 7 8 by unfold_locales simp_all
interpretation s8: sint_limits 8 "2 ^ 7" 12 7 8 by unfold_locales simp_all

text \<open>the 64-bit and 32-bit signed parsers compute the signed decimal value of every input
  except those whose digits after a minus sign pass through the magnitude of the least value of
  the type: there, so also on the least value itself, the accumulator overflows its signed type
  and the run is undefined.\<close>

theorem parse_signed_wide_correct:
  "parseDecimalInt64 s = (if reaches_min (2 ^ 63) s then None else Some (signed_spec (2 ^ 63) s)) \<and>
   parseDecimalInt32 s = (if reaches_min (2 ^ 31) s then None else Some (signed_spec (2 ^ 31) s))"
  using s64.parse_signed_wide s32.parse_signed_wide
  by (simp add: parseDecimalInt64_def parseDecimalInt32_def)

text \<open>the 16-bit and 8-bit signed parsers compute the signed decimal value of every input
  whose digits after a minus sign do not pass through the magnitude of the least value.\<close>

theorem parse_signed_narrow_correct:
  assumes "\<not> reaches_min (2 ^ 15) s" and "\<not> reaches_min (2 ^ 7) s"
  shows "parseDecimalInt16 s = Some (signed_spec (2 ^ 15) s) \<and>
         parseDecimalInt8 s = Some (signed_spec (2 ^ 7) s)"
  using s16.parse_signed_spec [OF assms(1)] s8.parse_signed_spec [OF assms(2)]
  by (simp add: parseDecimalInt16_def parseDecimalInt8_def)

theorem parse_signed_narrow_correct_witness:
  "parseDecimalInt16 ''-12'' = Some (signed_spec (2 ^ 15) ''-12'') \<and>
   parseDecimalInt8 ''-12'' = Some (signed_spec (2 ^ 7) ''-12'')"
  by (rule parse_signed_narrow_correct) simp_all

lemma digit_val_cases:
  assumes "is_digit c"
  shows "digit_val c \<in> {0, 1, 2, 3, 4, 5, 6, 7, 8, 9}"
  using digit_val_less [OF assms] by auto

text \<open>past the least value of a narrow type the digits of an input are no longer checked for
  overflow: the least value followed by one more digit, a number ten times below the range of the
  type, is accepted and read as that digit negated.\<close>

theorem parse_signed_narrow_wraps:
  assumes "is_digit c"
  shows "parseDecimalInt8 (''-128'' @ [c]) = Some (Ok (- int (digit_val c))) \<and>
         parseDecimalInt16 (''-32768'' @ [c]) = Some (Ok (- int (digit_val c))) \<and>
         signed_spec (2 ^ 7) (''-128'' @ [c]) = Fail Overflow"
  using assms digit_val_cases [OF assms]
  by (auto simp: parseDecimalInt8_def parseDecimalInt16_def parseDecimalSignedInteger_def
      signed_arith_def signed_spec_def unsigned_spec_def Let_def)

theorem parse_signed_narrow_wraps_witness:
  "parseDecimalInt8 ''-1285'' = Some (Ok (- 5)) \<and> parseDecimalInt16 ''-327685'' = Some (Ok (- 5)) \<and>
   signed_spec (2 ^ 7) ''-1285'' = Fail Overflow"
  using parse_signed_narrow_wraps [of "CHR ''5''"] by simp

end
