(* ===== verification/IPv4Parsers.thy ===== *)
theory IPv4Parsers
  imports IPv4
begin

text \<open>
  The address and prefix parsers of \<open>lib/pimc/parsers/IPv4Parsers.hpp\<close>.  An iterator into the
  input is the list of the characters from it to the end, so equality of iterators of one input is
  equality of lists; as in the code a parser signals failure by returning the iterator it was given.
\<close>

section \<open>Bounded numbers\<close>

fun boundedLoop :: "u32 \<Rightarrow> string \<Rightarrow> u32 \<Rightarrow> bool \<Rightarrow> string \<Rightarrow> u32 \<times> string" where
  "boundedLoop MaxVal first oct haveDigs [] = (if \<not> haveDigs then (0, first) else (oct, []))"
| "boundedLoop MaxVal first oct haveDigs (c # cs) =
     (if is_digit c then
        (let oct' = oct * 10 + of_nat (digit_val c)
         in if MaxVal < oct' then (0, first) else boundedLoop MaxVal first oct' True cs)
      else if \<not> haveDigs then (0, first) else (oct, c # cs))"

definition parseBoundedUInt :: "u32 \<Rightarrow> string \<Rightarrow> u32 \<times> string" where
  "parseBoundedUInt MaxVal first = boundedLoop MaxVal first 0 False first"

section \<open>Addresses\<close>

text \<open>The check after each of the first three octets: no digits, end of input, or not a dot.\<close>

definition badOctet :: "string \<Rightarrow> string \<Rightarrow> bool" where
  "badOctet is ii \<longleftrightarrow> is = ii \<or> is = [] \<or> hd is \<noteq> CHR ''.''"

definition parseIPv4AddressImpl :: "string \<Rightarrow> u32 \<times> string" where
  "parseIPv4AddressImpl first =
     (let (o1, is1) = parseBoundedUInt 255 first in
      if badOctet is1 first then (0, first) else
      let ii2 = tl is1; (o2, is2) = parseBoundedUInt 255 ii2 in
      if badOctet is2 ii2 then (0, first) else
      let ii3 = tl is2; (o3, is3) = parseBoundedUInt 255 ii3 in
      if badOctet is3 ii3 then (0, first) else
      let ii4 = tl is3; (o4, is4) = parseBoundedUInt 255 ii4 in
      if is4 = ii4 then (0, first) else
      (push_bit 24 o1 + push_bit 16 o2 + push_bit 8 o3 + o4, is4))"

definition parseIPv4Address :: "string \<Rightarrow> IPv4Address option" where
  "parseIPv4Address s =
     (case parseIPv4AddressImpl s of (addr, is) \<Rightarrow> if is \<noteq> [] then None else Some (IPv4Address addr))"

definition parseIPv4AddressC :: "string \<Rightarrow> IPv4Address option" where
  "parseIPv4AddressC mem = parseIPv4Address (cstring mem)"

section \<open>Prefixes\<close>

definition parseIPv4PrefixLengthImpl :: "string \<Rightarrow> u32 \<times> string" where
  "parseIPv4PrefixLengthImpl first =
     (case first of
        [] \<Rightarrow> (0, first)
      | c # ii \<Rightarrow>
          if c \<noteq> CHR ''/'' then (0, first)
          else (case parseBoundedUInt 32 ii of
                  (plen, is) \<Rightarrow> if is = ii then (0, first) else (plen, is)))"

text \<open>\<open>IPv4Prefix::make\<close> throws on an illegal length: the outer result is its exception.\<close>

definition parseIPv4Prefix :: "string \<Rightarrow> (ip_error, IPv4Prefix option) outcome" where
  "parseIPv4Prefix first =
     (case parseIPv4AddressImpl first of (addr, is) \<Rightarrow>
      if is = first \<or> is = [] then Ok None else
      (case parseIPv4PrefixLengthImpl is of (plen, is') \<Rightarrow>
       if is' = is \<or> is' \<noteq> [] then Ok None
       else and_then (make (IPv4Address addr) plen) (\<lambda>p. Ok (Some p))))"

definition parseIPv4PrefixC :: "string \<Rightarrow> (ip_error, IPv4Prefix option) outcome" where
  "parseIPv4PrefixC mem = parseIPv4Prefix (cstring mem)"

section \<open>What the bounded number parser computes\<close>

text \<open>A numeral at the start of the input: its digits, and what follows them.\<close>

definition digits_of :: "string \<Rightarrow> string" where
  "digits_of s = takeWhile is_digit s"

definition after_digits :: "string \<Rightarrow> string" where
  "after_digits s = dropWhile is_digit s"

lemma boundedLoop_spec:
  assumes "unat MaxVal < 429496729" and "unat oct \<le> unat MaxVal"
  shows "boundedLoop MaxVal first oct have s =
     (let v = digits_value (unat oct) (digits_of s)
      in if (\<not> have \<and> digits_of s = []) \<or> unat MaxVal < v then (0, first) else (of_nat v, after_digits s))"
  using assms(2)
proof (induction s arbitrary: oct "have")
  case Nil
  then show ?case by (simp add: digits_of_def after_digits_def)
next
  case (Cons c cs)
  show ?case
  proof (cases "is_digit c")
    case True
    then have d: "digit_val c < 10" by (rule digit_val_less)
    let ?o = "oct * 10 + of_nat (digit_val c)"
    have u: "unat ?o = unat oct * 10 + digit_val c"
      using Cons.prems assms(1) d by (simp add: unat_word_ariths unat_of_nat_small)
    have m: "MaxVal < ?o \<longleftrightarrow> unat MaxVal < unat ?o" by (simp add: word_less_nat_alt)
    show ?thesis
    proof (cases "unat MaxVal < unat ?o")
      case big: True
      then have "unat MaxVal < digits_value (unat oct * 10 + digit_val c) (digits_of cs)"
        using u digits_value_mono [of "unat oct * 10 + digit_val c" "digits_of cs"] by linarith
      with big True u m show ?thesis
        by (simp add: digits_of_def Let_def)
    next
      case False
      with Cons.IH [of ?o True] True u m show ?thesis
        by (simp add: digits_of_def after_digits_def Let_def)
    qed
  next
    case False
    with Cons.prems show ?thesis by (simp add: digits_of_def after_digits_def)
  qed
qed

lemma parseBoundedUInt_spec:
  assumes "unat MaxVal < 429496729"
  shows "parseBoundedUInt MaxVal s =
     (if digits_of s = [] \<or> unat MaxVal < digits_value 0 (digits_of s) then (0, s)
      else (of_nat (digits_value 0 (digits_of s)), after_digits s))"
  using boundedLoop_spec [OF assms, of 0 s False s] by (simp add: parseBoundedUInt_def Let_def)

section \<open>The accepted addresses\<close>

text \<open>The digits of an octet: at least one, leading zeros allowed, of value at most 255.\<close>

definition octet_text :: "u8 \<Rightarrow> string \<Rightarrow> bool" where
  "octet_text x t \<longleftrightarrow> t \<noteq> [] \<and> list_all is_digit t \<and> digits_value 0 t = unat x"

definition octet_ok :: "string \<Rightarrow> bool" where
  "octet_ok s \<longleftrightarrow> digits_of s \<noteq> [] \<and> digits_value 0 (digits_of s) \<le> 255"

definition octet_val :: "string \<Rightarrow> u8" where
  "octet_val s = of_nat (digits_value 0 (digits_of s))"

lemma digits_split: "s = digits_of s @ after_digits s"
  by (simp add: digits_of_def after_digits_def)

lemma digits_of_digits: "list_all is_digit (digits_of s)"
  by (auto simp: digits_of_def list_all_iff dest: set_takeWhileD)

lemma digits_of_append:
  "list_all is_digit t \<Longrightarrow> \<not> is_digit c \<Longrightarrow> digits_of (t @ c # r) = t \<and> after_digits (t @ c # r) = c # r"
  by (simp add: digits_of_def after_digits_def list_all_iff)

lemma digits_of_all: "list_all is_digit t \<Longrightarrow> digits_of t = t \<and> after_digits t = []"
  by (simp add: digits_of_def after_digits_def list_all_iff)

lemma after_digits_neq: "digits_of s \<noteq> [] \<Longrightarrow> after_digits s \<noteq> s"
  using digits_split [of s] by (metis append_self_conv2)

lemma parse_octet:
  "parseBoundedUInt 255 s = (if octet_ok s then (ucast (octet_val s), after_digits s) else (0, s))"
proof (cases "octet_ok s")
  case True
  then have "unat (octet_val s) = digits_value 0 (digits_of s)"
    by (simp add: octet_ok_def octet_val_def unat_of_nat_small)
  then have "(of_nat (unat (octet_val s)) :: u32) = of_nat (digits_value 0 (digits_of s))"
    by (simp only:)
  then have "(ucast (octet_val s) :: u32) = of_nat (digits_value 0 (digits_of s))"
    by simp
  with True show ?thesis by (simp add: parseBoundedUInt_spec octet_ok_def)
next
  case False
  then show ?thesis by (auto simp: parseBoundedUInt_spec octet_ok_def)
qed

lemma octet_ok_neq: "octet_ok s \<Longrightarrow> after_digits s \<noteq> s"
  by (simp add: octet_ok_def after_digits_neq)

text \<open>One octet and the dot after it, as the input they leave.\<close>

definition octet_dot :: "string \<Rightarrow> string option" where
  "octet_dot s = (if octet_ok s then
      (case after_digits s of c # r \<Rightarrow> if c = CHR ''.'' then Some r else None | [] \<Rightarrow> None) else None)"

lemma octet_dot_iff:
  "octet_dot s = Some r \<longleftrightarrow>
     (\<exists>t. s = t @ CHR ''.'' # r \<and> octet_text (octet_val s) t)"
proof
  assume "octet_dot s = Some r"
  then have "octet_ok s" "after_digits s = CHR ''.'' # r"
    by (auto simp: octet_dot_def split: if_splits list.splits)
  then show "\<exists>t. s = t @ CHR ''.'' # r \<and> octet_text (octet_val s) t"
    using digits_split [of s] digits_of_digits [of s]
    by (intro exI [of _ "digits_of s"])
      (simp add: octet_text_def octet_ok_def octet_val_def unat_of_nat_small)
next
  assume "\<exists>t. s = t @ CHR ''.'' # r \<and> octet_text (octet_val s) t"
  then obtain t where t: "s = t @ CHR ''.'' # r" "octet_text (octet_val s) t" by blast
  then have "digits_of s = t" "after_digits s = CHR ''.'' # r"
    using digits_of_append [of t "CHR ''.''" r] by (simp_all add: octet_text_def)
  with t(2) show "octet_dot s = Some r"
    by (simp add: octet_dot_def octet_ok_def octet_text_def less_Suc_eq_le [symmetric])
qed

lemma octet_dot_None:
  "octet_dot x = None \<Longrightarrow> badOctet (snd (parseBoundedUInt 255 x)) x"
  by (auto simp: parse_octet badOctet_def octet_dot_def split: list.splits if_splits)

lemma octet_dot_Some:
  assumes "octet_dot x = Some r"
  shows "parseBoundedUInt 255 x = (ucast (octet_val x), CHR ''.'' # r) \<and> \<not> badOctet (CHR ''.'' # r) x"
  using assms octet_ok_neq [of x]
  by (auto simp: parse_octet badOctet_def octet_dot_def split: list.splits if_splits)

lemma parseIPv4AddressImpl_eq:
  "parseIPv4AddressImpl s =
     (case octet_dot s of None \<Rightarrow> (0, s)
      | Some s2 \<Rightarrow> (case octet_dot s2 of None \<Rightarrow> (0, s)
      | Some s3 \<Rightarrow> (case octet_dot s3 of None \<Rightarrow> (0, s)
      | Some s4 \<Rightarrow> if octet_ok s4
          then (addr_val (ofOctets (octet_val s) (octet_val s2) (octet_val s3) (octet_val s4)), after_digits s4)
          else (0, s))))"
proof (cases "octet_dot s")
  case None
  with octet_dot_None [OF None] show ?thesis
    by (simp add: parseIPv4AddressImpl_def case_prod_beta Let_def)
next
  case s2: (Some s2)
  note d1 = octet_dot_Some [OF s2]
  show ?thesis
  proof (cases "octet_dot s2")
    case None
    with d1 s2 octet_dot_None [OF None] show ?thesis
      by (simp add: parseIPv4AddressImpl_def case_prod_beta Let_def)
  next
    case s3: (Some s3)
    note d2 = octet_dot_Some [OF s3]
    show ?thesis
    proof (cases "octet_dot s3")
      case None
      with d1 d2 s2 s3 octet_dot_None [OF None] show ?thesis
        by (simp add: parseIPv4AddressImpl_def case_prod_beta Let_def)
    next
      case s4: (Some s4)
      with d1 d2 s2 s3 octet_dot_Some [OF s4] octet_ok_neq [of s4] show ?thesis
        by (simp add: parseIPv4AddressImpl_def case_prod_beta Let_def parse_octet ofOctets_def)
    qed
  qed
qed

lemma octet_text_unique: "octet_text x t \<Longrightarrow> octet_text y t \<Longrightarrow> x = y"
  by (simp add: octet_text_def word_unat_eq_iff)

lemma octet_text_digits_of:
  assumes "octet_text x t" and "\<not> is_digit c"
  shows "octet_val (t @ c # r) = x" and "octet_val t = x" and "octet_ok t"
proof -
  have t: "list_all is_digit t" "digits_value 0 t = unat x" "t \<noteq> []"
    using assms(1) by (auto simp: octet_text_def)
  then show "octet_val (t @ c # r) = x" "octet_val t = x" "octet_ok t"
    using digits_of_append [OF t(1) assms(2)] digits_of_all [OF t(1)] unat_u8_less [of x]
    by (simp_all add: octet_val_def octet_ok_def less_Suc_eq_le [symmetric])
qed

lemma octet_ok_text: "octet_ok s \<Longrightarrow> octet_text (octet_val s) (digits_of s)"
  by (simp add: octet_ok_def octet_text_def octet_val_def digits_of_digits unat_of_nat_small)

definition dotted :: "IPv4Address \<Rightarrow> string \<Rightarrow> bool" where
  "dotted a s \<longleftrightarrow> (\<exists>t1 t2 t3 t4. s = t1 @ ''.'' @ t2 @ ''.'' @ t3 @ ''.'' @ t4 \<and>
     octet_text (oct1 a) t1 \<and> octet_text (oct2 a) t2 \<and> octet_text (oct3 a) t3 \<and> octet_text (oct4 a) t4)"

lemma Impl_sound:
  assumes "parseIPv4AddressImpl s = (v, rs)" and "rs \<noteq> s"
  shows "\<exists>t. s = t @ rs \<and> dotted (IPv4Address v) t"
proof -
  from assms obtain s2 s3 s4 where
      s2: "octet_dot s = Some s2" and s3: "octet_dot s2 = Some s3" and s4: "octet_dot s3 = Some s4"
      and ok: "octet_ok s4" and rs: "rs = after_digits s4"
      and v: "v = addr_val (ofOctets (octet_val s) (octet_val s2) (octet_val s3) (octet_val s4))"
    by (auto simp: parseIPv4AddressImpl_eq split: option.splits if_splits)
  obtain t1 where t1: "s = t1 @ CHR ''.'' # s2" "octet_text (octet_val s) t1"
    using s2 octet_dot_iff by blast
  obtain t2 where t2: "s2 = t2 @ CHR ''.'' # s3" "octet_text (octet_val s2) t2"
    using s3 octet_dot_iff by blast
  obtain t3 where t3: "s3 = t3 @ CHR ''.'' # s4" "octet_text (octet_val s3) t3"
    using s4 octet_dot_iff by blast
  have "dotted (IPv4Address v) (t1 @ ''.'' @ t2 @ ''.'' @ t3 @ ''.'' @ digits_of s4)"
    unfolding dotted_def v using t1(2) t2(2) t3(2) octet_ok_text [OF ok]
    by (intro exI conjI) simp_all
  moreover have "s = (t1 @ ''.'' @ t2 @ ''.'' @ t3 @ ''.'' @ digits_of s4) @ rs"
    by (subst t1(1), subst t2(1), subst t3(1), subst digits_split [of s4]) (simp add: rs)
  ultimately show ?thesis by blast
qed

lemma Impl_complete:
  assumes "dotted a t" and "r = [] \<or> \<not> is_digit (hd r)"
  shows "parseIPv4AddressImpl (t @ r) = (addr_val a, r)"
proof -
  from assms(1) obtain t1 t2 t3 t4 where
      t: "t = t1 @ CHR ''.'' # t2 @ CHR ''.'' # t3 @ CHR ''.'' # t4"
      and o: "octet_text (oct1 a) t1" "octet_text (oct2 a) t2" "octet_text (oct3 a) t3" "octet_text (oct4 a) t4"
    by (auto simp: dotted_def)
  have dot: "octet_dot (u @ CHR ''.'' # w) = Some w \<and> octet_val (u @ CHR ''.'' # w) = x"
    if "octet_text x u" for x u w
  proof -
    have "octet_val (u @ CHR ''.'' # w) = x" using that by (rule octet_text_digits_of) simp
    with that show ?thesis by (auto simp: octet_dot_iff)
  qed
  have t4: "list_all is_digit t4" using o(4) by (simp add: octet_text_def)
  have last: "digits_of (t4 @ r) = t4 \<and> after_digits (t4 @ r) = r"
    using assms(2) digits_of_all [OF t4] digits_of_append [OF t4, of "hd r" "tl r"] by (cases r) auto
  then have "octet_ok (t4 @ r)" "octet_val (t4 @ r) = oct4 a"
    using octet_text_digits_of(2,3) [OF o(4), of "CHR ''.''"] digits_of_all [OF t4]
    by (simp_all add: octet_ok_def octet_val_def)
  then show ?thesis
    using dot [OF o(1)] dot [OF o(2)] dot [OF o(3)] last by (simp add: parseIPv4AddressImpl_eq t)
qed

lemma dotted_nonempty: "dotted a t \<Longrightarrow> t \<noteq> []"
  by (auto simp: dotted_def)

lemma dec_string_octet: "octet_text x (dec_string (unat x))"
  by (simp add: octet_text_def list_all_iff dec_string_digits)

lemma dotted_addr_string: "dotted a (addr_string a)"
  unfolding dotted_def addr_string_def by (intro exI conjI, rule refl) (rule dec_string_octet)+

text \<open>C40: the address parser accepts exactly the dotted decimal forms of an address, with any leading
  zeros in its octets, and the empty input, for which it returns the address 0.0.0.0.\<close>

theorem parseIPv4Address_iff:
  "parseIPv4Address s = Some a \<longleftrightarrow> dotted a s \<or> (s = [] \<and> a = IPv4Address 0)"
proof
  assume p: "parseIPv4Address s = Some a"
  then have i: "parseIPv4AddressImpl s = (addr_val a, [])"
    by (auto simp: parseIPv4Address_def split: prod.splits if_splits)
  show "dotted a s \<or> (s = [] \<and> a = IPv4Address 0)"
  proof (cases "s = []")
    case True
    with i show ?thesis
      by (cases a) (auto simp: parseIPv4AddressImpl_eq octet_dot_def octet_ok_def digits_of_def)
  next
    case False
    with Impl_sound [OF i] show ?thesis by simp
  qed
next
  assume "dotted a s \<or> (s = [] \<and> a = IPv4Address 0)"
  moreover have "parseIPv4Address [] = Some (IPv4Address 0)"
    by (simp add: parseIPv4Address_def parseIPv4AddressImpl_eq octet_dot_def octet_ok_def digits_of_def)
  ultimately show "parseIPv4Address s = Some a"
    using Impl_complete [of a s "[]"] by (auto simp: parseIPv4Address_def)
qed

lemma prefix_length_parse:
  "parseIPv4PrefixLengthImpl (CHR ''/'' # u) =
     (if digits_of u = [] \<or> 32 < digits_value 0 (digits_of u) then (0, CHR ''/'' # u)
      else (of_nat (digits_value 0 (digits_of u)), after_digits u))"
  using after_digits_neq [of u] by (auto simp: parseIPv4PrefixLengthImpl_def parseBoundedUInt_spec)

lemma parseIPv4Prefix_complete:
  assumes "dotted a t" and "list_all is_digit u" and "u \<noteq> []" and "digits_value 0 u \<le> 32"
  shows "parseIPv4Prefix (t @ CHR ''/'' # u) =
           and_then (make a (of_nat (digits_value 0 u))) (\<lambda>p. Ok (Some p))"
  using assms Impl_complete [OF assms(1), of "CHR ''/'' # u"] dotted_nonempty [OF assms(1)]
    digits_of_all [OF assms(2)]
  by (simp add: parseIPv4Prefix_def prefix_length_parse)

lemma addr_string_chars: "c \<in> set (addr_string a) \<Longrightarrow> is_digit c \<or> c = CHR ''.''"
  by (auto simp: addr_string_def dest: dec_string_digits)

lemma make_self: "make a n = Ok p \<Longrightarrow> make (pfx_addr p) (pfx_len p) = Ok p"
  by (simp add: make_iff)

lemma parse_prefix_string:
  assumes "make a n = Ok p"
  shows "parseIPv4Prefix (prefix_string p) = Ok (Some p)"
proof -
  let ?u = "dec_string (unat (pfx_len p))"
  have "unat (pfx_len p) \<le> 32" using assms by (simp add: make_iff word_le_nat_alt)
  moreover have "list_all is_digit ?u" by (simp add: list_all_iff dec_string_digits)
  ultimately have "parseIPv4Prefix (addr_string (pfx_addr p) @ CHR ''/'' # ?u) = Ok (Some p)"
    using parseIPv4Prefix_complete [OF dotted_addr_string [of "pfx_addr p"], of ?u] make_self [OF assms] by simp
  then show ?thesis by (simp add: prefix_string_def)
qed

text \<open>the text the formatter prints for an address or for a prefix that \<open>make\<close> returned
  parses back to it, also from a terminated character array.\<close>

theorem parse_format_roundtrip:
  assumes "make b n = Ok p"
  shows "parseIPv4AddressC (addr_string a @ CHR 0x00 # r) = Some a \<and>
         parseIPv4PrefixC (prefix_string p @ CHR 0x00 # r) = Ok (Some p)"
proof -
  have "CHR 0x00 \<notin> set (addr_string c)" for c
    using addr_string_chars by fastforce
  moreover have "CHR 0x00 \<notin> set (dec_string k)" for k
    using dec_string_digits by fastforce
  ultimately have "CHR 0x00 \<notin> set (addr_string a)" "CHR 0x00 \<notin> set (prefix_string p)"
    by (simp_all add: prefix_string_def)
  moreover have "parseIPv4Address (addr_string a) = Some a"
    using Impl_complete [OF dotted_addr_string, of "[]" a] by (simp add: parseIPv4Address_def)
  ultimately show ?thesis
    using parse_prefix_string [OF assms]
    by (simp add: parseIPv4AddressC_def parseIPv4PrefixC_def cstring_terminated)
qed

theorem parse_format_roundtrip_witness:
  "parseIPv4AddressC (addr_string (ofOctets 10 1 1 3) @ CHR 0x00 # ''x'') = Some (ofOctets 10 1 1 3) \<and>
   parseIPv4PrefixC (prefix_string MulticastPrefix @ CHR 0x00 # ''x'') = Ok (Some MulticastPrefix)"
  by (rule parse_format_roundtrip [of "ofOctets 239 1 2 3" 4])
    (simp add: make_def toMask_def maskValue_def LocalBroadcastAddressValue_def MulticastPrefix_def
      addr_and_def ofOctets_def)

text \<open>the prefix parser never throws, and accepts exactly a dotted decimal address, a slash and
  the digits of a length of at most 32; the prefix it returns is the one \<open>make\<close> builds.\<close>

theorem parseIPv4Prefix_iff:
  "(\<exists>o'. parseIPv4Prefix s = Ok o') \<and>
   (parseIPv4Prefix s = Ok (Some p) \<longleftrightarrow>
     (\<exists>a t u. s = t @ ''/'' @ u \<and> dotted a t \<and> u \<noteq> [] \<and> list_all is_digit u \<and>
        digits_value 0 u \<le> 32 \<and> make a (of_nat (digits_value 0 u)) = Ok p))"
proof -
  have ok: "\<exists>p. make a (of_nat n) = Ok p" if "n \<le> 32" for n a
  proof -
    have "toMask (of_nat n) = Ok (IPv4Address (maskValue (of_nat n)))"
      using toMask_iff that by blast
    then show ?thesis by (simp add: make_def)
  qed
  have sound: "(parseIPv4Prefix s = Ok None) \<or> (\<exists>a t u. s = t @ ''/'' @ u \<and> dotted a t \<and> u \<noteq> [] \<and>
      list_all is_digit u \<and> digits_value 0 u \<le> 32)"
  proof (cases "parseIPv4AddressImpl s")
    case i: (Pair v rs)
    show ?thesis
    proof (cases "rs = s \<or> rs = [] \<or> hd rs \<noteq> CHR ''/'' \<or> snd (parseIPv4PrefixLengthImpl rs) = rs
        \<or> snd (parseIPv4PrefixLengthImpl rs) \<noteq> []")
      case True
      with i show ?thesis
        by (cases rs) (auto simp: parseIPv4Prefix_def parseIPv4PrefixLengthImpl_def split: prod.splits)
    next
      case False
      then obtain u where u: "rs = CHR ''/'' # u" by (cases rs) auto
      with False have d: "digits_of u \<noteq> []" "digits_value 0 (digits_of u) \<le> 32" "after_digits u = []"
        by (auto simp: prefix_length_parse split: if_splits)
      then have "digits_of u = u" using digits_split [of u] by simp
      moreover obtain t where "s = t @ rs" "dotted (IPv4Address v) t"
        using Impl_sound [OF i] False by blast
      ultimately show ?thesis using d digits_of_digits [of u] u
        by (intro disjI2 exI [of _ "IPv4Address v"] exI [of _ t] exI [of _ u]) simp
    qed
  qed
  have complete: "parseIPv4Prefix s = Ok (Some p)"
    if "s = t @ ''/'' @ u" "dotted a t" "u \<noteq> []" "list_all is_digit u" "digits_value 0 u \<le> 32"
      "make a (of_nat (digits_value 0 u)) = Ok p" for a t u
    using parseIPv4Prefix_complete [OF that(2,4,3,5)] that(1,6) by simp
  from sound show ?thesis
  proof
    assume "parseIPv4Prefix s = Ok None"
    with complete show ?thesis by auto
  next
    assume "\<exists>a t u. s = t @ ''/'' @ u \<and> dotted a t \<and> u \<noteq> [] \<and> list_all is_digit u \<and> digits_value 0 u \<le> 32"
    then obtain a t u where d: "s = t @ ''/'' @ u" "dotted a t" "u \<noteq> []" "list_all is_digit u"
        "digits_value 0 u \<le> 32" by blast
    obtain q where q: "make a (of_nat (digits_value 0 u)) = Ok q" using ok [OF d(5)] by blast
    have "parseIPv4Prefix s = Ok (Some q)"
      using parseIPv4Prefix_complete [OF d(2,4,3,5)] d(1) q by simp
    with complete d q show ?thesis by auto
  qed
qed

end
