(* ===== verification/JPModel.thy ===== *)
theory JPModel
  imports IPv4
begin

text \<open>
  The data of a PIM sparse-mode client: the Join/Prune configuration (\<open>config/JPConfig.hpp\<close>),
  the protocol parameters (\<open>pimsm/PIMSMParams.hpp\<close>) and the updates the packers build
  (\<open>pimsm/Update.hpp\<close>).  The templates over the IP version are taken at \<open>IPv4\<close>, their only
  instance.
\<close>

section \<open>Parameters\<close>

definition AllPIMRouters :: IPv4Address where
  "AllPIMRouters = ofOctets 224 0 0 13"

definition PIMHdrSize :: nat where "PIMHdrSize = 4"

definition HelloOptionHdrSize :: nat where "HelloOptionHdrSize = 4"

definition PIMJPHdrSize :: nat where "PIMJPHdrSize = PIMHdrSize + 10"

definition JPCapacity :: nat where "JPCapacity = 1466"

definition GrpASize :: nat where "GrpASize = 8"

definition GrpHdrSize :: nat where "GrpHdrSize = GrpASize + 2 + 2"

definition SrcASize :: nat where "SrcASize = 8"

definition MinEntrySize :: nat where "MinEntrySize = GrpHdrSize + SrcASize"

definition MaxPruneSGrptLen :: nat where "MaxPruneSGrptLen = 180"

lemmas param_simps [size_simps] =
  PIMHdrSize_def HelloOptionHdrSize_def PIMJPHdrSize_def JPCapacity_def GrpASize_def
  GrpHdrSize_def SrcASize_def MinEntrySize_def MaxPruneSGrptLen_def

section \<open>Configuration\<close>

record RPT =
  rp :: IPv4Address
  rpt_prunes :: "IPv4Address list"

record GroupConfig =
  gc_group :: IPv4Address
  gc_rpt :: "RPT option"
  gc_spt :: "IPv4Address list"

record JPConfig =
  jp_groups :: "GroupConfig list"

section \<open>Updates\<close>

record Source =
  src_addr :: IPv4Address
  src_wildcard :: bool
  src_rpt :: bool

record GroupEntry =
  ge_group :: IPv4Address
  ge_joins :: "Source list"
  ge_prunes :: "Source list"

record Update =
  upd_groups :: "GroupEntry list"

record GroupSummary =
  gs_group :: IPv4Address
  gs_joins :: nat
  gs_prunes :: nat
  gs_size :: nat

definition groupSummary :: "GroupEntry \<Rightarrow> GroupSummary" where
  "groupSummary ge =
     (let j = length (ge_joins ge); p = length (ge_prunes ge)
      in \<lparr>gs_group = ge_group ge, gs_joins = j, gs_prunes = p,
          gs_size = GrpHdrSize + (j + p) * SrcASize\<rparr>)"

record UpdateSummary =
  us_n :: nat
  us_groups :: "GroupSummary list"
  us_size :: nat
  us_remaining :: nat

fun addSizes :: "nat \<Rightarrow> GroupSummary list \<Rightarrow> nat" where
  "addSizes acc [] = acc"
| "addSizes acc (gs # gss) = addSizes (acc + gs_size gs) gss"

definition updateSummary :: "nat \<Rightarrow> Update \<Rightarrow> UpdateSummary" where
  "updateSummary n update =
     (let gs = map groupSummary (upd_groups update); sz = addSizes 0 gs
      in \<lparr>us_n = n, us_groups = gs, us_size = sz, us_remaining = size_sub JPCapacity sz\<rparr>)"

text \<open>The size of an entry in a message.\<close>

definition entry_size :: "GroupEntry \<Rightarrow> nat" where
  "entry_size e = GrpHdrSize + (length (ge_joins e) + length (ge_prunes e)) * SrcASize"

lemma addSizes_sum: "addSizes acc gs = acc + sum_list (map gs_size gs)"
  by (induction gs arbitrary: acc) simp_all

lemma us_size_sum: "us_size (updateSummary n u) = sum_list (map entry_size (upd_groups u))"
  by (simp add: updateSummary_def Let_def addSizes_sum groupSummary_def entry_size_def [abs_def] comp_def)

text \<open>The sources an entry can hold, as the builders make them.\<close>

abbreviation spt_source :: "IPv4Address \<Rightarrow> Source" where
  "spt_source a \<equiv> \<lparr>src_addr = a, src_wildcard = False, src_rpt = False\<rparr>"

abbreviation rp_source :: "IPv4Address \<Rightarrow> Source" where
  "rp_source a \<equiv> \<lparr>src_addr = a, src_wildcard = True, src_rpt = True\<rparr>"

abbreviation rpt_source :: "IPv4Address \<Rightarrow> Source" where
  "rpt_source a \<equiv> \<lparr>src_addr = a, src_wildcard = False, src_rpt = True\<rparr>"

end
