(* ===== verification/Builders.thy ===== *)
theory Builders
  imports JPModel
begin

text \<open>
  The builder queue of the packers.  \<open>UBCursor\<close> (\<open>pimsm/UBCursor.hpp\<close>) is a template over an
  update builder class; what it needs of the class is the concept \<open>UpdateBuilder\<close>, the locale
  \<open>update_builder\<close> here.  The classes \<open>UpdateBuilderImpl\<close> (\<open>pimsm/Pack.hpp\<close>) and
  \<open>InverseUpdateBuilderImpl\<close> (\<open>pimsm/InversePack.hpp\<close>) are its two interpretations.  A
  \<open>std::deque\<close> of builders is a list and a builder's address its index: appending to a deque
  keeps the addresses of its elements, and the packers never remove one.
\<close>

datatype pack_error =
    CapacityExceeded nat nat nat  \<comment> \<open>capacity, current size, update size\<close>
  | BadOptionalAccess

section \<open>Update builders\<close>

record UpdateBuilder =
  ub_groups :: "GroupEntry list"
  ub_sz :: nat

definition newUpdateBuilder :: UpdateBuilder where
  "newUpdateBuilder = \<lparr>ub_groups = [], ub_sz = 0\<rparr>"

definition chkSz :: "UpdateBuilder \<Rightarrow> nat \<Rightarrow> (pack_error, unit) outcome" where
  "chkSz ub sz =
     (if JPCapacity < ub_sz ub + sz then Fail (CapacityExceeded JPCapacity (ub_sz ub) sz) else Ok ())"

definition addGroup :: "UpdateBuilder \<Rightarrow> GroupEntry \<Rightarrow> nat \<Rightarrow> (pack_error, UpdateBuilder) outcome" where
  "addGroup ub grp sz =
     and_then (chkSz ub sz) (\<lambda>_. Ok \<lparr>ub_groups = ub_groups ub @ [grp], ub_sz = ub_sz ub + sz\<rparr>)"

definition ub_remaining :: "UpdateBuilder \<Rightarrow> nat" where
  "ub_remaining ub = size_sub JPCapacity (ub_sz ub)"

definition ub_build :: "UpdateBuilder \<Rightarrow> Update" where
  "ub_build ub = \<lparr>upd_groups = ub_groups ub\<rparr>"

definition ub_empty :: "UpdateBuilder \<Rightarrow> bool" where
  "ub_empty ub \<longleftrightarrow> ub_groups ub = []"

definition ub_full :: "UpdateBuilder \<Rightarrow> bool" where
  "ub_full ub \<longleftrightarrow> ub_remaining ub < MinEntrySize"

text \<open>The class of the inverse packer repeats these members.\<close>

record InverseUpdateBuilder =
  iub_groups :: "GroupEntry list"
  iub_sz :: nat

definition newInverseUpdateBuilder :: InverseUpdateBuilder where
  "newInverseUpdateBuilder = \<lparr>iub_groups = [], iub_sz = 0\<rparr>"

definition inverseChkSz :: "InverseUpdateBuilder \<Rightarrow> nat \<Rightarrow> (pack_error, unit) outcome" where
  "inverseChkSz ub sz =
     (if JPCapacity < iub_sz ub + sz then Fail (CapacityExceeded JPCapacity (iub_sz ub) sz) else Ok ())"

definition inverseAddGroup ::
    "InverseUpdateBuilder \<Rightarrow> GroupEntry \<Rightarrow> nat \<Rightarrow> (pack_error, InverseUpdateBuilder) outcome" where
  "inverseAddGroup ub grp sz =
     and_then (inverseChkSz ub sz)
       (\<lambda>_. Ok \<lparr>iub_groups = iub_groups ub @ [grp], iub_sz = iub_sz ub + sz\<rparr>)"

definition iub_remaining :: "InverseUpdateBuilder \<Rightarrow> nat" where
  "iub_remaining ub = size_sub JPCapacity (iub_sz ub)"

definition iub_build :: "InverseUpdateBuilder \<Rightarrow> Update" where
  "iub_build ub = \<lparr>upd_groups = iub_groups ub\<rparr>"

definition iub_empty :: "InverseUpdateBuilder \<Rightarrow> bool" where
  "iub_empty ub \<longleftrightarrow> iub_groups ub = []"

definition iub_full :: "InverseUpdateBuilder \<Rightarrow> bool" where
  "iub_full ub \<longleftrightarrow> iub_remaining ub < MinEntrySize"

section \<open>Group entry builders\<close>

definition joinEntry :: "GroupEntry \<Rightarrow> IPv4Address \<Rightarrow> bool \<Rightarrow> bool \<Rightarrow> GroupEntry" where
  "joinEntry geb src wildcard rpt =
     geb\<lparr>ge_joins := ge_joins geb @ [\<lparr>src_addr = src, src_wildcard = wildcard, src_rpt = rpt\<rparr>]\<rparr>"

definition pruneEntry :: "GroupEntry \<Rightarrow> IPv4Address \<Rightarrow> bool \<Rightarrow> bool \<Rightarrow> GroupEntry" where
  "pruneEntry geb src wildcard rpt =
     geb\<lparr>ge_prunes := ge_prunes geb @ [\<lparr>src_addr = src, src_wildcard = wildcard, src_rpt = rpt\<rparr>]\<rparr>"

definition newEntry :: "IPv4Address \<Rightarrow> GroupEntry" where
  "newEntry grp = \<lparr>ge_group = grp, ge_joins = [], ge_prunes = []\<rparr>"

definition geb_size :: "GroupEntry \<Rightarrow> nat" where
  "geb_size geb = GrpHdrSize + (length (ge_joins geb) + length (ge_prunes geb)) * SrcASize"

text \<open>The class of the inverse packer builds entries with prunes only.\<close>

definition inverse_geb_size :: "GroupEntry \<Rightarrow> nat" where
  "inverse_geb_size geb = GrpHdrSize + length (ge_prunes geb) * SrcASize"

text \<open>The loops that add a list of sources.\<close>

fun joinAll :: "GroupEntry \<Rightarrow> IPv4Address list \<Rightarrow> GroupEntry" where
  "joinAll geb [] = geb"
| "joinAll geb (s # ss) = joinAll (joinEntry geb s False False) ss"

fun pruneAll :: "bool \<Rightarrow> GroupEntry \<Rightarrow> IPv4Address list \<Rightarrow> GroupEntry" where
  "pruneAll rpt geb [] = geb"
| "pruneAll rpt geb (s # ss) = pruneAll rpt (pruneEntry geb s False rpt) ss"

definition maxSources :: "nat \<Rightarrow> nat" where
  "maxSources rem = (if rem \<le> GrpHdrSize then 0 else (rem - GrpHdrSize) div SrcASize)"

lemma geb_size_entry_size [simp]: "geb_size e = entry_size e"
  by (simp add: geb_size_def entry_size_def)

lemma inverse_geb_size_entry_size: "ge_joins e = [] \<Longrightarrow> inverse_geb_size e = entry_size e"
  by (simp add: inverse_geb_size_def entry_size_def)

lemma joinAll_eq: "joinAll geb ss = geb\<lparr>ge_joins := ge_joins geb @ map spt_source ss\<rparr>"
  by (induction ss arbitrary: geb) (simp_all add: joinEntry_def)

lemma pruneAll_eq: "pruneAll r geb ss =
    geb\<lparr>ge_prunes := ge_prunes geb @ map (\<lambda>a. \<lparr>src_addr = a, src_wildcard = False, src_rpt = r\<rparr>) ss\<rparr>"
  by (induction ss arbitrary: geb) (simp_all add: pruneEntry_def)

lemma maxSources_fits: "0 < k \<Longrightarrow> k \<le> maxSources rem \<longleftrightarrow> GrpHdrSize + k * SrcASize \<le> rem"
  unfolding maxSources_def size_simps by (auto simp: less_eq_div_iff_mult_less_eq)

section \<open>The cursor\<close>

definition cursorNext :: "'b \<Rightarrow> 'b list \<Rightarrow> nat \<Rightarrow> 'b list \<times> nat" where
  "cursorNext new q i = (let i' = i + 1 in (if length q \<le> i' then q @ [new] else q, i'))"

function updateStartLoop :: "('b \<Rightarrow> bool) \<Rightarrow> 'b list \<Rightarrow> nat \<Rightarrow> nat \<Rightarrow> nat \<Rightarrow> bool \<times> nat" where
  "updateStartLoop full q i j start =
     (if j \<le> i then
        (if full (q ! j) then updateStartLoop full q i (j + 1) j else (True, start))
      else (False, start))"
  by pat_completeness auto
termination
  by (relation "measure (\<lambda>(full, q, i, j, start). Suc i - j)") auto

declare updateStartLoop.simps [simp del]

text \<open>The loop leaves the function where a builder is not full: the first component.\<close>

definition updateStart :: "('b \<Rightarrow> bool) \<Rightarrow> 'b \<Rightarrow> 'b list \<Rightarrow> nat \<Rightarrow> nat \<Rightarrow> 'b list \<times> nat" where
  "updateStart full new q i start =
     (case updateStartLoop full q i start start of
        (returned, s) \<Rightarrow>
          if returned then (q, s)
          else if s = length q then (q @ [new], s) else (q, s))"

definition cursorAdd ::
    "('b \<Rightarrow> GroupEntry \<Rightarrow> nat \<Rightarrow> (pack_error, 'b) outcome) \<Rightarrow> ('b \<Rightarrow> bool) \<Rightarrow> 'b \<Rightarrow>
     (GroupEntry \<Rightarrow> nat) \<Rightarrow> 'b list \<Rightarrow> nat \<Rightarrow> nat \<Rightarrow> GroupEntry \<Rightarrow>
     (pack_error, 'b list \<times> nat) outcome" where
  "cursorAdd add full new size_of q i start geb =
     and_then (add (q ! i) geb (size_of geb))
       (\<lambda>b. Ok (updateStart full new (q[i := b]) i start))"

lemma updateStartLoop_bounds:
  "start < n \<Longrightarrow> i < n \<Longrightarrow> updateStartLoop full q i j start = (r, s) \<Longrightarrow> s < n"
proof (induction full q i j start rule: updateStartLoop.induct)
  case (1 full q i j start)
  show ?case
  proof (cases "j \<le> i \<and> full (q ! j)")
    case True
    with "1.prems" show ?thesis
      by (intro "1.IH") (simp_all add: updateStartLoop.simps [of full q i j start])
  next
    case False
    with "1.prems" show ?thesis
      by (auto simp: updateStartLoop.simps [of full q i j start] split: if_splits)
  qed
qed

lemma updateStartLoop_stop:
  "i < j \<Longrightarrow> updateStartLoop full q i j start = (False, start)"
  "j \<le> i \<Longrightarrow> \<not> full (q ! j) \<Longrightarrow> updateStartLoop full q i j start = (True, start)"
  "j \<le> i \<Longrightarrow> full (q ! j) \<Longrightarrow>
    updateStartLoop full q i j start = updateStartLoop full q i (j + 1) j"
  by (simp_all add: updateStartLoop.simps [of full q i j start])

text \<open>The index that \<open>start_\<close> holds never passes the cursor, so \<open>updateStart\<close> appends nothing.\<close>

lemma updateStart_same:
  assumes "start < length q" and "i < length q"
  shows "\<exists>s < length q. updateStart full new q i start = (q, s)"
proof (cases "updateStartLoop full q i start start")
  case (Pair r s)
  then have "s < length q" using updateStartLoop_bounds assms by blast
  with Pair show ?thesis by (simp add: updateStart_def)
qed


section \<open>The contract of an update builder\<close>

text \<open>
  What the cursor and the packers need of a builder class: the entries it holds and the bytes that
  remain always make up the capacity, and \<open>add\<close> appends an entry that fits.  \<open>ok\<close> is the class
  invariant.
\<close>

locale update_builder =
  fixes new :: "'b"
    and add :: "'b \<Rightarrow> GroupEntry \<Rightarrow> nat \<Rightarrow> (pack_error, 'b) outcome"
    and empty :: "'b \<Rightarrow> bool"
    and full :: "'b \<Rightarrow> bool"
    and remaining :: "'b \<Rightarrow> nat"
    and entries :: "'b \<Rightarrow> GroupEntry list"
    and ok :: "'b \<Rightarrow> bool"
  assumes new_ok: "ok new" "entries new = []"
    and capacity: "ok b \<Longrightarrow> remaining b + sum_list (map entry_size (entries b)) = JPCapacity"
    and add_fits: "ok b \<Longrightarrow> entry_size e \<le> remaining b \<Longrightarrow>
          \<exists>b'. add b e (entry_size e) = Inr b' \<and> ok b' \<and> entries b' = entries b @ [e]"
    and add_exceeds: "ok b \<Longrightarrow> remaining b < entry_size e \<Longrightarrow>
          \<exists>err. add b e (entry_size e) = Inl err"
    and empty_iff: "empty b \<longleftrightarrow> entries b = []"
    and full_iff: "full b \<longleftrightarrow> remaining b < MinEntrySize"
begin

text \<open>
  The builder queue: every builder keeps its invariant and holds at most one entry for a group,
  and only the last one may be empty.
\<close>

definition queue :: "'b list \<Rightarrow> bool" where
  "queue q \<longleftrightarrow> q \<noteq> [] \<and> (\<forall>b \<in> set q. ok b \<and> distinct (map ge_group (entries b))) \<and>
     (\<forall>b \<in> set (butlast q). entries b \<noteq> [])"

definition held :: "'b list \<Rightarrow> GroupEntry list" where
  "held q = concat (map entries q)"

text \<open>No builder from \<open>i\<close> on has an entry for \<open>g\<close>.\<close>

definition absent :: "IPv4Address \<Rightarrow> 'b list \<Rightarrow> nat \<Rightarrow> bool" where
  "absent g q i \<longleftrightarrow> (\<forall>j. i \<le> j \<longrightarrow> j < length q \<longrightarrow> g \<notin> ge_group ` set (entries (q ! j)))"

lemma remaining_new [simp]: "remaining new = JPCapacity"
  using capacity [OF new_ok(1)] new_ok(2) by simp

lemma remaining_le: "ok b \<Longrightarrow> remaining b \<le> JPCapacity"
  using capacity [of b] by simp

lemma nonempty_if_remaining: "ok b \<Longrightarrow> remaining b < JPCapacity \<Longrightarrow> entries b \<noteq> []"
  using capacity [of b] by auto

lemma queue_new: "queue [new]"
  by (simp add: queue_def new_ok)

lemma queue_okD: "queue q \<Longrightarrow> i < length q \<Longrightarrow> ok (q ! i)"
  by (simp add: queue_def)

lemma absent_mono: "absent g q i \<Longrightarrow> i \<le> j \<Longrightarrow> absent g q j"
  by (simp add: absent_def)

lemma absent_drop: "absent g q i \<Longrightarrow> b \<in> set (drop i q) \<Longrightarrow> g \<notin> ge_group ` set (entries b)"
proof -
  assume absent: "absent g q i" and "b \<in> set (drop i q)"
  then obtain j where "j < length q - i" "b = q ! (i + j)"
    by (auto simp: in_set_conv_nth)
  with absent [unfolded absent_def, THEN spec, of "i + j"] show ?thesis by auto
qed

lemma last_if_end: "i < length q \<Longrightarrow> length q \<le> Suc i \<Longrightarrow> last q = q ! i"
  by (cases q) (auto simp: last_conv_nth le_Suc_eq)

lemma absent_held: "absent g q 0 \<longleftrightarrow> g \<notin> ge_group ` set (held q)"
proof
  assume "absent g q 0"
  from absent_drop [OF this] show "g \<notin> ge_group ` set (held q)" by (auto simp: held_def)
next
  assume "g \<notin> ge_group ` set (held q)"
  then show "absent g q 0" unfolding absent_def held_def by (auto dest: nth_mem)
qed

lemma absent_if_not_held: "g \<notin> ge_group ` set (held q) \<Longrightarrow> absent g q i"
  using absent_held absent_mono by blast

text \<open>The end of a pass over a builder: the next one, a new one if the queue ends.\<close>

lemma cursorNext_queue:
  assumes "queue q" and "i < length q" and "entries (q ! i) \<noteq> []" and "absent g q (i + 1)"
    and nx: "cursorNext new q i = (q', i')"
  shows "i' = i + 1 \<and> queue q' \<and> i' < length q' \<and> absent g q' i' \<and> held q' = held q \<and>
    length q \<le> length q' \<and> (\<forall>j < length q. q' ! j = q ! j)"
proof (cases "length q \<le> i + 1")
  case True
  with assms have [simp]: "q' = q @ [new]" "i' = i + 1" "length q = Suc i"
    by (auto simp: cursorNext_def Let_def)
  have "last q = q ! i" using assms(2) by (simp add: last_if_end)
  moreover have "set q = insert (last q) (set (butlast q))"
    using assms(2) by (cases q rule: rev_cases) auto
  ultimately have "\<forall>b \<in> set q. entries b \<noteq> []"
    using assms(1,3) unfolding queue_def by auto
  with assms(1) show ?thesis
    by (auto simp: queue_def new_ok absent_def held_def nth_append)
next
  case False
  with assms show ?thesis by (auto simp: cursorNext_def Let_def)
qed

text \<open>An entry for a group that the builders from \<open>i\<close> on do not know is added at \<open>k\<close>.\<close>

lemma add_queue:
  assumes q: "queue q" and k: "k < length q" and i: "i \<le> k"
    and fits: "entry_size e \<le> remaining (q ! k)" and absent: "absent (ge_group e) q i"
  obtains b where "add (q ! k) e (entry_size e) = Inr b"
    and "entries b = entries (q ! k) @ [e]"
    and "queue (q[k := b])"
    and "absent (ge_group e) (q[k := b]) (Suc k)"
    and "filter (\<lambda>x. ge_group x = ge_group e) (held (q[k := b])) =
         filter (\<lambda>x. ge_group x = ge_group e) (held q) @ [e]"
    and "filter (\<lambda>x. ge_group x \<noteq> ge_group e) (held (q[k := b])) =
         filter (\<lambda>x. ge_group x \<noteq> ge_group e) (held q)"
proof -
  obtain b where b: "add (q ! k) e (entry_size e) = Inr b" "ok b" "entries b = entries (q ! k) @ [e]"
    using add_fits [OF queue_okD [OF q k] fits] by blast
  have new: "ge_group e \<notin> ge_group ` set (entries (q ! k))"
    using absent i k by (simp add: absent_def)
  have "queue (q[k := b])"
    using q b new k unfolding queue_def
    by (auto simp: butlast_list_update dest!: set_update_subset_insert [THEN subsetD])
  moreover have later: "absent (ge_group e) (q[k := b]) (Suc k)"
    using absent i by (auto simp: absent_def)
  moreover have split: "held q = held (take k q) @ entries (q ! k) @ held (drop (Suc k) q)"
    using k by (subst id_take_nth_drop [OF k]) (simp add: held_def)
  have split': "held (q[k := b]) = held (take k q) @ entries b @ held (drop (Suc k) q)"
    using k by (simp add: upd_conv_take_nth_drop held_def)
  have "\<forall>b \<in> set (drop (Suc k) q). \<forall>x \<in> set (entries b). ge_group x \<noteq> ge_group e"
    using absent_drop [OF absent_mono [OF absent le_SucI [OF i]]]
    by (metis image_eqI)
  then have "filter (\<lambda>x. ge_group x = ge_group e) (held (drop (Suc k) q)) = []"
    by (simp add: filter_empty_conv held_def)
  then have "filter (\<lambda>x. ge_group x = ge_group e) (held (q[k := b])) =
         filter (\<lambda>x. ge_group x = ge_group e) (held q) @ [e]"
      "filter (\<lambda>x. ge_group x \<noteq> ge_group e) (held (q[k := b])) =
         filter (\<lambda>x. ge_group x \<noteq> ge_group e) (held q)"
    by (simp_all add: split split' b)
  ultimately show ?thesis using that b by blast
qed

lemma cursorAdd_queue:
  assumes "queue q" and "i < length q" and "start < length q"
    and "entry_size e \<le> remaining (q ! i)" and "absent (ge_group e) q i"
    and size_of: "size_of e = entry_size e"
  obtains b s where "cursorAdd add full new size_of q i start e = Inr (q[i := b], s)"
    and "s < length q"
    and "entries b = entries (q ! i) @ [e]"
    and "queue (q[i := b])"
    and "absent (ge_group e) (q[i := b]) (Suc i)"
    and "filter (\<lambda>x. ge_group x = ge_group e) (held (q[i := b])) =
         filter (\<lambda>x. ge_group x = ge_group e) (held q) @ [e]"
    and "filter (\<lambda>x. ge_group x \<noteq> ge_group e) (held (q[i := b])) =
         filter (\<lambda>x. ge_group x \<noteq> ge_group e) (held q)"
proof -
  obtain b where b: "add (q ! i) e (entry_size e) = Inr b"
    "entries b = entries (q ! i) @ [e]" "queue (q[i := b])"
    "absent (ge_group e) (q[i := b]) (Suc i)"
    "filter (\<lambda>x. ge_group x = ge_group e) (held (q[i := b])) =
       filter (\<lambda>x. ge_group x = ge_group e) (held q) @ [e]"
    "filter (\<lambda>x. ge_group x \<noteq> ge_group e) (held (q[i := b])) =
       filter (\<lambda>x. ge_group x \<noteq> ge_group e) (held q)"
    by (rule add_queue [OF assms(1,2) order_refl assms(4,5)])
  obtain s where "s < length q" "updateStart full new (q[i := b]) i start = (q[i := b], s)"
    using updateStart_same [of start "q[i := b]" i full new] assms(2,3) by auto
  then have "cursorAdd add full new size_of q i start e = Inr (q[i := b], s)"
    using b(1) size_of by (simp add: cursorAdd_def)
  from that [OF this \<open>s < length q\<close> b(2-)] show thesis .
qed

text \<open>
  The length of a walk over the queue that grows only at its end: it is bounded if the last
  builder, once passed, is followed by a new one that offers what is looked for (\<open>can\<close>).
\<close>

definition walk :: "nat \<Rightarrow> 'b list \<Rightarrow> nat \<Rightarrow> nat" where
  "walk need q i = (length q - i) + (if remaining (last q) < need then 1 else 0)"

lemma cursorNext_walk:
  assumes "cursorNext new q i = (q', i')" and "i < length q" and "need \<le> JPCapacity"
  shows "walk need q' i' \<le> walk need q i"
    and "remaining (q ! i) < need \<Longrightarrow> walk need q' i' < walk need q i"
  using assms by (auto simp: cursorNext_def Let_def walk_def last_if_end split: if_splits)

lemma walk_update:
  assumes "i < length q" and "cursorNext new (q[i := b]) i = (q', i')" and "need \<le> JPCapacity"
  shows "walk need q' i' \<le> walk need q i"
  using assms by (auto simp: cursorNext_def Let_def walk_def last_if_end split: if_splits)

end

definition ub_ok :: "UpdateBuilder \<Rightarrow> bool" where
  "ub_ok ub \<longleftrightarrow> ub_sz ub = sum_list (map entry_size (ub_groups ub)) \<and> ub_sz ub \<le> JPCapacity"

definition iub_ok :: "InverseUpdateBuilder \<Rightarrow> bool" where
  "iub_ok ub \<longleftrightarrow> iub_sz ub = sum_list (map entry_size (iub_groups ub)) \<and> iub_sz ub \<le> JPCapacity"

interpretation ub: update_builder newUpdateBuilder addGroup ub_empty ub_full ub_remaining ub_groups ub_ok
  by unfold_locales
    (auto simp: ub_ok_def newUpdateBuilder_def addGroup_def chkSz_def ub_empty_def ub_full_def
       ub_remaining_def)

interpretation iub: update_builder newInverseUpdateBuilder inverseAddGroup iub_empty iub_full
    iub_remaining iub_groups iub_ok
  by unfold_locales
    (auto simp: iub_ok_def newInverseUpdateBuilder_def inverseAddGroup_def inverseChkSz_def
       iub_empty_def iub_full_def iub_remaining_def)

end
