(* ===== verification/Packing.thy ===== *)
theory Packing
  imports Builders
begin

text \<open>
  The packer of Join/Prune updates (\<open>pimsm/Pack.hpp\<close>): the class \<open>UpdatePacker\<close> fills a queue of
  update builders group by group.  The RP entry of a group, with its (S,G,rpt) prunes, has to stay
  in one update: \<open>findRptUb\<close> picks the builder for it, and \<open>fitGroup\<close> spreads the SPT joins over the
  builders it passes.  A builder's address is its index in the queue.
\<close>

section \<open>The packer\<close>

record UpdatePacker =
  up_ubq :: "UpdateBuilder list"
  up_start :: nat

definition newUpdatePacker :: UpdatePacker where
  "newUpdatePacker = \<lparr>up_ubq = [newUpdateBuilder], up_start = 0\<rparr>"

definition findRptUb ::
    "UpdatePacker \<Rightarrow> GroupConfig \<Rightarrow> (pack_error, UpdatePacker \<times> nat option) outcome option" where
  "findRptUb up ge =
     (case gc_rpt ge of
        None \<Rightarrow> Some (Ok (up, None))
      | Some rpt \<Rightarrow>
          let rptSz = GrpHdrSize + SrcASize * (length (rpt_prunes rpt) + 1) in
          run_then
            (run_while (\<lambda>(ubq, i). ub_remaining (ubq ! i) < rptSz)
               (\<lambda>(ubq, i). Ok (cursorNext newUpdateBuilder ubq i)) (up_ubq up, up_start up))
            (\<lambda>(ubq, i). Some (Ok (up\<lparr>up_ubq := ubq\<rparr>, Some i))))"

text \<open>The locals of \<open>fitGroup\<close>, with the queue and \<open>start_\<close> of the packer.\<close>

record FitState =
  fs_ubq :: "UpdateBuilder list"
  fs_start :: nat
  fs_c :: nat
  fs_srci :: nat
  fs_rptUb :: "nat option"

definition addCur :: "FitState \<Rightarrow> GroupEntry \<Rightarrow> (pack_error, FitState) outcome" where
  "addCur s geb =
     and_then (cursorAdd addGroup ub_full newUpdateBuilder geb_size (fs_ubq s) (fs_c s) (fs_start s) geb)
       (\<lambda>(ubq, start). Ok (s\<lparr>fs_ubq := ubq, fs_start := start\<rparr>))"

definition rptEntry :: "RPT \<Rightarrow> GroupEntry \<Rightarrow> GroupEntry" where
  "rptEntry rpt geb = pruneAll True (joinEntry geb (rp rpt) True True) (rpt_prunes rpt)"

definition fitBody :: "GroupConfig \<Rightarrow> FitState \<Rightarrow> (pack_error, FitState) outcome" where
  "fitBody ge s =
     (let spt = gc_spt ge; srci = fs_srci s; rem = ub_remaining (fs_ubq s ! fs_c s) in
      if fs_rptUb s \<noteq> Some (fs_c s) then
        (let cnt = min (maxSources rem) (length spt - srci) in
         if 0 < cnt then
           and_then (addCur s (joinAll (newEntry (gc_group ge)) (take cnt (drop srci spt))))
             (\<lambda>s'. Ok (s'\<lparr>fs_srci := srci + cnt\<rparr>))
         else Ok s)
      else
        (case gc_rpt ge of
           None \<Rightarrow> Fail BadOptionalAccess
         | Some rpt \<Rightarrow>
             let cnt = min (maxSources (size_sub rem (SrcASize * (length (rpt_prunes rpt) + 1))))
                         (length spt - srci) in
             and_then
               (addCur s (rptEntry rpt (joinAll (newEntry (gc_group ge)) (take cnt (drop srci spt)))))
               (\<lambda>s'. Ok (s'\<lparr>fs_srci := srci + cnt, fs_rptUb := None\<rparr>))))"

definition fitStep :: "GroupConfig \<Rightarrow> FitState \<Rightarrow> (pack_error, FitState) outcome" where
  "fitStep ge s =
     and_then (fitBody ge s)
       (\<lambda>s'. case cursorNext newUpdateBuilder (fs_ubq s') (fs_c s') of
               (ubq, c) \<Rightarrow> Ok (s'\<lparr>fs_ubq := ubq, fs_c := c\<rparr>))"

definition fitLast :: "GroupConfig \<Rightarrow> FitState \<Rightarrow> (pack_error, UpdatePacker) outcome" where
  "fitLast ge s =
     (case fs_rptUb s of
        None \<Rightarrow> Ok \<lparr>up_ubq = fs_ubq s, up_start = fs_start s\<rparr>
      | Some k \<Rightarrow>
          (case gc_rpt ge of
             None \<Rightarrow> Fail BadOptionalAccess
           | Some rpt \<Rightarrow>
               let geb = rptEntry rpt (newEntry (gc_group ge)); geSz = geb_size geb in
               and_then (addGroup (fs_ubq s ! k) geb geSz)
                 (\<lambda>ub. Ok \<lparr>up_ubq = (fs_ubq s)[k := ub], up_start = fs_start s\<rparr>)))"

definition fitGroup :: "UpdatePacker \<Rightarrow> GroupConfig \<Rightarrow> (pack_error, UpdatePacker) outcome option" where
  "fitGroup up ge =
     run_then (findRptUb up ge)
       (\<lambda>(up, rptUb).
          run_then
            (run_while (\<lambda>s. fs_srci s < length (gc_spt ge)) (fitStep ge)
               \<lparr>fs_ubq = up_ubq up, fs_start = up_start up, fs_c = up_start up, fs_srci = 0,
                fs_rptUb = rptUb\<rparr>)
            (\<lambda>s. Some (fitLast ge s)))"

fun packGroups :: "UpdatePacker \<Rightarrow> GroupConfig list \<Rightarrow> (pack_error, UpdatePacker) outcome option" where
  "packGroups up [] = Some (Ok up)"
| "packGroups up (ge # ges) = run_then (fitGroup up ge) (\<lambda>up'. packGroups up' ges)"

definition buildUpdates :: "UpdatePacker \<Rightarrow> Update list" where
  "buildUpdates up =
     (let resSz = length (up_ubq up);
          resSz' = (if ub_empty (up_ubq up ! (resSz - 1)) then resSz - 1 else resSz)
      in map ub_build (take resSz' (up_ubq up)))"

definition pack :: "JPConfig \<Rightarrow> (pack_error, Update list) outcome option" where
  "pack jpCfg =
     run_then (packGroups newUpdatePacker (jp_groups jpCfg)) (\<lambda>up. Some (Ok (buildUpdates up)))"


section \<open>What the updates have to carry\<close>

text \<open>
  The entries of a group, in the order of the updates, carry its configuration: their joins without
  the wildcard bit are its SPT sources in order, and exactly one of them holds the RP join, with all
  (S,G,rpt) prunes.
\<close>

definition sptJoins :: "GroupEntry \<Rightarrow> Source list" where
  "sptJoins e = filter (\<lambda>s. \<not> src_wildcard s) (ge_joins e)"

definition rptParts :: "GroupEntry \<Rightarrow> (Source list \<times> Source list) list" where
  "rptParts e =
     (let w = filter src_wildcard (ge_joins e)
      in if w = [] \<and> ge_prunes e = [] then [] else [(w, ge_prunes e)])"

definition rptImage :: "RPT option \<Rightarrow> (Source list \<times> Source list) list" where
  "rptImage r =
     (case r of None \<Rightarrow> []
      | Some rpt \<Rightarrow> [([rp_source (rp rpt)], map rpt_source (rpt_prunes rpt))])"

definition carries :: "GroupEntry list \<Rightarrow> GroupConfig \<Rightarrow> bool" where
  "carries es gc \<longleftrightarrow>
     concat (map sptJoins es) = map spt_source (gc_spt gc) \<and>
     concat (map rptParts es) = rptImage (gc_rpt gc)"

definition entriesFor :: "IPv4Address \<Rightarrow> GroupEntry list \<Rightarrow> GroupEntry list" where
  "entriesFor g es = filter (\<lambda>e. ge_group e = g) es"

definition prunes_bounded :: "GroupConfig \<Rightarrow> bool" where
  "prunes_bounded gc \<longleftrightarrow>
     (case gc_rpt gc of None \<Rightarrow> True | Some r \<Rightarrow> length (rpt_prunes r) \<le> MaxPruneSGrptLen)"

section \<open>One group\<close>

abbreviation rptSize :: "RPT \<Rightarrow> nat" where
  "rptSize r \<equiv> GrpHdrSize + SrcASize * (length (rpt_prunes r) + 1)"

lemma entry_simps [simp]:
  "ge_group (newEntry g) = g"
  "ge_group (joinAll geb ss) = ge_group geb"
  "ge_group (rptEntry rpt geb) = ge_group geb"
  "entry_size (joinAll (newEntry g) ss) = GrpHdrSize + length ss * SrcASize"
  "entry_size (rptEntry rpt (joinAll (newEntry g) ss)) = rptSize rpt + length ss * SrcASize"
  "entry_size (rptEntry rpt (newEntry g)) = rptSize rpt"
  by (simp_all add: newEntry_def joinAll_eq rptEntry_def pruneAll_eq joinEntry_def entry_size_def
      algebra_simps)

lemma parts_simps [simp]:
  "sptJoins (joinAll (newEntry g) ss) = map spt_source ss"
  "rptParts (joinAll (newEntry g) ss) = []"
  "sptJoins (rptEntry rpt (joinAll (newEntry g) ss)) = map spt_source ss"
  "rptParts (rptEntry rpt (joinAll (newEntry g) ss)) = rptImage (Some rpt)"
  "sptJoins (rptEntry rpt (newEntry g)) = []"
  "rptParts (rptEntry rpt (newEntry g)) = rptImage (Some rpt)"
  by (simp_all add: sptJoins_def rptParts_def rptImage_def newEntry_def joinAll_eq rptEntry_def
      pruneAll_eq joinEntry_def comp_def)

lemma maxSources_le: "k \<le> maxSources r \<Longrightarrow> GrpHdrSize \<le> r \<Longrightarrow> GrpHdrSize + k * SrcASize \<le> r"
  using maxSources_fits [of k r] by (cases "k = 0") auto

lemma maxSources_0: "maxSources r = 0 \<longleftrightarrow> r < MinEntrySize"
  using maxSources_fits [of 1 r] by (auto simp: MinEntrySize_def)

text \<open>
  The invariant of the loop of \<open>fitGroup\<close>: \<open>os\<close> are the entries of the other groups, and no builder
  from \<open>n\<close> on knows this group.
\<close>

definition fit_inv :: "GroupConfig \<Rightarrow> GroupEntry list \<Rightarrow> nat \<Rightarrow> FitState \<Rightarrow> bool" where
  "fit_inv ge os n s \<longleftrightarrow>
     (let q = fs_ubq s; g = gc_group ge; own = entriesFor g (ub.held q) in
      ub.queue q \<and> fs_c s < length q \<and> fs_start s < length q \<and> fs_srci s \<le> length (gc_spt ge) \<and>
      ub.absent g q n \<and> filter (\<lambda>e. ge_group e \<noteq> g) (ub.held q) = os \<and>
      concat (map sptJoins own) = map spt_source (take (fs_srci s) (gc_spt ge)) \<and>
      (case fs_rptUb s of
         None \<Rightarrow> concat (map rptParts own) = rptImage (gc_rpt ge)
       | Some k \<Rightarrow> \<exists>r. gc_rpt ge = Some r \<and> n \<le> k \<and> k < length q \<and>
           rptSize r \<le> ub_remaining (q ! k) \<and> concat (map rptParts own) = []))"

text \<open>An entry for the group that fits is added at the cursor.\<close>

lemma addCur_fit:
  assumes inv: "fit_inv ge os (fs_c s) s"
    and e: "ge_group e = gc_group ge" "entry_size e \<le> ub_remaining (fs_ubq s ! fs_c s)"
    and n: "n \<le> length (gc_spt ge)"
    and spt: "map spt_source (take n (gc_spt ge)) = map spt_source (take (fs_srci s) (gc_spt ge)) @ sptJoins e"
    and rpt: "fs_rptUb s \<noteq> Some (fs_c s) \<and> rptUb = fs_rptUb s \<and> rptParts e = [] \<or>
      fs_rptUb s = Some (fs_c s) \<and> rptUb = None \<and> rptParts e = rptImage (gc_rpt ge)"
  obtains s1 b where "addCur s e = Inr s1"
    and "fit_inv ge os (Suc (fs_c s)) (s1\<lparr>fs_srci := n, fs_rptUb := rptUb\<rparr>)"
    and "fs_c s1 = fs_c s" and "fs_rptUb s1 = fs_rptUb s"
    and "fs_ubq s1 = (fs_ubq s)[fs_c s := b]" and "ub_groups b \<noteq> []"
proof -
  have q: "ub.queue (fs_ubq s)" "fs_c s < length (fs_ubq s)" "fs_start s < length (fs_ubq s)"
    and absent: "ub.absent (ge_group e) (fs_ubq s) (fs_c s)"
    using inv e by (simp_all add: fit_inv_def Let_def)
  obtain b st where b: "cursorAdd addGroup ub_full newUpdateBuilder geb_size (fs_ubq s) (fs_c s) (fs_start s) e =
        Inr ((fs_ubq s)[fs_c s := b], st)"
    and *: "st < length (fs_ubq s)" "ub_groups b = ub_groups (fs_ubq s ! fs_c s) @ [e]"
      "ub.queue ((fs_ubq s)[fs_c s := b])"
      "ub.absent (ge_group e) ((fs_ubq s)[fs_c s := b]) (Suc (fs_c s))"
      "filter (\<lambda>x. ge_group x = ge_group e) (ub.held ((fs_ubq s)[fs_c s := b])) =
         filter (\<lambda>x. ge_group x = ge_group e) (ub.held (fs_ubq s)) @ [e]"
      "filter (\<lambda>x. ge_group x \<noteq> ge_group e) (ub.held ((fs_ubq s)[fs_c s := b])) =
         filter (\<lambda>x. ge_group x \<noteq> ge_group e) (ub.held (fs_ubq s))"
    by (rule ub.cursorAdd_queue [where size_of = geb_size, OF q e(2) absent geb_size_entry_size])
  let ?s1 = "s\<lparr>fs_ubq := (fs_ubq s)[fs_c s := b], fs_start := st\<rparr>"
  have "addCur s e = Inr ?s1"
    using b by (simp add: addCur_def)
  moreover have "fit_inv ge os (Suc (fs_c s)) (?s1\<lparr>fs_srci := n, fs_rptUb := rptUb\<rparr>)"
    using inv rpt * e(1) n spt
    by (auto simp: fit_inv_def Let_def entriesFor_def nth_list_update split: option.splits)
  ultimately show thesis
    using that [of ?s1 b] * by simp
qed

definition rest :: "GroupConfig \<Rightarrow> FitState \<Rightarrow> nat" where
  "rest ge s = (length (gc_spt ge) - fs_srci s) + (if fs_rptUb s = None then 0 else 1)"

lemma take_drop_spt: "n \<le> length xs - k \<Longrightarrow> take (k + n) xs = take k xs @ take n (drop k xs)"
  by (simp add: take_add)

lemma fitBody_fit:
  assumes inv: "fit_inv ge os (fs_c s) s" and more: "fs_srci s < length (gc_spt ge)"
  obtains s1 b where "fitBody ge s = Inr s1" and "fit_inv ge os (Suc (fs_c s)) s1"
    and "fs_c s1 = fs_c s" and "fs_ubq s1 = (fs_ubq s)[fs_c s := b]" and "ub_groups b \<noteq> []"
    and "rest ge s1 < rest ge s \<or>
      s1 = s \<and> b = fs_ubq s ! fs_c s \<and> ub_remaining (fs_ubq s ! fs_c s) < MinEntrySize"
proof (cases "fs_rptUb s = Some (fs_c s)")
  case False
  define rem where "rem = ub_remaining (fs_ubq s ! fs_c s)"
  define cnt where "cnt = min (maxSources rem) (length (gc_spt ge) - fs_srci s)"
  define e where "e = joinAll (newEntry (gc_group ge)) (take cnt (drop (fs_srci s) (gc_spt ge)))"
  have body: "fitBody ge s =
      (if 0 < cnt then and_then (addCur s e) (\<lambda>s'. Ok (s'\<lparr>fs_srci := fs_srci s + cnt\<rparr>)) else Ok s)"
    using False by (simp add: fitBody_def Let_def rem_def cnt_def e_def)
  show thesis
  proof (cases "0 < cnt")
    case True
    have fits: "entry_size e \<le> rem" and n: "fs_srci s + cnt \<le> length (gc_spt ge)"
      using True maxSources_fits [of cnt rem] more by (auto simp: e_def cnt_def)
    have spt: "map spt_source (take (fs_srci s + cnt) (gc_spt ge)) =
        map spt_source (take (fs_srci s) (gc_spt ge)) @ sptJoins e"
      by (simp add: e_def take_add)
    have g: "ge_group e = gc_group ge" and p: "rptParts e = []"
      by (simp_all add: e_def)
    obtain s1 b where s1: "addCur s e = Inr s1"
      "fit_inv ge os (Suc (fs_c s)) (s1\<lparr>fs_srci := fs_srci s + cnt, fs_rptUb := fs_rptUb s\<rparr>)"
      "fs_c s1 = fs_c s" "fs_rptUb s1 = fs_rptUb s"
      "fs_ubq s1 = (fs_ubq s)[fs_c s := b]" "ub_groups b \<noteq> []"
      by (rule addCur_fit [OF inv g fits [unfolded rem_def] n spt, of "fs_rptUb s"])
        (use False p in auto)
    have "s1\<lparr>fs_srci := fs_srci s + cnt, fs_rptUb := fs_rptUb s\<rparr> = s1\<lparr>fs_srci := fs_srci s + cnt\<rparr>"
      using s1(4) by simp
    with s1 True body more show thesis
      by (intro that [of "s1\<lparr>fs_srci := fs_srci s + cnt\<rparr>" b]) (auto simp: rest_def)
  next
    case none: False
    then have small: "rem < MinEntrySize"
      using more maxSources_0 by (auto simp: cnt_def)
    have "ub.queue (fs_ubq s)" "fs_c s < length (fs_ubq s)"
      using inv by (simp_all add: fit_inv_def Let_def)
    then have "ub_groups (fs_ubq s ! fs_c s) \<noteq> []"
      using ub.nonempty_if_remaining [OF ub.queue_okD] small
      by (auto simp: rem_def size_simps)
    moreover have "fit_inv ge os (Suc (fs_c s)) s"
      using inv False unfolding fit_inv_def Let_def
      by (auto intro: ub.absent_mono [of _ _ "fs_c s"] split: option.splits)
    ultimately show thesis
      using that [of s "fs_ubq s ! fs_c s"] body none small by (simp add: rem_def)
  qed
next
  case True
  then obtain r where r: "gc_rpt ge = Some r" "rptSize r \<le> ub_remaining (fs_ubq s ! fs_c s)"
    using inv by (auto simp: fit_inv_def Let_def)
  define rem where "rem = ub_remaining (fs_ubq s ! fs_c s)"
  define sz where "sz = SrcASize * (length (rpt_prunes r) + 1)"
  define cnt where "cnt = min (maxSources (size_sub rem sz)) (length (gc_spt ge) - fs_srci s)"
  define e where
    "e = rptEntry r (joinAll (newEntry (gc_group ge)) (take cnt (drop (fs_srci s) (gc_spt ge))))"
  have body: "fitBody ge s =
      and_then (addCur s e) (\<lambda>s'. Ok (s'\<lparr>fs_srci := fs_srci s + cnt, fs_rptUb := None\<rparr>))"
    using True r by (simp add: fitBody_def Let_def rem_def cnt_def e_def sz_def)
  have "GrpHdrSize + sz \<le> rem" using r by (simp add: rem_def sz_def)
  moreover have "cnt \<le> maxSources (rem - sz)"
    using calculation by (simp add: cnt_def size_sub_le)
  ultimately have "GrpHdrSize + cnt * SrcASize + sz \<le> rem"
    using maxSources_le [of cnt "rem - sz"] by linarith
  moreover have "length (take cnt (drop (fs_srci s) (gc_spt ge))) = cnt"
    by (simp add: cnt_def)
  then have "entry_size e = GrpHdrSize + sz + cnt * SrcASize"
    by (simp only: e_def entry_simps sz_def)
  ultimately have fits: "entry_size e \<le> rem" by linarith
  have n: "fs_srci s + cnt \<le> length (gc_spt ge)"
    using more by (simp add: cnt_def)
  have spt: "map spt_source (take (fs_srci s + cnt) (gc_spt ge)) =
      map spt_source (take (fs_srci s) (gc_spt ge)) @ sptJoins e"
    by (simp add: e_def take_add)
  have g: "ge_group e = gc_group ge" and p: "rptParts e = rptImage (gc_rpt ge)"
    by (simp_all add: e_def r)
  obtain s1 b where s1: "addCur s e = Inr s1"
    "fit_inv ge os (Suc (fs_c s)) (s1\<lparr>fs_srci := fs_srci s + cnt, fs_rptUb := None\<rparr>)"
    "fs_c s1 = fs_c s" "fs_ubq s1 = (fs_ubq s)[fs_c s := b]" "ub_groups b \<noteq> []"
    by (rule addCur_fit [OF inv g fits [unfolded rem_def] n spt, of None]) (use True p in auto)
  with body more True show thesis
    by (intro that [of "s1\<lparr>fs_srci := fs_srci s + cnt, fs_rptUb := None\<rparr>" b]) (auto simp: rest_def)
qed

lemma fit_inv_cursor:
  assumes inv: "fit_inv ge os (Suc c) s" and c: "fs_c s = c" "ub_groups (fs_ubq s ! c) \<noteq> []"
    and nx: "cursorNext newUpdateBuilder (fs_ubq s) c = (q', c')"
  shows "fit_inv ge os c' (s\<lparr>fs_ubq := q', fs_c := c'\<rparr>) \<and> c' = Suc c"
proof -
  have q: "ub.queue (fs_ubq s)" "c < length (fs_ubq s)" "ub.absent (gc_group ge) (fs_ubq s) (c + 1)"
    using inv c(1) by (simp_all add: fit_inv_def Let_def)
  from ub.cursorNext_queue [OF q(1,2) c(2) q(3) nx] inv show ?thesis
    unfolding fit_inv_def Let_def by (auto split: option.splits)
qed

lemma fitStep_fit:
  assumes inv: "fit_inv ge os (fs_c s) s" and more: "fs_srci s < length (gc_spt ge)"
  shows "\<exists>s'. fitStep ge s = Inr s' \<and> fit_inv ge os (fs_c s') s' \<and>
    ub.walk MinEntrySize (fs_ubq s') (fs_c s') + rest ge s' <
    ub.walk MinEntrySize (fs_ubq s) (fs_c s) + rest ge s"
proof -
  obtain s1 b where s1: "fitBody ge s = Inr s1" "fit_inv ge os (Suc (fs_c s)) s1"
    "fs_c s1 = fs_c s" "fs_ubq s1 = (fs_ubq s)[fs_c s := b]" "ub_groups b \<noteq> []"
    and progress: "rest ge s1 < rest ge s \<or>
      s1 = s \<and> b = fs_ubq s ! fs_c s \<and> ub_remaining (fs_ubq s ! fs_c s) < MinEntrySize"
    by (rule fitBody_fit [OF inv more])
  have c: "fs_c s < length (fs_ubq s)" using inv by (simp add: fit_inv_def Let_def)
  obtain q' c' where nx: "cursorNext newUpdateBuilder (fs_ubq s1) (fs_c s) = (q', c')"
    by (cases "cursorNext newUpdateBuilder (fs_ubq s1) (fs_c s)")
  define s' where "s' = s1\<lparr>fs_ubq := q', fs_c := c'\<rparr>"
  have "ub_groups (fs_ubq s1 ! fs_c s) \<noteq> []" using s1 c by simp
  from fit_inv_cursor [OF s1(2,3) this nx] have "fit_inv ge os c' s'"
    unfolding s'_def by blast
  then have "fit_inv ge os (fs_c s') s'" by (simp add: s'_def)
  moreover have "fitStep ge s = Inr s'"
    using s1 nx by (simp add: fitStep_def s'_def)
  moreover have "rest ge s' = rest ge s1" by (simp add: rest_def s'_def)
  moreover have "MinEntrySize \<le> JPCapacity" by (simp add: size_simps)
  then have "ub.walk MinEntrySize q' c' \<le> ub.walk MinEntrySize (fs_ubq s) (fs_c s)"
    and "ub_remaining (fs_ubq s ! fs_c s) < MinEntrySize \<Longrightarrow> s1 = s \<Longrightarrow>
      ub.walk MinEntrySize q' c' < ub.walk MinEntrySize (fs_ubq s) (fs_c s)"
    using ub.walk_update [OF c nx [unfolded s1(4)]] ub.cursorNext_walk(2) [OF nx] c by auto
  ultimately show ?thesis using progress by (intro exI [of _ s']) (auto simp: s'_def)
qed

lemma fitLoop_fit:
  assumes "fit_inv ge os (fs_c s) s"
  obtains s' where "run_while (\<lambda>s. fs_srci s < length (gc_spt ge)) (fitStep ge) s = Some (Inr s')"
    and "fit_inv ge os (fs_c s') s'" and "fs_srci s' = length (gc_spt ge)"
proof -
  let ?m = "\<lambda>s. ub.walk MinEntrySize (fs_ubq s) (fs_c s) + rest ge s"
  have "\<exists>t. run_while (\<lambda>s. fs_srci s < length (gc_spt ge)) (fitStep ge) s = Some (Inr t) \<and>
      fit_inv ge os (fs_c t) t \<and> \<not> fs_srci t < length (gc_spt ge)"
    by (rule run_while_total [of "\<lambda>s. fit_inv ge os (fs_c s) s" _ _ ?m])
      (use assms fitStep_fit in blast)+
  then show thesis using that by (auto simp: fit_inv_def Let_def)
qed

text \<open>The state of the packer between two groups.\<close>

definition packer_inv :: "GroupEntry list \<Rightarrow> UpdatePacker \<Rightarrow> bool" where
  "packer_inv es up \<longleftrightarrow>
     ub.queue (up_ubq up) \<and> up_start up < length (up_ubq up) \<and> ub.held (up_ubq up) = es"

lemma fitLast_fit:
  assumes inv: "fit_inv ge os n s" and fin: "fs_srci s = length (gc_spt ge)"
  shows "\<exists>up es. fitLast ge s = Inr up \<and> packer_inv es up \<and>
    filter (\<lambda>e. ge_group e \<noteq> gc_group ge) es = os \<and> carries (entriesFor (gc_group ge) es) ge"
proof (cases "fs_rptUb s")
  case None
  with inv fin show ?thesis
    by (auto simp: fit_inv_def Let_def fitLast_def packer_inv_def carries_def)
next
  case (Some k)
  define q where "q = fs_ubq s"
  from Some inv obtain r where r: "gc_rpt ge = Some r" "n \<le> k" "k < length q"
      "rptSize r \<le> ub_remaining (q ! k)"
      "concat (map rptParts (entriesFor (gc_group ge) (ub.held q))) = []"
    by (auto simp: fit_inv_def Let_def q_def)
  define e where "e = rptEntry r (newEntry (gc_group ge))"
  have e: "ge_group e = gc_group ge" "entry_size e \<le> ub_remaining (q ! k)"
    using r by (simp_all add: e_def)
  have q: "ub.queue q" "ub.absent (ge_group e) q n"
    using inv e by (simp_all add: fit_inv_def Let_def q_def)
  obtain b where b: "addGroup (q ! k) e (entry_size e) = Inr b" "ub.queue (q[k := b])"
    "filter (\<lambda>x. ge_group x = ge_group e) (ub.held (q[k := b])) =
       filter (\<lambda>x. ge_group x = ge_group e) (ub.held q) @ [e]"
    "filter (\<lambda>x. ge_group x \<noteq> ge_group e) (ub.held (q[k := b])) =
       filter (\<lambda>x. ge_group x \<noteq> ge_group e) (ub.held q)"
    by (rule ub.add_queue [OF q(1) r(3,2) e(2) q(2)])
  have "fitLast ge s = Inr \<lparr>up_ubq = q[k := b], up_start = fs_start s\<rparr>"
    using b(1) Some r(1) by (simp add: fitLast_def Let_def q_def e_def)
  moreover have "rptParts e = rptImage (gc_rpt ge)" "sptJoins e = []"
    by (simp_all add: e_def r)
  then have "carries (entriesFor (gc_group ge) (ub.held (q[k := b]))) ge"
    using b(3) e(1) inv fin r(5)
    by (simp add: carries_def entriesFor_def fit_inv_def Let_def q_def)
  moreover have "filter (\<lambda>e. ge_group e \<noteq> gc_group ge) (ub.held (q[k := b])) = os"
    using b(4) e(1) inv by (simp add: fit_inv_def Let_def q_def)
  moreover have "fs_start s < length q"
    using inv by (simp add: fit_inv_def Let_def q_def)
  ultimately show ?thesis
    using b(2) by (simp add: packer_inv_def)
qed

section \<open>The search for a builder for the RP\<close>

lemma fit_inv_start:
  assumes "packer_inv es up" and "gc_group ge \<notin> ge_group ` set es"
    and "case rptUb of None \<Rightarrow> gc_rpt ge = None
         | Some k \<Rightarrow> \<exists>r. gc_rpt ge = Some r \<and> up_start up \<le> k \<and> k < length (up_ubq up) \<and>
             rptSize r \<le> ub_remaining (up_ubq up ! k)"
  shows "fit_inv ge es (up_start up) \<lparr>fs_ubq = up_ubq up, fs_start = up_start up,
          fs_c = up_start up, fs_srci = 0, fs_rptUb = rptUb\<rparr>"
proof -
  have "\<forall>e \<in> set es. ge_group e \<noteq> gc_group ge" using assms(2) by (metis image_eqI)
  then have "filter (\<lambda>e. ge_group e \<noteq> gc_group ge) es = es" and "entriesFor (gc_group ge) es = []"
    by (simp_all add: entriesFor_def filter_empty_conv)
  moreover have "ub.absent (gc_group ge) (up_ubq up) (up_start up)"
    using assms(1,2) ub.absent_if_not_held by (simp add: packer_inv_def)
  ultimately show ?thesis
    using assms(1,3) by (auto simp: fit_inv_def Let_def packer_inv_def rptImage_def split: option.splits)
qed

lemma findRptUb_ok:
  assumes inv: "packer_inv es up" and g: "gc_group ge \<notin> ge_group ` set es"
    and bounded: "prunes_bounded ge"
  obtains up' rptUb where "findRptUb up ge = Some (Inr (up', rptUb))"
    and "fit_inv ge es (up_start up') \<lparr>fs_ubq = up_ubq up', fs_start = up_start up',
          fs_c = up_start up', fs_srci = 0, fs_rptUb = rptUb\<rparr>"
proof (cases "gc_rpt ge")
  case None
  with that [of up None] fit_inv_start [OF inv g, of None] show thesis
    by (simp add: findRptUb_def)
next
  case (Some r)
  let ?q = "up_ubq up" and ?sz = "rptSize r"
  let ?P = "\<lambda>(q, i). packer_inv es (up\<lparr>up_ubq := q\<rparr>) \<and> up_start up \<le> i \<and> i < length q"
  have sz: "?sz \<le> JPCapacity"
    using bounded Some by (simp add: prunes_bounded_def size_simps)
  have "\<exists>t. run_while (\<lambda>(q, i). ub_remaining (q ! i) < ?sz)
        (\<lambda>(q, i). Ok (cursorNext newUpdateBuilder q i) :: (pack_error, _) outcome) (?q, up_start up) = Some (Inr t) \<and>
      ?P t \<and> \<not> (case t of (q, i) \<Rightarrow> ub_remaining (q ! i) < ?sz)"
  proof (rule run_while_total [where m = "\<lambda>(q, i). ub.walk ?sz q i"])
    show "?P (?q, up_start up)" using inv by (auto simp: packer_inv_def)
  next
    fix t assume P: "?P t" and b: "case t of (q, i) \<Rightarrow> ub_remaining (q ! i) < ?sz"
    obtain q i where t: "t = (q, i)" by (cases t)
    obtain q' i' where nx: "cursorNext newUpdateBuilder q i = (q', i')"
      by (cases "cursorNext newUpdateBuilder q i")
    from P t have q: "ub.queue q" "i < length q" by (auto simp: packer_inv_def)
    have ne: "ub_groups (q ! i) \<noteq> []"
      using ub.nonempty_if_remaining [OF ub.queue_okD [OF q]] b t sz by auto
    have "ub.absent (gc_group ge) q (i + 1)"
      using g P t by (intro ub.absent_if_not_held) (auto simp: packer_inv_def)
    from ub.cursorNext_queue [OF q ne this nx] ub.cursorNext_walk(2) [OF nx q(2) sz] P b t nx
    show "\<exists>s'. (case t of (q, i) \<Rightarrow> Ok (cursorNext newUpdateBuilder q i)) = Inr s' \<and> ?P s' \<and>
        (case s' of (q, i) \<Rightarrow> ub.walk ?sz q i) < (case t of (q, i) \<Rightarrow> ub.walk ?sz q i)"
      by (auto simp: packer_inv_def)
  qed
  then obtain q i where run: "run_while (\<lambda>(q, i). ub_remaining (q ! i) < ?sz)
        (\<lambda>(q, i). Ok (cursorNext newUpdateBuilder q i) :: (pack_error, _) outcome) (?q, up_start up) = Some (Inr (q, i))"
      and q: "packer_inv es (up\<lparr>up_ubq := q\<rparr>)" "up_start up \<le> i" "i < length q"
      "?sz \<le> ub_remaining (q ! i)"
    by (auto simp: not_less)
  have "findRptUb up ge = Some (Inr (up\<lparr>up_ubq := q\<rparr>, Some i))"
    using Some run by (simp add: findRptUb_def Let_def)
  then show thesis
    using that [of "up\<lparr>up_ubq := q\<rparr>" "Some i"] fit_inv_start [OF q(1) g, of "Some i"] q Some
    by simp
qed

lemma fitGroup_ok:
  assumes inv: "packer_inv es up" and g: "gc_group ge \<notin> ge_group ` set es"
    and bounded: "prunes_bounded ge"
  shows "\<exists>up' es'. fitGroup up ge = Some (Inr up') \<and> packer_inv es' up' \<and>
    filter (\<lambda>e. ge_group e \<noteq> gc_group ge) es' = es \<and> carries (entriesFor (gc_group ge) es') ge"
proof -
  obtain up1 rptUb where find: "findRptUb up ge = Some (Inr (up1, rptUb))"
    and start: "fit_inv ge es (up_start up1) \<lparr>fs_ubq = up_ubq up1, fs_start = up_start up1,
          fs_c = up_start up1, fs_srci = 0, fs_rptUb = rptUb\<rparr>" (is "fit_inv _ _ _ ?s")
    by (rule findRptUb_ok [OF inv g bounded])
  from start have "fit_inv ge es (fs_c ?s) ?s" by simp
  then obtain s' where "run_while (\<lambda>s. fs_srci s < length (gc_spt ge)) (fitStep ge) ?s = Some (Inr s')"
    and "fit_inv ge es (fs_c s') s'" and "fs_srci s' = length (gc_spt ge)"
    by (rule fitLoop_fit)
  with find fitLast_fit [of ge es "fs_c s'" s'] show ?thesis
    by (simp add: fitGroup_def)
qed

lemma fitGroup_diverges:
  assumes inv: "packer_inv es up" and over: "\<not> prunes_bounded ge"
  shows "fitGroup up ge = None"
proof -
  obtain r where r: "gc_rpt ge = Some r" and sz: "JPCapacity < rptSize r"
    using over by (auto simp: prunes_bounded_def size_simps split: option.splits)
  let ?P = "\<lambda>(q, i). (\<forall>b \<in> set q. ub_ok b) \<and> i < length q"
  have "run_while (\<lambda>(q, i). ub_remaining (q ! i) < rptSize r)
      (\<lambda>(q, i). Ok (cursorNext newUpdateBuilder q i) :: (pack_error, _) outcome)
      (up_ubq up, up_start up) = None"
  proof (rule run_while_diverges [of ?P])
    show "?P (up_ubq up, up_start up)"
      using inv by (auto simp: packer_inv_def ub.queue_def)
  next
    fix t assume "?P t"
    then obtain q i where t: "t = (q, i)" "\<forall>b \<in> set q. ub_ok b" "i < length q" by (cases t) auto
    then have "ub_remaining (q ! i) \<le> JPCapacity" by (simp add: ub.remaining_le)
    with sz t show "(case t of (q, i) \<Rightarrow> ub_remaining (q ! i) < rptSize r) \<and>
        (\<exists>s'. (case t of (q, i) \<Rightarrow> (Ok (cursorNext newUpdateBuilder q i) :: (pack_error, _) outcome)) = Inr s' \<and> ?P s')"
      by (auto simp: cursorNext_def Let_def ub.new_ok)
  qed
  with r show ?thesis by (simp add: fitGroup_def findRptUb_def Let_def)
qed

section \<open>The packer, and the updates it builds\<close>

lemma packGroups_ok:
  assumes "packer_inv es up" and "\<forall>gc \<in> set gcs. gc_group gc \<notin> ge_group ` set es"
    and "distinct (map gc_group gcs)" and "\<forall>gc \<in> set gcs. prunes_bounded gc"
  shows "\<exists>up' es'. packGroups up gcs = Some (Inr up') \<and> packer_inv es' up' \<and>
    filter (\<lambda>e. ge_group e \<notin> gc_group ` set gcs) es' = es \<and>
    (\<forall>gc \<in> set gcs. carries (entriesFor (gc_group gc) es') gc)"
  using assms
proof (induction gcs arbitrary: es up)
  case (Cons gc gcs)
  then obtain up1 es1 where first: "fitGroup up gc = Some (Inr up1)" "packer_inv es1 up1"
    "filter (\<lambda>e. ge_group e \<noteq> gc_group gc) es1 = es"
    "carries (entriesFor (gc_group gc) es1) gc"
    using fitGroup_ok [of es up gc] by auto
  have "\<forall>c \<in> set gcs. gc_group c \<notin> ge_group ` set es1"
  proof (intro ballI notI)
    fix c assume c: "c \<in> set gcs" "gc_group c \<in> ge_group ` set es1"
    then obtain e where e: "e \<in> set es1" "ge_group e = gc_group c" by auto
    moreover have "gc_group c \<noteq> gc_group gc" using Cons.prems(3) c(1) by (auto simp: image_iff)
    ultimately have "e \<in> set es" unfolding first(3) [symmetric] by simp
    with Cons.prems(2) c(1) e(2) show False by (metis image_eqI list.set_intros(2))
  qed
  then obtain up2 es2 where rest: "packGroups up1 gcs = Some (Inr up2)" "packer_inv es2 up2"
    "filter (\<lambda>e. ge_group e \<notin> gc_group ` set gcs) es2 = es1"
    "\<forall>gc \<in> set gcs. carries (entriesFor (gc_group gc) es2) gc"
    using Cons.IH [OF first(2)] Cons.prems by auto
  have "entriesFor (gc_group gc) es1 = entriesFor (gc_group gc) es2"
    using Cons.prems(3) unfolding rest(3) [symmetric] entriesFor_def filter_filter
    by (intro filter_cong) (auto simp: image_iff)
  moreover have "filter (\<lambda>e. ge_group e \<notin> gc_group ` set (gc # gcs)) es2 = es"
    unfolding first(3) [symmetric] rest(3) [symmetric] filter_filter
    by (intro filter_cong) auto
  ultimately show ?case using first rest by (intro exI [of _ up2] exI [of _ es2]) simp
qed (simp add: packer_inv_def)

lemma packer_inv_new: "packer_inv [] newUpdatePacker"
  by (simp add: packer_inv_def newUpdatePacker_def ub.queue_new ub.held_def ub.new_ok)

lemma buildUpdates_ok:
  assumes inv: "packer_inv es up"
  shows "concat (map upd_groups (buildUpdates up)) = es"
    and "u \<in> set (buildUpdates up) \<Longrightarrow> upd_groups u \<noteq> [] \<and> distinct (map ge_group (upd_groups u)) \<and>
      us_size (updateSummary n u) \<le> JPCapacity"
proof -
  from inv have q: "ub.queue (up_ubq up)" "ub.held (up_ubq up) = es"
    by (simp_all add: packer_inv_def)
  then obtain bs b where bs: "up_ubq up = bs @ [b]"
    by (cases "up_ubq up" rule: rev_cases) (auto simp: ub.queue_def)
  have built: "buildUpdates up = map ub_build (if ub_groups b = [] then bs else bs @ [b])"
    by (simp add: buildUpdates_def Let_def bs ub_empty_def)
  then show "concat (map upd_groups (buildUpdates up)) = es"
    using q bs by (auto simp: ub_build_def ub.held_def comp_def)
  assume "u \<in> set (buildUpdates up)"
  then obtain c where c: "c \<in> set bs \<and> ub_groups c \<noteq> [] \<or> c = b \<and> ub_groups b \<noteq> []" "u = ub_build c"
    using built q bs by (auto simp: ub.queue_def split: if_splits)
  then have "ub_ok c" "distinct (map ge_group (ub_groups c))"
    using q bs by (auto simp: ub.queue_def)
  then show "upd_groups u \<noteq> [] \<and> distinct (map ge_group (upd_groups u)) \<and>
      us_size (updateSummary n u) \<le> JPCapacity"
    using c by (auto simp: ub_build_def us_size_sum ub_ok_def)
qed

lemma pack_ok:
  assumes "distinct (map gc_group (jp_groups cfg))" and "\<forall>gc \<in> set (jp_groups cfg). prunes_bounded gc"
  shows "\<exists>up es. pack cfg = Some (Inr (buildUpdates up)) \<and> packer_inv es up \<and>
    ge_group ` set es \<subseteq> gc_group ` set (jp_groups cfg) \<and>
    (\<forall>gc \<in> set (jp_groups cfg). carries (entriesFor (gc_group gc) es) gc)"
  using packGroups_ok [OF packer_inv_new, of "jp_groups cfg"] assms
  by (fastforce simp: pack_def filter_empty_conv)

text \<open>C22: The packer returns updates for every configuration with distinct groups and at most 180
  (S,G,rpt) prunes per group, and the entries of each group, in order, carry its configuration: the
  SPT joins are its sources, each once and in their order, without the wildcard and RPT bits, and
  one entry has the RP with both bits and all the RPT prunes.
\<close>

theorem pack_carries:
  assumes "distinct (map gc_group (jp_groups cfg))" and "\<forall>gc \<in> set (jp_groups cfg). prunes_bounded gc"
  shows "\<exists>us. pack cfg = Some (Ok us) \<and>
    (\<forall>gc \<in> set (jp_groups cfg).
       carries (entriesFor (gc_group gc) (concat (map upd_groups us))) gc)"
proof -
  obtain up es where "pack cfg = Some (Inr (buildUpdates up))" "packer_inv es up"
    "\<forall>gc \<in> set (jp_groups cfg). carries (entriesFor (gc_group gc) es) gc"
    using pack_ok [OF assms] by blast
  with buildUpdates_ok(1) show ?thesis by auto
qed

text \<open>A configuration whose groups have an RP, RPT prunes and SPT sources.\<close>

definition sampleConfig :: JPConfig where
  "sampleConfig =
     \<lparr>jp_groups =
        [\<lparr>gc_group = ofOctets 239 1 1 1,
          gc_rpt = Some \<lparr>rp = ofOctets 10 0 0 1, rpt_prunes = [ofOctets 10 1 0 1]\<rparr>,
          gc_spt = [ofOctets 10 2 0 1, ofOctets 10 2 0 2]\<rparr>,
         \<lparr>gc_group = ofOctets 239 1 1 2, gc_rpt = None, gc_spt = [ofOctets 10 2 0 3]\<rparr>]\<rparr>"

lemma sampleConfig_ok:
  "distinct (map gc_group (jp_groups sampleConfig))"
  "\<forall>gc \<in> set (jp_groups sampleConfig). prunes_bounded gc"
  by (simp_all add: sampleConfig_def ofOctets_def prunes_bounded_def size_simps)

lemma pack_carries_witness:
  "\<exists>us. pack sampleConfig = Some (Ok us) \<and>
    (\<forall>gc \<in> set (jp_groups sampleConfig).
       carries (entriesFor (gc_group gc) (concat (map upd_groups us))) gc)"
  by (rule pack_carries [OF sampleConfig_ok])

text \<open>C23: Every update of the packer fits in a Join/Prune message, is not empty, has at most one entry
  per group and only entries for configured groups.
\<close>

theorem pack_fits:
  assumes "distinct (map gc_group (jp_groups cfg))" and "\<forall>gc \<in> set (jp_groups cfg). prunes_bounded gc"
  shows "\<exists>us. pack cfg = Some (Ok us) \<and>
    (\<forall>u \<in> set us. us_size (updateSummary n u) \<le> JPCapacity \<and> upd_groups u \<noteq> [] \<and>
       distinct (map ge_group (upd_groups u)) \<and>
       ge_group ` set (upd_groups u) \<subseteq> gc_group ` set (jp_groups cfg))"
proof -
  obtain up es where up: "pack cfg = Some (Inr (buildUpdates up))" "packer_inv es up"
    "ge_group ` set es \<subseteq> gc_group ` set (jp_groups cfg)"
    using pack_ok [OF assms] by blast
  moreover have "set (upd_groups u) \<subseteq> set es" if "u \<in> set (buildUpdates up)" for u
    using that buildUpdates_ok(1) [OF up(2)] by auto
  ultimately show ?thesis using buildUpdates_ok(2) [OF up(2)] by fastforce
qed

lemma pack_fits_witness:
  "\<exists>us. pack sampleConfig = Some (Ok us) \<and>
    (\<forall>u \<in> set us. us_size (updateSummary 1 u) \<le> JPCapacity \<and> upd_groups u \<noteq> [] \<and>
       distinct (map ge_group (upd_groups u)) \<and>
       ge_group ` set (upd_groups u) \<subseteq> gc_group ` set (jp_groups sampleConfig))"
  by (rule pack_fits [OF sampleConfig_ok])

text \<open>C25: On distinct groups, the packer returns exactly if no group has more than 180 (S,G,rpt)
  prunes: a longer list fits in no update, and the search of \<open>findRptUb\<close> appends builders for ever.
\<close>

theorem pack_terminates_iff:
  assumes "distinct (map gc_group (jp_groups cfg))"
  shows "pack cfg \<noteq> None \<longleftrightarrow> (\<forall>gc \<in> set (jp_groups cfg). prunes_bounded gc)"
proof
  assume "\<forall>gc \<in> set (jp_groups cfg). prunes_bounded gc"
  with pack_ok [OF assms] show "pack cfg \<noteq> None" by auto
next
  assume ret: "pack cfg \<noteq> None"
  show "\<forall>gc \<in> set (jp_groups cfg). prunes_bounded gc"
  proof (rule ccontr)
    assume "\<not> ?thesis"
    then obtain as gc bs where split: "jp_groups cfg = as @ gc # bs" "\<forall>c \<in> set as. prunes_bounded c"
      and over: "\<not> prunes_bounded gc"
      using split_list_first_prop [of "jp_groups cfg" "\<lambda>c. \<not> prunes_bounded c"] by auto
    obtain up es where "packGroups newUpdatePacker as = Some (Inr up)" "packer_inv es up"
      using packGroups_ok [OF packer_inv_new, of as] split assms by auto
    moreover have "packGroups u (as @ xs) = run_then (packGroups u as) (\<lambda>u'. packGroups u' xs)" for u xs
      by (induction as arbitrary: u) (auto simp: run_then_def split: option.split sum.split)
    ultimately have "pack cfg = None"
      using fitGroup_diverges [OF _ over] by (simp add: pack_def split(1))
    with ret show False by simp
  qed
qed

lemma pack_terminates_iff_witness:
  "pack sampleConfig \<noteq> None \<and> prunes_bounded (jp_groups sampleConfig ! 0)"
  using pack_terminates_iff [OF sampleConfig_ok(1)] sampleConfig_ok(2)
  by (simp add: sampleConfig_def)

end
