(* ===== verification/InversePacking.thy ===== *)
theory InversePacking
  imports Builders
begin

text \<open>
  The inverse packer (\<open>pimsm/InversePack.hpp\<close>) builds the updates that withdraw a configuration: a
  prune of the RP of every group that has one, and a prune of every SPT source.
\<close>

section \<open>The packer\<close>

record InverseUpdatePacker =
  iup_ubq :: "InverseUpdateBuilder list"
  iup_start :: nat

definition newInverseUpdatePacker :: InverseUpdatePacker where
  "newInverseUpdatePacker = \<lparr>iup_ubq = [newInverseUpdateBuilder], iup_start = 0\<rparr>"

definition inverseMaxSources :: "nat \<Rightarrow> nat" where
  "inverseMaxSources rem = (if rem \<le> GrpHdrSize then 0 else (rem - GrpHdrSize) div SrcASize)"

record InverseFitState =
  ifs_ubq :: "InverseUpdateBuilder list"
  ifs_start :: nat
  ifs_c :: nat
  ifs_pruneRP :: nat
  ifs_srci :: nat

definition inverseAddCur :: "InverseFitState \<Rightarrow> GroupEntry \<Rightarrow> (pack_error, InverseFitState) outcome" where
  "inverseAddCur s geb =
     and_then (cursorAdd inverseAddGroup iub_full newInverseUpdateBuilder inverse_geb_size
                 (ifs_ubq s) (ifs_c s) (ifs_start s) geb)
       (\<lambda>(ubq, start). Ok (s\<lparr>ifs_ubq := ubq, ifs_start := start\<rparr>))"

definition inverseNext :: "InverseFitState \<Rightarrow> InverseFitState" where
  "inverseNext s =
     (case cursorNext newInverseUpdateBuilder (ifs_ubq s) (ifs_c s) of
        (ubq, c) \<Rightarrow> s\<lparr>ifs_ubq := ubq, ifs_c := c\<rparr>)"

text \<open>The body of the loop: \<open>continue\<close> skips both the addition and the step of the cursor.\<close>

definition inverseFitStep :: "GroupConfig \<Rightarrow> InverseFitState \<Rightarrow> (pack_error, InverseFitState) outcome" where
  "inverseFitStep ge s =
     (let spt = gc_spt ge; srci = ifs_srci s;
          cnt = min (inverseMaxSources (iub_remaining (ifs_ubq s ! ifs_c s)))
                  (ifs_pruneRP s + length spt - srci);
          addSpt = (\<lambda>geb cnt s.
             and_then (inverseAddCur s (pruneAll False geb (take cnt (drop srci spt))))
               (\<lambda>s'. Ok (inverseNext (s'\<lparr>ifs_srci := srci + cnt\<rparr>))))
      in
      if 0 < cnt then
        (if ifs_pruneRP s = 1 then
           (case gc_rpt ge of
              None \<Rightarrow> Fail BadOptionalAccess
            | Some rpt \<Rightarrow>
                let geb = pruneEntry (newEntry (gc_group ge)) (rp rpt) True True;
                    s' = s\<lparr>ifs_pruneRP := 0\<rparr>; cnt' = cnt - 1
                in if cnt' = 0 then Ok s' else addSpt geb cnt' s')
         else addSpt (newEntry (gc_group ge)) cnt s)
      else Ok (inverseNext s))"

text \<open>An RP with no SPT sources is pruned after the loop, in the first builder with room.\<close>

definition inverseFitLast ::
    "GroupConfig \<Rightarrow> InverseFitState \<Rightarrow> (pack_error, InverseUpdatePacker) outcome option" where
  "inverseFitLast ge s =
     (if ifs_pruneRP s = 1 then
        (case gc_rpt ge of
           None \<Rightarrow> Some (Fail BadOptionalAccess)
         | Some rpt \<Rightarrow>
             let geb = pruneEntry (newEntry (gc_group ge)) (rp rpt) True True in
             run_then
               (run_while
                  (\<lambda>s. min (inverseMaxSources (iub_remaining (ifs_ubq s ! ifs_c s))) 1 = 0)
                  (\<lambda>s. Ok (inverseNext s)) s)
               (\<lambda>s. Some (and_then (inverseAddCur s geb)
                  (\<lambda>s'. Ok \<lparr>iup_ubq = ifs_ubq s', iup_start = ifs_start s'\<rparr>))))
      else Some (Ok \<lparr>iup_ubq = ifs_ubq s, iup_start = ifs_start s\<rparr>))"

definition inverseFitGroup ::
    "InverseUpdatePacker \<Rightarrow> GroupConfig \<Rightarrow> (pack_error, InverseUpdatePacker) outcome option" where
  "inverseFitGroup up ge =
     run_then
       (run_while (\<lambda>s. ifs_srci s < length (gc_spt ge)) (inverseFitStep ge)
          \<lparr>ifs_ubq = iup_ubq up, ifs_start = iup_start up, ifs_c = iup_start up,
           ifs_pruneRP = (if gc_rpt ge \<noteq> None then 1 else 0), ifs_srci = 0\<rparr>)
       (inverseFitLast ge)"

fun inversePackGroups ::
    "InverseUpdatePacker \<Rightarrow> GroupConfig list \<Rightarrow> (pack_error, InverseUpdatePacker) outcome option" where
  "inversePackGroups up [] = Some (Ok up)"
| "inversePackGroups up (ge # ges) = run_then (inverseFitGroup up ge) (\<lambda>up'. inversePackGroups up' ges)"

definition inverseBuildUpdates :: "InverseUpdatePacker \<Rightarrow> Update list" where
  "inverseBuildUpdates up =
     (let resSz = length (iup_ubq up);
          resSz' = (if iub_empty (iup_ubq up ! (resSz - 1)) then resSz - 1 else resSz)
      in map iub_build (take resSz' (iup_ubq up)))"

definition inversePack :: "JPConfig \<Rightarrow> (pack_error, Update list) outcome option" where
  "inversePack jpCfg =
     run_then (inversePackGroups newInverseUpdatePacker (jp_groups jpCfg))
       (\<lambda>up. Some (Ok (inverseBuildUpdates up)))"


section \<open>What the inverse updates carry\<close>

definition sptPrunes :: "GroupEntry \<Rightarrow> Source list" where
  "sptPrunes e = filter (\<lambda>s. \<not> src_wildcard s) (ge_prunes e)"

definition rpPrunes :: "GroupEntry \<Rightarrow> Source list" where
  "rpPrunes e = filter src_wildcard (ge_prunes e)"

definition rpPrune :: "RPT option \<Rightarrow> Source list" where
  "rpPrune r = (case r of None \<Rightarrow> [] | Some rpt \<Rightarrow> [rp_source (rp rpt)])"

definition ownEntries :: "IPv4Address \<Rightarrow> GroupEntry list \<Rightarrow> GroupEntry list" where
  "ownEntries g es = filter (\<lambda>e. ge_group e = g) es"

text \<open>
  The entries of a group withdraw its SPT sources.  Its RP is withdrawn too unless the first entry
  holds a single source.
\<close>

definition withdrawsSpt :: "GroupEntry list \<Rightarrow> GroupConfig \<Rightarrow> bool" where
  "withdrawsSpt es gc \<longleftrightarrow>
     concat (map sptPrunes es) = map spt_source (gc_spt gc) \<and> (\<forall>e \<in> set es. ge_joins e = [])"

definition withdrawsRp :: "GroupEntry list \<Rightarrow> GroupConfig \<Rightarrow> bool" where
  "withdrawsRp es gc \<longleftrightarrow> concat (map rpPrunes es) = rpPrune (gc_rpt gc)"

definition losesRp :: "GroupEntry list \<Rightarrow> GroupConfig \<Rightarrow> bool" where
  "losesRp es gc \<longleftrightarrow> gc_rpt gc \<noteq> None \<and> gc_spt gc \<noteq> [] \<and> concat (map rpPrunes es) = [] \<and>
     (\<exists>e es'. es = e # es' \<and> length (ge_prunes e) = 1)"

section \<open>One group\<close>

abbreviation rpEntry :: "IPv4Address \<Rightarrow> RPT \<Rightarrow> GroupEntry" where
  "rpEntry g rpt \<equiv> pruneEntry (newEntry g) (rp rpt) True True"

lemma inverse_entry_simps [simp]:
  "ge_group (pruneAll r geb ss) = ge_group geb"
  "ge_group (pruneEntry geb s w r) = ge_group geb"
  "ge_group (newEntry g) = g"
  "ge_joins (pruneAll r geb ss) = ge_joins geb"
  "ge_joins (pruneEntry geb s w r) = ge_joins geb"
  "ge_joins (newEntry g) = []"
  "ge_prunes (pruneAll False geb ss) = ge_prunes geb @ map spt_source ss"
  "ge_prunes (pruneEntry geb s w r) = ge_prunes geb @ [\<lparr>src_addr = s, src_wildcard = w, src_rpt = r\<rparr>]"
  "ge_prunes (newEntry g) = []"
  by (simp_all add: newEntry_def pruneAll_eq pruneEntry_def)

lemma inverse_entry_size [simp]:
  "entry_size (pruneAll False geb ss) = entry_size geb + length ss * SrcASize"
  "entry_size (newEntry g) = GrpHdrSize"
  "entry_size (pruneEntry geb s w r) = entry_size geb + SrcASize"
  by (simp_all add: entry_size_def algebra_simps)

lemma inverse_parts_simps [simp]:
  "sptPrunes (pruneAll False geb ss) = sptPrunes geb @ map spt_source ss"
  "sptPrunes (newEntry g) = []"
  "sptPrunes (rpEntry g rpt) = []"
  "rpPrunes (pruneAll False geb ss) = rpPrunes geb"
  "rpPrunes (newEntry g) = []"
  "rpPrunes (rpEntry g rpt) = rpPrune (Some rpt)"
  by (simp_all add: sptPrunes_def rpPrunes_def rpPrune_def comp_def)

lemma inverseMaxSources_eq: "inverseMaxSources = maxSources"
  by (rule ext) (simp add: inverseMaxSources_def maxSources_def)

lemma inverseMaxSources_0: "inverseMaxSources r = 0 \<longleftrightarrow> r < MinEntrySize"
  using maxSources_fits [of 1 r] by (auto simp: inverseMaxSources_eq MinEntrySize_def)

text \<open>
  The invariant of the loop: \<open>os\<close> are the entries of the other groups, and no builder from \<open>n\<close> on
  knows this group.  \<open>lone\<close> is the state after \<open>continue\<close>: the RP is forgotten, and the builder at
  the cursor has room for one source.
\<close>

definition lone :: "InverseFitState \<Rightarrow> GroupEntry list \<Rightarrow> bool" where
  "lone s own \<longleftrightarrow> own = [] \<and> ifs_srci s = 0 \<and>
     inverseMaxSources (iub_remaining (ifs_ubq s ! ifs_c s)) = 1"

definition ifit_inv :: "GroupConfig \<Rightarrow> GroupEntry list \<Rightarrow> nat \<Rightarrow> InverseFitState \<Rightarrow> bool" where
  "ifit_inv ge os n s \<longleftrightarrow>
     (let q = ifs_ubq s; g = gc_group ge; own = ownEntries g (iub.held q) in
      iub.queue q \<and> ifs_c s < length q \<and> ifs_start s < length q \<and>
      ifs_srci s \<le> length (gc_spt ge) \<and> iub.absent g q n \<and>
      filter (\<lambda>e. ge_group e \<noteq> g) (iub.held q) = os \<and>
      concat (map sptPrunes own) = map spt_source (take (ifs_srci s) (gc_spt ge)) \<and>
      (\<forall>e \<in> set own. ge_joins e = []) \<and>
      (if ifs_pruneRP s = 1 then gc_rpt ge \<noteq> None \<and> own = [] \<and> ifs_srci s = 0
       else ifs_pruneRP s = 0 \<and>
         (withdrawsRp own ge \<or> losesRp own ge \<or> gc_rpt ge \<noteq> None \<and> gc_spt ge \<noteq> [] \<and> lone s own)))"

lemma inverseAddCur_ok:
  assumes q: "iub.queue (ifs_ubq s)" "ifs_c s < length (ifs_ubq s)" "ifs_start s < length (ifs_ubq s)"
    and e: "entry_size e \<le> iub_remaining (ifs_ubq s ! ifs_c s)" "ge_joins e = []"
    and absent: "iub.absent (ge_group e) (ifs_ubq s) (ifs_c s)"
  obtains b st where "inverseAddCur s e = Inr (s\<lparr>ifs_ubq := (ifs_ubq s)[ifs_c s := b], ifs_start := st\<rparr>)"
    and "st < length (ifs_ubq s)"
    and "iub_groups b \<noteq> []"
    and "iub.queue ((ifs_ubq s)[ifs_c s := b])"
    and "iub.absent (ge_group e) ((ifs_ubq s)[ifs_c s := b]) (Suc (ifs_c s))"
    and "ownEntries (ge_group e) (iub.held ((ifs_ubq s)[ifs_c s := b])) =
         ownEntries (ge_group e) (iub.held (ifs_ubq s)) @ [e]"
    and "filter (\<lambda>x. ge_group x \<noteq> ge_group e) (iub.held ((ifs_ubq s)[ifs_c s := b])) =
         filter (\<lambda>x. ge_group x \<noteq> ge_group e) (iub.held (ifs_ubq s))"
proof -
  obtain b st where b: "cursorAdd inverseAddGroup iub_full newInverseUpdateBuilder inverse_geb_size
        (ifs_ubq s) (ifs_c s) (ifs_start s) e = Inr ((ifs_ubq s)[ifs_c s := b], st)"
    and *: "st < length (ifs_ubq s)" "iub_groups b = iub_groups (ifs_ubq s ! ifs_c s) @ [e]"
      "iub.queue ((ifs_ubq s)[ifs_c s := b])"
      "iub.absent (ge_group e) ((ifs_ubq s)[ifs_c s := b]) (Suc (ifs_c s))"
      "filter (\<lambda>x. ge_group x = ge_group e) (iub.held ((ifs_ubq s)[ifs_c s := b])) =
         filter (\<lambda>x. ge_group x = ge_group e) (iub.held (ifs_ubq s)) @ [e]"
      "filter (\<lambda>x. ge_group x \<noteq> ge_group e) (iub.held ((ifs_ubq s)[ifs_c s := b])) =
         filter (\<lambda>x. ge_group x \<noteq> ge_group e) (iub.held (ifs_ubq s))"
    by (rule iub.cursorAdd_queue [where size_of = inverse_geb_size,
          OF q e(1) absent inverse_geb_size_entry_size [OF e(2)]])
  have "iub_groups b \<noteq> []" using *(2) by simp
  from that [OF _ *(1) this *(3,4) *(5) [folded ownEntries_def] *(6)] b show thesis
    by (simp add: inverseAddCur_def)
qed

text \<open>An entry is added and the cursor moves on.\<close>

definition irest :: "GroupConfig \<Rightarrow> InverseFitState \<Rightarrow> nat" where
  "irest ge s = (length (gc_spt ge) - ifs_srci s) + ifs_pruneRP s"

abbreviation imeasure :: "GroupConfig \<Rightarrow> InverseFitState \<Rightarrow> nat" where
  "imeasure ge s \<equiv> iub.walk MinEntrySize (ifs_ubq s) (ifs_c s) + irest ge s"

lemma inverseNext_ok:
  assumes "iub.queue (ifs_ubq s)" and "ifs_c s < length (ifs_ubq s)"
    and "iub_groups (ifs_ubq s ! ifs_c s) \<noteq> []" and "iub.absent g (ifs_ubq s) (Suc (ifs_c s))"
  obtains q' where "inverseNext s = s\<lparr>ifs_ubq := q', ifs_c := Suc (ifs_c s)\<rparr>"
    and "iub.queue q'" and "Suc (ifs_c s) < length q'" and "iub.absent g q' (Suc (ifs_c s))"
    and "iub.held q' = iub.held (ifs_ubq s)" and "length (ifs_ubq s) \<le> length q'"
    and "cursorNext newInverseUpdateBuilder (ifs_ubq s) (ifs_c s) = (q', Suc (ifs_c s))"
proof -
  obtain q' c' where nx: "cursorNext newInverseUpdateBuilder (ifs_ubq s) (ifs_c s) = (q', c')"
    by (cases "cursorNext newInverseUpdateBuilder (ifs_ubq s) (ifs_c s)")
  from iub.cursorNext_queue [OF assms(1-3) assms(4) [unfolded Suc_eq_plus1] nx] that [of q'] nx
  show thesis by (auto simp: inverseNext_def)
qed

lemma ifit_add:
  assumes inv: "ifit_inv ge os (ifs_c s) s"
    and e: "ge_group e = gc_group ge" "ge_joins e = []"
      "entry_size e \<le> iub_remaining (ifs_ubq s ! ifs_c s)"
    and cnt: "0 < cnt" "ifs_srci s + cnt \<le> length (gc_spt ge)"
    and spt: "sptPrunes e = map spt_source (take cnt (drop (ifs_srci s) (gc_spt ge)))"
    and rp: "let own = ownEntries (gc_group ge) (iub.held (ifs_ubq s)) @ [e]
      in withdrawsRp own ge \<or> losesRp own ge"
  obtains s' where "and_then (inverseAddCur (s\<lparr>ifs_pruneRP := 0\<rparr>) e)
        (\<lambda>s1. Ok (inverseNext (s1\<lparr>ifs_srci := ifs_srci s + cnt\<rparr>))) = Inr s'"
    and "ifit_inv ge os (ifs_c s') s'" and "imeasure ge s' < imeasure ge s"
proof -
  let ?s = "s\<lparr>ifs_pruneRP := 0\<rparr>"
  have q: "iub.queue (ifs_ubq ?s)" "ifs_c ?s < length (ifs_ubq ?s)" "ifs_start ?s < length (ifs_ubq ?s)"
    and absent: "iub.absent (ge_group e) (ifs_ubq ?s) (ifs_c ?s)"
    using inv e(1) by (simp_all add: ifit_inv_def Let_def)
  have e3: "entry_size e \<le> iub_remaining (ifs_ubq ?s ! ifs_c ?s)" using e(3) by simp
  obtain b st where add: "inverseAddCur ?s e = Inr (?s\<lparr>ifs_ubq := (ifs_ubq ?s)[ifs_c ?s := b], ifs_start := st\<rparr>)"
    and b: "st < length (ifs_ubq ?s)" "iub_groups b \<noteq> []"
      "iub.queue ((ifs_ubq ?s)[ifs_c ?s := b])"
      "iub.absent (ge_group e) ((ifs_ubq ?s)[ifs_c ?s := b]) (Suc (ifs_c ?s))"
      "ownEntries (ge_group e) (iub.held ((ifs_ubq ?s)[ifs_c ?s := b])) =
         ownEntries (ge_group e) (iub.held (ifs_ubq ?s)) @ [e]"
      "filter (\<lambda>x. ge_group x \<noteq> ge_group e) (iub.held ((ifs_ubq ?s)[ifs_c ?s := b])) =
         filter (\<lambda>x. ge_group x \<noteq> ge_group e) (iub.held (ifs_ubq ?s))"
    by (rule inverseAddCur_ok [OF q e3 e(2) absent])
  let ?s1 = "?s\<lparr>ifs_ubq := (ifs_ubq s)[ifs_c s := b], ifs_start := st, ifs_srci := ifs_srci s + cnt\<rparr>"
  obtain q' where nx: "inverseNext ?s1 = ?s1\<lparr>ifs_ubq := q', ifs_c := Suc (ifs_c ?s1)\<rparr>"
    and q': "iub.queue q'" "Suc (ifs_c ?s1) < length q'" "iub.absent (gc_group ge) q' (Suc (ifs_c ?s1))"
      "iub.held q' = iub.held (ifs_ubq ?s1)" "length (ifs_ubq ?s1) \<le> length q'"
      "cursorNext newInverseUpdateBuilder (ifs_ubq ?s1) (ifs_c ?s1) = (q', Suc (ifs_c ?s1))"
    by (rule inverseNext_ok [of ?s1 "gc_group ge"]) (use b q e(1) in simp_all)
  have "ifit_inv ge os (Suc (ifs_c s)) (inverseNext ?s1)"
    using inv q' b e rp cnt spt nx unfolding ifit_inv_def Let_def
    by (auto simp: take_add)
  moreover have "iub.walk MinEntrySize q' (Suc (ifs_c s)) \<le> iub.walk MinEntrySize (ifs_ubq s) (ifs_c s)"
    using iub.walk_update [of "ifs_c s" "ifs_ubq s" b q' "Suc (ifs_c s)" MinEntrySize] q'(6) q(2)
    by (simp add: size_simps)
  then have "imeasure ge (inverseNext ?s1) < imeasure ge s"
    using cnt nx by (simp add: irest_def)
  ultimately show thesis
    using that [of "inverseNext ?s1"] add nx by simp
qed

lemma ifit_skip:
  assumes inv: "ifit_inv ge os (ifs_c s) s" and more: "ifs_srci s < length (gc_spt ge) \<or> ifs_pruneRP s = 1"
    and small: "inverseMaxSources (iub_remaining (ifs_ubq s ! ifs_c s)) = 0"
  shows "ifit_inv ge os (ifs_c (inverseNext s)) (inverseNext s) \<and>
    imeasure ge (inverseNext s) < imeasure ge s \<and> ifs_pruneRP (inverseNext s) = ifs_pruneRP s"
proof -
  have q: "iub.queue (ifs_ubq s)" "ifs_c s < length (ifs_ubq s)"
      "iub.absent (gc_group ge) (ifs_ubq s) (Suc (ifs_c s))"
    using inv iub.absent_mono [of "gc_group ge" "ifs_ubq s" "ifs_c s" "Suc (ifs_c s)"]
    by (simp_all add: ifit_inv_def Let_def)
  have rem: "iub_remaining (ifs_ubq s ! ifs_c s) < MinEntrySize"
    using small by (simp add: inverseMaxSources_0)
  then have ne: "iub_groups (ifs_ubq s ! ifs_c s) \<noteq> []"
    using iub.nonempty_if_remaining [OF iub.queue_okD [OF q(1,2)]] by (simp add: size_simps)
  obtain q' where nx: "inverseNext s = s\<lparr>ifs_ubq := q', ifs_c := Suc (ifs_c s)\<rparr>"
    and q': "iub.queue q'" "Suc (ifs_c s) < length q'" "iub.absent (gc_group ge) q' (Suc (ifs_c s))"
      "iub.held q' = iub.held (ifs_ubq s)" "length (ifs_ubq s) \<le> length q'"
      "cursorNext newInverseUpdateBuilder (ifs_ubq s) (ifs_c s) = (q', Suc (ifs_c s))"
    by (rule inverseNext_ok [OF q(1,2) ne q(3)])
  have "iub.walk MinEntrySize q' (Suc (ifs_c s)) < iub.walk MinEntrySize (ifs_ubq s) (ifs_c s)"
    using iub.cursorNext_walk(2) [OF q'(6) q(2) _ rem] by (simp add: size_simps)
  moreover have "ifit_inv ge os (Suc (ifs_c s)) (s\<lparr>ifs_ubq := q', ifs_c := Suc (ifs_c s)\<rparr>)"
    using inv q' small unfolding ifit_inv_def Let_def lone_def by auto
  ultimately show ?thesis by (simp add: nx irest_def)
qed

lemma inverseFitStep_ok:
  assumes inv: "ifit_inv ge os (ifs_c s) s" and more: "ifs_srci s < length (gc_spt ge)"
  shows "\<exists>s'. inverseFitStep ge s = Inr s' \<and> ifit_inv ge os (ifs_c s') s' \<and>
    imeasure ge s' < imeasure ge s"
proof -
  define ms where "ms = inverseMaxSources (iub_remaining (ifs_ubq s ! ifs_c s))"
  define own where "own = ownEntries (gc_group ge) (iub.held (ifs_ubq s))"
  define cnt where "cnt = min ms (ifs_pruneRP s + length (gc_spt ge) - ifs_srci s)"
  consider (skip) "ms = 0" | (spt) "0 < ms" "ifs_pruneRP s = 0"
    | (lone) "ms = 1" "ifs_pruneRP s = 1" | (rp) "1 < ms" "ifs_pruneRP s = 1"
    using inv by (fastforce simp: ifit_inv_def Let_def split: if_splits)
  then show ?thesis
  proof cases
    case skip
    with ifit_skip [OF inv] more show ?thesis
      by (simp add: inverseFitStep_def Let_def ms_def)
  next
    case spt
    then have cnt: "0 < cnt" "ifs_srci s + cnt \<le> length (gc_spt ge)" "cnt \<le> ms"
      using more by (auto simp: cnt_def)
    define e where "e = pruneAll False (newEntry (gc_group ge)) (take cnt (drop (ifs_srci s) (gc_spt ge)))"
    have e: "ge_group e = gc_group ge" "ge_joins e = []"
        "sptPrunes e = map spt_source (take cnt (drop (ifs_srci s) (gc_spt ge)))" "rpPrunes e = []"
      by (simp_all add: e_def)
    have "entry_size e = GrpHdrSize + cnt * SrcASize"
      using cnt(2) by (simp add: e_def)
    then have fits: "entry_size e \<le> iub_remaining (ifs_ubq s ! ifs_c s)"
      using maxSources_fits [OF cnt(1)] cnt(3) by (simp add: ms_def inverseMaxSources_eq)
    have one: "lone s own \<Longrightarrow> length (ge_prunes e) = 1"
      using more spt(2) by (cases "gc_spt ge") (auto simp: lone_def e_def cnt_def ms_def)
    have "withdrawsRp own ge \<or> losesRp own ge \<or> gc_rpt ge \<noteq> None \<and> gc_spt ge \<noteq> [] \<and> lone s own"
      using inv spt by (simp add: ifit_inv_def Let_def own_def)
    then have "withdrawsRp (own @ [e]) ge \<or> losesRp (own @ [e]) ge"
      using e(4) one by (auto simp: withdrawsRp_def losesRp_def lone_def)
    then obtain s' where "and_then (inverseAddCur (s\<lparr>ifs_pruneRP := 0\<rparr>) e)
        (\<lambda>s1. Ok (inverseNext (s1\<lparr>ifs_srci := ifs_srci s + cnt\<rparr>))) = Inr s'"
      "ifit_inv ge os (ifs_c s') s'" "imeasure ge s' < imeasure ge s"
      by (rule ifit_add [OF inv e(1,2) fits cnt(1,2) e(3), unfolded Let_def own_def [symmetric]])
    moreover have "s\<lparr>ifs_pruneRP := 0\<rparr> = s" using spt by simp
    ultimately show ?thesis
      using spt cnt(1) by (simp add: inverseFitStep_def Let_def cnt_def ms_def e_def)
  next
    case lone
    then obtain r where "gc_rpt ge = Some r" using inv by (auto simp: ifit_inv_def Let_def)
    with lone more have "inverseFitStep ge s = Inr (s\<lparr>ifs_pruneRP := 0\<rparr>)"
      by (auto simp: inverseFitStep_def Let_def ms_def min_def)
    moreover have "ifit_inv ge os (ifs_c s) (s\<lparr>ifs_pruneRP := 0\<rparr>)"
      using inv lone more by (auto simp: ifit_inv_def Let_def lone_def ms_def)
    ultimately show ?thesis using lone by (simp add: irest_def)
  next
    case rp
    then obtain r where r: "gc_rpt ge = Some r" "own = []" "ifs_srci s = 0"
      using inv by (auto simp: ifit_inv_def Let_def own_def)
    define n where "n = cnt - 1"
    have n: "0 < n" "ifs_srci s + n \<le> length (gc_spt ge)" "n + 1 \<le> ms" "cnt = Suc n"
      using rp more r by (auto simp: n_def cnt_def)
    define e where "e = pruneAll False (rpEntry (gc_group ge) r) (take n (drop (ifs_srci s) (gc_spt ge)))"
    have e: "ge_group e = gc_group ge" "ge_joins e = []"
        "sptPrunes e = map spt_source (take n (drop (ifs_srci s) (gc_spt ge)))"
        "rpPrunes e = rpPrune (gc_rpt ge)"
      by (simp_all add: e_def r)
    have "entry_size e = GrpHdrSize + (n + 1) * SrcASize"
      using n(2) by (simp add: e_def)
    then have fits: "entry_size e \<le> iub_remaining (ifs_ubq s ! ifs_c s)"
      using maxSources_fits [of "n + 1"] n(3) by (simp add: ms_def inverseMaxSources_eq)
    have "withdrawsRp (own @ [e]) ge" using e r by (simp add: withdrawsRp_def)
    then obtain s' where "and_then (inverseAddCur (s\<lparr>ifs_pruneRP := 0\<rparr>) e)
        (\<lambda>s1. Ok (inverseNext (s1\<lparr>ifs_srci := ifs_srci s + n\<rparr>))) = Inr s'"
      "ifit_inv ge os (ifs_c s') s'" "imeasure ge s' < imeasure ge s"
      by (rule ifit_add [OF inv e(1,2) fits n(1,2) e(3), unfolded Let_def own_def [symmetric], OF disjI1])
    then show ?thesis
      using rp n r cnt_def by (simp add: inverseFitStep_def Let_def ms_def [symmetric] e_def)
  qed
qed

lemma inverseLoop_ok:
  assumes "ifit_inv ge os (ifs_c s) s"
  obtains s' where "run_while (\<lambda>s. ifs_srci s < length (gc_spt ge)) (inverseFitStep ge) s = Some (Inr s')"
    and "ifit_inv ge os (ifs_c s') s'" and "ifs_srci s' = length (gc_spt ge)"
proof -
  have "\<exists>t. run_while (\<lambda>s. ifs_srci s < length (gc_spt ge)) (inverseFitStep ge) s = Some (Inr t) \<and>
      ifit_inv ge os (ifs_c t) t \<and> \<not> ifs_srci t < length (gc_spt ge)"
    by (rule run_while_total [of "\<lambda>s. ifit_inv ge os (ifs_c s) s" _ _ "imeasure ge"])
      (use assms inverseFitStep_ok in blast)+
  then show thesis using that by (auto simp: ifit_inv_def Let_def)
qed

definition ipacker_inv :: "GroupEntry list \<Rightarrow> InverseUpdatePacker \<Rightarrow> bool" where
  "ipacker_inv es up \<longleftrightarrow>
     iub.queue (iup_ubq up) \<and> iup_start up < length (iup_ubq up) \<and> iub.held (iup_ubq up) = es"

text \<open>What the entries of a group are, in the end.\<close>

definition withdraws :: "GroupEntry list \<Rightarrow> GroupConfig \<Rightarrow> bool" where
  "withdraws es gc \<longleftrightarrow> withdrawsSpt es gc \<and> (withdrawsRp es gc \<or> losesRp es gc)"

lemma inverseFitLast_ok:
  assumes inv: "ifit_inv ge os (ifs_c s) s" and fin: "ifs_srci s = length (gc_spt ge)"
  shows "\<exists>up es. inverseFitLast ge s = Some (Inr up) \<and> ipacker_inv es up \<and>
    filter (\<lambda>e. ge_group e \<noteq> gc_group ge) es = os \<and>
    withdraws (ownEntries (gc_group ge) es) ge"
proof (cases "ifs_pruneRP s = 1")
  case False
  have "\<not> (gc_spt ge \<noteq> [] \<and> lone s own)" for own using fin by (auto simp: lone_def)
  with inv fin False show ?thesis
    by (auto simp: ifit_inv_def Let_def inverseFitLast_def ipacker_inv_def withdraws_def withdrawsSpt_def)
next
  case True
  then obtain r where r: "gc_rpt ge = Some r" using inv by (auto simp: ifit_inv_def Let_def)
  let ?b = "\<lambda>s. min (inverseMaxSources (iub_remaining (ifs_ubq s ! ifs_c s))) 1 = 0"
  let ?P = "\<lambda>s. ifit_inv ge os (ifs_c s) s \<and> ifs_pruneRP s = 1"
  have "\<exists>t. run_while ?b (\<lambda>s. Ok (inverseNext s) :: (pack_error, _) outcome) s = Some (Inr t) \<and> ?P t \<and> \<not> ?b t"
    by (rule run_while_total [of ?P _ _ "imeasure ge"]) (use inv True ifit_skip in auto)
  then obtain t where t: "run_while ?b (\<lambda>s. Ok (inverseNext s) :: (pack_error, _) outcome) s = Some (Inr t)"
      "ifit_inv ge os (ifs_c t) t" "ifs_pruneRP t = 1"
      "0 < inverseMaxSources (iub_remaining (ifs_ubq t ! ifs_c t))"
    by auto
  let ?e = "rpEntry (gc_group ge) r"
  have q: "iub.queue (ifs_ubq t)" "ifs_c t < length (ifs_ubq t)" "ifs_start t < length (ifs_ubq t)"
    and absent: "iub.absent (ge_group ?e) (ifs_ubq t) (ifs_c t)"
    and own: "ownEntries (gc_group ge) (iub.held (ifs_ubq t)) = []" and "ifs_srci t = 0"
    using t by (simp_all add: ifit_inv_def Let_def)
  have "gc_spt ge = []" using fin inv True by (simp add: ifit_inv_def Let_def)
  have fits: "entry_size ?e \<le> iub_remaining (ifs_ubq t ! ifs_c t)"
    using t(4) inverseMaxSources_0 [of "iub_remaining (ifs_ubq t ! ifs_c t)"]
    by (simp add: MinEntrySize_def)
  have joins: "ge_joins ?e = []" by simp
  obtain b st where add: "inverseAddCur t ?e = Inr (t\<lparr>ifs_ubq := (ifs_ubq t)[ifs_c t := b], ifs_start := st\<rparr>)"
    and b: "st < length (ifs_ubq t)" "iub.queue ((ifs_ubq t)[ifs_c t := b])"
      "ownEntries (ge_group ?e) (iub.held ((ifs_ubq t)[ifs_c t := b])) =
         ownEntries (ge_group ?e) (iub.held (ifs_ubq t)) @ [?e]"
      "filter (\<lambda>x. ge_group x \<noteq> ge_group ?e) (iub.held ((ifs_ubq t)[ifs_c t := b])) =
         filter (\<lambda>x. ge_group x \<noteq> ge_group ?e) (iub.held (ifs_ubq t))"
    by (rule inverseAddCur_ok [OF q fits joins absent])
  have "inverseFitLast ge s =
      Some (Inr \<lparr>iup_ubq = (ifs_ubq t)[ifs_c t := b], iup_start = st\<rparr>)"
    using True r t(1) add by (simp add: inverseFitLast_def Let_def)
  moreover have "withdraws (ownEntries (gc_group ge) (iub.held ((ifs_ubq t)[ifs_c t := b]))) ge"
    using b(3) own r \<open>gc_spt ge = []\<close> by (simp add: withdraws_def withdrawsSpt_def withdrawsRp_def)
  moreover have "filter (\<lambda>e. ge_group e \<noteq> gc_group ge) (iub.held ((ifs_ubq t)[ifs_c t := b])) = os"
    using b(4) t(2) by (simp add: ifit_inv_def Let_def)
  ultimately show ?thesis using b(1,2) by (simp add: ipacker_inv_def)
qed

lemma inverseFitGroup_ok:
  assumes inv: "ipacker_inv es up" and g: "gc_group ge \<notin> ge_group ` set es"
  shows "\<exists>up' es'. inverseFitGroup up ge = Some (Inr up') \<and> ipacker_inv es' up' \<and>
    filter (\<lambda>e. ge_group e \<noteq> gc_group ge) es' = es \<and> withdraws (ownEntries (gc_group ge) es') ge"
proof -
  let ?s = "\<lparr>ifs_ubq = iup_ubq up, ifs_start = iup_start up, ifs_c = iup_start up,
           ifs_pruneRP = (if gc_rpt ge \<noteq> None then 1 else 0), ifs_srci = 0\<rparr>"
  have "\<forall>e \<in> set es. ge_group e \<noteq> gc_group ge" using g by (metis image_eqI)
  then have "filter (\<lambda>e. ge_group e \<noteq> gc_group ge) es = es" and "ownEntries (gc_group ge) es = []"
    by (simp_all add: ownEntries_def filter_empty_conv)
  moreover have "iub.absent (gc_group ge) (iup_ubq up) (iup_start up)"
    using inv g iub.absent_if_not_held by (simp add: ipacker_inv_def)
  ultimately have "ifit_inv ge es (ifs_c ?s) ?s"
    using inv by (auto simp: ifit_inv_def Let_def ipacker_inv_def withdrawsRp_def rpPrune_def)
  then obtain s' where "run_while (\<lambda>s. ifs_srci s < length (gc_spt ge)) (inverseFitStep ge) ?s = Some (Inr s')"
    and "ifit_inv ge es (ifs_c s') s'" and "ifs_srci s' = length (gc_spt ge)"
    by (rule inverseLoop_ok)
  with inverseFitLast_ok [of ge es s'] show ?thesis by (simp add: inverseFitGroup_def)
qed

section \<open>The packer, and the updates it builds\<close>

lemma inversePackGroups_ok:
  assumes "ipacker_inv es up" and "\<forall>gc \<in> set gcs. gc_group gc \<notin> ge_group ` set es"
    and "distinct (map gc_group gcs)"
  shows "\<exists>up' es'. inversePackGroups up gcs = Some (Inr up') \<and> ipacker_inv es' up' \<and>
    filter (\<lambda>e. ge_group e \<notin> gc_group ` set gcs) es' = es \<and>
    (\<forall>gc \<in> set gcs. withdraws (ownEntries (gc_group gc) es') gc)"
  using assms
proof (induction gcs arbitrary: es up)
  case (Cons gc gcs)
  then obtain up1 es1 where first: "inverseFitGroup up gc = Some (Inr up1)" "ipacker_inv es1 up1"
    "filter (\<lambda>e. ge_group e \<noteq> gc_group gc) es1 = es"
    "withdraws (ownEntries (gc_group gc) es1) gc"
    using inverseFitGroup_ok [of es up gc] by auto
  have "\<forall>c \<in> set gcs. gc_group c \<notin> ge_group ` set es1"
  proof (intro ballI notI)
    fix c assume c: "c \<in> set gcs" "gc_group c \<in> ge_group ` set es1"
    then obtain e where e: "e \<in> set es1" "ge_group e = gc_group c" by auto
    moreover have "gc_group c \<noteq> gc_group gc" using Cons.prems(3) c(1) by (auto simp: image_iff)
    ultimately have "e \<in> set es" unfolding first(3) [symmetric] by simp
    with Cons.prems(2) c(1) e(2) show False by (metis image_eqI list.set_intros(2))
  qed
  then obtain up2 es2 where rest: "inversePackGroups up1 gcs = Some (Inr up2)" "ipacker_inv es2 up2"
    "filter (\<lambda>e. ge_group e \<notin> gc_group ` set gcs) es2 = es1"
    "\<forall>gc \<in> set gcs. withdraws (ownEntries (gc_group gc) es2) gc"
    using Cons.IH [OF first(2)] Cons.prems by auto
  have "ownEntries (gc_group gc) es1 = ownEntries (gc_group gc) es2"
    using Cons.prems(3) unfolding rest(3) [symmetric] ownEntries_def filter_filter
    by (intro filter_cong) (auto simp: image_iff)
  moreover have "filter (\<lambda>e. ge_group e \<notin> gc_group ` set (gc # gcs)) es2 = es"
    unfolding first(3) [symmetric] rest(3) [symmetric] filter_filter
    by (intro filter_cong) auto
  ultimately show ?case using first rest by (intro exI [of _ up2] exI [of _ es2]) simp
qed (simp add: ipacker_inv_def)

lemma ipacker_inv_new: "ipacker_inv [] newInverseUpdatePacker"
  by (simp add: ipacker_inv_def newInverseUpdatePacker_def iub.queue_new iub.held_def iub.new_ok)

lemma inverseBuildUpdates_ok:
  assumes inv: "ipacker_inv es up"
  shows "concat (map upd_groups (inverseBuildUpdates up)) = es"
    and "u \<in> set (inverseBuildUpdates up) \<Longrightarrow> upd_groups u \<noteq> [] \<and>
      distinct (map ge_group (upd_groups u)) \<and> us_size (updateSummary n u) \<le> JPCapacity"
proof -
  from inv have q: "iub.queue (iup_ubq up)" "iub.held (iup_ubq up) = es"
    by (simp_all add: ipacker_inv_def)
  then obtain bs b where bs: "iup_ubq up = bs @ [b]"
    by (cases "iup_ubq up" rule: rev_cases) (auto simp: iub.queue_def)
  have built: "inverseBuildUpdates up = map iub_build (if iub_groups b = [] then bs else bs @ [b])"
    by (simp add: inverseBuildUpdates_def Let_def bs iub_empty_def)
  then show "concat (map upd_groups (inverseBuildUpdates up)) = es"
    using q bs by (auto simp: iub_build_def iub.held_def comp_def)
  assume "u \<in> set (inverseBuildUpdates up)"
  then obtain c where c: "c \<in> set bs \<and> iub_groups c \<noteq> [] \<or> c = b \<and> iub_groups b \<noteq> []" "u = iub_build c"
    using built q bs by (auto simp: iub.queue_def split: if_splits)
  then have "iub_ok c" "distinct (map ge_group (iub_groups c))"
    using q bs by (auto simp: iub.queue_def)
  then show "upd_groups u \<noteq> [] \<and> distinct (map ge_group (upd_groups u)) \<and>
      us_size (updateSummary n u) \<le> JPCapacity"
    using c by (auto simp: iub_build_def us_size_sum iub_ok_def)
qed

lemma inversePack_ok:
  assumes "distinct (map gc_group (jp_groups cfg))"
  shows "\<exists>up es. inversePack cfg = Some (Inr (inverseBuildUpdates up)) \<and> ipacker_inv es up \<and>
    ge_group ` set es \<subseteq> gc_group ` set (jp_groups cfg) \<and>
    (\<forall>gc \<in> set (jp_groups cfg). withdraws (ownEntries (gc_group gc) es) gc)"
  using inversePackGroups_ok [OF ipacker_inv_new, of "jp_groups cfg"] assms
  by (fastforce simp: inversePack_def filter_empty_conv)

text \<open>C26: The inverse packer returns updates for every configuration with distinct groups, and the
  entries of each group, in order, prune its SPT sources, each once and in their order.  They prune
  its RP once, with the wildcard and RPT bits, except where the first entry of the group holds a
  single source: then the RP can be missing.
\<close>

theorem inverse_pack_withdraws:
  assumes "distinct (map gc_group (jp_groups cfg))"
  shows "\<exists>us. inversePack cfg = Some (Ok us) \<and>
    (\<forall>gc \<in> set (jp_groups cfg).
       withdraws (ownEntries (gc_group gc) (concat (map upd_groups us))) gc)"
proof -
  obtain up es where "inversePack cfg = Some (Inr (inverseBuildUpdates up))" "ipacker_inv es up"
    "\<forall>gc \<in> set (jp_groups cfg). withdraws (ownEntries (gc_group gc) es) gc"
    using inversePack_ok [OF assms] by blast
  with inverseBuildUpdates_ok(1) show ?thesis by auto
qed

definition sampleInverseConfig :: JPConfig where
  "sampleInverseConfig =
     \<lparr>jp_groups =
        [\<lparr>gc_group = ofOctets 239 1 1 1,
          gc_rpt = Some \<lparr>rp = ofOctets 10 0 0 1, rpt_prunes = [ofOctets 10 1 0 1]\<rparr>,
          gc_spt = [ofOctets 10 2 0 1, ofOctets 10 2 0 2]\<rparr>,
         \<lparr>gc_group = ofOctets 239 1 1 2, gc_rpt = None, gc_spt = [ofOctets 10 2 0 3]\<rparr>]\<rparr>"

lemma sampleInverseConfig_ok: "distinct (map gc_group (jp_groups sampleInverseConfig))"
  by (simp add: sampleInverseConfig_def ofOctets_def)

lemma inverse_pack_withdraws_witness:
  "\<exists>us. inversePack sampleInverseConfig = Some (Ok us) \<and>
    (\<forall>gc \<in> set (jp_groups sampleInverseConfig).
       withdraws (ownEntries (gc_group gc) (concat (map upd_groups us))) gc)"
  by (rule inverse_pack_withdraws [OF sampleInverseConfig_ok])

text \<open>Every update of the inverse packer fits in a Join/Prune message, is not empty, has at most one
  entry per group and only entries for configured groups.
\<close>

theorem inverse_pack_fits:
  assumes "distinct (map gc_group (jp_groups cfg))"
  shows "\<exists>us. inversePack cfg = Some (Ok us) \<and>
    (\<forall>u \<in> set us. us_size (updateSummary n u) \<le> JPCapacity \<and> upd_groups u \<noteq> [] \<and>
       distinct (map ge_group (upd_groups u)) \<and>
       ge_group ` set (upd_groups u) \<subseteq> gc_group ` set (jp_groups cfg))"
proof -
  obtain up es where up: "inversePack cfg = Some (Inr (inverseBuildUpdates up))" "ipacker_inv es up"
    "ge_group ` set es \<subseteq> gc_group ` set (jp_groups cfg)"
    using inversePack_ok [OF assms] by blast
  moreover have "set (upd_groups u) \<subseteq> set es" if "u \<in> set (inverseBuildUpdates up)" for u
    using that inverseBuildUpdates_ok(1) [OF up(2)] by auto
  ultimately show ?thesis using inverseBuildUpdates_ok(2) [OF up(2)] by fastforce
qed

lemma inverse_pack_fits_witness:
  "\<exists>us. inversePack sampleInverseConfig = Some (Ok us) \<and>
    (\<forall>u \<in> set us. us_size (updateSummary 1 u) \<le> JPCapacity \<and> upd_groups u \<noteq> [] \<and>
       distinct (map ge_group (upd_groups u)) \<and>
       ge_group ` set (upd_groups u) \<subseteq> gc_group ` set (jp_groups sampleInverseConfig))"
  by (rule inverse_pack_fits [OF sampleInverseConfig_ok])

lemmas drop_evals =
  newInverseUpdatePacker_def newInverseUpdateBuilder_def inverseFitStep_def inverseNext_def
  cursorNext_def inverseAddCur_def cursorAdd_def inverseAddGroup_def inverseChkSz_def
  inverse_geb_size_def pruneAll_eq pruneEntry_def newEntry_def inverseMaxSources_def
  iub_remaining_def iub_full_def updateStart_def updateStartLoop_stop Let_def size_simps

lemma inversePack_lone:
  assumes "length xs = 179"
  shows "inversePack
      \<lparr>jp_groups =
         [\<lparr>gc_group = g1, gc_rpt = None, gc_spt = xs\<rparr>,
          \<lparr>gc_group = g2, gc_rpt = Some r, gc_spt = [s]\<rparr>]\<rparr> =
    Some (Ok
      [\<lparr>upd_groups =
          [\<lparr>ge_group = g1, ge_joins = [], ge_prunes = map spt_source xs\<rparr>,
           \<lparr>ge_group = g2, ge_joins = [], ge_prunes = [spt_source s]\<rparr>]\<rparr>])"
proof -
  let ?c1 = "\<lparr>gc_group = g1, gc_rpt = None, gc_spt = xs\<rparr>"
    and ?c2 = "\<lparr>gc_group = g2, gc_rpt = Some r, gc_spt = [s]\<rparr>"
    and ?b0 = "\<lparr>iub_groups = [], iub_sz = 0\<rparr>"
    and ?e1 = "\<lparr>ge_group = g1, ge_joins = [], ge_prunes = map spt_source xs\<rparr>"
    and ?e2 = "\<lparr>ge_group = g2, ge_joins = [], ge_prunes = [spt_source s]\<rparr>"
  have "xs \<noteq> []" using assms by auto
  then have fit1: "inverseFitGroup newInverseUpdatePacker ?c1 =
      Some (Inr \<lparr>iup_ubq = [\<lparr>iub_groups = [?e1], iub_sz = 1444\<rparr>, ?b0], iup_start = 0\<rparr>)"
    using assms
    by (subst inverseFitGroup_def, subst run_while_step)
      (simp add: drop_evals run_while_end inverseFitLast_def)+
  have fit2: "inverseFitGroup
      \<lparr>iup_ubq = [\<lparr>iub_groups = [?e1], iub_sz = 1444\<rparr>, ?b0], iup_start = 0\<rparr> ?c2 =
      Some (Inr \<lparr>iup_ubq = [\<lparr>iub_groups = [?e1, ?e2], iub_sz = 1464\<rparr>, ?b0], iup_start = 0\<rparr>)"
    by (subst inverseFitGroup_def, subst run_while_step) 
      (simp add: drop_evals run_while_end run_while_step inverseFitLast_def)+
  show ?thesis
    using fit1 fit2
    by (simp add: inversePack_def inverseBuildUpdates_def iub_empty_def iub_build_def)
qed

text \<open>The RP prune is lost where an update has room for one more source only.  A group with 179 SPT
  sources leaves 22 bytes of the first update; the next group, with an RP and one SPT source, then
  gets an entry that prunes the source and no entry that prunes the RP.
\<close>

theorem inverse_pack_drops_rp:
  assumes "length xs = 179"
  shows "inversePack
      \<lparr>jp_groups =
         [\<lparr>gc_group = g1, gc_rpt = None, gc_spt = xs\<rparr>,
          \<lparr>gc_group = g2, gc_rpt = Some r, gc_spt = [s]\<rparr>]\<rparr> =
    Some (Ok
      [\<lparr>upd_groups =
          [\<lparr>ge_group = g1, ge_joins = [], ge_prunes = map spt_source xs\<rparr>,
           \<lparr>ge_group = g2, ge_joins = [], ge_prunes = [spt_source s]\<rparr>]\<rparr>])"
  by (rule inversePack_lone [OF assms])

lemma inverse_pack_drops_rp_witness:
  "inversePack
      \<lparr>jp_groups =
         [\<lparr>gc_group = ofOctets 239 1 1 1, gc_rpt = None, gc_spt = map IPv4Address (replicate 179 1)\<rparr>,
          \<lparr>gc_group = ofOctets 239 1 1 2,
           gc_rpt = Some \<lparr>rp = ofOctets 10 0 0 1, rpt_prunes = []\<rparr>,
           gc_spt = [ofOctets 10 2 0 1]\<rparr>]\<rparr> =
    Some (Ok
      [\<lparr>upd_groups =
          [\<lparr>ge_group = ofOctets 239 1 1 1, ge_joins = [],
            ge_prunes = map spt_source (map IPv4Address (replicate 179 1))\<rparr>,
           \<lparr>ge_group = ofOctets 239 1 1 2, ge_joins = [],
            ge_prunes = [spt_source (ofOctets 10 2 0 1)]\<rparr>]\<rparr>])"
  by (rule inverse_pack_drops_rp) simp

end
