(* ===== verification/SanityCheck.thy ===== *)
theory SanityCheck
  imports Packing InversePacking
begin

text \<open>
  The check of the packers' updates against the configuration (\<open>pimsm/SanityCheckUtils.hpp\<close>,
  \<open>pimsm/PackSanityCheck.hpp\<close>, \<open>pimsm/InversePackSanityCheck.hpp\<close>): the entries of the updates are
  gathered by group, converted back into a configuration and compared.  A message is a constructor
  with the arguments of its format string.  An \<open>unordered_map\<close> is a list of pairs in insertion order:
  only the order of the messages depends on it.
\<close>

section \<open>Messages\<close>

datatype group_error =
    RpRptBitNotSet int IPv4Address
  | RpDuplicate int IPv4Address
  | RpConflict int IPv4Address IPv4Address
  | SourceRptBitSet int IPv4Address
  | DuplicateSource int IPv4Address
  | JoinAlsoPruned int IPv4Address
  | PrunesWithoutRp int nat
  | PruneWildcardSet int IPv4Address
  | PruneRptBitNotSet int IPv4Address
  | DuplicatePrune int IPv4Address
  | PruneAlsoJoined int IPv4Address
  | IgnoredJoins int nat
  | MissingJoins "IPv4Address list"
  | ExtraneousJoins "IPv4Address list"
  | MissingRpt IPv4Address "nat option"
  | ExtraneousRpt IPv4Address "nat option"
  | RpDiffers IPv4Address IPv4Address
  | MissingPrunes "IPv4Address list"
  | ExtraneousPrunes "IPv4Address list"

datatype sanity_error =
    GroupErrors IPv4Address "group_error list"
  | MissingGroups "IPv4Address list"
  | ExtraneousGroups "IPv4Address list"

definition compareAddrSets ::
    "IPv4Address set \<Rightarrow> IPv4Address set \<Rightarrow> IPv4Address list \<times> IPv4Address list" where
  "compareAddrSets a b = (sorted_list_of_set (a - b), sorted_list_of_set (b - a))"

definition keySet :: "(IPv4Address \<times> 'v) list \<Rightarrow> IPv4Address set" where
  "keySet m = fst ` set m"

definition vecSet :: "IPv4Address list \<Rightarrow> IPv4Address set" where
  "vecSet v = set v"

section \<open>Conversion of the entries of a group\<close>

text \<open>
  \<open>cv_base\<close> and \<open>cv_errors\<close> are the members of \<open>GroupBase\<close>.  The class declares a \<open>group_\<close> of its
  own, here \<open>cv_group\<close>, which no constructor sets.
\<close>

record GroupEntryConverter =
  cv_base :: IPv4Address
  cv_errors :: "group_error list"
  cv_group :: IPv4Address
  cv_joins :: "IPv4Address set"
  cv_rp :: "IPv4Address option"
  cv_prunes :: "IPv4Address set"

definition newConverter :: "IPv4Address \<Rightarrow> GroupEntryConverter" where
  "newConverter g =
     \<lparr>cv_base = g, cv_errors = [], cv_group = IPv4Address 0, cv_joins = {}, cv_rp = None,
      cv_prunes = {}\<rparr>"

definition cv_error :: "group_error \<Rightarrow> GroupEntryConverter \<Rightarrow> GroupEntryConverter" where
  "cv_error e cv = cv\<lparr>cv_errors := cv_errors cv @ [e]\<rparr>"

definition cv_check :: "bool \<Rightarrow> group_error \<Rightarrow> GroupEntryConverter \<Rightarrow> GroupEntryConverter" where
  "cv_check b e cv = (if b then cv_error e cv else cv)"

definition convertJoin :: "int \<Rightarrow> Source \<Rightarrow> GroupEntryConverter \<Rightarrow> GroupEntryConverter" where
  "convertJoin updateNo se cv =
     (let addr = src_addr se in
      if src_wildcard se then
        (let cv = cv_check (\<not> src_rpt se) (RpRptBitNotSet updateNo addr) cv in
         case cv_rp cv of
           Some r \<Rightarrow>
             if r = addr then cv_error (RpDuplicate updateNo addr) cv
             else cv_error (RpConflict updateNo r addr) cv
         | None \<Rightarrow> cv\<lparr>cv_rp := Some addr\<rparr>)
      else
        (let cv = cv_check (src_rpt se) (SourceRptBitSet updateNo addr) cv;
             inserted = addr \<notin> cv_joins cv;
             cv = cv\<lparr>cv_joins := insert addr (cv_joins cv)\<rparr>;
             cv = cv_check (\<not> inserted) (DuplicateSource updateNo addr) cv
         in cv_check (addr \<in> cv_prunes cv) (JoinAlsoPruned updateNo addr) cv))"

definition convertPrune :: "int \<Rightarrow> Source \<Rightarrow> GroupEntryConverter \<Rightarrow> GroupEntryConverter" where
  "convertPrune updateNo se cv =
     (let addr = src_addr se;
          cv = cv_check (src_wildcard se) (PruneWildcardSet updateNo addr) cv;
          cv = cv_check (\<not> src_rpt se) (PruneRptBitNotSet updateNo addr) cv;
          inserted = addr \<notin> cv_prunes cv;
          cv = cv\<lparr>cv_prunes := insert addr (cv_prunes cv)\<rparr>;
          cv = cv_check (\<not> inserted) (DuplicatePrune updateNo addr) cv
      in cv_check (addr \<in> cv_joins cv) (PruneAlsoJoined updateNo addr) cv)"

definition addEntry :: "int \<Rightarrow> GroupEntry \<Rightarrow> GroupEntryConverter \<Rightarrow> GroupEntryConverter" where
  "addEntry updateNo ge cv =
     (let cv = fold (convertJoin updateNo) (ge_joins ge) cv in
      if cv_rp cv = None \<and> ge_prunes ge \<noteq> [] then
        cv_error (PrunesWithoutRp updateNo (length (ge_prunes ge))) cv
      else fold (convertPrune updateNo) (ge_prunes ge) cv)"

definition convert :: "GroupEntryConverter \<Rightarrow> (sanity_error, GroupConfig) outcome" where
  "convert cv =
     (if cv_errors cv \<noteq> [] then Fail (GroupErrors (cv_base cv) (cv_errors cv))
      else Ok \<lparr>gc_group = cv_group cv,
               gc_rpt = (case cv_rp cv of None \<Rightarrow> None
                 | Some r \<Rightarrow> Some \<lparr>rp = r, rpt_prunes = sorted_list_of_set (cv_prunes cv)\<rparr>),
               gc_spt = sorted_list_of_set (cv_joins cv)\<rparr>)"

text \<open>The loops over the updates and their entries: \<open>i++\<close> counts the entries.\<close>

type_synonym 'c cvmap = "(IPv4Address \<times> 'c) list"

definition addGroupEntry ::
    "(int \<Rightarrow> GroupEntry \<Rightarrow> 'c \<Rightarrow> 'c) \<Rightarrow> (IPv4Address \<Rightarrow> 'c) \<Rightarrow> GroupEntry \<Rightarrow> int \<times> 'c cvmap \<Rightarrow> int \<times> 'c cvmap" where
  "addGroupEntry add new ge st =
     (case st of (i, cvmap) \<Rightarrow> (i + 1, alist_upsert (ge_group ge) (add i ge) (new (ge_group ge)) cvmap))"

definition gatherGroups ::
    "(int \<Rightarrow> GroupEntry \<Rightarrow> 'c \<Rightarrow> 'c) \<Rightarrow> (IPv4Address \<Rightarrow> 'c) \<Rightarrow> Update list \<Rightarrow> 'c cvmap" where
  "gatherGroups add new updates =
     snd (fold (\<lambda>update. fold (addGroupEntry add new) (upd_groups update)) updates (1, []))"

fun convertGroups ::
    "('c \<Rightarrow> (sanity_error, GroupConfig) outcome) \<Rightarrow> 'c cvmap \<Rightarrow>
     sanity_error list \<times> (IPv4Address \<times> GroupConfig) list" where
  "convertGroups conv [] = ([], [])"
| "convertGroups conv ((g, cv) # m) =
     (case convertGroups conv m of
        (errors, jpCfg) \<Rightarrow>
          (case conv cv of Inl e \<Rightarrow> (e # errors, jpCfg) | Inr gc \<Rightarrow> (errors, (g, gc) # jpCfg)))"

definition convertUpdates ::
    "(int \<Rightarrow> GroupEntry \<Rightarrow> 'c \<Rightarrow> 'c) \<Rightarrow> (IPv4Address \<Rightarrow> 'c) \<Rightarrow>
     ('c \<Rightarrow> (sanity_error, GroupConfig) outcome) \<Rightarrow> Update list \<Rightarrow>
     (sanity_error list, (IPv4Address \<times> GroupConfig) list) outcome" where
  "convertUpdates add new conv updates =
     (case convertGroups conv (gatherGroups add new updates) of
        (errors, jpCfg) \<Rightarrow> if errors \<noteq> [] then Fail errors else Ok jpCfg)"

definition convertUpdatesToJPConfig ::
    "Update list \<Rightarrow> (sanity_error list, (IPv4Address \<times> GroupConfig) list) outcome" where
  "convertUpdatesToJPConfig = convertUpdates addEntry newConverter convert"

section \<open>Comparison of configurations\<close>

definition compareGroup :: "IPv4Address \<Rightarrow> GroupConfig \<Rightarrow> GroupConfig \<Rightarrow> (sanity_error, unit) outcome" where
  "compareGroup g orig rslt =
     (let (mjs, ejs) = compareAddrSets (vecSet (gc_spt orig)) (vecSet (gc_spt rslt));
          errors = (if mjs \<noteq> [] then [MissingJoins mjs] else []) @
            (if ejs \<noteq> [] then [ExtraneousJoins ejs] else []) @
            (case (gc_rpt orig, gc_rpt rslt) of
               (Some a, None) \<Rightarrow> [MissingRpt (rp a) (Some (length (rpt_prunes a)))]
             | (None, Some b) \<Rightarrow> [ExtraneousRpt (rp b) (Some (length (rpt_prunes b)))]
             | (Some a, Some b) \<Rightarrow>
                 (if rp a \<noteq> rp b then [RpDiffers (rp a) (rp b)] else []) @
                 (let (mps, eps) = compareAddrSets (vecSet (rpt_prunes a)) (vecSet (rpt_prunes b)) in
                  (if mps \<noteq> [] then [MissingPrunes mps] else []) @
                  (if eps \<noteq> [] then [ExtraneousPrunes eps] else []))
             | (None, None) \<Rightarrow> [])
      in if errors \<noteq> [] then Fail (GroupErrors g errors) else Ok ())"

fun compareGroups ::
    "(IPv4Address \<Rightarrow> GroupConfig \<Rightarrow> GroupConfig \<Rightarrow> (sanity_error, unit) outcome) \<Rightarrow>
     (IPv4Address \<times> GroupConfig) list \<Rightarrow> (IPv4Address \<times> GroupConfig) list \<Rightarrow> sanity_error list" where
  "compareGroups cmp [] rslt = []"
| "compareGroups cmp ((g, orig) # m) rslt =
     (case map_of rslt g of
        None \<Rightarrow> []
      | Some r \<Rightarrow> (case cmp g orig r of Inl e \<Rightarrow> [e] | Inr _ \<Rightarrow> [])) @ compareGroups cmp m rslt"

definition compareConfigs ::
    "(IPv4Address \<Rightarrow> GroupConfig \<Rightarrow> GroupConfig \<Rightarrow> (sanity_error, unit) outcome) \<Rightarrow>
     (IPv4Address \<times> GroupConfig) list \<Rightarrow> (IPv4Address \<times> GroupConfig) list \<Rightarrow>
     (sanity_error list, unit) outcome" where
  "compareConfigs cmp orig rslt =
     (let (mgs, egs) = compareAddrSets (keySet orig) (keySet rslt);
          errors = (if mgs \<noteq> [] then [MissingGroups mgs] else []) @
            (if egs \<noteq> [] then [ExtraneousGroups egs] else []) @ compareGroups cmp orig rslt
      in if errors \<noteq> [] then Fail errors else Ok ())"

text \<open>\<open>try_emplace\<close> keeps the first configuration of a group.\<close>

definition origConfigs :: "JPConfig \<Rightarrow> (IPv4Address \<times> GroupConfig) list" where
  "origConfigs jpCfg = fold (\<lambda>ge. alist_upsert (gc_group ge) id ge) (jp_groups jpCfg) []"

definition verifyUpdates :: "JPConfig \<Rightarrow> Update list \<Rightarrow> (sanity_error list, unit) outcome" where
  "verifyUpdates jpCfg updates =
     and_then (convertUpdatesToJPConfig updates) (compareConfigs compareGroup (origConfigs jpCfg))"

section \<open>The inverse updates\<close>

record InverseGroupEntryConverter =
  icv_base :: IPv4Address
  icv_errors :: "group_error list"
  icv_group :: IPv4Address
  icv_joins :: "IPv4Address set"
  icv_rp :: "IPv4Address option"

definition newInverseConverter :: "IPv4Address \<Rightarrow> InverseGroupEntryConverter" where
  "newInverseConverter g =
     \<lparr>icv_base = g, icv_errors = [], icv_group = IPv4Address 0, icv_joins = {}, icv_rp = None\<rparr>"

definition icv_check ::
    "bool \<Rightarrow> group_error \<Rightarrow> InverseGroupEntryConverter \<Rightarrow> InverseGroupEntryConverter" where
  "icv_check b e cv = (if b then cv\<lparr>icv_errors := icv_errors cv @ [e]\<rparr> else cv)"

definition convertInversePrune ::
    "int \<Rightarrow> Source \<Rightarrow> InverseGroupEntryConverter \<Rightarrow> InverseGroupEntryConverter" where
  "convertInversePrune updateNo se cv =
     (let addr = src_addr se in
      if src_wildcard se then
        (let cv = icv_check (\<not> src_rpt se) (RpRptBitNotSet updateNo addr) cv in
         case icv_rp cv of
           Some r \<Rightarrow>
             if r = addr then icv_check True (RpDuplicate updateNo addr) cv
             else icv_check True (RpConflict updateNo r addr) cv
         | None \<Rightarrow> cv\<lparr>icv_rp := Some addr\<rparr>)
      else
        (let cv = icv_check (src_rpt se) (SourceRptBitSet updateNo addr) cv;
             inserted = addr \<notin> icv_joins cv;
             cv = cv\<lparr>icv_joins := insert addr (icv_joins cv)\<rparr>
         in icv_check (\<not> inserted) (DuplicateSource updateNo addr) cv))"

definition addInverseEntry ::
    "int \<Rightarrow> GroupEntry \<Rightarrow> InverseGroupEntryConverter \<Rightarrow> InverseGroupEntryConverter" where
  "addInverseEntry updateNo ge cv =
     fold (convertInversePrune updateNo) (ge_prunes ge)
       (icv_check (ge_joins ge \<noteq> []) (IgnoredJoins updateNo (length (ge_joins ge))) cv)"

definition inverseConvert :: "InverseGroupEntryConverter \<Rightarrow> (sanity_error, GroupConfig) outcome" where
  "inverseConvert cv =
     (if icv_errors cv \<noteq> [] then Fail (GroupErrors (icv_base cv) (icv_errors cv))
      else Ok \<lparr>gc_group = icv_group cv,
               gc_rpt = (case icv_rp cv of None \<Rightarrow> None | Some r \<Rightarrow> Some \<lparr>rp = r, rpt_prunes = []\<rparr>),
               gc_spt = sorted_list_of_set (icv_joins cv)\<rparr>)"

definition convertInverseUpdatesToJPConfig ::
    "Update list \<Rightarrow> (sanity_error list, (IPv4Address \<times> GroupConfig) list) outcome" where
  "convertInverseUpdatesToJPConfig = convertUpdates addInverseEntry newInverseConverter inverseConvert"

definition inverseCompareGroup ::
    "IPv4Address \<Rightarrow> GroupConfig \<Rightarrow> GroupConfig \<Rightarrow> (sanity_error, unit) outcome" where
  "inverseCompareGroup g orig rslt =
     (let (mjs, ejs) = compareAddrSets (vecSet (gc_spt orig)) (vecSet (gc_spt rslt));
          errors = (if mjs \<noteq> [] then [MissingJoins mjs] else []) @
            (if ejs \<noteq> [] then [ExtraneousJoins ejs] else []) @
            (case (gc_rpt orig, gc_rpt rslt) of
               (Some a, None) \<Rightarrow> [MissingRpt (rp a) None]
             | (None, Some b) \<Rightarrow> [ExtraneousRpt (rp b) None]
             | (Some a, Some b) \<Rightarrow> if rp a \<noteq> rp b then [RpDiffers (rp a) (rp b)] else []
             | (None, None) \<Rightarrow> [])
      in if errors \<noteq> [] then Fail (GroupErrors g errors) else Ok ())"

definition verifyInverseUpdates :: "JPConfig \<Rightarrow> Update list \<Rightarrow> (sanity_error list, unit) outcome" where
  "verifyInverseUpdates jpCfg updates =
     and_then (convertInverseUpdatesToJPConfig updates)
       (compareConfigs inverseCompareGroup (origConfigs jpCfg))"


section \<open>What the check accepts\<close>

definition spts :: "Source list \<Rightarrow> IPv4Address list" where
  "spts ss = map src_addr (filter (\<lambda>s. \<not> src_wildcard s) ss)"

definition rps :: "Source list \<Rightarrow> IPv4Address list" where
  "rps ss = map src_addr (filter src_wildcard ss)"

definition joinsOf :: "GroupEntry list \<Rightarrow> Source list" where
  "joinsOf es = concat (map ge_joins es)"

definition prunesOf :: "GroupEntry list \<Rightarrow> Source list" where
  "prunesOf es = concat (map ge_prunes es)"

definition addrs :: "Source list \<Rightarrow> IPv4Address list" where
  "addrs ss = map src_addr ss"

text \<open>
  The sources of a group: exactly the RP joins have the wildcard bit and the RPT bit, there is at
  most one RP, all prunes are (S,G,rpt) prunes, and no source is named twice.
\<close>

definition validSources :: "Source list \<Rightarrow> Source list \<Rightarrow> bool" where
  "validSources js ps \<longleftrightarrow>
     (\<forall>s \<in> set js. src_rpt s = src_wildcard s) \<and> length (rps js) \<le> 1 \<and>
     (\<forall>s \<in> set ps. src_rpt s \<and> \<not> src_wildcard s) \<and> distinct (spts js @ addrs ps)"

definition validEntries :: "GroupEntry list \<Rightarrow> bool" where
  "validEntries es \<longleftrightarrow> validSources (joinsOf es) (prunesOf es) \<and>
     (\<forall>k < length es. ge_prunes (es ! k) \<noteq> [] \<longrightarrow> rps (joinsOf (take (Suc k) es)) \<noteq> [])"

definition validInverseEntries :: "GroupEntry list \<Rightarrow> bool" where
  "validInverseEntries es \<longleftrightarrow> validSources (prunesOf es) [] \<and> joinsOf es = []"

definition entriesConfig :: "GroupEntry list \<Rightarrow> GroupConfig" where
  "entriesConfig es =
     \<lparr>gc_group = IPv4Address 0,
      gc_rpt = (case rps (joinsOf es) of [] \<Rightarrow> None
        | r # _ \<Rightarrow> Some \<lparr>rp = r, rpt_prunes = sorted_list_of_set (set (addrs (prunesOf es)))\<rparr>),
      gc_spt = sorted_list_of_set (set (spts (joinsOf es)))\<rparr>"

definition inverseEntriesConfig :: "GroupEntry list \<Rightarrow> GroupConfig" where
  "inverseEntriesConfig es =
     \<lparr>gc_group = IPv4Address 0,
      gc_rpt = (case rps (prunesOf es) of [] \<Rightarrow> None | r # _ \<Rightarrow> Some \<lparr>rp = r, rpt_prunes = []\<rparr>),
      gc_spt = sorted_list_of_set (set (spts (prunesOf es)))\<rparr>"

section \<open>The contract of a converter\<close>

text \<open>
  A converter follows the entries of its group (\<open>rel\<close>), and converts them into their configuration
  exactly if they are valid.
\<close>

locale converter =
  fixes add :: "int \<Rightarrow> GroupEntry \<Rightarrow> 'c \<Rightarrow> 'c"
    and new :: "IPv4Address \<Rightarrow> 'c"
    and conv :: "'c \<Rightarrow> (sanity_error, GroupConfig) outcome"
    and rel :: "GroupEntry list \<Rightarrow> 'c \<Rightarrow> bool"
    and valid :: "GroupEntry list \<Rightarrow> bool"
    and config :: "GroupEntry list \<Rightarrow> GroupConfig"
  assumes rel_new: "rel [] (new g)"
    and rel_add: "rel es cv \<Longrightarrow> rel (es @ [e]) (add i e cv)"
    and conv_valid: "rel es cv \<Longrightarrow> valid es \<Longrightarrow> conv cv = Inr (config es)"
    and conv_invalid: "rel es cv \<Longrightarrow> \<not> valid es \<Longrightarrow> \<exists>err. conv cv = Inl err"
begin

definition gathered :: "GroupEntry list \<Rightarrow> 'c cvmap \<Rightarrow> bool" where
  "gathered es m \<longleftrightarrow> distinct (map fst m) \<and> fst ` set m = ge_group ` set es \<and>
     (\<forall>g cv. map_of m g = Some cv \<longrightarrow> rel (entriesFor g es) cv)"

lemma gathered_add:
  assumes "gathered es m"
  shows "gathered (es @ [e]) (alist_upsert (ge_group e) (add i e) (new (ge_group e)) m)"
proof -
  have "rel (entriesFor (ge_group e) es) (case map_of m (ge_group e) of None \<Rightarrow> new (ge_group e) | Some cv \<Rightarrow> cv)"
  proof (cases "map_of m (ge_group e)")
    case None
    then have "ge_group e \<notin> ge_group ` set es"
      using assms by (simp add: map_of_eq_None_iff gathered_def)
    then have "entriesFor (ge_group e) es = []"
      by (auto simp: entriesFor_def filter_empty_conv image_iff)
    with None rel_new show ?thesis by simp
  next
    case (Some cv)
    with assms show ?thesis by (simp add: gathered_def)
  qed
  then show ?thesis
    using assms rel_add
    by (auto simp: gathered_def map_of_alist_upsert distinct_alist_upsert entriesFor_def)
qed

lemma fold_gathered:
  "gathered es m \<Longrightarrow> gathered (es @ es') (snd (fold (addGroupEntry add new) es' (i, m)))"
proof (induction es' arbitrary: es i m)
  case (Cons e es')
  from Cons.IH [OF gathered_add [OF Cons.prems, of e i], of "i + 1"] show ?case
    by (simp add: addGroupEntry_def)
qed simp

lemma fold_updates:
  "fold (\<lambda>update. fold f (upd_groups update)) us st = fold f (concat (map upd_groups us)) st"
  by (induction us arbitrary: st) simp_all

lemma gatherGroups_gathered: "gathered (concat (map upd_groups us)) (gatherGroups add new us)"
  using fold_gathered [of "[]" "[]" "concat (map upd_groups us)" 1]
  by (simp add: gatherGroups_def fold_updates gathered_def)

lemma convertGroups_valid:
  assumes "\<forall>(g, cv) \<in> set m. conv cv = Inr (f g)"
  shows "convertGroups conv m = ([], map (\<lambda>(g, cv). (g, f g)) m)"
  using assms by (induction m) auto

lemma convertGroups_invalid:
  assumes "(g, cv) \<in> set m" and "conv cv = Inl err"
  shows "fst (convertGroups conv m) \<noteq> []"
  using assms by (induction m) (auto split: prod.splits sum.splits)

lemma convertUpdates_valid:
  assumes "\<forall>g \<in> ge_group ` set (concat (map upd_groups us)).
      valid (entriesFor g (concat (map upd_groups us)))"
  obtains m where "convertUpdates add new conv us = Inr m"
    and "keySet m = ge_group ` set (concat (map upd_groups us))"
    and "\<forall>g \<in> keySet m. map_of m g = Some (config (entriesFor g (concat (map upd_groups us))))"
proof -
  let ?es = "concat (map upd_groups us)" and ?m = "gatherGroups add new us"
  let ?f = "\<lambda>g. config (entriesFor g ?es)"
  have m: "distinct (map fst ?m)" "fst ` set ?m = ge_group ` set ?es"
    "\<forall>g cv. map_of ?m g = Some cv \<longrightarrow> rel (entriesFor g ?es) cv"
    using gatherGroups_gathered [of us, unfolded gathered_def] by blast+
  have "\<forall>(g, cv) \<in> set ?m. conv cv = Inr (?f g)"
  proof clarify
    fix g cv assume "(g, cv) \<in> set ?m"
    with m assms show "conv cv = Inr (?f g)"
      by (metis conv_valid fst_conv image_eqI map_of_is_SomeI)
  qed
  from convertGroups_valid [OF this] have "convertUpdates add new conv us = Inr (map (\<lambda>(g, cv). (g, ?f g)) ?m)"
    by (simp add: convertUpdates_def)
  moreover have keys: "keySet (map (\<lambda>(g, cv). (g, ?f g)) ?m) = fst ` set ?m"
    by (simp add: keySet_def image_image case_prod_unfold)
  moreover have "\<forall>g \<in> fst ` set ?m. map_of (map (\<lambda>(g, cv). (g, ?f g)) ?m) g = Some (?f g)"
    by (simp only: map_of_map_keys if_True ball_simps) simp
  ultimately show thesis using that m(2) by (metis (no_types, lifting))
qed

lemma convertUpdates_invalid:
  assumes "g \<in> ge_group ` set (concat (map upd_groups us))"
    and "\<not> valid (entriesFor g (concat (map upd_groups us)))"
  shows "\<exists>errors. convertUpdates add new conv us = Inl errors"
proof -
  let ?es = "concat (map upd_groups us)" and ?m = "gatherGroups add new us"
  have m: "distinct (map fst ?m)" "fst ` set ?m = ge_group ` set ?es"
    "\<forall>g cv. map_of ?m g = Some cv \<longrightarrow> rel (entriesFor g ?es) cv"
    using gatherGroups_gathered [of us, unfolded gathered_def] by blast+
  from assms(1) m(2) obtain cv where cv: "(g, cv) \<in> set ?m" by force
  then have "rel (entriesFor g ?es) cv" using m(1,3) by simp
  then obtain err where "conv cv = Inl err" using conv_invalid assms(2) by blast
  from convertGroups_invalid [OF cv this] show ?thesis
    by (auto simp: convertUpdates_def split: prod.split)
qed

end

section \<open>The converters meet the contract\<close>

lemma spts_simps [simp]:
  "spts [] = []" "rps [] = []" "addrs [] = []"
  "spts (s # ss) = (if src_wildcard s then [] else [src_addr s]) @ spts ss"
  "rps (s # ss) = (if src_wildcard s then [src_addr s] else []) @ rps ss"
  "addrs (s # ss) = src_addr s # addrs ss"
  "spts (xs @ ys) = spts xs @ spts ys"
  "rps (xs @ ys) = rps xs @ rps ys"
  "addrs (xs @ ys) = addrs xs @ addrs ys"
  by (simp_all add: spts_def rps_def addrs_def)

lemma joinsOf_simps [simp]:
  "joinsOf [] = []" "prunesOf [] = []"
  "joinsOf (es @ [e]) = joinsOf es @ ge_joins e" "prunesOf (es @ [e]) = prunesOf es @ ge_prunes e"
  by (simp_all add: joinsOf_def prunesOf_def)

text \<open>The state of a converter after the joins \<open>js\<close> and the prunes \<open>ps\<close>.\<close>

definition conv_rel :: "Source list \<Rightarrow> Source list \<Rightarrow> bool \<Rightarrow> GroupEntryConverter \<Rightarrow> bool" where
  "conv_rel js ps k cv \<longleftrightarrow>
     (cv_errors cv = [] \<longleftrightarrow> validSources js ps \<and> k) \<and>
     cv_rp cv = (case rps js of [] \<Rightarrow> None | r # _ \<Rightarrow> Some r) \<and> cv_group cv = IPv4Address 0 \<and>
     cv_joins cv = set (spts js) \<and>
     (cv_errors cv = [] \<longrightarrow> cv_prunes cv = set (addrs ps))"

lemma cv_check_simps [simp]:
  "cv_errors (cv_check b e cv) = cv_errors cv @ (if b then [e] else [])"
  "cv_rp (cv_check b e cv) = cv_rp cv" "cv_joins (cv_check b e cv) = cv_joins cv"
  "cv_prunes (cv_check b e cv) = cv_prunes cv" "cv_group (cv_check b e cv) = cv_group cv"
  "cv_errors (cv_error e cv) = cv_errors cv @ [e]"
  "cv_rp (cv_error e cv) = cv_rp cv" "cv_joins (cv_error e cv) = cv_joins cv"
  "cv_prunes (cv_error e cv) = cv_prunes cv" "cv_group (cv_error e cv) = cv_group cv"
  by (simp_all add: cv_check_def cv_error_def)

lemma convertJoin_rel:
  assumes "conv_rel js ps k cv"
  shows "conv_rel (js @ [s]) ps k (convertJoin i s cv)"
proof (cases "src_wildcard s")
  case True
  with assms show ?thesis
    by (cases "rps js") (auto simp: conv_rel_def convertJoin_def Let_def validSources_def)
next
  case False
  with assms show ?thesis
    by (auto simp: conv_rel_def convertJoin_def Let_def validSources_def)
qed

lemma convertPrune_rel:
  assumes "conv_rel js ps k cv"
  shows "conv_rel js (ps @ [s]) k (convertPrune i s cv)"
  using assms by (auto simp: conv_rel_def convertPrune_def Let_def validSources_def)

lemma fold_convertJoin_rel:
  "conv_rel js ps k cv \<Longrightarrow> conv_rel (js @ ss) ps k (fold (convertJoin i) ss cv)"
proof (induction ss arbitrary: js cv)
  case (Cons s ss)
  from Cons.IH [OF convertJoin_rel [OF Cons.prems, of s i]] show ?case by simp
qed simp

lemma fold_convertPrune_rel:
  "conv_rel js ps k cv \<Longrightarrow> conv_rel js (ps @ ss) k (fold (convertPrune i) ss cv)"
proof (induction ss arbitrary: ps cv)
  case (Cons s ss)
  from Cons.IH [OF convertPrune_rel [OF Cons.prems, of s i]] show ?case by simp
qed simp

lemma addEntry_rel:
  assumes "conv_rel js ps k cv"
  shows "conv_rel (js @ ge_joins e) (ps @ ge_prunes e)
    (k \<and> (ge_prunes e \<noteq> [] \<longrightarrow> rps (js @ ge_joins e) \<noteq> [])) (addEntry i e cv)"
proof -
  let ?js = "js @ ge_joins e" and ?cv = "fold (convertJoin i) (ge_joins e) cv"
  have r: "conv_rel ?js ps k ?cv" using fold_convertJoin_rel [OF assms] .
  show ?thesis
  proof (cases "rps ?js = [] \<and> ge_prunes e \<noteq> []")
    case True
    with r show ?thesis by (auto simp: addEntry_def conv_rel_def)
  next
    case False
    then have "(k \<and> (ge_prunes e \<noteq> [] \<longrightarrow> rps ?js \<noteq> [])) = k"
      and "addEntry i e cv = fold (convertPrune i) (ge_prunes e) ?cv"
      using r by (auto simp: addEntry_def conv_rel_def split: list.splits)
    with fold_convertPrune_rel [OF r] show ?thesis by simp
  qed
qed

definition rps_first :: "GroupEntry list \<Rightarrow> bool" where
  "rps_first es \<longleftrightarrow> (\<forall>k < length es. ge_prunes (es ! k) \<noteq> [] \<longrightarrow> rps (joinsOf (take (Suc k) es)) \<noteq> [])"

lemma rps_first_snoc:
  "rps_first (es @ [e]) \<longleftrightarrow>
     rps_first es \<and> (ge_prunes e \<noteq> [] \<longrightarrow> rps (joinsOf es @ ge_joins e) \<noteq> [])"
  by (auto simp: rps_first_def nth_append less_Suc_eq joinsOf_def)

interpretation cvt: converter addEntry newConverter convert
  "\<lambda>es. conv_rel (joinsOf es) (prunesOf es) (rps_first es)" validEntries entriesConfig
proof
  fix g show "conv_rel (joinsOf []) (prunesOf []) (rps_first []) (newConverter g)"
    by (simp add: conv_rel_def newConverter_def validSources_def rps_first_def)
next
  fix es cv e i assume "conv_rel (joinsOf es) (prunesOf es) (rps_first es) cv"
  from addEntry_rel [OF this, of e i]
  show "conv_rel (joinsOf (es @ [e])) (prunesOf (es @ [e])) (rps_first (es @ [e])) (addEntry i e cv)"
    by (simp add: rps_first_snoc)
next
  fix es cv assume rel: "conv_rel (joinsOf es) (prunesOf es) (rps_first es) cv"
  show "convert cv = Inr (entriesConfig es)" if "validEntries es"
    using rel that
    by (auto simp: conv_rel_def validEntries_def rps_first_def convert_def entriesConfig_def
        split: list.split)
  show "\<exists>err. convert cv = Inl err" if "\<not> validEntries es"
    using rel that by (auto simp: conv_rel_def validEntries_def rps_first_def convert_def)
qed

definition inverse_conv_rel :: "Source list \<Rightarrow> bool \<Rightarrow> InverseGroupEntryConverter \<Rightarrow> bool" where
  "inverse_conv_rel ps k cv \<longleftrightarrow>
     (icv_errors cv = [] \<longleftrightarrow> validSources ps [] \<and> k) \<and> icv_group cv = IPv4Address 0 \<and>
     icv_rp cv = (case rps ps of [] \<Rightarrow> None | r # _ \<Rightarrow> Some r) \<and>
     icv_joins cv = set (spts ps)"

lemma icv_check_simps [simp]:
  "icv_errors (icv_check b e cv) = icv_errors cv @ (if b then [e] else [])"
  "icv_rp (icv_check b e cv) = icv_rp cv" "icv_joins (icv_check b e cv) = icv_joins cv"
  "icv_group (icv_check b e cv) = icv_group cv"
  by (simp_all add: icv_check_def)

lemma convertInversePrune_rel:
  assumes "inverse_conv_rel ps k cv"
  shows "inverse_conv_rel (ps @ [s]) k (convertInversePrune i s cv)"
proof (cases "src_wildcard s")
  case True
  with assms show ?thesis
    by (cases "rps ps") (auto simp: inverse_conv_rel_def convertInversePrune_def Let_def validSources_def)
next
  case False
  with assms show ?thesis
    by (auto simp: inverse_conv_rel_def convertInversePrune_def Let_def validSources_def)
qed

lemma fold_convertInversePrune_rel:
  "inverse_conv_rel ps k cv \<Longrightarrow> inverse_conv_rel (ps @ ss) k (fold (convertInversePrune i) ss cv)"
proof (induction ss arbitrary: ps cv)
  case (Cons s ss)
  from Cons.IH [OF convertInversePrune_rel [OF Cons.prems, of s i]] show ?case by simp
qed simp

interpretation icvt: converter addInverseEntry newInverseConverter inverseConvert
  "\<lambda>es. inverse_conv_rel (prunesOf es) (joinsOf es = [])" validInverseEntries inverseEntriesConfig
proof
  fix g show "inverse_conv_rel (prunesOf []) (joinsOf [] = []) (newInverseConverter g)"
    by (simp add: inverse_conv_rel_def newInverseConverter_def validSources_def)
next
  fix es cv e i assume "inverse_conv_rel (prunesOf es) (joinsOf es = []) cv"
  then have "inverse_conv_rel (prunesOf es) (joinsOf (es @ [e]) = [])
      (icv_check (ge_joins e \<noteq> []) (IgnoredJoins i (length (ge_joins e))) cv)"
    by (auto simp: inverse_conv_rel_def)
  from fold_convertInversePrune_rel [OF this, of "ge_prunes e" i]
  show "inverse_conv_rel (prunesOf (es @ [e])) (joinsOf (es @ [e]) = []) (addInverseEntry i e cv)"
    by (simp add: addInverseEntry_def)
next
  fix es cv assume rel: "inverse_conv_rel (prunesOf es) (joinsOf es = []) cv"
  show "inverseConvert cv = Inr (inverseEntriesConfig es)" if "validInverseEntries es"
    using rel that
    by (auto simp: inverse_conv_rel_def validInverseEntries_def inverseConvert_def
        inverseEntriesConfig_def split: list.split)
  show "\<exists>err. inverseConvert cv = Inl err" if "\<not> validInverseEntries es"
    using rel that by (auto simp: inverse_conv_rel_def validInverseEntries_def inverseConvert_def)
qed

section \<open>The comparison\<close>

lemma compareAddrSets_empty:
  assumes "finite a" and "finite b"
  shows "(let (m, e) = compareAddrSets a b in m = [] \<and> e = []) \<longleftrightarrow> a = b"
  using assms by (auto simp: compareAddrSets_def)

lemma compareAddrSets_cases:
  assumes "finite a" and "finite b"
  obtains m e where "compareAddrSets a b = (m, e)" and "m = [] \<and> e = [] \<longleftrightarrow> a = b"
  using compareAddrSets_empty [OF assms] by (cases "compareAddrSets a b") auto

lemma compareGroup_iff:
  "compareGroup g orig rslt = Inr () \<longleftrightarrow>
     set (gc_spt orig) = set (gc_spt rslt) \<and>
     map_option rp (gc_rpt orig) = map_option rp (gc_rpt rslt) \<and>
     map_option (set \<circ> rpt_prunes) (gc_rpt orig) = map_option (set \<circ> rpt_prunes) (gc_rpt rslt)"
proof -
  obtain mjs ejs where js: "compareAddrSets (vecSet (gc_spt orig)) (vecSet (gc_spt rslt)) = (mjs, ejs)"
    "mjs = [] \<and> ejs = [] \<longleftrightarrow> set (gc_spt orig) = set (gc_spt rslt)"
    by (rule compareAddrSets_cases [of "vecSet (gc_spt orig)" "vecSet (gc_spt rslt)"])
      (simp_all add: vecSet_def)
  show ?thesis
  proof (cases "gc_rpt orig"; cases "gc_rpt rslt")
    fix a b assume rpt: "gc_rpt orig = Some a" "gc_rpt rslt = Some b"
    obtain mps eps where "compareAddrSets (vecSet (rpt_prunes a)) (vecSet (rpt_prunes b)) = (mps, eps)"
      "mps = [] \<and> eps = [] \<longleftrightarrow> set (rpt_prunes a) = set (rpt_prunes b)"
      by (rule compareAddrSets_cases [of "vecSet (rpt_prunes a)" "vecSet (rpt_prunes b)"])
        (simp_all add: vecSet_def)
    with js rpt show ?thesis by (auto simp: compareGroup_def Let_def)
  qed (use js in \<open>auto simp: compareGroup_def Let_def\<close>)
qed

lemma inverseCompareGroup_iff:
  "inverseCompareGroup g orig rslt = Inr () \<longleftrightarrow>
     set (gc_spt orig) = set (gc_spt rslt) \<and>
     map_option rp (gc_rpt orig) = map_option rp (gc_rpt rslt)"
proof -
  obtain mjs ejs where js: "compareAddrSets (vecSet (gc_spt orig)) (vecSet (gc_spt rslt)) = (mjs, ejs)"
    "mjs = [] \<and> ejs = [] \<longleftrightarrow> set (gc_spt orig) = set (gc_spt rslt)"
    by (rule compareAddrSets_cases [of "vecSet (gc_spt orig)" "vecSet (gc_spt rslt)"])
      (simp_all add: vecSet_def)
  then show ?thesis
    by (cases "gc_rpt orig"; cases "gc_rpt rslt") (auto simp: inverseCompareGroup_def Let_def)
qed

lemma compareGroups_nil:
  "compareGroups cmp orig rslt = [] \<longleftrightarrow>
     (\<forall>(g, c) \<in> set orig. \<forall>r. map_of rslt g = Some r \<longrightarrow> cmp g c r = Inr ())"
proof (induction orig)
  case (Cons x orig)
  then show ?case by (cases x) (auto split: option.split sum.split)
qed simp

lemma compareConfigs_iff:
  "compareConfigs cmp orig rslt = Inr () \<longleftrightarrow>
     keySet orig = keySet rslt \<and>
     (\<forall>(g, c) \<in> set orig. \<forall>r. map_of rslt g = Some r \<longrightarrow> cmp g c r = Inr ())"
proof -
  obtain mgs egs where "compareAddrSets (keySet orig) (keySet rslt) = (mgs, egs)"
    "mgs = [] \<and> egs = [] \<longleftrightarrow> keySet orig = keySet rslt"
    by (rule compareAddrSets_cases [of "keySet orig" "keySet rslt"]) (simp_all add: keySet_def)
  then show ?thesis by (auto simp: compareConfigs_def compareGroups_nil [symmetric])
qed

lemma alist_upsert_new: "k \<notin> fst ` set m \<Longrightarrow> alist_upsert k f v0 m = m @ [(k, f v0)]"
  by (induction m) auto

lemma origConfigs_distinct:
  assumes "distinct (map gc_group (jp_groups cfg))"
  shows "origConfigs cfg = map (\<lambda>ge. (gc_group ge, ge)) (jp_groups cfg)"
proof -
  have "fold (\<lambda>ge. alist_upsert (gc_group ge) id ge) gs m = m @ map (\<lambda>ge. (gc_group ge, ge)) gs"
    if "distinct (map gc_group gs)" "\<forall>ge \<in> set gs. gc_group ge \<notin> fst ` set m" for gs m
    using that
  proof (induction gs arbitrary: m)
    case (Cons ge gs)
    then have "alist_upsert (gc_group ge) id ge m = m @ [(gc_group ge, ge)]"
      by (simp add: alist_upsert_new)
    moreover have "\<forall>c \<in> set gs. gc_group c \<notin> fst ` set (m @ [(gc_group ge, ge)])"
      using Cons.prems by (auto simp: image_iff)
    ultimately show ?case
      using Cons.IH [of "m @ [(gc_group ge, ge)]"] Cons.prems by (simp add: id_def)
  qed simp
  from this [of "jp_groups cfg" "[]"] assms show ?thesis by (simp add: origConfigs_def)
qed

section \<open>The check decides\<close>

definition representsGroup :: "GroupEntry list \<Rightarrow> GroupConfig \<Rightarrow> bool" where
  "representsGroup es gc \<longleftrightarrow>
     set (spts (joinsOf es)) = set (gc_spt gc) \<and>
     rps (joinsOf es) = (case gc_rpt gc of None \<Rightarrow> [] | Some r \<Rightarrow> [rp r]) \<and>
     (case gc_rpt gc of None \<Rightarrow> True | Some r \<Rightarrow> set (addrs (prunesOf es)) = set (rpt_prunes r))"

definition inverseRepresentsGroup :: "GroupEntry list \<Rightarrow> GroupConfig \<Rightarrow> bool" where
  "inverseRepresentsGroup es gc \<longleftrightarrow>
     set (spts (prunesOf es)) = set (gc_spt gc) \<and>
     rps (prunesOf es) = (case gc_rpt gc of None \<Rightarrow> [] | Some r \<Rightarrow> [rp r])"

lemma compare_entriesConfig:
  assumes "validEntries es"
  shows "compareGroup g gc (entriesConfig es) = Inr () \<longleftrightarrow> representsGroup es gc"
proof -
  have "length (rps (joinsOf es)) \<le> 1" using assms by (simp add: validEntries_def validSources_def)
  then consider "rps (joinsOf es) = []" | r where "rps (joinsOf es) = [r]"
    by (cases "rps (joinsOf es)") auto
  then show ?thesis
    by cases
      (cases "gc_rpt gc"; fastforce simp: compareGroup_iff entriesConfig_def representsGroup_def)+
qed

lemma compare_inverseEntriesConfig:
  assumes "validInverseEntries es"
  shows "inverseCompareGroup g gc (inverseEntriesConfig es) = Inr () \<longleftrightarrow> inverseRepresentsGroup es gc"
proof -
  have "length (rps (prunesOf es)) \<le> 1"
    using assms by (simp add: validInverseEntries_def validSources_def)
  then consider "rps (prunesOf es) = []" | r where "rps (prunesOf es) = [r]"
    by (cases "rps (prunesOf es)") auto
  then show ?thesis
    by cases
      (cases "gc_rpt gc"; fastforce simp: inverseCompareGroup_iff inverseEntriesConfig_def
         inverseRepresentsGroup_def)+
qed

context converter
begin

lemma verify_iff:
  assumes es: "es = concat (map upd_groups us)"
    and distinct: "distinct (map gc_group (jp_groups cfg))"
    and cmp: "\<And>es g gc. valid es \<Longrightarrow> cmp g gc (config es) = Inr () \<longleftrightarrow> represents es gc"
  shows "and_then (convertUpdates add new conv us) (compareConfigs cmp (origConfigs cfg)) = Inr () \<longleftrightarrow>
    ge_group ` set es = gc_group ` set (jp_groups cfg) \<and>
    (\<forall>gc \<in> set (jp_groups cfg). valid (entriesFor (gc_group gc) es) \<and>
       represents (entriesFor (gc_group gc) es) gc)"
    (is "_ \<longleftrightarrow> ?groups \<and> ?all")
proof (cases "\<forall>g \<in> ge_group ` set es.
      valid (entriesFor g es)")
  case True
  obtain m where m: "convertUpdates add new conv us = Inr m" "keySet m = ge_group ` set es"
    "\<forall>g \<in> keySet m. map_of m g = Some (config (entriesFor g es))"
    by (rule convertUpdates_valid [of us, folded es, OF True])
  have "keySet (origConfigs cfg) = gc_group ` set (jp_groups cfg)"
    by (simp add: origConfigs_distinct [OF distinct] keySet_def image_image)
  moreover have "(\<forall>(g, c) \<in> set (origConfigs cfg). \<forall>r. map_of m g = Some r \<longrightarrow> cmp g c r = Inr ()) \<longleftrightarrow>
      (\<forall>gc \<in> set (jp_groups cfg). \<forall>r. map_of m (gc_group gc) = Some r \<longrightarrow> cmp (gc_group gc) gc r = Inr ())"
    by (simp add: origConfigs_distinct [OF distinct])
  ultimately have "compareConfigs cmp (origConfigs cfg) m = Inr () \<longleftrightarrow> ?groups \<and>
      (\<forall>gc \<in> set (jp_groups cfg). \<forall>r. map_of m (gc_group gc) = Some r \<longrightarrow> cmp (gc_group gc) gc r = Inr ())"
    using m(2) by (auto simp: compareConfigs_iff)
  moreover have "(\<forall>gc \<in> set (jp_groups cfg). \<forall>r. map_of m (gc_group gc) = Some r \<longrightarrow>
      cmp (gc_group gc) gc r = Inr ()) \<longleftrightarrow> ?all" if ?groups
  proof (intro ball_cong refl)
    fix gc assume "gc \<in> set (jp_groups cfg)"
    then have g: "gc_group gc \<in> ge_group ` set es" using that by blast
    with True have "valid (entriesFor (gc_group gc) es)" by blast
    with m(3) [unfolded m(2), rule_format, OF g] cmp
    show "(\<forall>r. map_of m (gc_group gc) = Some r \<longrightarrow> cmp (gc_group gc) gc r = Inr ()) =
        (valid (entriesFor (gc_group gc) es) \<and> represents (entriesFor (gc_group gc) es) gc)"
      by simp
  qed
  ultimately show ?thesis using m(1) by auto
next
  case False
  then obtain g where g: "g \<in> ge_group ` set es"
    "\<not> valid (entriesFor g es)" by blast
  from convertUpdates_invalid [of _ us, folded es, OF this] have "and_then (convertUpdates add new conv us) f \<noteq> Inr ()" for f
    by auto
  moreover have "\<not> (?groups \<and> ?all)"
  proof
    assume *: "?groups \<and> ?all"
    with g(1) obtain gc where "gc \<in> set (jp_groups cfg)" "g = gc_group gc" by auto
    with * g(2) show False by blast
  qed
  ultimately show ?thesis by blast
qed

end

lemma verifyUpdates_iff:
  assumes "distinct (map gc_group (jp_groups cfg))"
  shows "verifyUpdates cfg us = Ok () \<longleftrightarrow>
    ge_group ` set (concat (map upd_groups us)) = gc_group ` set (jp_groups cfg) \<and>
    (\<forall>gc \<in> set (jp_groups cfg). validEntries (entriesFor (gc_group gc) (concat (map upd_groups us))) \<and>
       representsGroup (entriesFor (gc_group gc) (concat (map upd_groups us))) gc)"
  unfolding verifyUpdates_def convertUpdatesToJPConfig_def
  by (rule cvt.verify_iff [where cmp = compareGroup and represents = representsGroup,
        OF refl assms compare_entriesConfig])

lemma verifyInverseUpdates_iff:
  assumes "distinct (map gc_group (jp_groups cfg))"
  shows "verifyInverseUpdates cfg us = Ok () \<longleftrightarrow>
    ge_group ` set (concat (map upd_groups us)) = gc_group ` set (jp_groups cfg) \<and>
    (\<forall>gc \<in> set (jp_groups cfg). validInverseEntries (entriesFor (gc_group gc) (concat (map upd_groups us))) \<and>
       inverseRepresentsGroup (entriesFor (gc_group gc) (concat (map upd_groups us))) gc)"
  unfolding verifyInverseUpdates_def convertInverseUpdatesToJPConfig_def
  by (rule icvt.verify_iff [where cmp = inverseCompareGroup and represents = inverseRepresentsGroup,
        OF refl assms compare_inverseEntriesConfig])

section \<open>The check and the packers\<close>

text \<open>The configurations the loader builds: something to join for every group, no source twice.\<close>

definition wellFormedGroup :: "GroupConfig \<Rightarrow> bool" where
  "wellFormedGroup gc \<longleftrightarrow> (gc_spt gc \<noteq> [] \<or> gc_rpt gc \<noteq> None) \<and>
     distinct (gc_spt gc @ (case gc_rpt gc of None \<Rightarrow> [] | Some r \<Rightarrow> rpt_prunes r))"

definition wellFormedConfig :: "JPConfig \<Rightarrow> bool" where
  "wellFormedConfig cfg \<longleftrightarrow> distinct (map gc_group (jp_groups cfg)) \<and>
     (\<forall>gc \<in> set (jp_groups cfg). wellFormedGroup gc \<and> prunes_bounded gc)"

lemma spts_filter: "spts ss = map src_addr (filter (\<lambda>s. \<not> src_wildcard s) ss)"
  and rps_filter: "rps ss = map src_addr (filter src_wildcard ss)"
  by (simp_all add: spts_def rps_def)

lemma filter_joinsOf:
  "filter (\<lambda>s. \<not> src_wildcard s) (joinsOf es) = concat (map sptJoins es)"
  "filter src_wildcard (joinsOf es) = concat (map fst (concat (map rptParts es)))"
  "prunesOf es = concat (map snd (concat (map rptParts es)))"
  by (induction es) (simp_all add: joinsOf_def prunesOf_def sptJoins_def rptParts_def Let_def)

lemma carries_valid:
  assumes c: "carries es gc" and wf: "wellFormedGroup gc"
  shows "validEntries es \<and> representsGroup es gc \<and> es \<noteq> []"
proof -
  have spt: "filter (\<lambda>s. \<not> src_wildcard s) (joinsOf es) = map spt_source (gc_spt gc)"
    and parts: "concat (map rptParts es) = rptImage (gc_rpt gc)"
    using c by (simp_all add: carries_def filter_joinsOf)
  have rp: "filter src_wildcard (joinsOf es) = (case gc_rpt gc of None \<Rightarrow> [] | Some r \<Rightarrow> [rp_source (rp r)])"
    and prunes: "prunesOf es = (case gc_rpt gc of None \<Rightarrow> [] | Some r \<Rightarrow> map rpt_source (rpt_prunes r))"
    by (simp_all add: filter_joinsOf(2,3) parts rptImage_def split: option.split)
  have "src_rpt s = src_wildcard s" if "s \<in> set (joinsOf es)" for s
  proof (cases "src_wildcard s")
    case True
    with that have "s \<in> set (filter src_wildcard (joinsOf es))" by simp
    with True show ?thesis by (auto simp: rp split: option.splits)
  next
    case False
    with that have "s \<in> set (filter (\<lambda>s. \<not> src_wildcard s) (joinsOf es))" by simp
    with False show ?thesis by (auto simp: spt)
  qed
  moreover have "rps (joinsOf es) = (case gc_rpt gc of None \<Rightarrow> [] | Some r \<Rightarrow> [rp r])"
    by (simp add: rps_filter rp split: option.split)
  moreover have "spts (joinsOf es) = gc_spt gc"
    by (simp add: spts_filter spt comp_def)
  moreover have "addrs (prunesOf es) = (case gc_rpt gc of None \<Rightarrow> [] | Some r \<Rightarrow> rpt_prunes r)"
    by (simp add: addrs_def prunes comp_def split: option.split)
  moreover have "\<forall>s \<in> set (prunesOf es). src_rpt s \<and> \<not> src_wildcard s"
    by (auto simp: prunes split: option.split)
  ultimately have "validSources (joinsOf es) (prunesOf es)" "representsGroup es gc"
    using wf by (auto simp: validSources_def representsGroup_def wellFormedGroup_def split: option.splits)
  moreover have "rps (joinsOf (take (Suc k) es)) \<noteq> []" if k: "k < length es" "ge_prunes (es ! k) \<noteq> []" for k
  proof -
    have "(filter src_wildcard (ge_joins (es ! k)), ge_prunes (es ! k)) \<in> set (concat (map rptParts es))"
      using k nth_mem [OF k(1)] by (auto simp: rptParts_def Let_def intro!: bexI [of _ "es ! k"])
    then have "filter src_wildcard (ge_joins (es ! k)) \<noteq> []"
      unfolding parts rptImage_def by (auto split: option.splits)
    with k(1) show ?thesis by (simp add: rps_def joinsOf_def take_Suc_conv_app_nth)
  qed
  moreover have "es \<noteq> []"
  proof
    assume "es = []"
    with spt parts wf show False
      by (auto simp: wellFormedGroup_def joinsOf_def rptImage_def split: option.splits)
  qed
  ultimately show ?thesis by (simp add: validEntries_def)
qed

lemma groups_eq:
  assumes "ge_group ` set es \<subseteq> gc_group ` set gcs" and "\<forall>gc \<in> set gcs. entriesFor (gc_group gc) es \<noteq> []"
  shows "ge_group ` set es = gc_group ` set gcs"
proof (intro equalityI subsetI assms(1) [THEN subsetD])
  fix g assume "g \<in> gc_group ` set gcs"
  then obtain gc where "gc \<in> set gcs" "g = gc_group gc" by blast
  with assms(2) obtain e where "e \<in> set es" "ge_group e = g"
    by (auto simp: entriesFor_def filter_empty_conv)
  then show "g \<in> ge_group ` set es" by blast
qed

lemma ownEntries_eq: "ownEntries = entriesFor"
  by (intro ext) (simp add: ownEntries_def entriesFor_def)

lemma withdraws_valid:
  assumes w: "withdrawsSpt es gc" "withdrawsRp es gc \<or> losesRp es gc" and wf: "wellFormedGroup gc"
  shows "validInverseEntries es \<and> es \<noteq> [] \<and> (inverseRepresentsGroup es gc \<longleftrightarrow> withdrawsRp es gc)"
proof -
  have spt: "filter (\<lambda>s. \<not> src_wildcard s) (prunesOf es) = map spt_source (gc_spt gc)"
    and joins: "joinsOf es = []"
    using w(1) by (simp_all add: withdrawsSpt_def prunesOf_def joinsOf_def filter_concat sptPrunes_def [abs_def] comp_def)
  define own where "own = concat (map rpPrunes es)"
  have rp: "filter src_wildcard (prunesOf es) = own"
    by (simp add: own_def prunesOf_def filter_concat rpPrunes_def [abs_def] comp_def)
  have withdraws: "withdrawsRp es gc \<longleftrightarrow> own = rpPrune (gc_rpt gc)"
    by (simp only: withdrawsRp_def own_def)
  then have cases: "own = rpPrune (gc_rpt gc) \<or> own = []"
    using w(2) unfolding losesRp_def own_def by blast
  have "src_rpt s = src_wildcard s" if "s \<in> set (prunesOf es)" for s
  proof (cases "src_wildcard s")
    case True
    with that have "s \<in> set (filter src_wildcard (prunesOf es))" by simp
    then have "s \<in> set (rpPrune (gc_rpt gc))"
      using cases unfolding rp by (metis empty_iff list.set(1))
    with True show ?thesis by (auto simp: rpPrune_def split: option.splits)
  next
    case False
    with that have "s \<in> set (filter (\<lambda>s. \<not> src_wildcard s) (prunesOf es))" by simp
    with False show ?thesis by (auto simp: spt)
  qed
  moreover have "spts (prunesOf es) = gc_spt gc" by (simp add: spts_filter spt comp_def)
  moreover have "length (rps (prunesOf es)) \<le> 1"
    using cases by (auto simp: rps_filter rp rpPrune_def split: option.splits)
  moreover have "rps (prunesOf es) = (case gc_rpt gc of None \<Rightarrow> [] | Some r \<Rightarrow> [rp r]) \<longleftrightarrow> withdrawsRp es gc"
    using cases by (auto simp: rps_filter rp rpPrune_def withdraws split: option.splits)
  moreover have "es \<noteq> []"
  proof
    assume "es = []"
    with w wf show False
      by (auto simp: withdrawsSpt_def withdrawsRp_def losesRp_def wellFormedGroup_def rpPrune_def
          split: option.splits)
  qed
  ultimately show ?thesis
    using wf joins
    by (auto simp: validInverseEntries_def validSources_def inverseRepresentsGroup_def wellFormedGroup_def)
qed

text \<open>C28: On distinct groups, \<open>verifyUpdates\<close> succeeds exactly on updates that represent the
  configuration: they have entries for the configured groups only and for each of them, and the
  entries of a group are well formed and name exactly its SPT sources, its RP and its RPT prunes.
\<close>

theorem verify_updates_iff:
  assumes "distinct (map gc_group (jp_groups cfg))"
  shows "verifyUpdates cfg us = Ok () \<longleftrightarrow>
    ge_group ` set (concat (map upd_groups us)) = gc_group ` set (jp_groups cfg) \<and>
    (\<forall>gc \<in> set (jp_groups cfg). validEntries (entriesFor (gc_group gc) (concat (map upd_groups us))) \<and>
       representsGroup (entriesFor (gc_group gc) (concat (map upd_groups us))) gc)"
  by (rule verifyUpdates_iff [OF assms])

text \<open>C29: On distinct groups, \<open>verifyInverseUpdates\<close> succeeds exactly on updates with prunes only, whose
  prunes for each configured group name its SPT sources, each once, and its RP.
\<close>

theorem verify_inverse_updates_iff:
  assumes "distinct (map gc_group (jp_groups cfg))"
  shows "verifyInverseUpdates cfg us = Ok () \<longleftrightarrow>
    ge_group ` set (concat (map upd_groups us)) = gc_group ` set (jp_groups cfg) \<and>
    (\<forall>gc \<in> set (jp_groups cfg). validInverseEntries (entriesFor (gc_group gc) (concat (map upd_groups us))) \<and>
       inverseRepresentsGroup (entriesFor (gc_group gc) (concat (map upd_groups us))) gc)"
  by (rule verifyInverseUpdates_iff [OF assms])

lemma sampleConfig_wf: "wellFormedConfig sampleConfig"
  using sampleConfig_ok
  by (simp add: wellFormedConfig_def) (simp add: sampleConfig_def wellFormedGroup_def ofOctets_def)

lemma verify_updates_iff_witness:
  "verifyUpdates sampleConfig [] \<noteq> Ok ()"
  by (subst verify_updates_iff [OF sampleConfig_ok(1)]) (simp add: sampleConfig_def)

lemma verify_inverse_updates_iff_witness:
  "verifyInverseUpdates sampleInverseConfig [] \<noteq> Ok ()"
  by (subst verify_inverse_updates_iff [OF sampleInverseConfig_ok]) (simp add: sampleInverseConfig_def)

lemma pack_verified:
  assumes "wellFormedConfig cfg"
  shows "\<exists>us. pack cfg = Some (Ok us) \<and> verifyUpdates cfg us = Ok ()"
proof -
  have wf: "distinct (map gc_group (jp_groups cfg))" "\<forall>gc \<in> set (jp_groups cfg). prunes_bounded gc"
    "\<forall>gc \<in> set (jp_groups cfg). wellFormedGroup gc"
    using assms by (simp_all add: wellFormedConfig_def)
  obtain up es where up: "pack cfg = Some (Inr (buildUpdates up))" "packer_inv es up"
    "ge_group ` set es \<subseteq> gc_group ` set (jp_groups cfg)"
    "\<forall>gc \<in> set (jp_groups cfg). carries (entriesFor (gc_group gc) es) gc"
    using pack_ok [OF wf(1,2)] by blast
  have all: "\<forall>gc \<in> set (jp_groups cfg). validEntries (entriesFor (gc_group gc) es) \<and>
      representsGroup (entriesFor (gc_group gc) es) gc \<and> entriesFor (gc_group gc) es \<noteq> []"
    using up(4) wf(3) carries_valid by blast
  then have "ge_group ` set es = gc_group ` set (jp_groups cfg)"
    using groups_eq [OF up(3)] by blast
  with all have "verifyUpdates cfg (buildUpdates up) = Ok ()"
    unfolding verifyUpdates_iff [OF wf(1)] buildUpdates_ok(1) [OF up(2)] by blast
  with up(1) show ?thesis by blast
qed

text \<open>C24: The packer's updates pass the check, on every configuration with distinct groups that each
  have an RP or an SPT source, at most 180 RPT prunes, and no source twice.
\<close>

theorem verify_accepts_pack:
  assumes "wellFormedConfig cfg"
  shows "\<exists>us. pack cfg = Some (Ok us) \<and> verifyUpdates cfg us = Ok ()"
  by (rule pack_verified [OF assms])

lemma verify_accepts_pack_witness:
  "\<exists>us. pack sampleConfig = Some (Ok us) \<and> verifyUpdates sampleConfig us = Ok ()"
  by (rule verify_accepts_pack [OF sampleConfig_wf])

lemma inversePack_verified:
  assumes "wellFormedConfig cfg"
  shows "\<exists>us. inversePack cfg = Some (Ok us) \<and>
    (verifyInverseUpdates cfg us = Ok () \<longleftrightarrow>
       (\<forall>gc \<in> set (jp_groups cfg).
          withdrawsRp (ownEntries (gc_group gc) (concat (map upd_groups us))) gc))"
proof -
  have wf: "distinct (map gc_group (jp_groups cfg))" "\<forall>gc \<in> set (jp_groups cfg). wellFormedGroup gc"
    using assms by (simp_all add: wellFormedConfig_def)
  obtain up es where up: "inversePack cfg = Some (Inr (inverseBuildUpdates up))" "ipacker_inv es up"
    "ge_group ` set es \<subseteq> gc_group ` set (jp_groups cfg)"
    "\<forall>gc \<in> set (jp_groups cfg). withdraws (entriesFor (gc_group gc) es) gc"
    using inversePack_ok [OF wf(1)] by (auto simp: ownEntries_eq)
  have all: "\<forall>gc \<in> set (jp_groups cfg). validInverseEntries (entriesFor (gc_group gc) es) \<and>
      entriesFor (gc_group gc) es \<noteq> [] \<and>
      (inverseRepresentsGroup (entriesFor (gc_group gc) es) gc \<longleftrightarrow> withdrawsRp (entriesFor (gc_group gc) es) gc)"
    using up(4) wf(2) withdraws_valid unfolding withdraws_def by blast
  then have "ge_group ` set es = gc_group ` set (jp_groups cfg)"
    using groups_eq [OF up(3)] by blast
  with all have "verifyInverseUpdates cfg (inverseBuildUpdates up) = Ok () \<longleftrightarrow>
      (\<forall>gc \<in> set (jp_groups cfg). withdrawsRp (entriesFor (gc_group gc) es) gc)"
    unfolding verifyInverseUpdates_iff [OF wf(1)] inverseBuildUpdates_ok(1) [OF up(2)] by blast
  with up(1) inverseBuildUpdates_ok(1) [OF up(2)] show ?thesis by (simp add: ownEntries_eq)
qed

text \<open>The inverse packer's updates pass the check exactly if they prune the RP of every group that
  has one.
\<close>

theorem verify_inverse_pack:
  assumes "wellFormedConfig cfg"
  shows "\<exists>us. inversePack cfg = Some (Ok us) \<and>
    (verifyInverseUpdates cfg us = Ok () \<longleftrightarrow>
       (\<forall>gc \<in> set (jp_groups cfg).
          withdrawsRp (ownEntries (gc_group gc) (concat (map upd_groups us))) gc))"
  by (rule inversePack_verified [OF assms])

lemma verify_inverse_pack_witness:
  "\<exists>us. inversePack sampleConfig = Some (Ok us) \<and>
    (verifyInverseUpdates sampleConfig us = Ok () \<longleftrightarrow>
       (\<forall>gc \<in> set (jp_groups sampleConfig).
          withdrawsRp (ownEntries (gc_group gc) (concat (map upd_groups us))) gc))"
  by (rule verify_inverse_pack [OF sampleConfig_wf])

text \<open>C27: A well-formed configuration can be refused because of the RP prune the inverse packer loses:
  the group before the one with the RP has 179 SPT sources, and the check fails on the packer's own
  updates.
\<close>

theorem inverse_check_rejects_pack:
  fixes s :: IPv4Address
  assumes "length xs = 179" and "distinct xs" and "g1 \<noteq> g2" and "rpt_prunes r = []"
  defines "cfg \<equiv>
      \<lparr>jp_groups =
         [\<lparr>gc_group = g1, gc_rpt = None, gc_spt = xs\<rparr>,
          \<lparr>gc_group = g2, gc_rpt = Some r, gc_spt = [s]\<rparr>]\<rparr>"
  shows "wellFormedConfig cfg \<and>
    (\<exists>us errors. inversePack cfg = Some (Ok us) \<and> verifyInverseUpdates cfg us = Fail errors)"
proof
  show "wellFormedConfig cfg"
    using assms by (auto simp: wellFormedConfig_def wellFormedGroup_def prunes_bounded_def)
  let ?us = "[\<lparr>upd_groups =
          [\<lparr>ge_group = g1, ge_joins = [], ge_prunes = map spt_source xs\<rparr>,
           \<lparr>ge_group = g2, ge_joins = [], ge_prunes = [spt_source s]\<rparr>]\<rparr>]"
  have pack: "inversePack cfg = Some (Ok ?us)"
    unfolding cfg_def by (rule inversePack_lone [OF assms(1)])
  have distinct: "distinct (map gc_group (jp_groups cfg))"
    using assms(3) by (simp add: cfg_def)
  have "verifyInverseUpdates cfg ?us \<noteq> Ok ()"
    using assms(3) unfolding verifyInverseUpdates_iff [OF distinct]
    by (simp add: cfg_def entriesFor_def inverseRepresentsGroup_def prunesOf_def)
  with pack show "\<exists>us errors. inversePack cfg = Some (Ok us) \<and> verifyInverseUpdates cfg us = Fail errors"
    by (cases "verifyInverseUpdates cfg ?us") auto
qed

lemma inverse_check_rejects_pack_witness:
  "\<exists>us errors. inversePack
      \<lparr>jp_groups =
         [\<lparr>gc_group = ofOctets 239 1 1 1, gc_rpt = None,
           gc_spt = map (\<lambda>i. IPv4Address (of_nat i)) [0..<179]\<rparr>,
          \<lparr>gc_group = ofOctets 239 1 1 2, gc_rpt = Some \<lparr>rp = ofOctets 10 0 0 1, rpt_prunes = []\<rparr>,
           gc_spt = [ofOctets 10 2 0 1]\<rparr>]\<rparr> = Some (Ok us) \<and>
    verifyInverseUpdates
      \<lparr>jp_groups =
         [\<lparr>gc_group = ofOctets 239 1 1 1, gc_rpt = None,
           gc_spt = map (\<lambda>i. IPv4Address (of_nat i)) [0..<179]\<rparr>,
          \<lparr>gc_group = ofOctets 239 1 1 2, gc_rpt = Some \<lparr>rp = ofOctets 10 0 0 1, rpt_prunes = []\<rparr>,
           gc_spt = [ofOctets 10 2 0 1]\<rparr>]\<rparr> us = Fail errors"
proof (rule inverse_check_rejects_pack [THEN conjunct2])
  show "distinct (map (\<lambda>i. IPv4Address (of_nat i)) [0..<179])"
    by (auto simp: distinct_map inj_on_def word_unat_eq_iff unat_of_nat)
qed (simp_all add: ofOctets_def)

end
