(* ===== verification/Results.thy ===== *)
theory Results
  imports Prelude
begin

text \<open>
  The sum type of the toolkit, \<open>Result<T,E>\<close> with \<open>Failure<E>\<close> (\<open>core/Result.hpp\<close>), and \<open>Optional<T>\<close>
  (\<open>core/Optional.hpp\<close>), as values: a \<open>Result<T,E>\<close> is an \<open>outcome\<close>, a \<open>Failure<E>\<close> its error, an
  \<open>Optional<T>\<close> an \<open>option\<close>, and \<open>void\<close> is \<open>unit\<close>.  The operators and functions of the argument types
  are arguments.  The overloads for rvalues move where the others copy, and give the same value.
  How the classes store their values is in \<open>Storage\<close>.
\<close>

section \<open>Failure\<close>

datatype 'e Failure = Failure (failure_error: 'e)

definition fail :: "'e \<Rightarrow> 'e Failure" where "fail e = Failure e"

definition failure_convert :: "('e2 \<Rightarrow> 'e1) \<Rightarrow> 'e2 Failure \<Rightarrow> 'e1 Failure" where
  "failure_convert conv other = Failure (conv (failure_error other))"

definition failure_eq :: "('e1 \<Rightarrow> 'e2 \<Rightarrow> bool) \<Rightarrow> 'e1 Failure \<Rightarrow> 'e2 Failure \<Rightarrow> bool" where
  "failure_eq eq lhs rhs = eq (failure_error lhs) (failure_error rhs)"

definition failure_ne :: "('e1 \<Rightarrow> 'e2 \<Rightarrow> bool) \<Rightarrow> 'e1 Failure \<Rightarrow> 'e2 Failure \<Rightarrow> bool" where
  "failure_ne ne lhs rhs = ne (failure_error lhs) (failure_error rhs)"

definition failure_lt :: "('e1 \<Rightarrow> 'e2 \<Rightarrow> bool) \<Rightarrow> 'e1 Failure \<Rightarrow> 'e2 Failure \<Rightarrow> bool" where
  "failure_lt lt lhs rhs = lt (failure_error lhs) (failure_error rhs)"

definition failure_le :: "('e1 \<Rightarrow> 'e2 \<Rightarrow> bool) \<Rightarrow> 'e1 Failure \<Rightarrow> 'e2 Failure \<Rightarrow> bool" where
  "failure_le le lhs rhs = le (failure_error lhs) (failure_error rhs)"

definition failure_gt :: "('e1 \<Rightarrow> 'e2 \<Rightarrow> bool) \<Rightarrow> 'e1 Failure \<Rightarrow> 'e2 Failure \<Rightarrow> bool" where
  "failure_gt gt lhs rhs = gt (failure_error lhs) (failure_error rhs)"

definition failure_ge :: "('e1 \<Rightarrow> 'e2 \<Rightarrow> bool) \<Rightarrow> 'e1 Failure \<Rightarrow> 'e2 Failure \<Rightarrow> bool" where
  "failure_ge ge lhs rhs = ge (failure_error lhs) (failure_error rhs)"

definition failure_swap :: "'e Failure \<Rightarrow> 'e Failure \<Rightarrow> 'e Failure \<times> 'e Failure" where
  "failure_swap lhs rhs = (Failure (failure_error rhs), Failure (failure_error lhs))"

section \<open>Result\<close>

definition result_of_value :: "'t \<Rightarrow> ('e, 't) outcome" where "result_of_value v = Inr v"

definition result_of_failure :: "('e2 \<Rightarrow> 'e1) \<Rightarrow> 'e2 Failure \<Rightarrow> ('e1, 't) outcome" where
  "result_of_failure conv f = Inl (conv (failure_error f))"

definition result_convert :: "('t2 \<Rightarrow> 't1) \<Rightarrow> ('e2 \<Rightarrow> 'e1) \<Rightarrow> ('e2, 't2) outcome \<Rightarrow> ('e1, 't1) outcome" where
  "result_convert ct ce rhs = (case rhs of Inr v \<Rightarrow> Inr (ct v) | Inl e \<Rightarrow> Inl (ce e))"

definition void_result_convert :: "('e2 \<Rightarrow> 'e1) \<Rightarrow> ('e2, 'u) outcome \<Rightarrow> ('e1, unit) outcome" where
  "void_result_convert ce rhs = (case rhs of Inr _ \<Rightarrow> Inr () | Inl e \<Rightarrow> Inl (ce e))"

fun hasValue :: "('e, 't) outcome \<Rightarrow> bool" where
  "hasValue (Inr _) = True" | "hasValue (Inl _) = False"

definition hasError :: "('e, 't) outcome \<Rightarrow> bool" where "hasError r \<longleftrightarrow> \<not> hasValue r"

text \<open>
  \<open>value()\<close> and \<open>error()\<close> read the member of the union without a check: their value is open where the
  other member is active.
\<close>

fun result_value :: "('e, 't) outcome \<Rightarrow> 't" where "result_value (Inr v) = v"

fun result_error :: "('e, 't) outcome \<Rightarrow> 'e" where "result_error (Inl e) = e"

definition valueOr :: "('e, 't) outcome \<Rightarrow> 't \<Rightarrow> 't" where
  "valueOr r d = (if hasValue r then result_value r else d)"

definition errorOr :: "('e, 't) outcome \<Rightarrow> 'e \<Rightarrow> 'e" where
  "errorOr r d = (if \<not> hasValue r then result_error r else d)"

definition result_flatMap :: "('t \<Rightarrow> ('e, 'u) outcome) \<Rightarrow> ('e, 't) outcome \<Rightarrow> ('e, 'u) outcome" where
  "result_flatMap f r = (if hasValue r then f (result_value r) else Inl (result_error r))"

definition result_map :: "('t \<Rightarrow> 'u) \<Rightarrow> ('e, 't) outcome \<Rightarrow> ('e, 'u) outcome" where
  "result_map f r = (if hasValue r then Inr (f (result_value r)) else Inl (result_error r))"

definition result_flatMapError :: "('e \<Rightarrow> ('f, 't) outcome) \<Rightarrow> ('e, 't) outcome \<Rightarrow> ('f, 't) outcome" where
  "result_flatMapError f r = (if hasError r then f (result_error r) else Inr (result_value r))"

definition result_mapError :: "('e \<Rightarrow> 'f) \<Rightarrow> ('e, 't) outcome \<Rightarrow> ('f, 't) outcome" where
  "result_mapError f r = (if hasError r then Inl (f (result_error r)) else Inr (result_value r))"

text \<open>The members of \<open>Result<void,E>\<close>: the functions have no argument.\<close>

definition void_flatMap :: "(unit \<Rightarrow> ('e, 'u) outcome) \<Rightarrow> ('e, unit) outcome \<Rightarrow> ('e, 'u) outcome" where
  "void_flatMap f r = (if hasValue r then f () else Inl (result_error r))"

definition void_map :: "(unit \<Rightarrow> 'u) \<Rightarrow> ('e, unit) outcome \<Rightarrow> ('e, 'u) outcome" where
  "void_map f r = (if hasValue r then Inr (f ()) else Inl (result_error r))"

definition void_flatMapError ::
    "'u \<Rightarrow> ('e \<Rightarrow> ('f, 'u) outcome) \<Rightarrow> ('e, unit) outcome \<Rightarrow> ('f, 'u) outcome" where
  "void_flatMapError deflt f r = (if hasError r then f (result_error r) else Inr deflt)"

definition void_mapError :: "('e \<Rightarrow> 'f) \<Rightarrow> ('e, unit) outcome \<Rightarrow> ('f, unit) outcome" where
  "void_mapError f r = (if hasError r then Inl (f (result_error r)) else Inr ())"

section \<open>Comparison of results\<close>

type_synonym ('a, 'b) cmp = "'a \<Rightarrow> 'b \<Rightarrow> bool"

definition flag :: "bool \<Rightarrow> int" where "flag b = (if b then 1 else 0)"

definition result_eq :: "('t1,'t2) cmp \<Rightarrow> ('e1,'e2) cmp \<Rightarrow> ('e1,'t1) outcome \<Rightarrow> ('e2,'t2) outcome \<Rightarrow> bool" where
  "result_eq eqT eqE lhs rhs =
     (if hasValue lhs = hasValue rhs then
        (if hasValue lhs then eqT (result_value lhs) (result_value rhs)
         else eqE (result_error lhs) (result_error rhs))
      else False)"

definition result_ne :: "('t1,'t2) cmp \<Rightarrow> ('e1,'e2) cmp \<Rightarrow> ('e1,'t1) outcome \<Rightarrow> ('e2,'t2) outcome \<Rightarrow> bool" where
  "result_ne neT neE lhs rhs =
     (if hasValue lhs = hasValue rhs then
        (if hasValue lhs then neT (result_value lhs) (result_value rhs)
         else neE (result_error lhs) (result_error rhs))
      else True)"

definition result_lt :: "('t1,'t2) cmp \<Rightarrow> ('e1,'e2) cmp \<Rightarrow> ('e1,'t1) outcome \<Rightarrow> ('e2,'t2) outcome \<Rightarrow> bool" where
  "result_lt ltT ltE lhs rhs =
     (if hasValue lhs = hasValue rhs then
        (if hasValue lhs then ltT (result_value lhs) (result_value rhs)
         else ltE (result_error lhs) (result_error rhs))
      else flag (hasValue lhs) < flag (hasValue rhs))"

definition result_le :: "('t1,'t2) cmp \<Rightarrow> ('e1,'e2) cmp \<Rightarrow> ('e1,'t1) outcome \<Rightarrow> ('e2,'t2) outcome \<Rightarrow> bool" where
  "result_le leT leE lhs rhs =
     (if hasValue lhs = hasValue rhs then
        (if hasValue lhs then leT (result_value lhs) (result_value rhs)
         else leE (result_error lhs) (result_error rhs))
      else flag (hasValue lhs) \<le> flag (hasValue rhs))"

definition result_gt :: "('t1,'t2) cmp \<Rightarrow> ('e1,'e2) cmp \<Rightarrow> ('e1,'t1) outcome \<Rightarrow> ('e2,'t2) outcome \<Rightarrow> bool" where
  "result_gt gtT gtE lhs rhs =
     (if hasValue lhs = hasValue rhs then
        (if hasValue lhs then gtT (result_value lhs) (result_value rhs)
         else gtE (result_error lhs) (result_error rhs))
      else flag (hasValue lhs) > flag (hasValue rhs))"

definition result_ge :: "('t1,'t2) cmp \<Rightarrow> ('e1,'e2) cmp \<Rightarrow> ('e1,'t1) outcome \<Rightarrow> ('e2,'t2) outcome \<Rightarrow> bool" where
  "result_ge geT geE lhs rhs =
     (if hasValue lhs = hasValue rhs then
        (if hasValue lhs then geT (result_value lhs) (result_value rhs)
         else geE (result_error lhs) (result_error rhs))
      else flag (hasValue lhs) \<ge> flag (hasValue rhs))"

text \<open>\<open>Result<void,E>\<close>: two values are equal.\<close>

definition void_eq :: "('e1,'e2) cmp \<Rightarrow> ('e1,unit) outcome \<Rightarrow> ('e2,unit) outcome \<Rightarrow> bool" where
  "void_eq eqE lhs rhs =
     (if hasValue lhs = hasValue rhs then
        (if hasValue lhs then True else eqE (result_error lhs) (result_error rhs))
      else False)"

definition void_ne :: "('e1,'e2) cmp \<Rightarrow> ('e1,unit) outcome \<Rightarrow> ('e2,unit) outcome \<Rightarrow> bool" where
  "void_ne neE lhs rhs =
     (if hasValue lhs = hasValue rhs then
        (if hasValue lhs then False else neE (result_error lhs) (result_error rhs))
      else True)"

definition void_lt :: "('e1,'e2) cmp \<Rightarrow> ('e1,unit) outcome \<Rightarrow> ('e2,unit) outcome \<Rightarrow> bool" where
  "void_lt ltE lhs rhs =
     (if hasValue lhs = hasValue rhs then
        (if hasValue lhs then False else ltE (result_error lhs) (result_error rhs))
      else flag (hasValue lhs) < flag (hasValue rhs))"

definition void_le :: "('e1,'e2) cmp \<Rightarrow> ('e1,unit) outcome \<Rightarrow> ('e2,unit) outcome \<Rightarrow> bool" where
  "void_le leE lhs rhs =
     (if hasValue lhs = hasValue rhs then
        (if hasValue lhs then True else leE (result_error lhs) (result_error rhs))
      else flag (hasValue lhs) \<le> flag (hasValue rhs))"

definition void_gt :: "('e1,'e2) cmp \<Rightarrow> ('e1,unit) outcome \<Rightarrow> ('e2,unit) outcome \<Rightarrow> bool" where
  "void_gt gtE lhs rhs =
     (if hasValue lhs = hasValue rhs then
        (if hasValue lhs then False else gtE (result_error lhs) (result_error rhs))
      else flag (hasValue lhs) > flag (hasValue rhs))"

definition void_ge :: "('e1,'e2) cmp \<Rightarrow> ('e1,unit) outcome \<Rightarrow> ('e2,unit) outcome \<Rightarrow> bool" where
  "void_ge geE lhs rhs =
     (if hasValue lhs = hasValue rhs then
        (if hasValue lhs then True else geE (result_error lhs) (result_error rhs))
      else flag (hasValue lhs) \<ge> flag (hasValue rhs))"

section \<open>Comparison with values and failures\<close>

definition result_eq_value :: "('t,'v) cmp \<Rightarrow> ('e,'t) outcome \<Rightarrow> 'v \<Rightarrow> bool" where
  "result_eq_value eq lhs rhs \<longleftrightarrow> hasValue lhs \<and> eq (result_value lhs) rhs"

definition value_eq_result :: "('v,'t) cmp \<Rightarrow> 'v \<Rightarrow> ('e,'t) outcome \<Rightarrow> bool" where
  "value_eq_result eq lhs rhs \<longleftrightarrow> hasValue rhs \<and> eq lhs (result_value rhs)"

definition result_ne_value :: "('t,'v) cmp \<Rightarrow> ('e,'t) outcome \<Rightarrow> 'v \<Rightarrow> bool" where
  "result_ne_value ne lhs rhs \<longleftrightarrow> hasError lhs \<or> ne (result_value lhs) rhs"

definition value_ne_result :: "('v,'t) cmp \<Rightarrow> 'v \<Rightarrow> ('e,'t) outcome \<Rightarrow> bool" where
  "value_ne_result ne lhs rhs \<longleftrightarrow> hasError rhs \<or> ne lhs (result_value rhs)"

definition result_lt_value :: "('t,'v) cmp \<Rightarrow> ('e,'t) outcome \<Rightarrow> 'v \<Rightarrow> bool" where
  "result_lt_value lt lhs rhs \<longleftrightarrow> hasError lhs \<or> lt (result_value lhs) rhs"

definition value_lt_result :: "('v,'t) cmp \<Rightarrow> 'v \<Rightarrow> ('e,'t) outcome \<Rightarrow> bool" where
  "value_lt_result lt lhs rhs \<longleftrightarrow> hasValue rhs \<and> lt lhs (result_value rhs)"

definition result_le_value :: "('t,'v) cmp \<Rightarrow> ('e,'t) outcome \<Rightarrow> 'v \<Rightarrow> bool" where
  "result_le_value le lhs rhs \<longleftrightarrow> hasError lhs \<or> le (result_value lhs) rhs"

definition value_le_result :: "('v,'t) cmp \<Rightarrow> 'v \<Rightarrow> ('e,'t) outcome \<Rightarrow> bool" where
  "value_le_result le lhs rhs \<longleftrightarrow> hasValue rhs \<and> le lhs (result_value rhs)"

definition result_gt_value :: "('t,'v) cmp \<Rightarrow> ('e,'t) outcome \<Rightarrow> 'v \<Rightarrow> bool" where
  "result_gt_value gt lhs rhs \<longleftrightarrow> hasValue lhs \<and> gt (result_value lhs) rhs"

definition value_gt_result :: "('v,'t) cmp \<Rightarrow> 'v \<Rightarrow> ('e,'t) outcome \<Rightarrow> bool" where
  "value_gt_result gt lhs rhs \<longleftrightarrow> hasError rhs \<or> gt lhs (result_value rhs)"

definition result_ge_value :: "('t,'v) cmp \<Rightarrow> ('e,'t) outcome \<Rightarrow> 'v \<Rightarrow> bool" where
  "result_ge_value ge lhs rhs \<longleftrightarrow> hasValue lhs \<and> ge (result_value lhs) rhs"

definition value_ge_result :: "('v,'t) cmp \<Rightarrow> 'v \<Rightarrow> ('e,'t) outcome \<Rightarrow> bool" where
  "value_ge_result ge lhs rhs \<longleftrightarrow> hasError rhs \<or> ge lhs (result_value rhs)"

definition result_eq_failure :: "('e,'x) cmp \<Rightarrow> ('e,'t) outcome \<Rightarrow> 'x Failure \<Rightarrow> bool" where
  "result_eq_failure eq lhs rhs \<longleftrightarrow> hasError lhs \<and> eq (result_error lhs) (failure_error rhs)"

definition failure_eq_result :: "('x,'e) cmp \<Rightarrow> 'x Failure \<Rightarrow> ('e,'t) outcome \<Rightarrow> bool" where
  "failure_eq_result eq lhs rhs \<longleftrightarrow> hasError rhs \<and> eq (failure_error lhs) (result_error rhs)"

definition result_ne_failure :: "('e,'x) cmp \<Rightarrow> ('e,'t) outcome \<Rightarrow> 'x Failure \<Rightarrow> bool" where
  "result_ne_failure ne lhs rhs \<longleftrightarrow> hasValue lhs \<or> ne (result_error lhs) (failure_error rhs)"

definition failure_ne_result :: "('x,'e) cmp \<Rightarrow> 'x Failure \<Rightarrow> ('e,'t) outcome \<Rightarrow> bool" where
  "failure_ne_result ne lhs rhs \<longleftrightarrow> hasValue rhs \<or> ne (failure_error lhs) (result_error rhs)"

definition result_lt_failure :: "('e,'x) cmp \<Rightarrow> ('e,'t) outcome \<Rightarrow> 'x Failure \<Rightarrow> bool" where
  "result_lt_failure lt lhs rhs \<longleftrightarrow> hasError lhs \<and> lt (result_error lhs) (failure_error rhs)"

definition failure_lt_result :: "('x,'e) cmp \<Rightarrow> 'x Failure \<Rightarrow> ('e,'t) outcome \<Rightarrow> bool" where
  "failure_lt_result lt lhs rhs \<longleftrightarrow> hasValue rhs \<or> lt (failure_error lhs) (result_error rhs)"

definition result_le_failure :: "('e,'x) cmp \<Rightarrow> ('e,'t) outcome \<Rightarrow> 'x Failure \<Rightarrow> bool" where
  "result_le_failure le lhs rhs \<longleftrightarrow> hasError lhs \<and> le (result_error lhs) (failure_error rhs)"

definition failure_le_result :: "('x,'e) cmp \<Rightarrow> 'x Failure \<Rightarrow> ('e,'t) outcome \<Rightarrow> bool" where
  "failure_le_result le lhs rhs \<longleftrightarrow> hasValue rhs \<or> le (failure_error lhs) (result_error rhs)"

definition result_gt_failure :: "('e,'x) cmp \<Rightarrow> ('e,'t) outcome \<Rightarrow> 'x Failure \<Rightarrow> bool" where
  "result_gt_failure gt lhs rhs \<longleftrightarrow> hasValue lhs \<or> gt (result_error lhs) (failure_error rhs)"

definition failure_gt_result :: "('x,'e) cmp \<Rightarrow> 'x Failure \<Rightarrow> ('e,'t) outcome \<Rightarrow> bool" where
  "failure_gt_result gt lhs rhs \<longleftrightarrow> hasError rhs \<and> gt (failure_error lhs) (result_error rhs)"

definition result_ge_failure :: "('e,'x) cmp \<Rightarrow> ('e,'t) outcome \<Rightarrow> 'x Failure \<Rightarrow> bool" where
  "result_ge_failure ge lhs rhs \<longleftrightarrow> hasValue lhs \<or> ge (result_error lhs) (failure_error rhs)"

definition failure_ge_result :: "('x,'e) cmp \<Rightarrow> 'x Failure \<Rightarrow> ('e,'t) outcome \<Rightarrow> bool" where
  "failure_ge_result ge lhs rhs \<longleftrightarrow> hasError rhs \<and> ge (failure_error lhs) (result_error rhs)"

section \<open>Swap\<close>

definition result_swap :: "('e,'t) outcome \<Rightarrow> ('e,'t) outcome \<Rightarrow> ('e,'t) outcome \<times> ('e,'t) outcome" where
  "result_swap lhs rhs =
     (if hasValue lhs = hasValue rhs then
        (if hasValue lhs then (Inr (result_value rhs), Inr (result_value lhs))
         else (Inl (result_error rhs), Inl (result_error lhs)))
      else (let tmp = lhs; lhs = rhs; rhs = tmp in (lhs, rhs)))"

definition void_swap :: "('e,unit) outcome \<Rightarrow> ('e,unit) outcome \<Rightarrow> ('e,unit) outcome \<times> ('e,unit) outcome" where
  "void_swap lhs rhs =
     (if hasValue lhs = hasValue rhs then
        (if hasError lhs then (Inl (result_error rhs), Inl (result_error lhs)) else (lhs, rhs))
      else (let tmp = lhs; lhs = rhs; rhs = tmp in (lhs, rhs)))"


section \<open>The operators are a linear order\<close>

text \<open>Errors come before values.\<close>

instantiation sum :: (linorder, linorder) linorder
begin

definition less_eq_sum :: "'a + 'b \<Rightarrow> 'a + 'b \<Rightarrow> bool" where
  "less_eq_sum = result_le (\<le>) (\<le>)"

definition less_sum :: "'a + 'b \<Rightarrow> 'a + 'b \<Rightarrow> bool" where
  "less_sum = result_lt (<) (<)"

instance
proof
  fix x y z :: "'a + 'b"
  show "(x < y) = (x \<le> y \<and> \<not> y \<le> x)"
    by (cases x; cases y) (auto simp: less_eq_sum_def less_sum_def result_le_def result_lt_def flag_def)
  show "x \<le> x"
    by (cases x) (simp_all add: less_eq_sum_def result_le_def)
  show "x \<le> y \<Longrightarrow> y \<le> z \<Longrightarrow> x \<le> z"
    by (cases x; cases y; cases z) (auto simp: less_eq_sum_def result_le_def flag_def)
  show "x \<le> y \<Longrightarrow> y \<le> x \<Longrightarrow> x = y"
    by (cases x; cases y) (auto simp: less_eq_sum_def result_le_def flag_def)
  show "x \<le> y \<or> y \<le> x"
    by (cases x; cases y) (auto simp: less_eq_sum_def result_le_def flag_def)
qed

end

lemmas result_cmp_defs =
  result_eq_def result_ne_def result_lt_def result_le_def result_gt_def result_ge_def

lemmas void_cmp_defs = void_eq_def void_ne_def void_lt_def void_le_def void_gt_def void_ge_def

lemmas value_cmp_defs =
  result_eq_value_def value_eq_result_def result_ne_value_def value_ne_result_def
  result_lt_value_def value_lt_result_def result_le_value_def value_le_result_def
  result_gt_value_def value_gt_result_def result_ge_value_def value_ge_result_def

lemmas failure_cmp_defs =
  result_eq_failure_def failure_eq_result_def result_ne_failure_def failure_ne_result_def
  result_lt_failure_def failure_lt_result_def result_le_failure_def failure_le_result_def
  result_gt_failure_def failure_gt_result_def result_ge_failure_def failure_ge_result_def

lemma sum_less_simps [simp]:
  "Inl e < Inl f \<longleftrightarrow> e < f" "Inr v < Inr w \<longleftrightarrow> v < w" "Inl e < Inr v" "\<not> Inr v < Inl e"
  "Inl e \<le> Inl f \<longleftrightarrow> e \<le> f" "Inr v \<le> Inr w \<longleftrightarrow> v \<le> w" "Inl e \<le> Inr v" "\<not> Inr v \<le> Inl e"
  for e f :: "'a::linorder" and v w :: "'b::linorder"
  by (simp_all add: less_sum_def less_eq_sum_def result_le_def result_lt_def flag_def)

text \<open>The six comparison operators of \<open>Result<T,E>\<close> and of \<open>Result<void,E>\<close> are the comparisons of
  one linear order, the sum order in which every error is below every value.\<close>

theorem result_comparisons:
  fixes r s :: "'e::linorder + 't::linorder" and p q :: "'e + unit"
  shows "(result_eq (=) (=) r s \<longleftrightarrow> r = s) \<and> (result_ne (\<noteq>) (\<noteq>) r s \<longleftrightarrow> r \<noteq> s) \<and>
    (result_lt (<) (<) r s \<longleftrightarrow> r < s) \<and> (result_le (\<le>) (\<le>) r s \<longleftrightarrow> r \<le> s) \<and>
    (result_gt (>) (>) r s \<longleftrightarrow> r > s) \<and> (result_ge (\<ge>) (\<ge>) r s \<longleftrightarrow> r \<ge> s) \<and>
    (void_eq (=) p q \<longleftrightarrow> p = q) \<and> (void_ne (\<noteq>) p q \<longleftrightarrow> p \<noteq> q) \<and>
    (void_lt (<) p q \<longleftrightarrow> p < q) \<and> (void_le (\<le>) p q \<longleftrightarrow> p \<le> q) \<and>
    (void_gt (>) p q \<longleftrightarrow> p > q) \<and> (void_ge (\<ge>) p q \<longleftrightarrow> p \<ge> q)"
  by (cases r; cases s; cases p; cases q)
    (simp_all add: result_cmp_defs void_cmp_defs flag_def)

text \<open>Comparing a result with a value or with a failure, on either side, is comparing it with the
  result that holds the value or the error.\<close>

theorem mixed_comparisons:
  fixes r :: "'e::linorder + 't::linorder" and v :: 't and f :: "'e Failure"
  shows "(result_eq_value (=) r v \<longleftrightarrow> r = Inr v) \<and> (value_eq_result (=) v r \<longleftrightarrow> Inr v = r) \<and>
    (result_ne_value (\<noteq>) r v \<longleftrightarrow> r \<noteq> Inr v) \<and> (value_ne_result (\<noteq>) v r \<longleftrightarrow> Inr v \<noteq> r) \<and>
    (result_lt_value (<) r v \<longleftrightarrow> r < Inr v) \<and> (value_lt_result (<) v r \<longleftrightarrow> Inr v < r) \<and>
    (result_le_value (\<le>) r v \<longleftrightarrow> r \<le> Inr v) \<and> (value_le_result (\<le>) v r \<longleftrightarrow> Inr v \<le> r) \<and>
    (result_gt_value (>) r v \<longleftrightarrow> r > Inr v) \<and> (value_gt_result (>) v r \<longleftrightarrow> Inr v > r) \<and>
    (result_ge_value (\<ge>) r v \<longleftrightarrow> r \<ge> Inr v) \<and> (value_ge_result (\<ge>) v r \<longleftrightarrow> Inr v \<ge> r) \<and>
    (result_eq_failure (=) r f \<longleftrightarrow> r = Inl (failure_error f)) \<and>
    (failure_eq_result (=) f r \<longleftrightarrow> Inl (failure_error f) = r) \<and>
    (result_ne_failure (\<noteq>) r f \<longleftrightarrow> r \<noteq> Inl (failure_error f)) \<and>
    (failure_ne_result (\<noteq>) f r \<longleftrightarrow> Inl (failure_error f) \<noteq> r) \<and>
    (result_lt_failure (<) r f \<longleftrightarrow> r < Inl (failure_error f)) \<and>
    (failure_lt_result (<) f r \<longleftrightarrow> Inl (failure_error f) < r) \<and>
    (result_le_failure (\<le>) r f \<longleftrightarrow> r \<le> Inl (failure_error f)) \<and>
    (failure_le_result (\<le>) f r \<longleftrightarrow> Inl (failure_error f) \<le> r) \<and>
    (result_gt_failure (>) r f \<longleftrightarrow> r > Inl (failure_error f)) \<and>
    (failure_gt_result (>) f r \<longleftrightarrow> Inl (failure_error f) > r) \<and>
    (result_ge_failure (\<ge>) r f \<longleftrightarrow> r \<ge> Inl (failure_error f)) \<and>
    (failure_ge_result (\<ge>) f r \<longleftrightarrow> Inl (failure_error f) \<ge> r)"
  by (cases r) (auto simp: value_cmp_defs failure_cmp_defs hasError_def)

section \<open>The maps\<close>

lemma result_flatMap_and_then: "result_flatMap f r = and_then r f"
  by (cases r) (simp_all add: result_flatMap_def)

lemma result_simps [simp]:
  "result_flatMap f (Inr v) = f v" "result_flatMap f (Inl e) = Inl e"
  "result_map g (Inr v) = Inr (g v)" "result_map g (Inl e) = Inl e"
  "result_flatMapError h (Inr v) = Inr v" "result_flatMapError h (Inl e) = h e"
  "result_mapError k (Inr v) = Inr v" "result_mapError k (Inl e) = Inl (k e)"
  by (simp_all add: result_flatMap_def result_map_def result_flatMapError_def result_mapError_def
      hasError_def)

text \<open>\<open>flatMap\<close> is the monad of computations that stop at the first error, with the implicit
  constructor from a value as its unit; \<open>map\<close> is its map; \<open>flatMapError\<close> and \<open>mapError\<close> are the same
  on the error side, and the two sides do not interfere.\<close>

theorem result_monad:
  "result_flatMap f (result_of_value v) = f v \<and>
   result_flatMap result_of_value r = r \<and>
   result_flatMap g (result_flatMap f r) = result_flatMap (\<lambda>x. result_flatMap g (f x)) r \<and>
   result_map h r = result_flatMap (\<lambda>x. result_of_value (h x)) r \<and>
   result_flatMapError k (result_of_failure id x) = k (failure_error x) \<and>
   result_flatMapError (\<lambda>e. result_of_failure id (fail e)) r = r \<and>
   result_flatMapError k' (result_flatMapError k r) =
     result_flatMapError (\<lambda>e. result_flatMapError k' (k e)) r \<and>
   result_mapError m r = result_flatMapError (\<lambda>e. result_of_failure m (fail e)) r \<and>
   result_mapError m (result_map h r) = result_map h (result_mapError m r)"
  by (cases r) (simp_all add: result_of_value_def result_of_failure_def fail_def)

text \<open>The members of \<open>Result<void,E>\<close> are those of \<open>Result<T,E>\<close> at the unit type, and \<open>swap\<close>
  exchanges the two results, in each of its branches.\<close>

theorem void_result_and_swap:
  "void_flatMap f p = result_flatMap f p \<and> void_map g p = result_map g p \<and>
   void_flatMapError () h p = result_flatMapError h p \<and> void_mapError k p = result_mapError k p \<and>
   void_result_convert k r = result_map (\<lambda>_. ()) (result_mapError k r) \<and>
   result_swap r s = (s, r) \<and> void_swap p q = (q, p) \<and> failure_swap a b = (b, a)"
  by (cases r; cases s; cases p; cases q)
    (simp_all add: void_flatMap_def void_map_def void_flatMapError_def void_mapError_def hasError_def
       void_result_convert_def result_swap_def void_swap_def failure_swap_def)

end
