(* ===== verification/Optionals.thy ===== *)
theory Optionals
  imports Results "HOL-Library.Option_ord"
begin

text \<open>
  \<open>Optional<T>\<close> (\<open>core/Optional.hpp\<close>) as a value: an \<open>option\<close>.  As in \<open>Results\<close> the operators of the
  argument types are arguments of the comparisons.
\<close>

definition optional_convert :: "('t2 \<Rightarrow> 't1) \<Rightarrow> 't2 option \<Rightarrow> 't1 option" where
  "optional_convert conv rhs = (case rhs of Some v \<Rightarrow> Some (conv v) | None \<Rightarrow> None)"

definition optional_of_value :: "'t \<Rightarrow> 't option" where "optional_of_value v = Some v"

fun opt_hasValue :: "'t option \<Rightarrow> bool" where
  "opt_hasValue (Some _) = True" | "opt_hasValue None = False"

fun opt_value :: "'t option \<Rightarrow> 't" where "opt_value (Some v) = v"

definition opt_valueOr :: "'t option \<Rightarrow> 't \<Rightarrow> 't" where
  "opt_valueOr r d = (if opt_hasValue r then opt_value r else d)"

definition opt_flatMap :: "('t \<Rightarrow> 'u option) \<Rightarrow> 't option \<Rightarrow> 'u option" where
  "opt_flatMap f r = (if opt_hasValue r then f (opt_value r) else None)"

definition opt_map :: "('t \<Rightarrow> 'u) \<Rightarrow> 't option \<Rightarrow> 'u option" where
  "opt_map f r = (if opt_hasValue r then Some (f (opt_value r)) else None)"

section \<open>Comparison\<close>

definition opt_eq :: "('t1,'t2) cmp \<Rightarrow> 't1 option \<Rightarrow> 't2 option \<Rightarrow> bool" where
  "opt_eq eq lhs rhs =
     (if opt_hasValue lhs = opt_hasValue rhs then
        (if opt_hasValue lhs then eq (opt_value lhs) (opt_value rhs) else True)
      else False)"

definition opt_ne :: "('t1,'t2) cmp \<Rightarrow> 't1 option \<Rightarrow> 't2 option \<Rightarrow> bool" where
  "opt_ne ne lhs rhs =
     (if opt_hasValue lhs = opt_hasValue rhs then
        (if opt_hasValue lhs then ne (opt_value lhs) (opt_value rhs) else False)
      else True)"

definition opt_lt :: "('t1,'t2) cmp \<Rightarrow> 't1 option \<Rightarrow> 't2 option \<Rightarrow> bool" where
  "opt_lt lt lhs rhs =
     (if opt_hasValue lhs = opt_hasValue rhs then
        (if opt_hasValue lhs then lt (opt_value lhs) (opt_value rhs) else False)
      else flag (opt_hasValue lhs) < flag (opt_hasValue rhs))"

definition opt_le :: "('t1,'t2) cmp \<Rightarrow> 't1 option \<Rightarrow> 't2 option \<Rightarrow> bool" where
  "opt_le le lhs rhs =
     (if opt_hasValue lhs = opt_hasValue rhs then
        (if opt_hasValue lhs then le (opt_value lhs) (opt_value rhs) else True)
      else flag (opt_hasValue lhs) \<le> flag (opt_hasValue rhs))"

definition opt_gt :: "('t1,'t2) cmp \<Rightarrow> 't1 option \<Rightarrow> 't2 option \<Rightarrow> bool" where
  "opt_gt gt lhs rhs =
     (if opt_hasValue lhs = opt_hasValue rhs then
        (if opt_hasValue lhs then gt (opt_value lhs) (opt_value rhs) else False)
      else flag (opt_hasValue lhs) > flag (opt_hasValue rhs))"

definition opt_ge :: "('t1,'t2) cmp \<Rightarrow> 't1 option \<Rightarrow> 't2 option \<Rightarrow> bool" where
  "opt_ge ge lhs rhs =
     (if opt_hasValue lhs = opt_hasValue rhs then
        (if opt_hasValue lhs then ge (opt_value lhs) (opt_value rhs) else True)
      else flag (opt_hasValue lhs) \<ge> flag (opt_hasValue rhs))"

definition opt_eq_value :: "('t,'v) cmp \<Rightarrow> 't option \<Rightarrow> 'v \<Rightarrow> bool" where
  "opt_eq_value eq lhs rhs \<longleftrightarrow> opt_hasValue lhs \<and> eq (opt_value lhs) rhs"

definition value_eq_opt :: "('v,'t) cmp \<Rightarrow> 'v \<Rightarrow> 't option \<Rightarrow> bool" where
  "value_eq_opt eq lhs rhs \<longleftrightarrow> opt_hasValue rhs \<and> eq lhs (opt_value rhs)"

definition opt_ne_value :: "('t,'v) cmp \<Rightarrow> 't option \<Rightarrow> 'v \<Rightarrow> bool" where
  "opt_ne_value ne lhs rhs \<longleftrightarrow> \<not> opt_hasValue lhs \<or> ne (opt_value lhs) rhs"

definition value_ne_opt :: "('v,'t) cmp \<Rightarrow> 'v \<Rightarrow> 't option \<Rightarrow> bool" where
  "value_ne_opt ne lhs rhs \<longleftrightarrow> \<not> opt_hasValue rhs \<or> ne lhs (opt_value rhs)"

definition opt_lt_value :: "('t,'v) cmp \<Rightarrow> 't option \<Rightarrow> 'v \<Rightarrow> bool" where
  "opt_lt_value lt lhs rhs \<longleftrightarrow> \<not> opt_hasValue lhs \<or> lt (opt_value lhs) rhs"

definition value_lt_opt :: "('v,'t) cmp \<Rightarrow> 'v \<Rightarrow> 't option \<Rightarrow> bool" where
  "value_lt_opt lt lhs rhs \<longleftrightarrow> opt_hasValue rhs \<and> lt lhs (opt_value rhs)"

definition opt_le_value :: "('t,'v) cmp \<Rightarrow> 't option \<Rightarrow> 'v \<Rightarrow> bool" where
  "opt_le_value le lhs rhs \<longleftrightarrow> \<not> opt_hasValue lhs \<or> le (opt_value lhs) rhs"

definition value_le_opt :: "('v,'t) cmp \<Rightarrow> 'v \<Rightarrow> 't option \<Rightarrow> bool" where
  "value_le_opt le lhs rhs \<longleftrightarrow> opt_hasValue rhs \<and> le lhs (opt_value rhs)"

definition opt_gt_value :: "('t,'v) cmp \<Rightarrow> 't option \<Rightarrow> 'v \<Rightarrow> bool" where
  "opt_gt_value gt lhs rhs \<longleftrightarrow> opt_hasValue lhs \<and> gt (opt_value lhs) rhs"

definition value_gt_opt :: "('v,'t) cmp \<Rightarrow> 'v \<Rightarrow> 't option \<Rightarrow> bool" where
  "value_gt_opt gt lhs rhs \<longleftrightarrow> \<not> opt_hasValue rhs \<or> gt lhs (opt_value rhs)"

definition opt_ge_value :: "('t,'v) cmp \<Rightarrow> 't option \<Rightarrow> 'v \<Rightarrow> bool" where
  "opt_ge_value ge lhs rhs \<longleftrightarrow> opt_hasValue lhs \<and> ge (opt_value lhs) rhs"

definition value_ge_opt :: "('v,'t) cmp \<Rightarrow> 'v \<Rightarrow> 't option \<Rightarrow> bool" where
  "value_ge_opt ge lhs rhs \<longleftrightarrow> \<not> opt_hasValue rhs \<or> ge lhs (opt_value rhs)"

definition opt_swap :: "'t option \<Rightarrow> 't option \<Rightarrow> 't option \<times> 't option" where
  "opt_swap lhs rhs =
     (if opt_hasValue lhs = opt_hasValue rhs then
        (if opt_hasValue lhs then (Some (opt_value rhs), Some (opt_value lhs)) else (lhs, rhs))
      else (let tmp = lhs; lhs = rhs; rhs = tmp in (lhs, rhs)))"

lemmas opt_cmp_defs = opt_eq_def opt_ne_def opt_lt_def opt_le_def opt_gt_def opt_ge_def

lemmas opt_value_cmp_defs =
  opt_eq_value_def value_eq_opt_def opt_ne_value_def value_ne_opt_def
  opt_lt_value_def value_lt_opt_def opt_le_value_def value_le_opt_def
  opt_gt_value_def value_gt_opt_def opt_ge_value_def value_ge_opt_def

text \<open>The comparisons of \<open>Optional<T>\<close>, with another one or with a value on either side, are those
  of one linear order, in which the empty optional is below every value.\<close>

theorem optional_comparisons:
  fixes r s :: "'t::linorder option" and v :: 't
  shows "(opt_eq (=) r s \<longleftrightarrow> r = s) \<and> (opt_ne (\<noteq>) r s \<longleftrightarrow> r \<noteq> s) \<and> (opt_lt (<) r s \<longleftrightarrow> r < s) \<and>
    (opt_le (\<le>) r s \<longleftrightarrow> r \<le> s) \<and> (opt_gt (>) r s \<longleftrightarrow> r > s) \<and> (opt_ge (\<ge>) r s \<longleftrightarrow> r \<ge> s) \<and>
    (opt_eq_value (=) r v \<longleftrightarrow> r = Some v) \<and> (value_eq_opt (=) v r \<longleftrightarrow> Some v = r) \<and>
    (opt_ne_value (\<noteq>) r v \<longleftrightarrow> r \<noteq> Some v) \<and> (value_ne_opt (\<noteq>) v r \<longleftrightarrow> Some v \<noteq> r) \<and>
    (opt_lt_value (<) r v \<longleftrightarrow> r < Some v) \<and> (value_lt_opt (<) v r \<longleftrightarrow> Some v < r) \<and>
    (opt_le_value (\<le>) r v \<longleftrightarrow> r \<le> Some v) \<and> (value_le_opt (\<le>) v r \<longleftrightarrow> Some v \<le> r) \<and>
    (opt_gt_value (>) r v \<longleftrightarrow> r > Some v) \<and> (value_gt_opt (>) v r \<longleftrightarrow> Some v > r) \<and>
    (opt_ge_value (\<ge>) r v \<longleftrightarrow> r \<ge> Some v) \<and> (value_ge_opt (\<ge>) v r \<longleftrightarrow> Some v \<ge> r)"
  by (cases r; cases s) (auto simp: opt_cmp_defs opt_value_cmp_defs flag_def)

text \<open>\<open>map\<close> and \<open>flatMap\<close> of \<open>Optional<T>\<close> are those of the option monad, and \<open>swap\<close> exchanges the
  two optionals, in each of its branches.\<close>

theorem optional_maps:
  "opt_map f r = map_option f r \<and> opt_flatMap g r = Option.bind r g \<and>
   opt_valueOr r d = (case r of None \<Rightarrow> d | Some v \<Rightarrow> v) \<and>
   opt_map f (optional_convert c r) = opt_map (f \<circ> c) r \<and> opt_swap r s = (s, r)"
  by (cases r; cases s)
    (simp_all add: opt_map_def opt_flatMap_def opt_valueOr_def optional_convert_def opt_swap_def)

end
