(* ===== verification/Storage.thy ===== *)
theory Storage
  imports Optionals
begin

text \<open>
  How \<open>Result<T,E>\<close> and \<open>Optional<T>\<close> keep their value: the unions \<open>ResultAlt\<close> and \<open>OptionalAlt\<close> with the
  flag \<open>hasValue_\<close>, and the functions of \<open>ResultStorage\<close> and \<open>OptionalStorage\<close> that start and end the
  lifetime of a member.  A constructor or an assignment operator of the argument type is a function
  into \<open>option\<close>: \<open>None\<close> if it throws.  These functions take their arguments by reference, and a reference
  may name a member of the very object that is assigned to: a reference is a function from the storage to what
  is read through it at that time, \<open>None\<close> if it names a member that is not alive.  Reading through such a
  reference, reading a flag that was never set and ending the lifetime of a member that is not alive are undefined.
\<close>

section \<open>Lifetimes\<close>

datatype 's life = Undefined | Done 's | Raised 's

definition life_then :: "'s life \<Rightarrow> ('s \<Rightarrow> 's life) \<Rightarrow> 's life" where
  "life_then r f = (case r of Done s \<Rightarrow> f s | _ \<Rightarrow> r)"

lemma life_then_simps [simp]:
  "life_then Undefined f = Undefined" "life_then (Done s) f = f s" "life_then (Raised s) f = Raised s"
  by (simp_all add: life_then_def)

type_synonym ('s, 'v) reference = "'s \<Rightarrow> 'v option"

definition outside :: "'v \<Rightarrow> ('s, 'v) reference" where "outside v = (\<lambda>_. Some v)"

definition through :: "('s, 'u) reference \<Rightarrow> ('u \<Rightarrow> 'v option) \<Rightarrow> ('s, 'v) reference" where
  "through r member = (\<lambda>s. case r s of Some u \<Rightarrow> member u | None \<Rightarrow> None)"

lemma reference_simps [simp]:
  "outside v s = Some v" "through (outside u) member = (\<lambda>_. member u)" "through Some member = member"
  by (simp_all add: outside_def through_def)

section \<open>Result\<close>

datatype ('t, 'e) alt = ValueAlt 't | ErrorAlt 'e | NoAlt

record ('t, 'e) ResultAlt =
  alt :: "('t, 'e) alt"
  flag_set :: "bool option"  \<comment> \<open>\<open>hasValue_\<close>, \<open>None\<close> before the first write\<close>

definition ra_monostate :: "('t, 'e) ResultAlt" where
  "ra_monostate = \<lparr>alt = NoAlt, flag_set = None\<rparr>"

definition ra_value :: "'t \<Rightarrow> ('t, 'e) ResultAlt" where
  "ra_value v = \<lparr>alt = ValueAlt v, flag_set = Some True\<rparr>"

definition ra_error :: "'e \<Rightarrow> ('t, 'e) ResultAlt" where
  "ra_error e = \<lparr>alt = ErrorAlt e, flag_set = Some False\<rparr>"

text \<open>\<open>trivial\<close> tells the primary template, for trivially destructible types, from the partial
  specialisation.\<close>

definition ra_destroy :: "bool \<Rightarrow> ('t, 'e) ResultAlt \<Rightarrow> ('t, 'e) ResultAlt life" where
  "ra_destroy trivial s =
     (if trivial then Done s
      else
        (case flag_set s of
           None \<Rightarrow> Undefined
         | Some True \<Rightarrow>
             (case alt s of ValueAlt _ \<Rightarrow> Done \<lparr>alt = NoAlt, flag_set = Some False\<rparr> | _ \<Rightarrow> Undefined)
         | Some False \<Rightarrow>
             (case alt s of ErrorAlt _ \<Rightarrow> Done (s\<lparr>alt := NoAlt\<rparr>) | _ \<Rightarrow> Undefined)))"

text \<open>
  What the classes read of their storage: \<open>hasValue()\<close> and \<open>hasError()\<close>, undefined while the flag was never set, and
  \<open>operator*\<close>, \<open>value()\<close> and \<open>error()\<close>, which look at no flag and are undefined if the member is not alive.  The
  last two are also the references into the storage that a caller can get: \<open>r = r.error()\<close> passes
  \<open>ra_derefError\<close>.
\<close>

definition ra_hasValue :: "('t, 'e) ResultAlt \<Rightarrow> bool option" where "ra_hasValue s = flag_set s"

definition ra_hasError :: "('t, 'e) ResultAlt \<Rightarrow> bool option" where "ra_hasError s = map_option Not (flag_set s)"

definition ra_deref :: "('t, 'e) ResultAlt \<Rightarrow> 't option" where
  "ra_deref s = (case alt s of ValueAlt v \<Rightarrow> Some v | _ \<Rightarrow> None)"

definition ra_derefError :: "('t, 'e) ResultAlt \<Rightarrow> 'e option" where
  "ra_derefError s = (case alt s of ErrorAlt e \<Rightarrow> Some e | _ \<Rightarrow> None)"

text \<open>A construction reuses the storage, which ends the lifetime of what it held, before it reads its argument.\<close>

definition constructValue ::
    "('v \<Rightarrow> 't option) \<Rightarrow> (('t, 'e) ResultAlt, 'v) reference \<Rightarrow> ('t, 'e) ResultAlt \<Rightarrow> ('t, 'e) ResultAlt life" where
  "constructValue ct v s =
     (case v (s\<lparr>alt := NoAlt\<rparr>) of
        None \<Rightarrow> Undefined
      | Some x \<Rightarrow>
          (case ct x of
             None \<Rightarrow> Raised (s\<lparr>alt := NoAlt\<rparr>)
           | Some y \<Rightarrow> Done \<lparr>alt = ValueAlt y, flag_set = Some True\<rparr>))"

definition constructError ::
    "('x \<Rightarrow> 'e option) \<Rightarrow> (('t, 'e) ResultAlt, 'x) reference \<Rightarrow> ('t, 'e) ResultAlt \<Rightarrow> ('t, 'e) ResultAlt life" where
  "constructError ce x s =
     (case x (s\<lparr>alt := NoAlt\<rparr>) of
        None \<Rightarrow> Undefined
      | Some u \<Rightarrow>
          (case ce u of
             None \<Rightarrow> Raised (s\<lparr>alt := NoAlt\<rparr>)
           | Some e \<Rightarrow> Done \<lparr>alt = ErrorAlt e, flag_set = Some False\<rparr>))"

definition constructFromResult ::
    "('t2 \<Rightarrow> 't option) \<Rightarrow> ('e2 \<Rightarrow> 'e option) \<Rightarrow> (('t, 'e) ResultAlt, ('t2, 'e2) ResultAlt) reference \<Rightarrow>
     ('t, 'e) ResultAlt \<Rightarrow> ('t, 'e) ResultAlt life" where
  "constructFromResult ct ce r s =
     (case through r ra_hasValue s of
        None \<Rightarrow> Undefined
      | Some True \<Rightarrow> constructValue ct (through r ra_deref) s
      | Some False \<Rightarrow> constructError ce (through r ra_derefError) s)"

text \<open>\<open>Result<void,E>\<close> takes only the error of another result; its value is a \<open>monostate\<close>.\<close>

definition constructErrorFromResult ::
    "('e2 \<Rightarrow> 'e option) \<Rightarrow> ((unit, 'e) ResultAlt, ('t2, 'e2) ResultAlt) reference \<Rightarrow>
     (unit, 'e) ResultAlt \<Rightarrow> (unit, 'e) ResultAlt life" where
  "constructErrorFromResult ce r s =
     (case through r ra_hasValue s of
        None \<Rightarrow> Undefined
      | Some True \<Rightarrow> constructValue Some (outside ()) s
      | Some False \<Rightarrow> constructError ce (through r ra_derefError) s)"

text \<open>The assignment operators of the types take the old and the new value, both read while they are assigned.\<close>

definition assignToValue ::
    "('t \<Rightarrow> 'v \<Rightarrow> 't option) \<Rightarrow> (('t, 'e) ResultAlt, 'v) reference \<Rightarrow> ('t, 'e) ResultAlt \<Rightarrow>
     ('t, 'e) ResultAlt life" where
  "assignToValue asg v s =
     (case (ra_deref s, v s) of
        (Some old, Some x) \<Rightarrow>
          (case asg old x of None \<Rightarrow> Raised s | Some y \<Rightarrow> Done (s\<lparr>alt := ValueAlt y\<rparr>))
      | _ \<Rightarrow> Undefined)"

definition assignToError ::
    "('e \<Rightarrow> 'x \<Rightarrow> 'e option) \<Rightarrow> (('t, 'e) ResultAlt, 'x) reference \<Rightarrow> ('t, 'e) ResultAlt \<Rightarrow>
     ('t, 'e) ResultAlt life" where
  "assignToError asg x s =
     (case (ra_derefError s, x s) of
        (Some old, Some u) \<Rightarrow>
          (case asg old u of None \<Rightarrow> Raised s | Some e \<Rightarrow> Done (s\<lparr>alt := ErrorAlt e\<rparr>))
      | _ \<Rightarrow> Undefined)"

definition assignValue ::
    "bool \<Rightarrow> ('v \<Rightarrow> 't option) \<Rightarrow> ('t \<Rightarrow> 'v \<Rightarrow> 't option) \<Rightarrow> (('t, 'e) ResultAlt, 'v) reference \<Rightarrow>
     ('t, 'e) ResultAlt \<Rightarrow> ('t, 'e) ResultAlt life" where
  "assignValue trivial ct asg v s =
     (case flag_set s of
        None \<Rightarrow> Undefined
      | Some False \<Rightarrow> life_then (ra_destroy trivial s) (constructValue ct v)
      | Some True \<Rightarrow> assignToValue asg v s)"

definition assignError ::
    "bool \<Rightarrow> ('x \<Rightarrow> 'e option) \<Rightarrow> ('e \<Rightarrow> 'x \<Rightarrow> 'e option) \<Rightarrow> (('t, 'e) ResultAlt, 'x) reference \<Rightarrow>
     ('t, 'e) ResultAlt \<Rightarrow> ('t, 'e) ResultAlt life" where
  "assignError trivial ce asg x s =
     (case flag_set s of
        None \<Rightarrow> Undefined
      | Some True \<Rightarrow> life_then (ra_destroy trivial s) (constructError ce x)
      | Some False \<Rightarrow> assignToError asg x s)"

definition assignFromResult ::
    "bool \<Rightarrow> ('t2 \<Rightarrow> 't option) \<Rightarrow> ('e2 \<Rightarrow> 'e option) \<Rightarrow>
     ('t \<Rightarrow> 't2 \<Rightarrow> 't option) \<Rightarrow> ('e \<Rightarrow> 'e2 \<Rightarrow> 'e option) \<Rightarrow>
     (('t, 'e) ResultAlt, ('t2, 'e2) ResultAlt) reference \<Rightarrow> ('t, 'e) ResultAlt \<Rightarrow> ('t, 'e) ResultAlt life" where
  "assignFromResult trivial ct ce asgT asgE r s =
     (case (flag_set s, through r ra_hasValue s) of
        (Some a, Some b) \<Rightarrow>
          if a \<noteq> b then life_then (ra_destroy trivial s) (constructFromResult ct ce r)
          else if a then assignToValue asgT (through r ra_deref) s
          else assignToError asgE (through r ra_derefError) s
      | _ \<Rightarrow> Undefined)"

text \<open>
  The constructors from another result start from the empty member and fill the storage in their
  body: if that throws, the destructor of the storage runs before the exception leaves.
\<close>

definition unwind :: "('s \<Rightarrow> 's life) \<Rightarrow> 's life \<Rightarrow> 's life" where
  "unwind destroy r =
     (case r of Raised s \<Rightarrow> (case destroy s of Done s' \<Rightarrow> Raised s' | x \<Rightarrow> x) | x \<Rightarrow> x)"

definition ra_construct ::
    "bool \<Rightarrow> ('t2 \<Rightarrow> 't option) \<Rightarrow> ('e2 \<Rightarrow> 'e option) \<Rightarrow>
     (('t, 'e) ResultAlt, ('t2, 'e2) ResultAlt) reference \<Rightarrow> ('t, 'e) ResultAlt life" where
  "ra_construct trivial ct ce r =
     unwind (ra_destroy trivial) (constructFromResult ct ce r ra_monostate)"

definition void_ra_construct ::
    "bool \<Rightarrow> ('e2 \<Rightarrow> 'e option) \<Rightarrow> ((unit, 'e) ResultAlt, ('t2, 'e2) ResultAlt) reference \<Rightarrow>
     (unit, 'e) ResultAlt life" where
  "void_ra_construct trivial ce r =
     unwind (ra_destroy trivial) (constructErrorFromResult ce r ra_monostate)"

section \<open>Optional\<close>

record 't OptionalAlt =
  oalt :: "'t option"  \<comment> \<open>the member \<open>value_\<close> if it is alive\<close>
  oflag :: "bool option"

definition oa_monostate :: "'t OptionalAlt" where "oa_monostate = \<lparr>oalt = None, oflag = None\<rparr>"

definition oa_value :: "'t \<Rightarrow> 't OptionalAlt" where
  "oa_value v = \<lparr>oalt = Some v, oflag = Some True\<rparr>"

definition oa_empty :: "'t OptionalAlt" where "oa_empty = \<lparr>oalt = None, oflag = Some False\<rparr>"

definition oa_destroy :: "bool \<Rightarrow> 't OptionalAlt \<Rightarrow> 't OptionalAlt life" where
  "oa_destroy trivial s =
     (if trivial then Done s
      else
        (case oflag s of
           None \<Rightarrow> Undefined
         | Some True \<Rightarrow>
             (case oalt s of Some _ \<Rightarrow> Done \<lparr>oalt = None, oflag = Some False\<rparr> | None \<Rightarrow> Undefined)
         | Some False \<Rightarrow> Done s))"

definition oa_deref :: "'t OptionalAlt \<Rightarrow> 't option" where "oa_deref s = oalt s"

definition oa_constructValue ::
    "('v \<Rightarrow> 't option) \<Rightarrow> ('t OptionalAlt, 'v) reference \<Rightarrow> 't OptionalAlt \<Rightarrow> 't OptionalAlt life" where
  "oa_constructValue ct v s =
     (case v (s\<lparr>oalt := None\<rparr>) of
        None \<Rightarrow> Undefined
      | Some x \<Rightarrow>
          (case ct x of
             None \<Rightarrow> Raised (s\<lparr>oalt := None\<rparr>)
           | Some y \<Rightarrow> Done \<lparr>oalt = Some y, oflag = Some True\<rparr>))"

definition constructFromOptional ::
    "('t2 \<Rightarrow> 't option) \<Rightarrow> ('t OptionalAlt, 't2 OptionalAlt) reference \<Rightarrow> 't OptionalAlt \<Rightarrow>
     't OptionalAlt life" where
  "constructFromOptional ct r s =
     (case through r oflag s of
        None \<Rightarrow> Undefined
      | Some True \<Rightarrow> oa_constructValue ct (through r oa_deref) s
      | Some False \<Rightarrow> Done (s\<lparr>oflag := Some False\<rparr>))"

definition oa_assignToValue ::
    "('t \<Rightarrow> 'v \<Rightarrow> 't option) \<Rightarrow> ('t OptionalAlt, 'v) reference \<Rightarrow> 't OptionalAlt \<Rightarrow> 't OptionalAlt life" where
  "oa_assignToValue asg v s =
     (case (oa_deref s, v s) of
        (Some old, Some x) \<Rightarrow> (case asg old x of None \<Rightarrow> Raised s | Some y \<Rightarrow> Done (s\<lparr>oalt := Some y\<rparr>))
      | _ \<Rightarrow> Undefined)"

definition oa_assignValue ::
    "bool \<Rightarrow> ('v \<Rightarrow> 't option) \<Rightarrow> ('t \<Rightarrow> 'v \<Rightarrow> 't option) \<Rightarrow> ('t OptionalAlt, 'v) reference \<Rightarrow>
     't OptionalAlt \<Rightarrow> 't OptionalAlt life" where
  "oa_assignValue trivial ct asg v s =
     (case oflag s of
        None \<Rightarrow> Undefined
      | Some False \<Rightarrow> life_then (oa_destroy trivial s) (oa_constructValue ct v)
      | Some True \<Rightarrow> oa_assignToValue asg v s)"

definition assignFromOptional ::
    "bool \<Rightarrow> ('t2 \<Rightarrow> 't option) \<Rightarrow> ('t \<Rightarrow> 't2 \<Rightarrow> 't option) \<Rightarrow> ('t OptionalAlt, 't2 OptionalAlt) reference \<Rightarrow>
     't OptionalAlt \<Rightarrow> 't OptionalAlt life" where
  "assignFromOptional trivial ct asg r s =
     (case (oflag s, through r oflag s) of
        (Some a, Some b) \<Rightarrow>
          if a \<noteq> b then life_then (oa_destroy trivial s) (constructFromOptional ct r)
          else if a then oa_assignToValue asg (through r oa_deref) s
          else Done s
      | _ \<Rightarrow> Undefined)"

definition oa_construct ::
    "bool \<Rightarrow> ('t2 \<Rightarrow> 't option) \<Rightarrow> ('t OptionalAlt, 't2 OptionalAlt) reference \<Rightarrow> 't OptionalAlt life" where
  "oa_construct trivial ct r =
     unwind (oa_destroy trivial) (constructFromOptional ct r oa_monostate)"


section \<open>The value that a storage holds\<close>

definition ra_abs :: "('t, 'e) ResultAlt \<Rightarrow> ('e, 't) outcome option" where
  "ra_abs s =
     (case (flag_set s, alt s) of
        (Some True, ValueAlt v) \<Rightarrow> Some (Inr v)
      | (Some False, ErrorAlt e) \<Rightarrow> Some (Inl e)
      | _ \<Rightarrow> None)"

definition oa_abs :: "'t OptionalAlt \<Rightarrow> 't option option" where
  "oa_abs s =
     (case (oflag s, oalt s) of
        (Some True, Some v) \<Rightarrow> Some (Some v)
      | (Some False, _) \<Rightarrow> Some None
      | _ \<Rightarrow> None)"

lemma ra_abs_value: "ra_abs s = Some (Inr v) \<longleftrightarrow> flag_set s = Some True \<and> alt s = ValueAlt v"
  and ra_abs_error: "ra_abs s = Some (Inl e) \<longleftrightarrow> flag_set s = Some False \<and> alt s = ErrorAlt e"
  by (auto simp: ra_abs_def split: option.splits bool.splits alt.splits)

lemma oa_abs_value: "oa_abs s = Some (Some v) \<longleftrightarrow> oflag s = Some True \<and> oalt s = Some v"
  and oa_abs_empty: "oa_abs s = Some None \<longleftrightarrow> oflag s = Some False"
  by (auto simp: oa_abs_def split: option.splits bool.splits)

text \<open>
  The functions that look before they read: of a storage that holds a value or an error, they read the member that is
  alive, and give what the functions of the values give.
\<close>

definition ra_valueOr :: "('t, 'e) ResultAlt \<Rightarrow> 't \<Rightarrow> 't option" where
  "ra_valueOr s d = Option.bind (ra_hasValue s) (\<lambda>b. if b then ra_deref s else Some d)"

definition ra_errorOr :: "('t, 'e) ResultAlt \<Rightarrow> 'e \<Rightarrow> 'e option" where
  "ra_errorOr s d = Option.bind (ra_hasValue s) (\<lambda>b. if \<not> b then ra_derefError s else Some d)"

lemma ra_reads:
  assumes "ra_abs s = Some r"
  shows "ra_hasValue s = Some (hasValue r)" and "ra_hasError s = Some (hasError r)"
    and "hasValue r \<Longrightarrow> ra_deref s = Some (result_value r)" and "hasError r \<Longrightarrow> ra_derefError s = Some (result_error r)"
    and "ra_deref s \<noteq> None \<longleftrightarrow> hasValue r" and "ra_derefError s \<noteq> None \<longleftrightarrow> hasError r"
    and "ra_valueOr s v = Some (valueOr r v)" and "ra_errorOr s e = Some (errorOr r e)"
  using assms
  by (cases r; auto simp: ra_abs_value ra_abs_error ra_hasValue_def ra_hasError_def ra_deref_def ra_derefError_def
      ra_valueOr_def ra_errorOr_def valueOr_def errorOr_def hasError_def)+

lemma oa_reads:
  assumes "oa_abs s = Some r"
  shows "oflag s = Some (opt_hasValue r)" and "opt_hasValue r \<Longrightarrow> oa_deref s = Some (opt_value r)"
  using assms by (cases r; auto simp: oa_abs_value oa_abs_empty oa_deref_def)+

lemmas ra_defs =
  ra_construct_def unwind_def constructFromResult_def constructValue_def constructError_def
  assignFromResult_def assignValue_def assignError_def assignToValue_def assignToError_def
  ra_destroy_def ra_hasValue_def ra_deref_def ra_derefError_def

lemmas oa_defs =
  oa_construct_def unwind_def constructFromOptional_def oa_constructValue_def assignFromOptional_def
  oa_assignValue_def oa_assignToValue_def oa_destroy_def oa_deref_def

lemma ra_refines:
  assumes s: "ra_abs s = Some y" and r: "ra_abs r = Some x"
  shows "\<exists>s'. ra_construct trivial (Some \<circ> f) (Some \<circ> g) (outside r) = Done s' \<and>
      ra_abs s' = Some (result_convert f g x)"
    and "\<exists>s'. assignFromResult trivial (Some \<circ> f) (Some \<circ> g) (\<lambda>_. Some \<circ> f) (\<lambda>_. Some \<circ> g) (outside r) s = Done s' \<and>
      ra_abs s' = Some (result_convert f g x)"
    and "\<exists>s'. assignValue trivial (Some \<circ> h) (\<lambda>_. Some \<circ> h) (outside v) s = Done s' \<and> ra_abs s' = Some (Inr (h v))"
    and "\<exists>s'. assignError trivial (Some \<circ> k) (\<lambda>_. Some \<circ> k) (outside e) s = Done s' \<and> ra_abs s' = Some (Inl (k e))"
    and "\<exists>s'. ra_destroy trivial s = Done s'"
    and "\<exists>s'. assignFromResult trivial Some Some (\<lambda>_. Some) (\<lambda>_. Some) Some s = Done s' \<and> ra_abs s' = Some y"
proof -
  have sc: "(\<exists>v. flag_set s = Some True \<and> alt s = ValueAlt v) \<or>
      (\<exists>e. flag_set s = Some False \<and> alt s = ErrorAlt e)"
    using s by (cases y) (auto simp: ra_abs_value ra_abs_error)
  have rc: "(\<exists>v. flag_set r = Some True \<and> alt r = ValueAlt v \<and> x = Inr v) \<or>
      (\<exists>e. flag_set r = Some False \<and> alt r = ErrorAlt e \<and> x = Inl e)"
    using r by (cases x) (auto simp: ra_abs_value ra_abs_error)
  show "\<exists>s'. ra_construct trivial (Some \<circ> f) (Some \<circ> g) (outside r) = Done s' \<and>
      ra_abs s' = Some (result_convert f g x)"
    using rc by (auto simp: ra_defs result_convert_def ra_abs_def)
  show "\<exists>s'. assignFromResult trivial (Some \<circ> f) (Some \<circ> g) (\<lambda>_. Some \<circ> f) (\<lambda>_. Some \<circ> g) (outside r) s = Done s' \<and>
      ra_abs s' = Some (result_convert f g x)"
    using sc rc by (auto simp: ra_defs result_convert_def ra_abs_def)
  show "\<exists>s'. assignValue trivial (Some \<circ> h) (\<lambda>_. Some \<circ> h) (outside v) s = Done s' \<and> ra_abs s' = Some (Inr (h v))"
    using sc by (auto simp: ra_defs ra_abs_def)
  show "\<exists>s'. assignError trivial (Some \<circ> k) (\<lambda>_. Some \<circ> k) (outside e) s = Done s' \<and> ra_abs s' = Some (Inl (k e))"
    using sc by (auto simp: ra_defs ra_abs_def)
  show "\<exists>s'. ra_destroy trivial s = Done s'"
    using sc by (auto simp: ra_defs)
  show "\<exists>s'. assignFromResult trivial Some Some (\<lambda>_. Some) (\<lambda>_. Some) Some s = Done s' \<and> ra_abs s' = Some y"
    using s by (cases y) (auto simp: ra_defs ra_abs_value ra_abs_error)
qed

lemma oa_refines:
  assumes s: "oa_abs s = Some y" and r: "oa_abs r = Some x"
  shows "\<exists>s'. oa_construct trivial (Some \<circ> f) (outside r) = Done s' \<and> oa_abs s' = Some (opt_map f x)"
    and "\<exists>s'. assignFromOptional trivial (Some \<circ> f) (\<lambda>_. Some \<circ> f) (outside r) s = Done s' \<and>
      oa_abs s' = Some (opt_map f x)"
    and "\<exists>s'. oa_assignValue trivial (Some \<circ> h) (\<lambda>_. Some \<circ> h) (outside v) s = Done s' \<and>
      oa_abs s' = Some (Some (h v))"
    and "\<exists>s'. oa_destroy trivial s = Done s'"
    and "\<exists>s'. assignFromOptional trivial Some (\<lambda>_. Some) Some s = Done s' \<and> oa_abs s' = Some y"
proof -
  have sc: "(\<exists>v. oflag s = Some True \<and> oalt s = Some v) \<or> oflag s = Some False"
    using s by (cases y) (auto simp: oa_abs_value oa_abs_empty)
  have rc: "(\<exists>v. oflag r = Some True \<and> oalt r = Some v \<and> x = Some v) \<or> oflag r = Some False \<and> x = None"
    using r by (cases x) (auto simp: oa_abs_value oa_abs_empty)
  show "\<exists>s'. oa_construct trivial (Some \<circ> f) (outside r) = Done s' \<and> oa_abs s' = Some (opt_map f x)"
    using rc by (auto simp: oa_defs oa_abs_def opt_map_def)
  show "\<exists>s'. assignFromOptional trivial (Some \<circ> f) (\<lambda>_. Some \<circ> f) (outside r) s = Done s' \<and>
      oa_abs s' = Some (opt_map f x)"
    using sc rc by (auto simp: oa_defs oa_abs_def opt_map_def)
  show "\<exists>s'. oa_assignValue trivial (Some \<circ> h) (\<lambda>_. Some \<circ> h) (outside v) s = Done s' \<and>
      oa_abs s' = Some (Some (h v))"
    using sc by (auto simp: oa_defs oa_abs_def)
  show "\<exists>s'. oa_destroy trivial s = Done s'"
    using sc by (auto simp: oa_defs)
  show "\<exists>s'. assignFromOptional trivial Some (\<lambda>_. Some) Some s = Done s' \<and> oa_abs s' = Some y"
    using s by (cases y) (auto simp: oa_defs oa_abs_value oa_abs_empty)
qed

section \<open>The life of an object\<close>

text \<open>
  An object whose steps all succeed and keep its invariant, and whose destructor succeeds under the
  invariant, lives and dies without undefined behaviour.
\<close>

locale lifetime =
  fixes inv :: "'s \<Rightarrow> bool"
    and step :: "'op \<Rightarrow> 's \<Rightarrow> 's life"
    and good :: "'op \<Rightarrow> bool"
    and destroy :: "'s \<Rightarrow> 's life"
  assumes step_done: "inv s \<Longrightarrow> good op \<Longrightarrow> \<exists>s'. step op s = Done s' \<and> inv s'"
    and destroy_done: "inv s \<Longrightarrow> \<exists>s'. destroy s = Done s'"
begin

lemma steps_done:
  "inv s \<Longrightarrow> \<forall>op \<in> set ops. good op \<Longrightarrow>
    \<exists>s'. fold (\<lambda>op r. life_then r (step op)) ops (Done s) = Done s' \<and> inv s'"
proof (induction ops arbitrary: s)
  case (Cons op ops)
  then obtain s' where "step op s = Done s'" "inv s'" using step_done by fastforce
  with Cons show ?case by simp
qed simp

lemma life_done:
  assumes "inv s" and "\<forall>op \<in> set ops. good op"
  shows "\<exists>s'. life_then (fold (\<lambda>op r. life_then r (step op)) ops (Done s)) destroy = Done s'"
  using steps_done [OF assms] destroy_done by fastforce

end

text \<open>
  A reference into the member that an assignment destroys is read after its life has ended: assigning the error of a
  result as its value, or its value as its error, is undefined whether the destructors are trivial or not.
\<close>

lemma own_member_dangles:
  shows "assignValue trivial ct asg ra_derefError s = Undefined"
    and "assignError trivial ce asgE ra_deref s = Undefined"
  by (auto simp: ra_defs split: option.splits bool.splits alt.splits)

text \<open>The assignments to a result, by operations that do not throw, of what is outside of it and of itself.\<close>

datatype ('t, 'e) result_op = SetValue 't | SetError 'e | SetResult "('t, 'e) ResultAlt" | SetItself

fun result_step :: "bool \<Rightarrow> ('t, 'e) result_op \<Rightarrow> ('t, 'e) ResultAlt \<Rightarrow> ('t, 'e) ResultAlt life" where
  "result_step trivial (SetValue v) s = assignValue trivial Some (\<lambda>_. Some) (outside v) s"
| "result_step trivial (SetError e) s = assignError trivial Some (\<lambda>_. Some) (outside e) s"
| "result_step trivial (SetResult r) s =
     assignFromResult trivial Some Some (\<lambda>_. Some) (\<lambda>_. Some) (outside r) s"
| "result_step trivial SetItself s =
     assignFromResult trivial Some Some (\<lambda>_. Some) (\<lambda>_. Some) Some s"

fun good_result_op :: "('t, 'e) result_op \<Rightarrow> bool" where
  "good_result_op (SetResult r) \<longleftrightarrow> ra_abs r \<noteq> None" | "good_result_op _ \<longleftrightarrow> True"

datatype 't optional_op = SetOptionalValue 't | SetOptional "'t OptionalAlt" | SetOptionalItself

fun optional_step :: "bool \<Rightarrow> 't optional_op \<Rightarrow> 't OptionalAlt \<Rightarrow> 't OptionalAlt life" where
  "optional_step trivial (SetOptionalValue v) s = oa_assignValue trivial Some (\<lambda>_. Some) (outside v) s"
| "optional_step trivial (SetOptional r) s = assignFromOptional trivial Some (\<lambda>_. Some) (outside r) s"
| "optional_step trivial SetOptionalItself s = assignFromOptional trivial Some (\<lambda>_. Some) Some s"

fun good_optional_op :: "'t optional_op \<Rightarrow> bool" where
  "good_optional_op (SetOptional r) \<longleftrightarrow> oa_abs r \<noteq> None" | "good_optional_op _ \<longleftrightarrow> True"

interpretation result_life: lifetime "\<lambda>s. ra_abs s \<noteq> None" "result_step trivial" good_result_op
  "ra_destroy trivial" for trivial
proof
  fix s :: "('t, 'e) ResultAlt" and op :: "('t, 'e) result_op"
  assume "ra_abs s \<noteq> None" and op: "good_result_op op"
  then obtain y where y: "ra_abs s = Some y" by blast
  show "\<exists>s'. result_step trivial op s = Done s' \<and> ra_abs s' \<noteq> None"
  proof (cases op)
    case (SetValue v)
    then show ?thesis using ra_refines(3) [OF y y, of trivial id v] by (auto simp: comp_def)
  next
    case (SetError e)
    then show ?thesis using ra_refines(4) [OF y y, of trivial id e] by (auto simp: comp_def)
  next
    case (SetResult r)
    then obtain x where x: "ra_abs r = Some x" using op by auto
    from ra_refines(2) [OF y x, of trivial id id] SetResult show ?thesis by (auto simp: comp_def)
  next
    case SetItself
    with ra_refines(6) [OF y y, of trivial] show ?thesis by auto
  qed
next
  fix s :: "('t, 'e) ResultAlt"
  assume "ra_abs s \<noteq> None"
  then obtain y where "ra_abs s = Some y" by blast
  from ra_refines(5) [OF this this] show "\<exists>s'. ra_destroy trivial s = Done s'" .
qed

interpretation optional_life: lifetime "\<lambda>s. oa_abs s \<noteq> None" "optional_step trivial" good_optional_op
  "oa_destroy trivial" for trivial
proof
  fix s :: "'t OptionalAlt" and op :: "'t optional_op"
  assume "oa_abs s \<noteq> None" and op: "good_optional_op op"
  then obtain y where y: "oa_abs s = Some y" by blast
  show "\<exists>s'. optional_step trivial op s = Done s' \<and> oa_abs s' \<noteq> None"
  proof (cases op)
    case (SetOptionalValue v)
    then show ?thesis using oa_refines(3) [OF y y, of trivial id v] by (auto simp: comp_def)
  next
    case (SetOptional r)
    then obtain x where x: "oa_abs r = Some x" using op by auto
    from oa_refines(2) [OF y x, of trivial id] SetOptional show ?thesis by (auto simp: comp_def)
  next
    case SetOptionalItself
    with oa_refines(5) [OF y y, of trivial] show ?thesis by auto
  qed
next
  fix s :: "'t OptionalAlt"
  assume "oa_abs s \<noteq> None"
  then obtain y where "oa_abs s = Some y" by blast
  from oa_refines(4) [OF this this] show "\<exists>s'. oa_destroy trivial s = Done s'" .
qed

text \<open>The storage of a result refines its value: with constructors and assignment operators that do
  not throw, the constructor and the assignment from another result give the converted result, the
  assignment of a value and of a failure give that value and that error, and nothing is undefined.\<close>

theorem result_storage_refines:
  assumes "ra_abs s = Some y" and "ra_abs r = Some x"
  shows "(\<exists>s'. ra_construct trivial (Some \<circ> f) (Some \<circ> g) (outside r) = Done s' \<and>
      ra_abs s' = Some (result_convert f g x)) \<and>
    (\<exists>s'. assignFromResult trivial (Some \<circ> f) (Some \<circ> g) (\<lambda>_. Some \<circ> f) (\<lambda>_. Some \<circ> g) (outside r) s = Done s' \<and>
      ra_abs s' = Some (result_convert f g x)) \<and>
    (\<exists>s'. assignValue trivial (Some \<circ> h) (\<lambda>_. Some \<circ> h) (outside v) s = Done s' \<and>
      ra_abs s' = Some (result_of_value (h v))) \<and>
    (\<exists>s'. assignError trivial (Some \<circ> k) (\<lambda>_. Some \<circ> k) (outside e) s = Done s' \<and>
      ra_abs s' = Some (result_of_failure k (fail e)))"
  unfolding result_of_value_def result_of_failure_def fail_def Failure.sel
  by (intro conjI ra_refines [OF assms])

lemma result_storage_refines_witness:
  "\<exists>s'. assignFromResult False (Some \<circ> Suc) (Some \<circ> id) (\<lambda>_. Some \<circ> Suc) (\<lambda>_. Some \<circ> id)
      (outside (ra_value 3)) (ra_error True) = Done s' \<and> ra_abs s' = Some (result_convert Suc id (Inr 3))"
  by (rule result_storage_refines [THEN conjunct2, THEN conjunct1])
    (simp_all add: ra_abs_def ra_value_def ra_error_def)

text \<open>The same for the storage of an optional.\<close>

theorem optional_storage_refines:
  assumes "oa_abs s = Some y" and "oa_abs r = Some x"
  shows "(\<exists>s'. oa_construct trivial (Some \<circ> f) (outside r) = Done s' \<and>
      oa_abs s' = Some (opt_map f x)) \<and>
    (\<exists>s'. assignFromOptional trivial (Some \<circ> f) (\<lambda>_. Some \<circ> f) (outside r) s = Done s' \<and>
      oa_abs s' = Some (opt_map f x)) \<and>
    (\<exists>s'. oa_assignValue trivial (Some \<circ> h) (\<lambda>_. Some \<circ> h) (outside v) s = Done s' \<and> oa_abs s' = Some (Some (h v)))"
  by (intro conjI oa_refines [OF assms])

lemma optional_storage_refines_witness:
  "\<exists>s'. assignFromOptional False (Some \<circ> Suc) (\<lambda>_. Some \<circ> Suc) (outside (oa_value 3)) oa_empty = Done s' \<and>
     oa_abs s' = Some (opt_map Suc (Some 3))"
  by (rule optional_storage_refines [THEN conjunct2, THEN conjunct1])
    (simp_all add: oa_abs_def oa_value_def oa_empty_def)

text \<open>C37: A result or an optional that is assigned any number of values, failures and other results or
  optionals that lie outside of it, or itself, by operations that do not throw, and then destroyed goes through no
  undefined operation: every member that is alive is destroyed once, and nothing else is.  The assignment of the
  result's own error as its value, and of its own value as its error, is undefined: the member is destroyed before
  the construction reads it.\<close>

theorem storage_lives:
  assumes "ra_abs s \<noteq> None" and "\<forall>op \<in> set ops. good_result_op op"
    and "oa_abs t \<noteq> None" and "\<forall>op \<in> set opts. good_optional_op op"
  shows "(\<exists>s'. life_then (fold (\<lambda>op r. life_then r (result_step trivial op)) ops (Done s))
        (ra_destroy trivial) = Done s') \<and>
    (\<exists>t'. life_then (fold (\<lambda>op r. life_then r (optional_step trivial op)) opts (Done t))
        (oa_destroy trivial) = Done t') \<and>
    assignValue trivial ct asg ra_derefError s = Undefined \<and>
    assignError trivial ce asgE ra_deref s = Undefined"
  using result_life.life_done [OF assms(1,2)] optional_life.life_done [OF assms(3,4)] own_member_dangles by blast

lemma storage_lives_witness:
  "\<exists>s'. life_then (fold (\<lambda>op r. life_then r (result_step False op))
      [SetError True, SetValue (1::nat), SetResult (ra_error False), SetItself] (Done (ra_value 0)))
      (ra_destroy False) = Done s'"
  by (rule storage_lives [THEN conjunct1, of _ _ "oa_empty :: nat OptionalAlt" "[]"])
    (simp_all add: ra_abs_def oa_abs_def ra_value_def ra_error_def oa_empty_def)

text \<open>A constructor that throws breaks a result of types with destructors.  Where the result holds
  an error and the construction of the value that is assigned throws, or the other way round, the
  object is left with no member alive and a flag that says that the error is, so its destructor is
  undefined.  A construction from another result that throws destroys a storage whose flag was
  never set.\<close>

theorem result_storage_throws:
  assumes "ct v = None" and "ce e = None" and "ra_abs s = Some y" and "hasValue y = b"
    and "ra_abs r = Some (Inr v)" and "ra_abs q = Some (Inl e)"
  shows "(\<not> b \<longrightarrow> (\<exists>s'. assignValue False ct asg (outside v) s = Raised s' \<and> ra_destroy False s' = Undefined)) \<and>
    (b \<longrightarrow> (\<exists>s'. assignError False ce asgE (outside e) s = Raised s' \<and> ra_destroy False s' = Undefined)) \<and>
    ra_construct False ct ce (outside r) = Undefined \<and> ra_construct False ct ce (outside q) = Undefined"
proof -
  have "(\<exists>u. flag_set s = Some True \<and> alt s = ValueAlt u \<and> b) \<or>
      (\<exists>u. flag_set s = Some False \<and> alt s = ErrorAlt u \<and> \<not> b)"
    using assms(3,4) by (cases y) (auto simp: ra_abs_value ra_abs_error)
  with assms(1,2,5,6) show ?thesis
    by (auto simp: ra_defs ra_abs_value ra_abs_error ra_monostate_def)
qed

lemma result_storage_throws_witness:
  "\<exists>s'. assignValue False (\<lambda>_. None) (\<lambda>_ _. None) (outside (7::nat)) (ra_error True :: (nat, bool) ResultAlt) =
      Raised s' \<and> ra_destroy False s' = Undefined"
  by (rule result_storage_throws [THEN conjunct1, THEN mp, of "\<lambda>_. None" 7 "\<lambda>_. None" True _ "Inl True"
        False "ra_value 7" "ra_error True"])
    (simp_all add: ra_abs_def ra_value_def ra_error_def)

text \<open>The assignments of an optional survive a constructor that throws: the optional is empty
  afterwards and can be destroyed.  Its construction from another optional does not.\<close>

theorem optional_storage_throws:
  assumes "ct v = None" and "oa_abs s = Some None" and "oa_abs r = Some (Some v)"
  shows "(\<exists>s'. oa_assignValue trivial ct asg (outside v) s = Raised s' \<and> oa_abs s' = Some None \<and>
      oa_destroy trivial s' = Done s') \<and>
    (\<exists>s'. assignFromOptional trivial ct asg (outside r) s = Raised s' \<and> oa_abs s' = Some None \<and>
      oa_destroy trivial s' = Done s') \<and>
    oa_construct False ct (outside r) = Undefined"
  using assms by (auto simp: oa_defs oa_abs_value oa_abs_empty oa_monostate_def)

lemma optional_storage_throws_witness:
  "\<exists>s'. oa_assignValue False (\<lambda>_. None) (\<lambda>_ _. None) (outside (7::nat)) (oa_empty :: nat OptionalAlt) = Raised s' \<and>
     oa_abs s' = Some None \<and> oa_destroy False s' = Done s'"
  by (rule optional_storage_throws [THEN conjunct1, of _ _ _ "oa_value 7"])
    (simp_all add: oa_abs_def oa_value_def oa_empty_def)

end
