(* ===== verification/TypeTraits.thy ===== *)
theory TypeTraits
  imports Prelude
begin

text \<open>
  The concepts of \<open>core/TypeUtils.hpp\<close> over the type traits of the standard library, and the special
  member functions of \<open>ResultStorage\<close> (\<open>core/Result.hpp\<close>) and \<open>OptionalStorage\<close>
  (\<open>core/Optional.hpp\<close>) that the concepts select: a declaration takes part in overload resolution if
  its \<open>requires\<close> clause holds.
\<close>

section \<open>Types and traits\<close>

text \<open>A type is known by the answers of the traits.\<close>

record type_traits =
  is_destructible :: bool
  is_trivially_destructible :: bool
  is_copy_constructible :: bool
  is_trivially_copy_constructible :: bool
  is_move_constructible :: bool
  is_trivially_move_constructible :: bool
  is_copy_assignable :: bool
  is_trivially_copy_assignable :: bool
  is_move_assignable :: bool
  is_trivially_move_assignable :: bool

text \<open>A trait \<open>is_trivially_x\<close> of the standard library holds of types with \<open>is_x\<close> only.\<close>

definition coherent :: "type_traits \<Rightarrow> bool" where
  "coherent t \<longleftrightarrow>
     (is_trivially_destructible t \<longrightarrow> is_destructible t) \<and>
     (is_trivially_copy_constructible t \<longrightarrow> is_copy_constructible t) \<and>
     (is_trivially_move_constructible t \<longrightarrow> is_move_constructible t) \<and>
     (is_trivially_copy_assignable t \<longrightarrow> is_copy_assignable t) \<and>
     (is_trivially_move_assignable t \<longrightarrow> is_move_assignable t)"

datatype int_type = I8 | I16 | I32 | I64 | U8 | U16 | U32 | U64 | OtherType

definition IsOneOf :: "'a \<Rightarrow> 'a list \<Rightarrow> bool" where
  "IsOneOf t ts \<longleftrightarrow> t \<in> set ts"

text \<open>\<open>unsigned\<close> and \<open>int\<close> are the 32-bit types.\<close>

definition IsUInt :: "int_type \<Rightarrow> bool" where "IsUInt t = IsOneOf t [U8, U16, U32, U64, U32]"

definition IsSInt :: "int_type \<Rightarrow> bool" where "IsSInt t = IsOneOf t [I8, I16, I32, I64, I32]"

definition AllDestructible :: "type_traits list \<Rightarrow> bool" where
  "AllDestructible ts = list_all is_destructible ts"

definition AllTriviallyDestructible :: "type_traits list \<Rightarrow> bool" where
  "AllTriviallyDestructible ts = list_all is_trivially_destructible ts"

definition SomeNotTriviallyDestructible :: "type_traits list \<Rightarrow> bool" where
  "SomeNotTriviallyDestructible ts \<longleftrightarrow>
     list_all is_destructible ts \<and> list_ex (\<lambda>t. \<not> is_trivially_destructible t) ts"

definition SomeNotDestructible :: "type_traits list \<Rightarrow> bool" where
  "SomeNotDestructible ts = list_ex (\<lambda>t. \<not> is_destructible t) ts"

definition AllCopyConstructible :: "type_traits list \<Rightarrow> bool" where
  "AllCopyConstructible ts = list_all is_copy_constructible ts"

definition AllTriviallyCopyConstructible :: "type_traits list \<Rightarrow> bool" where
  "AllTriviallyCopyConstructible ts = list_all is_trivially_copy_constructible ts"

definition SomeNotTriviallyCopyConstructible :: "type_traits list \<Rightarrow> bool" where
  "SomeNotTriviallyCopyConstructible ts \<longleftrightarrow>
     list_all is_copy_constructible ts \<and> list_ex (\<lambda>t. \<not> is_trivially_copy_constructible t) ts"

definition SomeNotCopyConstructible :: "type_traits list \<Rightarrow> bool" where
  "SomeNotCopyConstructible ts = list_ex (\<lambda>t. \<not> is_copy_constructible t) ts"

definition AllMoveConstructible :: "type_traits list \<Rightarrow> bool" where
  "AllMoveConstructible ts = list_all is_move_constructible ts"

definition AllTriviallyMoveConstructible :: "type_traits list \<Rightarrow> bool" where
  "AllTriviallyMoveConstructible ts = list_all is_trivially_move_constructible ts"

definition SomeNotTriviallyMoveConstructible :: "type_traits list \<Rightarrow> bool" where
  "SomeNotTriviallyMoveConstructible ts \<longleftrightarrow>
     list_all is_move_constructible ts \<and> list_ex (\<lambda>t. \<not> is_trivially_move_constructible t) ts"

definition SomeNotMoveConstructible :: "type_traits list \<Rightarrow> bool" where
  "SomeNotMoveConstructible ts = list_ex (\<lambda>t. \<not> is_move_constructible t) ts"

definition AllTriviallyCopyAssignable :: "type_traits list \<Rightarrow> bool" where
  "AllTriviallyCopyAssignable ts = list_all is_trivially_copy_assignable ts"

definition SomeNotTriviallyCopyAssignable :: "type_traits list \<Rightarrow> bool" where
  "SomeNotTriviallyCopyAssignable ts \<longleftrightarrow>
     list_all is_copy_assignable ts \<and> list_ex (\<lambda>t. \<not> is_trivially_copy_assignable t) ts"

definition SomeNotCopyAssignable :: "type_traits list \<Rightarrow> bool" where
  "SomeNotCopyAssignable ts = list_ex (\<lambda>t. \<not> is_copy_assignable t) ts"

definition AllTriviallyMoveAssignable :: "type_traits list \<Rightarrow> bool" where
  "AllTriviallyMoveAssignable ts = list_all is_trivially_move_assignable ts"

definition SomeNotTriviallyMoveAssignable :: "type_traits list \<Rightarrow> bool" where
  "SomeNotTriviallyMoveAssignable ts \<longleftrightarrow>
     list_all is_move_assignable ts \<and> list_ex (\<lambda>t. \<not> is_trivially_move_assignable t) ts"

definition SomeNotMoveAssignable :: "type_traits list \<Rightarrow> bool" where
  "SomeNotMoveAssignable ts = list_ex (\<lambda>t. \<not> is_move_assignable t) ts"

lemmas concept_defs =
  AllDestructible_def AllTriviallyDestructible_def SomeNotTriviallyDestructible_def
  SomeNotDestructible_def AllCopyConstructible_def AllTriviallyCopyConstructible_def
  SomeNotTriviallyCopyConstructible_def SomeNotCopyConstructible_def AllMoveConstructible_def
  AllTriviallyMoveConstructible_def SomeNotTriviallyMoveConstructible_def
  SomeNotMoveConstructible_def AllTriviallyCopyAssignable_def SomeNotTriviallyCopyAssignable_def
  SomeNotCopyAssignable_def AllTriviallyMoveAssignable_def SomeNotTriviallyMoveAssignable_def
  SomeNotMoveAssignable_def

lemma concept_atoms:
  "SomeNotDestructible ts \<longleftrightarrow> \<not> AllDestructible ts"
  "SomeNotCopyConstructible ts \<longleftrightarrow> \<not> AllCopyConstructible ts"
  "SomeNotMoveConstructible ts \<longleftrightarrow> \<not> AllMoveConstructible ts"
  "SomeNotTriviallyDestructible ts \<longleftrightarrow> AllDestructible ts \<and> \<not> AllTriviallyDestructible ts"
  "SomeNotTriviallyCopyConstructible ts \<longleftrightarrow>
     AllCopyConstructible ts \<and> \<not> AllTriviallyCopyConstructible ts"
  "SomeNotTriviallyMoveConstructible ts \<longleftrightarrow>
     AllMoveConstructible ts \<and> \<not> AllTriviallyMoveConstructible ts"
  "SomeNotTriviallyCopyAssignable ts \<longleftrightarrow>
     \<not> SomeNotCopyAssignable ts \<and> \<not> AllTriviallyCopyAssignable ts"
  "SomeNotTriviallyMoveAssignable ts \<longleftrightarrow>
     \<not> SomeNotMoveAssignable ts \<and> \<not> AllTriviallyMoveAssignable ts"
  unfolding concept_defs by (auto simp: list_all_iff list_ex_iff)

lemma concept_trivial:
  assumes "\<forall>t \<in> set ts. coherent t"
  shows "AllTriviallyDestructible ts \<Longrightarrow> AllDestructible ts"
    and "AllTriviallyCopyConstructible ts \<Longrightarrow> AllCopyConstructible ts"
    and "AllTriviallyMoveConstructible ts \<Longrightarrow> AllMoveConstructible ts"
    and "AllTriviallyCopyAssignable ts \<Longrightarrow> \<not> SomeNotCopyAssignable ts"
    and "AllTriviallyMoveAssignable ts \<Longrightarrow> \<not> SomeNotMoveAssignable ts"
  using assms unfolding concept_defs by (auto simp: list_all_iff list_ex_iff coherent_def)

section \<open>Special member functions\<close>

text \<open>A declaration is defaulted, has a body that goes through \<open>constructFrom\<close> or \<open>assignFrom\<close>, or is
  deleted.\<close>

datatype special = Defaulted | Provided | Deleted

definition viable :: "(special \<times> bool) list \<Rightarrow> special list" where
  "viable ds = map fst (filter snd ds)"

definition resultCopyCtor :: "type_traits \<Rightarrow> type_traits \<Rightarrow> special list" where
  "resultCopyCtor t e = viable
     [(Defaulted, AllTriviallyCopyConstructible [t, e]),
      (Provided, SomeNotTriviallyCopyAssignable [t, e]),
      (Deleted, SomeNotCopyConstructible [t, e])]"

definition resultMoveCtor :: "type_traits \<Rightarrow> type_traits \<Rightarrow> special list" where
  "resultMoveCtor t e = viable
     [(Defaulted, AllTriviallyMoveConstructible [t, e]),
      (Provided, SomeNotTriviallyMoveAssignable [t, e]),
      (Deleted, SomeNotMoveConstructible [t, e])]"

definition resultCopyAssign :: "type_traits \<Rightarrow> type_traits \<Rightarrow> special list" where
  "resultCopyAssign t e = viable
     [(Defaulted, AllTriviallyCopyConstructible [t, e] \<and> AllTriviallyCopyAssignable [t, e] \<and>
         AllTriviallyDestructible [t, e]),
      (Deleted, SomeNotCopyConstructible [t, e] \<or> SomeNotCopyAssignable [t, e] \<or>
         SomeNotDestructible [t, e]),
      (Provided, AllCopyConstructible [t, e] \<and>
         (SomeNotTriviallyCopyAssignable [t, e] \<and> AllDestructible [t, e] \<or>
          AllTriviallyCopyAssignable [t, e] \<and> SomeNotTriviallyDestructible [t, e]))]"

definition resultMoveAssign :: "type_traits \<Rightarrow> type_traits \<Rightarrow> special list" where
  "resultMoveAssign t e = viable
     [(Defaulted, AllTriviallyMoveConstructible [t, e] \<and> AllTriviallyMoveAssignable [t, e] \<and>
         AllTriviallyDestructible [t, e]),
      (Deleted, SomeNotMoveConstructible [t, e] \<or> SomeNotMoveAssignable [t, e] \<or>
         SomeNotDestructible [t, e]),
      (Provided, AllMoveConstructible [t, e] \<and>
         (SomeNotTriviallyMoveAssignable [t, e] \<and> AllDestructible [t, e] \<or>
          AllTriviallyMoveAssignable [t, e] \<and> SomeNotTriviallyDestructible [t, e]))]"

definition optionalCopyCtor :: "type_traits \<Rightarrow> special list" where
  "optionalCopyCtor t = viable
     [(Defaulted, is_trivially_copy_constructible t),
      (Provided, is_copy_constructible t \<and> \<not> is_trivially_copy_constructible t),
      (Deleted, \<not> is_copy_constructible t)]"

definition optionalMoveCtor :: "type_traits \<Rightarrow> special list" where
  "optionalMoveCtor t = viable
     [(Defaulted, is_trivially_move_constructible t),
      (Provided, is_move_constructible t \<and> \<not> is_trivially_move_constructible t),
      (Deleted, \<not> is_move_constructible t)]"

text \<open>The copy and move constructors of \<open>OptionalStorage\<close> are determined: exactly one declaration
  of each takes part in overload resolution for every type, the defaulted one for trivial types, the
  provided one for the other copyable or movable types, and the deleted one for the rest.\<close>

theorem optional_ctor_determined:
  assumes "coherent t"
  shows "optionalCopyCtor t =
      [if is_trivially_copy_constructible t then Defaulted
       else if is_copy_constructible t then Provided else Deleted] \<and>
    optionalMoveCtor t =
      [if is_trivially_move_constructible t then Defaulted
       else if is_move_constructible t then Provided else Deleted]"
  using assms by (auto simp: optionalCopyCtor_def optionalMoveCtor_def viable_def coherent_def)

definition int_traits :: type_traits where
  "int_traits =
     \<lparr>is_destructible = True, is_trivially_destructible = True,
      is_copy_constructible = True, is_trivially_copy_constructible = True,
      is_move_constructible = True, is_trivially_move_constructible = True,
      is_copy_assignable = True, is_trivially_copy_assignable = True,
      is_move_assignable = True, is_trivially_move_assignable = True\<rparr>"

lemma optional_ctor_determined_witness:
  "optionalCopyCtor int_traits = [Defaulted] \<and> optionalMoveCtor int_traits = [Defaulted]"
  using optional_ctor_determined [of int_traits] by (simp add: int_traits_def coherent_def)

text \<open>The constructors of \<open>ResultStorage\<close> are constrained by the wrong concept: the provided one
  asks for types that are not trivially \<^emph>\<open>assignable\<close>.  For types that are trivially copyable
  but not trivially assignable, like a pair of numbers, two declarations take part in overload
  resolution, and for types that are copyable, not trivially, and not assignable, none does.  The
  declarations are unambiguous for types whose traits for construction and assignment agree.\<close>

theorem result_ctor_selection:
  assumes "coherent t" and "coherent e"
  shows "(AllTriviallyCopyConstructible [t, e] \<and> SomeNotTriviallyCopyAssignable [t, e] \<longrightarrow>
      resultCopyCtor t e = [Defaulted, Provided]) \<and>
    (SomeNotTriviallyCopyConstructible [t, e] \<and> SomeNotCopyAssignable [t, e] \<longrightarrow>
      resultCopyCtor t e = []) \<and>
    ((\<forall>x \<in> {t, e}. is_copy_constructible x = is_copy_assignable x \<and>
         is_trivially_copy_constructible x = is_trivially_copy_assignable x) \<longrightarrow>
      resultCopyCtor t e =
        [if AllTriviallyCopyConstructible [t, e] then Defaulted
         else if AllCopyConstructible [t, e] then Provided else Deleted])"
proof (intro conjI impI)
  note trivial = concept_trivial [of "[t, e]"]
  let ?ctor = "resultCopyCtor t e"
  have ctor: "?ctor =
      (if AllTriviallyCopyConstructible [t, e] then [Defaulted] else []) @
      (if \<not> SomeNotCopyAssignable [t, e] \<and> \<not> AllTriviallyCopyAssignable [t, e] then [Provided] else []) @
      (if AllCopyConstructible [t, e] then [] else [Deleted])"
    unfolding resultCopyCtor_def viable_def concept_atoms by simp
  show "?ctor = [Defaulted, Provided]"
    if "AllTriviallyCopyConstructible [t, e] \<and> SomeNotTriviallyCopyAssignable [t, e]"
    using that trivial(2) assms unfolding ctor concept_atoms by simp
  show "?ctor = []" if "SomeNotTriviallyCopyConstructible [t, e] \<and> SomeNotCopyAssignable [t, e]"
    using that unfolding ctor concept_atoms by simp
  show "?ctor = [if AllTriviallyCopyConstructible [t, e] then Defaulted
         else if AllCopyConstructible [t, e] then Provided else Deleted]"
    if "\<forall>x \<in> {t, e}. is_copy_constructible x = is_copy_assignable x \<and>
         is_trivially_copy_constructible x = is_trivially_copy_assignable x"
  proof -
    from that have "AllTriviallyCopyAssignable [t, e] = AllTriviallyCopyConstructible [t, e]"
      and "SomeNotCopyAssignable [t, e] = (\<not> AllCopyConstructible [t, e])"
      by (simp_all add: concept_defs)
    with trivial(2) assms show ?thesis unfolding ctor by auto
  qed
qed

text \<open>A pair of numbers: its assignment operator is not trivial.\<close>

definition pair_traits :: type_traits where
  "pair_traits = int_traits\<lparr>is_trivially_copy_assignable := False, is_trivially_move_assignable := False\<rparr>"

lemma result_ctor_selection_witness:
  "resultCopyCtor pair_traits int_traits = [Defaulted, Provided] \<and>
   resultCopyCtor int_traits int_traits = [Defaulted]"
  using result_ctor_selection [of pair_traits int_traits] result_ctor_selection [of int_traits int_traits]
  by (simp add: pair_traits_def int_traits_def coherent_def concept_defs)

text \<open>At most one assignment operator of \<open>ResultStorage\<close> of each kind takes part in overload
  resolution, and one does unless the types are trivially assignable and destructible, but not
  trivially constructible.\<close>

theorem result_assign_selection:
  assumes "coherent t" and "coherent e"
  shows "length (resultCopyAssign t e) =
      (if AllCopyConstructible [t, e] \<and> \<not> AllTriviallyCopyConstructible [t, e] \<and>
          AllTriviallyCopyAssignable [t, e] \<and> AllTriviallyDestructible [t, e] then 0 else 1) \<and>
    length (resultMoveAssign t e) =
      (if AllMoveConstructible [t, e] \<and> \<not> AllTriviallyMoveConstructible [t, e] \<and>
          AllTriviallyMoveAssignable [t, e] \<and> AllTriviallyDestructible [t, e] then 0 else 1)"
proof -
  have "\<forall>x \<in> set [t, e]. coherent x" using assms by simp
  from concept_trivial [OF this] show ?thesis
    unfolding resultCopyAssign_def resultMoveAssign_def viable_def concept_atoms by auto
qed

lemma result_assign_selection_witness:
  "length (resultCopyAssign pair_traits int_traits) = 1"
  using result_assign_selection [of pair_traits int_traits]
  by (simp add: pair_traits_def int_traits_def coherent_def concept_defs)

text \<open>
  The assignment operators of \<open>OptionalStorage\<close>.  The deleted one for types that cannot be moved takes
  \<open>OptionalStorage const&\<close>, so that it is an overload of the copying ones.
\<close>

definition optionalCopyAssign :: "type_traits \<Rightarrow> special list" where
  "optionalCopyAssign t = viable
     [(Defaulted, is_trivially_copy_constructible t \<and> is_trivially_copy_assignable t \<and> is_trivially_destructible t),
      (Deleted, \<not> is_copy_constructible t \<or> \<not> is_copy_assignable t \<or> \<not> is_destructible t),
      (Provided, is_copy_constructible t \<and>
         (is_copy_assignable t \<and> is_destructible t \<and> \<not> is_trivially_copy_assignable t \<or>
          is_trivially_copy_assignable t \<and> is_destructible t \<and> \<not> is_trivially_destructible t)),
      (Deleted, \<not> is_move_constructible t \<or> \<not> is_move_assignable t \<or> \<not> is_destructible t)]"

definition optionalMoveAssign :: "type_traits \<Rightarrow> special list" where
  "optionalMoveAssign t = viable
     [(Defaulted, is_trivially_move_constructible t \<and> is_trivially_move_assignable t \<and> is_trivially_destructible t),
      (Provided, is_move_constructible t \<and>
         (is_move_assignable t \<and> is_destructible t \<and> \<not> is_trivially_move_assignable t \<or>
          is_trivially_move_assignable t \<and> is_destructible t \<and> \<not> is_trivially_destructible t))]"

text \<open>
  For a type that can be copied and moved one operator of each kind takes part, unless the type is trivially
  assignable and destructible but not trivially constructible.  For a type that can be moved and not copied, as
  \<open>std::unique_ptr\<close>, copying is deleted; for one that cannot be moved no moving operator takes part, and for one
  that can be copied but not moved the copying one is ambiguous.
\<close>

theorem optional_assign_selection:
  assumes "coherent t" and "is_destructible t"
  shows "(is_move_constructible t \<and> is_move_assignable t \<longrightarrow>
      length (optionalCopyAssign t) =
        (if is_copy_constructible t \<and> \<not> is_trivially_copy_constructible t \<and> is_trivially_copy_assignable t \<and>
            is_trivially_destructible t then 0 else 1) \<and>
      length (optionalMoveAssign t) =
        (if \<not> is_trivially_move_constructible t \<and> is_trivially_move_assignable t \<and> is_trivially_destructible t then 0 else 1)) \<and>
    (\<not> (is_copy_constructible t \<and> is_copy_assignable t) \<and> is_move_constructible t \<and> is_move_assignable t \<longrightarrow>
      optionalCopyAssign t = [Deleted]) \<and>
    (\<not> (is_move_constructible t \<and> is_move_assignable t) \<longrightarrow>
      optionalMoveAssign t = [] \<and>
      (is_copy_constructible t \<and> is_copy_assignable t \<and> \<not> is_trivially_copy_assignable t \<longrightarrow>
        optionalCopyAssign t = [Provided, Deleted]))"
proof (intro conjI impI)
  note traits = assms(2) assms(1) [unfolded coherent_def]
  note defs = optionalCopyAssign_def optionalMoveAssign_def viable_def
  assume moves: "is_move_constructible t \<and> is_move_assignable t"
  show "length (optionalCopyAssign t) =
      (if is_copy_constructible t \<and> \<not> is_trivially_copy_constructible t \<and> is_trivially_copy_assignable t \<and>
          is_trivially_destructible t then 0 else 1)"
    using moves traits
    by (cases "is_copy_constructible t"; cases "is_copy_assignable t"; cases "is_trivially_copy_constructible t";
        cases "is_trivially_copy_assignable t"; cases "is_trivially_destructible t"; simp add: defs)
  show "length (optionalMoveAssign t) =
      (if \<not> is_trivially_move_constructible t \<and> is_trivially_move_assignable t \<and> is_trivially_destructible t then 0 else 1)"
    using moves traits
    by (cases "is_trivially_move_constructible t"; cases "is_trivially_move_assignable t"; cases "is_trivially_destructible t";
        simp add: defs)
next
  assume "\<not> (is_copy_constructible t \<and> is_copy_assignable t) \<and> is_move_constructible t \<and> is_move_assignable t"
  then show "optionalCopyAssign t = [Deleted]"
    using assms unfolding coherent_def
    by (cases "is_copy_constructible t"; cases "is_copy_assignable t") (simp_all add: optionalCopyAssign_def viable_def)
next
  assume fixed: "\<not> (is_move_constructible t \<and> is_move_assignable t)"
  then show "optionalMoveAssign t = []"
    using assms unfolding coherent_def
    by (cases "is_move_constructible t"; cases "is_move_assignable t") (simp_all add: optionalMoveAssign_def viable_def)
  assume "is_copy_constructible t \<and> is_copy_assignable t \<and> \<not> is_trivially_copy_assignable t"
  then show "optionalCopyAssign t = [Provided, Deleted]"
    using fixed assms by (auto simp: optionalCopyAssign_def viable_def)
qed

end
