(* ===== verification/Overloads.thy ===== *)
theory Overloads
  imports Prelude
begin

text \<open>
  Which constructor and which assignment operator of \<open>Failure\<close> and \<open>Result\<close> (\<open>core/Result.hpp\<close>) and of
  \<open>Optional\<close> (\<open>core/Optional.hpp\<close>) an argument selects.  A declaration takes part in overload resolution if its
  parameter binds to the argument and its \<open>requires\<close> clause holds; the best of them is chosen by the rules of the
  language.  The traits of the standard library are parameters.  Arguments are single; a class of the user that
  converts itself to a \<open>Result\<close> or an \<open>Optional\<close>, and arrays and functions, are left out.
\<close>

section \<open>Types\<close>

datatype tag = InPlaceT | InPlaceValueT | InPlaceErrorT | InPlaceEmptyT

text \<open>\<open>Class\<close> is a class of the user or a scalar type.\<close>

datatype 'b CType =
  Class 'b
| VoidT
| TagT tag
| FailureT "'b CType"
| ResultT "'b CType" "'b CType"
| OptionalT "'b CType"
| RefWrapper "'b CType"
| ConstT "'b CType"
| LRefT "'b CType"
| RRefT "'b CType"

fun remove_const :: "'b CType \<Rightarrow> 'b CType" where
  "remove_const (ConstT t) = t"
| "remove_const t = t"

fun remove_ref :: "'b CType \<Rightarrow> 'b CType" where
  "remove_ref (LRefT t) = t"
| "remove_ref (RRefT t) = t"
| "remove_ref t = t"

definition decay :: "'b CType \<Rightarrow> 'b CType" where
  "decay t = remove_const (remove_ref t)"

text \<open>The types \<open>t const\<close>, \<open>t&\<close> and \<open>t&&\<close>: references collapse, and there is no reference to \<open>void\<close>.\<close>

fun add_const :: "'b CType \<Rightarrow> 'b CType" where
  "add_const (LRefT t) = LRefT t"
| "add_const (RRefT t) = RRefT t"
| "add_const (ConstT t) = ConstT t"
| "add_const t = ConstT t"

fun lref :: "'b CType \<Rightarrow> 'b CType option" where
  "lref (LRefT t) = Some (LRefT t)"
| "lref (RRefT t) = Some (LRefT t)"
| "lref VoidT = None"
| "lref (ConstT VoidT) = None"
| "lref t = Some (LRefT t)"

fun rref :: "'b CType \<Rightarrow> 'b CType option" where
  "rref (LRefT t) = Some (LRefT t)"
| "rref (RRefT t) = Some (RRefT t)"
| "rref VoidT = None"
| "rref (ConstT VoidT) = None"
| "rref t = Some (RRefT t)"

definition cref :: "'b CType \<Rightarrow> 'b CType option" where
  "cref t = lref (add_const t)"

fun WrappedValueType :: "'b CType \<Rightarrow> 'b CType" where
  "WrappedValueType (LRefT t) = RefWrapper t"
| "WrappedValueType t = remove_const t"

fun IsFailure :: "'b CType \<Rightarrow> bool" where
  "IsFailure (FailureT _) = True"
| "IsFailure _ = False"

fun IsResult :: "'b CType \<Rightarrow> bool" where
  "IsResult (ResultT _ _) = True"
| "IsResult _ = False"

fun IsOptional :: "'b CType \<Rightarrow> bool" where
  "IsOptional (OptionalT _) = True"
| "IsOptional _ = False"

fun IsReferenceWrapper :: "'b CType \<Rightarrow> bool" where
  "IsReferenceWrapper (RefWrapper _) = True"
| "IsReferenceWrapper _ = False"

section \<open>Traits\<close>

text \<open>
  The traits and concepts of the standard library: \<open>std::constructible_from\<close> with one argument and with none,
  \<open>std::convertible_to\<close>, \<open>std::assignable_from\<close> to an lvalue of the type, and the properties of a type.
\<close>

record 'b Traits =
  constructible_from :: "'b CType \<Rightarrow> 'b CType \<Rightarrow> bool"
  default_constructible :: "'b CType \<Rightarrow> bool"
  convertible_to :: "'b CType \<Rightarrow> 'b CType \<Rightarrow> bool"
  assignable_from :: "'b CType \<Rightarrow> 'b CType \<Rightarrow> bool"
  is_abstract :: "'b CType \<Rightarrow> bool"
  is_scalar :: "'b CType \<Rightarrow> bool"

text \<open>A constraint on a type that cannot be formed does not hold.\<close>

definition formed :: "('b CType \<Rightarrow> bool) \<Rightarrow> 'b CType option \<Rightarrow> bool" where
  "formed P t \<longleftrightarrow> (case t of None \<Rightarrow> False | Some t \<Rightarrow> P t)"

lemma formed_simps [simp]: "formed P None = False" "formed P (Some t) = P t"
  by (simp_all add: formed_def)

text \<open>The four ways to pass an object of a class.\<close>

definition passed :: "'b CType \<Rightarrow> 'b CType list" where
  "passed c = [LRefT c, LRefT (ConstT c), RRefT c, RRefT (ConstT c)]"

section \<open>Concepts\<close>

definition ResultType :: "'b CType \<Rightarrow> bool" where
  "ResultType r \<longleftrightarrow> (case r of ResultT t e \<Rightarrow> e \<noteq> VoidT | _ \<Rightarrow> False)"

definition ResultTypeValueDefaultConstructible :: "'b Traits \<Rightarrow> 'b CType \<Rightarrow> bool" where
  "ResultTypeValueDefaultConstructible X r \<longleftrightarrow>
     (case r of ResultT t e \<Rightarrow> (default_constructible X t \<or> t = VoidT) \<and> e \<noteq> VoidT | _ \<Rightarrow> False)"

definition OptionalType :: "'b CType \<Rightarrow> bool" where
  "OptionalType r \<longleftrightarrow> (case r of OptionalT t \<Rightarrow> t \<noteq> VoidT | _ \<Rightarrow> False)"

definition FailureIsValueConstructible :: "'b Traits \<Rightarrow> 'b CType \<Rightarrow> 'b CType \<Rightarrow> bool" where
  "FailureIsValueConstructible X ee e \<longleftrightarrow>
     formed (constructible_from X e) (rref ee) \<and> decay ee \<noteq> TagT InPlaceT \<and> decay ee \<noteq> TagT InPlaceValueT \<and>
     decay ee \<noteq> TagT InPlaceErrorT \<and> \<not> IsFailure (decay ee) \<and> \<not> IsResult (decay ee)"

definition FailureIsExplicitValueConstructible :: "'b Traits \<Rightarrow> 'b CType \<Rightarrow> 'b CType \<Rightarrow> bool" where
  "FailureIsExplicitValueConstructible X ee e \<longleftrightarrow> FailureIsValueConstructible X ee e \<and> \<not> convertible_to X ee e"

definition FailureIsImplicitValueConstructible :: "'b Traits \<Rightarrow> 'b CType \<Rightarrow> 'b CType \<Rightarrow> bool" where
  "FailureIsImplicitValueConstructible X ee e \<longleftrightarrow> FailureIsValueConstructible X ee e \<and> convertible_to X ee e"

definition FailureIsValueAssignable :: "'b Traits \<Rightarrow> 'b CType \<Rightarrow> 'b CType \<Rightarrow> bool" where
  "FailureIsValueAssignable X ee e \<longleftrightarrow>
     \<not> IsResult (decay ee) \<and> \<not> IsFailure (decay ee) \<and> assignable_from X (WrappedValueType e) ee"

definition ConvertibleResult :: "'b Traits \<Rightarrow> 'b CType \<Rightarrow> 'b CType \<Rightarrow> 'b CType \<Rightarrow> 'b CType \<Rightarrow> bool" where
  "ConvertibleResult X t1 e1 t2 e2 \<longleftrightarrow>
     (let rs = passed (ResultT t2 e2) in
      list_ex (constructible_from X t1) rs \<or> list_ex (constructible_from X e1) rs \<or>
      list_ex (\<lambda>r. convertible_to X r t1) rs \<or> list_ex (\<lambda>r. convertible_to X r e1) rs)"

definition CopyConvertibleResult :: "'b Traits \<Rightarrow> 'b CType \<Rightarrow> 'b CType \<Rightarrow> 'b CType \<Rightarrow> 'b CType \<Rightarrow> bool" where
  "CopyConvertibleResult X t1 e1 t2 e2 \<longleftrightarrow>
     \<not> ConvertibleResult X t1 e1 t2 e2 \<and> formed (constructible_from X t1) (cref t2) \<and> formed (constructible_from X e1) (cref e2)"

definition ImplicitlyCopyConvertibleResult :: "'b Traits \<Rightarrow> 'b CType \<Rightarrow> 'b CType \<Rightarrow> 'b CType \<Rightarrow> 'b CType \<Rightarrow> bool" where
  "ImplicitlyCopyConvertibleResult X t1 e1 t2 e2 \<longleftrightarrow>
     CopyConvertibleResult X t1 e1 t2 e2 \<and> formed (\<lambda>t. convertible_to X t t1) (cref t2) \<and>
     formed (\<lambda>e. convertible_to X e e1) (cref e2)"

definition ExplicitlyCopyConvertibleResult :: "'b Traits \<Rightarrow> 'b CType \<Rightarrow> 'b CType \<Rightarrow> 'b CType \<Rightarrow> 'b CType \<Rightarrow> bool" where
  "ExplicitlyCopyConvertibleResult X t1 e1 t2 e2 \<longleftrightarrow>
     CopyConvertibleResult X t1 e1 t2 e2 \<and>
     (formed (\<lambda>t. \<not> convertible_to X t t1) (cref t2) \<or> formed (\<lambda>e. \<not> convertible_to X e e1) (cref e2))"

definition MoveConvertibleResult :: "'b Traits \<Rightarrow> 'b CType \<Rightarrow> 'b CType \<Rightarrow> 'b CType \<Rightarrow> 'b CType \<Rightarrow> bool" where
  "MoveConvertibleResult X t1 e1 t2 e2 \<longleftrightarrow>
     \<not> ConvertibleResult X t1 e1 t2 e2 \<and> formed (constructible_from X t1) (rref t2) \<and> formed (constructible_from X e1) (rref e2)"

definition ImplicitlyMoveConvertibleResult :: "'b Traits \<Rightarrow> 'b CType \<Rightarrow> 'b CType \<Rightarrow> 'b CType \<Rightarrow> 'b CType \<Rightarrow> bool" where
  "ImplicitlyMoveConvertibleResult X t1 e1 t2 e2 \<longleftrightarrow>
     MoveConvertibleResult X t1 e1 t2 e2 \<and> formed (\<lambda>t. convertible_to X t t1) (rref t2) \<and>
     formed (\<lambda>e. convertible_to X e e1) (rref e2)"

definition ExplicitlyMoveConvertibleResult :: "'b Traits \<Rightarrow> 'b CType \<Rightarrow> 'b CType \<Rightarrow> 'b CType \<Rightarrow> 'b CType \<Rightarrow> bool" where
  "ExplicitlyMoveConvertibleResult X t1 e1 t2 e2 \<longleftrightarrow>
     MoveConvertibleResult X t1 e1 t2 e2 \<and>
     (formed (\<lambda>t. \<not> convertible_to X t t1) (rref t2) \<or> formed (\<lambda>e. \<not> convertible_to X e e1) (rref e2))"

definition ResultValueConvertibleTo :: "'b Traits \<Rightarrow> 'b CType \<Rightarrow> 'b CType \<Rightarrow> bool" where
  "ResultValueConvertibleTo X tt t \<longleftrightarrow>
     formed (constructible_from X t) (rref tt) \<and> decay tt \<noteq> TagT InPlaceT \<and> decay tt \<noteq> TagT InPlaceValueT \<and>
     decay tt \<noteq> TagT InPlaceErrorT \<and> \<not> IsResult (decay tt)"

definition ImplicitlyResultValueConvertibleTo :: "'b Traits \<Rightarrow> 'b CType \<Rightarrow> 'b CType \<Rightarrow> bool" where
  "ImplicitlyResultValueConvertibleTo X tt t \<longleftrightarrow>
     ResultValueConvertibleTo X tt t \<and> formed (\<lambda>a. convertible_to X a t) (rref tt)"

definition ExplicitlyResultValueConvertibleTo :: "'b Traits \<Rightarrow> 'b CType \<Rightarrow> 'b CType \<Rightarrow> bool" where
  "ExplicitlyResultValueConvertibleTo X tt t \<longleftrightarrow>
     ResultValueConvertibleTo X tt t \<and> formed (\<lambda>a. \<not> convertible_to X a t) (rref tt)"

definition ConvertAssignableResult :: "'b Traits \<Rightarrow> 'b CType \<Rightarrow> 'b CType \<Rightarrow> 'b CType \<Rightarrow> 'b CType \<Rightarrow> bool" where
  "ConvertAssignableResult X t1 e1 t2 e2 \<longleftrightarrow>
     ConvertibleResult X t1 e1 t2 e2 \<and> list_all (assignable_from X t1) (passed (ResultT t2 e2)) \<and>
     list_all (assignable_from X e1) (passed (ResultT t2 e2))"

definition CopyConvertAssignableResult :: "'b Traits \<Rightarrow> 'b CType \<Rightarrow> 'b CType \<Rightarrow> 'b CType \<Rightarrow> 'b CType \<Rightarrow> bool" where
  "CopyConvertAssignableResult X t1 e1 t2 e2 \<longleftrightarrow>
     \<not> ConvertAssignableResult X t1 e1 t2 e2 \<and>
     formed (constructible_from X t1) (cref t2) \<and> formed (assignable_from X (WrappedValueType t1)) (cref t2) \<and>
     formed (constructible_from X e1) (cref e2) \<and> formed (assignable_from X (WrappedValueType e1)) (cref e2)"

definition MoveConvertAssignableResult :: "'b Traits \<Rightarrow> 'b CType \<Rightarrow> 'b CType \<Rightarrow> 'b CType \<Rightarrow> 'b CType \<Rightarrow> bool" where
  "MoveConvertAssignableResult X t1 e1 t2 e2 \<longleftrightarrow>
     \<not> ConvertAssignableResult X t1 e1 t2 e2 \<and>
     formed (constructible_from X t1) (rref t2) \<and> formed (assignable_from X t1) (rref t2) \<and>
     formed (constructible_from X e1) (rref e2) \<and> formed (assignable_from X e1) (rref e2)"

definition ResultValueAssignableTo :: "'b Traits \<Rightarrow> 'b CType \<Rightarrow> 'b CType \<Rightarrow> bool" where
  "ResultValueAssignableTo X tt t \<longleftrightarrow>
     \<not> IsResult (decay tt) \<and> \<not> IsFailure (decay tt) \<and> constructible_from X t tt \<and>
     assignable_from X (WrappedValueType t) tt \<and> (decay t \<noteq> decay tt \<or> \<not> is_scalar X t)"

definition ErrorAssignable :: "'b Traits \<Rightarrow> 'b CType \<Rightarrow> 'b CType option \<Rightarrow> bool" where
  "ErrorAssignable X e ee \<longleftrightarrow>
     formed (constructible_from X e) ee \<and> formed (assignable_from X (WrappedValueType e)) ee"

text \<open>\<open>res f t\<close> is the type of the result of invoking a function of type \<open>f\<close>, if it is invocable.\<close>

definition ErrorMapper :: "('f \<Rightarrow> 'b CType \<Rightarrow> 'b CType option) \<Rightarrow> 'f \<Rightarrow> 'b CType \<Rightarrow> bool" where
  "ErrorMapper res f e \<longleftrightarrow> formed (\<lambda>r. r \<noteq> VoidT) (res f e)"

definition OptionalMapper :: "('f \<Rightarrow> 'b CType \<Rightarrow> 'b CType option) \<Rightarrow> 'f \<Rightarrow> 'b CType \<Rightarrow> bool" where
  "OptionalMapper res f t \<longleftrightarrow> formed (\<lambda>r. r \<noteq> VoidT) (res f t)"

definition ConvertibleOptional :: "'b Traits \<Rightarrow> 'b CType \<Rightarrow> 'b CType \<Rightarrow> bool" where
  "ConvertibleOptional X t1 t2 \<longleftrightarrow>
     list_ex (constructible_from X t1) (passed (OptionalT t2)) \<or> list_ex (\<lambda>r. convertible_to X r t1) (passed (OptionalT t2))"

definition CopyConvertibleOptional :: "'b Traits \<Rightarrow> 'b CType \<Rightarrow> 'b CType \<Rightarrow> bool" where
  "CopyConvertibleOptional X t1 t2 \<longleftrightarrow> \<not> ConvertibleOptional X t1 t2 \<and> formed (constructible_from X t1) (cref t2)"

definition ImplicitlyCopyConvertibleOptional :: "'b Traits \<Rightarrow> 'b CType \<Rightarrow> 'b CType \<Rightarrow> bool" where
  "ImplicitlyCopyConvertibleOptional X t1 t2 \<longleftrightarrow>
     CopyConvertibleOptional X t1 t2 \<and> formed (\<lambda>t. convertible_to X t t1) (cref t2)"

definition ExplicitlyCopyConvertibleOptional :: "'b Traits \<Rightarrow> 'b CType \<Rightarrow> 'b CType \<Rightarrow> bool" where
  "ExplicitlyCopyConvertibleOptional X t1 t2 \<longleftrightarrow>
     CopyConvertibleOptional X t1 t2 \<and> formed (\<lambda>t. \<not> convertible_to X t t1) (cref t2)"

definition MoveConvertibleOptional :: "'b Traits \<Rightarrow> 'b CType \<Rightarrow> 'b CType \<Rightarrow> bool" where
  "MoveConvertibleOptional X t1 t2 \<longleftrightarrow> \<not> ConvertibleOptional X t1 t2 \<and> formed (constructible_from X t1) (rref t2)"

definition ImplicitlyMoveConvertibleOptional :: "'b Traits \<Rightarrow> 'b CType \<Rightarrow> 'b CType \<Rightarrow> bool" where
  "ImplicitlyMoveConvertibleOptional X t1 t2 \<longleftrightarrow>
     MoveConvertibleOptional X t1 t2 \<and> formed (\<lambda>t. convertible_to X t t1) (rref t2)"

definition ExplicitlyMoveConvertibleOptional :: "'b Traits \<Rightarrow> 'b CType \<Rightarrow> 'b CType \<Rightarrow> bool" where
  "ExplicitlyMoveConvertibleOptional X t1 t2 \<longleftrightarrow>
     MoveConvertibleOptional X t1 t2 \<and> formed (\<lambda>t. \<not> convertible_to X t t1) (rref t2)"

definition OptionalValueConvertibleTo :: "'b Traits \<Rightarrow> 'b CType \<Rightarrow> 'b CType \<Rightarrow> bool" where
  "OptionalValueConvertibleTo X tt t \<longleftrightarrow>
     formed (constructible_from X t) (rref tt) \<and> decay tt \<noteq> TagT InPlaceT \<and> decay tt \<noteq> TagT InPlaceValueT \<and>
     decay tt \<noteq> TagT InPlaceErrorT \<and> \<not> IsOptional (decay tt)"

definition ImplicitlyOptionalValueConvertibleTo :: "'b Traits \<Rightarrow> 'b CType \<Rightarrow> 'b CType \<Rightarrow> bool" where
  "ImplicitlyOptionalValueConvertibleTo X tt t \<longleftrightarrow>
     OptionalValueConvertibleTo X tt t \<and> formed (\<lambda>a. convertible_to X a t) (rref tt)"

definition ExplicitlyOptionalValueConvertibleTo :: "'b Traits \<Rightarrow> 'b CType \<Rightarrow> 'b CType \<Rightarrow> bool" where
  "ExplicitlyOptionalValueConvertibleTo X tt t \<longleftrightarrow>
     OptionalValueConvertibleTo X tt t \<and> formed (\<lambda>a. \<not> convertible_to X a t) (rref tt)"

definition ConvertAssignableOptional :: "'b Traits \<Rightarrow> 'b CType \<Rightarrow> 'b CType \<Rightarrow> bool" where
  "ConvertAssignableOptional X t1 t2 \<longleftrightarrow>
     ConvertibleOptional X t1 t2 \<and> list_all (assignable_from X t1) (passed (OptionalT t2))"

definition CopyConvertAssignableOptional :: "'b Traits \<Rightarrow> 'b CType \<Rightarrow> 'b CType \<Rightarrow> bool" where
  "CopyConvertAssignableOptional X t1 t2 \<longleftrightarrow>
     \<not> ConvertAssignableOptional X t1 t2 \<and> formed (constructible_from X t1) (cref t2) \<and>
     formed (assignable_from X (WrappedValueType t1)) (cref t2)"

definition MoveConvertAssignableOptional :: "'b Traits \<Rightarrow> 'b CType \<Rightarrow> 'b CType \<Rightarrow> bool" where
  "MoveConvertAssignableOptional X t1 t2 \<longleftrightarrow>
     \<not> ConvertAssignableOptional X t1 t2 \<and> formed (constructible_from X t1) (rref t2) \<and>
     formed (assignable_from X t1) (rref t2)"

definition OptionalValueAssignableTo :: "'b Traits \<Rightarrow> 'b CType \<Rightarrow> 'b CType \<Rightarrow> bool" where
  "OptionalValueAssignableTo X tt t \<longleftrightarrow>
     \<not> IsOptional (decay tt) \<and> constructible_from X t tt \<and> assignable_from X (WrappedValueType t) tt \<and>
     (decay t \<noteq> decay tt \<or> \<not> is_scalar X t)"

section \<open>Types that the templates accept\<close>

text \<open>The assertions of the templates; a type is also not an rvalue reference.\<close>

fun IsRvalueRef :: "'b CType \<Rightarrow> bool" where
  "IsRvalueRef (RRefT _) = True"
| "IsRvalueRef _ = False"

definition failureType :: "'b CType \<Rightarrow> bool" where
  "failureType e \<longleftrightarrow> \<not> IsResult (decay e) \<and> \<not> IsFailure (decay e) \<and> decay e \<noteq> VoidT \<and> \<not> IsRvalueRef e"

definition errorType :: "'b Traits \<Rightarrow> 'b CType \<Rightarrow> bool" where
  "errorType X e \<longleftrightarrow>
     \<not> is_abstract X e \<and> decay e \<noteq> VoidT \<and> decay e \<noteq> TagT InPlaceT \<and> decay e \<noteq> TagT InPlaceValueT \<and>
     decay e \<noteq> TagT InPlaceErrorT \<and> \<not> IsResult (decay e) \<and> \<not> IsFailure (decay e) \<and> \<not> IsRvalueRef e"

definition resultType :: "'b Traits \<Rightarrow> 'b CType \<Rightarrow> 'b CType \<Rightarrow> bool" where
  "resultType X t e \<longleftrightarrow>
     \<not> is_abstract X t \<and> decay t \<noteq> TagT InPlaceT \<and> decay t \<noteq> TagT InPlaceValueT \<and> decay t \<noteq> TagT InPlaceErrorT \<and>
     \<not> IsResult (decay t) \<and> \<not> IsFailure (decay t) \<and> \<not> IsRvalueRef t \<and>
     \<not> is_abstract X e \<and> decay e \<noteq> VoidT \<and> decay e \<noteq> TagT InPlaceT \<and> decay e \<noteq> TagT InPlaceValueT \<and>
     decay e \<noteq> TagT InPlaceErrorT \<and> \<not> IsResult (decay e) \<and> \<not> IsFailure (decay e) \<and> \<not> IsRvalueRef e"

definition optionalType :: "'b Traits \<Rightarrow> 'b CType \<Rightarrow> bool" where
  "optionalType X t \<longleftrightarrow>
     \<not> is_abstract X t \<and> decay t \<noteq> TagT InPlaceT \<and> decay t \<noteq> TagT InPlaceValueT \<and> decay t \<noteq> TagT InPlaceErrorT \<and>
     \<not> IsOptional (decay t) \<and> \<not> IsRvalueRef t"

section \<open>Overload resolution\<close>

text \<open>An argument: an lvalue or an rvalue of a type that is no reference, \<open>const\<close> or not.\<close>

datatype 'b Arg = Lvalue "'b CType" | Rvalue "'b CType"

fun arg_type :: "'b Arg \<Rightarrow> 'b CType" where
  "arg_type (Lvalue t) = t"
| "arg_type (Rvalue t) = t"

definition arg_class :: "'b Arg \<Rightarrow> 'b CType" where
  "arg_class a = remove_const (arg_type a)"

text \<open>
  The type that a parameter \<open>U&&\<close> of a template deduces, whether a parameter \<open>C&&\<close> of a class binds, and
  whether the \<open>const&\<close> of a parameter is what the argument has already.
\<close>

fun deduced :: "'b Arg \<Rightarrow> 'b CType" where
  "deduced (Lvalue t) = LRefT t"
| "deduced (Rvalue t) = t"

fun movable :: "'b Arg \<Rightarrow> bool" where
  "movable (Lvalue t) = False"
| "movable (Rvalue t) = (remove_const t = t)"

fun const_lvalue :: "'b Arg \<Rightarrow> bool" where
  "const_lvalue (Lvalue t) = (remove_const t \<noteq> t)"
| "const_lvalue (Rvalue t) = False"

text \<open>
  A parameter \<open>C const&\<close> is the worse conversion unless the argument is a \<open>const\<close> lvalue.  Among equal
  conversions a function is better than a template, and a template for a class better than one for all types.
\<close>

datatype param = ConstRef | MoveRef | ByValue | Forward
datatype specificity = Function | ClassTemplate | AnyTemplate

fun rank :: "'b Arg \<Rightarrow> param \<Rightarrow> specificity \<Rightarrow> nat" where
  "rank a p k =
     3 * (if p = ConstRef \<and> \<not> const_lvalue a then 1 else 0) +
     (case k of Function \<Rightarrow> 0 | ClassTemplate \<Rightarrow> 1 | AnyTemplate \<Rightarrow> 2)"

datatype 'c resolution = NoMatch | Ambiguous | Chosen 'c

definition resolve :: "('c \<Rightarrow> nat) \<Rightarrow> 'c list \<Rightarrow> 'c resolution" where
  "resolve r cs =
     (case filter (\<lambda>c. \<forall>d \<in> set cs. r c \<le> r d) cs of
        [] \<Rightarrow> NoMatch
      | [c] \<Rightarrow> Chosen c
      | _ \<Rightarrow> Ambiguous)"

section \<open>Constructors of Failure\<close>

datatype FailureCtor =
  FailureCopy | FailureMove | FailureInPlace | FailureImplicitValue | FailureExplicitValue | FailureConvCopy | FailureConvMove

fun failureViable :: "'b Traits \<Rightarrow> 'b CType \<Rightarrow> 'b Arg \<Rightarrow> FailureCtor \<Rightarrow> bool" where
  "failureViable X e a FailureCopy = (arg_class a = FailureT e)"
| "failureViable X e a FailureMove = (arg_class a = FailureT e \<and> movable a)"
| "failureViable X e a FailureInPlace = (arg_class a = TagT InPlaceT \<and> default_constructible X e)"
| "failureViable X e a FailureImplicitValue = FailureIsImplicitValueConstructible X (deduced a) e"
| "failureViable X e a FailureExplicitValue = FailureIsExplicitValueConstructible X (deduced a) e"
| "failureViable X e a FailureConvCopy = (case arg_class a of FailureT e2 \<Rightarrow> formed (constructible_from X e) (cref e2) | _ \<Rightarrow> False)"
| "failureViable X e a FailureConvMove =
     (case arg_class a of FailureT e2 \<Rightarrow> movable a \<and> formed (constructible_from X e) (rref e2) | _ \<Rightarrow> False)"

fun failureRank :: "'b Arg \<Rightarrow> FailureCtor \<Rightarrow> nat" where
  "failureRank a FailureCopy = rank a ConstRef Function"
| "failureRank a FailureMove = rank a MoveRef Function"
| "failureRank a FailureInPlace = rank a ByValue ClassTemplate"
| "failureRank a FailureImplicitValue = rank a Forward AnyTemplate"
| "failureRank a FailureExplicitValue = rank a Forward AnyTemplate"
| "failureRank a FailureConvCopy = rank a ConstRef ClassTemplate"
| "failureRank a FailureConvMove = rank a MoveRef ClassTemplate"

definition failureCtor :: "'b Traits \<Rightarrow> 'b CType \<Rightarrow> 'b Arg \<Rightarrow> FailureCtor resolution" where
  "failureCtor X e a = resolve (failureRank a) (filter (failureViable X e a)
     [FailureCopy, FailureMove, FailureInPlace, FailureImplicitValue, FailureExplicitValue, FailureConvCopy, FailureConvMove])"

section \<open>Assignment to a Failure\<close>

datatype FailureAssign =
  FailCopyAssign | FailMoveAssign | FailConvCopyAssign | FailConvMoveAssign | FailValueAssign

fun failAssignViable :: "'b Traits \<Rightarrow> 'b CType \<Rightarrow> 'b Arg \<Rightarrow> FailureAssign \<Rightarrow> bool" where
  "failAssignViable X e a FailCopyAssign = (arg_class a = FailureT e)"
| "failAssignViable X e a FailMoveAssign = (arg_class a = FailureT e \<and> movable a)"
| "failAssignViable X e a FailConvCopyAssign = (case arg_class a of FailureT e2 \<Rightarrow> formed (assignable_from X e) (cref e2) | _ \<Rightarrow> False)"
| "failAssignViable X e a FailConvMoveAssign =
     (case arg_class a of FailureT e2 \<Rightarrow> movable a \<and> formed (assignable_from X e) (rref e2) | _ \<Rightarrow> False)"
| "failAssignViable X e a FailValueAssign = FailureIsValueAssignable X (deduced a) e"

fun failAssignRank :: "'b Arg \<Rightarrow> FailureAssign \<Rightarrow> nat" where
  "failAssignRank a FailCopyAssign = rank a ConstRef Function"
| "failAssignRank a FailMoveAssign = rank a MoveRef Function"
| "failAssignRank a FailConvCopyAssign = rank a ConstRef ClassTemplate"
| "failAssignRank a FailConvMoveAssign = rank a MoveRef ClassTemplate"
| "failAssignRank a FailValueAssign = rank a Forward AnyTemplate"

text \<open>If no operator takes the argument, it may be converted by a constructor that is not explicit.\<close>

definition failureAssign :: "'b Traits \<Rightarrow> 'b CType \<Rightarrow> 'b Arg \<Rightarrow> FailureAssign resolution" where
  "failureAssign X e a =
     (case resolve (failAssignRank a) (filter (failAssignViable X e a)
         [FailCopyAssign, FailMoveAssign, FailConvCopyAssign, FailConvMoveAssign, FailValueAssign]) of
        NoMatch \<Rightarrow> if failureCtor X e a \<in> Chosen ` {FailureImplicitValue, FailureConvCopy, FailureConvMove} then Chosen FailMoveAssign else NoMatch
      | r \<Rightarrow> r)"

section \<open>Constructors of Result\<close>

datatype ResultCtor =
  CopyCtor | MoveCtor | ImplicitCopyConv | ExplicitCopyConv | ImplicitMoveConv | ExplicitMoveConv |
  InPlaceValueCtor | InPlaceErrorCtor | FailureCopyCtor | FailureMoveCtor | ImplicitValueCtor | ExplicitValueCtor

text \<open>The tags without a further argument; the value and the error are then the default ones.\<close>

fun resultViable :: "'b Traits \<Rightarrow> 'b CType \<Rightarrow> 'b CType \<Rightarrow> 'b Arg \<Rightarrow> ResultCtor \<Rightarrow> bool" where
  "resultViable X t e a CopyCtor = (arg_class a = ResultT t e)"
| "resultViable X t e a MoveCtor = (arg_class a = ResultT t e \<and> movable a)"
| "resultViable X t e a ImplicitCopyConv =
     (case arg_class a of ResultT t2 e2 \<Rightarrow> ImplicitlyCopyConvertibleResult X t e t2 e2 | _ \<Rightarrow> False)"
| "resultViable X t e a ExplicitCopyConv =
     (case arg_class a of ResultT t2 e2 \<Rightarrow> ExplicitlyCopyConvertibleResult X t e t2 e2 | _ \<Rightarrow> False)"
| "resultViable X t e a ImplicitMoveConv =
     (case arg_class a of ResultT t2 e2 \<Rightarrow> movable a \<and> ImplicitlyMoveConvertibleResult X t e t2 e2 | _ \<Rightarrow> False)"
| "resultViable X t e a ExplicitMoveConv =
     (case arg_class a of ResultT t2 e2 \<Rightarrow> movable a \<and> ExplicitlyMoveConvertibleResult X t e t2 e2 | _ \<Rightarrow> False)"
| "resultViable X t e a InPlaceValueCtor = (arg_class a = TagT InPlaceValueT)"
| "resultViable X t e a InPlaceErrorCtor = (arg_class a = TagT InPlaceErrorT)"
| "resultViable X t e a FailureCopyCtor =
     (case arg_class a of FailureT e2 \<Rightarrow> formed (constructible_from X e) (cref e2) | _ \<Rightarrow> False)"
| "resultViable X t e a FailureMoveCtor =
     (case arg_class a of FailureT e2 \<Rightarrow> movable a \<and> formed (constructible_from X e) (rref e2) | _ \<Rightarrow> False)"
| "resultViable X t e a ImplicitValueCtor = ImplicitlyResultValueConvertibleTo X (deduced a) t"
| "resultViable X t e a ExplicitValueCtor = ExplicitlyResultValueConvertibleTo X (deduced a) t"

fun resultRank :: "'b Arg \<Rightarrow> ResultCtor \<Rightarrow> nat" where
  "resultRank a CopyCtor = rank a ConstRef Function"
| "resultRank a MoveCtor = rank a MoveRef Function"
| "resultRank a ImplicitCopyConv = rank a ConstRef ClassTemplate"
| "resultRank a ExplicitCopyConv = rank a ConstRef ClassTemplate"
| "resultRank a ImplicitMoveConv = rank a MoveRef ClassTemplate"
| "resultRank a ExplicitMoveConv = rank a MoveRef ClassTemplate"
| "resultRank a InPlaceValueCtor = rank a ByValue ClassTemplate"
| "resultRank a InPlaceErrorCtor = rank a ByValue ClassTemplate"
| "resultRank a FailureCopyCtor = rank a ConstRef ClassTemplate"
| "resultRank a FailureMoveCtor = rank a MoveRef ClassTemplate"
| "resultRank a ImplicitValueCtor = rank a Forward AnyTemplate"
| "resultRank a ExplicitValueCtor = rank a Forward AnyTemplate"

definition explicitCtors :: "ResultCtor list" where
  "explicitCtors = [ExplicitCopyConv, ExplicitMoveConv, InPlaceValueCtor, InPlaceErrorCtor, ExplicitValueCtor]"

text \<open>A copy-initialization, as that of a value returned by a function, leaves the explicit constructors out.\<close>

definition resultCtor :: "bool \<Rightarrow> 'b Traits \<Rightarrow> 'b CType \<Rightarrow> 'b CType \<Rightarrow> 'b Arg \<Rightarrow> ResultCtor resolution" where
  "resultCtor direct X t e a = resolve (resultRank a)
     (filter (\<lambda>c. resultViable X t e a c \<and> (direct \<or> c \<notin> set explicitCtors))
       [CopyCtor, MoveCtor, ImplicitCopyConv, ExplicitCopyConv, ImplicitMoveConv, ExplicitMoveConv, InPlaceValueCtor,
        InPlaceErrorCtor, FailureCopyCtor, FailureMoveCtor, ImplicitValueCtor, ExplicitValueCtor])"

text \<open>What a constructor of the value is chosen for.\<close>

definition valueCtor :: "bool \<Rightarrow> 'b Traits \<Rightarrow> 'b CType \<Rightarrow> 'b Arg \<Rightarrow> ResultCtor option" where
  "valueCtor direct X t a =
     (if ImplicitlyResultValueConvertibleTo X (deduced a) t then Some ImplicitValueCtor
      else if direct \<and> ExplicitlyResultValueConvertibleTo X (deduced a) t then Some ExplicitValueCtor else None)"

lemma concepts_apart:
  "ImplicitlyResultValueConvertibleTo X u t \<Longrightarrow> \<not> ExplicitlyResultValueConvertibleTo X u t"
  "ImplicitlyCopyConvertibleResult X t e t2 e2 \<Longrightarrow> \<not> ExplicitlyCopyConvertibleResult X t e t2 e2"
  "ImplicitlyMoveConvertibleResult X t e t2 e2 \<Longrightarrow> \<not> ExplicitlyMoveConvertibleResult X t e t2 e2"
  by (auto simp: ImplicitlyResultValueConvertibleTo_def ExplicitlyResultValueConvertibleTo_def
      ImplicitlyCopyConvertibleResult_def ExplicitlyCopyConvertibleResult_def
      ImplicitlyMoveConvertibleResult_def ExplicitlyMoveConvertibleResult_def formed_def split: option.splits)

lemma decay_deduced: "remove_ref (arg_type a) = arg_type a \<Longrightarrow> decay (deduced a) = arg_class a"
  by (cases a) (auto simp: decay_def arg_class_def)

lemma value_classes:
  "ResultValueConvertibleTo X (deduced a) t \<Longrightarrow> remove_ref (arg_type a) = arg_type a \<Longrightarrow>
    arg_class a \<noteq> ResultT t2 e2 \<and> arg_class a \<noteq> TagT InPlaceT \<and> arg_class a \<noteq> TagT InPlaceValueT \<and> arg_class a \<noteq> TagT InPlaceErrorT"
  by (auto simp: ResultValueConvertibleTo_def decay_deduced)

lemma value_classes' [simp]:
  assumes "remove_ref (arg_type a) = arg_type a" and "arg_class a = ResultT t2 e2 \<or> (\<exists>g. arg_class a = TagT g \<and> g \<noteq> InPlaceEmptyT)"
  shows "\<not> ImplicitlyResultValueConvertibleTo X (deduced a) t" "\<not> ExplicitlyResultValueConvertibleTo X (deduced a) t"
proof -
  have "\<not> ResultValueConvertibleTo X (deduced a) t"
    using assms value_classes [of X a t t2 e2] by (metis tag.exhaust)
  then show "\<not> ImplicitlyResultValueConvertibleTo X (deduced a) t" "\<not> ExplicitlyResultValueConvertibleTo X (deduced a) t"
    by (simp_all add: ImplicitlyResultValueConvertibleTo_def ExplicitlyResultValueConvertibleTo_def)
qed

lemma movable_not_const: "movable a \<Longrightarrow> \<not> const_lvalue a"
  by (cases a) auto

lemma resolve_Chosen:
  assumes "c \<in> set cs" and "P c" and "distinct cs" and "\<And>d. d \<in> set cs \<Longrightarrow> P d \<Longrightarrow> d \<noteq> c \<Longrightarrow> r c < r d"
  shows "resolve r (filter P cs) = Chosen c"
proof -
  have "filter (\<lambda>c'. \<forall>d \<in> set (filter P cs). r c' \<le> r d) (filter P cs) = filter (\<lambda>c'. c' = c) cs"
    unfolding filter_filter using assms by (intro filter_cong) (auto simp: not_le[symmetric] dest: leD, fastforce)
  also have "\<dots> = [c]" using assms(1,3) by (induction cs) (auto intro: filter_False)
  finally show ?thesis by (simp add: resolve_def)
qed

lemma resolve_NoMatch: "\<forall>d \<in> set cs. \<not> P d \<Longrightarrow> resolve r (filter P cs) = NoMatch"
  by (simp add: resolve_def)

lemma resultCtor_Chosen:
  assumes "resultViable X t e a c" and "direct \<or> c \<notin> set explicitCtors"
    and "\<And>d. resultViable X t e a d \<Longrightarrow> direct \<or> d \<notin> set explicitCtors \<Longrightarrow> d \<noteq> c \<Longrightarrow> resultRank a c < resultRank a d"
  shows "resultCtor direct X t e a = Chosen c"
  unfolding resultCtor_def by (rule resolve_Chosen) (use assms in \<open>cases c; auto\<close>)+

lemma result_ctor_of_result:
  assumes "remove_ref (arg_type a) = arg_type a" and "arg_class a = ResultT t2 e2"
  shows "resultCtor direct X t e a =
    (if t2 = t \<and> e2 = e then Chosen (if movable a then MoveCtor else CopyCtor)
     else if movable a \<and> ImplicitlyMoveConvertibleResult X t e t2 e2 then Chosen ImplicitMoveConv
     else if movable a \<and> direct \<and> ExplicitlyMoveConvertibleResult X t e t2 e2 then Chosen ExplicitMoveConv
     else if ImplicitlyCopyConvertibleResult X t e t2 e2 then Chosen ImplicitCopyConv
     else if direct \<and> ExplicitlyCopyConvertibleResult X t e t2 e2 then Chosen ExplicitCopyConv
     else NoMatch)"
proof -
  have novalue: "\<not> ImplicitlyResultValueConvertibleTo X (deduced a) t" "\<not> ExplicitlyResultValueConvertibleTo X (deduced a) t"
    using assms by simp_all
  note apart = concepts_apart(2,3) [of X t e t2 e2]
  show ?thesis
  proof (cases "movable a")
    case True
    note rest = assms(2) novalue True movable_not_const [OF True] explicitCtors_def
    let ?mi = "ImplicitlyMoveConvertibleResult X t e t2 e2" and ?me = "ExplicitlyMoveConvertibleResult X t e t2 e2"
    consider (same) "t2 = t" "e2 = e" | (implicit) "\<not> (t2 = t \<and> e2 = e)" ?mi
      | (explicit) "\<not> (t2 = t \<and> e2 = e)" "\<not> ?mi" ?me direct
      | (copy) "\<not> (t2 = t \<and> e2 = e)" "\<not> ?mi" "\<not> (direct \<and> ?me)" by blast
    then show ?thesis
    proof cases
      case same
      have "resultCtor direct X t e a = Chosen MoveCtor"
        by (rule resultCtor_Chosen) (use same in \<open>auto simp: rest elim: resultViable.elims\<close>)
      with same True show ?thesis by simp
    next
      case implicit
      have "resultCtor direct X t e a = Chosen ImplicitMoveConv"
        by (rule resultCtor_Chosen) (use implicit apart in \<open>auto simp: rest elim: resultViable.elims\<close>)
      with implicit True show ?thesis by auto
    next
      case explicit
      have "resultCtor direct X t e a = Chosen ExplicitMoveConv"
        by (rule resultCtor_Chosen) (use explicit in \<open>auto simp: rest elim: resultViable.elims\<close>)
      with explicit True show ?thesis by auto
    next
      case copy
      then show ?thesis
        using apart
        by (cases "ImplicitlyCopyConvertibleResult X t e t2 e2"; cases "ExplicitlyCopyConvertibleResult X t e t2 e2"; cases direct;
            simp add: rest resultCtor_def resolve_def)
    qed
  next
    case False
    note simps = assms(2) novalue False resultCtor_def resolve_def explicitCtors_def
    show ?thesis
      using apart
      by (cases "t2 = t \<and> e2 = e"; cases "ImplicitlyCopyConvertibleResult X t e t2 e2";
          cases "ExplicitlyCopyConvertibleResult X t e t2 e2"; cases direct; simp add: simps)
  qed
qed

lemma result_ctor_of_failure:
  assumes "arg_class a = FailureT e2"
  shows "resultCtor direct X t e a =
    (if movable a \<and> formed (constructible_from X e) (rref e2) then Chosen FailureMoveCtor
     else if formed (constructible_from X e) (cref e2) \<and> (const_lvalue a \<or> valueCtor direct X t a = None)
     then Chosen FailureCopyCtor
     else (case valueCtor direct X t a of None \<Rightarrow> NoMatch | Some c \<Rightarrow> Chosen c))"
proof -
  let ?fm = "movable a \<and> formed (constructible_from X e) (rref e2)" and ?fc = "formed (constructible_from X e) (cref e2)"
  let ?v = "valueCtor direct X t a"
  consider (move) ?fm | (copy) "\<not> ?fm" ?fc "const_lvalue a \<or> ?v = None" | (skip) "\<not> ?fm" "\<not> (?fc \<and> (const_lvalue a \<or> ?v = None))"
    by argo
  then show ?thesis
  proof cases
    case move
    have "resultCtor direct X t e a = Chosen FailureMoveCtor"
      by (rule resultCtor_Chosen)
        (use move assms movable_not_const [of a] in \<open>auto simp: explicitCtors_def elim: resultViable.elims\<close>)
    with move show ?thesis by simp
  next
    case copy
    have "resultCtor direct X t e a = Chosen FailureCopyCtor"
      by (rule resultCtor_Chosen)
        (use copy assms in \<open>auto simp: explicitCtors_def valueCtor_def elim: resultViable.elims split: if_splits\<close>)
    with copy show ?thesis by auto
  next
    case skip
    then show ?thesis
      using concepts_apart(1) [of X "deduced a" t] assms
      by (cases "ImplicitlyResultValueConvertibleTo X (deduced a) t"; cases "ExplicitlyResultValueConvertibleTo X (deduced a) t";
          cases direct; cases ?fc)
        (simp_all add: resultCtor_def resolve_def explicitCtors_def valueCtor_def)
  qed
qed

lemma result_ctor_of_tag:
  assumes "remove_ref (arg_type a) = arg_type a" and "arg_class a = TagT g" and "g \<in> {InPlaceValueT, InPlaceErrorT}"
  shows "resultCtor direct X t e a =
    (if direct then Chosen (if g = InPlaceValueT then InPlaceValueCtor else InPlaceErrorCtor) else NoMatch)"
  using assms concepts_apart(1) [of X "deduced a" t]
  by (cases g; cases "ImplicitlyResultValueConvertibleTo X (deduced a) t"; cases "ExplicitlyResultValueConvertibleTo X (deduced a) t";
      cases direct; simp add: resultCtor_def resolve_def explicitCtors_def)

lemma result_ctor_of_value:
  assumes "\<not> IsResult (arg_class a)" and "\<not> IsFailure (arg_class a)" and "arg_class a \<noteq> TagT InPlaceValueT"
    and "arg_class a \<noteq> TagT InPlaceErrorT"
  shows "resultCtor direct X t e a = (case valueCtor direct X t a of None \<Rightarrow> NoMatch | Some c \<Rightarrow> Chosen c)"
proof -
  have none: "\<not> resultViable X t e a c" if "c \<noteq> ImplicitValueCtor" "c \<noteq> ExplicitValueCtor" for c
    using assms that by (cases c; cases "arg_class a") simp_all
  show ?thesis
    using concepts_apart(1) [of X "deduced a" t]
    by (cases "ImplicitlyResultValueConvertibleTo X (deduced a) t"; cases "ExplicitlyResultValueConvertibleTo X (deduced a) t";
        cases direct; simp add: resultCtor_def resolve_def explicitCtors_def valueCtor_def none del: resultViable.simps(1-10))
qed

text \<open>C35: The constructor of a \<open>Result\<close> that an argument selects is determined, whatever the types: the overloads
  are never ambiguous.  A \<open>Result\<close> is copied, moved or converted, never taken as a value; a tag selects the value or the
  error.  A \<open>Failure\<close> makes an error if it is a movable rvalue and the error can be constructed from its moved error, or if
  the error can be constructed from its constant error and it is a const lvalue or no value can be constructed from it;
  otherwise (a non-const lvalue or a const rvalue, or an error that cannot be constructed) it makes a value if one can be
  constructed from it, and else selects nothing.  Any other argument makes a value, or selects nothing.
\<close>

theorem result_ctor_chosen:
  assumes "remove_ref (arg_type a) = arg_type a"
  shows "resultCtor direct X t e a =
    (case arg_class a of
       ResultT t2 e2 \<Rightarrow>
         if t2 = t \<and> e2 = e then Chosen (if movable a then MoveCtor else CopyCtor)
         else if movable a \<and> ImplicitlyMoveConvertibleResult X t e t2 e2 then Chosen ImplicitMoveConv
         else if movable a \<and> direct \<and> ExplicitlyMoveConvertibleResult X t e t2 e2 then Chosen ExplicitMoveConv
         else if ImplicitlyCopyConvertibleResult X t e t2 e2 then Chosen ImplicitCopyConv
         else if direct \<and> ExplicitlyCopyConvertibleResult X t e t2 e2 then Chosen ExplicitCopyConv
         else NoMatch
     | TagT InPlaceValueT \<Rightarrow> if direct then Chosen InPlaceValueCtor else NoMatch
     | TagT InPlaceErrorT \<Rightarrow> if direct then Chosen InPlaceErrorCtor else NoMatch
     | FailureT e2 \<Rightarrow>
         if movable a \<and> formed (constructible_from X e) (rref e2) then Chosen FailureMoveCtor
         else if formed (constructible_from X e) (cref e2) \<and> (const_lvalue a \<or> valueCtor direct X t a = None)
         then Chosen FailureCopyCtor
         else (case valueCtor direct X t a of None \<Rightarrow> NoMatch | Some c \<Rightarrow> Chosen c)
     | _ \<Rightarrow> (case valueCtor direct X t a of None \<Rightarrow> NoMatch | Some c \<Rightarrow> Chosen c))"
proof (cases "arg_class a")
  case (TagT g)
  then show ?thesis
    using result_ctor_of_tag [OF assms TagT, of direct X t e] result_ctor_of_value [of a direct X t e] by (cases g) simp_all
qed (simp_all add: result_ctor_of_result [OF assms] result_ctor_of_failure result_ctor_of_value)

text \<open>
  What the assertions of the template are for: an rvalue of the type of the value makes a value, and a
  \<open>Failure\<close> with an rvalue of the type of the error makes an error.
\<close>

theorem result_own_types:
  assumes "resultType X t e" and "remove_ref t = t" and "remove_const t = t" and "t \<noteq> VoidT"
    and "remove_ref e = e" and "remove_const e = e"
    and "constructible_from X t (RRefT t)" and "convertible_to X (RRefT t) t" and "constructible_from X e (RRefT e)"
  shows "resultCtor direct X t e (Rvalue t) = Chosen ImplicitValueCtor \<and>
    resultCtor direct X t e (Rvalue (FailureT e)) = Chosen FailureMoveCtor"
proof
  have rref: "rref u = Some (RRefT u)" if "remove_ref u = u" "remove_const u = u" "u \<noteq> VoidT" for u :: "'a CType"
    using that by (cases u) auto
  have makes: "ImplicitlyResultValueConvertibleTo X (deduced (Rvalue t)) t"
    using assms rref [of t]
    by (auto simp: ImplicitlyResultValueConvertibleTo_def ResultValueConvertibleTo_def resultType_def decay_def)
  have "remove_ref (arg_type (Rvalue t)) = arg_type (Rvalue t)" "arg_class (Rvalue t) = t"
    using assms(2,3) by (simp_all add: arg_class_def)
  moreover have "\<not> IsResult t" "\<not> IsFailure t" "t \<noteq> TagT InPlaceValueT" "t \<noteq> TagT InPlaceErrorT"
    using assms(1-3) by (auto simp: resultType_def decay_def)
  ultimately show "resultCtor direct X t e (Rvalue t) = Chosen ImplicitValueCtor"
    using result_ctor_of_value [of "Rvalue t" direct X t e] makes by (simp add: valueCtor_def)
  have "e \<noteq> VoidT" using assms(1) by (auto simp: resultType_def decay_def)
  then show "resultCtor direct X t e (Rvalue (FailureT e)) = Chosen FailureMoveCtor"
    using result_ctor_of_failure [of "Rvalue (FailureT e)" e direct X t e] rref [OF assms(5,6)] assms(9)
    by (simp add: arg_class_def)
qed

section \<open>Constructors of Result of void\<close>

datatype VoidCtor =
  VoidCopy | VoidMove | VoidConvCopy | VoidConvMove | VoidInPlaceValue | VoidInPlaceError | VoidFailureCopy | VoidFailureMove

text \<open>The constraint of the last constructor is on the type of the error of the \<open>Failure\<close>, not on that of the \<open>Result\<close>.\<close>

fun voidViable :: "'b Traits \<Rightarrow> 'b CType \<Rightarrow> 'b Arg \<Rightarrow> VoidCtor \<Rightarrow> bool" where
  "voidViable X e a VoidCopy = (arg_class a = ResultT VoidT e)"
| "voidViable X e a VoidMove = (arg_class a = ResultT VoidT e \<and> movable a)"
| "voidViable X e a VoidConvCopy = (case arg_class a of ResultT u e2 \<Rightarrow> formed (constructible_from X e) (cref e2) | _ \<Rightarrow> False)"
| "voidViable X e a VoidConvMove =
     (case arg_class a of ResultT u e2 \<Rightarrow> movable a \<and> formed (constructible_from X e) (rref e2) | _ \<Rightarrow> False)"
| "voidViable X e a VoidInPlaceValue = (arg_class a = TagT InPlaceValueT)"
| "voidViable X e a VoidInPlaceError = (arg_class a = TagT InPlaceErrorT \<and> default_constructible X e)"
| "voidViable X e a VoidFailureCopy = (case arg_class a of FailureT e2 \<Rightarrow> formed (constructible_from X e) (cref e2) | _ \<Rightarrow> False)"
| "voidViable X e a VoidFailureMove =
     (case arg_class a of FailureT e2 \<Rightarrow> movable a \<and> formed (constructible_from X e2) (rref e2) | _ \<Rightarrow> False)"

fun voidRank :: "'b Arg \<Rightarrow> VoidCtor \<Rightarrow> nat" where
  "voidRank a VoidCopy = rank a ConstRef Function"
| "voidRank a VoidMove = rank a MoveRef Function"
| "voidRank a VoidConvCopy = rank a ConstRef ClassTemplate"
| "voidRank a VoidConvMove = rank a MoveRef ClassTemplate"
| "voidRank a VoidInPlaceValue = rank a ByValue Function"
| "voidRank a VoidInPlaceError = rank a ByValue ClassTemplate"
| "voidRank a VoidFailureCopy = rank a ConstRef ClassTemplate"
| "voidRank a VoidFailureMove = rank a MoveRef ClassTemplate"

definition voidCtor :: "bool \<Rightarrow> 'b Traits \<Rightarrow> 'b CType \<Rightarrow> 'b Arg \<Rightarrow> VoidCtor resolution" where
  "voidCtor direct X e a = resolve (voidRank a)
     (filter (\<lambda>c. voidViable X e a c \<and> (direct \<or> c \<notin> set [VoidConvCopy, VoidConvMove, VoidInPlaceValue, VoidInPlaceError]))
       [VoidCopy, VoidMove, VoidConvCopy, VoidConvMove, VoidInPlaceValue, VoidInPlaceError, VoidFailureCopy, VoidFailureMove])"

theorem void_ctor_chosen:
  "voidCtor direct X e a =
    (case arg_class a of
       ResultT t2 e2 \<Rightarrow>
         if t2 = VoidT \<and> e2 = e then Chosen (if movable a then VoidMove else VoidCopy)
         else if direct \<and> movable a \<and> formed (constructible_from X e) (rref e2) then Chosen VoidConvMove
         else if direct \<and> formed (constructible_from X e) (cref e2) then Chosen VoidConvCopy
         else NoMatch
     | FailureT e2 \<Rightarrow>
         if movable a \<and> formed (constructible_from X e2) (rref e2) then Chosen VoidFailureMove
         else if formed (constructible_from X e) (cref e2) then Chosen VoidFailureCopy
         else NoMatch
     | TagT InPlaceValueT \<Rightarrow> if direct then Chosen VoidInPlaceValue else NoMatch
     | TagT InPlaceErrorT \<Rightarrow> if direct \<and> default_constructible X e then Chosen VoidInPlaceError else NoMatch
     | _ \<Rightarrow> NoMatch)"
proof (cases "arg_class a")
  case (ResultT t2 e2)
  let ?m = "formed (constructible_from X e) (rref e2)" and ?c = "formed (constructible_from X e) (cref e2)"
  show ?thesis
    using movable_not_const [of a]
    by (cases "t2 = VoidT \<and> e2 = e"; cases "movable a"; cases ?m; cases ?c; cases direct; simp add: ResultT voidCtor_def resolve_def)
next
  case (FailureT e2)
  let ?m = "formed (constructible_from X e2) (rref e2)" and ?c = "formed (constructible_from X e) (cref e2)"
  show ?thesis
    using movable_not_const [of a]
    by (cases "movable a"; cases ?m; cases ?c; simp add: FailureT voidCtor_def resolve_def)
next
  case (TagT g)
  show ?thesis by (cases g; cases direct; cases "default_constructible X e"; simp add: TagT voidCtor_def resolve_def)
qed (simp_all add: voidCtor_def resolve_def)

section \<open>Constructors of Optional\<close>

datatype OptionalCtor =
  OptCopy | OptMove | OptImplicitCopyConv | OptExplicitCopyConv | OptImplicitMoveConv | OptExplicitMoveConv |
  OptInPlaceValue | OptImplicitValue | OptExplicitValue

fun optionalViable :: "'b Traits \<Rightarrow> 'b CType \<Rightarrow> 'b Arg \<Rightarrow> OptionalCtor \<Rightarrow> bool" where
  "optionalViable X t a OptCopy = (arg_class a = OptionalT t)"
| "optionalViable X t a OptMove = (arg_class a = OptionalT t \<and> movable a)"
| "optionalViable X t a OptImplicitCopyConv =
     (case arg_class a of OptionalT t2 \<Rightarrow> ImplicitlyCopyConvertibleOptional X t t2 | _ \<Rightarrow> False)"
| "optionalViable X t a OptExplicitCopyConv =
     (case arg_class a of OptionalT t2 \<Rightarrow> ExplicitlyCopyConvertibleOptional X t t2 | _ \<Rightarrow> False)"
| "optionalViable X t a OptImplicitMoveConv =
     (case arg_class a of OptionalT t2 \<Rightarrow> movable a \<and> ImplicitlyMoveConvertibleOptional X t t2 | _ \<Rightarrow> False)"
| "optionalViable X t a OptExplicitMoveConv =
     (case arg_class a of OptionalT t2 \<Rightarrow> movable a \<and> ExplicitlyMoveConvertibleOptional X t t2 | _ \<Rightarrow> False)"
| "optionalViable X t a OptInPlaceValue = (arg_class a = TagT InPlaceValueT)"
| "optionalViable X t a OptImplicitValue = ImplicitlyOptionalValueConvertibleTo X (deduced a) t"
| "optionalViable X t a OptExplicitValue = ExplicitlyOptionalValueConvertibleTo X (deduced a) t"

fun optionalRank :: "'b Arg \<Rightarrow> OptionalCtor \<Rightarrow> nat" where
  "optionalRank a OptCopy = rank a ConstRef Function"
| "optionalRank a OptMove = rank a MoveRef Function"
| "optionalRank a OptImplicitCopyConv = rank a ConstRef ClassTemplate"
| "optionalRank a OptExplicitCopyConv = rank a ConstRef ClassTemplate"
| "optionalRank a OptImplicitMoveConv = rank a MoveRef ClassTemplate"
| "optionalRank a OptExplicitMoveConv = rank a MoveRef ClassTemplate"
| "optionalRank a OptInPlaceValue = rank a ByValue ClassTemplate"
| "optionalRank a OptImplicitValue = rank a Forward AnyTemplate"
| "optionalRank a OptExplicitValue = rank a Forward AnyTemplate"

definition optionalCtor :: "bool \<Rightarrow> 'b Traits \<Rightarrow> 'b CType \<Rightarrow> 'b Arg \<Rightarrow> OptionalCtor resolution" where
  "optionalCtor direct X t a = resolve (optionalRank a)
     (filter (\<lambda>c. optionalViable X t a c \<and>
         (direct \<or> c \<notin> set [OptExplicitCopyConv, OptExplicitMoveConv, OptInPlaceValue, OptExplicitValue]))
       [OptCopy, OptMove, OptImplicitCopyConv, OptExplicitCopyConv, OptImplicitMoveConv, OptExplicitMoveConv,
        OptInPlaceValue, OptImplicitValue, OptExplicitValue])"

section \<open>Assignment to a Result\<close>

text \<open>
  If no operator takes the argument, it is converted to a \<open>Result\<close> that is then moved.
\<close>

datatype ResultAssign =
  CopyAssign | MoveAssign | ConvCopyAssign | ConvMoveAssign | ValueAssign | FailureCopyAssign | FailureMoveAssign |
  ViaConversion ResultCtor

fun assignViable :: "'b Traits \<Rightarrow> 'b CType \<Rightarrow> 'b CType \<Rightarrow> 'b Arg \<Rightarrow> ResultAssign \<Rightarrow> bool" where
  "assignViable X t e a CopyAssign = (arg_class a = ResultT t e)"
| "assignViable X t e a MoveAssign = (arg_class a = ResultT t e \<and> movable a)"
| "assignViable X t e a ConvCopyAssign =
     (case arg_class a of ResultT t2 e2 \<Rightarrow> CopyConvertAssignableResult X t e t2 e2 | _ \<Rightarrow> False)"
| "assignViable X t e a ConvMoveAssign =
     (case arg_class a of ResultT t2 e2 \<Rightarrow> movable a \<and> MoveConvertAssignableResult X t e t2 e2 | _ \<Rightarrow> False)"
| "assignViable X t e a ValueAssign = ResultValueAssignableTo X (deduced a) t"
| "assignViable X t e a FailureCopyAssign = (case arg_class a of FailureT e2 \<Rightarrow> ErrorAssignable X e (cref e2) | _ \<Rightarrow> False)"
| "assignViable X t e a FailureMoveAssign =
     (case arg_class a of FailureT e2 \<Rightarrow> movable a \<and> ErrorAssignable X e (rref e2) | _ \<Rightarrow> False)"
| "assignViable X t e a (ViaConversion c) = False"

fun assignRank :: "'b Arg \<Rightarrow> ResultAssign \<Rightarrow> nat" where
  "assignRank a CopyAssign = rank a ConstRef Function"
| "assignRank a MoveAssign = rank a MoveRef Function"
| "assignRank a ConvCopyAssign = rank a ConstRef ClassTemplate"
| "assignRank a ConvMoveAssign = rank a MoveRef ClassTemplate"
| "assignRank a ValueAssign = rank a Forward AnyTemplate"
| "assignRank a FailureCopyAssign = rank a ConstRef ClassTemplate"
| "assignRank a FailureMoveAssign = rank a MoveRef ClassTemplate"
| "assignRank a (ViaConversion c) = 0"

definition resultAssign :: "'b Traits \<Rightarrow> 'b CType \<Rightarrow> 'b CType \<Rightarrow> 'b Arg \<Rightarrow> ResultAssign resolution" where
  "resultAssign X t e a =
     (case resolve (assignRank a) (filter (assignViable X t e a)
         [CopyAssign, MoveAssign, ConvCopyAssign, ConvMoveAssign, ValueAssign, FailureCopyAssign, FailureMoveAssign]) of
        NoMatch \<Rightarrow>
          (case resultCtor False X t e a of
             NoMatch \<Rightarrow> NoMatch
           | Ambiguous \<Rightarrow> Ambiguous
           | Chosen c \<Rightarrow> Chosen (ViaConversion c))
      | r \<Rightarrow> r)"

text \<open>The operators of \<open>Result<void, E>\<close>; the constraint of the moving one has the error of the left side twice.\<close>

fun voidAssignViable :: "'b Traits \<Rightarrow> 'b CType \<Rightarrow> 'b Arg \<Rightarrow> ResultAssign \<Rightarrow> bool" where
  "voidAssignViable X e a CopyAssign = (arg_class a = ResultT VoidT e)"
| "voidAssignViable X e a MoveAssign = (arg_class a = ResultT VoidT e \<and> movable a)"
| "voidAssignViable X e a ConvCopyAssign =
     (case arg_class a of ResultT t2 e2 \<Rightarrow> t2 = VoidT \<and> formed (constructible_from X e) (cref e2) \<and>
        formed (assignable_from X (WrappedValueType e)) (cref e2) | _ \<Rightarrow> False)"
| "voidAssignViable X e a ConvMoveAssign =
     (case arg_class a of ResultT t2 e2 \<Rightarrow> t2 = VoidT \<and> movable a \<and> formed (constructible_from X e) (rref e2) \<and>
        formed (assignable_from X (WrappedValueType e)) (rref e) | _ \<Rightarrow> False)"
| "voidAssignViable X e a FailureCopyAssign = (case arg_class a of FailureT e2 \<Rightarrow> ErrorAssignable X e (cref e2) | _ \<Rightarrow> False)"
| "voidAssignViable X e a FailureMoveAssign =
     (case arg_class a of FailureT e2 \<Rightarrow> movable a \<and> ErrorAssignable X e (rref e2) | _ \<Rightarrow> False)"
| "voidAssignViable X e a ValueAssign = False"
| "voidAssignViable X e a (ViaConversion c) = False"

text \<open>C36: A \<open>Result<T2,E2>\<close> of other types from which a value \<open>T\<close> or an error \<open>E\<close> can be constructed, in some way, is
  not converted by a constructor of \<open>Result<T,E>\<close>.  If \<open>T\<close> can be constructed and assigned from a constant \<open>T2\<close>, and
  \<open>E\<close> from a constant \<open>E2\<close>, it is converted by the assignment, unless both \<open>T\<close> and \<open>E\<close> can be assigned from the
  \<open>Result\<close> in every way: then there is no assignment either.
\<close>

theorem assignment_converts_more:
  assumes "arg_class a = ResultT t2 e2" and "ConvertibleResult X t e t2 e2" and "\<not> (t2 = t \<and> e2 = e)" and "remove_ref (arg_type a) = arg_type a"
    and "formed (constructible_from X t) (cref t2)" "formed (assignable_from X (WrappedValueType t)) (cref t2)"
    and "formed (constructible_from X e) (cref e2)" "formed (assignable_from X (WrappedValueType e)) (cref e2)"
  shows "resultCtor direct X t e a = NoMatch \<and>
    (if list_all (assignable_from X t) (passed (ResultT t2 e2)) \<and> list_all (assignable_from X e) (passed (ResultT t2 e2))
     then resultAssign X t e a = NoMatch
     else resultAssign X t e a \<in> {Chosen ConvCopyAssign, Chosen ConvMoveAssign})"
proof
  have none: "\<not> ImplicitlyCopyConvertibleResult X t e t2 e2" "\<not> ExplicitlyCopyConvertibleResult X t e t2 e2"
    "\<not> ImplicitlyMoveConvertibleResult X t e t2 e2" "\<not> ExplicitlyMoveConvertibleResult X t e t2 e2"
    using assms(2) by (simp_all add: ImplicitlyCopyConvertibleResult_def ExplicitlyCopyConvertibleResult_def
        ImplicitlyMoveConvertibleResult_def ExplicitlyMoveConvertibleResult_def CopyConvertibleResult_def MoveConvertibleResult_def)
  then have ctor: "resultCtor d X t e a = NoMatch" for d
    using result_ctor_of_result [OF assms(4,1), of d X t e] assms(3) by auto
  then show "resultCtor direct X t e a = NoMatch" .
  have no_value: "\<not> ResultValueAssignableTo X (deduced a) t"
    using assms(1,4) by (simp add: ResultValueAssignableTo_def decay_deduced)
  show "if list_all (assignable_from X t) (passed (ResultT t2 e2)) \<and> list_all (assignable_from X e) (passed (ResultT t2 e2))
     then resultAssign X t e a = NoMatch
     else resultAssign X t e a \<in> {Chosen ConvCopyAssign, Chosen ConvMoveAssign}"
  proof (cases "ConvertAssignableResult X t e t2 e2")
    case True
    then have "\<not> CopyConvertAssignableResult X t e t2 e2" "\<not> MoveConvertAssignableResult X t e t2 e2"
      by (simp_all add: CopyConvertAssignableResult_def MoveConvertAssignableResult_def)
    with True show ?thesis
      using assms(1,3) no_value ctor by (auto simp: ConvertAssignableResult_def resultAssign_def resolve_def)
  next
    case False
    then have copy: "CopyConvertAssignableResult X t e t2 e2"
      using assms(5-8) by (simp add: CopyConvertAssignableResult_def)
    then have "resultAssign X t e a \<in> {Chosen ConvCopyAssign, Chosen ConvMoveAssign}"
      using assms(1,3) no_value movable_not_const [of a]
      by (cases "movable a"; cases "MoveConvertAssignableResult X t e t2 e2"; simp add: resultAssign_def resolve_def)
    with False assms(2) show ?thesis by (auto simp: ConvertAssignableResult_def)
  qed
qed

section \<open>Constructors of Failure and Optional\<close>

theorem failure_ctor_chosen:
  assumes "remove_ref (arg_type a) = arg_type a"
  shows "failureCtor X e a =
    (case arg_class a of
       FailureT e2 \<Rightarrow>
         if e2 = e then Chosen (if movable a then FailureMove else FailureCopy)
         else if movable a \<and> formed (constructible_from X e) (rref e2) then Chosen FailureConvMove
         else if formed (constructible_from X e) (cref e2) then Chosen FailureConvCopy
         else NoMatch
     | TagT InPlaceT \<Rightarrow> if default_constructible X e then Chosen FailureInPlace else NoMatch
     | _ \<Rightarrow>
         if FailureIsValueConstructible X (deduced a) e
         then Chosen (if convertible_to X (deduced a) e then FailureImplicitValue else FailureExplicitValue)
         else NoMatch)"
proof -
  note defs = failureCtor_def resolve_def FailureIsImplicitValueConstructible_def FailureIsExplicitValueConstructible_def
  have special: "\<not> FailureIsValueConstructible X (deduced a) e" if "arg_class a = TagT InPlaceT \<or> IsFailure (arg_class a)"
    using that decay_deduced [OF assms] by (auto simp: FailureIsValueConstructible_def)
  show ?thesis
  proof (cases "arg_class a")
    case (FailureT e2)
    let ?m = "formed (constructible_from X e) (rref e2)" and ?c = "formed (constructible_from X e) (cref e2)"
    show ?thesis
      using special movable_not_const [of a]
      by (cases "e2 = e"; cases "movable a"; cases ?m; cases ?c; simp add: FailureT defs)
  next
    case (TagT g)
    then show ?thesis
      using special by (cases g; cases "default_constructible X e"; cases "FailureIsValueConstructible X (deduced a) e"; simp add: defs)
  qed (cases "FailureIsValueConstructible X (deduced a) e"; simp add: defs)+
qed

lemma optional_apart:
  "ImplicitlyOptionalValueConvertibleTo X u t \<Longrightarrow> \<not> ExplicitlyOptionalValueConvertibleTo X u t"
  "ImplicitlyCopyConvertibleOptional X t t2 \<Longrightarrow> \<not> ExplicitlyCopyConvertibleOptional X t t2"
  "ImplicitlyMoveConvertibleOptional X t t2 \<Longrightarrow> \<not> ExplicitlyMoveConvertibleOptional X t t2"
  by (auto simp: ImplicitlyOptionalValueConvertibleTo_def ExplicitlyOptionalValueConvertibleTo_def
      ImplicitlyCopyConvertibleOptional_def ExplicitlyCopyConvertibleOptional_def
      ImplicitlyMoveConvertibleOptional_def ExplicitlyMoveConvertibleOptional_def formed_def split: option.splits)

text \<open>A value constructor of \<open>Optional\<close> takes every argument but an \<open>Optional\<close> and three of the four tags.\<close>

theorem optional_ctor_chosen:
  assumes "remove_ref (arg_type a) = arg_type a" and "\<not> IsOptional (arg_class a)" and "arg_class a \<noteq> TagT InPlaceValueT"
  shows "optionalCtor direct X t a =
    (if ImplicitlyOptionalValueConvertibleTo X (deduced a) t then Chosen OptImplicitValue
     else if direct \<and> ExplicitlyOptionalValueConvertibleTo X (deduced a) t then Chosen OptExplicitValue
     else NoMatch)"
proof -
  let ?vi = "ImplicitlyOptionalValueConvertibleTo X (deduced a) t" and ?ve = "ExplicitlyOptionalValueConvertibleTo X (deduced a) t"
  note apart = optional_apart(1) [of X "deduced a" t]
  show ?thesis
  proof (cases "arg_class a")
    case (TagT g)
    have "g \<noteq> InPlaceValueT" using assms(3) TagT by simp
    then show ?thesis
      using apart by (cases ?vi; cases ?ve; cases direct; simp add: TagT optionalCtor_def resolve_def)
  next
    case (OptionalT u)
    with assms(2) have False by simp
    then show ?thesis ..
  qed (use apart in \<open>(cases ?vi; cases ?ve; cases direct; simp add: optionalCtor_def resolve_def)+\<close>)
qed

section \<open>Assignment to an Optional\<close>

datatype OptionalAssign =
  OptCopyAssign | OptMoveAssign | OptConvCopyAssign | OptConvMoveAssign | OptValueAssign | OptViaConversion OptionalCtor

fun optAssignViable :: "'b Traits \<Rightarrow> 'b CType \<Rightarrow> 'b Arg \<Rightarrow> OptionalAssign \<Rightarrow> bool" where
  "optAssignViable X t a OptCopyAssign = (arg_class a = OptionalT t)"
| "optAssignViable X t a OptMoveAssign = (arg_class a = OptionalT t \<and> movable a)"
| "optAssignViable X t a OptConvCopyAssign =
     (case arg_class a of OptionalT t2 \<Rightarrow> CopyConvertAssignableOptional X t t2 | _ \<Rightarrow> False)"
| "optAssignViable X t a OptConvMoveAssign =
     (case arg_class a of OptionalT t2 \<Rightarrow> movable a \<and> MoveConvertAssignableOptional X t t2 | _ \<Rightarrow> False)"
| "optAssignViable X t a OptValueAssign = OptionalValueAssignableTo X (deduced a) t"
| "optAssignViable X t a (OptViaConversion c) = False"

fun optAssignRank :: "'b Arg \<Rightarrow> OptionalAssign \<Rightarrow> nat" where
  "optAssignRank a OptCopyAssign = rank a ConstRef Function"
| "optAssignRank a OptMoveAssign = rank a MoveRef Function"
| "optAssignRank a OptConvCopyAssign = rank a ConstRef ClassTemplate"
| "optAssignRank a OptConvMoveAssign = rank a MoveRef ClassTemplate"
| "optAssignRank a OptValueAssign = rank a Forward AnyTemplate"
| "optAssignRank a (OptViaConversion c) = 0"

definition optionalAssign :: "'b Traits \<Rightarrow> 'b CType \<Rightarrow> 'b Arg \<Rightarrow> OptionalAssign resolution" where
  "optionalAssign X t a =
     (case resolve (optAssignRank a) (filter (optAssignViable X t a)
         [OptCopyAssign, OptMoveAssign, OptConvCopyAssign, OptConvMoveAssign, OptValueAssign]) of
        NoMatch \<Rightarrow>
          (case optionalCtor False X t a of
             NoMatch \<Rightarrow> NoMatch
           | Ambiguous \<Rightarrow> Ambiguous
           | Chosen c \<Rightarrow> Chosen (OptViaConversion c))
      | r \<Rightarrow> r)"

text \<open>A value of a scalar type is not assigned to an \<open>Optional\<close> of it, but converted and moved.\<close>

lemma scalar_converted:
  assumes "is_scalar X t" and "remove_ref t = t" and "remove_const t = t" and "\<not> IsOptional t" and "\<forall>g. t \<noteq> TagT g"
    and "ImplicitlyOptionalValueConvertibleTo X t t"
  shows "optionalAssign X t (Rvalue t) = Chosen (OptViaConversion OptImplicitValue)"
proof -
  have "decay t = t" "arg_class (Rvalue t) = t" using assms(2,3) by (simp_all add: decay_def arg_class_def)
  moreover have "t \<noteq> OptionalT u" for u using assms(4) by auto
  moreover have "\<not> OptionalValueAssignableTo X t t" using assms(1) by (simp add: OptionalValueAssignableTo_def)
  ultimately have none: "\<not> optAssignViable X t (Rvalue t) c" for c
    by (cases c) (auto split: CType.splits)
  have "optionalCtor False X t (Rvalue t) = Chosen OptImplicitValue"
    using optional_ctor_chosen [where a = "Rvalue t" and direct = False and X = X and t = t] assms \<open>arg_class (Rvalue t) = t\<close> by simp
  with none show ?thesis by (simp add: optionalAssign_def resolve_def del: optAssignViable.simps)
qed

section \<open>A type that takes everything\<close>

text \<open>\<open>std::any\<close>, here \<open>0\<close>, among types that take only themselves; \<open>1\<close> is a scalar type.\<close>

definition anyTraits :: "nat Traits" where
  "anyTraits =
     \<lparr>constructible_from = (\<lambda>t a. t = Class 0 \<or> decay a = t), default_constructible = (\<lambda>_. True),
      convertible_to = (\<lambda>a t. t = Class 0 \<or> decay a = t), assignable_from = (\<lambda>t a. t = Class 0 \<or> decay a = t),
      is_abstract = (\<lambda>_. False), is_scalar = (\<lambda>t. t = Class 1)\<rparr>"

lemma result_ctor_chosen_witness:
  "resultCtor True anyTraits (Class 0) (Class 1) (Rvalue (FailureT (Class 1))) = Chosen FailureMoveCtor \<and>
   resultCtor True anyTraits (Class 0) (Class 1) (Lvalue (ConstT (FailureT (Class 1)))) = Chosen FailureCopyCtor \<and>
   resultCtor True anyTraits (Class 0) (Class 1) (Lvalue (FailureT (Class 1))) = Chosen ImplicitValueCtor \<and>
   resultCtor True anyTraits (Class 0) (Class 1) (Rvalue (ConstT (FailureT (Class 1)))) = Chosen ImplicitValueCtor"
  using result_ctor_chosen [of "Rvalue (FailureT (Class 1))" True anyTraits "Class 0" "Class 1"]
    result_ctor_chosen [of "Lvalue (ConstT (FailureT (Class 1)))" True anyTraits "Class 0" "Class 1"]
    result_ctor_chosen [of "Lvalue (FailureT (Class 1))" True anyTraits "Class 0" "Class 1"]
    result_ctor_chosen [of "Rvalue (ConstT (FailureT (Class 1)))" True anyTraits "Class 0" "Class 1"]
  by (simp add: arg_class_def anyTraits_def valueCtor_def ImplicitlyResultValueConvertibleTo_def ResultValueConvertibleTo_def
      decay_def cref_def)

lemma assignment_converts_more_witness:
  "resultCtor True anyTraits (Class 0) (Class 1) (Rvalue (ResultT (Class 1) (Class 1))) = NoMatch \<and>
   resultAssign anyTraits (Class 0) (Class 1) (Rvalue (ResultT (Class 1) (Class 1))) \<in> {Chosen ConvCopyAssign, Chosen ConvMoveAssign} \<and>
   resultAssign anyTraits (Class 0) (Class 0) (Rvalue (ResultT (Class 1) (Class 1))) = NoMatch"
  using assignment_converts_more [of "Rvalue (ResultT (Class 1) (Class 1))" "Class 1" "Class 1" anyTraits "Class 0" "Class 1" True]
    assignment_converts_more [of "Rvalue (ResultT (Class 1) (Class 1))" "Class 1" "Class 1" anyTraits "Class 0" "Class 0" True]
  by (simp add: arg_class_def ConvertibleResult_def passed_def anyTraits_def decay_def cref_def)

text \<open>A \<open>Result<void, E>\<close> accepts a \<open>Failure\<close> with an error from which its own cannot be constructed.\<close>

lemma void_failure_unchecked:
  "voidCtor direct anyTraits (Class 1) (Rvalue (FailureT (Class 2))) = Chosen VoidFailureMove"
  "\<not> formed (constructible_from anyTraits (Class 1)) (rref (Class 2))"
  by (simp_all add: void_ctor_chosen arg_class_def anyTraits_def decay_def)

end
