(* ===== verification/Bytes.thy ===== *)
theory Bytes
  imports Prelude
begin

text \<open>
  The byte order of the host and the packet memory.  A host is \<open>le\<close> (little-endian) or not, and
  everything that goes through a pointer to a multi-byte integer takes that flag: a load or a
  store of the integer, and \<open>htons\<close>, \<open>htonl\<close> and their inverses.  The packet memory is a list of
  bytes, a pointer into it an offset, and an access outside the list is undefined behaviour, the
  value \<open>None\<close>.
\<close>

section \<open>Integers and their bytes\<close>

definition bytes_of16 :: "u16 \<Rightarrow> u8 list" where
  "bytes_of16 v = [ucast (drop_bit 8 v), ucast v]"

definition bytes_of32 :: "u32 \<Rightarrow> u8 list" where
  "bytes_of32 v = [ucast (drop_bit 24 v), ucast (drop_bit 16 v), ucast (drop_bit 8 v), ucast v]"

fun of_bytes :: "'a::len word \<Rightarrow> u8 list \<Rightarrow> 'a word" where
  "of_bytes acc [] = acc"
| "of_bytes acc (b # bs) = of_bytes (push_bit 8 acc OR ucast b) bs"

text \<open>The representation of an integer in memory, lowest address first.\<close>

definition host_bytes16 :: "bool \<Rightarrow> u16 \<Rightarrow> u8 list" where
  "host_bytes16 le v = (if le then rev (bytes_of16 v) else bytes_of16 v)"

definition host_bytes32 :: "bool \<Rightarrow> u32 \<Rightarrow> u8 list" where
  "host_bytes32 le v = (if le then rev (bytes_of32 v) else bytes_of32 v)"

definition host_value16 :: "bool \<Rightarrow> u8 list \<Rightarrow> u16" where
  "host_value16 le bs = of_bytes 0 (if le then rev bs else bs)"

definition host_value32 :: "bool \<Rightarrow> u8 list \<Rightarrow> u32" where
  "host_value32 le bs = of_bytes 0 (if le then rev bs else bs)"

text \<open>The conversions to the network byte order, which are their own inverses.\<close>

definition htons :: "bool \<Rightarrow> u16 \<Rightarrow> u16" where
  "htons le v = (if le then of_bytes 0 (rev (bytes_of16 v)) else v)"

definition htonl :: "bool \<Rightarrow> u32 \<Rightarrow> u32" where
  "htonl le v = (if le then of_bytes 0 (rev (bytes_of32 v)) else v)"

abbreviation ntohs :: "bool \<Rightarrow> u16 \<Rightarrow> u16" where "ntohs \<equiv> htons"

abbreviation ntohl :: "bool \<Rightarrow> u32 \<Rightarrow> u32" where "ntohl \<equiv> htonl"

lemma bit_u8_high [simp]: "8 \<le> n \<Longrightarrow> \<not> bit (b :: u8) n"
  using bit_imp_le_length [of b n] by auto

lemma bytes_of_bytes16 [simp]: "bytes_of16 (of_bytes 0 [a, b]) = [a, b]"
  by (auto simp: bytes_of16_def bit_simps intro!: bit_word_eqI)

lemma bytes_of_bytes32 [simp]: "bytes_of32 (of_bytes 0 [a, b, c, d]) = [a, b, c, d]"
  by (auto simp: bytes_of32_def bit_simps intro!: bit_word_eqI)

lemma of_bytes_of16 [simp]: "of_bytes 0 (bytes_of16 v) = v"
proof (rule bit_word_eqI)
  fix n assume "n < LENGTH(16)"
  then consider "n < 8" | m where "n = 8 + m" "m < 8"
    by (cases "n < 8") (auto simp: not_less dest: le_Suc_ex)
  then show "bit (of_bytes 0 (bytes_of16 v) :: u16) n = bit v n"
    by cases (auto simp: bytes_of16_def bit_simps)
qed

lemma of_bytes_of32 [simp]: "of_bytes 0 (bytes_of32 v) = v"
proof (rule bit_word_eqI)
  fix n assume "n < LENGTH(32)"
  then consider "n < 8" | m where "n = 8 + m" "m < 8" | m where "n = 16 + m" "m < 8"
      | m where "n = 24 + m" "m < 8"
    by (cases "n < 8"; cases "n < 16"; cases "n < 24") (auto simp: not_less dest!: le_Suc_ex)
  then show "bit (of_bytes 0 (bytes_of32 v) :: u32) n = bit v n"
    by cases (auto simp: bytes_of32_def bit_simps)
qed

lemma length_bytes_of [simp, size_simps]: "length (bytes_of16 v) = 2" "length (bytes_of32 w) = 4"
  by (simp_all add: bytes_of16_def bytes_of32_def)

declare of_bytes.simps [simp del]

text \<open>In the network byte order, memory and value are those of a big-endian host.\<close>

lemma length_2E:
  assumes "length bs = 2" obtains a b where "bs = [a, b]"
  using assms by (auto simp: eval_nat_numeral length_Suc_conv)

lemma length_4E:
  assumes "length bs = 4" obtains a b c d where "bs = [a, b, c, d]"
  using assms by (auto simp: eval_nat_numeral length_Suc_conv)

lemma of_bytes_rev16: "rev (bytes_of16 (of_bytes 0 (rev (bytes_of16 v)))) = bytes_of16 v"
  by (rule length_2E [OF length_bytes_of(1) [of v]]) (simp del: of_bytes.simps)

lemma of_bytes_rev32: "rev (bytes_of32 (of_bytes 0 (rev (bytes_of32 v)))) = bytes_of32 v"
  by (rule length_4E [OF length_bytes_of(2) [of v]]) (simp del: of_bytes.simps)

lemma host_bytes_hton [simp, wire_simps]:
  "host_bytes16 le (htons le v) = bytes_of16 v"
  "host_bytes32 le (htonl le w) = bytes_of32 w"
  by (simp_all add: host_bytes16_def host_bytes32_def htons_def htonl_def of_bytes_rev16 of_bytes_rev32)

lemma ntoh_ntoh [simp]: "ntohs le (htons le v) = v" "ntohl le (htonl le w) = w"
  by (simp_all add: htons_def htonl_def of_bytes_rev16 of_bytes_rev32)

lemma host_value_bytes [simp]:
  "host_value16 le (host_bytes16 le v) = v" "host_value32 le (host_bytes32 le w) = w"
  by (simp_all add: host_value16_def host_value32_def host_bytes16_def host_bytes32_def)

lemma ntoh_host_value:
  "length bs = 2 \<Longrightarrow> ntohs le (host_value16 le bs) = of_bytes 0 bs"
  "length cs = 4 \<Longrightarrow> ntohl le (host_value32 le cs) = of_bytes 0 cs"
proof -
  show "ntohs le (host_value16 le bs) = of_bytes 0 bs" if "length bs = 2"
    using that bytes_of_bytes16 by (elim length_2E) (simp add: htons_def host_value16_def del: of_bytes.simps)
  show "ntohl le (host_value32 le cs) = of_bytes 0 cs" if "length cs = 4"
    using that bytes_of_bytes32 by (elim length_4E) (simp add: htonl_def host_value32_def del: of_bytes.simps)
qed

lemma hton_host_value [simp]:
  "host_value16 le (bytes_of16 v) = htons le v" "host_value32 le (bytes_of32 w) = htonl le w"
  using host_value_bytes(1) [of le "htons le v"] host_value_bytes(2) [of le "htonl le w"] by simp_all

section \<open>Packet memory\<close>

definition peek :: "nat \<Rightarrow> nat \<Rightarrow> u8 list \<Rightarrow> u8 list option" where
  "peek p n m = (if p + n \<le> length m then Some (take n (drop p m)) else None)"

definition poke :: "nat \<Rightarrow> u8 list \<Rightarrow> u8 list \<Rightarrow> u8 list option" where
  "poke p bs m =
     (if p + length bs \<le> length m then Some (take p m @ bs @ drop (p + length bs) m) else None)"

lemma poke_append [simp]:
  "p = length pre \<Longrightarrow> length bs = length mid \<Longrightarrow> poke p bs (pre @ mid @ post) = Some (pre @ bs @ post)"
  by (simp add: poke_def)

lemma peek_append [simp]: "p = length pre \<Longrightarrow> n = length mid \<Longrightarrow> peek p n (pre @ mid @ post) = Some mid"
  by (simp add: peek_def)

lemma poke_length: "poke p bs m = Some m' \<Longrightarrow> length m' = length m"
  by (auto simp: poke_def split: if_splits)

lemma peek_poke: "poke p bs m = Some m' \<Longrightarrow> peek p (length bs) m' = Some bs"
  by (auto simp: poke_def peek_def split: if_splits)

lemma peek_poke_other:
  assumes "poke p bs m = Some m'" and "q + n \<le> p \<or> p + length bs \<le> q"
  shows "peek q n m' = peek q n m"
proof -
  have len: "p + length bs \<le> length m" and m': "m' = take p m @ bs @ drop (p + length bs) m"
    using assms(1) by (auto simp: poke_def split: if_splits)
  have p: "min (length m) p = p" using len by simp
  from assms(2) show ?thesis
  proof
    assume "q + n \<le> p"
    then have "q - p = 0" "min n (p - q) = n" "n - (p - q) = 0" by simp_all
    with len show ?thesis by (simp add: peek_def m' p drop_take)
  next
    assume "p + length bs \<le> q"
    then show ?thesis using len by (simp add: peek_def m' p drop_append)
  qed
qed

end
