(* ===== verification/Checksum.thy ===== *)
theory Checksum
  imports Bytes
begin

text \<open>
  The Internet checksum of \<open>packets/IPChecksum.cpp\<close>.  The code adds 32-bit words of the data at
  aligned addresses, whatever the alignment of the data, and turns the bytes of the sum when the
  data begins at an odd address.  The reference is the sum of the data as 16-bit words in the
  network byte order, \<open>be16sum\<close>: the checksum is its complement modulo 65535, on either byte order
  and at every address.
\<close>

section \<open>The code\<close>

text \<open>A word of zeros into which \<open>memcpy\<close> puts bytes at an offset.\<close>

definition partialWord :: "bool \<Rightarrow> nat \<Rightarrow> u8 list \<Rightarrow> u32" where
  "partialWord le off bs = host_value32 le (replicate off 0 @ bs @ replicate (4 - off - length bs) 0)"

text \<open>The loop over complete words, which leaves the partial one at the end.\<close>

fun sumWords :: "bool \<Rightarrow> u64 \<Rightarrow> u8 list \<Rightarrow> u64 \<times> u8 list" where
  "sumWords le acc (a # b # c # d # rest) =
     sumWords le (acc + ucast (ntohl le (host_value32 le [a, b, c, d]))) rest"
| "sumWords le acc rest = (acc, rest)"

text \<open>The carry loop: \<open>acc >> 16\<close> makes the sum smaller.\<close>

lemma unat_and_mask16: "unat (acc AND 65535 :: u64) = unat acc mod 65536"
proof -
  have "(65535 :: u64) = mask 16" by (simp add: mask_eq_exp_minus_1)
  then have "acc AND 65535 = take_bit 16 acc" by (simp only: take_bit_eq_mask)
  then show ?thesis by (simp add: take_bit_eq_mod unat_mod_distrib)
qed

lemma unat_drop16: "unat (drop_bit 16 acc :: u64) = unat acc div 65536"
  by (simp add: drop_bit_eq_div unat_div_distrib)

lemma unat_fold16: "unat ((acc AND 65535) + drop_bit 16 acc :: u64) = unat acc mod 65536 + unat acc div 65536"
proof -
  have "unat acc div 65536 < 281474976710656"
    using unat_u64_less [of acc] by (simp add: less_mult_imp_div_less)
  moreover have "unat acc mod 65536 < 65536" by simp
  ultimately have "unat acc mod 65536 + unat acc div 65536 < 18446744073709551616" by linarith
  then show ?thesis by (simp add: unat_word_ariths unat_and_mask16 unat_drop16)
qed

function foldCarries :: "u64 \<Rightarrow> u64" where
  "foldCarries acc =
     (if drop_bit 16 acc \<noteq> 0 then foldCarries ((acc AND 65535) + drop_bit 16 acc) else acc)"
  by pat_completeness auto

termination
proof (relation "measure unat")
  fix acc :: u64
  assume "drop_bit 16 acc \<noteq> 0"
  then have "unat acc div 65536 \<noteq> 0"
    by (simp only: unat_drop16 [symmetric] unsigned_eq_0_iff) simp
  then have "unat acc mod 65536 + unat acc div 65536 < unat acc div 65536 * 65536 + unat acc mod 65536"
    by linarith
  then show "((acc AND 65535) + drop_bit 16 acc, acc) \<in> measure unat"
    by (simp add: unat_fold16 div_mult_mod_eq)
qed simp

declare foldCarries.simps [simp del]

definition ipChecksumNs :: "bool \<Rightarrow> u64 \<Rightarrow> u8 list \<Rightarrow> u16" where
  "ipChecksumNs le addr pktData =
     (let acc = 0xffff;
          offset = unat (addr AND 3);
          count = (if offset \<noteq> 0 then min (4 - offset) (length pktData) else 0);
          acc = (if offset \<noteq> 0
                 then acc + ucast (ntohl le (partialWord le offset (take count pktData))) else acc);
          (acc, rest) = sumWords le acc (drop count pktData);
          acc = (if rest \<noteq> [] then acc + ucast (ntohl le (partialWord le 0 rest)) else acc);
          acc = (acc AND 0xffffffff) + drop_bit 32 acc;
          acc = foldCarries acc;
          acc = (if odd offset
                 then drop_bit 8 (acc AND 0xff00) OR push_bit 8 (acc AND 0x00ff) else acc)
      in htons le (ucast (NOT acc)))"

section \<open>The reference sum\<close>

fun be16sum :: "u8 list \<Rightarrow> nat" where
  "be16sum [] = 0"
| "be16sum [a] = unat a * 256"
| "be16sum (a # b # bs) = unat a * 256 + unat b + be16sum bs"

lemma be16sum_append: "even (length xs) \<Longrightarrow> be16sum (xs @ ys) = be16sum xs + be16sum ys"
  by (induction xs rule: be16sum.induct) simp_all

lemma be16sum_replicate [simp]: "be16sum (replicate n 0) = 0"
proof (induction n rule: less_induct)
  case (less n)
  then show ?case by (cases n; cases "n - 1") (simp_all add: less)
qed

lemma be16sum_pad [simp]: "be16sum (xs @ replicate n 0) = be16sum xs"
proof (induction xs rule: be16sum.induct)
  case (2 a)
  then show ?case by (cases n) simp_all
qed simp_all

lemma be16sum_Cons: "be16sum (b # bs) = unat b * 256 + be16sum (0 # bs)"
  by (cases bs) simp_all

text \<open>A byte in front swaps the halves of every word, which multiplies the sum by 256.\<close>

lemma be16sum_shift: "be16sum (0 # xs) * 256 mod 65535 = be16sum xs mod 65535"
proof (induction xs rule: be16sum.induct)
  case (3 a b bs)
  have "be16sum (0 # a # b # bs) * 256 = unat b * 65535 + (unat a * 256 + unat b + be16sum (0 # bs) * 256)"
    by (simp add: be16sum_Cons [of b])
  also have "\<dots> mod 65535 = (unat a * 256 + unat b + be16sum (0 # bs) * 256) mod 65535"
    by (simp only: mod_mult_self3)
  also have "\<dots> = (unat a * 256 + unat b + be16sum bs) mod 65535"
    by (rule mod_add_cong [OF refl 3])
  finally show ?case by simp
qed simp_all

section \<open>Words and folded sums\<close>

lemma unat_of_bytes4:
  "unat (of_bytes 0 [a, b, c, d] :: u32) = unat a * 16777216 + unat b * 65536 + unat c * 256 + unat d"
proof -
  let ?a = "push_bit 24 (ucast a) :: u32" and ?b = "push_bit 16 (ucast b) :: u32"
    and ?c = "push_bit 8 (ucast c) :: u32" and ?d = "ucast d :: u32"
  have "of_bytes 0 [a, b, c, d] = ((?a OR ?b) OR ?c) OR ?d"
    by (rule bit_word_eqI) (auto simp: of_bytes.simps bit_simps)
  moreover have "?a + ?b = ?a OR ?b" "(?a OR ?b) + ?c = (?a OR ?b) OR ?c"
    "((?a OR ?b) OR ?c) + ?d = ((?a OR ?b) OR ?c) OR ?d"
    by (rule disjunctive_add; auto simp: bit_simps)+
  ultimately show ?thesis by (metis unat_be32)
qed

lemma word_be16sum: "length bs = 4 \<Longrightarrow> unat (of_bytes 0 bs :: u32) mod 65535 = be16sum bs mod 65535"
proof (elim length_4E)
  fix a b c d assume bs: "bs = [a, b, c, d]"
  have "unat (of_bytes 0 bs :: u32) = (unat a * 256 + unat b) * 65535 + be16sum bs"
    by (simp add: bs unat_of_bytes4)
  then show ?thesis by (simp only: mod_mult_self3)
qed

definition close_sum :: "u64 \<Rightarrow> nat \<Rightarrow> nat \<Rightarrow> bool" where
  "close_sum acc s n \<longleftrightarrow> 0 < unat acc \<and> unat acc mod 65535 = s mod 65535 \<and> unat acc \<le> 65535 + n * 2 ^ 32"

text \<open>One more word in the sum, of the next four bytes or of fewer bytes padded by zeros.\<close>

lemma close_sum_add:
  assumes "close_sum acc s n" and "Suc n < 2 ^ 31" and "length bs = 4"
  shows "close_sum (acc + ucast (ntohl le (host_value32 le bs))) (s + be16sum bs) (Suc n)"
proof -
  let ?w = "of_bytes 0 bs :: u32"
  have w: "unat (ucast ?w :: u64) = unat ?w"
    by (simp add: unsigned_ucast_eq take_bit_nat_eq_self_iff less_trans [OF unat_u32_less])
  have "n < 2147483647" "unat acc \<le> 65535 + n * 4294967296"
    using assms(1,2) by (simp_all add: close_sum_def)
  note b = this unat_u32_less [of ?w]
  from b have sum: "unat acc + unat ?w < 18446744073709551616" by linarith
  from b have bound: "unat acc + unat ?w \<le> 65535 + n * 4294967296 + 4294967296" by linarith
  have *: "unat (acc + ucast ?w) = unat acc + unat ?w" using sum
    by (simp add: unat_word_ariths w)
  have "(unat acc + unat ?w) mod 65535 = (s + be16sum bs) mod 65535"
    using assms(1) word_be16sum [OF assms(3)] by (intro mod_add_cong) (simp_all add: close_sum_def)
  then show ?thesis
    using assms bound by (simp add: close_sum_def ntoh_host_value *)
qed

lemma close_sum_words:
  assumes "sumWords le acc xs = (acc', rest)" and "close_sum acc s n" and "n + length xs < 2 ^ 31"
  shows "\<exists>ys m. xs = ys @ rest \<and> even (length ys) \<and> length rest < 4 \<and>
    close_sum acc' (s + be16sum ys) m \<and> m \<le> n + length ys"
  using assms
proof (induction le acc xs arbitrary: s n rule: sumWords.induct)
  case (1 le acc a b c d xs)
  have "close_sum (acc + ucast (ntohl le (host_value32 le [a, b, c, d]))) (s + be16sum [a, b, c, d]) (Suc n)"
    using "1.prems" by (intro close_sum_add) simp_all
  from "1.IH" [OF _ this] "1.prems"(1,3) obtain ys m where "xs = ys @ rest" "even (length ys)"
    "length rest < 4" "close_sum acc' (s + be16sum [a, b, c, d] + be16sum ys) m"
    "m \<le> Suc n + length ys"
    by auto
  then show ?case
    by (intro exI [of _ "[a, b, c, d] @ ys"] exI [of _ m]) (simp_all add: be16sum_append add.assoc)
qed auto

text \<open>Folding keeps the sum modulo 65535, and keeps it positive.\<close>

definition residue_of :: "u64 \<Rightarrow> nat \<Rightarrow> bool" where
  "residue_of acc s \<longleftrightarrow> 0 < unat acc \<and> unat acc mod 65535 = s mod 65535"

lemma fold_nat:
  fixes a q :: nat
  assumes "0 < a" and "q mod 65535 = 1" and "1 < q"
  shows "0 < a mod q + a div q" and "(a mod q + a div q) mod 65535 = a mod 65535"
proof -
  show "0 < a mod q + a div q"
    using assms by (metis add_gr_0 div_mult_mod_eq gr_zeroI mult_0 add.right_neutral)
  have "(a div q * q) mod 65535 = a div q mod 65535"
    using assms(2) by (metis mod_mult_right_eq mult.right_neutral)
  then have "(a div q * q + a mod q) mod 65535 = (a div q + a mod q) mod 65535"
    by (intro mod_add_cong) simp_all
  then show "(a mod q + a div q) mod 65535 = a mod 65535"
    by (simp add: add.commute)
qed

lemma foldCarries_residue:
  "residue_of acc s \<Longrightarrow> residue_of (foldCarries acc) s \<and> unat (foldCarries acc) < 65536"
proof (induction acc rule: foldCarries.induct)
  case (1 acc)
  show ?case
  proof (cases "drop_bit 16 acc = 0")
    case True
    then have "unat acc div 65536 = 0" by (simp only: unat_drop16 [symmetric]) simp
    then have "unat acc < 65536" by (simp add: div_eq_0_iff)
    with True 1 show ?thesis by (subst (1 2) foldCarries.simps) simp
  next
    case False
    have "residue_of ((acc AND 65535) + drop_bit 16 acc) s"
      using "1.prems" fold_nat [of "unat acc" 65536] by (simp add: residue_of_def unat_fold16)
    with False "1.IH" show ?thesis by (subst (1 2) foldCarries.simps) simp
  qed
qed

lemma fold32_residue:
  assumes "residue_of acc s" shows "residue_of ((acc AND 0xffffffff) + drop_bit 32 acc) s"
proof -
  have "(0xffffffff :: u64) = mask 32" by (simp add: mask_eq_exp_minus_1)
  then have "acc AND 0xffffffff = take_bit 32 acc" by (simp only: take_bit_eq_mask)
  then have "unat (acc AND 0xffffffff) = unat acc mod 2 ^ 32"
    by (simp add: take_bit_eq_mod unat_mod_distrib)
  moreover have "unat (drop_bit 32 acc) = unat acc div 2 ^ 32"
    by (simp add: drop_bit_eq_div unat_div_distrib)
  moreover have "unat acc mod 2 ^ 32 + unat acc div 2 ^ 32 < 18446744073709551616"
  proof -
    have "unat acc mod 2 ^ 32 < 2 ^ 32" "unat acc div 2 ^ 32 < 2 ^ 32"
      using unat_u64_less [of acc] by (simp_all add: less_mult_imp_div_less)
    then show ?thesis by simp
  qed
  ultimately have "unat ((acc AND 0xffffffff) + drop_bit 32 acc) = unat acc mod 2 ^ 32 + unat acc div 2 ^ 32"
    by (simp add: unat_word_ariths)
  then show ?thesis
    using assms fold_nat [of "unat acc" "2 ^ 32"] by (simp add: residue_of_def)
qed

text \<open>Swapping the two bytes of a 16-bit sum multiplies it by 256.\<close>

lemma swap_residue:
  assumes "residue_of acc s" and "unat acc < 65536"
  defines "swapped \<equiv> drop_bit 8 (acc AND 0xff00) OR push_bit 8 (acc AND 0x00ff)"
  shows "residue_of swapped (s * 256) \<and> unat swapped < 65536"
proof -
  define h l where "h = unat acc div 256" and "l = unat acc mod 256"
  have acc: "unat acc = h * 256 + l" and bounds: "h < 256" "l < 256"
    using assms(2) by (simp_all add: h_def l_def less_mult_imp_div_less)
  let ?hi = "take_bit 8 (drop_bit 8 acc)" and ?lo = "push_bit 8 (take_bit 8 acc)"
  have masks: "(0xff00 :: u64) = push_bit 8 (mask 8)" "(0x00ff :: u64) = mask 8"
    by (simp_all add: mask_eq_exp_minus_1)
  have "drop_bit 8 (acc AND push_bit 8 (mask 8)) OR push_bit 8 (acc AND mask 8) = ?hi OR ?lo"
    by (rule bit_word_eqI) (auto simp: bit_simps)
  then have "swapped = ?hi OR ?lo" unfolding swapped_def masks .
  also have "\<dots> = ?hi + ?lo" by (rule disjunctive_add [symmetric]) (auto simp: bit_simps)
  finally have "swapped = ?hi + ?lo" .
  moreover have "unat ?hi = h"
    using bounds by (simp add: h_def take_bit_eq_mod drop_bit_eq_div unat_div_distrib unat_mod_distrib)
  moreover have "unat ?lo = l * 256"
    using bounds by (simp add: l_def push_bit_eq_mult take_bit_eq_mod unat_word_ariths unat_mod_distrib)
  ultimately have "unat swapped = h + l * 256"
    using bounds by (simp add: unat_word_ariths)
  moreover have "(h + l * 256) mod 65535 = s * 256 mod 65535"
  proof -
    have "unat acc * 256 = h * 65535 + (h + l * 256)" by (simp add: acc)
    then have "(h + l * 256) mod 65535 = unat acc * 256 mod 65535" by (simp only: mod_mult_self3)
    also have "\<dots> = s * 256 mod 65535"
      using assms(1) by (intro mod_mult_cong) (simp_all add: residue_of_def)
    finally show ?thesis .
  qed
  moreover have "0 < h + l * 256" using assms(1) acc by (auto simp: residue_of_def)
  ultimately show ?thesis using bounds by (simp add: residue_of_def)
qed

lemma complement_residue:
  assumes "residue_of acc s" and "unat acc < 65536"
  shows "unat (ucast (NOT acc) :: u16) = (65535 - s mod 65535) mod 65535"
proof -
  have "ucast (NOT acc) = NOT (ucast acc :: u16)" by (rule bit_word_eqI) (auto simp: bit_simps)
  also have "\<dots> = - 1 - ucast acc" by (simp add: not_eq_complement)
  also have "unat \<dots> = 65535 - unat (ucast acc :: u16)" by (simp add: unat_sub unsigned_minus_1_eq_mask mask_eq_exp_minus_1)
  also have "unat (ucast acc :: u16) = unat acc"
    using assms(2) by (simp add: unsigned_ucast_eq take_bit_nat_eq_self_iff)
  finally have "unat (ucast (NOT acc) :: u16) = 65535 - unat acc" .
  moreover have "unat acc = 65535 \<or> unat acc = s mod 65535"
    using assms by (cases "unat acc = 65535") (auto simp: residue_of_def)
  ultimately show ?thesis using assms by (auto simp: residue_of_def)
qed

section \<open>The checksum\<close>

lemma close_sum_start: "close_sum 0xffff 0 0"
  by (simp add: close_sum_def)

lemma partialWord_add:
  assumes "close_sum acc s n" and "Suc n < 2 ^ 31" and "off + length bs \<le> 4"
  shows "close_sum (acc + ucast (ntohl le (partialWord le off bs))) (s + be16sum (replicate off 0 @ bs)) (Suc n)"
  using close_sum_add [OF assms(1,2), of "(replicate off 0 @ bs) @ replicate (4 - off - length bs) 0"] assms(3)
    be16sum_pad [of "replicate off 0 @ bs" "4 - off - length bs"]
  by (simp add: partialWord_def)

text \<open>The first three steps add the words of the data behind \<open>offset\<close> zeros.\<close>

lemma checksum_words:
  assumes "offset < 4" and "length pktData < 2 ^ 30"
    and "count = (if offset \<noteq> 0 then min (4 - offset) (length pktData) else 0)"
    and "acc1 = (if offset \<noteq> 0
      then 0xffff + ucast (ntohl le (partialWord le offset (take count pktData))) else 0xffff)"
    and "sumWords le acc1 (drop count pktData) = (acc2, rest)"
    and "acc3 = (if rest \<noteq> [] then acc2 + ucast (ntohl le (partialWord le 0 rest)) else acc2)"
  shows "residue_of acc3 (be16sum (replicate offset 0 @ pktData))"
proof -
  let ?head = "replicate (if offset \<noteq> 0 then offset else 0) 0 @ take count pktData"
  have 1: "close_sum acc1 (be16sum ?head) 1"
  proof (cases "offset = 0")
    case True
    then show ?thesis using assms(3,4) close_sum_start by (simp add: close_sum_def)
  next
    case False
    then show ?thesis
      using assms(1,3,4) partialWord_add [OF close_sum_start, of offset "take count pktData" le] by simp
  qed
  have "1 + length (drop count pktData) < 2 ^ 31" using assms(2) by simp
  from close_sum_words [OF assms(5) 1 this] obtain ys m where ys: "drop count pktData = ys @ rest"
    "even (length ys)" "length rest < 4" "close_sum acc2 (be16sum ?head + be16sum ys) m"
    "m \<le> 1 + length ys" by auto
  have "length ys \<le> length (drop count pktData)" by (simp add: ys(1))
  then have m: "m < 2 ^ 30 + 1" using assms(2) ys(5) by simp
  have 3: "residue_of acc3 (be16sum ?head + be16sum ys + be16sum rest)"
  proof (cases "rest = []")
    case True
    then show ?thesis using ys(4) assms(6) by (simp add: close_sum_def residue_of_def)
  next
    case False
    have "close_sum acc3 (be16sum ?head + be16sum ys + be16sum rest) (Suc m)"
      using partialWord_add [OF ys(4), of 0 rest le] False m ys(3) assms(6) by simp
    then show ?thesis by (simp add: close_sum_def residue_of_def)
  qed
  have "be16sum ?head + be16sum (drop count pktData) = be16sum (replicate offset 0 @ pktData)"
  proof (cases "even (length ?head)")
    case True
    then have "be16sum ?head + be16sum (drop count pktData) = be16sum (?head @ drop count pktData)"
      by (simp only: be16sum_append)
    then show ?thesis by simp
  next
    case False
    then have "drop count pktData = []"
      using assms(1,3) by (cases "length pktData \<le> 4 - offset") (auto split: if_splits)
    moreover from this have "take count pktData = pktData" by simp
    ultimately show ?thesis by simp
  qed
  then show ?thesis
    using 3 ys(1,2) by (simp add: be16sum_append add.assoc)
qed

lemma be16sum_offset:
  "be16sum (replicate n 0 @ xs) * (if odd n then 256 else 1) mod 65535 = be16sum xs mod 65535"
proof (cases "odd n")
  case True
  then have "replicate n 0 @ xs = replicate (n - 1) 0 @ (0 # xs)"
    by (cases n) (simp_all add: replicate_app_Cons_same)
  moreover have "even (length (replicate (n - 1) (0 :: u8)))" using True by simp
  ultimately have "be16sum (replicate n 0 @ xs) = be16sum (0 # xs)"
    by (simp only: be16sum_append be16sum_replicate)
  then show ?thesis using True be16sum_shift by simp
qed (simp add: be16sum_append)

lemma checksum_value:
  assumes "length pktData < 2 ^ 30"
  shows "unat (ntohs le (ipChecksumNs le addr pktData)) = (65535 - be16sum pktData mod 65535) mod 65535"
proof -
  define offset where "offset = unat (addr AND 3)"
  define count where "count = (if offset \<noteq> 0 then min (4 - offset) (length pktData) else 0)"
  define acc1 :: u64 where "acc1 = (if offset \<noteq> 0
      then 0xffff + ucast (ntohl le (partialWord le offset (take count pktData))) else 0xffff)"
  obtain acc2 rest where loop: "sumWords le acc1 (drop count pktData) = (acc2, rest)"
    by (cases "sumWords le acc1 (drop count pktData)")
  define acc3 where
    "acc3 = (if rest \<noteq> [] then acc2 + ucast (ntohl le (partialWord le 0 rest)) else acc2)"
  define acc4 where "acc4 = foldCarries ((acc3 AND 0xffffffff) + drop_bit 32 acc3)"
  define acc5 where
    "acc5 = (if odd offset then drop_bit 8 (acc4 AND 0xff00) OR push_bit 8 (acc4 AND 0x00ff) else acc4)"
  define s where "s = be16sum (replicate offset 0 @ pktData)"
  have "(3 :: u64) = mask 2" by (simp add: mask_eq_exp_minus_1)
  then have "addr AND 3 = take_bit 2 addr" by (simp only: take_bit_eq_mask)
  then have "offset < 4" by (simp add: offset_def take_bit_eq_mod unat_mod_distrib)
  from checksum_words [OF this assms count_def acc1_def loop acc3_def]
  have "residue_of acc4 s \<and> unat acc4 < 65536"
    unfolding acc4_def s_def by (intro foldCarries_residue fold32_residue)
  then have "residue_of acc5 (s * (if odd offset then 256 else 1)) \<and> unat acc5 < 65536"
    using swap_residue [of acc4 s] by (simp add: acc5_def)
  then have "residue_of acc5 (be16sum pktData)" "unat acc5 < 65536"
    using be16sum_offset [of offset pktData] by (simp_all add: s_def residue_of_def)
  moreover have "ipChecksumNs le addr pktData = htons le (ucast (NOT acc5))"
    unfolding ipChecksumNs_def Let_def offset_def [symmetric] count_def [symmetric] acc1_def [symmetric]
      loop prod.case acc3_def [symmetric] acc4_def [symmetric] acc5_def [symmetric] ..
  ultimately show ?thesis by (simp add: complement_residue)
qed

lemma be16sum_bytes [simp]: "be16sum (bytes_of16 v) = unat v"
proof -
  have "unat (ucast (drop_bit 8 v) :: u8) = unat v div 256"
    by (simp add: unsigned_ucast_eq drop_bit_eq_div unat_div_distrib take_bit_nat_eq_self_iff
        less_mult_imp_div_less)
  moreover have "unat (ucast v :: u8) = unat v mod 256"
    by (simp add: unsigned_ucast_eq take_bit_eq_mod)
  ultimately show ?thesis by (simp add: bytes_of16_def)
qed

lemma add_negated_mod:
  fixes s :: nat
  shows "(s + (65535 - s mod 65535) mod 65535) mod 65535 = 0"
proof -
  have "s mod 65535 \<le> 65535" by (simp add: less_imp_le)
  then have "(s mod 65535 + (65535 - s mod 65535)) mod 65535 = 0" by simp
  then show ?thesis by (simp only: mod_add_left_eq mod_add_right_eq)
qed

lemma checksum_stored:
  assumes "even (length pre)" and "length pre + length post + 2 < 2 ^ 30"
  shows "ipChecksumNs le' addr' (pre @ host_bytes16 le (ipChecksumNs le addr (pre @ [0, 0] @ post)) @ post) = 0"
proof -
  define c where "c = ntohs le (ipChecksumNs le addr (pre @ [0, 0] @ post))"
  have stored: "host_bytes16 le (ipChecksumNs le addr (pre @ [0, 0] @ post)) = bytes_of16 c"
    using host_bytes_hton(1) [of le c] by (simp add: c_def)
  let ?m = "pre @ bytes_of16 c @ post"
  define s where "s = be16sum pre + be16sum post"
  have "unat c = (65535 - s mod 65535) mod 65535"
    using assms checksum_value [of "pre @ [0, 0] @ post" le addr] by (simp add: c_def be16sum_append s_def)
  then have "(s + unat c) mod 65535 = 0" by (simp only: add_negated_mod)
  moreover have "be16sum ?m = s + unat c"
    using assms by (simp add: be16sum_append s_def)
  ultimately have "be16sum ?m mod 65535 = 0" by simp
  then have "unat (ntohs le' (ipChecksumNs le' addr' ?m)) = 0"
    using assms by (subst checksum_value) simp_all
  then have "ntohs le' (ntohs le' (ipChecksumNs le' addr' ?m)) = ntohs le' 0"
    by (simp only: unsigned_eq_0_iff)
  then have "ipChecksumNs le' addr' ?m = ntohs le' 0" by (simp only: ntoh_ntoh)
  moreover have "ntohs le' 0 = 0" by (simp add: htons_def bytes_of16_def of_bytes.simps)
  ultimately show ?thesis by (simp only: stored)
qed

text \<open>C33: On a host of either byte order and for data at any address, the checksum, read in the
  network byte order, is the negated sum of the 16-bit words of the data modulo 65535; and a
  message whose zero checksum field, at an even offset, is replaced by the stored checksum has the
  checksum 0 on every host.\<close>

theorem ip_checksum_correct:
  assumes "length pktData < 2 ^ 30"
  shows "unat (ntohs le (ipChecksumNs le addr pktData)) = (65535 - be16sum pktData mod 65535) mod 65535 \<and>
    (\<forall>pre post. pktData = pre @ [0, 0] @ post \<and> even (length pre) \<longrightarrow>
      ipChecksumNs le' addr' (pre @ host_bytes16 le (ipChecksumNs le addr pktData) @ post) = 0)"
  using assms checksum_stored by (auto simp: checksum_value)

text \<open>A Hello header on a little-endian host at an odd address.\<close>

theorem ip_checksum_correct_witness:
  "unat (ntohs True (ipChecksumNs True 3 [0x20, 0, 0, 0])) = 0xdfff \<and>
   ipChecksumNs False 6 ([0x20, 0] @ host_bytes16 True (ipChecksumNs True 3 [0x20, 0, 0, 0]) @ []) = 0"
  using ip_checksum_correct [of "[0x20, 0, 0, 0]" True 3 False 6]
    ip_checksum_correct [of "[0x20, 0, 0, 0]" True 3 False 6, THEN conjunct2, THEN spec, THEN spec,
      of "[0x20, 0]" "[]"]
  by simp_all

end
