(* ===== verification/Headers.thy ===== *)
theory Headers
  imports Bytes
begin

text \<open>
  The objects of \<open>lib/pimc/packets\<close> that write and read a packet: \<open>PacketWriter\<close>, the IPv4 header
  writer and view, the UDP header view and the incremental packet views.  Pointers are offsets into
  the packet memory; the writers and views of headers hold a pointer that is null, \<open>None\<close>, after
  the default constructor.
\<close>

type_synonym memop = "u8 list \<Rightarrow> u8 list option"

text \<open>Operations on the memory one after another, as chained calls run them.\<close>

fun run_all :: "memop list \<Rightarrow> memop" where
  "run_all [] m = Some m"
| "run_all (f # fs) m = Option.bind (f m) (run_all fs)"

section \<open>The packet writer\<close>

record PacketWriter =
  pw_start :: nat
  pw_end :: nat

definition newPacketWriter :: "nat \<Rightarrow> PacketWriter" where
  "newPacketWriter m = \<lparr>pw_start = m, pw_end = m\<rparr>"

definition pw_size :: "PacketWriter \<Rightarrow> nat" where
  "pw_size pw = pw_end pw - pw_start pw"

definition pw_mark :: "PacketWriter \<Rightarrow> PacketWriter" where
  "pw_mark pw = newPacketWriter (pw_end pw)"

definition pw_data :: "PacketWriter \<Rightarrow> nat" where
  "pw_data pw = pw_start pw"

text \<open>Both overloads of \<open>next\<close>: the allocated object starts at the returned offset.\<close>

definition pw_next :: "nat \<Rightarrow> PacketWriter \<Rightarrow> nat \<times> PacketWriter" where
  "pw_next sz pw = (pw_end pw, pw\<lparr>pw_end := pw_end pw + sz\<rparr>)"

section \<open>Structure members\<close>

definition put_bytes :: "nat option \<Rightarrow> nat \<Rightarrow> u8 list \<Rightarrow> memop" where
  "put_bytes ptr off bs m = (case ptr of None \<Rightarrow> None | Some p \<Rightarrow> poke (p + off) bs m)"

definition get_bytes :: "nat option \<Rightarrow> nat \<Rightarrow> nat \<Rightarrow> u8 list \<Rightarrow> u8 list option" where
  "get_bytes ptr off n m = (case ptr of None \<Rightarrow> None | Some p \<Rightarrow> peek (p + off) n m)"

text \<open>
  A bit-field of \<open>n\<close> bits in one byte, of which \<open>lo\<close> bits are less significant.  The structures
  declare their bit-fields in the order that gives the same byte on either byte order.
\<close>

definition set_bits :: "nat \<Rightarrow> nat \<Rightarrow> u8 \<Rightarrow> u8 \<Rightarrow> u8" where
  "set_bits lo n v b = (b AND NOT (push_bit lo (mask n))) OR push_bit lo (take_bit n v)"

definition get_bits :: "nat \<Rightarrow> nat \<Rightarrow> u8 \<Rightarrow> u8" where
  "get_bits lo n b = take_bit n (drop_bit lo b)"

definition put_bits :: "nat option \<Rightarrow> nat \<Rightarrow> nat \<Rightarrow> nat \<Rightarrow> u8 \<Rightarrow> memop" where
  "put_bits ptr off lo n v m =
     Option.bind (get_bytes ptr off 1 m) (\<lambda>bs. put_bytes ptr off [set_bits lo n v (hd bs)] m)"

definition get_field_bits :: "nat option \<Rightarrow> nat \<Rightarrow> nat \<Rightarrow> nat \<Rightarrow> u8 list \<Rightarrow> u8 option" where
  "get_field_bits ptr off lo n m = map_option (\<lambda>bs. get_bits lo n (hd bs)) (get_bytes ptr off 1 m)"

definition get8 :: "nat option \<Rightarrow> nat \<Rightarrow> u8 list \<Rightarrow> u8 option" where
  "get8 ptr off m = map_option hd (get_bytes ptr off 1 m)"

definition get16 :: "bool \<Rightarrow> nat option \<Rightarrow> nat \<Rightarrow> u8 list \<Rightarrow> u16 option" where
  "get16 le ptr off m = map_option (host_value16 le) (get_bytes ptr off 2 m)"

definition get32 :: "bool \<Rightarrow> nat option \<Rightarrow> nat \<Rightarrow> u8 list \<Rightarrow> u32 option" where
  "get32 le ptr off m = map_option (host_value32 le) (get_bytes ptr off 4 m)"

section \<open>The IPv4 header writer\<close>

definition IPv4HdrSize :: nat where "IPv4HdrSize = 20"

text \<open>The default constructor, and the assignment of a pointer, which writes nothing.\<close>

definition hw_null :: "nat option" where "hw_null = None"

definition hw_assign :: "nat \<Rightarrow> nat option" where "hw_assign p = Some p"

definition hw_ihl :: "nat option \<Rightarrow> u8 \<Rightarrow> memop" where
  "hw_ihl ptr ihlv = put_bits ptr 0 0 4 (0xf AND ihlv)"

definition hw_new :: "nat \<Rightarrow> memop" where
  "hw_new p = run_all [put_bits (Some p) 0 4 4 4, put_bits (Some p) 0 0 4 5]"

definition hw_tos :: "nat option \<Rightarrow> u8 \<Rightarrow> memop" where
  "hw_tos ptr tosv = put_bytes ptr 1 [tosv]"

definition hw_totalLen :: "bool \<Rightarrow> nat option \<Rightarrow> u16 \<Rightarrow> memop" where
  "hw_totalLen le ptr lenv = put_bytes ptr 2 (host_bytes16 le lenv)"

definition hw_id :: "bool \<Rightarrow> nat option \<Rightarrow> u16 \<Rightarrow> memop" where
  "hw_id le ptr idv = put_bytes ptr 4 (host_bytes16 le idv)"

definition hw_flagsAndFragOff :: "bool \<Rightarrow> nat option \<Rightarrow> u16 \<Rightarrow> memop" where
  "hw_flagsAndFragOff le ptr ffoffv = put_bytes ptr 6 (host_bytes16 le ffoffv)"

definition hw_ttl :: "nat option \<Rightarrow> u8 \<Rightarrow> memop" where
  "hw_ttl ptr ttlv = put_bytes ptr 8 [ttlv]"

definition hw_protocol :: "nat option \<Rightarrow> u8 \<Rightarrow> memop" where
  "hw_protocol ptr protocolv = put_bytes ptr 9 [protocolv]"

definition hw_hdrChecksum :: "bool \<Rightarrow> nat option \<Rightarrow> u16 \<Rightarrow> memop" where
  "hw_hdrChecksum le ptr hcsv = put_bytes ptr 10 (host_bytes16 le hcsv)"

definition hw_saddr :: "bool \<Rightarrow> nat option \<Rightarrow> u32 \<Rightarrow> memop" where
  "hw_saddr le ptr saddrv = put_bytes ptr 12 (host_bytes32 le saddrv)"

definition hw_daddr :: "bool \<Rightarrow> nat option \<Rightarrow> u32 \<Rightarrow> memop" where
  "hw_daddr le ptr daddrv = put_bytes ptr 16 (host_bytes32 le daddrv)"

text \<open>
  The class for Apple hosts has the same members over \<open>struct ip\<close>, whose layout is the same, but
  its \<open>ihl()\<close> assigns the version.
\<close>

definition apple_hw_ihl :: "nat option \<Rightarrow> u8 \<Rightarrow> memop" where
  "apple_hw_ihl ptr ihlv = put_bits ptr 0 4 4 (0xf AND ihlv)"

section \<open>The IPv4 and UDP header views\<close>

definition hv_ihl :: "nat option \<Rightarrow> u8 list \<Rightarrow> u8 option" where
  "hv_ihl ptr = get_field_bits ptr 0 0 4"

definition hv_headerSizeBytes :: "nat option \<Rightarrow> u8 list \<Rightarrow> u16 option" where
  "hv_headerSizeBytes ptr m = map_option (\<lambda>v. push_bit 2 (ucast v)) (hv_ihl ptr m)"

definition hv_version :: "nat option \<Rightarrow> u8 list \<Rightarrow> u8 option" where
  "hv_version ptr = get_field_bits ptr 0 4 4"

definition hv_tos :: "nat option \<Rightarrow> u8 list \<Rightarrow> u8 option" where "hv_tos ptr = get8 ptr 1"

definition hv_totalLen :: "bool \<Rightarrow> nat option \<Rightarrow> u8 list \<Rightarrow> u16 option" where
  "hv_totalLen le ptr = get16 le ptr 2"

definition hv_id :: "bool \<Rightarrow> nat option \<Rightarrow> u8 list \<Rightarrow> u16 option" where "hv_id le ptr = get16 le ptr 4"

definition hv_flagsAndFragOff :: "bool \<Rightarrow> nat option \<Rightarrow> u8 list \<Rightarrow> u16 option" where
  "hv_flagsAndFragOff le ptr = get16 le ptr 6"

definition hv_ttl :: "nat option \<Rightarrow> u8 list \<Rightarrow> u8 option" where "hv_ttl ptr = get8 ptr 8"

definition hv_protocol :: "nat option \<Rightarrow> u8 list \<Rightarrow> u8 option" where "hv_protocol ptr = get8 ptr 9"

definition hv_hdrChecksum :: "bool \<Rightarrow> nat option \<Rightarrow> u8 list \<Rightarrow> u16 option" where
  "hv_hdrChecksum le ptr = get16 le ptr 10"

definition hv_saddr :: "bool \<Rightarrow> nat option \<Rightarrow> u8 list \<Rightarrow> u32 option" where
  "hv_saddr le ptr = get32 le ptr 12"

definition hv_daddr :: "bool \<Rightarrow> nat option \<Rightarrow> u8 list \<Rightarrow> u32 option" where
  "hv_daddr le ptr = get32 le ptr 16"

definition uv_sport :: "bool \<Rightarrow> nat option \<Rightarrow> u8 list \<Rightarrow> u16 option" where
  "uv_sport le ptr = get16 le ptr 0"

definition uv_dport :: "bool \<Rightarrow> nat option \<Rightarrow> u8 list \<Rightarrow> u16 option" where
  "uv_dport le ptr = get16 le ptr 2"

definition uv_len :: "bool \<Rightarrow> nat option \<Rightarrow> u8 list \<Rightarrow> u16 option" where "uv_len le ptr = get16 le ptr 4"

definition uv_sum :: "bool \<Rightarrow> nat option \<Rightarrow> u8 list \<Rightarrow> u16 option" where "uv_sum le ptr = get16 le ptr 6"

section \<open>Incremental views\<close>

text \<open>
  \<open>take\<close> passes the pointer to the viewer and returns true, or does not call it: the result is the
  pointer of the call, if any, and the view.
\<close>

record PacketView =
  pv_data :: int
  pv_len :: u64
  pv_taken :: u64

definition newPacketView :: "int \<Rightarrow> u64 \<Rightarrow> PacketView" where
  "newPacketView p len = \<lparr>pv_data = p, pv_len = len, pv_taken = 0\<rparr>"

definition pv_take :: "u64 \<Rightarrow> PacketView \<Rightarrow> int option \<times> PacketView" where
  "pv_take sz pv =
     (if pv_taken pv + sz \<le> pv_len pv
      then (Some (pv_data pv + uint (pv_taken pv)), pv\<lparr>pv_taken := pv_taken pv + sz\<rparr>)
      else (None, pv))"

definition pv_skip :: "u64 \<Rightarrow> PacketView \<Rightarrow> bool \<times> PacketView" where
  "pv_skip sz pv =
     (if pv_taken pv + sz \<le> pv_len pv then (True, pv\<lparr>pv_taken := pv_taken pv + sz\<rparr>) else (False, pv))"

definition pv_remaining :: "PacketView \<Rightarrow> u64" where
  "pv_remaining pv = pv_len pv - pv_taken pv"

text \<open>The reverse view has the same members; its data ends at the pointer.\<close>

definition rpv_take :: "u64 \<Rightarrow> PacketView \<Rightarrow> int option \<times> PacketView" where
  "rpv_take sz pv =
     (if pv_taken pv + sz \<le> pv_len pv
      then (Some (pv_data pv - uint (pv_taken pv) - uint sz), pv\<lparr>pv_taken := pv_taken pv + sz\<rparr>)
      else (None, pv))"

definition rpv_skip :: "u64 \<Rightarrow> PacketView \<Rightarrow> bool \<times> PacketView" where
  "rpv_skip sz pv =
     (if pv_taken pv + sz \<le> pv_len pv then (True, pv\<lparr>pv_taken := pv_taken pv + sz\<rparr>) else (False, pv))"

definition rpv_remaining :: "PacketView \<Rightarrow> u64" where
  "rpv_remaining pv = pv_len pv - pv_taken pv"

section \<open>Headers in memory\<close>

lemma put_bytes_at [wire_simps]:
  "p = length pre \<Longrightarrow> off + length bs \<le> length h \<Longrightarrow>
   put_bytes (Some p) off bs (pre @ h) = Some (pre @ take off h @ bs @ drop (off + length bs) h)"
  by (simp add: put_bytes_def poke_def)

lemma get_bytes_at [wire_simps]:
  "p = length pre \<Longrightarrow> off + n \<le> length h \<Longrightarrow> get_bytes (Some p) off n (pre @ h) = Some (take n (drop off h))"
  by (simp add: get_bytes_def peek_def)

lemma put_bits_at [wire_simps]:
  "p = length pre \<Longrightarrow> off < length h \<Longrightarrow>
   put_bits (Some p) off lo n v (pre @ h) = Some (pre @ h[off := set_bits lo n v (h ! off)])"
  by (simp add: put_bits_def get_bytes_at put_bytes_at take_Suc_conv_app_nth upd_conv_take_nth_drop
      hd_drop_conv_nth)

lemma get_set_bits [simp]: "lo + n \<le> 8 \<Longrightarrow> get_bits lo n (set_bits lo n v b) = take_bit n v"
  by (rule bit_word_eqI) (auto simp: get_bits_def set_bits_def bit_simps)

lemma get_set_bits_other:
  "lo + n \<le> 8 \<Longrightarrow> l + k \<le> lo \<or> lo + n \<le> l \<Longrightarrow> get_bits l k (set_bits lo n v b) = get_bits l k b"
  by (rule bit_word_eqI) (auto simp: get_bits_def set_bits_def bit_simps dest: bit_imp_le_length)

lemma set_bits_all:
  "set_bits 0 4 v (set_bits 4 4 w b) = push_bit 4 (take_bit 4 w) OR take_bit 4 v"
  by (rule bit_word_eqI) (auto simp: set_bits_def bit_simps)

lemma length_host_bytes [simp, size_simps]: "length (host_bytes16 le v) = 2" "length (host_bytes32 le w) = 4"
  by (simp_all add: host_bytes16_def host_bytes32_def)

text \<open>The bytes of a header of five words, its two-byte and four-byte fields as the host stores them.\<close>

definition ipv4_header ::
    "bool \<Rightarrow> u8 \<Rightarrow> u8 \<Rightarrow> u8 \<Rightarrow> u16 \<Rightarrow> u16 \<Rightarrow> u16 \<Rightarrow> u8 \<Rightarrow> u8 \<Rightarrow> u16 \<Rightarrow> u32 \<Rightarrow> u32 \<Rightarrow> u8 list" where
  "ipv4_header le version ihl tos len idv ff ttl proto chk src dst =
     [push_bit 4 (take_bit 4 version) OR take_bit 4 ihl, tos] @ host_bytes16 le len @ host_bytes16 le idv @
     host_bytes16 le ff @ [ttl, proto] @ host_bytes16 le chk @ host_bytes32 le src @ host_bytes32 le dst"

lemma hw_new_at [wire_simps]: "p = length pre \<Longrightarrow> hw_new p (pre @ b # h) = Some (pre @ 0x45 # h)"
  by (simp add: hw_new_def put_bits_at set_bits_all)

lemma take_bit_0xf [simp]: "0xf AND take_bit 4 v = (take_bit 4 v :: u8)"
proof -
  have mask: "(0xf :: u8) = mask 4" by (simp add: mask_eq_exp_minus_1)
  show ?thesis unfolding mask by (rule bit_word_eqI) (auto simp: bit_simps)
qed

lemma set_ihl: "set_bits 0 4 (0xf AND v) 0x45 = push_bit 4 (take_bit 4 4) OR take_bit 4 v"
  by (simp add: set_bits_def mask_eq_exp_minus_1)

lemma host_bytes_0 [simp]: "host_bytes16 le 0 = [0, 0]" "host_bytes32 le 0 = [0, 0, 0, 0]"
  by (simp_all add: host_bytes16_def host_bytes32_def bytes_of16_def bytes_of32_def)

lemma run_hw_at:
  assumes "p = length pre" and "length h = 20"
  shows "run_all [hw_new p, hw_ihl (Some p) ihl, hw_tos (Some p) tos, hw_totalLen le (Some p) len,
      hw_id le (Some p) idv, hw_flagsAndFragOff le (Some p) ff, hw_ttl (Some p) ttl,
      hw_protocol (Some p) proto, hw_hdrChecksum le (Some p) chk, hw_saddr le (Some p) src,
      hw_daddr le (Some p) dst] (pre @ h @ post) =
    Some (pre @ ipv4_header le 4 ihl tos len idv ff ttl proto chk src dst @ post)"
proof -
  obtain b bs where h: "h = b # bs" and bs: "length bs = 19"
    using assms(2) by (cases h) auto
  obtain l1 l2 where l: "host_bytes16 le len = [l1, l2]" by (rule length_2E [OF length_host_bytes(1)])
  obtain i1 i2 where i: "host_bytes16 le idv = [i1, i2]" by (rule length_2E [OF length_host_bytes(1)])
  obtain f1 f2 where f: "host_bytes16 le ff = [f1, f2]" by (rule length_2E [OF length_host_bytes(1)])
  obtain c1 c2 where c: "host_bytes16 le chk = [c1, c2]" by (rule length_2E [OF length_host_bytes(1)])
  obtain s1 s2 s3 s4 where s: "host_bytes32 le src = [s1, s2, s3, s4]"
    by (rule length_4E [OF length_host_bytes(2)])
  obtain d1 d2 d3 d4 where d: "host_bytes32 le dst = [d1, d2, d3, d4]"
    by (rule length_4E [OF length_host_bytes(2)])
  have ver: "set_bits 0 4 (0xf AND ihl) 0x45 = push_bit 4 (take_bit 4 4) OR take_bit 4 ihl"
    by (rule set_ihl)
  show ?thesis
    using assms(1) bs
    by (simp add: h hw_new_at hw_ihl_def hw_tos_def hw_totalLen_def hw_id_def hw_flagsAndFragOff_def hw_ttl_def
        hw_protocol_def hw_hdrChecksum_def hw_saddr_def hw_daddr_def put_bits_at put_bytes_at l i f c s d ver
        ipv4_header_def)
qed

text \<open>The header the packets write into zeroed memory, with no checksum.\<close>

lemma run_packet_hw_at:
  assumes "p = length pre"
  shows "run_all [hw_new p, hw_tos (Some p) tos, hw_totalLen le (Some p) len,
      hw_id le (Some p) idv, hw_flagsAndFragOff le (Some p) ff, hw_ttl (Some p) ttl,
      hw_protocol (Some p) proto, hw_saddr le (Some p) src,
      hw_daddr le (Some p) dst] (pre @ replicate 20 0 @ post) =
    Some (pre @ ipv4_header le 4 5 tos len idv ff ttl proto 0 src dst @ post)"
proof -
  have n: "replicate 20 (0 :: u8) = 0 # replicate 19 0" by (simp add: numeral_eq_Suc)
  have two: "replicate 2 (0 :: u8) = [0, 0]" by (simp add: numeral_2_eq_2)
  obtain l1 l2 where l: "host_bytes16 le len = [l1, l2]" by (rule length_2E [OF length_host_bytes(1)])
  obtain i1 i2 where i: "host_bytes16 le idv = [i1, i2]" by (rule length_2E [OF length_host_bytes(1)])
  obtain f1 f2 where f: "host_bytes16 le ff = [f1, f2]" by (rule length_2E [OF length_host_bytes(1)])
  obtain s1 s2 s3 s4 where s: "host_bytes32 le src = [s1, s2, s3, s4]"
    by (rule length_4E [OF length_host_bytes(2)])
  obtain d1 d2 d3 d4 where d: "host_bytes32 le dst = [d1, d2, d3, d4]"
    by (rule length_4E [OF length_host_bytes(2)])
  show ?thesis
    using assms
    by (simp add: n two min_def hw_new_at hw_tos_def hw_totalLen_def hw_id_def
        hw_flagsAndFragOff_def hw_ttl_def hw_protocol_def hw_saddr_def hw_daddr_def put_bytes_at l i f s d
        ipv4_header_def)
qed

lemma view_header:
  assumes "p = length pre"
    and m_def: "m = pre @ ipv4_header le version ihl tos len idv ff ttl proto chk src dst @ post"
  shows "hv_version (Some p) m = Some (take_bit 4 version)" "hv_ihl (Some p) m = Some (take_bit 4 ihl)"
    "hv_headerSizeBytes (Some p) m = Some (4 * ucast (take_bit 4 ihl))"
    "hv_tos (Some p) m = Some tos" "hv_totalLen le (Some p) m = Some len" "hv_id le (Some p) m = Some idv"
    "hv_flagsAndFragOff le (Some p) m = Some ff" "hv_ttl (Some p) m = Some ttl"
    "hv_protocol (Some p) m = Some proto" "hv_hdrChecksum le (Some p) m = Some chk"
    "hv_saddr le (Some p) m = Some src" "hv_daddr le (Some p) m = Some dst"
proof -
  have bits: "get_bits 4 4 (push_bit 4 (take_bit 4 version) OR take_bit 4 ihl) = take_bit 4 version"
    "get_bits 0 4 (push_bit 4 (take_bit 4 version) OR take_bit 4 ihl) = take_bit 4 ihl"
    by (rule bit_word_eqI; auto simp: get_bits_def bit_simps)+
  show "hv_version (Some p) m = Some (take_bit 4 version)" "hv_ihl (Some p) m = Some (take_bit 4 ihl)"
    "hv_tos (Some p) m = Some tos" "hv_totalLen le (Some p) m = Some len" "hv_id le (Some p) m = Some idv"
    "hv_flagsAndFragOff le (Some p) m = Some ff" "hv_ttl (Some p) m = Some ttl"
    "hv_protocol (Some p) m = Some proto" "hv_hdrChecksum le (Some p) m = Some chk"
    "hv_saddr le (Some p) m = Some src" "hv_daddr le (Some p) m = Some dst"
    using assms(1)
    by (simp_all add: m_def ipv4_header_def hv_version_def hv_ihl_def hv_tos_def hv_totalLen_def hv_id_def
        hv_flagsAndFragOff_def hv_ttl_def hv_protocol_def hv_hdrChecksum_def hv_saddr_def hv_daddr_def
        get_field_bits_def get8_def get16_def get32_def get_bytes_at bits)
  then show "hv_headerSizeBytes (Some p) m = Some (4 * ucast (take_bit 4 ihl))"
    by (simp add: hv_headerSizeBytes_def push_bit_eq_mult)
qed

text \<open>C34: Wherever an IPv4 header fits, its writer sets every field to the value that the view
  then reads there, the version is 4, and no other byte changes; on Apple hosts \<open>ihl()\<close> changes the
  version in place of the header length.\<close>

theorem ipv4_header_roundtrip:
  assumes "p + 20 \<le> length m"
  shows "\<exists>m'. run_all [hw_new p, hw_ihl (Some p) ihl, hw_tos (Some p) tos, hw_totalLen le (Some p) len,
      hw_id le (Some p) idv, hw_flagsAndFragOff le (Some p) ff, hw_ttl (Some p) ttl,
      hw_protocol (Some p) proto, hw_hdrChecksum le (Some p) chk, hw_saddr le (Some p) src,
      hw_daddr le (Some p) dst] m = Some m' \<and>
    length m' = length m \<and> take p m' = take p m \<and> drop (p + 20) m' = drop (p + 20) m \<and>
    hv_version (Some p) m' = Some 4 \<and> hv_ihl (Some p) m' = Some (take_bit 4 ihl) \<and>
    hv_headerSizeBytes (Some p) m' = Some (4 * ucast (take_bit 4 ihl)) \<and>
    hv_tos (Some p) m' = Some tos \<and> hv_totalLen le (Some p) m' = Some len \<and>
    hv_id le (Some p) m' = Some idv \<and> hv_flagsAndFragOff le (Some p) m' = Some ff \<and>
    hv_ttl (Some p) m' = Some ttl \<and> hv_protocol (Some p) m' = Some proto \<and>
    hv_hdrChecksum le (Some p) m' = Some chk \<and> hv_saddr le (Some p) m' = Some src \<and>
    hv_daddr le (Some p) m' = Some dst \<and>
    (\<exists>m''. apple_hw_ihl (Some p) ihl m' = Some m'' \<and>
      hv_version (Some p) m'' = Some (take_bit 4 ihl) \<and> hv_ihl (Some p) m'' = hv_ihl (Some p) m')"
proof -
  define pre h post where "pre = take p m" and "h = take 20 (drop p m)" and "post = drop (p + 20) m"
  have m: "m = pre @ h @ post"
    by (simp add: pre_def h_def post_def add.commute [of p] flip: drop_drop)
  have p: "p = length pre" and h: "length h = 20"
    using assms by (simp_all add: pre_def h_def)
  let ?hdr = "ipv4_header le 4 ihl tos len idv ff ttl proto chk src dst"
  obtain b bs where hdr: "?hdr = b # bs" and bs: "length bs = 19"
    by (simp add: ipv4_header_def)
  have "apple_hw_ihl (Some p) ihl (pre @ ?hdr @ post) = Some (pre @ (set_bits 4 4 (0xf AND ihl) b # bs) @ post)"
    by (simp add: apple_hw_ihl_def put_bits_at p hdr)
  moreover have "hv_version (Some p) (pre @ (set_bits 4 4 (0xf AND ihl) b # bs) @ post) = Some (take_bit 4 ihl)"
    "hv_ihl (Some p) (pre @ (set_bits 4 4 (0xf AND ihl) b # bs) @ post) = hv_ihl (Some p) (pre @ ?hdr @ post)"
    by (simp_all add: hv_version_def hv_ihl_def get_field_bits_def get_bytes_at p hdr get_set_bits_other)
  moreover note run_hw_at [OF p h, of ihl tos le len idv ff ttl proto chk src dst post]
    view_header [OF p refl, of le 4 ihl tos len idv ff ttl proto chk src dst post]
  moreover have "length ?hdr = 20" by (simp add: ipv4_header_def)
  ultimately show ?thesis
    by (intro exI [of _ "pre @ ?hdr @ post"]) (simp add: m p h)
qed

theorem ipv4_header_roundtrip_witness:
  "\<exists>m'. run_all [hw_new 2, hw_ihl (Some 2) 5, hw_tos (Some 2) 192, hw_totalLen True (Some 2) 20,
      hw_id True (Some 2) 7, hw_flagsAndFragOff True (Some 2) 0, hw_ttl (Some 2) 1,
      hw_protocol (Some 2) 103, hw_hdrChecksum True (Some 2) 0, hw_saddr True (Some 2) 1,
      hw_daddr True (Some 2) 2] (replicate 23 9) = Some m' \<and> hv_saddr True (Some 2) m' = Some 1"
  using ipv4_header_roundtrip [of 2 "replicate 23 9" 5 192 True 20 7 0 1 103 0 1 2] by auto

definition view_ok :: "PacketView \<Rightarrow> bool" where
  "view_ok pv \<longleftrightarrow> pv_taken pv \<le> pv_len pv"

lemma view_sum:
  fixes a b :: u64
  shows "uint (a + b) =
    (if uint a + uint b < 2 ^ 64 then uint a + uint b else uint a + uint b - 2 ^ 64)"
proof -
  define x where "x = uint a + uint b"
  have x: "0 \<le> x" "x < 2 ^ 65"
    using uint_bounded [of a] uint_bounded [of b] by (simp_all add: x_def)
  have "uint (a + b) = x mod 2 ^ 64" by (simp add: uint_word_ariths x_def)
  also have "\<dots> = (if x < 2 ^ 64 then x else x - 2 ^ 64)"
  proof (cases "x < 2 ^ 64")
    case False
    then have "(x - 2 ^ 64) mod 2 ^ 64 = x - 2 ^ 64"
      using x by (intro mod_pos_pos_trivial) simp_all
    moreover have "(x - 2 ^ 64) mod 2 ^ 64 = x mod 2 ^ 64" by (rule minus_mod_self2)
    ultimately show ?thesis using False by (simp only: if_False)
  qed (use x in \<open>simp add: mod_pos_pos_trivial\<close>)
  finally show ?thesis by (simp only: x_def)
qed

lemma view_sub:
  fixes a b :: u64
  shows "b \<le> a \<Longrightarrow> uint (a - b) = uint a - uint b"
  by (simp add: uint_sub_lem [THEN iffD1] word_le_def)

text \<open>As long as the requested size does not wrap the position around, a view grants a request
  exactly if that many bytes remain, and then hands out the part of its data after the bytes that were
  taken; a request that wraps is granted if the wrapped position is in the data, and moves it back.\<close>

theorem packet_view_bounds:
  assumes "view_ok pv"
  shows "if uint (pv_taken pv) + uint sz < 2 ^ 64
    then (if sz \<le> pv_remaining pv
       then (\<exists>pv'. pv_take sz pv = (Some (pv_data pv + uint (pv_taken pv)), pv') \<and> pv_skip sz pv = (True, pv') \<and>
           rpv_take sz pv = (Some (pv_data pv - uint (pv_taken pv')), pv') \<and> rpv_skip sz pv = (True, pv') \<and>
           view_ok pv' \<and> pv_len pv' = pv_len pv \<and>
           uint (pv_taken pv') = uint (pv_taken pv) + uint sz \<and>
           uint (pv_remaining pv') = uint (pv_remaining pv) - uint sz)
       else pv_take sz pv = (None, pv) \<and> pv_skip sz pv = (False, pv) \<and>
            rpv_take sz pv = (None, pv) \<and> rpv_skip sz pv = (False, pv))
    else fst (pv_skip sz pv) \<and> pv_taken (snd (pv_skip sz pv)) < pv_taken pv"
proof (cases "uint (pv_taken pv) + uint sz < 2 ^ 64")
  case True
  then have sum: "uint (pv_taken pv + sz) = uint (pv_taken pv) + uint sz" by (simp add: view_sum)
  have "sz \<le> pv_remaining pv \<longleftrightarrow> pv_taken pv + sz \<le> pv_len pv"
    using assms by (auto simp: view_ok_def pv_remaining_def word_le_def [of sz] view_sub
        word_le_def [of "_ + _"] sum)
  with True sum assms show ?thesis
    by (simp add: pv_take_def pv_skip_def rpv_take_def rpv_skip_def view_ok_def pv_remaining_def view_sub)
next
  case False
  then have "uint (pv_taken pv + sz) < uint (pv_taken pv)"
    using uint_bounded [of sz] by (simp add: view_sum)
  then have "pv_taken pv + sz < pv_taken pv" by (simp add: word_less_def)
  with False assms show ?thesis by (simp add: view_ok_def pv_skip_def)
qed

theorem packet_view_bounds_witness:
  "fst (pv_skip 0xffffffffffffffff (newPacketView 0 8\<lparr>pv_taken := 5\<rparr>)) \<and>
   fst (pv_take 3 (newPacketView 0 8\<lparr>pv_taken := 5\<rparr>)) = Some 5"
  using packet_view_bounds [of "newPacketView 0 8\<lparr>pv_taken := 5\<rparr>" "0xffffffffffffffff"]
    packet_view_bounds [of "newPacketView 0 8\<lparr>pv_taken := 5\<rparr>" 3]
  by (simp add: view_ok_def newPacketView_def pv_remaining_def) auto

end
