(* ===== verification/AppleHeaders.thy ===== *)
theory AppleHeaders
  imports Headers
begin

text \<open>
  The classes of \<open>lib/pimc/packets/IPv4HdrWriter.hpp\<close>, \<open>IPv4HdrView.hpp\<close> and \<open>UDPHdrView.hpp\<close> for Apple hosts,
  over \<open>struct ip\<close> and \<open>struct udphdr\<close> of the BSD headers.  A structure is the list of its members with their widths
  in bits, from which the place of a member follows: the members are naturally aligned, so there is no padding, and
  bit-fields are allocated from the low end of a byte on little-endian hosts and from the high end on big-endian ones.
\<close>

section \<open>Structures\<close>

type_synonym struct = "(string \<times> nat) list"

fun bit_position :: "struct \<Rightarrow> string \<Rightarrow> nat" where
  "bit_position [] f = 0"
| "bit_position ((g, w) # ms) f = (if f = g then 0 else w + bit_position ms f)"

definition struct_size :: "struct \<Rightarrow> nat" where
  "struct_size ms = sum_list (map snd ms) div 8"

definition byte_offset :: "struct \<Rightarrow> string \<Rightarrow> nat" where
  "byte_offset ms f = bit_position ms f div 8"

definition low_bit :: "bool \<Rightarrow> struct \<Rightarrow> string \<Rightarrow> nat" where
  "low_bit le ms f =
     (let low = bit_position ms f mod 8; w = the (map_of ms f) in if le then low else 8 - low - w)"

text \<open>\<open>netinet/ip.h\<close> declares the two bit-fields in the order of the host.\<close>

definition struct_ip :: "bool \<Rightarrow> struct" where
  "struct_ip le =
     (if le then [(''ip_hl'', 4), (''ip_v'', 4)] else [(''ip_v'', 4), (''ip_hl'', 4)]) @
     [(''ip_tos'', 8), (''ip_len'', 16), (''ip_id'', 16), (''ip_off'', 16), (''ip_ttl'', 8), (''ip_p'', 8),
      (''ip_sum'', 16), (''ip_src'', 32), (''ip_dst'', 32)]"

definition struct_udphdr :: struct where
  "struct_udphdr = [(''uh_sport'', 16), (''uh_dport'', 16), (''uh_ulen'', 16), (''uh_sum'', 16)]"

section \<open>The IPv4 header writer\<close>

definition apple_hdrSize :: "bool \<Rightarrow> nat" where "apple_hdrSize le = struct_size (struct_ip le)"

definition apple_hw_null :: "nat option" where "apple_hw_null = None"

definition apple_hw_assign :: "nat \<Rightarrow> nat option" where "apple_hw_assign p = Some p"

definition ip_bits :: "bool \<Rightarrow> string \<Rightarrow> nat option \<Rightarrow> u8 \<Rightarrow> memop" where
  "ip_bits le f ptr v = put_bits ptr (byte_offset (struct_ip le) f) (low_bit le (struct_ip le) f) 4 v"

definition apple_hw_new :: "bool \<Rightarrow> nat \<Rightarrow> memop" where
  "apple_hw_new le p = run_all [ip_bits le ''ip_v'' (Some p) 4, ip_bits le ''ip_hl'' (Some p) 5]"

definition apple_ihl :: "bool \<Rightarrow> nat option \<Rightarrow> u8 \<Rightarrow> memop" where
  "apple_ihl le ptr ihlv = ip_bits le ''ip_v'' ptr (0xf AND ihlv)"

definition ip_member :: "bool \<Rightarrow> string \<Rightarrow> nat option \<Rightarrow> u8 list \<Rightarrow> memop" where
  "ip_member le f ptr bs = put_bytes ptr (byte_offset (struct_ip le) f) bs"

definition apple_hw_tos :: "bool \<Rightarrow> nat option \<Rightarrow> u8 \<Rightarrow> memop" where
  "apple_hw_tos le ptr tosv = ip_member le ''ip_tos'' ptr [tosv]"

definition apple_hw_totalLen :: "bool \<Rightarrow> nat option \<Rightarrow> u16 \<Rightarrow> memop" where
  "apple_hw_totalLen le ptr lenv = ip_member le ''ip_len'' ptr (host_bytes16 le lenv)"

definition apple_hw_id :: "bool \<Rightarrow> nat option \<Rightarrow> u16 \<Rightarrow> memop" where
  "apple_hw_id le ptr idv = ip_member le ''ip_id'' ptr (host_bytes16 le idv)"

definition apple_hw_flagsAndFragOff :: "bool \<Rightarrow> nat option \<Rightarrow> u16 \<Rightarrow> memop" where
  "apple_hw_flagsAndFragOff le ptr ffoffv = ip_member le ''ip_off'' ptr (host_bytes16 le ffoffv)"

definition apple_hw_ttl :: "bool \<Rightarrow> nat option \<Rightarrow> u8 \<Rightarrow> memop" where
  "apple_hw_ttl le ptr ttlv = ip_member le ''ip_ttl'' ptr [ttlv]"

definition apple_hw_protocol :: "bool \<Rightarrow> nat option \<Rightarrow> u8 \<Rightarrow> memop" where
  "apple_hw_protocol le ptr protocolv = ip_member le ''ip_p'' ptr [protocolv]"

definition apple_hw_hdrChecksum :: "bool \<Rightarrow> nat option \<Rightarrow> u16 \<Rightarrow> memop" where
  "apple_hw_hdrChecksum le ptr hcsv = ip_member le ''ip_sum'' ptr (host_bytes16 le hcsv)"

definition apple_hw_saddr :: "bool \<Rightarrow> nat option \<Rightarrow> u32 \<Rightarrow> memop" where
  "apple_hw_saddr le ptr saddrv = ip_member le ''ip_src'' ptr (host_bytes32 le saddrv)"

definition apple_hw_daddr :: "bool \<Rightarrow> nat option \<Rightarrow> u32 \<Rightarrow> memop" where
  "apple_hw_daddr le ptr daddrv = ip_member le ''ip_dst'' ptr (host_bytes32 le daddrv)"

section \<open>The views\<close>

definition ip_view_bits :: "bool \<Rightarrow> string \<Rightarrow> nat option \<Rightarrow> u8 list \<Rightarrow> u8 option" where
  "ip_view_bits le f ptr = get_field_bits ptr (byte_offset (struct_ip le) f) (low_bit le (struct_ip le) f) 4"

definition apple_hv_ihl :: "bool \<Rightarrow> nat option \<Rightarrow> u8 list \<Rightarrow> u8 option" where
  "apple_hv_ihl le = ip_view_bits le ''ip_hl''"

definition apple_hv_headerSizeBytes :: "bool \<Rightarrow> nat option \<Rightarrow> u8 list \<Rightarrow> u16 option" where
  "apple_hv_headerSizeBytes le ptr m = map_option (\<lambda>v. push_bit 2 (ucast v)) (apple_hv_ihl le ptr m)"

definition apple_hv_version :: "bool \<Rightarrow> nat option \<Rightarrow> u8 list \<Rightarrow> u8 option" where
  "apple_hv_version le = ip_view_bits le ''ip_v''"

definition apple_hv_tos :: "bool \<Rightarrow> nat option \<Rightarrow> u8 list \<Rightarrow> u8 option" where
  "apple_hv_tos le ptr = get8 ptr (byte_offset (struct_ip le) ''ip_tos'')"

definition apple_hv_totalLen :: "bool \<Rightarrow> nat option \<Rightarrow> u8 list \<Rightarrow> u16 option" where
  "apple_hv_totalLen le ptr = get16 le ptr (byte_offset (struct_ip le) ''ip_len'')"

definition apple_hv_id :: "bool \<Rightarrow> nat option \<Rightarrow> u8 list \<Rightarrow> u16 option" where
  "apple_hv_id le ptr = get16 le ptr (byte_offset (struct_ip le) ''ip_id'')"

definition apple_hv_flagsAndFragOff :: "bool \<Rightarrow> nat option \<Rightarrow> u8 list \<Rightarrow> u16 option" where
  "apple_hv_flagsAndFragOff le ptr = get16 le ptr (byte_offset (struct_ip le) ''ip_off'')"

definition apple_hv_ttl :: "bool \<Rightarrow> nat option \<Rightarrow> u8 list \<Rightarrow> u8 option" where
  "apple_hv_ttl le ptr = get8 ptr (byte_offset (struct_ip le) ''ip_ttl'')"

definition apple_hv_protocol :: "bool \<Rightarrow> nat option \<Rightarrow> u8 list \<Rightarrow> u8 option" where
  "apple_hv_protocol le ptr = get8 ptr (byte_offset (struct_ip le) ''ip_p'')"

definition apple_hv_hdrChecksum :: "bool \<Rightarrow> nat option \<Rightarrow> u8 list \<Rightarrow> u16 option" where
  "apple_hv_hdrChecksum le ptr = get16 le ptr (byte_offset (struct_ip le) ''ip_sum'')"

definition apple_hv_saddr :: "bool \<Rightarrow> nat option \<Rightarrow> u8 list \<Rightarrow> u32 option" where
  "apple_hv_saddr le ptr = get32 le ptr (byte_offset (struct_ip le) ''ip_src'')"

definition apple_hv_daddr :: "bool \<Rightarrow> nat option \<Rightarrow> u8 list \<Rightarrow> u32 option" where
  "apple_hv_daddr le ptr = get32 le ptr (byte_offset (struct_ip le) ''ip_dst'')"

definition apple_uv_sport :: "bool \<Rightarrow> nat option \<Rightarrow> u8 list \<Rightarrow> u16 option" where
  "apple_uv_sport le ptr = get16 le ptr (byte_offset struct_udphdr ''uh_sport'')"

definition apple_uv_dport :: "bool \<Rightarrow> nat option \<Rightarrow> u8 list \<Rightarrow> u16 option" where
  "apple_uv_dport le ptr = get16 le ptr (byte_offset struct_udphdr ''uh_dport'')"

definition apple_uv_len :: "bool \<Rightarrow> nat option \<Rightarrow> u8 list \<Rightarrow> u16 option" where
  "apple_uv_len le ptr = get16 le ptr (byte_offset struct_udphdr ''uh_ulen'')"

definition apple_uv_sum :: "bool \<Rightarrow> nat option \<Rightarrow> u8 list \<Rightarrow> u16 option" where
  "apple_uv_sum le ptr = get16 le ptr (byte_offset struct_udphdr ''uh_sum'')"

section \<open>The classes agree with those for Linux\<close>

lemma ip_places:
  "byte_offset (struct_ip le) ''ip_hl'' = 0" "low_bit le (struct_ip le) ''ip_hl'' = 0"
  "byte_offset (struct_ip le) ''ip_v'' = 0" "low_bit le (struct_ip le) ''ip_v'' = 4"
  "byte_offset (struct_ip le) ''ip_tos'' = 1" "byte_offset (struct_ip le) ''ip_len'' = 2"
  "byte_offset (struct_ip le) ''ip_id'' = 4" "byte_offset (struct_ip le) ''ip_off'' = 6"
  "byte_offset (struct_ip le) ''ip_ttl'' = 8" "byte_offset (struct_ip le) ''ip_p'' = 9"
  "byte_offset (struct_ip le) ''ip_sum'' = 10" "byte_offset (struct_ip le) ''ip_src'' = 12"
  "byte_offset (struct_ip le) ''ip_dst'' = 16" "struct_size (struct_ip le) = 20"
  by (simp_all add: byte_offset_def low_bit_def struct_size_def struct_ip_def Let_def)

lemma udp_places:
  "byte_offset struct_udphdr ''uh_sport'' = 0" "byte_offset struct_udphdr ''uh_dport'' = 2"
  "byte_offset struct_udphdr ''uh_ulen'' = 4" "byte_offset struct_udphdr ''uh_sum'' = 6"
  by (simp_all add: byte_offset_def struct_udphdr_def)

lemma apple_writer:
  "apple_hdrSize le = IPv4HdrSize" "apple_hw_new le p = hw_new p" "apple_hw_tos le = hw_tos"
  "apple_hw_totalLen = hw_totalLen" "apple_hw_id = hw_id" "apple_hw_flagsAndFragOff = hw_flagsAndFragOff"
  "apple_hw_ttl le = hw_ttl" "apple_hw_protocol le = hw_protocol" "apple_hw_hdrChecksum = hw_hdrChecksum"
  "apple_hw_saddr = hw_saddr" "apple_hw_daddr = hw_daddr"
  by (simp_all add: fun_eq_iff ip_places ip_member_def ip_bits_def apple_hdrSize_def IPv4HdrSize_def apple_hw_new_def
      hw_new_def apple_hw_tos_def hw_tos_def apple_hw_totalLen_def hw_totalLen_def apple_hw_id_def hw_id_def
      apple_hw_flagsAndFragOff_def hw_flagsAndFragOff_def apple_hw_ttl_def hw_ttl_def apple_hw_protocol_def
      hw_protocol_def apple_hw_hdrChecksum_def hw_hdrChecksum_def apple_hw_saddr_def hw_saddr_def apple_hw_daddr_def
      hw_daddr_def)

lemma apple_views:
  "apple_hv_ihl le = hv_ihl" "apple_hv_headerSizeBytes le = hv_headerSizeBytes" "apple_hv_version le = hv_version"
  "apple_hv_tos le = hv_tos" "apple_hv_totalLen = hv_totalLen" "apple_hv_id = hv_id"
  "apple_hv_flagsAndFragOff = hv_flagsAndFragOff" "apple_hv_ttl le = hv_ttl" "apple_hv_protocol le = hv_protocol"
  "apple_hv_hdrChecksum = hv_hdrChecksum" "apple_hv_saddr = hv_saddr" "apple_hv_daddr = hv_daddr"
  "apple_uv_sport = uv_sport" "apple_uv_dport = uv_dport" "apple_uv_len = uv_len" "apple_uv_sum = uv_sum"
  by (simp_all add: fun_eq_iff ip_places udp_places ip_view_bits_def apple_hv_ihl_def hv_ihl_def
      apple_hv_headerSizeBytes_def hv_headerSizeBytes_def apple_hv_version_def hv_version_def apple_hv_tos_def hv_tos_def
      apple_hv_totalLen_def hv_totalLen_def apple_hv_id_def hv_id_def apple_hv_flagsAndFragOff_def
      hv_flagsAndFragOff_def apple_hv_ttl_def hv_ttl_def apple_hv_protocol_def hv_protocol_def apple_hv_hdrChecksum_def
      hv_hdrChecksum_def apple_hv_saddr_def hv_saddr_def apple_hv_daddr_def hv_daddr_def apple_uv_sport_def uv_sport_def
      apple_uv_dport_def uv_dport_def apple_uv_len_def uv_len_def apple_uv_sum_def uv_sum_def)

text \<open>
  A header written by the class for Apple hosts, without \<open>ihl()\<close>, is the header of the packets, byte for byte, on
  either byte order; a call of \<open>ihl(5)\<close>, which asks for the size that the constructor has set, makes it one of version 5.
\<close>

theorem apple_header:
  assumes "p = length pre"
  shows "run_all [apple_hw_new le p, apple_hw_tos le (Some p) tos, apple_hw_totalLen le (Some p) len,
      apple_hw_id le (Some p) idv, apple_hw_flagsAndFragOff le (Some p) ff, apple_hw_ttl le (Some p) ttl,
      apple_hw_protocol le (Some p) proto, apple_hw_saddr le (Some p) src, apple_hw_daddr le (Some p) dst]
      (pre @ replicate 20 0 @ post) = Some (pre @ ipv4_header le 4 5 tos len idv ff ttl proto 0 src dst @ post)"
    and "apple_ihl le (Some p) 5 (pre @ ipv4_header le 4 5 tos len idv ff ttl proto chk src dst @ post) =
      Some (pre @ ipv4_header le 5 5 tos len idv ff ttl proto chk src dst @ post)"
proof -
  show "run_all [apple_hw_new le p, apple_hw_tos le (Some p) tos, apple_hw_totalLen le (Some p) len,
      apple_hw_id le (Some p) idv, apple_hw_flagsAndFragOff le (Some p) ff, apple_hw_ttl le (Some p) ttl,
      apple_hw_protocol le (Some p) proto, apple_hw_saddr le (Some p) src, apple_hw_daddr le (Some p) dst]
      (pre @ replicate 20 0 @ post) = Some (pre @ ipv4_header le 4 5 tos len idv ff ttl proto 0 src dst @ post)"
    unfolding apple_writer by (rule run_packet_hw_at [OF assms])
  have byte: "set_bits 4 4 (0xf AND 5) (push_bit 4 (take_bit 4 4) OR take_bit 4 5) = push_bit 4 (take_bit 4 5) OR take_bit 4 5"
    by (simp add: set_bits_def mask_eq_exp_minus_1 take_bit_eq_mask)
  show "apple_ihl le (Some p) 5 (pre @ ipv4_header le 4 5 tos len idv ff ttl proto chk src dst @ post) =
      Some (pre @ ipv4_header le 5 5 tos len idv ff ttl proto chk src dst @ post)"
    using byte by (simp add: apple_ihl_def ip_bits_def ip_places put_bits_at assms ipv4_header_def)
qed

end
