(* ===== verification/PIMPackets.thy ===== *)
theory PIMPackets
  imports Headers Checksum JPModel
begin

text \<open>
  The PIM messages: the writers of \<open>lib/pimc/packets/PIMSMv2Utils.hpp\<close> and the two packets of
  \<open>apps/pimc/packets\<close>, the Hello and the Join/Prune update.  A writer transforms the packet writer
  and the memory, and is undefined, \<open>None\<close>, if it stores outside the memory.  The bytes a packet
  has to consist of are given by decoders that follow RFC 7761.  The textual description of a
  packet is part of \<open>ClientSystem\<close>.
\<close>

section \<open>Constants\<close>

definition IPv4_FAMILY_NUMBER :: u8 where "IPv4_FAMILY_NUMBER = 1"
definition PIMSMv2_NATIVE_ENCODING :: u8 where "PIMSMv2_NATIVE_ENCODING = 0"
definition PIMSMv2_HELLO :: u8 where "PIMSMv2_HELLO = 0"
definition PIMSMv2_JOIN_PRUNE :: u8 where "PIMSMv2_JOIN_PRUNE = 3"
definition PIMSMv2_OPT_HOLDTIME :: u16 where "PIMSMv2_OPT_HOLDTIME = 1"
definition PIMSMv2_OPT_DR_PRIORITY :: u16 where "PIMSMv2_OPT_DR_PRIORITY = 19"
definition PIMSMv2_OPT_GENERATION_ID :: u16 where "PIMSMv2_OPT_GENERATION_ID = 20"

lemmas pim_constants = IPv4_FAMILY_NUMBER_def PIMSMv2_NATIVE_ENCODING_def PIMSMv2_HELLO_def
  PIMSMv2_JOIN_PRUNE_def PIMSMv2_OPT_HOLDTIME_def PIMSMv2_OPT_DR_PRIORITY_def
  PIMSMv2_OPT_GENERATION_ID_def

text \<open>From the system headers: the flag that forbids fragmentation and the number of the protocol.\<close>

definition IP_DF :: u16 where "IP_DF = 0x4000"
definition IPPROTO_PIM :: u8 where "IPPROTO_PIM = 103"

section \<open>Writers\<close>

type_synonym writer = "PacketWriter \<times> u8 list \<Rightarrow> (PacketWriter \<times> u8 list) option"

text \<open>An object of \<open>sz\<close> bytes is allocated and its members are stored.\<close>

definition alloc :: "nat \<Rightarrow> (nat \<Rightarrow> memop) \<Rightarrow> writer" where
  "alloc sz store s =
     (case s of (pw, m) \<Rightarrow> case pw_next sz pw of (p, pw') \<Rightarrow> map_option (Pair pw') (store p m))"

fun run_writers :: "writer list \<Rightarrow> writer" where
  "run_writers [] s = Some s"
| "run_writers (w # ws) s = Option.bind (w s) (run_writers ws)"

definition to_nl :: "bool \<Rightarrow> IPv4Address \<Rightarrow> u32" where
  "to_nl le a = htonl le (addr_val a)"

definition writeHdr :: "u8 \<Rightarrow> writer" where
  "writeHdr type =
     alloc 4 (\<lambda>h. run_all [put_bits (Some h) 0 4 4 2, put_bits (Some h) 0 0 4 (0xf AND type),
       put_bytes (Some h) 1 [0]])"

text \<open>\<open>base\<close> is the address of the packet memory.\<close>

definition writeChkSum :: "bool \<Rightarrow> u64 \<Rightarrow> PacketWriter \<Rightarrow> nat \<Rightarrow> memop" where
  "writeChkSum le base pw sz m =
     (let data = pw_data pw; (hdr, pw') = pw_next 4 pw
      in Option.bind (peek data sz m)
           (\<lambda>bs. put_bytes (Some hdr) 2 (host_bytes16 le (ipChecksumNs le (base + of_nat data) bs)) m))"

definition writeIPv4Addr :: "bool \<Rightarrow> IPv4Address \<Rightarrow> writer" where
  "writeIPv4Addr le uaddr =
     run_writers
       [alloc 2 (\<lambda>h. run_all [put_bytes (Some h) 0 [IPv4_FAMILY_NUMBER],
          put_bytes (Some h) 1 [PIMSMv2_NATIVE_ENCODING]]),
        alloc 4 (\<lambda>ap. put_bytes (Some ap) 0 (host_bytes32 le (to_nl le uaddr)))]"

definition writeIPv4JPHdr :: "bool \<Rightarrow> IPv4Address \<Rightarrow> u8 \<Rightarrow> u16 \<Rightarrow> writer" where
  "writeIPv4JPHdr le neighbor grpNum holdtime =
     run_writers
       [writeIPv4Addr le neighbor,
        alloc 1 (\<lambda>reserved. put_bytes (Some reserved) 0 [0]),
        alloc 1 (\<lambda>gnp. put_bytes (Some gnp) 0 [grpNum]),
        alloc 2 (\<lambda>htp. put_bytes (Some htp) 0 (host_bytes16 le (htons le holdtime)))]"

definition writeIPv4Grp :: "bool \<Rightarrow> IPv4Address \<Rightarrow> writer" where
  "writeIPv4Grp le grp =
     run_writers
       [alloc 4 (\<lambda>h. run_all [put_bytes (Some h) 0 [IPv4_FAMILY_NUMBER],
          put_bytes (Some h) 1 [PIMSMv2_NATIVE_ENCODING], put_bytes (Some h) 2 [0],
          put_bytes (Some h) 3 [32]]),
        alloc 4 (\<lambda>gp. put_bytes (Some gp) 0 (host_bytes32 le (to_nl le grp)))]"

definition writeIPv4Src :: "bool \<Rightarrow> IPv4Address \<Rightarrow> bool \<Rightarrow> bool \<Rightarrow> writer" where
  "writeIPv4Src le src rpt wc =
     run_writers
       [alloc 4 (\<lambda>h. run_all [put_bytes (Some h) 0 [IPv4_FAMILY_NUMBER],
          put_bytes (Some h) 1 [PIMSMv2_NATIVE_ENCODING],
          put_bits (Some h) 2 0 1 (if rpt then 1 else 0), put_bits (Some h) 2 1 1 (if wc then 1 else 0),
          put_bits (Some h) 2 2 1 1, put_bits (Some h) 2 3 5 0, put_bytes (Some h) 3 [32]]),
        alloc 4 (\<lambda>srca. put_bytes (Some srca) 0 (host_bytes32 le (to_nl le src)))]"

definition writeOptHoldtime :: "bool \<Rightarrow> u16 \<Rightarrow> writer" where
  "writeOptHoldtime le holdtime =
     run_writers
       [alloc 4 (\<lambda>h. run_all [put_bytes (Some h) 0 (host_bytes16 le (htons le PIMSMv2_OPT_HOLDTIME)),
          put_bytes (Some h) 2 (host_bytes16 le (htons le 2))]),
        alloc 2 (\<lambda>hta. put_bytes (Some hta) 0 (host_bytes16 le (htons le holdtime)))]"

definition writeOptDrPriority :: "bool \<Rightarrow> u32 \<Rightarrow> writer" where
  "writeOptDrPriority le drPrio =
     run_writers
       [alloc 4 (\<lambda>h. run_all [put_bytes (Some h) 0 (host_bytes16 le (htons le PIMSMv2_OPT_DR_PRIORITY)),
          put_bytes (Some h) 2 (host_bytes16 le (htons le 4))]),
        alloc 4 (\<lambda>dpa. put_bytes (Some dpa) 0 (host_bytes32 le (htonl le drPrio)))]"

definition writeOptGenerationId :: "bool \<Rightarrow> u32 \<Rightarrow> writer" where
  "writeOptGenerationId le genId =
     run_writers
       [alloc 4 (\<lambda>h. run_all [put_bytes (Some h) 0 (host_bytes16 le (htons le PIMSMv2_OPT_GENERATION_ID)),
          put_bytes (Some h) 2 (host_bytes16 le (htons le 4))]),
        alloc 4 (\<lambda>gia. put_bytes (Some gia) 0 (host_bytes32 le (htonl le genId)))]"

section \<open>The packets\<close>

datatype packet_error = SizeMismatch nat nat  \<comment> \<open>expected and encoded size\<close>

definition writeSources :: "bool \<Rightarrow> Source list \<Rightarrow> writer" where
  "writeSources le ss = run_writers (map (\<lambda>s. writeIPv4Src le (src_addr s) (src_rpt s) (src_wildcard s)) ss)"

definition writeGroupEntry :: "bool \<Rightarrow> GroupEntry \<Rightarrow> writer" where
  "writeGroupEntry le ge =
     run_writers
       [writeIPv4Grp le (ge_group ge),
        alloc 2 (\<lambda>jnp. put_bytes (Some jnp) 0 (host_bytes16 le (htons le (of_nat (length (ge_joins ge)))))),
        alloc 2 (\<lambda>pnp. put_bytes (Some pnp) 0 (host_bytes16 le (htons le (of_nat (length (ge_prunes ge)))))),
        writeSources le (ge_joins ge), writeSources le (ge_prunes ge)]"

text \<open>The IPv4 header, the same calls in both constructors.\<close>

definition writeIPv4Hdr :: "bool \<Rightarrow> nat \<Rightarrow> IPv4Address \<Rightarrow> writer" where
  "writeIPv4Hdr le sz source =
     alloc IPv4HdrSize (\<lambda>p. run_all [hw_new p, hw_tos (Some p) 192,
       hw_totalLen le (Some p) (htons le (of_nat sz)), hw_id le (Some p) 0,
       hw_flagsAndFragOff le (Some p) (htons le IP_DF), hw_ttl (Some p) 1, hw_protocol (Some p) IPPROTO_PIM,
       hw_saddr le (Some p) (to_nl le source), hw_daddr le (Some p) (to_nl le AllPIMRouters)])"

text \<open>
  Both constructors write the message after the header, check the size and store the checksum
  through the writer \<open>pimPw\<close> marked after the header.
\<close>

definition buildPacket ::
    "bool \<Rightarrow> u64 \<Rightarrow> IPv4Address \<Rightarrow> nat \<Rightarrow> writer \<Rightarrow> (packet_error, u8 list) outcome option" where
  "buildPacket le base source pimSz body =
     (let sz = IPv4HdrSize + pimSz in
      Option.bind (writeIPv4Hdr le sz source (newPacketWriter 0, replicate sz 0))
        (\<lambda>(pw, m). let pimPw = pw_mark pw in
           Option.bind (body (pw, m))
             (\<lambda>(pw, m).
                if pw_size pw \<noteq> sz then Some (Fail (SizeMismatch sz (pw_size pw)))
                else map_option Ok (writeChkSum le base pimPw pimSz m))))"

definition IPv4PIMHelloPacket ::
    "bool \<Rightarrow> u64 \<Rightarrow> IPv4Address \<Rightarrow> u16 \<Rightarrow> u32 \<Rightarrow> u32 \<Rightarrow> (packet_error, u8 list) outcome option" where
  "IPv4PIMHelloPacket le base source helloHoldtime drPriority generationId =
     buildPacket le base source
       (PIMHdrSize + (HelloOptionHdrSize + 2) + (HelloOptionHdrSize + 4) + (HelloOptionHdrSize + 4))
       (run_writers
          [writeHdr PIMSMv2_HELLO, writeOptHoldtime le helloHoldtime, writeOptDrPriority le drPriority,
           writeOptGenerationId le generationId])"

definition IPv4PIMUpdatePacket ::
    "bool \<Rightarrow> u64 \<Rightarrow> Update \<Rightarrow> IPv4Address \<Rightarrow> IPv4Address \<Rightarrow> u16 \<Rightarrow> (packet_error, u8 list) outcome option" where
  "IPv4PIMUpdatePacket le base update source neighbor holdtime =
     buildPacket le base source (PIMJPHdrSize + us_size (updateSummary 0 update))
       (run_writers
          ([writeHdr PIMSMv2_JOIN_PRUNE,
            writeIPv4JPHdr le neighbor (of_nat (length (upd_groups update))) holdtime] @
           map (writeGroupEntry le) (upd_groups update)))"

section \<open>What the writers emit\<close>

text \<open>In front of zeros, a writer replaces as many zeros as it emits bytes.\<close>

definition emits :: "writer \<Rightarrow> u8 list \<Rightarrow> bool" where
  "emits w bs \<longleftrightarrow>
     (\<forall>pw pre n. pw_end pw = length pre \<and> length bs \<le> n \<longrightarrow>
        w (pw, pre @ replicate n 0) =
          Some (pw\<lparr>pw_end := pw_end pw + length bs\<rparr>, pre @ bs @ replicate (n - length bs) 0))"

lemma emitsD:
  "emits w bs \<Longrightarrow> pw_end pw = length pre \<Longrightarrow> length bs \<le> n \<Longrightarrow>
   w (pw, pre @ replicate n 0) =
     Some (pw\<lparr>pw_end := pw_end pw + length bs\<rparr>, pre @ bs @ replicate (n - length bs) 0)"
  by (simp add: emits_def)

lemma emits_alloc:
  assumes "length bs = k"
    and "\<And>p pre zs. p = length pre \<Longrightarrow> store p (pre @ replicate k 0 @ zs) = Some (pre @ bs @ zs)"
  shows "emits (alloc k store) bs"
  unfolding emits_def
proof (intro allI impI)
  fix pw :: PacketWriter and pre :: "u8 list" and n
  assume *: "pw_end pw = length pre \<and> length bs \<le> n"
  then have "replicate n (0 :: u8) = replicate k 0 @ replicate (n - k) 0"
    using assms(1) by (simp flip: replicate_add)
  with * assms show "alloc k store (pw, pre @ replicate n 0) =
      Some (pw\<lparr>pw_end := pw_end pw + length bs\<rparr>, pre @ bs @ replicate (n - length bs) 0)"
    by (simp add: alloc_def pw_next_def)
qed

lemma emits_Nil [intro]: "emits (run_writers []) []"
  by (simp add: emits_def)

lemma emits_Cons [intro]:
  assumes w: "emits w bs" and ws: "emits (run_writers ws) cs"
  shows "emits (run_writers (w # ws)) (bs @ cs)"
  unfolding emits_def
proof (intro allI impI)
  fix pw :: PacketWriter and pre :: "u8 list" and n
  assume *: "pw_end pw = length pre \<and> length (bs @ cs) \<le> n"
  then have "w (pw, pre @ replicate n 0) =
      Some (pw\<lparr>pw_end := pw_end pw + length bs\<rparr>, (pre @ bs) @ replicate (n - length bs) 0)"
    using emitsD [OF w, of pw pre n] by simp
  moreover have "length cs \<le> n - length bs" using * by auto
  ultimately show "run_writers (w # ws) (pw, pre @ replicate n 0) =
      Some (pw\<lparr>pw_end := pw_end pw + length (bs @ cs)\<rparr>, pre @ (bs @ cs) @ replicate (n - length (bs @ cs)) 0)"
    using * emitsD [OF ws, of "pw\<lparr>pw_end := pw_end pw + length bs\<rparr>" "pre @ bs" "n - length bs"]
    by (simp add: add.assoc)
qed

lemma emits_two: "emits w bs \<Longrightarrow> emits v cs \<Longrightarrow> emits (run_writers [w, v]) (bs @ cs)"
  using emits_Cons [OF _ emits_Cons [OF _ emits_Nil]] by fastforce

lemma emits_map: "(\<And>x. emits (f x) (g x)) \<Longrightarrow> emits (run_writers (map f xs)) (concat (map g xs))"
  by (induction xs) auto

text \<open>The bytes of each part of a message.\<close>

definition enc_addr :: "IPv4Address \<Rightarrow> u8 list" where
  "enc_addr a = [1, 0] @ bytes_of32 (addr_val a)"

definition enc_source :: "Source \<Rightarrow> u8 list" where
  "enc_source s =
     [1, 0, 4 + (if src_wildcard s then 2 else 0) + (if src_rpt s then 1 else 0), 32] @
     bytes_of32 (addr_val (src_addr s))"

definition enc_entry :: "GroupEntry \<Rightarrow> u8 list" where
  "enc_entry e =
     ([1, 0, 0, 32] @ bytes_of32 (addr_val (ge_group e))) @
     bytes_of16 (of_nat (length (ge_joins e))) @ bytes_of16 (of_nat (length (ge_prunes e))) @
     concat (map enc_source (ge_joins e)) @ concat (map enc_source (ge_prunes e))"

definition enc_option16 :: "u16 \<Rightarrow> u16 \<Rightarrow> u8 list" where
  "enc_option16 t v = (bytes_of16 t @ bytes_of16 2) @ bytes_of16 v"

definition enc_option32 :: "u16 \<Rightarrow> u32 \<Rightarrow> u8 list" where
  "enc_option32 t v = (bytes_of16 t @ bytes_of16 4) @ bytes_of32 v"

lemma length_enc [simp, size_simps]:
  "length (enc_addr a) = 6" "length (enc_source s) = 8" "length (enc_option16 t v) = 6"
  "length (enc_option32 t w) = 8"
  by (simp_all add: enc_addr_def enc_source_def enc_option16_def enc_option32_def)

lemma length_enc_sources [simp]: "length (concat (map enc_source ss)) = 8 * length ss"
  by (induction ss) simp_all

lemma length_enc_entry [simp]: "length (enc_entry e) = entry_size e"
  by (simp add: enc_entry_def entry_size_def size_simps algebra_simps)

lemma zeros [simp]:
  "replicate 2 (0 :: u8) = [0, 0]" "replicate 4 (0 :: u8) = [0, 0, 0, 0]"
  by (simp_all add: numeral_eq_Suc)

lemma emits_bytes:
  "emits (alloc 2 (\<lambda>p. put_bytes (Some p) 0 (host_bytes16 le (htons le v)))) (bytes_of16 v)"
  "emits (alloc 4 (\<lambda>p. put_bytes (Some p) 0 (host_bytes32 le (htonl le w)))) (bytes_of32 w)"
  "emits (alloc 1 (\<lambda>p. put_bytes (Some p) 0 [b])) [b]"
  by (rule emits_alloc; simp add: put_bytes_at)+

lemma emits_writeHdr: "emits (writeHdr t) ([push_bit 4 2 OR take_bit 4 t, 0] @ [0, 0])"
  unfolding writeHdr_def
  by (rule emits_alloc) (simp_all add: put_bits_at put_bytes_at set_bits_all)

lemma emits_writeIPv4Addr: "emits (writeIPv4Addr le a) (enc_addr a)"
proof -
  have "emits (alloc 2 (\<lambda>h. run_all [put_bytes (Some h) 0 [IPv4_FAMILY_NUMBER],
      put_bytes (Some h) 1 [PIMSMv2_NATIVE_ENCODING]])) [1, 0]"
    by (rule emits_alloc) (simp_all add: put_bytes_at pim_constants)
  from emits_two [OF this emits_bytes(2)] show ?thesis
    unfolding writeIPv4Addr_def enc_addr_def to_nl_def .
qed

lemma emits_writeIPv4Grp: "emits (writeIPv4Grp le g) ([1, 0, 0, 32] @ bytes_of32 (addr_val g))"
proof -
  have "emits (alloc 4 (\<lambda>h. run_all [put_bytes (Some h) 0 [IPv4_FAMILY_NUMBER],
      put_bytes (Some h) 1 [PIMSMv2_NATIVE_ENCODING], put_bytes (Some h) 2 [0],
      put_bytes (Some h) 3 [32]])) [1, 0, 0, 32]"
    by (rule emits_alloc) (simp_all add: put_bytes_at pim_constants)
  from emits_two [OF this emits_bytes(2)] show ?thesis unfolding writeIPv4Grp_def to_nl_def .
qed

lemma emits_writeIPv4Src:
  "emits (writeIPv4Src le (src_addr s) (src_rpt s) (src_wildcard s)) (enc_source s)"
proof -
  let ?f = "4 + (if src_wildcard s then 2 else 0) + (if src_rpt s then 1 else 0) :: u8"
  have "set_bits 3 5 0 (set_bits 2 1 1 (set_bits 1 1 (if src_wildcard s then 1 else 0)
      (set_bits 0 1 (if src_rpt s then 1 else 0) 0))) = ?f"
    by (simp add: set_bits_def mask_eq_exp_minus_1)
  then have "emits (alloc 4 (\<lambda>h. run_all [put_bytes (Some h) 0 [IPv4_FAMILY_NUMBER],
          put_bytes (Some h) 1 [PIMSMv2_NATIVE_ENCODING],
          put_bits (Some h) 2 0 1 (if src_rpt s then 1 else 0),
          put_bits (Some h) 2 1 1 (if src_wildcard s then 1 else 0),
          put_bits (Some h) 2 2 1 1, put_bits (Some h) 2 3 5 0, put_bytes (Some h) 3 [32]])) [1, 0, ?f, 32]"
    by (intro emits_alloc) (simp_all add: put_bytes_at put_bits_at pim_constants)
  from emits_two [OF this emits_bytes(2)] show ?thesis
    unfolding writeIPv4Src_def enc_source_def to_nl_def .
qed

lemma emits_options:
  "emits (writeOptHoldtime le h) (enc_option16 1 h)"
  "emits (writeOptDrPriority le d) (enc_option32 19 d)"
  "emits (writeOptGenerationId le g) (enc_option32 20 g)"
proof -
  have hdr: "emits (alloc 4 (\<lambda>h. run_all [put_bytes (Some h) 0 (host_bytes16 le (htons le t)),
      put_bytes (Some h) 2 (host_bytes16 le (htons le n))])) (bytes_of16 t @ bytes_of16 n)" for t n
    by (rule emits_alloc) (simp_all add: put_bytes_at)
  note opt16 = emits_two [OF hdr emits_bytes(1)] and opt32 = emits_two [OF hdr emits_bytes(2)]
  show "emits (writeOptHoldtime le h) (enc_option16 1 h)"
    unfolding writeOptHoldtime_def enc_option16_def pim_constants by (rule opt16)
  show "emits (writeOptDrPriority le d) (enc_option32 19 d)"
    unfolding writeOptDrPriority_def enc_option32_def pim_constants by (rule opt32)
  show "emits (writeOptGenerationId le g) (enc_option32 20 g)"
    unfolding writeOptGenerationId_def enc_option32_def pim_constants by (rule opt32)
qed

lemma emits_writeIPv4JPHdr:
  "emits (writeIPv4JPHdr le a n h) (enc_addr a @ [0] @ [n] @ bytes_of16 h @ [])"
  unfolding writeIPv4JPHdr_def
  by (intro emits_Cons emits_Nil emits_writeIPv4Addr emits_bytes)

lemma emits_writeGroupEntry: "emits (writeGroupEntry le e) (enc_entry e @ [])"
  unfolding writeGroupEntry_def enc_entry_def writeSources_def append_assoc
  by (subst append_assoc [symmetric])
    (intro emits_Cons emits_Nil emits_writeIPv4Grp emits_bytes emits_map emits_writeIPv4Src)

lemma run_writers_append: "run_writers (ws @ vs) s = Option.bind (run_writers ws s) (run_writers vs)"
proof (induction ws arbitrary: s)
  case (Cons w ws)
  then show ?case by (cases "w s") simp_all
qed simp

lemma emits_append:
  assumes "emits (run_writers ws) bs" and "emits (run_writers vs) cs"
  shows "emits (run_writers (ws @ vs)) (bs @ cs)"
proof -
  have "run_writers [run_writers ws, run_writers vs] s = run_writers (ws @ vs) s" for s
    by (cases "run_writers ws s"; cases "run_writers vs (the (run_writers ws s))")
      (simp_all add: run_writers_append)
  then have "run_writers [run_writers ws, run_writers vs] = run_writers (ws @ vs)" ..
  with emits_two [OF assms] show ?thesis by simp
qed

text \<open>The two messages, without the checksum.\<close>

definition enc_hello :: "u16 \<Rightarrow> u32 \<Rightarrow> u32 \<Rightarrow> u8 list" where
  "enc_hello h d g = enc_option16 1 h @ enc_option32 19 d @ enc_option32 20 g"

definition enc_update :: "IPv4Address \<Rightarrow> u16 \<Rightarrow> GroupEntry list \<Rightarrow> u8 list" where
  "enc_update a h es = enc_addr a @ [0, of_nat (length es)] @ bytes_of16 h @ concat (map enc_entry es)"

lemma emits_hello:
  "emits (run_writers [writeHdr PIMSMv2_HELLO, writeOptHoldtime le h, writeOptDrPriority le d,
     writeOptGenerationId le g]) ([0x20, 0] @ [0, 0] @ enc_hello h d g)"
  using emits_Cons [OF emits_writeHdr [of 0] emits_Cons [OF emits_options(1) emits_two [OF emits_options(2,3)]]]
  by (simp add: enc_hello_def pim_constants)

lemma emits_update:
  "emits (run_writers ([writeHdr PIMSMv2_JOIN_PRUNE, writeIPv4JPHdr le a (of_nat (length es)) h] @
     map (writeGroupEntry le) es)) ([0x23, 0] @ [0, 0] @ enc_update a h es)"
proof -
  have "emits (run_writers (map (writeGroupEntry le) es)) (concat (map enc_entry es))"
    using emits_writeGroupEntry by (intro emits_map) simp
  from emits_append [OF emits_two [OF emits_writeHdr [of 3]
      emits_writeIPv4JPHdr [of le a "of_nat (length es)" h]] this]
  show ?thesis by (simp add: enc_update_def pim_constants)
qed

lemma length_enc_message [simp, size_simps]:
  "length (enc_hello h d g) = 22" "length (enc_update a h es) = 10 + sum_list (map entry_size es)"
  by (simp_all add: enc_hello_def enc_update_def length_concat comp_def)

text \<open>A message is completed by its checksum and sent behind an IPv4 header.\<close>

definition checked :: "bool \<Rightarrow> u64 \<Rightarrow> u8 list \<Rightarrow> u8 list \<Rightarrow> u8 list" where
  "checked le addr hdr body =
     hdr @ host_bytes16 le (ipChecksumNs le addr (hdr @ [0, 0] @ body)) @ body"

definition pim_ipv4_header :: "bool \<Rightarrow> nat \<Rightarrow> IPv4Address \<Rightarrow> u8 list" where
  "pim_ipv4_header le sz source =
     ipv4_header le 4 5 192 (htons le (of_nat sz)) 0 (htons le IP_DF) 1 IPPROTO_PIM 0 (to_nl le source)
       (to_nl le AllPIMRouters)"

lemma length_pim_ipv4_header [simp]: "length (pim_ipv4_header le sz source) = 20"
  by (simp add: pim_ipv4_header_def ipv4_header_def)

lemma emits_writeIPv4Hdr: "emits (writeIPv4Hdr le sz source) (pim_ipv4_header le sz source)"
  unfolding writeIPv4Hdr_def
proof (rule emits_alloc)
  fix p and pre zs :: "u8 list"
  assume p: "p = length pre"
  show "run_all [hw_new p, hw_tos (Some p) 192, hw_totalLen le (Some p) (htons le (of_nat sz)),
      hw_id le (Some p) 0, hw_flagsAndFragOff le (Some p) (htons le IP_DF), hw_ttl (Some p) 1,
      hw_protocol (Some p) IPPROTO_PIM, hw_saddr le (Some p) (to_nl le source),
      hw_daddr le (Some p) (to_nl le AllPIMRouters)] (pre @ replicate IPv4HdrSize 0 @ zs) =
    Some (pre @ pim_ipv4_header le sz source @ zs)"
    using run_packet_hw_at [OF p] by (simp add: pim_ipv4_header_def IPv4HdrSize_def)
qed (simp add: IPv4HdrSize_def)

lemma buildPacket_message:
  assumes "emits body ([v, 0] @ [0, 0] @ msg)" and "pimSz = 4 + length msg"
  shows "buildPacket le base source pimSz body =
    Some (Ok (pim_ipv4_header le (20 + pimSz) source @ checked le (base + 20) [v, 0] msg))"
proof -
  let ?h = "pim_ipv4_header le (20 + pimSz) source"
  have 1: "writeIPv4Hdr le (20 + pimSz) source (newPacketWriter 0, [] @ replicate (20 + pimSz) 0) =
      Some (newPacketWriter 0\<lparr>pw_end := 20\<rparr>, ?h @ replicate pimSz 0)"
    by (subst emitsD [OF emits_writeIPv4Hdr]) (simp_all add: newPacketWriter_def)
  have 2: "body (newPacketWriter 0\<lparr>pw_end := 20\<rparr>, ?h @ replicate pimSz 0) =
      Some (newPacketWriter 0\<lparr>pw_end := 20 + pimSz\<rparr>, ?h @ [v, 0] @ [0, 0] @ msg)"
    by (subst emitsD [OF assms(1)]) (simp_all add: newPacketWriter_def assms(2))
  have 3: "writeChkSum le base (pw_mark (newPacketWriter 0\<lparr>pw_end := 20\<rparr>)) pimSz (?h @ [v, 0] @ [0, 0] @ msg) =
      Some (?h @ checked le (base + 20) [v, 0] msg)"
    by (simp add: writeChkSum_def pw_mark_def newPacketWriter_def pw_data_def pw_next_def peek_def
        put_bytes_at assms(2) checked_def)
  show ?thesis
    using 1 2 3 by (simp add: buildPacket_def IPv4HdrSize_def pw_size_def newPacketWriter_def)
qed

section \<open>What a receiver reads\<close>

text \<open>
  Decoders of the two messages after RFC 7761, for the options and encodings that the client sends:
  encoded addresses of section 4.9.1, the Join/Prune message of 4.9.5 and the Hello options of 4.9.2.
  They look at the PIM message, without the IPv4 header.
\<close>

fun dec_sources :: "nat \<Rightarrow> u8 list \<Rightarrow> (Source list \<times> u8 list) option" where
  "dec_sources 0 bs = Some ([], bs)"
| "dec_sources (Suc n) (fam # enc # fl # ml # a # b # c # d # bs) =
     (if fam = 1 \<and> enc = 0 \<and> drop_bit 2 fl = 1 \<and> ml = 32
      then map_option
        (\<lambda>(ss, r). (\<lparr>src_addr = IPv4Address (of_bytes 0 [a, b, c, d]), src_wildcard = bit fl 1,
                       src_rpt = bit fl 0\<rparr> # ss, r)) (dec_sources n bs)
      else None)"
| "dec_sources (Suc n) _ = None"

fun dec_entries :: "nat \<Rightarrow> u8 list \<Rightarrow> GroupEntry list option" where
  "dec_entries 0 bs = (if bs = [] then Some [] else None)"
| "dec_entries (Suc n) (fam # enc # z # ml # a # b # c # d # j1 # j0 # p1 # p0 # bs) =
     (if fam = 1 \<and> enc = 0 \<and> z = 0 \<and> ml = 32
      then Option.bind (dec_sources (unat (of_bytes 0 [j1, j0] :: u16)) bs)
        (\<lambda>(js, r). Option.bind (dec_sources (unat (of_bytes 0 [p1, p0] :: u16)) r)
           (\<lambda>(ps, r'). map_option
              (Cons \<lparr>ge_group = IPv4Address (of_bytes 0 [a, b, c, d]), ge_joins = js, ge_prunes = ps\<rparr>)
              (dec_entries n r')))
      else None)"
| "dec_entries (Suc n) _ = None"

fun dec_update :: "u8 list \<Rightarrow> (IPv4Address \<times> u16 \<times> GroupEntry list) option" where
  "dec_update (v # r # k1 # k0 # fam # enc # a # b # c # d # z # n # h1 # h0 # bs) =
     (if v = 0x23 \<and> r = 0 \<and> fam = 1 \<and> enc = 0
      then map_option (\<lambda>es. (IPv4Address (of_bytes 0 [a, b, c, d]), of_bytes 0 [h1, h0], es))
             (dec_entries (unat n) bs)
      else None)"
| "dec_update _ = None"

fun dec_options :: "u8 list \<Rightarrow> (u16 \<times> u8 list) list option" where
  "dec_options [] = Some []"
| "dec_options (t1 # t0 # l1 # l0 # bs) =
     (let n = unat (of_bytes 0 [l1, l0] :: u16) in
      if n \<le> length bs then map_option (Cons (of_bytes 0 [t1, t0], take n bs)) (dec_options (drop n bs))
      else None)"
| "dec_options _ = None"

fun dec_hello :: "u8 list \<Rightarrow> (u16 \<times> u8 list) list option" where
  "dec_hello (v # r # k1 # k0 # bs) = (if v = 0x20 \<and> r = 0 then dec_options bs else None)"
| "dec_hello _ = None"

text \<open>What the 16-bit counts and the octet for the number of groups can hold.\<close>

definition encodable :: "GroupEntry list \<Rightarrow> bool" where
  "encodable es \<longleftrightarrow> length es < 256 \<and>
     (\<forall>e \<in> set es. length (ge_joins e) < 65536 \<and> length (ge_prunes e) < 65536)"

lemma bytes_of_eq:
  "bytes_of16 v = [ucast (drop_bit 8 v), ucast v]"
  "bytes_of32 w = [ucast (drop_bit 24 w), ucast (drop_bit 16 w), ucast (drop_bit 8 w), ucast w]"
  by (simp_all add: bytes_of16_def bytes_of32_def)

lemma of_bytes_eq [simp]:
  "of_bytes 0 [ucast (drop_bit 8 v), ucast v] = (v :: u16)"
  "of_bytes 0 [ucast (drop_bit 24 w), ucast (drop_bit 16 w), ucast (drop_bit 8 w), ucast w] = (w :: u32)"
  using of_bytes_of16 [of v] of_bytes_of32 [of w] by (simp_all add: bytes_of_eq)

lemma source_flags:
  fixes w r :: bool
  defines "f \<equiv> 4 + (if w then 2 else 0) + (if r then 1 else 0) :: u8"
  shows "drop_bit 2 f = 1" "bit f (Suc 0) = w" "bit f 0 = r"
  by (cases w; cases r; simp add: f_def)+

lemma dec_enc_source:
  "dec_sources (Suc n) (enc_source s @ bs) = map_option (\<lambda>(ss, r). (s # ss, r)) (dec_sources n bs)"
  by (cases s) (simp add: enc_source_def bytes_of_eq source_flags)

lemma dec_enc_sources: "dec_sources (length ss) (concat (map enc_source ss) @ bs) = Some (ss, bs)"
  by (induction ss) (simp_all add: dec_enc_source)

lemma dec_enc_entry:
  assumes "length (ge_joins e) < 65536" and "length (ge_prunes e) < 65536"
  shows "dec_entries (Suc n) (enc_entry e @ bs) = map_option (Cons e) (dec_entries n bs)"
  using assms by (cases e) (simp add: enc_entry_def bytes_of_eq unat_of_nat_small dec_enc_sources)

lemma dec_enc_entries:
  "\<forall>e \<in> set es. length (ge_joins e) < 65536 \<and> length (ge_prunes e) < 65536 \<Longrightarrow>
   dec_entries (length es) (concat (map enc_entry es)) = Some es"
  by (induction es) (simp_all add: dec_enc_entry)

lemma dec_enc_update:
  assumes "encodable es"
  shows "dec_update (0x23 # 0 # k1 # k0 # enc_update a h es) = Some (a, h, es)"
  using assms dec_enc_entries [of es]
  by (simp add: encodable_def enc_update_def enc_addr_def bytes_of_eq unat_of_nat_small)

lemma dec_option:
  assumes "unat n = length bs"
  shows "dec_options ((bytes_of16 t @ bytes_of16 n) @ bs @ cs) = map_option (Cons (t, bs)) (dec_options cs)"
proof -
  obtain t1 t0 where t: "bytes_of16 t = [t1, t0]" by (rule length_2E [OF length_bytes_of(1)])
  obtain n1 n0 where n: "bytes_of16 n = [n1, n0]" by (rule length_2E [OF length_bytes_of(1)])
  have "of_bytes 0 [t1, t0] = t" "of_bytes 0 [n1, n0] = n"
    using of_bytes_of16 [of t] of_bytes_of16 [of n] by (simp_all add: t n)
  then show ?thesis by (simp add: t n assms Let_def)
qed

lemma dec_enc_hello:
  "dec_hello (0x20 # 0 # k1 # k0 # enc_hello h d g) =
     Some [(1, bytes_of16 h), (19, bytes_of32 d), (20, bytes_of32 g)]"
  using dec_option [of 2 "bytes_of16 h" 1] dec_option [of 4 "bytes_of32 d" 19]
    dec_option [of 4 "bytes_of32 g" 20 "[]"]
  by (simp add: enc_hello_def enc_option16_def enc_option32_def)

section \<open>The packets\<close>

text \<open>The fields of the IPv4 header in front of a PIM message.\<close>

definition pim_ipv4 :: "bool \<Rightarrow> IPv4Address \<Rightarrow> u8 list \<Rightarrow> bool" where
  "pim_ipv4 le source p \<longleftrightarrow>
     hv_version (Some 0) p = Some 4 \<and> hv_ihl (Some 0) p = Some 5 \<and>
     hv_tos (Some 0) p = Some 192 \<and>
     map_option (ntohs le) (hv_totalLen le (Some 0) p) = Some (of_nat (length p)) \<and>
     map_option (ntohs le) (hv_flagsAndFragOff le (Some 0) p) = Some IP_DF \<and>
     hv_ttl (Some 0) p = Some 1 \<and> hv_protocol (Some 0) p = Some IPPROTO_PIM \<and>
     map_option (IPv4Address \<circ> ntohl le) (hv_saddr le (Some 0) p) = Some source \<and>
     map_option (IPv4Address \<circ> ntohl le) (hv_daddr le (Some 0) p) = Some AllPIMRouters"

lemma pim_ipv4_header:
  assumes "length bs = n"
  shows "pim_ipv4 le source (pim_ipv4_header le (20 + n) source @ bs)"
proof -
  let ?m = "pim_ipv4_header le (20 + n) source @ bs"
  have m: "?m = [] @ ipv4_header le 4 5 192 (htons le (of_nat (20 + n))) 0 (htons le IP_DF) 1 IPPROTO_PIM 0
      (to_nl le source) (to_nl le AllPIMRouters) @ bs"
    by (simp add: pim_ipv4_header_def)
  have len: "length ?m = 20 + n" by (simp add: assms)
  have five: "take_bit 4 (5 :: u8) = 5" "take_bit 4 (4 :: u8) = 4" by simp_all
  show ?thesis
    unfolding pim_ipv4_def len by (simp add: view_header [OF _ m] five to_nl_def del: append.simps)
qed

lemma checked_verifies:
  "length msg < 2 ^ 29 \<Longrightarrow> ipChecksumNs le' addr' (checked le addr [v, 0] msg) = 0"
  using checksum_stored [of "[v, 0]" msg le' addr' le addr] by (simp add: checked_def)

lemma length_checked [simp]: "length (checked le addr hdr body) = length hdr + 2 + length body"
  by (simp add: checked_def)

lemma checked_Cons:
  obtains k1 k0 where "checked le addr [v, r] body = v # r # k1 # k0 # body"
  by (rule length_2E [OF length_host_bytes(1)]) (auto simp: checked_def)

text \<open>The packets, in terms of their bytes.\<close>

lemma hello_packet_bytes:
  "IPv4PIMHelloPacket le base source h d g =
     Some (Ok (pim_ipv4_header le 46 source @ checked le (base + 20) [0x20, 0] (enc_hello h d g)))"
  unfolding IPv4PIMHelloPacket_def
  by (subst buildPacket_message [OF emits_hello]) (simp_all add: size_simps)

lemma update_packet_bytes:
  "IPv4PIMUpdatePacket le base update source neighbor h =
     Some (Ok (pim_ipv4_header le (34 + sum_list (map entry_size (upd_groups update))) source @
       checked le (base + 20) [0x23, 0] (enc_update neighbor h (upd_groups update))))"
  unfolding IPv4PIMUpdatePacket_def us_size_sum
  by (subst buildPacket_message [OF emits_update]) (simp_all add: size_simps)

text \<open>The correctness of both packets, shared by the properties here and in the theories above.\<close>

lemma hello_packet_ok:
  "\<exists>p. IPv4PIMHelloPacket le base source helloHoldtime drPriority generationId = Some (Ok p) \<and>
    length p = 46 \<and> pim_ipv4 le source p \<and>
    (\<forall>le' addr. ipChecksumNs le' addr (drop 20 p) = 0) \<and>
    dec_hello (drop 20 p) =
      Some [(1, bytes_of16 helloHoldtime), (19, bytes_of32 drPriority), (20, bytes_of32 generationId)]"
proof -
  let ?c = "checked le (base + 20) [0x20, 0] (enc_hello helloHoldtime drPriority generationId)"
  obtain k1 k0 where c: "?c = 0x20 # 0 # k1 # k0 # enc_hello helloHoldtime drPriority generationId"
    by (rule checked_Cons)
  have "dec_hello ?c = Some [(1, bytes_of16 helloHoldtime), (19, bytes_of32 drPriority), (20, bytes_of32 generationId)]"
    unfolding c by (rule dec_enc_hello)
  then show ?thesis
    using pim_ipv4_header [of ?c 26 le source] checked_verifies
    by (intro exI [of _ "pim_ipv4_header le 46 source @ ?c"]) (simp add: hello_packet_bytes)
qed

lemma update_packet_ok:
  assumes "encodable (upd_groups update)" and "us_size (updateSummary 0 update) < 65502"
  shows "\<exists>p. IPv4PIMUpdatePacket le base update source neighbor holdtime = Some (Ok p) \<and>
    length p = 34 + us_size (updateSummary 0 update) \<and> pim_ipv4 le source p \<and>
    (\<forall>le' addr. ipChecksumNs le' addr (drop 20 p) = 0) \<and>
    dec_update (drop 20 p) = Some (neighbor, holdtime, upd_groups update)"
proof -
  let ?n = "sum_list (map entry_size (upd_groups update))"
  let ?c = "checked le (base + 20) [0x23, 0] (enc_update neighbor holdtime (upd_groups update))"
  obtain k1 k0 where c: "?c = 0x23 # 0 # k1 # k0 # enc_update neighbor holdtime (upd_groups update)"
    by (rule checked_Cons)
  have "dec_update ?c = Some (neighbor, holdtime, upd_groups update)"
    unfolding c by (rule dec_enc_update [OF assms(1)])
  moreover have "pim_ipv4 le source (pim_ipv4_header le (34 + ?n) source @ ?c)"
    using pim_ipv4_header [of ?c "14 + ?n" le source] by simp
  ultimately show ?thesis
    using assms(2) checked_verifies [of "enc_update neighbor holdtime (upd_groups update)"]
    by (intro exI [of _ "pim_ipv4_header le (34 + ?n) source @ ?c"]) (simp add: update_packet_bytes us_size_sum)
qed

text \<open>The Hello packet is always built: 46 bytes, a correct IPv4 header to ALL-PIM-ROUTERS, a
  PIM message whose checksum verifies on every host, and the three options with their values.\<close>

theorem hello_packet_correct:
  "\<exists>p. IPv4PIMHelloPacket le base source helloHoldtime drPriority generationId = Some (Ok p) \<and>
    length p = 46 \<and> pim_ipv4 le source p \<and>
    (\<forall>le' addr. ipChecksumNs le' addr (drop 20 p) = 0) \<and>
    dec_hello (drop 20 p) =
      Some [(1, bytes_of16 helloHoldtime), (19, bytes_of32 drPriority), (20, bytes_of32 generationId)]"
  by (rule hello_packet_ok)

text \<open>C31: The Join/Prune packet of an update whose counts fit their fields is always built: it has
  the size of the update, a correct IPv4 header, a PIM message whose checksum verifies on every host,
  and a receiver reads the neighbor, the holdtime and the group entries back.\<close>

theorem update_packet_correct:
  assumes "encodable (upd_groups update)" and "us_size (updateSummary 0 update) < 65502"
  shows "\<exists>p. IPv4PIMUpdatePacket le base update source neighbor holdtime = Some (Ok p) \<and>
    length p = 34 + us_size (updateSummary 0 update) \<and> pim_ipv4 le source p \<and>
    (\<forall>le' addr. ipChecksumNs le' addr (drop 20 p) = 0) \<and>
    dec_update (drop 20 p) = Some (neighbor, holdtime, upd_groups update)"
  by (rule update_packet_ok [OF assms])

definition sampleUpdate :: Update where
  "sampleUpdate = \<lparr>upd_groups =
     [\<lparr>ge_group = ofOctets 239 1 2 3, ge_joins = [rp_source (ofOctets 10 0 0 1), spt_source (ofOctets 10 1 1 1)],
       ge_prunes = [rpt_source (ofOctets 10 1 1 2)]\<rparr>]\<rparr>"

lemma update_packet_correct_witness:
  "\<exists>p. IPv4PIMUpdatePacket True 0 sampleUpdate (ofOctets 10 0 0 9) (ofOctets 10 0 0 1) 210 = Some (Ok p) \<and>
    length p = 70 \<and> dec_update (drop 20 p) = Some (ofOctets 10 0 0 1, 210, upd_groups sampleUpdate)"
proof -
  have "us_size (updateSummary 0 sampleUpdate) = 36"
    by (simp add: sampleUpdate_def us_size_sum entry_size_def size_simps)
  moreover have "encodable (upd_groups sampleUpdate)" by (simp add: sampleUpdate_def encodable_def)
  ultimately show ?thesis
    using update_packet_correct [of sampleUpdate True 0 "ofOctets 10 0 0 9" "ofOctets 10 0 0 1" 210]
    by auto
qed

end
