(* ===== verification/EventQueue.thy ===== *)
theory EventQueue
  imports Results
begin

text \<open>
  \<open>lib/pimc/events/FixedEventQueue.hpp\<close>: how a fixed sequence of event handlers is made, and
  how they are polled and fired in order.  A handler is the pair of
  its operations \<open>ready()\<close> and \<open>fire()\<close> on the state that the handlers share.
\<close>

section \<open>The queue\<close>

record ('s, 'e) EventHandler =
  eh_ready :: "'s \<Rightarrow> bool \<times> 's"
  eh_fire :: "'s \<Rightarrow> ('e, unit) outcome \<times> 's"

fun chainEvents :: "('s, 'e) EventHandler list \<Rightarrow> u32 \<Rightarrow> 's \<Rightarrow> ('e, u32) outcome \<times> 's" where
  "chainEvents [] count s = (Ok count, s)"
| "chainEvents (eh # ehs) count s =
     (case eh_ready eh s of (rdy, s) \<Rightarrow>
        if rdy then
          (case eh_fire eh s of (r, s) \<Rightarrow>
             if hasValue r then chainEvents ehs (count + 1) s else (void_map (\<lambda>_. 0) r, s))
        else chainEvents ehs count s)"

definition runOnce :: "('s, 'e) EventHandler list \<Rightarrow> 's \<Rightarrow> ('e, u32) outcome \<times> 's" where
  "runOnce ehs = chainEvents ehs 0"

section \<open>The construction of a queue\<close>

text \<open>
  The entries of \<open>FixedEventQueueImpl<Idx, E, EHs...>\<close> with their indices.  The constructor of a queue of two or more
  handlers initialises the base \<open>EventEntry<0, ...>\<close>, whatever its index: that is a base only if the index is zero, and
  elsewhere the constructor does not compile, \<open>None\<close>.  A queue of no handlers has no constructor from an \<open>int\<close>.
\<close>

fun newQueueImpl :: "nat \<Rightarrow> 'h list \<Rightarrow> (nat \<times> 'h) list option" where
  "newQueueImpl idx [] = None"
| "newQueueImpl idx [h] = Some [(idx, h)]"
| "newQueueImpl idx (h # hs) =
     (if idx \<noteq> 0 then None else map_option (\<lambda>es. (0, h) # es) (newQueueImpl (idx + 1) hs))"

definition newFixedEventQueue :: "'h list \<Rightarrow> (nat \<times> 'h) list option" where
  "newFixedEventQueue hs = newQueueImpl 0 hs"

text \<open>\<open>elem<Idx>()\<close>: the entry with that index; the assertion is \<open>None\<close>.\<close>

definition queueElem :: "nat \<Rightarrow> (nat \<times> 'h) list \<Rightarrow> 'h option" where
  "queueElem idx q = (if idx < length q then map_of q idx else None)"

text \<open>A queue can be made of one or two handlers, as the client does, and then it has them in their order; of more it cannot.\<close>

theorem queue_of_two:
  "newFixedEventQueue hs \<noteq> None \<longleftrightarrow> length hs \<in> {1, 2}"
  "newFixedEventQueue hs = Some q \<Longrightarrow> queueElem i q = (if i < length hs then Some (hs ! i) else None)"
proof -
  have none: "newQueueImpl 1 (a # b # hs) = None" for a b :: 'h and hs by simp
  consider "hs = []" | a where "hs = [a]" | a b where "hs = [a, b]" | a b c rest where "hs = a # b # c # rest"
    by (metis list.exhaust)
  note cases = this
  show "newFixedEventQueue hs \<noteq> None \<longleftrightarrow> length hs \<in> {1, 2}"
    by (rule cases) (simp_all add: newFixedEventQueue_def)
  assume "newFixedEventQueue hs = Some q"
  then show "queueElem i q = (if i < length hs then Some (hs ! i) else None)"
    by (rule_tac cases) (auto simp: newFixedEventQueue_def queueElem_def less_Suc_eq nth_Cons split: nat.splits)
qed

section \<open>Running the queue\<close>

text \<open>One handler: it fires if it is ready.\<close>

definition pollHandler :: "('s, 'e) EventHandler \<Rightarrow> 's \<Rightarrow> ('e, u32) outcome \<times> 's" where
  "pollHandler eh s =
     (case eh_ready eh s of
        (False, s') \<Rightarrow> (Ok 0, s')
      | (True, s') \<Rightarrow>
          (case eh_fire eh s' of (Inl e, s'') \<Rightarrow> (Fail e, s'') | (Inr _, s'') \<Rightarrow> (Ok 1, s'')))"

definition then_poll ::
    "('e, u32) outcome \<times> 's \<Rightarrow> ('s \<Rightarrow> ('e, u32) outcome \<times> 's) \<Rightarrow> ('e, u32) outcome \<times> 's" where
  "then_poll r f =
     (case r of
        (Inl e, s) \<Rightarrow> (Fail e, s)
      | (Inr n, s) \<Rightarrow> (case f s of (Inl e, s') \<Rightarrow> (Fail e, s') | (Inr m, s') \<Rightarrow> (Ok (n + m), s')))"

lemma then_poll_simps [simp]:
  "then_poll (Inl e, s) f = (Inl e, s)"
  "then_poll (Inr 0, s) f = f s"
  "then_poll (f s) (\<lambda>s. (Inr 0, s)) = f s"
  "then_poll (then_poll r f) g = then_poll r (\<lambda>s. then_poll (f s) g)"
  by (auto simp: then_poll_def add.assoc split: prod.splits sum.splits)

lemma chainEvents_count: "chainEvents ehs n s = then_poll (Inr n, s) (runOnce ehs)"
proof (induction ehs arbitrary: n s)
  case (Cons eh ehs)
  obtain rdy s1 where 1: "eh_ready eh s = (rdy, s1)" by fastforce
  obtain r s2 where 2: "eh_fire eh s1 = (r, s2)" by fastforce
  show ?case
  proof (cases r)
    case (Inr u)
    have "chainEvents ehs (n + 1) s2 = then_poll (Inr n, s2) (chainEvents ehs 1)"
      by (auto simp: Cons [of "n + 1"] Cons [of 1] then_poll_def add.assoc split: prod.splits sum.splits)
    then show ?thesis using Inr 1 2 by (simp add: Cons [of n] runOnce_def then_poll_def)
  qed (use 1 2 in \<open>simp add: Cons [of n] runOnce_def then_poll_def void_map_def\<close>)
qed (simp add: runOnce_def then_poll_def)

lemma runOnce_Nil [simp]: "runOnce [] s = (Inr 0, s)"
  by (simp add: runOnce_def)

lemma runOnce_Cons: "runOnce (eh # ehs) s = then_poll (pollHandler eh s) (runOnce ehs)"
proof -
  obtain rdy s1 where 1: "eh_ready eh s = (rdy, s1)" by fastforce
  obtain r s2 where 2: "eh_fire eh s1 = (r, s2)" by fastforce
  have "runOnce (eh # ehs) s =
      (if rdy then (if hasValue r then chainEvents ehs 1 s2 else (void_map (\<lambda>_. 0) r, s2))
       else chainEvents ehs 0 s1)"
    by (simp add: runOnce_def 1 2)
  then show ?thesis
    by (cases rdy; cases r) (simp_all add: chainEvents_count [of ehs] pollHandler_def 1 2 void_map_def)
qed

lemma then_poll_Nil [simp]: "then_poll r (runOnce []) = r"
  by (auto simp: then_poll_def split: prod.splits sum.splits)

lemma runOnce_single [simp]: "runOnce [eh] = pollHandler eh"
  by (simp add: fun_eq_iff runOnce_Cons)

text \<open>Running a queue once is polling its handlers in order up to the first error: a handler is
  fired exactly if it is ready, on the state that the handlers before it left, the count is the number
  of handlers fired, and after an error no other handler is touched.\<close>

theorem run_once_sequence:
  "runOnce [] s = (Ok 0, s) \<and> runOnce [eh] s = pollHandler eh s \<and>
   runOnce (xs @ ys) s = then_poll (runOnce xs s) (runOnce ys)"
proof -
  have "runOnce (xs @ ys) s = then_poll (runOnce xs s) (runOnce ys)"
  proof (induction xs arbitrary: s)
    case (Cons x xs)
    then have "runOnce (xs @ ys) = (\<lambda>s. then_poll (runOnce xs s) (runOnce ys))" by blast
    then show ?case by (simp add: runOnce_Cons)
  qed simp
  then show ?thesis by simp
qed

end
