(* ===== verification/Scheduler.thy ===== *)
theory Scheduler
  imports EventQueue PIMPackets
begin

text \<open>
  The scheduler of the client, \<open>apps/pimc/scheduler\<close>: the timer, the periodic Hello and Join/Prune
  events, the withdrawal on exit and \<open>ipv4exec\<close>, which polls the events until it is stopped.  The
  environment is a parameter: the readings of the clock, one per \<open>gethostnanos()\<close>, and the
  answers of \<open>sendto\<close>, one per call.  A run is stopped after its list of clock readings.  The log
  messages and the 100 ms of sleep between two rounds are part of \<open>ClientSystem\<close>, which refines this model.
\<close>

section \<open>Configuration\<close>

datatype Level = LevelNone | LevelCritical | LevelError | LevelWarning | LevelInfo | LevelDebug

record LoggingConfig =
  level :: Level
  logFileName :: "string option"

record PIMSMConfig =
  neighbor :: IPv4Address
  intfIndex :: u32
  intfAddr :: IPv4Address
  intfName :: string
  helloPeriod :: u16
  helloHoldtime :: u16
  jpPeriod :: u32
  jpHoldtime :: u16
  drPriority :: u32
  generationId :: u32

record PIMCConfig =
  loggingConfig :: LoggingConfig
  pimsmConfig :: PIMSMConfig
  jpConfig :: JPConfig
  cfg_updates :: "Update list"
  inverseUpdates :: "Update list"

section \<open>Timer, socket and state\<close>

definition NanosInSecond :: u64 where "NanosInSecond = 1000000000"

text \<open>\<open>st_sent\<close> lists the packets that the socket accepted, each with the time of the timer.\<close>

record SchedState =
  st_ts :: u64
  st_hello_next :: u64
  st_jp_next :: u64
  st_sent :: "(u64 \<times> u8 list) list"
  st_calls :: nat

definition timer_update :: "u64 \<Rightarrow> SchedState \<Rightarrow> SchedState" where
  "timer_update now s = s\<lparr>st_ts := now\<rparr>"

definition inSec :: "u64 \<Rightarrow> u64 \<Rightarrow> u64" where
  "inSec ts seconds = ts + NanosInSecond * seconds"

datatype send_error = SendFailed string  \<comment> \<open>unable to send PIM \<open>{}\<close> packet\<close>

text \<open>\<open>IPv4PIMIntf::send\<close>; \<open>accepts n\<close> tells whether call \<open>n\<close> of \<open>sendto\<close> succeeds.\<close>

definition intf_send ::
    "(nat \<Rightarrow> bool) \<Rightarrow> string \<Rightarrow> u8 list \<Rightarrow> SchedState \<Rightarrow> (send_error, unit) outcome \<times> SchedState" where
  "intf_send accepts pktName pkt s =
     (let s' = s\<lparr>st_calls := Suc (st_calls s)\<rparr> in
      if accepts (st_calls s) then (Ok (), s'\<lparr>st_sent := st_sent s @ [(st_ts s, pkt)]\<rparr>)
      else (Fail (SendFailed pktName), s'))"

text \<open>The loop over the packets of an update event.\<close>

fun sendAll ::
    "(nat \<Rightarrow> bool) \<Rightarrow> string \<Rightarrow> u8 list list \<Rightarrow> SchedState \<Rightarrow> (send_error, unit) outcome \<times> SchedState" where
  "sendAll accepts pktName [] s = (Ok (), s)"
| "sendAll accepts pktName (pkt # pkts) s =
     (case intf_send accepts pktName pkt s of
        (r, s) \<Rightarrow> if hasError r then (r, s) else sendAll accepts pktName pkts s)"

section \<open>Events\<close>

definition helloReady :: "u64 \<Rightarrow> SchedState \<Rightarrow> bool \<times> SchedState" where
  "helloReady period s =
     (if st_hello_next s \<le> st_ts s
      then (True, s\<lparr>st_hello_next := inSec (st_ts s) period\<rparr>) else (False, s))"

definition helloEvent :: "(nat \<Rightarrow> bool) \<Rightarrow> u8 list \<Rightarrow> u64 \<Rightarrow> (SchedState, send_error) EventHandler" where
  "helloEvent accepts pkt period =
     \<lparr>eh_ready = helloReady period, eh_fire = intf_send accepts ''Hello'' pkt\<rparr>"

definition jpReady :: "u64 \<Rightarrow> SchedState \<Rightarrow> bool \<times> SchedState" where
  "jpReady period s =
     (if st_jp_next s \<le> st_ts s
      then (True, s\<lparr>st_jp_next := inSec (st_ts s) period\<rparr>) else (False, s))"

definition jpUpdateEvent :: "(nat \<Rightarrow> bool) \<Rightarrow> u8 list list \<Rightarrow> u64 \<Rightarrow> (SchedState, send_error) EventHandler" where
  "jpUpdateEvent accepts pkts period =
     \<lparr>eh_ready = jpReady period, eh_fire = sendAll accepts ''Join/Prune Update'' pkts\<rparr>"

definition goodbyeSend :: "(nat \<Rightarrow> bool) \<Rightarrow> u8 list \<Rightarrow> SchedState \<Rightarrow> (send_error, unit) outcome \<times> SchedState" where
  "goodbyeSend accepts pkt = intf_send accepts ''Goodbye'' pkt"

definition goodbyeJpSend ::
    "(nat \<Rightarrow> bool) \<Rightarrow> u8 list list \<Rightarrow> SchedState \<Rightarrow> (send_error, unit) outcome \<times> SchedState" where
  "goodbyeJpSend accepts pkts = sendAll accepts ''Goodbye Join/Prune Update'' pkts"

text \<open>The packets of the events; the memory of packet \<open>n\<close> is at the address \<open>base n\<close>.\<close>

fun updatePackets ::
    "bool \<Rightarrow> (nat \<Rightarrow> u64) \<Rightarrow> PIMSMConfig \<Rightarrow> nat \<Rightarrow> Update list \<Rightarrow>
     (packet_error, u8 list list) outcome option" where
  "updatePackets le base cfg n [] = Some (Ok [])"
| "updatePackets le base cfg n (u # us) =
     run_then (IPv4PIMUpdatePacket le (base n) u (intfAddr cfg) (neighbor cfg) (jpHoldtime cfg))
       (\<lambda>p. run_then (updatePackets le base cfg (Suc n) us) (\<lambda>ps. Some (Ok (p # ps))))"

definition helloPacket :: "bool \<Rightarrow> u64 \<Rightarrow> PIMSMConfig \<Rightarrow> (packet_error, u8 list) outcome option" where
  "helloPacket le base cfg =
     IPv4PIMHelloPacket le base (intfAddr cfg) (helloHoldtime cfg) (drPriority cfg) (generationId cfg)"

definition goodbyePacket :: "bool \<Rightarrow> u64 \<Rightarrow> PIMSMConfig \<Rightarrow> (packet_error, u8 list) outcome option" where
  "goodbyePacket le base cfg =
     IPv4PIMHelloPacket le base (intfAddr cfg) 0 (drPriority cfg) (generationId cfg)"

section \<open>The main loop\<close>

fun execLoop ::
    "(SchedState, send_error) EventHandler list \<Rightarrow> u64 list \<Rightarrow> SchedState \<Rightarrow>
     (send_error, unit) outcome \<times> SchedState" where
  "execLoop events [] s = (Ok (), s)"
| "execLoop events (t # ts) s =
     (case runOnce events (timer_update t s) of
        (Inl e, s) \<Rightarrow> (Fail e, s)
      | (Inr n, s) \<Rightarrow> execLoop events ts s)"

text \<open>The withdrawal after the loop.\<close>

definition leave ::
    "(nat \<Rightarrow> bool) \<Rightarrow> u64 \<Rightarrow> u64 \<Rightarrow> u8 list list \<Rightarrow> u8 list \<Rightarrow> SchedState \<Rightarrow> bool \<times> SchedState" where
  "leave accepts t1 t2 invPkts goodbye s =
     (case goodbyeJpSend accepts invPkts (timer_update t1 s) of
        (r1, s) \<Rightarrow>
          if hasError r1 then (False, s)
          else (case goodbyeSend accepts goodbye (timer_update t2 s) of
                  (r2, s) \<Rightarrow> if hasError r2 then (False, s) else (True, s)))"

text \<open>
  \<open>ipv4exec\<close>, with what it returns and the packets that the socket accepted.  \<open>created\<close> is the
  result of \<open>IPv4PIMIntf::create\<close>; \<open>t0\<close> is the reading of the constructor of the timer, \<open>ts\<close> those
  of the loop until it is stopped, \<open>t1\<close> and \<open>t2\<close> those after it.
\<close>

definition ipv4exec ::
    "bool \<Rightarrow> (nat \<Rightarrow> u64) \<Rightarrow> PIMCConfig \<Rightarrow> (string, unit) outcome \<Rightarrow> (nat \<Rightarrow> bool) \<Rightarrow>
     u64 \<Rightarrow> u64 list \<Rightarrow> u64 \<Rightarrow> u64 \<Rightarrow> (packet_error, bool \<times> (u64 \<times> u8 list) list) outcome option" where
  "ipv4exec le base cfg created accepts t0 ts t1 t2 =
     (let pc = pimsmConfig cfg; jp = ucast (jpPeriod pc); n = length (inverseUpdates cfg) in
      if hasError created then Some (Ok (False, []))
      else run_then (goodbyePacket le (base 0) pc) (\<lambda>goodbye.
        run_then (updatePackets le base pc 1 (inverseUpdates cfg)) (\<lambda>invPkts.
        run_then (helloPacket le (base (n + 1)) pc) (\<lambda>hello.
        run_then (updatePackets le base pc (n + 2) (cfg_updates cfg)) (\<lambda>updates.
          let s = \<lparr>st_ts = t0, st_hello_next = t0, st_jp_next = inSec t0 jp, st_sent = [], st_calls = 0\<rparr>;
              events = [helloEvent accepts hello (ucast (helloPeriod pc)), jpUpdateEvent accepts updates jp]
          in case execLoop events ts s of
               (r, s) \<Rightarrow>
                 if hasError r then Some (Ok (False, st_sent s))
                 else (case leave accepts t1 t2 invPkts goodbye s of
                         (res, s) \<Rightarrow> Some (Ok (res, st_sent s))))))))"

section \<open>What is sent\<close>

text \<open>How many of the calls \<open>n\<close>, \<open>n + 1\<close>, ... succeed before the first failure, up to \<open>m\<close>.\<close>

definition accepted :: "(nat \<Rightarrow> bool) \<Rightarrow> nat \<Rightarrow> nat \<Rightarrow> nat" where
  "accepted accepts n m = length (takeWhile accepts [n..<n + m])"

lemma accepted_0 [simp]: "accepted accepts n 0 = 0"
  by (simp add: accepted_def)

lemma accepted_le: "accepted accepts n m \<le> m"
  using length_takeWhile_le [of accepts "[n..<n + m]"] by (simp add: accepted_def)

lemma accepted_Suc: "accepted accepts n (Suc m) = (if accepts n then Suc (accepted accepts (Suc n) m) else 0)"
  using upt_conv_Cons [of n "Suc (n + m)"] by (simp add: accepted_def del: upt_Suc)

lemma accepted_add:
  "accepted accepts n (a + b) =
     (if accepted accepts n a = a then a + accepted accepts (n + a) b else accepted accepts n a)"
proof (induction a arbitrary: n)
  case (Suc a)
  then show ?case by (simp add: accepted_Suc)
qed simp

text \<open>An action sends the packets of a plan in order until the socket refuses one, and then fails.\<close>

definition sends ::
    "(nat \<Rightarrow> bool) \<Rightarrow> (u64 \<times> u8 list) list \<Rightarrow> SchedState \<Rightarrow> ('e, 'a) outcome \<times> SchedState \<Rightarrow> bool" where
  "sends accepts plan s rs \<longleftrightarrow>
     (case rs of (r, s') \<Rightarrow> let k = accepted accepts (st_calls s) (length plan) in
        st_sent s' = st_sent s @ take k plan \<and> (hasValue r \<longleftrightarrow> k = length plan) \<and>
        (hasValue r \<longrightarrow> st_calls s' = st_calls s + length plan))"

lemma sends_append:
  assumes "sends accepts p s (r, s')" and "hasValue r" and "sends accepts q s' rs"
  shows "sends accepts (p @ q) s rs"
  using assms by (cases rs) (auto simp: sends_def Let_def accepted_add)

lemma sends_fail:
  assumes "sends accepts p s (r, s')" and "\<not> hasValue r" and "\<not> hasValue r'"
  shows "sends accepts (p @ q) s (r', s')"
  using assms accepted_le [of accepts "st_calls s" "length p"]
  by (auto simp: sends_def Let_def accepted_add)

lemma sends_nothing [simp]: "sends accepts [] s (Inr v, s)"
  by (simp add: sends_def)

text \<open>Sending changes no time.\<close>

definition same_times :: "SchedState \<Rightarrow> SchedState \<Rightarrow> bool" where
  "same_times s s' \<longleftrightarrow> st_ts s' = st_ts s \<and> st_hello_next s' = st_hello_next s \<and> st_jp_next s' = st_jp_next s"

lemma intf_send_ok:
  assumes "intf_send accepts name pkt s = (r, s')"
  shows "sends accepts [(st_ts s, pkt)] s (r, s')" and "same_times s s'"
  using assms
  by (auto simp: intf_send_def Let_def sends_def accepted_Suc same_times_def split: if_splits)

lemma sendAll_ok:
  assumes "sendAll accepts name pkts s = (r, s')"
  shows "sends accepts (map (Pair (st_ts s)) pkts) s (r, s') \<and> same_times s s'"
  using assms
proof (induction pkts arbitrary: s)
  case Nil
  then show ?case by (auto simp: same_times_def)
next
  case (Cons pkt pkts)
  obtain r1 s1 where 1: "intf_send accepts name pkt s = (r1, s1)" by fastforce
  note ok = intf_send_ok [OF 1]
  show ?case
  proof (cases "hasValue r1")
    case True
    then have "sendAll accepts name pkts s1 = (r, s')" using Cons.prems 1 by (simp add: hasError_def)
    from Cons.IH [OF this] ok True show ?thesis
      using sends_append [OF ok(1) True] by (auto simp: same_times_def)
  next
    case False
    then have "r = r1" "s' = s1" using Cons.prems 1 by (simp_all add: hasError_def)
    then show ?thesis using sends_fail [OF ok(1) False] ok(2) False by simp
  qed
qed

section \<open>The schedule\<close>

text \<open>
  A periodic event polled at the times \<open>ts\<close>, due at \<open>d\<close> first: when it fires, and when it is due
  next.
\<close>

fun due_times :: "u64 \<Rightarrow> u64 \<Rightarrow> u64 list \<Rightarrow> u64 list" where
  "due_times period d [] = []"
| "due_times period d (t # ts) =
     (if d \<le> t then t # due_times period (t + period) ts else due_times period d ts)"

text \<open>What the two events send when they are polled at \<open>ts\<close>: \<open>h\<close> and \<open>j\<close> are the times they are due.\<close>

fun polled ::
    "u64 \<Rightarrow> u64 \<Rightarrow> u64 \<Rightarrow> u64 \<Rightarrow> u8 list \<Rightarrow> u8 list list \<Rightarrow> u64 list \<Rightarrow> (u64 \<times> u8 list) list" where
  "polled hp jp h j hello updates [] = []"
| "polled hp jp h j hello updates (t # ts) =
     (if h \<le> t then [(t, hello)] else []) @ (if j \<le> t then map (Pair t) updates else []) @
     polled hp jp (if h \<le> t then t + hp else h) (if j \<le> t then t + jp else j) hello updates ts"

text \<open>
  The contract of a periodic event, and what a poll does under it: \<open>due\<close> is the time from which the
  event is ready.
\<close>

locale periodic_event =
  fixes eh :: "(SchedState, send_error) EventHandler"
    and due :: "SchedState \<Rightarrow> u64" and postpone :: "u64 \<Rightarrow> SchedState \<Rightarrow> SchedState"
    and period :: u64 and pkts :: "u8 list list" and accepts :: "nat \<Rightarrow> bool"
  assumes ready: "eh_ready eh s =
      (if due s \<le> st_ts s then (True, postpone (st_ts s + period) s) else (False, s))"
    and postponed: "due (postpone d s) = d" "st_ts (postpone d s) = st_ts s"
      "st_sent (postpone d s) = st_sent s" "st_calls (postpone d s) = st_calls s"
    and due_times: "same_times s s' \<Longrightarrow> due s' = due s"
    and fire: "eh_fire eh s = (r, s') \<Longrightarrow>
      sends accepts (map (Pair (st_ts s)) pkts) s (r, s') \<and> same_times s s'"
begin

lemma poll_skips: "\<not> due s \<le> st_ts s \<Longrightarrow> pollHandler eh s = (Inr 0, s)"
  by (simp add: pollHandler_def ready)

lemma poll_sends:
  assumes "due s \<le> st_ts s" and "pollHandler eh s = (r, s')"
  shows "sends accepts (map (Pair (st_ts s)) pkts) s (r, s')"
    and "same_times (postpone (st_ts s + period) s) s'"
    and "due s' = st_ts s + period"
proof -
  let ?s = "postpone (st_ts s + period) s"
  obtain r1 s1 where 1: "eh_fire eh ?s = (r1, s1)" by fastforce
  then have s': "s' = s1" and r: "r = (case r1 of Inl e \<Rightarrow> Inl e | Inr _ \<Rightarrow> Inr 1)"
    using assms by (auto simp: pollHandler_def ready split: sum.splits)
  have "sends accepts (map (Pair (st_ts ?s)) pkts) ?s (r1, s1)" and same: "same_times ?s s1"
    using fire [OF 1] by simp_all
  then show "sends accepts (map (Pair (st_ts s)) pkts) s (r, s')"
    by (cases r1) (auto simp: sends_def Let_def r s' postponed)
  show "same_times ?s s'" using same s' by simp
  show "due s' = st_ts s + period" using due_times [OF same] by (simp add: s' postponed)
qed

text \<open>A poll in either case.\<close>

definition plan :: "SchedState \<Rightarrow> (u64 \<times> u8 list) list" where
  "plan s = (if due s \<le> st_ts s then map (Pair (st_ts s)) pkts else [])"

definition after :: "SchedState \<Rightarrow> SchedState" where
  "after s = (if due s \<le> st_ts s then postpone (st_ts s + period) s else s)"

lemma poll_effect:
  assumes "pollHandler eh s = (r, s')"
  shows "sends accepts (plan s) s (r, s')" and "same_times (after s) s'"
  using assms poll_sends [of s r s'] poll_skips [of s]
  by (auto simp: plan_def after_def same_times_def split: if_splits)

end

interpretation hello: periodic_event "helloEvent accepts pkt period" st_hello_next
    "\<lambda>d s. s\<lparr>st_hello_next := d\<rparr>" "NanosInSecond * period" "[pkt]" accepts for accepts pkt period
  by unfold_locales (auto simp: helloEvent_def helloReady_def inSec_def same_times_def dest: intf_send_ok)

interpretation jpUpdate: periodic_event "jpUpdateEvent accepts pkts period" st_jp_next
    "\<lambda>d s. s\<lparr>st_jp_next := d\<rparr>" "NanosInSecond * period" pkts accepts for accepts pkts period
  by unfold_locales (auto simp: jpUpdateEvent_def jpReady_def inSec_def same_times_def dest: sendAll_ok)

lemma sends_timer [simp]: "sends accepts p (timer_update t s) rs \<longleftrightarrow> sends accepts p s rs"
  by (simp add: sends_def timer_update_def)

text \<open>One round of the queue of both events.\<close>

lemma round_ok:
  defines "events accepts hello hp updates jp \<equiv>
    [helloEvent accepts hello hp, jpUpdateEvent accepts updates jp]"
  assumes "runOnce (events accepts hello hp updates jp) (timer_update t s) = (r, s')"
  defines "h \<equiv> st_hello_next s" and "j \<equiv> st_jp_next s"
  shows "sends accepts ((if h \<le> t then [(t, hello)] else []) @ (if j \<le> t then map (Pair t) updates else [])) s (r, s')"
    and "hasValue r \<Longrightarrow> st_hello_next s' = (if h \<le> t then t + NanosInSecond * hp else h)"
    and "hasValue r \<Longrightarrow> st_jp_next s' = (if j \<le> t then t + NanosInSecond * jp else j)"
proof -
  let ?H = "helloEvent accepts hello hp" and ?J = "jpUpdateEvent accepts updates jp"
  let ?s = "timer_update t s"
  obtain r1 s1 where 1: "pollHandler ?H ?s = (r1, s1)" by fastforce
  obtain r2 s2 where 2: "pollHandler ?J s1 = (r2, s2)" by fastforce
  note h1 = hello.poll_effect [OF 1] and j2 = jpUpdate.poll_effect [OF 2]
  have "then_poll (r1, s1) (pollHandler ?J) = (r, s')"
    using assms(2) by (simp add: events_def runOnce_Cons 1)
  then have run: "case r1 of Inl e \<Rightarrow> r = Inl e \<and> s' = s1
      | Inr n \<Rightarrow> s' = s2 \<and> r = (case r2 of Inl e \<Rightarrow> Inl e | Inr m \<Rightarrow> Inr (n + m))"
    by (auto simp: then_poll_def 2 split: sum.splits)
  have s1: "st_ts s1 = t" "st_jp_next s1 = j"
    "st_hello_next s1 = (if h \<le> t then t + NanosInSecond * hp else h)"
    using h1(2) by (auto simp: same_times_def hello.after_def timer_update_def h_def j_def)
  have s2: "st_hello_next s2 = st_hello_next s1"
    "st_jp_next s2 = (if j \<le> t then t + NanosInSecond * jp else j)"
    using j2(2) s1 by (auto simp: same_times_def jpUpdate.after_def)
  have p1: "sends accepts (if h \<le> t then [(t, hello)] else []) s (r1, s1)"
    using h1(1) unfolding sends_timer by (simp add: hello.plan_def timer_update_def h_def if_distrib cong: if_cong)
  have p2: "sends accepts (if j \<le> t then map (Pair t) updates else []) s1 (r2, s2)"
    using j2(1) by (simp add: jpUpdate.plan_def s1 cong: if_cong)
  show "sends accepts ((if h \<le> t then [(t, hello)] else []) @ (if j \<le> t then map (Pair t) updates else [])) s (r, s')"
  proof (cases r1)
    case (Inl e)
    then have "r = Inl e" "s' = s1" using run by simp_all
    then show ?thesis
      unfolding \<open>s' = s1\<close> by (intro sends_fail [OF p1]) (use Inl in simp_all)
  next
    case (Inr n)
    then have "sends accepts ((if h \<le> t then [(t, hello)] else []) @ (if j \<le> t then map (Pair t) updates else [])) s (r2, s2)"
      using sends_append [OF p1 _ p2] by simp
    then show ?thesis using run Inr by (cases r2) (auto simp: sends_def)
  qed
  show "hasValue r \<Longrightarrow> st_hello_next s' = (if h \<le> t then t + NanosInSecond * hp else h)"
    "hasValue r \<Longrightarrow> st_jp_next s' = (if j \<le> t then t + NanosInSecond * jp else j)"
    using run s1 s2 by (auto split: sum.splits)
qed

lemma execLoop_ok:
  assumes "execLoop [helloEvent accepts hello hp, jpUpdateEvent accepts updates jp] ts s = (r, s')"
  shows "sends accepts (polled (NanosInSecond * hp) (NanosInSecond * jp) (st_hello_next s) (st_jp_next s)
    hello updates ts) s (r, s')"
  using assms
proof (induction ts arbitrary: s)
  case (Cons t ts)
  let ?events = "[helloEvent accepts hello hp, jpUpdateEvent accepts updates jp]"
  obtain r1 s1 where 1: "runOnce ?events (timer_update t s) = (r1, s1)" by fastforce
  note round = round_ok [OF 1]
  show ?case
  proof (cases r1)
    case (Inl e)
    then have "r = Inl e" "s' = s1" using Cons.prems 1 by simp_all
    then have "sends accepts (((if st_hello_next s \<le> t then [(t, hello)] else []) @
        (if st_jp_next s \<le> t then map (Pair t) updates else [])) @ q) s (r, s')" for q
      using sends_fail [OF round(1), of r] Inl by (simp only: hasValue.simps simp_thms)
    then show ?thesis by (simp only: polled.simps append_assoc)
  next
    case (Inr n)
    then have "execLoop ?events ts s1 = (r, s')" using Cons.prems 1 by simp
    from sends_append [OF round(1) _ Cons.IH [OF this]] round(2,3) Inr show ?thesis by simp
  qed
qed auto

section \<open>A whole run\<close>

lemma updatePackets_ok:
  assumes "\<forall>u \<in> set us. P u" and "\<And>n u. P u \<Longrightarrow>
    \<exists>p. IPv4PIMUpdatePacket le (base n) u (intfAddr cfg) (neighbor cfg) (jpHoldtime cfg) = Some (Ok p) \<and> Q u p"
  shows "\<exists>ps. updatePackets le base cfg n us = Some (Ok ps) \<and> list_all2 Q us ps"
  using assms(1)
proof (induction us arbitrary: n)
  case (Cons u us)
  obtain p where "IPv4PIMUpdatePacket le (base n) u (intfAddr cfg) (neighbor cfg) (jpHoldtime cfg) = Some (Ok p)"
    "Q u p" using assms(2) [of u n] Cons.prems by auto
  moreover obtain ps where "updatePackets le base cfg (Suc n) us = Some (Ok ps)" "list_all2 Q us ps"
    using Cons by auto
  ultimately show ?case by simp
qed simp

lemma leave_ok:
  assumes "leave accepts t1 t2 invPkts goodbye s = (res, s')"
  defines "p \<equiv> map (Pair t1) invPkts @ [(t2, goodbye)]"
  shows "sends accepts p s (if res then Inr () else Inl (), s')"
proof -
  obtain r1 s1 where 1: "goodbyeJpSend accepts invPkts (timer_update t1 s) = (r1, s1)" by fastforce
  obtain r2 s2 where 2: "goodbyeSend accepts goodbye (timer_update t2 s1) = (r2, s2)" by fastforce
  have p1: "sends accepts (map (Pair t1) invPkts) s (r1, s1)"
    using sendAll_ok [of accepts _ invPkts "timer_update t1 s"] 1
    by (simp add: goodbyeJpSend_def) (simp add: timer_update_def)
  have p2: "sends accepts [(t2, goodbye)] s1 (r2, s2)"
    using intf_send_ok [of accepts _ goodbye "timer_update t2 s1"] 2
    by (simp add: goodbyeSend_def) (simp add: timer_update_def)
  show ?thesis
  proof (cases r1)
    case (Inl e)
    then show ?thesis
      using assms 1 sends_fail [OF p1, of "Inl ()" "[(t2, goodbye)]"] by (simp add: leave_def hasError_def)
  next
    case (Inr u)
    have "sends accepts p s (r2, s2)" unfolding p_def using sends_append [OF p1 _ p2] Inr by simp
    then show ?thesis using assms(1) 1 2 Inr by (cases r2) (auto simp: leave_def sends_def hasError_def)
  qed
qed

lemma first_octet:
  "dec_hello bs = Some opts \<Longrightarrow> \<exists>r. bs = 0x20 # r"
  "dec_update bs = Some u \<Longrightarrow> \<exists>r. bs = 0x23 # r"
  by (cases bs rule: dec_hello.cases; simp split: if_splits)
    (cases bs rule: dec_update.cases; simp split: if_splits)

text \<open>The events of the loop are told apart by their packets.\<close>

lemma polled_times:
  assumes "hello \<notin> set updates"
  shows "map fst (filter (\<lambda>x. snd x = hello) (polled hp jp h j hello updates ts)) = due_times hp h ts"
    and "filter (\<lambda>x. snd x \<noteq> hello) (polled hp jp h j hello updates ts) =
      concat (map (\<lambda>t. map (Pair t) updates) (due_times jp j ts))"
proof -
  have "filter (\<lambda>x. snd x = hello) (map (Pair t) updates) = []" for t :: u64
    using assms by (induction updates) auto
  moreover have "filter (\<lambda>x. snd x \<noteq> hello) (map (Pair t) updates) = map (Pair t) updates" for t :: u64
    using assms by (induction updates) auto
  ultimately show "map fst (filter (\<lambda>x. snd x = hello) (polled hp jp h j hello updates ts)) = due_times hp h ts"
    "filter (\<lambda>x. snd x \<noteq> hello) (polled hp jp h j hello updates ts) =
      concat (map (\<lambda>t. map (Pair t) updates) (due_times jp j ts))"
    by (induction ts arbitrary: h j) simp_all
qed

text \<open>
  On a clock that does not go back, an event that is due at \<open>d\<close> fires at least a period apart, and at
  every poll after \<open>d\<close> it has fired less than a period ago.
\<close>

lemma due_times_spaced:
  assumes "sorted ts" and "\<forall>t \<in> set ts. unat t + unat p < 2 ^ 64"
  shows "sorted_wrt (\<lambda>a b. unat a + unat p \<le> unat b) (due_times p d ts) \<and>
    set (due_times p d ts) \<subseteq> {t \<in> set ts. d \<le> t} \<and>
    (\<forall>t \<in> set ts. d \<le> t \<longrightarrow> (\<exists>x \<in> set (due_times p d ts). x \<le> t \<and> (x = t \<or> unat t < unat x + unat p)))"
  using assms
proof (induction ts arbitrary: d)
  case (Cons t ts)
  show ?case
  proof (cases "d \<le> t")
    case True
    have "unat (t + p) = unat t + unat p"
      using Cons.prems(2) by (simp add: unat_word_ariths)
    then have le: "t + p \<le> x \<longleftrightarrow> unat t + unat p \<le> unat x" for x by (simp add: word_le_nat_alt)
    have IH: "sorted_wrt (\<lambda>a b. unat a + unat p \<le> unat b) (due_times p (t + p) ts)"
      "set (due_times p (t + p) ts) \<subseteq> {x \<in> set ts. t + p \<le> x}"
      "\<forall>y \<in> set ts. t + p \<le> y \<longrightarrow>
        (\<exists>x \<in> set (due_times p (t + p) ts). x \<le> y \<and> (x = y \<or> unat y < unat x + unat p))"
      using Cons by auto
    have tail: "\<forall>y \<in> set ts. t \<le> y" using Cons.prems(1) by simp
    have "d \<le> x" if "x \<in> set (due_times p (t + p) ts)" for x
      using that IH(2) tail True by (auto intro: order_trans)
    then show ?thesis
      using True IH tail le by (auto simp: not_le)
  next
    case False
    then show ?thesis using Cons by auto
  qed
qed simp

text \<open>The packets of a run, and what \<open>ipv4exec\<close> returns with them.\<close>

definition fits_update :: "Update \<Rightarrow> bool" where
  "fits_update u \<longleftrightarrow> encodable (upd_groups u) \<and> us_size (updateSummary 0 u) < 65502"

text \<open>An entry takes 12 bytes and a source 8, so that the counts of an update that fits are small.\<close>

lemma encodable_if_fits:
  assumes "us_size (updateSummary n u) \<le> JPCapacity"
  shows "encodable (upd_groups u)"
proof -
  let ?es = "upd_groups u"
  have total: "sum_list (map entry_size ?es) \<le> 1466"
    using assms by (simp add: us_size_sum size_simps)
  have "12 * length es \<le> sum_list (map entry_size es)" for es
    by (induction es) (simp_all add: entry_size_def size_simps)
  from this [of ?es] have "length ?es < 256" using total by simp
  moreover have "length (ge_joins e) < 65536 \<and> length (ge_prunes e) < 65536" if "e \<in> set ?es" for e
  proof -
    have "entry_size e \<le> sum_list (map entry_size ?es)"
      using that by (intro member_le_sum_list) simp_all
    then show ?thesis using total by (simp add: entry_size_def size_simps)
  qed
  ultimately show ?thesis by (simp add: encodable_def)
qed

lemma fits_update_if_fits: "us_size (updateSummary n u) \<le> JPCapacity \<Longrightarrow> fits_update u"
  using encodable_if_fits [of n u] by (simp add: fits_update_def us_size_sum size_simps)

definition carries_update :: "PIMSMConfig \<Rightarrow> Update \<Rightarrow> u8 list \<Rightarrow> bool" where
  "carries_update pc u p \<longleftrightarrow> dec_update (drop 20 p) = Some (neighbor pc, jpHoldtime pc, upd_groups u)"

definition carries_hello :: "PIMSMConfig \<Rightarrow> u16 \<Rightarrow> u8 list \<Rightarrow> bool" where
  "carries_hello pc holdtime p \<longleftrightarrow> dec_hello (drop 20 p) =
     Some [(1, bytes_of16 holdtime), (19, bytes_of32 (drPriority pc)), (20, bytes_of32 (generationId pc))]"

definition run_packets ::
    "PIMCConfig \<Rightarrow> u8 list \<Rightarrow> u8 list list \<Rightarrow> u8 list list \<Rightarrow> u8 list \<Rightarrow> bool" where
  "run_packets cfg hello updates invPkts goodbye \<longleftrightarrow>
     carries_hello (pimsmConfig cfg) (helloHoldtime (pimsmConfig cfg)) hello \<and>
     carries_hello (pimsmConfig cfg) 0 goodbye \<and>
     list_all2 (carries_update (pimsmConfig cfg)) (cfg_updates cfg) updates \<and>
     list_all2 (carries_update (pimsmConfig cfg)) (inverseUpdates cfg) invPkts"

text \<open>What the loop sends, with the periods of the configuration.\<close>

definition loop_plan :: "PIMSMConfig \<Rightarrow> u64 \<Rightarrow> u64 list \<Rightarrow> u8 list \<Rightarrow> u8 list list \<Rightarrow> (u64 \<times> u8 list) list" where
  "loop_plan pc t0 ts hello updates =
     polled (NanosInSecond * ucast (helloPeriod pc)) (NanosInSecond * ucast (jpPeriod pc))
       t0 (t0 + NanosInSecond * ucast (jpPeriod pc)) hello updates ts"

lemma exec_ok:
  assumes "\<forall>u \<in> set (cfg_updates cfg) \<union> set (inverseUpdates cfg). fits_update u"
  obtains hello updates invPkts goodbye where "run_packets cfg hello updates invPkts goodbye"
    and "\<And>accepts t0 ts t1 t2. let P = loop_plan (pimsmConfig cfg) t0 ts hello updates @ map (Pair t1) invPkts @ [(t2, goodbye)];
      k = accepted accepts 0 (length P)
      in ipv4exec le base cfg (Ok ()) accepts t0 ts t1 t2 = Some (Ok (k = length P, take k P))"
proof -
  let ?pc = "pimsmConfig cfg" and ?n = "length (inverseUpdates cfg)"
  obtain goodbye where goodbye: "goodbyePacket le (base 0) ?pc = Some (Ok goodbye)" "carries_hello ?pc 0 goodbye"
    using hello_packet_ok [of le "base 0" "intfAddr ?pc" 0 "drPriority ?pc" "generationId ?pc"]
    by (auto simp: goodbyePacket_def carries_hello_def)
  obtain hello where hello: "helloPacket le (base (?n + 1)) ?pc = Some (Ok hello)"
    "carries_hello ?pc (helloHoldtime ?pc) hello"
    using hello_packet_ok [of le "base (?n + 1)" "intfAddr ?pc" "helloHoldtime ?pc" "drPriority ?pc" "generationId ?pc"]
    by (auto simp: helloPacket_def carries_hello_def)
  have pkt: "\<exists>p. IPv4PIMUpdatePacket le (base n) u (intfAddr ?pc) (neighbor ?pc) (jpHoldtime ?pc) = Some (Ok p) \<and>
      carries_update ?pc u p" if "fits_update u" for n u
    using that update_packet_ok [of u le "base n" "intfAddr ?pc" "neighbor ?pc" "jpHoldtime ?pc"]
    by (auto simp: fits_update_def carries_update_def)
  obtain updates where updates: "updatePackets le base ?pc (?n + 2) (cfg_updates cfg) = Some (Ok updates)"
    "list_all2 (carries_update ?pc) (cfg_updates cfg) updates"
    using updatePackets_ok [of "cfg_updates cfg" fits_update le base ?pc, OF _ pkt] assms by auto
  obtain invPkts where inv: "updatePackets le base ?pc 1 (inverseUpdates cfg) = Some (Ok invPkts)"
    "list_all2 (carries_update ?pc) (inverseUpdates cfg) invPkts"
    using updatePackets_ok [of "inverseUpdates cfg" fits_update le base ?pc, OF _ pkt] assms by auto
  have "run_packets cfg hello updates invPkts goodbye"
    using goodbye hello updates inv by (simp add: run_packets_def)
  moreover have "let P = loop_plan ?pc t0 ts hello updates @ map (Pair t1) invPkts @ [(t2, goodbye)];
      k = accepted accepts 0 (length P)
      in ipv4exec le base cfg (Ok ()) accepts t0 ts t1 t2 = Some (Ok (k = length P, take k P))" for accepts t0 ts t1 t2
  proof -
    let ?jp = "ucast (jpPeriod ?pc) :: u64"
    let ?s = "\<lparr>st_ts = t0, st_hello_next = t0, st_jp_next = inSec t0 ?jp, st_sent = [], st_calls = 0\<rparr>"
    let ?events = "[helloEvent accepts hello (ucast (helloPeriod ?pc)), jpUpdateEvent accepts updates ?jp]"
    let ?L = "loop_plan ?pc t0 ts hello updates" and ?W = "map (Pair t1) invPkts @ [(t2, goodbye)]"
    obtain r s1 where 1: "execLoop ?events ts ?s = (r, s1)" by fastforce
    obtain res s2 where 2: "leave accepts t1 t2 invPkts goodbye s1 = (res, s2)" by fastforce
    have L: "sends accepts ?L ?s (r, s1)"
      using execLoop_ok [OF 1] by (simp add: loop_plan_def inSec_def)
    note W = leave_ok [OF 2]
    have exec: "ipv4exec le base cfg (Ok ()) accepts t0 ts t1 t2 =
        (if hasError r then Some (Ok (False, st_sent s1)) else Some (Ok (res, st_sent s2)))"
      using goodbye(1) hello(1) updates(1) inv(1) 1 2 by (simp add: ipv4exec_def Let_def hasError_def)
    show ?thesis
    proof (cases r)
      case (Inl e)
      then have "sends accepts (?L @ ?W) ?s (Inl () :: (unit, unit) outcome, s1)" by (intro sends_fail [OF L]) simp_all
      then show ?thesis using exec Inl by (auto simp: sends_def Let_def hasError_def)
    next
      case (Inr u)
      then have "sends accepts (?L @ ?W) ?s (if res then Inr () else Inl () :: (unit, unit) outcome, s2)"
        by (intro sends_append [OF L _ W]) simp
      then show ?thesis using exec Inr by (auto simp: sends_def Let_def hasError_def split: if_splits)
    qed
  qed
  ultimately show ?thesis by (rule that)
qed

text \<open>Once the interface is created, a run of \<open>ipv4exec\<close> sends its plan in order up to the
  first packet that the socket refuses, and returns true exactly if there is none: the Hello and the
  updates of every round when they are due, and after the loop the inverse updates and the goodbye.
  In particular nothing, not even the goodbye, is sent after an error.\<close>

theorem exec_sends_plan:
  assumes "\<forall>u \<in> set (cfg_updates cfg) \<union> set (inverseUpdates cfg). fits_update u"
  shows "\<exists>hello updates invPkts goodbye. run_packets cfg hello updates invPkts goodbye \<and>
    (\<forall>accepts t0 ts t1 t2 e.
      let P = loop_plan (pimsmConfig cfg) t0 ts hello updates @ map (Pair t1) invPkts @ [(t2, goodbye)];
          k = length (takeWhile accepts [0..<length P])
      in ipv4exec le base cfg (Ok ()) accepts t0 ts t1 t2 = Some (Ok (k = length P, take k P)) \<and>
         ipv4exec le base cfg (Fail e) accepts t0 ts t1 t2 = Some (Ok (False, [])))"
proof -
  obtain hello updates invPkts goodbye where run: "run_packets cfg hello updates invPkts goodbye"
    and exec: "\<And>accepts t0 ts t1 t2.
      let P = loop_plan (pimsmConfig cfg) t0 ts hello updates @ map (Pair t1) invPkts @ [(t2, goodbye)];
          k = accepted accepts 0 (length P)
      in ipv4exec le base cfg (Ok ()) accepts t0 ts t1 t2 = Some (Ok (k = length P, take k P))"
    using exec_ok [OF assms, of le base] by blast
  have "ipv4exec le base cfg (Fail e) accepts t0 ts t1 t2 = Some (Ok (False, []))" for accepts t0 ts t1 t2 e
    by (simp add: ipv4exec_def Let_def hasError_def)
  with exec have "let P = loop_plan (pimsmConfig cfg) t0 ts hello updates @ map (Pair t1) invPkts @ [(t2, goodbye)];
          k = length (takeWhile accepts [0..<length P])
      in ipv4exec le base cfg (Ok ()) accepts t0 ts t1 t2 = Some (Ok (k = length P, take k P)) \<and>
         ipv4exec le base cfg (Fail e) accepts t0 ts t1 t2 = Some (Ok (False, []))" for accepts t0 ts t1 t2 e
    by (simp add: accepted_def)
  with run show ?thesis by blast
qed

definition sampleRun :: PIMCConfig where
  "sampleRun =
     \<lparr>loggingConfig = \<lparr>level = LevelInfo, logFileName = None\<rparr>,
      pimsmConfig = \<lparr>neighbor = ofOctets 10 0 0 1, intfIndex = 2, intfAddr = ofOctets 10 0 0 9,
        intfName = ''eth0'', helloPeriod = 30, helloHoldtime = 105, jpPeriod = 60, jpHoldtime = 210,
        drPriority = 1, generationId = 7\<rparr>,
      jpConfig = \<lparr>jp_groups = []\<rparr>, cfg_updates = [sampleUpdate], inverseUpdates = []\<rparr>"

lemma sampleRun_fits: "\<forall>u \<in> set (cfg_updates sampleRun) \<union> set (inverseUpdates sampleRun). fits_update u"
  by (simp add: sampleRun_def fits_update_def sampleUpdate_def encodable_def us_size_sum entry_size_def size_simps)

lemma exec_sends_plan_witness:
  "\<exists>hello updates invPkts goodbye. run_packets sampleRun hello updates invPkts goodbye \<and>
    (\<forall>accepts t0 ts t1 t2 e.
      let P = loop_plan (pimsmConfig sampleRun) t0 ts hello updates @ map (Pair t1) invPkts @ [(t2, goodbye)];
          k = length (takeWhile accepts [0..<length P])
      in ipv4exec True (\<lambda>_. 0) sampleRun (Ok ()) accepts t0 ts t1 t2 = Some (Ok (k = length P, take k P)) \<and>
         ipv4exec True (\<lambda>_. 0) sampleRun (Fail e) accepts t0 ts t1 t2 = Some (Ok (False, [])))"
  by (rule exec_sends_plan [OF sampleRun_fits])

text \<open>Events at least \<open>p\<close> nanoseconds apart, from \<open>d\<close> on, and never more than \<open>p\<close> overdue at a poll.\<close>

definition on_schedule :: "nat \<Rightarrow> nat \<Rightarrow> u64 list \<Rightarrow> u64 list \<Rightarrow> bool" where
  "on_schedule p d ts fs \<longleftrightarrow>
     sorted_wrt (\<lambda>a b. unat a + p \<le> unat b) fs \<and> set fs \<subseteq> {t \<in> set ts. d \<le> unat t} \<and>
     (\<forall>t \<in> set ts. d \<le> unat t \<longrightarrow> (\<exists>x \<in> set fs. x \<le> t \<and> (x = t \<or> unat t < unat x + p)))"

lemma due_times_on_schedule:
  "sorted ts \<Longrightarrow> \<forall>t \<in> set ts. unat t + unat p < 2 ^ 64 \<Longrightarrow> on_schedule (unat p) (unat d) ts (due_times p d ts)"
  using due_times_spaced [of ts p d] by (simp add: on_schedule_def word_le_nat_alt)

lemma nanos_period:
  "unat (NanosInSecond * ucast (p :: u16)) = 1000000000 * unat p"
  "unat (NanosInSecond * ucast (q :: u32)) = 1000000000 * unat q"
proof -
  have "unat (ucast p :: u64) = unat p" "unat (ucast q :: u64) = unat q"
    by (simp_all add: unsigned_ucast_eq take_bit_nat_eq_self_iff less_trans [OF unat_u16_less]
        less_trans [OF unat_u32_less])
  moreover have "1000000000 * unat p < 18446744073709551616" "1000000000 * unat q < 18446744073709551616"
    using unat_u16_less [of p] unat_u32_less [of q] by linarith+
  ultimately show "unat (NanosInSecond * ucast p) = 1000000000 * unat p"
    "unat (NanosInSecond * ucast q) = 1000000000 * unat q"
    by (simp_all add: NanosInSecond_def unat_word_ariths)
qed

text \<open>C32: On a clock that does not go back, as long as the socket takes everything, the Hello packets of
  the loop are at least a Hello period apart, and at every round the last one is less than a period
  old; the updates keep their period in the same way, from one period after the start on.\<close>

theorem exec_periods:
  assumes "\<forall>u \<in> set (cfg_updates cfg) \<union> set (inverseUpdates cfg). fits_update u"
    and "sorted (t0 # ts)"
    and "\<forall>t \<in> set (t0 # ts). unat t + 1000000000 * 2 ^ 32 < 2 ^ 64"
  shows "\<exists>hello updates invPkts goodbye L js. run_packets cfg hello updates invPkts goodbye \<and>
    ipv4exec le base cfg (Ok ()) (\<lambda>_. True) t0 ts t1 t2 =
      Some (Ok (True, L @ map (Pair t1) invPkts @ [(t2, goodbye)])) \<and>
    on_schedule (1000000000 * unat (helloPeriod (pimsmConfig cfg))) (unat t0) ts
      (map fst (filter (\<lambda>x. snd x = hello) L)) \<and>
    on_schedule (1000000000 * unat (jpPeriod (pimsmConfig cfg)))
      (unat t0 + 1000000000 * unat (jpPeriod (pimsmConfig cfg))) ts js \<and>
    filter (\<lambda>x. snd x \<noteq> hello) L = concat (map (\<lambda>t. map (Pair t) updates) js)"
proof -
  let ?pc = "pimsmConfig cfg"
  let ?hp = "NanosInSecond * ucast (helloPeriod ?pc)" and ?jp = "NanosInSecond * ucast (jpPeriod ?pc)"
  obtain hello updates invPkts goodbye where run: "run_packets cfg hello updates invPkts goodbye"
    and exec: "\<And>accepts t0 ts t1 t2.
      let P = loop_plan ?pc t0 ts hello updates @ map (Pair t1) invPkts @ [(t2, goodbye)];
          k = accepted accepts 0 (length P)
      in ipv4exec le base cfg (Ok ()) accepts t0 ts t1 t2 = Some (Ok (k = length P, take k P))"
    using exec_ok [OF assms(1), of le base] by blast
  let ?L = "loop_plan ?pc t0 ts hello updates"
  have "takeWhile (\<lambda>_. True) xs = xs" for xs :: "nat list" by (induction xs) simp_all
  then have "accepted (\<lambda>_. True) 0 n = n" for n by (simp only: accepted_def) simp
  then have sent: "ipv4exec le base cfg (Ok ()) (\<lambda>_. True) t0 ts t1 t2 =
      Some (Ok (True, ?L @ map (Pair t1) invPkts @ [(t2, goodbye)]))"
    using exec [of t0 ts t1 t2 "\<lambda>_. True"] by (simp add: Let_def)
  have new: "hello \<notin> set updates"
  proof
    assume "hello \<in> set updates"
    then obtain u where "carries_update ?pc u hello"
      using run by (auto simp: run_packets_def list_all2_conv_all_nth in_set_conv_nth)
    then show False
      using run first_octet by (fastforce simp: run_packets_def carries_hello_def carries_update_def)
  qed
  have small: "unat ?hp < 1000000000 * 2 ^ 32" "unat ?jp < 1000000000 * 2 ^ 32"
    using less_trans [OF unat_u16_less [of "helloPeriod ?pc"]] unat_u32_less [of "jpPeriod ?pc"]
    by (simp_all add: nanos_period)
  then have bounds: "\<forall>t \<in> set (t0 # ts). unat t + unat ?hp < 2 ^ 64 \<and> unat t + unat ?jp < 2 ^ 64"
    using assms(3) by fastforce
  then have "unat (t0 + ?jp) = unat t0 + unat ?jp" by (simp add: unat_word_ariths)
  then have "on_schedule (unat ?hp) (unat t0) ts (due_times ?hp t0 ts)"
    "on_schedule (unat ?jp) (unat t0 + unat ?jp) ts (due_times ?jp (t0 + ?jp) ts)"
    using due_times_on_schedule [of ts ?hp t0] due_times_on_schedule [of ts ?jp "t0 + ?jp"] bounds assms(2)
    by simp_all
  then show ?thesis
    using run sent polled_times [OF new, of ?hp ?jp t0 "t0 + ?jp" ts] unfolding nanos_period loop_plan_def
    by (intro exI conjI) simp_all
qed

lemma exec_periods_witness:
  "\<exists>hello updates invPkts goodbye L js. run_packets sampleRun hello updates invPkts goodbye \<and>
    ipv4exec True (\<lambda>_. 0) sampleRun (Ok ()) (\<lambda>_. True) 5 [7, 30000000009, 60000000005] 60000000006 60000000007 =
      Some (Ok (True, L @ map (Pair 60000000006) invPkts @ [(60000000007, goodbye)])) \<and>
    on_schedule (1000000000 * unat (helloPeriod (pimsmConfig sampleRun))) 5 [7, 30000000009, 60000000005]
      (map fst (filter (\<lambda>x. snd x = hello) L)) \<and>
    on_schedule (1000000000 * unat (jpPeriod (pimsmConfig sampleRun)))
      (5 + 1000000000 * unat (jpPeriod (pimsmConfig sampleRun))) [7, 30000000009, 60000000005] js \<and>
    filter (\<lambda>x. snd x \<noteq> hello) L = concat (map (\<lambda>t. map (Pair t) updates) js)"
  using exec_periods [OF sampleRun_fits, of 5 "[7, 30000000009, 60000000005]" True "\<lambda>_. 0" 60000000006 60000000007]
  by simp

end
