(* ===== verification/Texts.thy ===== *)
theory Texts
  imports Prelude
begin

text \<open>
  The text utilities: \<open>lib/pimc/text\<close> (\<open>StringUtils.hpp\<close>, \<open>Plural.hpp\<close>, \<open>NumberLengths.hpp\<close>,
  \<open>SCLine.hpp\<close>), \<open>formatters/NanosText.hpp\<close> and \<open>formatters/HexAsciiBlock.hpp\<close>, with the padding of the
  format strings that use them.
\<close>

section \<open>Strings\<close>

text \<open>\<open>std::tolower\<close> in the C locale.\<close>

definition to_lower :: "char \<Rightarrow> char" where
  "to_lower c = (let n = (of_char c :: nat) in if 65 \<le> n \<and> n \<le> 90 then char_of (n + 32) else c)"

definition ciAsciiStrEq :: "string \<Rightarrow> string \<Rightarrow> bool" where
  "ciAsciiStrEq lhs rhs \<longleftrightarrow> map to_lower lhs = map to_lower rhs"

definition plural :: "nat \<Rightarrow> string" where
  "plural sz = (if sz \<noteq> 1 then ''s'' else [])"

definition SCLine :: "char \<Rightarrow> nat \<Rightarrow> string" where
  "SCLine c sz = replicate sz c"

definition scSection :: "char \<Rightarrow> nat \<Rightarrow> nat \<Rightarrow> string" where
  "scSection c len sz = take sz (SCLine c len)"

text \<open>The format specifications \<open>{:<w}\<close> and \<open>{:>w}\<close>.\<close>

definition pad_left :: "nat \<Rightarrow> string \<Rightarrow> string" where
  "pad_left w s = s @ replicate (w - length s) CHR '' ''"

definition pad_right :: "nat \<Rightarrow> string \<Rightarrow> string" where
  "pad_right w s = replicate (w - length s) CHR '' '' @ s"

text \<open>A text in single quotes, and the decimal text of an integer.\<close>

definition quoted :: "string \<Rightarrow> string" where
  "quoted s = [CHR 0x27] @ s @ [CHR 0x27]"

definition int_text :: "int \<Rightarrow> string" where
  "int_text i = (if i < 0 then ''-'' @ dec_string (nat (- i)) else dec_string (nat i))"

section \<open>Lengths of numbers\<close>

fun uintLenLoop :: "nat \<Rightarrow> nat \<Rightarrow> nat" where
  "uintLenLoop sz v = (if 0 < v then uintLenLoop (sz + 1) (v div 10) else sz)"

declare uintLenLoop.simps [simp del]

definition decimalUIntLen :: "u64 \<Rightarrow> nat" where
  "decimalUIntLen v = (if v = 0 then 1 else uintLenLoop 0 (unat v))"

text \<open>
  The length of a signed number; \<open>-v\<close> is computed in the 64 bits of \<open>int64_t\<close>, and overflows for the
  least value.
\<close>

definition decimalIntLen :: "int \<Rightarrow> nat option" where
  "decimalIntLen v =
     (if 0 \<le> v then Some (decimalUIntLen (word_of_int v))
      else if v = - (2 ^ 63) then None
      else Some (decimalUIntLen (word_of_int (- v)) + 1))"

lemma uintLenLoop_0 [simp]: "uintLenLoop sz 0 = sz"
  by (simp add: uintLenLoop.simps)

lemma uintLenLoop_length: "0 < v \<Longrightarrow> uintLenLoop sz v = sz + length (dec_string v)"
proof (induction sz v rule: uintLenLoop.induct)
  case (1 sz v)
  show ?case
  proof (cases "v < 10")
    case True
    then show ?thesis using 1 by (simp add: uintLenLoop.simps [of sz v] length_dec_string_1)
  next
    case False
    then have "0 < v div 10" by simp
    with 1 False show ?thesis by (simp add: uintLenLoop.simps [of sz v] length_dec_string_step)
  qed
qed

lemma decimalUIntLen_length: "decimalUIntLen v = length (dec_string (unat v))"
  by (simp add: decimalUIntLen_def uintLenLoop_length length_dec_string_1 unat_gt_0)

section \<open>Nanoseconds\<close>

text \<open>
  The loop of \<open>NanosText::prc\<close>, from the last digit to the first: \<open>i\<close> counts the positions left, \<open>buf\<close> is
  what the buffer holds from position \<open>i\<close> on.  No operation on the 64-bit numbers can wrap.
\<close>

fun nanosLoop :: "nat \<Rightarrow> nat \<Rightarrow> nat \<Rightarrow> nat \<Rightarrow> string \<Rightarrow> string \<times> nat" where
  "nanosLoop 0 nanos prec carry buf = (buf, carry)"
| "nanosLoop (Suc i) nanos prec carry buf =
     (let d = nanos mod 10 + carry;
          lastD = (if d = 10 then 0 else d);
          carry = (if d = 10 then carry else 0) in
      if i < prec then
        (if buf = [] \<and> lastD = 0 then nanosLoop i (nanos div 10) prec carry buf
         else nanosLoop i (nanos div 10) prec carry (dec_char lastD # buf))
      else if i > prec then nanosLoop i (nanos div 10) prec carry buf
      else nanosLoop i (nanos div 10) prec (if 4 < lastD then 1 else 0) buf)"

definition prc :: "nat \<Rightarrow> nat \<Rightarrow> string \<times> nat" where
  "prc nanos prec = (if prec = 0 \<or> nanos = 0 then ([], 0) else nanosLoop 9 nanos prec 0 [])"

text \<open>The text of a fraction of \<open>p\<close> digits, without its trailing zeros.\<close>

definition fraction_text :: "nat \<Rightarrow> nat \<Rightarrow> string \<Rightarrow> bool" where
  "fraction_text p v s \<longleftrightarrow> length s \<le> p \<and> digits_value 0 s * 10 ^ (p - length s) = v \<and>
     (\<forall>c \<in> set s. is_digit c) \<and> (s \<noteq> [] \<longrightarrow> last s \<noteq> CHR ''0'')"

lemma dec_char_0_iff:
  assumes "d < 10" shows "dec_char d = CHR ''0'' \<longleftrightarrow> d = 0"
proof
  assume "dec_char d = CHR ''0''"
  then have "digit_val (dec_char d) = digit_val (CHR ''0'')" by simp
  with assms show "d = 0" by simp
qed (simp add: dec_char_def char_of_def bit_0 bit_Suc)

definition fraction_ok :: "string \<Rightarrow> bool" where
  "fraction_ok s \<longleftrightarrow> (\<forall>c \<in> set s. is_digit c) \<and> (s \<noteq> [] \<longrightarrow> last s \<noteq> CHR ''0'')"

lemma fraction_ok_simps [simp]:
  "fraction_ok []"
  "d < 10 \<Longrightarrow> fraction_ok (dec_char d # s) \<longleftrightarrow> fraction_ok s \<and> (s = [] \<longrightarrow> d \<noteq> 0)"
  by (auto simp: fraction_ok_def dec_char_0_iff)

lemma digits_value_shift: "digits_value a cs = a * 10 ^ length cs + digits_value 0 cs"
proof (induction cs arbitrary: a)
  case (Cons c cs)
  have "digits_value a (c # cs) = (a * 10 + digit_val c) * 10 ^ length cs + digits_value 0 cs"
    using Cons [of "a * 10 + digit_val c"] by simp
  moreover have "digits_value 0 (c # cs) = digit_val c * 10 ^ length cs + digits_value 0 cs"
    using Cons [of "digit_val c"] by simp
  ultimately show ?case by (simp add: algebra_simps)
qed simp

lemma digits_value_Cons: "digits_value 0 (c # cs) = digit_val c * 10 ^ length cs + digits_value 0 cs"
  using digits_value_shift [of "digit_val c" cs] by simp

lemma digit_carry:
  assumes "c \<le> 1" and "c' = (if n mod 10 + c = 10 then c else 0)" and "d = (if n mod 10 + c = 10 then 0 else n mod 10 + c)"
  shows "c' \<le> 1 \<and> d < 10 \<and> n + c = 10 * (n div 10 + c') + (d :: nat)"
proof (cases "n mod 10 + c = 10")
  case True
  with assms have "c = 1" "n mod 10 = 9" by auto
  with True assms show ?thesis using div_mult_mod_eq [of n 10] by simp
next
  case False
  have "n mod 10 < 10" by simp
  with False assms have "n mod 10 + c < 10" by linarith
  with False assms show ?thesis using div_mult_mod_eq [of n 10] by simp
qed

lemma nanosLoop_low:
  assumes "nanosLoop i n prec c buf = (t, c')" and "i \<le> prec" "n < 10 ^ i" "c \<le> 1" "fraction_ok buf" "length buf \<le> m"
  shows "c' \<le> 1 \<and> fraction_ok t \<and> length t \<le> i + m \<and>
    digits_value 0 t * 10 ^ (i + m - length t) + c' * 10 ^ (i + m) =
      (n + c) * 10 ^ m + digits_value 0 buf * 10 ^ (m - length buf)"
  using assms
proof (induction i arbitrary: n c buf m)
  case (Suc i)
  define d where "d = (if n mod 10 + c = 10 then 0 else n mod 10 + c)"
  define c1 where "c1 = (if n mod 10 + c = 10 then c else 0)"
  have dc: "c1 \<le> 1" "d < 10" "n + c = 10 * (n div 10 + c1) + d"
    using digit_carry [OF Suc.prems(4) c1_def d_def] by simp_all
  have n: "n div 10 < 10 ^ i" using Suc.prems(3) by (simp add: less_mult_imp_div_less)
  have i: "i < prec" using Suc.prems(2) by simp
  let ?buf = "if buf = [] \<and> d = 0 then buf else dec_char d # buf"
  have loop: "nanosLoop i (n div 10) prec c1 ?buf = (t, c')"
    using Suc.prems(1) i unfolding d_def c1_def by (auto simp: Let_def split: if_splits)
  have ok: "fraction_ok ?buf" "length ?buf \<le> Suc m" using Suc.prems(5,6) dc(2) by auto
  have "digits_value 0 ?buf * 10 ^ (Suc m - length ?buf) = d * 10 ^ m + digits_value 0 buf * 10 ^ (m - length buf)"
    using dc(2) Suc.prems(6) by (auto simp: digits_value_Cons algebra_simps simp del: digits_value.simps(2) simp flip: power_add)
  moreover have "(n + c) * 10 ^ m = (n div 10 + c1) * 10 ^ Suc m + d * 10 ^ m"
    unfolding dc(3) by (simp add: algebra_simps)
  ultimately show ?case
    using Suc.IH [OF loop _ n dc(1) ok] i by simp
qed simp

lemma nanosLoop_high:
  "nanosLoop (Suc (prec + j)) n prec 0 [] = nanosLoop (Suc prec) (n div 10 ^ j) prec 0 []"
proof (induction j arbitrary: n)
  case (Suc j)
  have "n mod 10 < 10" by simp
  then have "n mod 10 \<noteq> 10" by linarith
  then have "nanosLoop (Suc (prec + Suc j)) n prec 0 [] = nanosLoop (Suc (prec + j)) (n div 10) prec 0 []"
    by (simp add: Let_def)
  then show ?case using Suc.IH [of "n div 10"] by (simp add: div_mult2_eq)
qed simp

lemma round_half_up:
  fixes n w :: nat
  assumes "0 < w"
  shows "n div w div 10 + (if 4 < n div w mod 10 then 1 else 0) = (n + 5 * w) div (10 * w)"
proof -
  have w: "(n + 5 * w) div (10 * w) = (n div w + 5) div 10"
    using assms by (simp add: div_mult2_eq mult.commute [of 10])
  have "a div 10 + (if 4 < a mod 10 then 1 else 0) = (a + 5) div 10" for a :: nat
  proof -
    have "(a mod 10 + 5) div 10 = (if 4 < a mod 10 then 1 else 0)"
    proof (cases "4 < a mod 10")
      case True
      moreover have "a mod 10 < 10" by simp
      ultimately show ?thesis by (intro div_nat_eqI) simp_all
    qed simp
    then show ?thesis using div_mult_self3 [of 10 "a div 10" "a mod 10 + 5"] by (simp add: add.assoc [symmetric])
  qed
  then show ?thesis unfolding w .
qed

lemma fraction_value_less:
  assumes "fraction_ok s" and "length s \<le> p"
  shows "digits_value 0 s * 10 ^ (p - length s) < 10 ^ p"
proof -
  have "digits_value 0 s < 10 ^ length s"
    using assms(1)
  proof (induction s)
    case (Cons c s)
    then have c: "digit_val c < 10" and s: "fraction_ok s"
      by (auto simp: fraction_ok_def digit_val_less split: if_splits)
    then have "digit_val c * 10 ^ length s + digits_value 0 s < (digit_val c + 1) * 10 ^ length s"
      using Cons.IH by simp
    also have "\<dots> \<le> 10 * 10 ^ length s" using c by (intro mult_right_mono) auto
    finally show ?case by (simp only: digits_value_Cons length_Cons power_Suc)
  qed simp
  then have "digits_value 0 s * 10 ^ (p - length s) < 10 ^ length s * 10 ^ (p - length s)" by simp
  then show ?thesis using assms(2) by (simp flip: power_add)
qed

text \<open>The nanoseconds rounded half up to \<open>prec\<close> digits.\<close>

definition rounded :: "nat \<Rightarrow> nat \<Rightarrow> nat" where
  "rounded nanos prec = (if prec < 9 then (nanos + 5 * 10 ^ (8 - prec)) div 10 ^ (9 - prec) else nanos)"

lemma prc_run:
  assumes "nanos < 10 ^ 9" and "0 < prec" and "nanos \<noteq> 0"
  obtains n c where "prc nanos prec = nanosLoop (min prec 9) n prec c []" "n < 10 ^ min prec 9" "c \<le> 1"
    "n + c = rounded nanos prec"
proof (cases "prec < 9")
  case True
  define j where "j = 8 - prec"
  have prec: "prec + j = 8" using True by (simp add: j_def)
  let ?n = "nanos div 10 ^ j"
  have "?n mod 10 < 10" by simp
  then have "?n mod 10 \<noteq> 10" by linarith
  then have "prc nanos prec = nanosLoop prec (?n div 10) prec (if 4 < ?n mod 10 then 1 else 0) []"
    using nanosLoop_high [of prec j nanos] assms(2,3) prec by (simp add: prc_def Let_def)
  moreover have "?n div 10 < 10 ^ prec"
  proof -
    have nine: "10 ^ 9 = 10 ^ prec * (10 * 10 ^ j :: nat)"
      using prec by (simp flip: power_add power_Suc)
    have "nanos div (10 * 10 ^ j) < 10 ^ prec"
      using assms(1) unfolding nine by (rule less_mult_imp_div_less)
    then show ?thesis by (simp add: div_mult2_eq [symmetric] mult.commute)
  qed
  moreover have "?n div 10 + (if 4 < ?n mod 10 then 1 else 0) = rounded nanos prec"
  proof -
    have "9 - prec = Suc j" using prec by simp
    then show ?thesis using round_half_up [of "10 ^ j" nanos] True by (simp add: rounded_def j_def)
  qed
  ultimately show ?thesis using that True by (simp add: min_def split: if_splits)
next
  case False
  then have "prc nanos prec = nanosLoop 9 nanos prec 0 []" using assms by (simp add: prc_def)
  with False assms(1) that [of nanos 0] show ?thesis by (simp add: rounded_def)
qed

text \<open>Nanoseconds are rounded half up to the precision and written as the digits of a fraction without
  trailing zeros; the carry tells that the rounding reached the next second.
\<close>

theorem nanos_text_correct:
  assumes "nanos < 10 ^ 9" and "0 < prec"
  shows "case prc nanos prec of (t, carry) \<Rightarrow>
    fraction_text (min prec 9) (rounded nanos prec mod 10 ^ min prec 9) t \<and>
    carry = rounded nanos prec div 10 ^ min prec 9 \<and> carry \<le> 1"
proof (cases "nanos = 0")
  case True
  moreover have "9 - prec = Suc (8 - prec)" if "prec < 9" using that by simp
  ultimately have "rounded nanos prec = 0" by (simp add: rounded_def)
  with True show ?thesis by (simp add: prc_def fraction_text_def)
next
  case False
  let ?p = "min prec 9"
  obtain n c where n: "prc nanos prec = nanosLoop ?p n prec c []" "n < 10 ^ ?p" "c \<le> 1"
      "n + c = rounded nanos prec"
    using prc_run [OF assms False] by blast
  obtain t carry where t: "nanosLoop ?p n prec c [] = (t, carry)" by fastforce
  have low: "carry \<le> 1 \<and> fraction_ok t \<and> length t \<le> ?p \<and>
      digits_value 0 t * 10 ^ (?p - length t) + carry * 10 ^ ?p = rounded nanos prec"
    using nanosLoop_low [OF t _ n(2,3), of 0] n(4) by simp
  then have "digits_value 0 t * 10 ^ (?p - length t) < 10 ^ ?p" by (simp add: fraction_value_less)
  with low have "rounded nanos prec mod 10 ^ ?p = digits_value 0 t * 10 ^ (?p - length t)"
    "rounded nanos prec div 10 ^ ?p = carry"
    by (metis mod_mult_self1 mod_less add.commute, metis div_mult_self1 div_less add_0 add.commute
        power_eq_0_iff zero_neq_numeral)
  with low n(1) t show ?thesis by (simp add: fraction_text_def fraction_ok_def)
qed

lemmas nanosLoop_numeral = nanosLoop.simps(2) [of "pred_numeral k" for k, folded numeral_eq_Suc]

lemma prc_value: "prc 999500000 3 = ([], 1)"
  by (simp add: prc_def nanosLoop_numeral Let_def)

lemma nanos_text_correct_witness: "prc 999500000 3 = ([], 1) \<and> fraction_text 3 0 [] \<and> rounded 999500000 3 = 1000"
  using nanos_text_correct [of 999500000 3] by (simp add: prc_value rounded_def)

section \<open>Hex and ASCII blocks\<close>

definition hex_char :: "nat \<Rightarrow> char" where
  "hex_char d = (if d < 10 then dec_char d else char_of (87 + d))"

definition hex_byte :: "nat \<Rightarrow> string" where
  "hex_byte b = [hex_char (b div 16), hex_char (b mod 16)]"

definition isprint :: "nat \<Rightarrow> bool" where
  "isprint b \<longleftrightarrow> 32 \<le> b \<and> b \<le> 126"

text \<open>The hex view of a row, the blanks that complete it, and its char view; bytes are numbers.\<close>

definition hexView :: "nat list \<Rightarrow> string" where
  "hexView row = concat (map (\<lambda>i. hex_byte (row ! i) @ '' '' @ (if i = 7 then '' '' else [])) [0..<length row])"

definition hexFill :: "nat \<Rightarrow> string" where
  "hexFill n = concat (map (\<lambda>i. (if i = 7 then '' '' else []) @ ''   '') [n..<16])"

definition charView :: "nat list \<Rightarrow> string" where
  "charView row = map (\<lambda>b. if isprint b then char_of b else CHR ''.'') row"

text \<open>
  \<open>formatHexAscii\<close> from offset \<open>start\<close>, an \<open>unsigned int\<close> in the code: the sizes are those of UDP payloads,
  so that it does not wrap.
\<close>

function formatHexAscii :: "nat list \<Rightarrow> nat \<Rightarrow> string" where
  "formatHexAscii data start =
     (if start < length data then
        (let sz = length data;
             end = (if sz - start < 16 then sz else start + 16);
             row = take (end - start) (drop start data) in
         ''  '' @ hexView row @
         (if end = sz \<and> sz mod 16 \<noteq> 0 then hexFill (sz mod 16) else []) @
         '' '' @ charView row @ (if end \<noteq> sz then [CHR 0x0A] else []) @
         formatHexAscii data (start + 16))
      else [])"
  by pat_completeness auto

termination by (relation "measure (\<lambda>(data, start). length data - start)") auto

declare formatHexAscii.simps [simp del]

lemma hexView_length:
  assumes "length row \<le> 16"
  shows "length (hexView row) = 3 * length row + (if 7 < length row then 1 else 0)"
proof -
  have "length (concat (map (\<lambda>i. hex_byte (row ! i) @ '' '' @ (if i = 7 then '' '' else [])) [0..<n])) =
      3 * n + (if 7 < n then 1 else 0)" for n
    by (induction n) (auto simp: hex_byte_def)
  then show ?thesis by (simp add: hexView_def)
qed

lemma hexFill_length:
  assumes "n \<le> 16" shows "length (hexFill n) = 3 * (16 - n) + (if n \<le> 7 then 1 else 0)"
proof -
  have "length (concat (map (\<lambda>i. (if i = 7 then '' '' else []) @ ''   '') [n..<n + m])) =
      3 * m + (if n \<le> 7 \<and> 7 < n + m then 1 else 0)" for m
    by (induction m) auto
  from this [of "16 - n"] show ?thesis using assms by (simp add: hexFill_def)
qed

text \<open>The char view of every row starts in column 52.\<close>

lemma hex_row_aligned:
  assumes "length row \<le> 16" and "row \<noteq> []"
  shows "length (hexView row @ (if length row mod 16 \<noteq> 0 then hexFill (length row mod 16) else [])) = 49"
  using assms hexView_length [of row] hexFill_length [of "length row"]
  by (cases "length row = 16") auto

text \<open>No line feed is written after the last row.\<close>

lemma formatHexAscii_no_newline: "formatHexAscii [65] 0 = ''  41 '' @ hexFill 1 @ '' A''"
  by (simp add: formatHexAscii.simps [of _ 0] formatHexAscii.simps [of _ 16] hexView_def hex_byte_def hex_char_def
      charView_def isprint_def dec_char_def char_of_def bit_0 bit_Suc)

end
