(* ===== verification/IntfTables.thy ===== *)
theory IntfTables
  imports Bytes IPv4 Texts "HOL-Library.List_Lexorder" "HOL-Library.Char_ord"
begin

text \<open>
  \<open>lib/pimc/net/IntfTable.hpp\<close> and \<open>IntfTable.cpp\<close>: the table of the interfaces of the host.  The list
  that \<open>getifaddrs\<close> returns and the function \<open>if_nametoindex\<close> are parameters.  Both maps of the table
  are ordered; the name map holds pointers into the index map, here the index of the entry.
\<close>

section \<open>The table\<close>

record IntfInfo =
  intf_name :: string
  ifindex :: u32
  ipv4addr :: "IPv4Address option"

record IntfTable =
  indexMap :: "(u32 \<times> IntfInfo) list"
  nameMap :: "(string \<times> u32) list"

definition byIndex :: "IntfTable \<Rightarrow> u32 \<Rightarrow> IntfInfo option" where
  "byIndex t i = map_of (indexMap t) i"

definition byName :: "IntfTable \<Rightarrow> string \<Rightarrow> IntfInfo option" where
  "byName t name = Option.bind (map_of (nameMap t) name) (map_of (indexMap t))"

definition forEachIntf :: "IntfTable \<Rightarrow> (IntfInfo \<Rightarrow> 's \<Rightarrow> 's) \<Rightarrow> 's \<Rightarrow> 's" where
  "forEachIntf t f = fold (\<lambda>(i, info). f info) (indexMap t)"

section \<open>Its construction\<close>

text \<open>An entry of \<open>getifaddrs\<close>; an IPv4 address is in the network byte order.\<close>

datatype sockaddr = SockIn u32 | SockOther

record ifaddrs =
  ifa_name :: string
  ifa_addr :: "sockaddr option"

definition from_nl :: "bool \<Rightarrow> u32 \<Rightarrow> IPv4Address" where
  "from_nl le a = IPv4Address (ntohl le a)"

definition sockaddrIPv4 :: "bool \<Rightarrow> sockaddr \<Rightarrow> IPv4Address option" where
  "sockaddrIPv4 le sa = (case sa of SockIn a \<Rightarrow> Some (from_nl le a) | SockOther \<Rightarrow> None)"

text \<open>
  The outer failure is the \<open>std::logic_error\<close> of the sanity check, the inner one the error of the
  result.
\<close>

fun tableLoop ::
    "bool \<Rightarrow> (string \<Rightarrow> u32) \<Rightarrow> ifaddrs list \<Rightarrow> IntfTable \<Rightarrow> (string, (string, IntfTable) outcome) outcome" where
  "tableLoop le nametoindex [] t = Ok (Ok t)"
| "tableLoop le nametoindex (p # ps) t =
     (case ifa_addr p of
        None \<Rightarrow> tableLoop le nametoindex ps t
      | Some sa \<Rightarrow>
          let i = nametoindex (ifa_name p); addr = sockaddrIPv4 le sa in
          if i = 0 then Ok (Fail (''unable to resolve interface name '' @ quoted (ifa_name p) @ '' to index''))
          else (case map_of (indexMap t) i of
              None \<Rightarrow>
                tableLoop le nametoindex ps
                  \<lparr>indexMap = omap_emplace i \<lparr>intf_name = ifa_name p, ifindex = i, ipv4addr = addr\<rparr> (indexMap t),
                   nameMap = omap_emplace (ifa_name p) i (nameMap t)\<rparr>
            | Some info \<Rightarrow>
                if intf_name info \<noteq> ifa_name p then
                  Fail (''intf #'' @ dec_string (unat (ifindex info)) @ '', previously seen name '' @
                    quoted (intf_name info) @ '' != currently seen name '' @ quoted (ifa_name p))
                else
                  tableLoop le nametoindex ps
                    (case addr of None \<Rightarrow> t
                     | Some a \<Rightarrow>
                         t\<lparr>indexMap := alist_modify i (\<lambda>info. info\<lparr>ipv4addr := Some a\<rparr>) (indexMap t)\<rparr>)))"

definition newTable ::
    "bool \<Rightarrow> (string \<Rightarrow> u32) \<Rightarrow> (string, ifaddrs list) outcome \<Rightarrow> (string, (string, IntfTable) outcome) outcome" where
  "newTable le nametoindex ifaddrList =
     (case ifaddrList of
        Inl err \<Rightarrow> Ok (Fail (''getifaddrs() failed: '' @ err))
      | Inr ps \<Rightarrow>
          (case tableLoop le nametoindex ps \<lparr>indexMap = [], nameMap = []\<rparr> of
             Inl e \<Rightarrow> Fail e
           | Inr (Inl e) \<Rightarrow> Ok (Fail e)
           | Inr (Inr t) \<Rightarrow> if indexMap t = [] then Ok (Fail ''interface table is empty'') else Ok (Ok t)))"

section \<open>Its text\<close>

text \<open>\<open>formatters/IntfTableFormatter.hpp\<close>; the widths are those of the columns, in their order.\<close>

definition intfColumns :: "IntfTable \<Rightarrow> nat \<times> nat \<times> nat" where
  "intfColumns t =
     forEachIntf t (\<lambda>info (indexColW, intfNameColW, addrColW).
       case ipv4addr info of
         None \<Rightarrow> (indexColW, intfNameColW, addrColW)
       | Some a \<Rightarrow>
           (max intfNameColW (decimalUIntLen (ucast (ifindex info))),
            max (length (intf_name info)) intfNameColW, max (charlen a) addrColW)) (5, 9, 12)"

definition formatIntfTable :: "IntfTable \<Rightarrow> nat \<Rightarrow> bool \<Rightarrow> string" where
  "formatIntfTable t indent eotNl =
     (let (indexColW, intfNameColW, addrColW) = intfColumns t;
          sep = scSection CHR ''='' (max indexColW (max intfNameColW addrColW));
          line = (\<lambda>a b c. SCLine CHR '' '' indent @ pad_left indexColW a @ '' '' @
                    pad_left intfNameColW b @ '' '' @ pad_left addrColW c);
          rows = forEachIntf t (\<lambda>info out.
            case ipv4addr info of
              None \<Rightarrow> out
            | Some a \<Rightarrow> out @ [CHR 0x0A] @
                line (dec_string (unat (ifindex info))) (intf_name info) (addr_string a)) [] in
      line ''Index'' ''Interface'' ''IPv4 Address'' @ [CHR 0x0A] @
      line (sep indexColW) (sep intfNameColW) (sep addrColW) @ rows @
      (if eotNl then [CHR 0x0A] else []))"

section \<open>What the table holds\<close>

text \<open>The entries with an address, the addresses of an interface and what the table tells of it.\<close>

definition addressed :: "ifaddrs list \<Rightarrow> ifaddrs list" where
  "addressed ps = filter (\<lambda>p. ifa_addr p \<noteq> None) ps"

definition intfNames :: "ifaddrs list \<Rightarrow> string set" where
  "intfNames ps = ifa_name ` set (addressed ps)"

definition intfAddrs :: "bool \<Rightarrow> string \<Rightarrow> ifaddrs list \<Rightarrow> IPv4Address list" where
  "intfAddrs le n ps =
     List.map_filter (\<lambda>p. if ifa_name p = n then Option.bind (ifa_addr p) (sockaddrIPv4 le) else None) ps"

definition intfOf :: "bool \<Rightarrow> (string \<Rightarrow> u32) \<Rightarrow> ifaddrs list \<Rightarrow> string \<Rightarrow> IntfInfo" where
  "intfOf le nametoindex ps n =
     \<lparr>intf_name = n, ifindex = nametoindex n,
      ipv4addr = (if intfAddrs le n ps = [] then None else Some (last (intfAddrs le n ps)))\<rparr>"

definition table_of :: "bool \<Rightarrow> (string \<Rightarrow> u32) \<Rightarrow> ifaddrs list \<Rightarrow> IntfTable \<Rightarrow> bool" where
  "table_of le f ps t \<longleftrightarrow> omap (indexMap t) \<and> omap (nameMap t) \<and> inj_on f (intfNames ps) \<and> 0 \<notin> f ` intfNames ps \<and>
     (\<forall>n. map_of (nameMap t) n = (if n \<in> intfNames ps then Some (f n) else None)) \<and>
     (\<forall>n \<in> intfNames ps. map_of (indexMap t) (f n) = Some (intfOf le f ps n)) \<and>
     (\<forall>i. map_of (indexMap t) i \<noteq> None \<longrightarrow> i \<in> f ` intfNames ps)"

lemma intfNames_simps [simp]:
  "intfNames [] = {}"
  "intfNames (ps @ [p]) = (if ifa_addr p = None then intfNames ps else insert (ifa_name p) (intfNames ps))"
  by (auto simp: intfNames_def addressed_def)

lemma intfAddrs_snoc [simp]:
  "intfAddrs le n [] = []"
  "intfAddrs le n (ps @ [p]) = intfAddrs le n ps @
     (case (if ifa_name p = n then Option.bind (ifa_addr p) (sockaddrIPv4 le) else None) of
        None \<Rightarrow> [] | Some a \<Rightarrow> [a])"
  by (auto simp: intfAddrs_def List.map_filter_def split: option.splits)

lemma intfAddrs_fresh: "n \<notin> intfNames ps \<Longrightarrow> intfAddrs le n ps = []"
  by (induction ps rule: rev_induct) (auto split: if_splits option.splits)

lemma intfOf_other:
  "ifa_name p \<noteq> n \<Longrightarrow> intfOf le f (ps @ [p]) n = intfOf le f ps n"
  by (simp add: intfOf_def)

lemma table_skip:
  "ifa_addr p = None \<Longrightarrow> table_of le f ps t \<Longrightarrow> table_of le f (ps @ [p]) t"
  by (simp add: table_of_def intfOf_def)

lemma table_new:
  assumes t: "table_of le f ps t" and sa: "ifa_addr p = Some sa" and i: "f (ifa_name p) = i" "i \<noteq> 0"
    and fresh: "map_of (indexMap t) i = None"
  shows "table_of le f (ps @ [p])
    \<lparr>indexMap = omap_emplace i \<lparr>intf_name = ifa_name p, ifindex = i, ipv4addr = sockaddrIPv4 le sa\<rparr> (indexMap t),
     nameMap = omap_emplace (ifa_name p) i (nameMap t)\<rparr>"
proof -
  have new: "i \<notin> f ` intfNames ps" using t fresh by (auto simp: table_of_def)
  then have name: "ifa_name p \<notin> intfNames ps" using i by blast
  have info: "intfOf le f (ps @ [p]) (ifa_name p) =
      \<lparr>intf_name = ifa_name p, ifindex = i, ipv4addr = sockaddrIPv4 le sa\<rparr>"
    using name i sa by (simp add: intfOf_def intfAddrs_fresh split: option.splits)
  have "map_of (omap_emplace i info (indexMap t)) = (map_of (indexMap t))(i \<mapsto> info)" for info
    by (simp add: map_of_omap_emplace fresh)
  moreover have "map_of (omap_emplace (ifa_name p) i (nameMap t)) = (map_of (nameMap t))(ifa_name p \<mapsto> i)"
    using t name by (simp add: map_of_omap_emplace table_of_def)
  moreover have "intfOf le f (ps @ [p]) n = intfOf le f ps n" if "n \<in> intfNames ps" for n
    using that name by (intro intfOf_other) blast
  ultimately show ?thesis
    using t i sa new name by (auto simp: table_of_def info)
qed

lemma table_again:
  assumes t: "table_of le f ps t" and sa: "ifa_addr p = Some sa"
    and seen: "map_of (indexMap t) (f (ifa_name p)) = Some info" "intf_name info = ifa_name p"
  shows "table_of le f (ps @ [p])
    (case sockaddrIPv4 le sa of None \<Rightarrow> t
     | Some a \<Rightarrow> t\<lparr>indexMap := alist_modify (f (ifa_name p)) (\<lambda>info. info\<lparr>ipv4addr := Some a\<rparr>) (indexMap t)\<rparr>)"
proof -
  have "f (ifa_name p) \<in> f ` intfNames ps" using t seen(1) unfolding table_of_def by simp
  then obtain n where n: "n \<in> intfNames ps" "f n = f (ifa_name p)" by (metis imageE)
  then have "info = intfOf le f ps n" using t seen(1) by (auto simp: table_of_def)
  with seen(2) have p: "ifa_name p \<in> intfNames ps" using n(1) by (simp add: intfOf_def)
  then have names: "intfNames (ps @ [p]) = intfNames ps" by auto
  have info: "intfOf le f (ps @ [p]) (ifa_name p) =
      (case sockaddrIPv4 le sa of None \<Rightarrow> intfOf le f ps (ifa_name p)
       | Some a \<Rightarrow> (intfOf le f ps (ifa_name p))\<lparr>ipv4addr := Some a\<rparr>)"
    using sa by (simp add: intfOf_def split: option.splits)
  have other: "f n = f (ifa_name p) \<longleftrightarrow> n = ifa_name p" if "n \<in> intfNames ps" for n
    using t p that by (auto simp: table_of_def inj_on_def)
  show ?thesis
  proof (cases "sockaddrIPv4 le sa")
    case None
    then have "intfOf le f (ps @ [p]) n = intfOf le f ps n" for n
      using info by (cases "n = ifa_name p") (simp_all add: intfOf_other)
    with t None show ?thesis unfolding table_of_def names by simp
  next
    case (Some a)
    with t info show ?thesis
      unfolding table_of_def names
      by (auto simp: map_of_alist_modify other p intfOf_other [OF not_sym])
  qed
qed

lemma tableLoop_table:
  "table_of le f ps t \<Longrightarrow> tableLoop le f qs t = Ok (Ok t') \<Longrightarrow> table_of le f (ps @ qs) t'"
proof (induction qs arbitrary: ps t)
  case (Cons p qs)
  show ?case
  proof (cases "ifa_addr p")
    case None
    then show ?thesis using Cons.IH [OF table_skip [OF None Cons.prems(1)]] Cons.prems(2) by simp
  next
    case (Some sa)
    then have i: "f (ifa_name p) \<noteq> 0" using Cons.prems(2) by (auto simp: Let_def split: if_splits)
    show ?thesis
    proof (cases "map_of (indexMap t) (f (ifa_name p))")
      case None
      from Cons.IH [OF table_new [OF Cons.prems(1) Some refl i None]] Cons.prems(2) i Some None
      show ?thesis by (simp add: Let_def)
    next
      case info: (Some info)
      then have "intf_name info = ifa_name p"
        using Cons.prems(2) Some i by (auto simp: Let_def split: if_splits)
      from Cons.IH [OF table_again [OF Cons.prems(1) Some info this]] Cons.prems(2) i Some info this
      show ?thesis by (simp add: Let_def)
    qed
  qed
qed simp

text \<open>The construction succeeds if every interface has an index, and no two of them the same.\<close>

lemma tableLoop_total:
  assumes "table_of le f ps t" "inj_on f (intfNames (ps @ qs))" "0 \<notin> f ` intfNames (ps @ qs)"
  shows "\<exists>t'. tableLoop le f qs t = Ok (Ok t')"
  using assms
proof (induction qs arbitrary: ps t)
  case (Cons p qs)
  show ?case
  proof (cases "ifa_addr p")
    case None
    then show ?thesis using Cons.IH [OF table_skip [OF None Cons.prems(1)]] Cons.prems by simp
  next
    case (Some sa)
    have mono: "intfNames (ps @ [p]) \<subseteq> intfNames (ps @ p # qs)"
      by (auto simp: intfNames_def addressed_def)
    have p: "ifa_name p \<in> intfNames (ps @ p # qs)" using mono Some by auto
    then have i: "f (ifa_name p) \<noteq> 0" using Cons.prems(3) by (metis imageI)
    show ?thesis
    proof (cases "map_of (indexMap t) (f (ifa_name p))")
      case None
      from Cons.IH [OF table_new [OF Cons.prems(1) Some refl i None]] Cons.prems i Some None
      show ?thesis by (simp add: Let_def)
    next
      case info: (Some info)
      then obtain n where n: "n \<in> intfNames ps" "f n = f (ifa_name p)"
        using Cons.prems(1) unfolding table_of_def by (metis imageE option.distinct(1))
      then have "info = intfOf le f ps n" using Cons.prems(1) info by (auto simp: table_of_def)
      moreover have "n = ifa_name p"
        using n p Cons.prems(2) mono by (auto simp: inj_on_def intfNames_def addressed_def)
      ultimately have "intf_name info = ifa_name p" by (simp add: intfOf_def)
      from Cons.IH [OF table_again [OF Cons.prems(1) Some info this]] Cons.prems i Some info this
      show ?thesis by (simp add: Let_def)
    qed
  qed
qed simp

lemma table_of_empty: "table_of le f [] \<lparr>indexMap = [], nameMap = []\<rparr>"
  by (simp add: table_of_def)

lemma byName_table:
  "table_of le f ps t \<Longrightarrow> byName t n = (if n \<in> intfNames ps then Some (intfOf le f ps n) else None)"
  by (simp add: byName_def table_of_def)

lemma byIndex_table:
  assumes "table_of le f ps t"
  shows "byIndex t i = Some info \<longleftrightarrow> (\<exists>n \<in> intfNames ps. f n = i \<and> info = intfOf le f ps n)"
proof
  assume "byIndex t i = Some info"
  with assms have "i \<in> f ` intfNames ps" by (simp add: table_of_def byIndex_def)
  then obtain n where "n \<in> intfNames ps" "f n = i" by (metis imageE)
  with assms \<open>byIndex t i = Some info\<close> show "\<exists>n \<in> intfNames ps. f n = i \<and> info = intfOf le f ps n"
    by (auto simp: table_of_def byIndex_def)
next
  assume "\<exists>n \<in> intfNames ps. f n = i \<and> info = intfOf le f ps n"
  with assms show "byIndex t i = Some info" by (auto simp: table_of_def byIndex_def)
qed

lemma table_empty_iff: "table_of le f ps t \<Longrightarrow> indexMap t = [] \<longleftrightarrow> intfNames ps = {}"
  by (cases "indexMap t")
     (auto simp: table_of_def, metis fst_conv snd_conv option.distinct(1) ex_in_conv)

lemma newTable_table:
  "newTable le f (Ok ps) = Ok (Ok t) \<longleftrightarrow>
     tableLoop le f ps \<lparr>indexMap = [], nameMap = []\<rparr> = Ok (Ok t) \<and> indexMap t \<noteq> []"
  by (auto simp: newTable_def split: sum.splits)

text \<open>The table of the interfaces is built exactly if the host has an entry with an address and its
  interfaces have indices that differ; it then finds each interface that has an entry with an address, and
  no other, by its name and by its index, with the last of its IPv4 addresses.
\<close>

theorem intf_table_correct:
  "((\<exists>t. newTable le f (Ok ps) = Ok (Ok t)) \<longleftrightarrow>
     intfNames ps \<noteq> {} \<and> inj_on f (intfNames ps) \<and> 0 \<notin> f ` intfNames ps) \<and>
   (\<forall>t. newTable le f (Ok ps) = Ok (Ok t) \<longrightarrow>
     (\<forall>n. byName t n = (if n \<in> intfNames ps then Some (intfOf le f ps n) else None)) \<and>
     (\<forall>i info. byIndex t i = Some info \<longleftrightarrow>
        (\<exists>n \<in> intfNames ps. f n = i \<and> info = intfOf le f ps n)))"
proof -
  have table: "table_of le f ps t \<and> intfNames ps \<noteq> {}" if "newTable le f (Ok ps) = Ok (Ok t)" for t
    using that tableLoop_table [OF table_of_empty, of le f ps t] table_empty_iff [of le f ps t]
    by (simp add: newTable_table)
  have "\<exists>t. newTable le f (Ok ps) = Ok (Ok t)"
    if ok: "intfNames ps \<noteq> {}" "inj_on f (intfNames ps)" "0 \<notin> f ` intfNames ps"
  proof -
    obtain t where t: "tableLoop le f ps \<lparr>indexMap = [], nameMap = []\<rparr> = Ok (Ok t)"
      using tableLoop_total [OF table_of_empty, of f ps le] ok by (metis append_Nil)
    moreover have "indexMap t \<noteq> []"
      using table_empty_iff [of le f ps t] tableLoop_table [OF table_of_empty t] ok(1) by simp
    ultimately show ?thesis by (auto simp: newTable_table)
  qed
  moreover have "inj_on f (intfNames ps) \<and> 0 \<notin> f ` intfNames ps" if "table_of le f ps t" for t
    using that by (simp add: table_of_def)
  ultimately have "(\<exists>t. newTable le f (Ok ps) = Ok (Ok t)) \<longleftrightarrow>
     intfNames ps \<noteq> {} \<and> inj_on f (intfNames ps) \<and> 0 \<notin> f ` intfNames ps"
    using table by metis
  moreover have "(\<forall>n. byName t n = (if n \<in> intfNames ps then Some (intfOf le f ps n) else None)) \<and>
     (\<forall>i info. byIndex t i = Some info \<longleftrightarrow> (\<exists>n \<in> intfNames ps. f n = i \<and> info = intfOf le f ps n))"
    if "newTable le f (Ok ps) = Ok (Ok t)" for t
    using table [OF that] byName_table [of le f ps t] byIndex_table [of le f ps t] by simp
  ultimately show ?thesis by simp
qed

lemma intf_table_correct_witness:
  "byName \<lparr>indexMap = [(2, \<lparr>intf_name = ''eth0'', ifindex = 2, ipv4addr = Some (IPv4Address 7)\<rparr>)],
           nameMap = [(''eth0'', 2)]\<rparr> ''eth0'' =
     Some (intfOf False (\<lambda>n. 2)
       [\<lparr>ifa_name = ''eth0'', ifa_addr = Some (SockIn 5)\<rparr>, \<lparr>ifa_name = ''lo'', ifa_addr = None\<rparr>,
        \<lparr>ifa_name = ''eth0'', ifa_addr = Some SockOther\<rparr>, \<lparr>ifa_name = ''eth0'', ifa_addr = Some (SockIn 7)\<rparr>]
       ''eth0'')"
  using intf_table_correct [of False "\<lambda>n. 2"
      "[\<lparr>ifa_name = ''eth0'', ifa_addr = Some (SockIn 5)\<rparr>, \<lparr>ifa_name = ''lo'', ifa_addr = None\<rparr>,
        \<lparr>ifa_name = ''eth0'', ifa_addr = Some SockOther\<rparr>, \<lparr>ifa_name = ''eth0'', ifa_addr = Some (SockIn 7)\<rparr>]"]
  by (simp add: newTable_def from_nl_def sockaddrIPv4_def htonl_def omap_emplace_def alist_modify_def
      intfNames_def addressed_def)

end
