(* ===== verification/Yaml.thy ===== *)
theory Yaml
  imports Results Texts
begin

text \<open>
  \<open>lib/pimc/yaml/Structured.hpp\<close> and \<open>Structured.cpp\<close>: the contexts that a loader uses to walk a YAML
  document, with the errors they report.  The document belongs to yaml-cpp, which is not part of the
  repository: a node is of an unspecified type \<open>'n\<close>, and the record \<open>YAML\<close> holds what the code asks of it.
  An object of the code that remembers the fields it was asked for (\<open>knownFields_\<close>) is returned updated.
\<close>

section \<open>Nodes\<close>

datatype NodeType = Undefined | Null | Scalar | Sequence | Map

text \<open>
  \<open>yn_line\<close> is \<open>Mark().line\<close>, \<open>yn_field n f\<close> the node \<open>n[f]\<close>, which is defined or not, \<open>yn_at n i\<close> the node
  \<open>n[i]\<close> and \<open>yn_items n\<close> the pairs of nodes in the order of iteration.
\<close>

record 'n YAML =
  yn_type :: "'n \<Rightarrow> NodeType"
  yn_line :: "'n \<Rightarrow> int"
  yn_defined :: "'n \<Rightarrow> bool"
  yn_scalar :: "'n \<Rightarrow> string"
  yn_size :: "'n \<Rightarrow> nat"
  yn_field :: "'n \<Rightarrow> string \<Rightarrow> 'n"
  yn_at :: "'n \<Rightarrow> nat \<Rightarrow> 'n"
  yn_items :: "'n \<Rightarrow> ('n \<times> 'n) list"

section \<open>Contexts\<close>

record ErrorContext =
  ec_line :: int
  ec_context :: string
  ec_message :: string

record 'n NodeContext =
  nc_node :: 'n
  nc_ctx :: "string list"

type_synonym 'n ValueContext = "'n NodeContext"
type_synonym 'n ScalarContext = "'n NodeContext"

record 'n MappingContext = "'n NodeContext" +
  mc_name :: string
  mc_known :: "string set"

record 'n SequenceContext = "'n NodeContext" +
  sc_name :: string

definition newNodeContext :: "'n \<Rightarrow> string list \<Rightarrow> 'n NodeContext" where
  "newNodeContext node parentCtx = \<lparr>nc_node = node, nc_ctx = parentCtx\<rparr>"

definition namedNodeContext :: "'n \<Rightarrow> string list \<Rightarrow> string \<Rightarrow> 'n NodeContext" where
  "namedNodeContext node parentCtx name = \<lparr>nc_node = node, nc_ctx = parentCtx @ [name]\<rparr>"

definition vc_root :: "'n \<Rightarrow> 'n ValueContext" where
  "vc_root rootNode = newNodeContext rootNode []"

definition nodeLine :: "'n YAML \<Rightarrow> 'n \<Rightarrow> int" where
  "nodeLine Y n = (if yn_line Y n \<noteq> -1 then yn_line Y n + 1 else -1)"

definition nc_line :: "'n YAML \<Rightarrow> ('n, 'z) NodeContext_scheme \<Rightarrow> int" where
  "nc_line Y nc = nodeLine Y (nc_node nc)"

text \<open>\<open>errorAt\<close>; the arguments of the format string are already in the message.\<close>

definition errorAt :: "int \<Rightarrow> ('n, 'z) NodeContext_scheme \<Rightarrow> string \<Rightarrow> ErrorContext" where
  "errorAt lineNo nc msg =
     \<lparr>ec_line = lineNo, ec_context = concat (map (\<lambda>name. name @ '': '') (nc_ctx nc)), ec_message = msg\<rparr>"

definition nc_error :: "'n YAML \<Rightarrow> ('n, 'z) NodeContext_scheme \<Rightarrow> string \<Rightarrow> ErrorContext" where
  "nc_error Y nc msg = errorAt (nc_line Y nc) nc msg"

section \<open>Values\<close>

definition isDefined :: "'n YAML \<Rightarrow> 'n ValueContext \<Rightarrow> bool" where
  "isDefined Y vc = yn_defined Y (nc_node vc)"

definition wrongType :: "'n YAML \<Rightarrow> 'n ValueContext \<Rightarrow> string \<Rightarrow> string \<Rightarrow> string \<Rightarrow> ErrorContext" where
  "wrongType Y vc what name typ =
     nc_error Y vc
       (if name = [] then ''expecting '' @ what @ '', not '' @ typ
        else name @ '' must be '' @ what @ '', not '' @ typ)"

definition getScalar :: "'n YAML \<Rightarrow> string \<Rightarrow> 'n ValueContext \<Rightarrow> (ErrorContext, 'n ScalarContext) outcome" where
  "getScalar Y name vc =
     (let err = (\<lambda>typ. Fail (wrongType Y vc ''a scalar'' name typ)) in
      case yn_type Y (nc_node vc) of
        Map \<Rightarrow> err ''a mapping''
      | Undefined \<Rightarrow> err ''undefined''
      | Null \<Rightarrow> err ''null''
      | Scalar \<Rightarrow> Ok (newNodeContext (nc_node vc) (nc_ctx vc))
      | Sequence \<Rightarrow> err ''a sequence'')"

definition getMapping :: "'n YAML \<Rightarrow> string \<Rightarrow> 'n ValueContext \<Rightarrow> (ErrorContext, 'n MappingContext) outcome" where
  "getMapping Y name vc =
     (let err = (\<lambda>typ. Fail (wrongType Y vc ''a mapping'' name typ)) in
      case yn_type Y (nc_node vc) of
        Map \<Rightarrow> Ok \<lparr>nc_node = nc_node vc, nc_ctx = nc_ctx vc, mc_name = name, mc_known = {}\<rparr>
      | Undefined \<Rightarrow> err ''undefined''
      | Null \<Rightarrow> err ''null''
      | Scalar \<Rightarrow> err ''a scalar''
      | Sequence \<Rightarrow> err ''a sequence'')"

definition getSequence :: "'n YAML \<Rightarrow> string \<Rightarrow> 'n ValueContext \<Rightarrow> (ErrorContext, 'n SequenceContext) outcome" where
  "getSequence Y name vc =
     (let err = (\<lambda>typ. Fail (wrongType Y vc ''a sequence'' name typ)) in
      case yn_type Y (nc_node vc) of
        Map \<Rightarrow> err ''a mapping''
      | Undefined \<Rightarrow> err ''undefined''
      | Null \<Rightarrow> err ''null''
      | Scalar \<Rightarrow> err ''a scalar''
      | Sequence \<Rightarrow> Ok \<lparr>nc_node = nc_node vc, nc_ctx = nc_ctx vc, sc_name = name\<rparr>)"

definition scalarValue :: "'n YAML \<Rightarrow> 'n ScalarContext \<Rightarrow> string" where
  "scalarValue Y sc = yn_scalar Y (nc_node sc)"

section \<open>Mappings\<close>

definition describeField :: "'n MappingContext \<Rightarrow> string \<Rightarrow> string" where
  "describeField mc field =
     (if mc_name mc = [] then ''field '' @ quoted field
      else ''field '' @ quoted field @ '' of '' @ mc_name mc)"

definition requiredField ::
    "'n YAML \<Rightarrow> string \<Rightarrow> 'n MappingContext \<Rightarrow> (ErrorContext, 'n ValueContext) outcome \<times> 'n MappingContext" where
  "requiredField Y field mc =
     (let mc = mc\<lparr>mc_known := insert field (mc_known mc)\<rparr>; node = yn_field Y (nc_node mc) field in
      if \<not> yn_defined Y node then (Fail (nc_error Y mc (describeField mc field @ '' is required'')), mc)
      else (Ok (namedNodeContext node (nc_ctx mc) (describeField mc field)), mc))"

definition optionalField ::
    "'n YAML \<Rightarrow> string \<Rightarrow> 'n MappingContext \<Rightarrow> 'n ValueContext option \<times> 'n MappingContext" where
  "optionalField Y field mc =
     (let mc = mc\<lparr>mc_known := insert field (mc_known mc)\<rparr>; node = yn_field Y (nc_node mc) field in
      if \<not> yn_defined Y node then (None, mc)
      else (Some (namedNodeContext node (nc_ctx mc) (describeField mc field)), mc))"

definition mc_size :: "'n YAML \<Rightarrow> 'n MappingContext \<Rightarrow> nat" where
  "mc_size Y mc = yn_size Y (nc_node mc)"

definition items :: "'n YAML \<Rightarrow> 'n MappingContext \<Rightarrow> ('n ValueContext \<times> 'n ValueContext) list" where
  "items Y mc =
     (if yn_size Y (nc_node mc) = 0 then []
      else map (\<lambda>(k, v). (newNodeContext k (nc_ctx mc), newNodeContext v (nc_ctx mc))) (yn_items Y (nc_node mc)))"

text \<open>One round of the loop of \<open>extraneous\<close>: the errors so far and the fields observed with their lines.\<close>

definition extraneousKey ::
    "'n YAML \<Rightarrow> 'n MappingContext \<Rightarrow> 'n \<Rightarrow> ErrorContext list \<times> (string \<times> int) list \<Rightarrow>
     ErrorContext list \<times> (string \<times> int) list" where
  "extraneousKey Y mc n s =
     (let line = nodeLine Y n;
          keyError = (\<lambda>msg. (fst s @ [errorAt line mc msg], snd s)) in
      case yn_type Y n of
        Undefined \<Rightarrow> keyError ''mapping key may not be undefined''
      | Null \<Rightarrow> keyError ''mapping key may not be null''
      | Sequence \<Rightarrow> keyError ''mapping key may not be a sequence''
      | Map \<Rightarrow> keyError ''mapping key may not be another mapping''
      | Scalar \<Rightarrow>
          let fn = yn_scalar Y n;
              errors =
                (if fn \<in> mc_known mc then fst s
                 else fst s @ [errorAt line mc
                   (if mc_name mc = [] then ''unrecognized field '' @ quoted fn
                    else ''unrecognized field '' @ quoted fn @ '' in '' @ mc_name mc)]) in
          case map_of (snd s) fn of
            None \<Rightarrow> (errors, snd s @ [(fn, line)])
          | Some seen \<Rightarrow>
              (errors @ [errorAt line mc
                 (if mc_name mc = [] then
                    ''duplicate field '' @ quoted fn @ '', previously seen at line '' @ int_text seen
                  else
                    ''duplicate field '' @ quoted fn @ '' in '' @ mc_name mc @
                    '', previously seen at line '' @ int_text seen)],
               snd s))"

definition extraneous :: "'n YAML \<Rightarrow> 'n MappingContext \<Rightarrow> ErrorContext list" where
  "extraneous Y mc = fst (fold (\<lambda>(k, v). extraneousKey Y mc k) (yn_items Y (nc_node mc)) ([], []))"

section \<open>Sequences\<close>

definition describeElement :: "'n SequenceContext \<Rightarrow> nat \<Rightarrow> string" where
  "describeElement sc i =
     (if sc_name sc = [] then ''element #'' @ dec_string i
      else ''element #'' @ dec_string i @ '' of '' @ sc_name sc)"

definition sc_size :: "'n YAML \<Rightarrow> 'n SequenceContext \<Rightarrow> nat" where
  "sc_size Y sc = yn_size Y (nc_node sc)"

definition element :: "'n YAML \<Rightarrow> nat \<Rightarrow> 'n SequenceContext \<Rightarrow> (ErrorContext, 'n ValueContext) outcome" where
  "element Y i sc =
     (if i < yn_size Y (nc_node sc)
      then Ok (namedNodeContext (yn_at Y (nc_node sc) i) (nc_ctx sc) (describeElement sc i))
      else Fail (nc_error Y sc
        (describeElement sc i @ '' does not exist (sequence size is '' @
         dec_string (yn_size Y (nc_node sc)) @ '')'')))"

definition elements :: "'n YAML \<Rightarrow> 'n SequenceContext \<Rightarrow> 'n ValueContext list" where
  "elements Y sc =
     map (\<lambda>i. namedNodeContext (yn_at Y (nc_node sc) i) (nc_ctx sc) (describeElement sc i))
       [0..<yn_size Y (nc_node sc)]"

section \<open>Accessors\<close>

named_theorems yaml_simps

lemma newNodeContext_simps [simp]:
  "nc_node (newNodeContext n ctx) = n" "nc_ctx (newNodeContext n ctx) = ctx"
  "nc_node (namedNodeContext n ctx f) = n" "nc_ctx (namedNodeContext n ctx f) = ctx @ [f]"
  by (simp_all add: newNodeContext_def namedNodeContext_def)

lemma getScalar_Ok [yaml_simps]:
  "getScalar Y name vc = Inr sc \<longleftrightarrow>
     yn_type Y (nc_node vc) = Scalar \<and> sc = newNodeContext (nc_node vc) (nc_ctx vc)"
  by (auto simp: getScalar_def Let_def split: NodeType.splits)

lemma getMapping_Ok [yaml_simps]:
  "getMapping Y name vc = Inr mc \<longleftrightarrow>
     yn_type Y (nc_node vc) = Map \<and>
     mc = \<lparr>nc_node = nc_node vc, nc_ctx = nc_ctx vc, mc_name = name, mc_known = {}\<rparr>"
  by (auto simp: getMapping_def Let_def split: NodeType.splits)

lemma getSequence_Ok [yaml_simps]:
  "getSequence Y name vc = Inr sc \<longleftrightarrow>
     yn_type Y (nc_node vc) = Sequence \<and> sc = \<lparr>nc_node = nc_node vc, nc_ctx = nc_ctx vc, sc_name = name\<rparr>"
  by (auto simp: getSequence_def Let_def split: NodeType.splits)

lemma length_elements [simp]: "length (elements Y sc) = yn_size Y (nc_node sc)"
  by (simp add: elements_def)

lemma elements_nth [simp]:
  "i < yn_size Y (nc_node sc) \<Longrightarrow> element Y i sc = Inr (elements Y sc ! i)"
  by (simp add: element_def elements_def)

section \<open>Extraneous fields\<close>

text \<open>The keys of a mapping that may stand: scalars that were asked for, each once.\<close>

definition cleanKeys :: "'n YAML \<Rightarrow> string set \<Rightarrow> 'n list \<Rightarrow> bool" where
  "cleanKeys Y known ks \<longleftrightarrow>
     (\<forall>k \<in> set ks. yn_type Y k = Scalar \<and> yn_scalar Y k \<in> known) \<and> distinct (map (yn_scalar Y) ks)"

lemma extraneousKey_grows:
  "\<exists>ds. fst (fold (\<lambda>(k, v). extraneousKey Y mc k) kvs (es, obs)) = es @ ds"
proof (induction kvs arbitrary: es obs)
  case (Cons kv kvs)
  obtain k v where kv: "kv = (k, v)" by (cases kv)
  obtain es' obs' where step: "extraneousKey Y mc k (es, obs) = (es', obs')" by fastforce
  moreover have "\<exists>ds. es' = es @ ds"
    using step by (auto simp: extraneousKey_def Let_def split: NodeType.splits option.splits if_splits)
  ultimately show ?case using Cons.IH [of es' obs'] by (auto simp: kv)
qed simp

lemma map_of_key: "k \<in> fst ` set m \<longleftrightarrow> map_of m k \<noteq> None"
  by (simp add: map_of_eq_None_iff)

lemma extraneousKey_clean:
  "fst (extraneousKey Y mc k ([], obs)) = [] \<longleftrightarrow>
     yn_type Y k = Scalar \<and> yn_scalar Y k \<in> mc_known mc \<and> yn_scalar Y k \<notin> fst ` set obs"
  "fst (extraneousKey Y mc k ([], obs)) = [] \<Longrightarrow>
     fst ` set (snd (extraneousKey Y mc k ([], obs))) = insert (yn_scalar Y k) (fst ` set obs)"
  using map_of_key [of "yn_scalar Y k" obs]
  by (auto simp: extraneousKey_def Let_def split: NodeType.splits option.splits if_splits)

lemma extraneous_fold:
  "fst (fold (\<lambda>(k, v). extraneousKey Y mc k) kvs ([], obs)) = [] \<longleftrightarrow>
     cleanKeys Y (mc_known mc) (map fst kvs) \<and>
     yn_scalar Y ` set (map fst kvs) \<inter> fst ` set obs = {}"
proof (induction kvs arbitrary: obs)
  case (Cons kv kvs)
  obtain k v where kv: "kv = (k, v)" by (cases kv)
  obtain es' obs' where step: "extraneousKey Y mc k ([], obs) = (es', obs')" by fastforce
  show ?case
  proof (cases "es' = []")
    case True
    then show ?thesis
      using extraneousKey_clean [of Y mc k obs] Cons.IH [of obs'] step kv
      by (simp add: cleanKeys_def image_image) blast
  next
    case False
    then show ?thesis
      using extraneousKey_clean(1) [of Y mc k obs] extraneousKey_grows [of Y mc kvs es' obs'] step kv
      by (auto simp: cleanKeys_def)
  qed
qed (simp add: cleanKeys_def)

lemma extraneous_Nil [yaml_simps]:
  "extraneous Y mc = [] \<longleftrightarrow> cleanKeys Y (mc_known mc) (map fst (yn_items Y (nc_node mc)))"
  by (simp add: extraneous_def extraneous_fold)

section \<open>Function objects\<close>

definition isNull :: "'n YAML \<Rightarrow> 'n ValueContext \<Rightarrow> bool" where
  "isNull Y vc \<longleftrightarrow> yn_type Y (nc_node vc) = Null"

definition isScalar :: "'n YAML \<Rightarrow> 'n ValueContext \<Rightarrow> bool" where
  "isScalar Y vc \<longleftrightarrow> yn_type Y (nc_node vc) = Scalar"

definition isSequence :: "'n YAML \<Rightarrow> 'n ValueContext \<Rightarrow> bool" where
  "isSequence Y vc \<longleftrightarrow> yn_type Y (nc_node vc) = Sequence"

definition isMapping :: "'n YAML \<Rightarrow> 'n ValueContext \<Rightarrow> bool" where
  "isMapping Y vc \<longleftrightarrow> yn_type Y (nc_node vc) = Map"

text \<open>The functions \<open>scalar\<close>, \<open>mapping\<close> and \<open>sequence\<close> without a name, and \<open>scalar\<close> with one, return functions without state.\<close>

definition scalarFn :: "'n YAML \<Rightarrow> 'n ValueContext \<Rightarrow> (ErrorContext, 'n ScalarContext) outcome" where
  "scalarFn Y = getScalar Y []"

definition namedScalarFn :: "'n YAML \<Rightarrow> string \<Rightarrow> 'n ValueContext \<Rightarrow> (ErrorContext, 'n ScalarContext) outcome" where
  "namedScalarFn Y name = getScalar Y name"

definition mappingFn :: "'n YAML \<Rightarrow> 'n ValueContext \<Rightarrow> (ErrorContext, 'n MappingContext) outcome" where
  "mappingFn Y = getMapping Y []"

definition sequenceFn :: "'n YAML \<Rightarrow> 'n ValueContext \<Rightarrow> (ErrorContext, 'n SequenceContext) outcome" where
  "sequenceFn Y = getSequence Y []"

text \<open>
  Those of \<open>mapping\<close> and \<open>sequence\<close> with a name own it and move it out when they are called: the state of the
  function object is its name, of which a move leaves \<open>left name\<close>, which the standard does not tell.
\<close>

definition namedMappingFn ::
    "'n YAML \<Rightarrow> (string \<Rightarrow> string) \<Rightarrow> 'n ValueContext \<Rightarrow> string \<Rightarrow>
     (ErrorContext, 'n MappingContext) outcome \<times> string" where
  "namedMappingFn Y left vc name = (getMapping Y name vc, left name)"

definition namedSequenceFn ::
    "'n YAML \<Rightarrow> (string \<Rightarrow> string) \<Rightarrow> 'n ValueContext \<Rightarrow> string \<Rightarrow>
     (ErrorContext, 'n SequenceContext) outcome \<times> string" where
  "namedSequenceFn Y left vc name = (getSequence Y name vc, left name)"

text \<open>Calls of one function object on several values, in order.\<close>

fun callAll :: "('a \<Rightarrow> 's \<Rightarrow> 'r \<times> 's) \<Rightarrow> 'a list \<Rightarrow> 's \<Rightarrow> 'r list \<times> 's" where
  "callAll f [] s = ([], s)"
| "callAll f (x # xs) s = (case f x s of (r, s) \<Rightarrow> case callAll f xs s of (rs, s) \<Rightarrow> (r # rs, s))"

lemma callAll_moved:
  assumes "\<And>x s. f x s = (g s x, left s)"
  shows "fst (callAll f xs s) = map (\<lambda>i. g ((left ^^ i) s) (xs ! i)) [0..<length xs]"
proof (induction xs arbitrary: s)
  case (Cons x xs)
  have shifted: "map (\<lambda>i. g ((left ^^ i) s) ((x # xs) ! i)) [0..<length (x # xs)] =
      g s x # map (\<lambda>i. g ((left ^^ i) (left s)) (xs ! i)) [0..<length xs]"
    by (simp add: upt_conv_Cons map_Suc_upt [symmetric] comp_def funpow_swap1 del: upt_Suc)
  show ?case unfolding shifted using Cons.IH [of "left s"] by (auto simp: assms split: prod.splits)
qed simp

text \<open>
  A function object is made for one call: on a value it gives what the getter gives, and with strings that are
  empty after a move the name is lost at every call but the first.
\<close>

theorem function_objects_once:
  "scalarFn Y vc = Ok sc \<longleftrightarrow> isScalar Y vc \<and> sc = newNodeContext (nc_node vc) (nc_ctx vc)"
  "(\<exists>mc. mappingFn Y vc = Ok mc) \<longleftrightarrow> isMapping Y vc"
  "(\<exists>sq. sequenceFn Y vc = Ok sq) \<longleftrightarrow> isSequence Y vc"
  "fst (namedMappingFn Y left vc name) = getMapping Y name vc"
  "fst (callAll (namedMappingFn Y (\<lambda>_. [])) vcs name) =
     map (\<lambda>i. getMapping Y (if i = 0 then name else []) (vcs ! i)) [0..<length vcs]"
  "fst (callAll (namedSequenceFn Y (\<lambda>_. [])) vcs name) =
     map (\<lambda>i. getSequence Y (if i = 0 then name else []) (vcs ! i)) [0..<length vcs]"
proof -
  have moved: "((\<lambda>_. []) ^^ i) name = (if i = 0 then name else [])" for i
    by (cases i) simp_all
  show "fst (callAll (namedMappingFn Y (\<lambda>_. [])) vcs name) =
      map (\<lambda>i. getMapping Y (if i = 0 then name else []) (vcs ! i)) [0..<length vcs]"
    by (simp add: callAll_moved [of _ "getMapping Y" "\<lambda>_. []"] namedMappingFn_def moved)
  show "fst (callAll (namedSequenceFn Y (\<lambda>_. [])) vcs name) =
      map (\<lambda>i. getSequence Y (if i = 0 then name else []) (vcs ! i)) [0..<length vcs]"
    by (simp add: callAll_moved [of _ "getSequence Y" "\<lambda>_. []"] namedSequenceFn_def moved)
qed (auto simp: scalarFn_def mappingFn_def sequenceFn_def namedMappingFn_def isScalar_def isMapping_def
    isSequence_def yaml_simps)

end
