(* ===== verification/ConfigLoaders.thy ===== *)
theory ConfigLoaders
  imports Yaml IntfTables IPv4Parsers SanityCheck Scheduler
begin

text \<open>
  The loaders of the client's YAML configuration, \<open>apps/pimc/config\<close>.  The vector of errors that the
  loaders share by reference is passed and returned, and an object of a loader is its state.  The host is
  a parameter: its file system, the text of the time in a log file name, and a random generation ID.
\<close>

type_synonym errors = "ErrorContext list"

section \<open>Errors and addresses\<close>

text \<open>\<open>yaml::BuilderBase::chk\<close> with \<open>consume\<close>, and the functions of \<open>ConfigUtils.hpp\<close>.\<close>

definition chk :: "(ErrorContext, 'a) outcome \<Rightarrow> errors \<Rightarrow> errors" where
  "chk r es = (case r of Inl e \<Rightarrow> es @ [e] | Inr _ \<Rightarrow> es)"

definition chkErrors :: "(errors, 'a) outcome \<Rightarrow> errors \<Rightarrow> errors" where
  "chkErrors r es = (case r of Inl ds \<Rightarrow> es @ ds | Inr _ \<Rightarrow> es)"

definition chkExtraneous :: "'n YAML \<Rightarrow> 'n MappingContext \<Rightarrow> errors \<Rightarrow> errors" where
  "chkExtraneous Y mc es = es @ extraneous Y mc"

datatype JPSourceType = JP_RP | JP_RptPruned | JP_SptJoined

definition sourceTypeText :: "JPSourceType \<Rightarrow> string" where
  "sourceTypeText t =
     (case t of JP_RP \<Rightarrow> ''RP'' | JP_RptPruned \<Rightarrow> ''RPT-pruned source'' | JP_SptJoined \<Rightarrow> ''SPT-joined source'')"

datatype UCAddrType = UC_RP | UC_Source | UC_Neighbor

definition ucAddrTypeText :: "UCAddrType \<Rightarrow> string" where
  "ucAddrTypeText t = (case t of UC_RP \<Rightarrow> ''RP'' | UC_Source \<Rightarrow> ''source'' | UC_Neighbor \<Rightarrow> ''neighbor'')"

record JPSourceInfo =
  jsi_type :: JPSourceType
  jsi_line :: int

definition ucAddr :: "string \<Rightarrow> UCAddrType \<Rightarrow> (string, IPv4Address) outcome" where
  "ucAddr s typ =
     (case parseIPv4Address s of
        None \<Rightarrow> Fail (''invalid IPv4 '' @ ucAddrTypeText typ @ '' address '' @ quoted s)
      | Some sa \<Rightarrow>
          let invalid = ''invalid IPv4 '' @ ucAddrTypeText typ @ '' address '' @ addr_string sa in
          if isDefault sa \<or> isLocalBroadcast sa then Fail invalid
          else if isLoopback sa then Fail (invalid @ '': address may not be loopback'')
          else if isMcast sa then Fail (invalid @ '': address may not be multicast'')
          else Ok sa)"

definition grpAddr :: "string \<Rightarrow> (string, IPv4Address) outcome" where
  "grpAddr g =
     (case parseIPv4Address g of
        None \<Rightarrow> Fail (''invalid multicast IPv4 group address '' @ quoted g)
      | Some ga \<Rightarrow>
          if \<not> isMcast ga
          then Fail (''invalid multicast IPv4 group address '' @ addr_string ga @ '': not multicast'')
          else Ok ga)"

section \<open>A group\<close>

text \<open>
  The C++ concept \<open>GroupConfigBuilder\<close>: what a class has to add to \<open>GroupConfigBuilderBase\<close>.  A builder
  is the state of the base with that of the class.
\<close>

record 'b GroupConfigBuilder =
  gcb_new :: 'b
  gcb_acceptRP :: "IPv4Address \<Rightarrow> 'b \<Rightarrow> 'b"
  gcb_acceptPruneSGrpt :: "IPv4Address \<Rightarrow> 'b \<Rightarrow> 'b"
  gcb_acceptJoinSG :: "IPv4Address \<Rightarrow> 'b \<Rightarrow> 'b"
  gcb_build :: "IPv4Address \<Rightarrow> 'b \<Rightarrow> GroupConfig"

record 'b GroupBuilder =
  gb_group :: IPv4Address
  gb_line :: int
  gb_rptPruned :: nat
  gb_sources :: "(IPv4Address \<times> JPSourceInfo) list"
  gb_impl :: 'b

definition newGroupBuilder :: "'b GroupConfigBuilder \<Rightarrow> IPv4Address \<Rightarrow> int \<Rightarrow> 'b GroupBuilder" where
  "newGroupBuilder G ga line =
     \<lparr>gb_group = ga, gb_line = line, gb_rptPruned = 0, gb_sources = [], gb_impl = gcb_new G\<rparr>"

definition chkSrc ::
    "'n YAML \<Rightarrow> 'n NodeContext \<Rightarrow> IPv4Address \<Rightarrow> JPSourceType \<Rightarrow> 'b GroupBuilder \<times> errors \<Rightarrow>
     bool \<times> 'b GroupBuilder \<times> errors" where
  "chkSrc Y nctx src jpst s =
     (case s of (b, es) \<Rightarrow>
        case map_of (gb_sources b) src of
          None \<Rightarrow>
            (True, b\<lparr>gb_sources := gb_sources b @ [(src, \<lparr>jsi_type = jpst, jsi_line = nc_line Y nctx\<rparr>)]\<rparr>, es)
        | Some eJpsi \<Rightarrow>
            (False, b, es @ [nc_error Y nctx
               (''duplicate '' @ addr_string src @ '' '' @ sourceTypeText jpst @ '': declared as '' @
                sourceTypeText (jsi_type eJpsi) @ '' on line '' @ int_text (jsi_line eJpsi))]))"

text \<open>The address of a scalar; its error is turned into one of the scalar's context.\<close>

definition scalarAddr ::
    "'n YAML \<Rightarrow> UCAddrType \<Rightarrow> 'n ScalarContext \<Rightarrow> (ErrorContext, IPv4Address) outcome" where
  "scalarAddr Y typ sc = result_mapError (nc_error Y sc) (ucAddr (scalarValue Y sc) typ)"

text \<open>The field \<open>RP\<close> of \<open>loadRPTConfig\<close>, a round of its loop over the field \<open>Prune\<close>, and the function.\<close>

definition loadRP ::
    "'n YAML \<Rightarrow> 'b GroupConfigBuilder \<Rightarrow> (ErrorContext, 'n ScalarContext) outcome \<Rightarrow>
     'b GroupBuilder \<times> errors \<Rightarrow> 'b GroupBuilder \<times> errors" where
  "loadRP Y G rRP s =
     (case s of (b, es) \<Rightarrow>
        let es = chk rRP es in
        case rRP of
          Inl _ \<Rightarrow> (b, es)
        | Inr sc \<Rightarrow>
            let rRPA = scalarAddr Y UC_RP sc; es = chk rRPA es in
            case rRPA of
              Inl _ \<Rightarrow> (b, es)
            | Inr a \<Rightarrow>
                (case chkSrc Y sc a JP_RP (b, es) of (ok, b, es) \<Rightarrow>
                   (if ok then b\<lparr>gb_impl := gcb_acceptRP G a (gb_impl b)\<rparr> else b, es)))"

definition loadPrune ::
    "'n YAML \<Rightarrow> 'b GroupConfigBuilder \<Rightarrow> 'n ValueContext \<Rightarrow> 'b GroupBuilder \<times> errors \<Rightarrow>
     'b GroupBuilder \<times> errors" where
  "loadPrune Y G vCtx s =
     (case s of (b, es) \<Rightarrow>
        let rSrc = getScalar Y ''IPv4 source address'' vCtx; es = chk rSrc es in
        case rSrc of
          Inl _ \<Rightarrow> (b, es)
        | Inr sc \<Rightarrow>
            let rSrcA = scalarAddr Y UC_Source sc; es = chk rSrcA es in
            case rSrcA of
              Inl _ \<Rightarrow> (b, es)
            | Inr src \<Rightarrow>
                (case chkSrc Y sc src JP_RptPruned (b, es) of (ok, b, es) \<Rightarrow>
                   if \<not> ok then (b, es)
                   else if MaxPruneSGrptLen \<le> gb_rptPruned b then
                     (b, es @ [nc_error Y sc
                        (''unable to add source '' @ addr_string src @ '' to the RPT-prune list for group '' @
                         addr_string (gb_group b) @ '' as it exceeds the maximum number of entries '' @
                         dec_string (gb_rptPruned b))])
                   else
                     (b\<lparr>gb_rptPruned := gb_rptPruned b + 1, gb_impl := gcb_acceptPruneSGrpt G src (gb_impl b)\<rparr>,
                      es)))"

definition loadRPTConfig ::
    "'n YAML \<Rightarrow> 'b GroupConfigBuilder \<Rightarrow> 'n ValueContext \<Rightarrow> 'b GroupBuilder \<times> errors \<Rightarrow>
     'b GroupBuilder \<times> errors" where
  "loadRPTConfig Y G rptCtx s =
     (case s of (b, es) \<Rightarrow>
        let rRptCfg = getMapping Y ''IPv4 RPT config'' rptCtx; es = chk rRptCfg es in
        case rRptCfg of
          Inl _ \<Rightarrow> (b, es)
        | Inr mc \<Rightarrow>
            (case requiredField Y ''RP'' mc of (rRP, mc) \<Rightarrow>
             case loadRP Y G (result_flatMap (getScalar Y ''IPv4 RP address'') rRP) (b, es) of (b, es) \<Rightarrow>
             case optionalField Y ''Prune'' mc of (oPrune, mc) \<Rightarrow>
             case (case oPrune of
                     None \<Rightarrow> (b, es)
                   | Some pCtx \<Rightarrow>
                       let rList = getSequence Y ''RPT-pruned sources'' pCtx; es = chk rList es in
                       case rList of
                         Inl _ \<Rightarrow> (b, es)
                       | Inr sq \<Rightarrow> fold (loadPrune Y G) (elements Y sq) (b, es)) of (b, es) \<Rightarrow>
             (b, chkExtraneous Y mc es)))"

text \<open>A round of the loop of \<open>loadSPTConfig\<close>, and the function.\<close>

definition loadJoin ::
    "'n YAML \<Rightarrow> 'b GroupConfigBuilder \<Rightarrow> 'n ValueContext \<Rightarrow> 'b GroupBuilder \<times> errors \<Rightarrow>
     'b GroupBuilder \<times> errors" where
  "loadJoin Y G vCtx s =
     (case s of (b, es) \<Rightarrow>
        let rSrc = getScalar Y ''IPv4 source address'' vCtx; es = chk rSrc es in
        case rSrc of
          Inl _ \<Rightarrow> (b, es)
        | Inr sc \<Rightarrow>
            let rSrcA = scalarAddr Y UC_Source sc; es = chk rSrcA es in
            case rSrcA of
              Inl _ \<Rightarrow> (b, es)
            | Inr src \<Rightarrow>
                (case chkSrc Y sc src JP_SptJoined (b, es) of (ok, b, es) \<Rightarrow>
                   if \<not> ok then (b, es)
                   else (b\<lparr>gb_impl := gcb_acceptJoinSG G src (gb_impl b)\<rparr>, es)))"

definition loadSPTConfig ::
    "'n YAML \<Rightarrow> 'b GroupConfigBuilder \<Rightarrow> 'n ValueContext \<Rightarrow> 'b GroupBuilder \<times> errors \<Rightarrow>
     'b GroupBuilder \<times> errors" where
  "loadSPTConfig Y G sptCtx s =
     (case s of (b, es) \<Rightarrow>
        let rSptCfg = getSequence Y ''IPv4 SPT config'' sptCtx; es = chk rSptCfg es in
        case rSptCfg of
          Inl _ \<Rightarrow> (b, es)
        | Inr sq \<Rightarrow> fold (loadJoin Y G) (elements Y sq) (b, es))"

definition loadGroupConfig ::
    "'n YAML \<Rightarrow> 'b GroupConfigBuilder \<Rightarrow> 'n ValueContext \<Rightarrow> 'b GroupBuilder \<times> errors \<Rightarrow>
     'b GroupBuilder \<times> errors" where
  "loadGroupConfig Y G grpCtx s =
     (case s of (b, es) \<Rightarrow>
        let rGrpCfg = getMapping Y (''IPv4 group '' @ addr_string (gb_group b) @ '' config'') grpCtx;
            es = chk rGrpCfg es in
        case rGrpCfg of
          Inl _ \<Rightarrow> (b, es)
        | Inr mc \<Rightarrow>
            (case optionalField Y ''Join*'' mc of (oRptCfg, mc) \<Rightarrow>
             case (case oRptCfg of None \<Rightarrow> (b, es) | Some v \<Rightarrow> loadRPTConfig Y G v (b, es)) of (b, es) \<Rightarrow>
             case optionalField Y ''Join'' mc of (oSptCfg, mc) \<Rightarrow>
             case (case oSptCfg of None \<Rightarrow> (b, es) | Some v \<Rightarrow> loadSPTConfig Y G v (b, es)) of (b, es) \<Rightarrow>
             let es = chkExtraneous Y mc es in
             if oRptCfg = None \<and> oSptCfg = None then
               (b, es @ [nc_error Y grpCtx
                  (''IPv4 group '' @ addr_string (gb_group b) @ '' config may not be empty'')])
             else (b, es)))"

section \<open>All groups\<close>

record 'b MulticastConfigBuilder =
  mb_groups :: "IPv4Address list"
  mb_map :: "(IPv4Address \<times> 'b GroupBuilder) list"

text \<open>A round of the loop of \<open>loadMulticastConfig\<close>, and the function.\<close>

definition loadGroup ::
    "'n YAML \<Rightarrow> 'b GroupConfigBuilder \<Rightarrow> 'n ValueContext \<times> 'n ValueContext \<Rightarrow>
     'b MulticastConfigBuilder \<times> errors \<Rightarrow> 'b MulticastConfigBuilder \<times> errors" where
  "loadGroup Y G ii s =
     (case s of (mb, es) \<Rightarrow>
        let rGrp = getScalar Y [] (fst ii); es = chk rGrp es in
        case rGrp of
          Inl _ \<Rightarrow> (mb, es)
        | Inr sc \<Rightarrow>
            let rGrpA = result_mapError (nc_error Y sc) (grpAddr (scalarValue Y sc)); es = chk rGrpA es in
            case rGrpA of
              Inl _ \<Rightarrow> (mb, es)
            | Inr ga \<Rightarrow>
                (case map_of (mb_map mb) ga of
                   None \<Rightarrow>
                     (case loadGroupConfig Y G (snd ii) (newGroupBuilder G ga (nc_line Y sc), es) of (b, es) \<Rightarrow>
                        (\<lparr>mb_groups = mb_groups mb @ [ga], mb_map = mb_map mb @ [(ga, b)]\<rparr>, es))
                 | Some eBld \<Rightarrow>
                     (mb, es @ [nc_error Y sc
                        (''duplicate group '' @ addr_string ga @ '', previously declared on line '' @
                         int_text (gb_line eBld))])))"

definition loadMulticastConfig ::
    "'n YAML \<Rightarrow> 'b GroupConfigBuilder \<Rightarrow> 'n ValueContext \<Rightarrow>
     'b MulticastConfigBuilder \<times> errors \<Rightarrow> 'b MulticastConfigBuilder \<times> errors" where
  "loadMulticastConfig Y G jpCfgCtx s =
     (case s of (mb, es) \<Rightarrow>
        let rJPCfg = getMapping Y ''IPv4 multicast config'' jpCfgCtx; es = chk rJPCfg es in
        case rJPCfg of
          Inl _ \<Rightarrow> (mb, es)
        | Inr mc \<Rightarrow>
            if 0 < mc_size Y mc then fold (loadGroup Y G) (items Y mc) (mb, es)
            else (mb, es @ [nc_error Y jpCfgCtx ''IPv4 J/P config contains no groups'']))"

fun buildGroups ::
    "'b GroupConfigBuilder \<Rightarrow> (IPv4Address \<times> 'b GroupBuilder) list \<Rightarrow> IPv4Address list \<Rightarrow>
     (string, GroupConfig list) outcome" where
  "buildGroups G m [] = Ok []"
| "buildGroups G m (ga # gas) =
     (case map_of m ga of
        Some b \<Rightarrow>
          (case buildGroups G m gas of
             Inl e \<Rightarrow> Fail e
           | Inr gcs \<Rightarrow> Ok (gcb_build G ga (gb_impl b) # gcs))
      | None \<Rightarrow> Fail ''indexed group not in map'')"

definition buildMulticastConfig ::
    "'b GroupConfigBuilder \<Rightarrow> 'b MulticastConfigBuilder \<Rightarrow> (string, JPConfig) outcome" where
  "buildMulticastConfig G mb =
     (case buildGroups G (mb_map mb) (mb_groups mb) of
        Inl e \<Rightarrow> Fail e
      | Inr gcs \<Rightarrow> Ok \<lparr>jp_groups = gcs\<rparr>)"

section \<open>The Join/Prune configuration\<close>

text \<open>\<open>JPConfigLoader.hpp\<close>; a \<open>std::set\<close> is the ascending list of its elements.\<close>

record JPGroupState =
  jb_rp :: "IPv4Address option"
  jb_prunes :: "IPv4Address list"
  jb_joins :: "IPv4Address list"

definition jpAcceptRP :: "IPv4Address \<Rightarrow> JPGroupState \<Rightarrow> JPGroupState" where
  "jpAcceptRP a b = b\<lparr>jb_rp := Some a\<rparr>"

definition jpAcceptPruneSGrpt :: "IPv4Address \<Rightarrow> JPGroupState \<Rightarrow> JPGroupState" where
  "jpAcceptPruneSGrpt sa b = b\<lparr>jb_prunes := List.insort_insert sa (jb_prunes b)\<rparr>"

definition jpAcceptJoinSG :: "IPv4Address \<Rightarrow> JPGroupState \<Rightarrow> JPGroupState" where
  "jpAcceptJoinSG sa b = b\<lparr>jb_joins := List.insort_insert sa (jb_joins b)\<rparr>"

definition jpBuild :: "IPv4Address \<Rightarrow> JPGroupState \<Rightarrow> GroupConfig" where
  "jpBuild ga b =
     \<lparr>gc_group = ga,
      gc_rpt = (case jb_rp b of None \<Rightarrow> None | Some r \<Rightarrow> Some \<lparr>rp = r, rpt_prunes = jb_prunes b\<rparr>),
      gc_spt = jb_joins b\<rparr>"

definition jpGroupConfigBuilder :: "JPGroupState GroupConfigBuilder" where
  "jpGroupConfigBuilder =
     \<lparr>gcb_new = \<lparr>jb_rp = None, jb_prunes = [], jb_joins = []\<rparr>, gcb_acceptRP = jpAcceptRP,
      gcb_acceptPruneSGrpt = jpAcceptPruneSGrpt, gcb_acceptJoinSG = jpAcceptJoinSG, gcb_build = jpBuild\<rparr>"

text \<open>The outer failure is the \<open>std::logic_error\<close> of \<open>build()\<close>.\<close>

definition loadJPConfig :: "'n YAML \<Rightarrow> 'n ValueContext \<Rightarrow> (string, (errors, JPConfig) outcome) outcome" where
  "loadJPConfig Y jpCfgCtx =
     (case loadMulticastConfig Y jpGroupConfigBuilder jpCfgCtx (\<lparr>mb_groups = [], mb_map = []\<rparr>, []) of (mb, errors) \<Rightarrow>
        if errors \<noteq> [] then Ok (Fail errors)
        else result_map Inr (buildMulticastConfig jpGroupConfigBuilder mb))"

section \<open>PIM-SM\<close>

text \<open>\<open>PIMSMConfigLoader.hpp\<close>; \<open>intfIndex_\<close> is not initialised, and reading it then is the value \<open>None\<close>.\<close>

record PIMSMConfigLoader =
  pl_neighbor :: IPv4Address
  pl_intfIndex :: "u32 option"
  pl_intfAddr :: IPv4Address
  pl_intfName :: string

definition newPIMSMConfigLoader :: PIMSMConfigLoader where
  "newPIMSMConfigLoader =
     \<lparr>pl_neighbor = IPv4Address 0, pl_intfIndex = None, pl_intfAddr = IPv4Address 0, pl_intfName = []\<rparr>"

definition loadNeighbor ::
    "'n YAML \<Rightarrow> (ErrorContext, 'n ScalarContext) outcome \<Rightarrow> PIMSMConfigLoader \<times> errors \<Rightarrow>
     PIMSMConfigLoader \<times> errors" where
  "loadNeighbor Y rNei s =
     (case s of (pl, es) \<Rightarrow>
        let es = chk rNei es in
        case rNei of
          Inl _ \<Rightarrow> (pl, es)
        | Inr sc \<Rightarrow>
            let rNeiA = scalarAddr Y UC_Neighbor sc; es = chk rNeiA es in
            case rNeiA of Inl _ \<Rightarrow> (pl, es) | Inr a \<Rightarrow> (pl\<lparr>pl_neighbor := a\<rparr>, es))"

definition loadInterface ::
    "'n YAML \<Rightarrow> IntfTable \<Rightarrow> (ErrorContext, 'n ScalarContext) outcome \<Rightarrow> PIMSMConfigLoader \<times> errors \<Rightarrow>
     PIMSMConfigLoader \<times> errors" where
  "loadInterface Y intfTable rIntf s =
     (case s of (pl, es) \<Rightarrow>
        let es = chk rIntf es in
        case rIntf of
          Inl _ \<Rightarrow> (pl, es)
        | Inr sc \<Rightarrow>
            (case byName intfTable (scalarValue Y sc) of
               None \<Rightarrow>
                 (pl, es @ [nc_error Y sc
                    (''unknown interface '' @ quoted (scalarValue Y sc) @ [CHR 0x0A, CHR 0x0A] @
                     ''  available interfaces:'' @ [CHR 0x0A] @ formatIntfTable intfTable 2 False)])
             | Some info \<Rightarrow>
                 (case ipv4addr info of
                    None \<Rightarrow>
                      (pl, es @ [nc_error Y sc
                         (''interface '' @ scalarValue Y sc @ '' has no IPv4 address'' @ [CHR 0x0A] @
                          ''  available interfaces:'' @ [CHR 0x0A] @ formatIntfTable intfTable 2 False)])
                  | Some a \<Rightarrow>
                      (pl\<lparr>pl_intfIndex := Some (ifindex info), pl_intfAddr := a, pl_intfName := intf_name info\<rparr>,
                       es))))"

definition runPIMSMConfigLoader ::
    "'n YAML \<Rightarrow> IntfTable \<Rightarrow> 'n ValueContext \<Rightarrow> PIMSMConfigLoader \<times> errors \<Rightarrow> PIMSMConfigLoader \<times> errors" where
  "runPIMSMConfigLoader Y intfTable vCtx s =
     (case s of (pl, es) \<Rightarrow>
        let rCfg = getMapping Y ''PIM-SM config'' vCtx; es = chk rCfg es in
        case rCfg of
          Inl _ \<Rightarrow> (pl, es)
        | Inr mc \<Rightarrow>
            (case requiredField Y ''neighbor'' mc of (rNei, mc) \<Rightarrow>
             case loadNeighbor Y (result_flatMap (getScalar Y ''neighbor IPv4 address'') rNei) (pl, es) of (pl, es) \<Rightarrow>
             case requiredField Y ''interface'' mc of (rIntf, mc) \<Rightarrow>
             case loadInterface Y intfTable (result_flatMap (getScalar Y ''PIM SM IPv4 interface'') rIntf) (pl, es)
               of (pl, es) \<Rightarrow>
             (pl, chkExtraneous Y mc es)))"

definition buildPIMSMConfig :: "u32 \<Rightarrow> PIMSMConfigLoader \<Rightarrow> PIMSMConfig option" where
  "buildPIMSMConfig gid pl =
     (case pl_intfIndex pl of
        None \<Rightarrow> None
      | Some i \<Rightarrow>
          Some \<lparr>neighbor = pl_neighbor pl, intfIndex = i, intfAddr = pl_intfAddr pl, intfName = pl_intfName pl,
            helloPeriod = 30, helloHoldtime = 105, jpPeriod = 60, jpHoldtime = 210, drPriority = 0,
            generationId = gid\<rparr>)"

definition loadPIMSMConfig ::
    "'n YAML \<Rightarrow> u32 \<Rightarrow> IntfTable \<Rightarrow> 'n ValueContext \<Rightarrow> (errors, PIMSMConfig) outcome option" where
  "loadPIMSMConfig Y gid intfTable pimsmCfgCtx =
     (case runPIMSMConfigLoader Y intfTable pimsmCfgCtx (newPIMSMConfigLoader, []) of (pl, errors) \<Rightarrow>
        if errors \<noteq> [] then Some (Fail errors)
        else (case buildPIMSMConfig gid pl of None \<Rightarrow> None | Some c \<Rightarrow> Some (Ok c)))"

section \<open>Logging\<close>

text \<open>\<open>LoggingConfigLoader.hpp\<close>; the file system and the text of the time are those of the host.\<close>

record Host =
  h_exists :: "string \<Rightarrow> bool"
  h_isDirectory :: "string \<Rightarrow> bool"
  h_logTime :: string
  h_generationId :: u32

record LoggingConfigLoader =
  ll_level :: Level
  ll_dir :: "string option"

definition levelOf :: "string \<Rightarrow> Level option" where
  "levelOf ln =
     (if ciAsciiStrEq ln ''None'' then Some LevelNone
      else if ciAsciiStrEq ln ''Critical'' then Some LevelCritical
      else if ciAsciiStrEq ln ''Error'' then Some LevelError
      else if ciAsciiStrEq ln ''Warning'' then Some LevelWarning
      else if ciAsciiStrEq ln ''Info'' then Some LevelInfo
      else if ciAsciiStrEq ln ''Debug'' then Some LevelDebug
      else None)"

definition getLevel ::
    "'n YAML \<Rightarrow> 'n ValueContext option \<Rightarrow> LoggingConfigLoader \<times> errors \<Rightarrow> LoggingConfigLoader \<times> errors" where
  "getLevel Y oLvl s =
     (case s of (ll, es) \<Rightarrow>
        case oLvl of
          None \<Rightarrow> (ll, es)
        | Some v \<Rightarrow>
            let rLvl = getScalar Y ''Logging Level Name'' v; es = chk rLvl es in
            case rLvl of
              Inl _ \<Rightarrow> (ll, es)
            | Inr sc \<Rightarrow>
                (case levelOf (scalarValue Y sc) of
                   Some l \<Rightarrow> (ll\<lparr>ll_level := l\<rparr>, es)
                 | None \<Rightarrow> (ll, es @ [nc_error Y sc (''invalid logging level name '' @ quoted (scalarValue Y sc))])))"

definition getDir ::
    "'n YAML \<Rightarrow> Host \<Rightarrow> 'n ValueContext option \<Rightarrow> LoggingConfigLoader \<times> errors \<Rightarrow> LoggingConfigLoader \<times> errors" where
  "getDir Y H oDir s =
     (case s of (ll, es) \<Rightarrow>
        case oDir of
          None \<Rightarrow> (ll, es)
        | Some v \<Rightarrow>
            let rDir = getScalar Y ''Logging Directory'' v; es = chk rDir es in
            case rDir of
              Inl _ \<Rightarrow> (ll, es)
            | Inr sc \<Rightarrow>
                let dn = scalarValue Y sc in
                if \<not> h_exists H dn then (ll, es @ [nc_error Y sc (''directory '' @ quoted dn @ '' does not exist'')])
                else if \<not> h_isDirectory H dn then (ll, es @ [nc_error Y sc (quoted dn @ '' is not a directory'')])
                else (ll\<lparr>ll_dir := Some dn\<rparr>, es))"

definition runLoggingConfigLoader ::
    "'n YAML \<Rightarrow> Host \<Rightarrow> 'n ValueContext option \<Rightarrow> LoggingConfigLoader \<times> errors \<Rightarrow> LoggingConfigLoader \<times> errors" where
  "runLoggingConfigLoader Y H ovCtx s =
     (case s of (ll, es) \<Rightarrow>
        case ovCtx of
          None \<Rightarrow> (ll, es)
        | Some v \<Rightarrow>
            let rCfg = getMapping Y ''Logging Config'' v; es = chk rCfg es in
            case rCfg of
              Inl _ \<Rightarrow> (ll, es)
            | Inr mc \<Rightarrow>
                (case optionalField Y ''level'' mc of (oLvl, mc) \<Rightarrow>
                 case getLevel Y oLvl (ll, es) of (ll, es) \<Rightarrow>
                 case optionalField Y ''dir'' mc of (oDir, mc) \<Rightarrow>
                 case getDir Y H oDir (ll, es) of (ll, es) \<Rightarrow>
                 (ll, chkExtraneous Y mc es)))"

text \<open>\<open>operator/\<close> of \<open>std::filesystem::path\<close> with a relative path.\<close>

definition path_append :: "string \<Rightarrow> string \<Rightarrow> string" where
  "path_append dp fn = (if dp = [] \<or> last dp = CHR ''/'' then dp @ fn else dp @ ''/'' @ fn)"

definition buildLoggingConfig :: "Host \<Rightarrow> LoggingConfigLoader \<Rightarrow> LoggingConfig" where
  "buildLoggingConfig H ll =
     \<lparr>level = ll_level ll,
      logFileName = map_option (\<lambda>d. path_append d (''pimc-'' @ h_logTime H @ ''.log'')) (ll_dir ll)\<rparr>"

definition loadLoggingConfig ::
    "'n YAML \<Rightarrow> Host \<Rightarrow> 'n ValueContext option \<Rightarrow> (errors, LoggingConfig) outcome" where
  "loadLoggingConfig Y H ovCtx =
     (case runLoggingConfigLoader Y H ovCtx (\<lparr>ll_level = LevelInfo, ll_dir = None\<rparr>, []) of (ll, errors) \<Rightarrow>
        if errors \<noteq> [] then Fail errors else Ok (buildLoggingConfig H ll))"

section \<open>The whole configuration\<close>

text \<open>
  \<open>PIMCConfigLoader.hpp\<close>.  A run has four outcomes: the configuration, the errors of the document, an
  exception \<open>std::logic_error\<close>, or \<open>None\<close>, where a packer does not return, an unset optional is
  dereferenced or a member is read that was never set.
\<close>

datatype load_exception =
  NotLoaded  \<comment> \<open>PIM SM config or J/P config is not loaded\<close>
| GroupNotInMap string
| PackFailed pack_error
| SanityFailed "sanity_error list"
| InverseSanityFailed "sanity_error list"

record PIMCConfigLoader =
  cl_logging :: "LoggingConfig option"
  cl_pimsm :: "PIMSMConfig option"
  cl_jp :: "JPConfig option"

definition loadPIM ::
    "'n YAML \<Rightarrow> Host \<Rightarrow> IntfTable \<Rightarrow> (ErrorContext, 'n ValueContext) outcome \<Rightarrow> PIMCConfigLoader \<times> errors \<Rightarrow>
     (load_exception, PIMCConfigLoader \<times> errors) outcome option" where
  "loadPIM Y H intfTable rCtx s =
     (case s of (cl, es) \<Rightarrow>
        let es = chk rCtx es in
        case rCtx of
          Inl _ \<Rightarrow> Some (Ok (cl, es))
        | Inr v \<Rightarrow>
            (case loadPIMSMConfig Y (h_generationId H) intfTable v of
               None \<Rightarrow> None
             | Some r \<Rightarrow>
                 Some (Ok (case r of Inl _ \<Rightarrow> cl | Inr c \<Rightarrow> cl\<lparr>cl_pimsm := Some c\<rparr>, chkErrors r es))))"

definition loadMulticast ::
    "'n YAML \<Rightarrow> (ErrorContext, 'n ValueContext) outcome \<Rightarrow> PIMCConfigLoader \<times> errors \<Rightarrow>
     (load_exception, PIMCConfigLoader \<times> errors) outcome option" where
  "loadMulticast Y rCtx s =
     (case s of (cl, es) \<Rightarrow>
        let es = chk rCtx es in
        case rCtx of
          Inl _ \<Rightarrow> Some (Ok (cl, es))
        | Inr v \<Rightarrow>
            (case loadJPConfig Y v of
               Inl e \<Rightarrow> Some (Fail (GroupNotInMap e))
             | Inr r \<Rightarrow>
                 Some (Ok (case r of Inl _ \<Rightarrow> cl | Inr c \<Rightarrow> cl\<lparr>cl_jp := Some c\<rparr>, chkErrors r es))))"

definition runPIMCConfigLoader ::
    "'n YAML \<Rightarrow> Host \<Rightarrow> IntfTable \<Rightarrow> 'n ValueContext \<Rightarrow> PIMCConfigLoader \<times> errors \<Rightarrow>
     (load_exception, PIMCConfigLoader \<times> errors) outcome option" where
  "runPIMCConfigLoader Y H intfTable vCtx s =
     (case s of (cl, es) \<Rightarrow>
        let rCfg = getMapping Y [] vCtx; es = chk rCfg es in
        case rCfg of
          Inl _ \<Rightarrow> Some (Ok (cl, es))
        | Inr mc \<Rightarrow>
            (case optionalField Y ''logging'' mc of (oLog, mc) \<Rightarrow>
             let rLog = loadLoggingConfig Y H oLog; es = chkErrors rLog es;
                 cl = (case rLog of Inl _ \<Rightarrow> cl | Inr c \<Rightarrow> cl\<lparr>cl_logging := Some c\<rparr>) in
             case requiredField Y ''pim'' mc of (rPim, mc) \<Rightarrow>
             run_then (loadPIM Y H intfTable rPim (cl, es)) (\<lambda>s.
             case requiredField Y ''multicast'' mc of (rJP, mc) \<Rightarrow>
             run_then (loadMulticast Y rJP s) (\<lambda>s.
             case s of (cl, es) \<Rightarrow> Some (Ok (cl, chkExtraneous Y mc es))))))"

definition buildPIMCConfig :: "PIMCConfigLoader \<Rightarrow> (load_exception, PIMCConfig) outcome option" where
  "buildPIMCConfig cl =
     (case (cl_pimsm cl, cl_jp cl) of
        (Some pimsm, Some jp) \<Rightarrow>
          run_then (map_option (result_mapError PackFailed) (pack jp)) (\<lambda>updates.
            case verifyUpdates jp updates of
              Inl errs \<Rightarrow> Some (Fail (SanityFailed errs))
            | Inr _ \<Rightarrow>
                run_then (map_option (result_mapError PackFailed) (inversePack jp)) (\<lambda>inverse.
                  case verifyInverseUpdates jp inverse of
                    Inl errs \<Rightarrow> Some (Fail (InverseSanityFailed errs))
                  | Inr _ \<Rightarrow>
                      (case cl_logging cl of
                         None \<Rightarrow> None
                       | Some logging \<Rightarrow>
                           Some (Ok \<lparr>loggingConfig = logging, pimsmConfig = pimsm, jpConfig = jp,
                             cfg_updates = updates, inverseUpdates = inverse\<rparr>))))
      | _ \<Rightarrow> Some (Fail NotLoaded))"

definition loadPIMCConfig ::
    "'n YAML \<Rightarrow> Host \<Rightarrow> IntfTable \<Rightarrow> 'n ValueContext \<Rightarrow>
     (load_exception, (errors, PIMCConfig) outcome) outcome option" where
  "loadPIMCConfig Y H intfTable cfgCtx =
     run_then (runPIMCConfigLoader Y H intfTable cfgCtx (\<lparr>cl_logging = None, cl_pimsm = None, cl_jp = None\<rparr>, []))
       (\<lambda>(cl, errors).
          if errors \<noteq> [] then Some (Ok (Fail errors))
          else map_option (result_map Inr) (buildPIMCConfig cl))"

end
