(* ===== verification/LoadedConfigs.thy ===== *)
theory LoadedConfigs
  imports ConfigLoaders
begin

text \<open>
  What the loaders accept: the configurations they build are well formed, every such configuration has
  documents that load to it, and what the packers and the sanity checks then make of it.
\<close>

section \<open>Loadable configurations\<close>

definition unicast :: "IPv4Address \<Rightarrow> bool" where
  "unicast a \<longleftrightarrow> \<not> isDefault a \<and> \<not> isLocalBroadcast a \<and> \<not> isLoopback a \<and> \<not> isMcast a"

text \<open>The addresses of a group: its RP, its RPT prunes and its SPT sources.\<close>

definition configAddrs :: "GroupConfig \<Rightarrow> IPv4Address list" where
  "configAddrs gc = (case gc_rpt gc of None \<Rightarrow> [] | Some r \<Rightarrow> rp r # rpt_prunes r) @ gc_spt gc"

definition loadableGroup :: "GroupConfig \<Rightarrow> bool" where
  "loadableGroup gc \<longleftrightarrow> isMcast (gc_group gc) \<and> (\<forall>a \<in> set (configAddrs gc). unicast a) \<and>
     distinct (configAddrs gc) \<and> sorted (gc_spt gc) \<and> prunes_bounded gc \<and>
     (case gc_rpt gc of None \<Rightarrow> True | Some r \<Rightarrow> sorted (rpt_prunes r))"

definition loadableConfig :: "JPConfig \<Rightarrow> bool" where
  "loadableConfig cfg \<longleftrightarrow> distinct (map gc_group (jp_groups cfg)) \<and> (\<forall>gc \<in> set (jp_groups cfg). loadableGroup gc)"

text \<open>A group of the document may be empty, by an empty list of sources.\<close>

definition emptyGroup :: "GroupConfig \<Rightarrow> bool" where
  "emptyGroup gc \<longleftrightarrow> gc_rpt gc = None \<and> gc_spt gc = []"

lemma loadable_wellFormedGroup: "loadableGroup gc \<Longrightarrow> wellFormedGroup gc \<longleftrightarrow> \<not> emptyGroup gc"
  by (cases "gc_rpt gc") (auto simp: wellFormedGroup_def loadableGroup_def emptyGroup_def configAddrs_def)

lemma loadable_wellFormed:
  assumes "loadableConfig cfg"
  shows "wellFormedConfig cfg \<longleftrightarrow> (\<forall>gc \<in> set (jp_groups cfg). \<not> emptyGroup gc)"
proof -
  have "prunes_bounded gc" if "loadableGroup gc" for gc using that by (simp add: loadableGroup_def)
  with assms show ?thesis
    by (auto simp: loadableConfig_def wellFormedConfig_def loadable_wellFormedGroup)
qed

lemma ucAddr_Ok: "ucAddr s t = Inr a \<longleftrightarrow> parseIPv4Address s = Some a \<and> unicast a"
  by (auto simp: ucAddr_def unicast_def Let_def split: option.splits)

lemma grpAddr_Ok: "grpAddr s = Inr a \<longleftrightarrow> parseIPv4Address s = Some a \<and> isMcast a"
  by (auto simp: grpAddr_def split: option.splits)

lemma mapError_Ok [simp]: "result_mapError f r = Inr a \<longleftrightarrow> r = Inr a"
  by (cases r) (simp_all add: result_mapError_def hasError_def)

lemma mapError_simps [simp]: "result_mapError f (Inr a) = Inr a" "result_mapError f (Inl e) = Inl (f e)"
  by (simp_all add: result_mapError_def hasError_def)

lemma scalarAddr_Ok:
  "scalarAddr Y t sc = Inr a \<longleftrightarrow> parseIPv4Address (yn_scalar Y (nc_node sc)) = Some a \<and> unicast a"
  by (simp add: scalarAddr_def ucAddr_Ok scalarValue_def)

lemma chk_simps [simp]: "chk (Inl e) es = es @ [e]" "chk (Inr a) es = es"
  by (simp_all add: chk_def)

lemma chkErrors_simps [simp]: "chkErrors (Inl ds) es = es @ ds" "chkErrors (Inr a) es = es"
  by (simp_all add: chkErrors_def)

section \<open>Loaders only add errors\<close>

text \<open>A step of a loader adds errors, and relates its state before and after.\<close>

definition loads :: "('s \<Rightarrow> 's \<Rightarrow> bool) \<Rightarrow> ('s \<times> errors \<Rightarrow> 's \<times> errors) \<Rightarrow> bool" where
  "loads R f \<longleftrightarrow> (\<forall>b es. \<exists>b' ds. f (b, es) = (b', es @ ds) \<and> R b b')"

lemma loadsE:
  assumes "loads R f" obtains b' ds where "f (b, es) = (b', es @ ds)" "R b b'"
  using assms unfolding loads_def by blast

lemma loads_fold:
  assumes "\<And>b. R b b" and "\<And>b b' b''. R b b' \<Longrightarrow> R b' b'' \<Longrightarrow> R b b''" and "\<And>x. loads R (f x)"
  shows "loads R (fold f xs)"
proof (induction xs)
  case Nil
  show ?case using assms(1) by (simp add: loads_def)
next
  case (Cons x xs)
  show ?case
    unfolding loads_def
  proof (intro allI)
    fix b es
    obtain b1 ds1 where 1: "f x (b, es) = (b1, es @ ds1)" "R b b1"
      by (rule loadsE [OF assms(3)])
    obtain b2 ds2 where 2: "fold f xs (b1, es @ ds1) = (b2, (es @ ds1) @ ds2)" "R b1 b2"
      by (rule loadsE [OF Cons.IH])
    have "R b b2" by (rule assms(2) [OF 1(2) 2(2)])
    then show "\<exists>b' ds. fold f (x # xs) (b, es) = (b', es @ ds) \<and> R b b'"
      using 1 2 by simp
  qed
qed

lemma extraneous_loads: "chkExtraneous Y mc es = es @ extraneous Y mc"
  by (simp add: chkExtraneous_def)

section \<open>The builder of a group\<close>

text \<open>What a builder has accepted: its RP, its RPT prunes and its SPT joins.\<close>

type_synonym groupView = "IPv4Address option \<times> IPv4Address set \<times> IPv4Address set"

text \<open>The contract of the concept \<open>GroupConfigBuilder\<close>.\<close>

locale group_config_builder =
  fixes G :: "'b GroupConfigBuilder"
    and ok :: "'b \<Rightarrow> bool"
    and view :: "'b \<Rightarrow> groupView"
  assumes new: "ok (gcb_new G)" "view (gcb_new G) = (None, {}, {})"
    and accept_inv: "ok b \<Longrightarrow> ok (gcb_acceptRP G a b)" "ok b \<Longrightarrow> ok (gcb_acceptPruneSGrpt G a b)"
      "ok b \<Longrightarrow> ok (gcb_acceptJoinSG G a b)"
    and accept_view: "ok b \<Longrightarrow> view b = (r, p, j) \<Longrightarrow> view (gcb_acceptRP G a b) = (Some a, p, j)"
      "ok b \<Longrightarrow> view b = (r, p, j) \<Longrightarrow> view (gcb_acceptPruneSGrpt G a b) = (r, insert a p, j)"
      "ok b \<Longrightarrow> view b = (r, p, j) \<Longrightarrow> view (gcb_acceptJoinSG G a b) = (r, p, insert a j)"
    and build: "ok b \<Longrightarrow> view b = (r, p, j) \<Longrightarrow> gcb_build G ga b =
      \<lparr>gc_group = ga, gc_rpt = map_option (\<lambda>r. \<lparr>rp = r, rpt_prunes = sorted_list_of_set p\<rparr>) r,
       gc_spt = sorted_list_of_set j\<rparr>"

text \<open>The invariant of the base: every accepted address is recorded, with its type.\<close>

definition srcType :: "'b GroupBuilder \<Rightarrow> IPv4Address \<Rightarrow> JPSourceType option" where
  "srcType b a = map_option jsi_type (map_of (gb_sources b) a)"

definition view_ok :: "(IPv4Address \<Rightarrow> JPSourceType option) \<Rightarrow> nat \<Rightarrow> groupView \<Rightarrow> bool" where
  "view_ok typ n v \<longleftrightarrow> (case v of (r, p, j) \<Rightarrow>
     (\<forall>a. typ a \<noteq> None \<longrightarrow> unicast a) \<and>
     (\<forall>a. r = Some a \<longrightarrow> typ a = Some JP_RP) \<and> (\<forall>a \<in> p. typ a = Some JP_RptPruned) \<and>
     (\<forall>a \<in> j. typ a = Some JP_SptJoined) \<and> finite p \<and> finite j \<and> card p = n \<and> n \<le> MaxPruneSGrptLen)"

definition gb_ok :: "('b \<Rightarrow> bool) \<Rightarrow> ('b \<Rightarrow> groupView) \<Rightarrow> 'b GroupBuilder \<Rightarrow> bool" where
  "gb_ok ok view b \<longleftrightarrow> ok (gb_impl b) \<and> view_ok (srcType b) (gb_rptPruned b) (view (gb_impl b))"

definition gb_keeps :: "('b \<Rightarrow> bool) \<Rightarrow> ('b \<Rightarrow> groupView) \<Rightarrow> 'b GroupBuilder \<Rightarrow> 'b GroupBuilder \<Rightarrow> bool" where
  "gb_keeps ok view b b' \<longleftrightarrow> gb_group b' = gb_group b \<and> (gb_ok ok view b \<longrightarrow> gb_ok ok view b')"

lemma gb_keeps_refl: "gb_keeps ok view b b"
  and gb_keeps_trans: "gb_keeps ok view b b' \<Longrightarrow> gb_keeps ok view b' b'' \<Longrightarrow> gb_keeps ok view b b''"
  by (simp_all add: gb_keeps_def)

lemma srcType_snoc:
  "map_of (gb_sources b) a = None \<Longrightarrow>
     srcType (b\<lparr>gb_sources := gb_sources b @ [(a, info)]\<rparr>) = (srcType b)(a \<mapsto> jsi_type info)"
  by (auto simp: srcType_def map_add_def split: option.splits)

lemma srcType_simps [simp]:
  "srcType (b\<lparr>gb_impl := x\<rparr>) = srcType b" "srcType (b\<lparr>gb_rptPruned := n\<rparr>) = srcType b"
  by (simp_all add: srcType_def fun_eq_iff)

lemma view_ok_new:
  assumes "view_ok typ n (r, p, j)" and "typ a = None" and "unicast a"
  shows "view_ok (typ(a \<mapsto> t)) n (r, p, j)"
    and "view_ok (typ(a \<mapsto> JP_RP)) n (Some a, p, j)"
    and "n < MaxPruneSGrptLen \<Longrightarrow> view_ok (typ(a \<mapsto> JP_RptPruned)) (Suc n) (r, insert a p, j)"
    and "view_ok (typ(a \<mapsto> JP_SptJoined)) n (r, p, insert a j)"
  using assms by (auto simp: view_ok_def card_insert_if)

definition addSource :: "IPv4Address \<Rightarrow> JPSourceInfo \<Rightarrow> 'b GroupBuilder \<Rightarrow> 'b GroupBuilder" where
  "addSource a info b = b\<lparr>gb_sources := gb_sources b @ [(a, info)]\<rparr>"

lemma chkSrc_cases:
  obtains info where "map_of (gb_sources b) a = None" "jsi_type info = t"
      "chkSrc Y sc a t (b, es) = (True, addSource a info b, es)"
  | e where "map_of (gb_sources b) a \<noteq> None" "chkSrc Y sc a t (b, es) = (False, b, es @ [e])"
proof (cases "map_of (gb_sources b) a")
  case None
  then show ?thesis
    using that(1) [of "\<lparr>jsi_type = t, jsi_line = nc_line Y sc\<rparr>"] by (simp add: chkSrc_def addSource_def)
qed (use that(2) in \<open>simp add: chkSrc_def\<close>)

lemma addSource_simps [simp]:
  "gb_impl (addSource a info b) = gb_impl b" "gb_group (addSource a info b) = gb_group b"
  "gb_rptPruned (addSource a info b) = gb_rptPruned b" "gb_line (addSource a info b) = gb_line b"
  "gb_sources (addSource a info b) = gb_sources b @ [(a, info)]"
  by (simp_all add: addSource_def)

text \<open>The builder of all groups: its list and its map have the same groups, and their builders are right.\<close>

definition mb_all :: "('b GroupBuilder \<Rightarrow> bool) \<Rightarrow> 'b MulticastConfigBuilder \<Rightarrow> bool" where
  "mb_all P mb \<longleftrightarrow> mb_groups mb = map fst (mb_map mb) \<and> distinct (map fst (mb_map mb)) \<and>
     (\<forall>(ga, b) \<in> set (mb_map mb). isMcast ga \<and> P b)"

context group_config_builder
begin

abbreviation "mb_ok \<equiv> mb_all (gb_ok ok view)"

abbreviation "keeps \<equiv> gb_keeps ok view"

lemma addSource_ok:
  assumes "gb_ok ok view b" and "map_of (gb_sources b) a = None" and "unicast a"
  shows "gb_ok ok view (addSource a info b)"
    and "jsi_type info = JP_RP \<Longrightarrow>
      gb_ok ok view (addSource a info b\<lparr>gb_impl := gcb_acceptRP G a (gb_impl b)\<rparr>)"
    and "jsi_type info = JP_RptPruned \<Longrightarrow> gb_rptPruned b < MaxPruneSGrptLen \<Longrightarrow>
      gb_ok ok view (addSource a info b\<lparr>gb_rptPruned := Suc (gb_rptPruned b),
        gb_impl := gcb_acceptPruneSGrpt G a (gb_impl b)\<rparr>)"
    and "jsi_type info = JP_SptJoined \<Longrightarrow>
      gb_ok ok view (addSource a info b\<lparr>gb_impl := gcb_acceptJoinSG G a (gb_impl b)\<rparr>)"
proof -
  obtain r p j where v: "view (gb_impl b) = (r, p, j)" by (cases "view (gb_impl b)")
  have b: "ok (gb_impl b)" "view_ok (srcType b) (gb_rptPruned b) (r, p, j)"
    using assms(1) by (simp_all add: gb_ok_def v)
  have types: "srcType (addSource a info b) = (srcType b)(a \<mapsto> jsi_type info)"
    using assms(2) by (simp add: addSource_def srcType_snoc)
  have fresh: "srcType b a = None" using assms(2) by (simp add: srcType_def)
  note new = view_ok_new [OF b(2) fresh assms(3)]
  show "gb_ok ok view (addSource a info b)"
    using new(1) b(1) by (simp add: gb_ok_def types v)
  show "gb_ok ok view (addSource a info b\<lparr>gb_impl := gcb_acceptRP G a (gb_impl b)\<rparr>)" if "jsi_type info = JP_RP"
    using new(2) b(1) that by (simp add: gb_ok_def types accept_inv accept_view(1) [OF b(1) v])
  show "gb_ok ok view (addSource a info b\<lparr>gb_rptPruned := Suc (gb_rptPruned b),
      gb_impl := gcb_acceptPruneSGrpt G a (gb_impl b)\<rparr>)"
    if "jsi_type info = JP_RptPruned" "gb_rptPruned b < MaxPruneSGrptLen"
    using new(3) b(1) that by (simp add: gb_ok_def types accept_inv accept_view(2) [OF b(1) v])
  show "gb_ok ok view (addSource a info b\<lparr>gb_impl := gcb_acceptJoinSG G a (gb_impl b)\<rparr>)"
    if "jsi_type info = JP_SptJoined"
    using new(4) b(1) that by (simp add: gb_ok_def types accept_inv accept_view(3) [OF b(1) v])
qed

lemma loadRP_loads: "loads keeps (loadRP Y G r)"
  unfolding loads_def
proof (intro allI)
  fix b es
  show "\<exists>b' ds. loadRP Y G r (b, es) = (b', es @ ds) \<and> keeps b b'"
  proof (cases r)
    case r: (Inr sc)
    show ?thesis
    proof (cases "scalarAddr Y UC_RP sc")
      case a: (Inr a)
      then have "unicast a" by (simp add: scalarAddr_Ok)
      then show ?thesis
        using r a addSource_ok(2) [of b a]
        by (cases rule: chkSrc_cases [of b a JP_RP Y sc es])
           (auto simp: loadRP_def gb_keeps_def Let_def)
    qed (simp add: loadRP_def r gb_keeps_refl Let_def)
  qed (simp add: loadRP_def gb_keeps_refl)
qed

lemma loadPrune_loads: "loads keeps (loadPrune Y G v)"
  unfolding loads_def
proof (intro allI)
  fix b es
  show "\<exists>b' ds. loadPrune Y G v (b, es) = (b', es @ ds) \<and> keeps b b'"
  proof (cases "getScalar Y ''IPv4 source address'' v")
    case r: (Inr sc)
    show ?thesis
    proof (cases "scalarAddr Y UC_Source sc")
      case a: (Inr a)
      then have "unicast a" by (simp add: scalarAddr_Ok)
      then show ?thesis
        using r a addSource_ok(1,3) [of b a]
        by (cases rule: chkSrc_cases [of b a JP_RptPruned Y sc es])
           (auto simp: loadPrune_def gb_keeps_def Let_def)
    qed (simp add: loadPrune_def r gb_keeps_refl Let_def)
  qed (simp add: loadPrune_def gb_keeps_refl)
qed

lemma loadJoin_loads: "loads keeps (loadJoin Y G v)"
  unfolding loads_def
proof (intro allI)
  fix b es
  show "\<exists>b' ds. loadJoin Y G v (b, es) = (b', es @ ds) \<and> keeps b b'"
  proof (cases "getScalar Y ''IPv4 source address'' v")
    case r: (Inr sc)
    show ?thesis
    proof (cases "scalarAddr Y UC_Source sc")
      case a: (Inr a)
      then have "unicast a" by (simp add: scalarAddr_Ok)
      then show ?thesis
        using r a addSource_ok(4) [of b a]
        by (cases rule: chkSrc_cases [of b a JP_SptJoined Y sc es])
           (auto simp: loadJoin_def gb_keeps_def Let_def)
    qed (simp add: loadJoin_def r gb_keeps_refl Let_def)
  qed (simp add: loadJoin_def gb_keeps_refl)
qed

lemma fold_loads: "(\<And>v. loads keeps (f v)) \<Longrightarrow> loads keeps (fold f vs)"
  by (rule loads_fold) (auto intro: gb_keeps_refl gb_keeps_trans)

lemma prunes_loads:
  "loads keeps (\<lambda>(b, es).
     case oP of
       None \<Rightarrow> (b, es)
     | Some v \<Rightarrow>
         let r = getSequence Y name v; es = chk r es in
         case r of Inl _ \<Rightarrow> (b, es) | Inr sq \<Rightarrow> fold (loadPrune Y G) (elements Y sq) (b, es))"
proof (cases oP)
  case (Some v)
  then show ?thesis
  proof (cases "getSequence Y name v")
    case (Inr sq)
    then show ?thesis
      using fold_loads [of "loadPrune Y G" "elements Y sq", OF loadPrune_loads] Some
      by (simp add: loads_def)
  qed (simp add: loads_def gb_keeps_refl)
qed (simp add: loads_def gb_keeps_refl)

lemma loadSPTConfig_loads: "loads keeps (loadSPTConfig Y G v)"
proof (cases "getSequence Y ''IPv4 SPT config'' v")
  case (Inr sq)
  then show ?thesis
    using fold_loads [of "loadJoin Y G" "elements Y sq", OF loadJoin_loads]
    by (simp add: loads_def loadSPTConfig_def)
qed (simp add: loads_def gb_keeps_refl loadSPTConfig_def)

lemma loadRPTConfig_loads: "loads keeps (loadRPTConfig Y G v)"
  unfolding loads_def
proof (intro allI)
  fix b es
  show "\<exists>b' ds. loadRPTConfig Y G v (b, es) = (b', es @ ds) \<and> keeps b b'"
  proof (cases "getMapping Y ''IPv4 RPT config'' v")
    case (Inr mc)
    obtain rRP mc1 where rp: "requiredField Y ''RP'' mc = (rRP, mc1)" by fastforce
    obtain oP mc2 where p: "optionalField Y ''Prune'' mc1 = (oP, mc2)" by fastforce
    obtain b1 ds1 where 1: "loadRP Y G (result_flatMap (getScalar Y ''IPv4 RP address'') rRP) (b, es) = (b1, es @ ds1)"
      "keeps b b1"
      by (rule loadsE [OF loadRP_loads])
    obtain b2 ds2 where 2: "(case oP of None \<Rightarrow> (b1, es @ ds1) | Some v \<Rightarrow>
        let r = getSequence Y ''RPT-pruned sources'' v; es = chk r (es @ ds1) in
        case r of Inl _ \<Rightarrow> (b1, es) | Inr sq \<Rightarrow> fold (loadPrune Y G) (elements Y sq) (b1, es)) = (b2, (es @ ds1) @ ds2)"
      "keeps b1 b2"
      by (rule loadsE [OF prunes_loads [of Y "''RPT-pruned sources''" oP], where b = b1 and es = "es @ ds1"]) simp
    have "keeps b b2" by (rule gb_keeps_trans [OF 1(2) 2(2)])
    then show ?thesis
      using Inr rp p 1(1) 2(1) by (simp add: loadRPTConfig_def extraneous_loads)
  qed (simp add: loadRPTConfig_def gb_keeps_refl)
qed

lemma field_loads:
  assumes "\<And>v. loads keeps (f v)"
  shows "loads keeps (\<lambda>(b, es). case ov of None \<Rightarrow> (b, es) | Some v \<Rightarrow> f v (b, es))"
  using assms by (cases ov) (simp_all add: loads_def gb_keeps_refl)

lemma loadGroupConfig_loads: "loads keeps (loadGroupConfig Y G v)"
  unfolding loads_def
proof (intro allI)
  fix b es
  show "\<exists>b' ds. loadGroupConfig Y G v (b, es) = (b', es @ ds) \<and> keeps b b'"
  proof (cases "getMapping Y (''IPv4 group '' @ addr_string (gb_group b) @ '' config'') v")
    case (Inr mc)
    obtain oR mc1 where r: "optionalField Y ''Join*'' mc = (oR, mc1)" by fastforce
    obtain oS mc2 where s: "optionalField Y ''Join'' mc1 = (oS, mc2)" by fastforce
    obtain b1 ds1 where 1: "(case oR of None \<Rightarrow> (b, es) | Some v \<Rightarrow> loadRPTConfig Y G v (b, es)) = (b1, es @ ds1)"
      "keeps b b1"
      by (rule loadsE [OF field_loads [where f = "loadRPTConfig Y G" and ov = oR, OF loadRPTConfig_loads], where b = b and es = es]) simp
    obtain b2 ds2 where 2: "(case oS of None \<Rightarrow> (b1, es @ ds1) | Some v \<Rightarrow> loadSPTConfig Y G v (b1, es @ ds1)) =
        (b2, (es @ ds1) @ ds2)" "keeps b1 b2"
      by (rule loadsE [OF field_loads [where f = "loadSPTConfig Y G" and ov = oS, OF loadSPTConfig_loads],
            where b = b1 and es = "es @ ds1"]) simp
    have "keeps b b2" by (rule gb_keeps_trans [OF 1(2) 2(2)])
    then show ?thesis
      using Inr r s 1(1) 2(1)
      by (cases oR; cases oS) (simp_all add: loadGroupConfig_def extraneous_loads Let_def)
  qed (simp add: loadGroupConfig_def gb_keeps_refl)
qed

lemma newGroupBuilder_ok: "gb_ok ok view (newGroupBuilder G ga line)" "gb_group (newGroupBuilder G ga line) = ga"
  by (simp_all add: gb_ok_def view_ok_def newGroupBuilder_def srcType_def new)

lemma build_loadable:
  assumes "gb_ok ok view b" and "isMcast ga"
  shows "loadableGroup (gcb_build G ga (gb_impl b)) \<and> gc_group (gcb_build G ga (gb_impl b)) = ga"
proof -
  obtain r p j where v: "view (gb_impl b) = (r, p, j)" by (cases "view (gb_impl b)")
  have b: "ok (gb_impl b)" "view_ok (srcType b) (gb_rptPruned b) (r, p, j)"
    using assms(1) by (simp_all add: gb_ok_def v)
  then have fin: "finite p" "finite j" "card p \<le> MaxPruneSGrptLen" by (auto simp: view_ok_def)
  have disj: "p \<inter> j = {}" "\<And>a. r = Some a \<Longrightarrow> a \<notin> p \<union> j" "\<And>a. a \<in> p \<union> j \<Longrightarrow> unicast a"
    "\<And>a. r = Some a \<Longrightarrow> unicast a"
    using b(2) by (force simp: view_ok_def)+
  show ?thesis
    using fin disj assms(2) unfolding build [OF b(1) v]
    by (cases r) (auto simp: loadableGroup_def configAddrs_def prunes_bounded_def sorted_list_of_set.length_sorted_key_list_of_set)
qed

lemma loadGroup_loads: "loads (\<lambda>mb mb'. mb_ok mb \<longrightarrow> mb_ok mb') (loadGroup Y G ii)"
  unfolding loads_def
proof (intro allI)
  fix mb es
  show "\<exists>mb' ds. loadGroup Y G ii (mb, es) = (mb', es @ ds) \<and> (mb_ok mb \<longrightarrow> mb_ok mb')"
  proof (cases "getScalar Y [] (fst ii)")
    case sc: (Inr sc)
    show ?thesis
    proof (cases "grpAddr (scalarValue Y sc)")
      case (Inl e)
      then show ?thesis by (simp add: loadGroup_def sc)
    next
      case ga: (Inr ga)
      then have mcast: "isMcast ga" by (simp add: grpAddr_Ok)
      let ?b = "newGroupBuilder G ga (nc_line Y sc)"
      obtain b ds where b: "loadGroupConfig Y G (snd ii) (?b, es) = (b, es @ ds)" "keeps ?b b"
        by (rule loadsE [OF loadGroupConfig_loads])
      then have "gb_ok ok view b" using newGroupBuilder_ok(1) by (simp add: gb_keeps_def)
      moreover have "ga \<notin> fst ` set (mb_map mb)" if "map_of (mb_map mb) ga = None"
        using that by (simp add: map_of_eq_None_iff)
      ultimately show ?thesis
        using b(1) mcast
        by (cases "map_of (mb_map mb) ga") (auto simp: loadGroup_def sc ga mb_all_def)
    qed
  qed (simp add: loadGroup_def)
qed

lemma loadMulticastConfig_loads:
  "loads (\<lambda>mb mb'. mb_ok mb \<longrightarrow> mb_ok mb') (loadMulticastConfig Y G v)"
proof (cases "getMapping Y ''IPv4 multicast config'' v")
  case (Inr mc)
  have "loads (\<lambda>mb mb'. mb_ok mb \<longrightarrow> mb_ok mb') (fold (loadGroup Y G) (items Y mc))"
    by (rule loads_fold [where f = "loadGroup Y G", OF _ _ loadGroup_loads]) simp_all
  with Inr show ?thesis by (simp add: loads_def loadMulticastConfig_def)
qed (simp add: loads_def loadMulticastConfig_def)

lemma buildGroups_map:
  "(\<And>ga b. (ga, b) \<in> set l \<Longrightarrow> map_of m ga = Some b) \<Longrightarrow>
     buildGroups G m (map fst l) = Ok (map (\<lambda>(ga, b). gcb_build G ga (gb_impl b)) l)"
proof (induction l)
  case (Cons x l)
  obtain ga b where x: "x = (ga, b)" by (cases x)
  have "map_of m ga = Some b" using Cons.prems [of ga b] x by simp
  moreover have "buildGroups G m (map fst l) = Ok (map (\<lambda>(ga, b). gcb_build G ga (gb_impl b)) l)"
    by (rule Cons.IH) (simp add: Cons.prems)
  ultimately show ?case by (simp add: x)
qed simp

lemma buildMulticast_loadable:
  assumes "mb_ok mb"
  shows "\<exists>cfg. buildMulticastConfig G mb = Ok cfg \<and> loadableConfig cfg"
proof -
  let ?gcs = "map (\<lambda>(ga, b). gcb_build G ga (gb_impl b)) (mb_map mb)"
  have gc: "loadableGroup (gcb_build G ga (gb_impl b)) \<and> gc_group (gcb_build G ga (gb_impl b)) = ga"
    if "(ga, b) \<in> set (mb_map mb)" for ga b
    using that assms by (intro build_loadable) (auto simp: mb_all_def)
  then have groups: "map gc_group ?gcs = map fst (mb_map mb)" by auto
  have "buildGroups G (mb_map mb) (mb_groups mb) = Ok ?gcs"
    using assms buildGroups_map [of "mb_map mb" "mb_map mb"] by (simp add: mb_all_def)
  moreover have "loadableConfig \<lparr>jp_groups = ?gcs\<rparr>"
    using assms groups gc by (auto simp: loadableConfig_def mb_all_def simp del: map_map)
  ultimately show ?thesis by (simp add: buildMulticastConfig_def)
qed

lemma loadMulticast_loadable:
  assumes "loadMulticastConfig Y G v (\<lparr>mb_groups = [], mb_map = []\<rparr>, []) = (mb, es)"
  shows "\<exists>cfg. buildMulticastConfig G mb = Ok cfg \<and> loadableConfig cfg"
proof (rule buildMulticast_loadable)
  obtain mb' ds where "loadMulticastConfig Y G v (\<lparr>mb_groups = [], mb_map = []\<rparr>, []) = (mb', [] @ ds)"
    "mb_ok \<lparr>mb_groups = [], mb_map = []\<rparr> \<longrightarrow> mb_ok mb'"
    by (rule loadsE [OF loadMulticastConfig_loads])
  with assms show "mb_ok mb" by (simp add: mb_all_def)
qed

end

section \<open>The Join/Prune configuration\<close>

definition jp_ok :: "JPGroupState \<Rightarrow> bool" where
  "jp_ok b \<longleftrightarrow> sorted (jb_prunes b) \<and> distinct (jb_prunes b) \<and> sorted (jb_joins b) \<and> distinct (jb_joins b)"

definition jp_view :: "JPGroupState \<Rightarrow> groupView" where
  "jp_view b = (jb_rp b, set (jb_prunes b), set (jb_joins b))"

lemmas jp_defs = jpGroupConfigBuilder_def jpAcceptRP_def jpAcceptPruneSGrpt_def jpAcceptJoinSG_def jpBuild_def
  jp_ok_def jp_view_def

interpretation jp: group_config_builder jpGroupConfigBuilder jp_ok jp_view
  by unfold_locales
     (auto simp: jp_defs sorted_insort_insert distinct_insort_insert set_insort_insert
       sorted_list_of_set.idem_if_sorted_distinct split: option.splits)

lemma loadJPConfig_cases:
  obtains (errors) es where "es \<noteq> []" "loadJPConfig Y v = Ok (Fail es)"
  | (config) cfg where "loadJPConfig Y v = Ok (Ok cfg)" "loadableConfig cfg"
proof -
  obtain mb es where run: "loadMulticastConfig Y jpGroupConfigBuilder v (\<lparr>mb_groups = [], mb_map = []\<rparr>, []) = (mb, es)"
    by fastforce
  obtain cfg where "buildMulticastConfig jpGroupConfigBuilder mb = Ok cfg" "loadableConfig cfg"
    using jp.loadMulticast_loadable [OF run] by blast
  then show ?thesis
    using that run by (cases "es = []") (simp_all add: loadJPConfig_def result_map_def)
qed

text \<open>C6: The configuration that the loader builds from a document is well formed: its groups are distinct
  multicast addresses, and the addresses of a group are unicast, none occurs twice, its lists are ascending
  and it has 180 RPT prunes at most.  A document without a configuration has errors, and building never
  throws.
\<close>

theorem load_jp_wellformed:
  "(\<exists>es. es \<noteq> [] \<and> loadJPConfig Y v = Ok (Fail es)) \<or> (\<exists>cfg. loadJPConfig Y v = Ok (Ok cfg) \<and> loadableConfig cfg)"
  by (cases rule: loadJPConfig_cases [of Y v]) auto

section \<open>PIM-SM and logging\<close>

text \<open>The interface of the configuration is one of the host's, with its first address and its index.\<close>

definition pimsm_ok :: "IntfTable \<Rightarrow> PIMSMConfig \<Rightarrow> bool" where
  "pimsm_ok t c \<longleftrightarrow> unicast (neighbor c) \<and>
     (\<exists>name info. byName t name = Some info \<and> intfName c = intf_name info \<and> intfIndex c = ifindex info \<and>
        ipv4addr info = Some (intfAddr c)) \<and>
     (helloPeriod c, helloHoldtime c, jpPeriod c, jpHoldtime c, drPriority c) = (30, 105, 60, 210, 0)"

lemma loadNeighbor_cases:
  "\<exists>pl' ds. loadNeighbor Y r (pl, es) = (pl', es @ ds) \<and> (ds = [] \<longrightarrow> unicast (pl_neighbor pl'))"
proof (cases r)
  case (Inr sc)
  moreover have "unicast a" if "scalarAddr Y UC_Neighbor sc = Inr a" for a
    using that by (simp add: scalarAddr_Ok)
  ultimately show ?thesis
    by (cases "scalarAddr Y UC_Neighbor sc") (auto simp: loadNeighbor_def Let_def)
qed (simp add: loadNeighbor_def)

definition intf_loaded :: "IntfTable \<Rightarrow> PIMSMConfigLoader \<Rightarrow> bool" where
  "intf_loaded t pl \<longleftrightarrow> (\<exists>name info. byName t name = Some info \<and> pl_intfName pl = intf_name info \<and>
     pl_intfIndex pl = Some (ifindex info) \<and> ipv4addr info = Some (pl_intfAddr pl))"

lemma loadInterface_cases:
  "\<exists>pl' ds. loadInterface Y t r (pl, es) = (pl', es @ ds) \<and> pl_neighbor pl' = pl_neighbor pl \<and>
     (ds = [] \<longrightarrow> intf_loaded t pl')"
proof (cases r)
  case (Inr sc)
  then show ?thesis
    by (cases "byName t (scalarValue Y sc)")
       (auto simp: loadInterface_def intf_loaded_def split: option.splits)
qed (simp add: loadInterface_def)

lemma loadPIMSMConfig_cases:
  obtains (errors) es where "es \<noteq> []" "loadPIMSMConfig Y gid t v = Some (Fail es)"
  | (config) c where "loadPIMSMConfig Y gid t v = Some (Ok c)" "pimsm_ok t c"
proof (cases "getMapping Y ''PIM-SM config'' v")
  case (Inl e)
  then show ?thesis using that(1) [of "[e]"] by (simp add: loadPIMSMConfig_def runPIMSMConfigLoader_def)
next
  case (Inr mc)
  obtain rN mc1 where n: "requiredField Y ''neighbor'' mc = (rN, mc1)" by fastforce
  obtain rI mc2 where i: "requiredField Y ''interface'' mc1 = (rI, mc2)" by fastforce
  obtain pl1 ds1 where 1: "loadNeighbor Y (result_flatMap (getScalar Y ''neighbor IPv4 address'') rN)
      (newPIMSMConfigLoader, []) = (pl1, [] @ ds1)" "ds1 = [] \<longrightarrow> unicast (pl_neighbor pl1)"
    using loadNeighbor_cases by blast
  obtain pl2 ds2 where 2: "loadInterface Y t (result_flatMap (getScalar Y ''PIM SM IPv4 interface'') rI)
      (pl1, ds1) = (pl2, ds1 @ ds2)" "pl_neighbor pl2 = pl_neighbor pl1" "ds2 = [] \<longrightarrow> intf_loaded t pl2"
    using loadInterface_cases by blast
  let ?es = "ds1 @ ds2 @ extraneous Y mc2"
  have run: "runPIMSMConfigLoader Y t v (newPIMSMConfigLoader, []) = (pl2, ?es)"
    using Inr n i 1(1) 2(1) by (simp add: runPIMSMConfigLoader_def extraneous_loads)
  show ?thesis
  proof (cases "?es = []")
    case True
    with 1 2 have "unicast (pl_neighbor pl2)" "intf_loaded t pl2" by simp_all
    then have "\<exists>c. buildPIMSMConfig gid pl2 = Some c \<and> pimsm_ok t c"
      by (auto simp: intf_loaded_def buildPIMSMConfig_def pimsm_ok_def) metis
    then obtain c where "buildPIMSMConfig gid pl2 = Some c" "pimsm_ok t c" by blast
    with True that(2) show ?thesis by (simp add: loadPIMSMConfig_def run del: append_is_Nil_conv)
  next
    case False
    with that(1) [OF False] show ?thesis by (simp add: loadPIMSMConfig_def run del: append_is_Nil_conv)
  qed
qed

lemma loadLoggingConfig_cases:
  obtains (errors) es where "es \<noteq> []" "loadLoggingConfig Y H ov = Fail es"
  | (config) c where "loadLoggingConfig Y H ov = Ok c"
proof -
  obtain ll es where "runLoggingConfigLoader Y H ov (\<lparr>ll_level = LevelInfo, ll_dir = None\<rparr>, []) = (ll, es)" by fastforce
  then show ?thesis using that by (cases "es = []") (simp_all add: loadLoggingConfig_def)
qed

section \<open>The packers on a loadable configuration\<close>

text \<open>A group without addresses gets no entry, which the sanity check reports.\<close>

lemma fitGroup_empty: "emptyGroup gc \<Longrightarrow> fitGroup up gc = Some (Ok up)"
  by (simp add: fitGroup_def findRptUb_def emptyGroup_def run_while_end fitLast_def)

lemma packGroups_filter: "packGroups up gcs = packGroups up (filter (\<lambda>gc. \<not> emptyGroup gc) gcs)"
  by (induction gcs arbitrary: up) (simp_all add: fitGroup_empty)

lemma pack_filter:
  "pack cfg = pack \<lparr>jp_groups = filter (\<lambda>gc. \<not> emptyGroup gc) (jp_groups cfg)\<rparr>"
  using packGroups_filter [of newUpdatePacker "jp_groups cfg"] by (simp add: pack_def)

lemma loadable_distinct: "loadableConfig cfg \<Longrightarrow> distinct (map gc_group (jp_groups cfg))"
  and loadable_bounded: "loadableConfig cfg \<Longrightarrow> \<forall>gc \<in> set (jp_groups cfg). prunes_bounded gc"
  by (auto simp: loadableConfig_def loadableGroup_def)

lemma groups_of_filter:
  assumes "distinct (map gc_group gcs)" and "gc \<in> set gcs" and "emptyGroup gc"
  shows "gc_group gc \<notin> gc_group ` set (filter (\<lambda>gc. \<not> emptyGroup gc) gcs)"
  using assms by (auto simp: distinct_map inj_on_def)

lemma loadable_pack:
  assumes "loadableConfig cfg"
  shows "\<exists>us. pack cfg = Some (Ok us) \<and>
    (verifyUpdates cfg us = Ok () \<longleftrightarrow> (\<forall>gc \<in> set (jp_groups cfg). \<not> emptyGroup gc))"
proof (cases "\<forall>gc \<in> set (jp_groups cfg). \<not> emptyGroup gc")
  case True
  then have "wellFormedConfig cfg" using loadable_wellFormed [OF assms] by blast
  from pack_verified [OF this] True show ?thesis by blast
next
  case False
  then obtain gc where gc: "gc \<in> set (jp_groups cfg)" "emptyGroup gc" by blast
  let ?cfg = "\<lparr>jp_groups = filter (\<lambda>gc. \<not> emptyGroup gc) (jp_groups cfg)\<rparr>"
  have "distinct (map gc_group (jp_groups ?cfg))" "\<forall>gc \<in> set (jp_groups ?cfg). prunes_bounded gc"
    using loadable_distinct [OF assms] loadable_bounded [OF assms] by (simp_all add: distinct_map_filter)
  from pack_ok [OF this] obtain up es where up: "pack cfg = Some (Inr (buildUpdates up))" "packer_inv es up"
    "ge_group ` set es \<subseteq> gc_group ` set (jp_groups ?cfg)"
    unfolding pack_filter [of cfg] by blast
  have "gc_group gc \<notin> ge_group ` set es"
    using groups_of_filter [OF loadable_distinct [OF assms] gc] up(3) by auto
  then have "ge_group ` set (concat (map upd_groups (buildUpdates up))) \<noteq> gc_group ` set (jp_groups cfg)"
    using gc(1) unfolding buildUpdates_ok(1) [OF up(2)] by (metis image_eqI)
  then have "verifyUpdates cfg (buildUpdates up) \<noteq> Ok ()"
    unfolding verifyUpdates_iff [OF loadable_distinct [OF assms]] by blast
  with up(1) False show ?thesis by blast
qed

text \<open>The RP prunes that the inverse packer can lose.\<close>

definition withdrawsRps :: "Update list \<Rightarrow> JPConfig \<Rightarrow> bool" where
  "withdrawsRps us cfg \<longleftrightarrow>
     (\<forall>gc \<in> set (jp_groups cfg). withdrawsRp (ownEntries (gc_group gc) (concat (map upd_groups us))) gc)"

lemma loadable_inverse:
  assumes "loadableConfig cfg" and "\<forall>gc \<in> set (jp_groups cfg). \<not> emptyGroup gc"
  shows "\<exists>us. inversePack cfg = Some (Ok us) \<and> (verifyInverseUpdates cfg us = Ok () \<longleftrightarrow> withdrawsRps us cfg)"
proof -
  have "wellFormedConfig cfg" using loadable_wellFormed [OF assms(1)] assms(2) by blast
  from inversePack_verified [OF this] show ?thesis by (simp add: withdrawsRps_def)
qed

section \<open>The whole configuration\<close>

lemma buildPIMCConfig_loaded:
  assumes "cl_logging cl = Some lc" "cl_pimsm cl = Some pc" "cl_jp cl = Some cfg" "loadableConfig cfg"
  obtains us where "pack cfg = Some (Ok us)"
    "\<exists>gc \<in> set (jp_groups cfg). emptyGroup gc"
    "\<exists>es. buildPIMCConfig cl = Some (Fail (SanityFailed es))"
  | us vs where "pack cfg = Some (Ok us)" "inversePack cfg = Some (Ok vs)"
    "\<forall>gc \<in> set (jp_groups cfg). \<not> emptyGroup gc" "\<not> withdrawsRps vs cfg"
    "\<exists>es. buildPIMCConfig cl = Some (Fail (InverseSanityFailed es))"
  | us vs where "pack cfg = Some (Ok us)" "inversePack cfg = Some (Ok vs)"
    "\<forall>gc \<in> set (jp_groups cfg). \<not> emptyGroup gc" "withdrawsRps vs cfg"
    "buildPIMCConfig cl = Some (Ok \<lparr>loggingConfig = lc, pimsmConfig = pc, jpConfig = cfg,
       cfg_updates = us, inverseUpdates = vs\<rparr>)"
proof -
  obtain us where us: "pack cfg = Some (Ok us)"
    "verifyUpdates cfg us = Ok () \<longleftrightarrow> (\<forall>gc \<in> set (jp_groups cfg). \<not> emptyGroup gc)"
    using loadable_pack [OF assms(4)] by blast
  show thesis
  proof (cases "\<exists>gc \<in> set (jp_groups cfg). emptyGroup gc")
    case True
    with us(2) obtain es where "verifyUpdates cfg us = Fail es" by (cases "verifyUpdates cfg us") auto
    with us(1) assms have "buildPIMCConfig cl = Some (Fail (SanityFailed es))" by (simp add: buildPIMCConfig_def)
    with that(1) [OF us(1) True] show thesis by blast
  next
    case False
    then obtain vs where vs: "inversePack cfg = Some (Ok vs)" "verifyInverseUpdates cfg vs = Ok () \<longleftrightarrow> withdrawsRps vs cfg"
      using loadable_inverse [OF assms(4)] by blast
    have ok: "verifyUpdates cfg us = Ok ()" using us(2) False by blast
    show thesis
    proof (cases "verifyInverseUpdates cfg vs")
      case (Inl es)
      then have "buildPIMCConfig cl = Some (Fail (InverseSanityFailed es))"
        using us(1) ok vs(1) assms by (simp add: buildPIMCConfig_def)
      then show thesis using that(2) [OF us(1) vs(1)] False vs(2) Inl by auto
    next
      case (Inr u)
      then have "buildPIMCConfig cl = Some (Ok \<lparr>loggingConfig = lc, pimsmConfig = pc, jpConfig = cfg,
         cfg_updates = us, inverseUpdates = vs\<rparr>)"
        using us(1) ok vs(1) assms by (simp add: buildPIMCConfig_def)
      then show thesis using that(3) [OF us(1) vs(1)] False vs(2) Inr by auto
    qed
  qed
qed

lemma runPIMCConfigLoader_cases:
  obtains cl es where
    "runPIMCConfigLoader Y H t v (\<lparr>cl_logging = None, cl_pimsm = None, cl_jp = None\<rparr>, []) = Some (Ok (cl, es))"
    "es = [] \<Longrightarrow> \<exists>lc pc cfg. cl = \<lparr>cl_logging = Some lc, cl_pimsm = Some pc, cl_jp = Some cfg\<rparr> \<and>
       pimsm_ok t pc \<and> loadableConfig cfg"
proof (cases "getMapping Y [] v")
  case (Inl e)
  then show thesis using that [of "\<lparr>cl_logging = None, cl_pimsm = None, cl_jp = None\<rparr>" "[e]"]
    by (simp add: runPIMCConfigLoader_def)
next
  case (Inr mc)
  obtain oL mc1 where l: "optionalField Y ''logging'' mc = (oL, mc1)" by fastforce
  obtain rP mc2 where p: "requiredField Y ''pim'' mc1 = (rP, mc2)" by fastforce
  obtain rJ mc3 where j: "requiredField Y ''multicast'' mc2 = (rJ, mc3)" by fastforce
  obtain cl1 es1 where log: "(case loadLoggingConfig Y H oL of
        Inl _ \<Rightarrow> \<lparr>cl_logging = None, cl_pimsm = None, cl_jp = None\<rparr>
      | Inr c \<Rightarrow> \<lparr>cl_logging = Some c, cl_pimsm = None, cl_jp = None\<rparr>) = cl1"
      "chkErrors (loadLoggingConfig Y H oL) [] = es1"
      "es1 = [] \<longrightarrow> (\<exists>lc. cl1 = \<lparr>cl_logging = Some lc, cl_pimsm = None, cl_jp = None\<rparr>)"
    by (cases rule: loadLoggingConfig_cases [of Y H oL]) auto
  obtain cl2 es2 where pim: "loadPIM Y H t rP (cl1, es1) = Some (Ok (cl2, es1 @ es2))"
      "es2 = [] \<longrightarrow> (\<exists>pc. cl2 = cl1\<lparr>cl_pimsm := Some pc\<rparr> \<and> pimsm_ok t pc)"
  proof (cases rP)
    case (Inr w)
    then show thesis
      using that by (cases rule: loadPIMSMConfig_cases [of Y "h_generationId H" t w]) (auto simp: loadPIM_def)
  qed (use that in \<open>simp add: loadPIM_def\<close>)
  obtain cl3 es3 where jp: "loadMulticast Y rJ (cl2, es1 @ es2) = Some (Ok (cl3, (es1 @ es2) @ es3))"
      "es3 = [] \<longrightarrow> (\<exists>cfg. cl3 = cl2\<lparr>cl_jp := Some cfg\<rparr> \<and> loadableConfig cfg)"
  proof (cases rJ)
    case (Inr w)
    then show thesis
      using that by (cases rule: loadJPConfig_cases [of Y w]) (auto simp: loadMulticast_def)
  qed (use that in \<open>simp add: loadMulticast_def\<close>)
  have "runPIMCConfigLoader Y H t v (\<lparr>cl_logging = None, cl_pimsm = None, cl_jp = None\<rparr>, []) =
      Some (Ok (cl3, ((es1 @ es2) @ es3) @ extraneous Y mc3))"
    using Inr l p j log(1,2) pim(1) jp(1)
    by (cases "loadLoggingConfig Y H oL") (simp_all add: runPIMCConfigLoader_def extraneous_loads Let_def)
  then show thesis using log(3) pim(2) jp(2) by (intro that) auto
qed

lemma load_config_cases:
  "\<exists>cl es. runPIMCConfigLoader Y H t v (\<lparr>cl_logging = None, cl_pimsm = None, cl_jp = None\<rparr>, []) = Some (Ok (cl, es)) \<and>
    (if es \<noteq> [] then loadPIMCConfig Y H t v = Some (Ok (Fail es))
     else \<exists>lc pc cfg us. cl = \<lparr>cl_logging = Some lc, cl_pimsm = Some pc, cl_jp = Some cfg\<rparr> \<and>
       pimsm_ok t pc \<and> loadableConfig cfg \<and> pack cfg = Some (Ok us) \<and>
       (if \<exists>gc \<in> set (jp_groups cfg). emptyGroup gc
        then \<exists>errs. loadPIMCConfig Y H t v = Some (Fail (SanityFailed errs))
        else \<exists>vs. inversePack cfg = Some (Ok vs) \<and>
          (if withdrawsRps vs cfg
           then loadPIMCConfig Y H t v = Some (Ok (Ok \<lparr>loggingConfig = lc, pimsmConfig = pc, jpConfig = cfg,
                  cfg_updates = us, inverseUpdates = vs\<rparr>))
           else \<exists>errs. loadPIMCConfig Y H t v = Some (Fail (InverseSanityFailed errs)))))"
proof -
  obtain cl es where run: "runPIMCConfigLoader Y H t v (\<lparr>cl_logging = None, cl_pimsm = None, cl_jp = None\<rparr>, []) =
      Some (Ok (cl, es))"
    and all: "es = [] \<Longrightarrow> \<exists>lc pc cfg. cl = \<lparr>cl_logging = Some lc, cl_pimsm = Some pc, cl_jp = Some cfg\<rparr> \<and>
       pimsm_ok t pc \<and> loadableConfig cfg"
    by (rule runPIMCConfigLoader_cases [of Y H t v]) blast
  show ?thesis
  proof (cases "es = []")
    case False
    with run show ?thesis by (intro exI [of _ cl] exI [of _ es]) (simp add: loadPIMCConfig_def)
  next
    case True
    with all obtain lc pc cfg where cl: "cl = \<lparr>cl_logging = Some lc, cl_pimsm = Some pc, cl_jp = Some cfg\<rparr>"
      and ok: "pimsm_ok t pc" "loadableConfig cfg" by blast
    then have fields: "cl_logging cl = Some lc" "cl_pimsm cl = Some pc" "cl_jp cl = Some cfg" by simp_all
    have load: "loadPIMCConfig Y H t v = map_option (result_map Inr) (buildPIMCConfig cl)"
      using run True by (simp add: loadPIMCConfig_def)
    note intro = exI [of _ cl] exI [of _ es] conjI [OF run]
    show ?thesis
    proof (rule buildPIMCConfig_loaded [OF fields ok(2)])
      fix us assume "pack cfg = Some (Ok us)" "\<exists>gc \<in> set (jp_groups cfg). emptyGroup gc"
      moreover assume "\<exists>es. buildPIMCConfig cl = Some (Fail (SanityFailed es))"
      then obtain errs where "loadPIMCConfig Y H t v = Some (Fail (SanityFailed errs))" by (auto simp: load)
      ultimately show ?thesis using True ok by (intro intro) (simp add: cl)
    next
      fix us vs assume "pack cfg = Some (Ok us)" "inversePack cfg = Some (Ok vs)"
        "\<forall>gc \<in> set (jp_groups cfg). \<not> emptyGroup gc" "\<not> withdrawsRps vs cfg"
      moreover assume "\<exists>es. buildPIMCConfig cl = Some (Fail (InverseSanityFailed es))"
      then obtain errs where "loadPIMCConfig Y H t v = Some (Fail (InverseSanityFailed errs))" by (auto simp: load)
      ultimately show ?thesis using True ok by (intro intro) (simp add: cl)
    next
      fix us vs assume "pack cfg = Some (Ok us)" "inversePack cfg = Some (Ok vs)"
        "\<forall>gc \<in> set (jp_groups cfg). \<not> emptyGroup gc" "withdrawsRps vs cfg"
        "buildPIMCConfig cl = Some (Ok \<lparr>loggingConfig = lc, pimsmConfig = pc, jpConfig = cfg,
           cfg_updates = us, inverseUpdates = vs\<rparr>)"
      then show ?thesis using True ok by (intro intro) (simp add: cl load)
    qed
  qed
qed

text \<open>Loading a configuration ends.  If the loaders found errors, they are returned; else the
  configuration is well formed and the packers return, and the outcome is the exception of the sanity check
  if a group has no address, the exception of the inverse check if the inverse packer lost the prune of an
  RP, and the configuration with its updates otherwise.
\<close>

theorem load_config_outcomes:
  "\<exists>cl es. runPIMCConfigLoader Y H t v (\<lparr>cl_logging = None, cl_pimsm = None, cl_jp = None\<rparr>, []) = Some (Ok (cl, es)) \<and>
    (if es \<noteq> [] then loadPIMCConfig Y H t v = Some (Ok (Fail es))
     else \<exists>lc pc cfg us. cl = \<lparr>cl_logging = Some lc, cl_pimsm = Some pc, cl_jp = Some cfg\<rparr> \<and>
       pimsm_ok t pc \<and> loadableConfig cfg \<and> pack cfg = Some (Ok us) \<and>
       (if \<exists>gc \<in> set (jp_groups cfg). emptyGroup gc
        then \<exists>errs. loadPIMCConfig Y H t v = Some (Fail (SanityFailed errs))
        else \<exists>vs. inversePack cfg = Some (Ok vs) \<and>
          (if withdrawsRps vs cfg
           then loadPIMCConfig Y H t v = Some (Ok (Ok \<lparr>loggingConfig = lc, pimsmConfig = pc, jpConfig = cfg,
                  cfg_updates = us, inverseUpdates = vs\<rparr>))
           else \<exists>errs. loadPIMCConfig Y H t v = Some (Fail (InverseSanityFailed errs)))))"
  by (rule load_config_cases)

end
