(* ===== verification/TextBlocks.thy ===== *)
theory TextBlocks
  imports Texts
begin

text \<open>
  \<open>formatters/ConsumeIfUnlessEscaped.hpp\<close> and \<open>formatters/IndentBlock.hpp\<close>: words with escaped blanks, and
  the block of text that the words of an input fill.  Symbols are of an arbitrary type; an input iterator
  with its sentinel is the list of the symbols left, and an output iterator the list of those written.
\<close>

section \<open>Words\<close>

text \<open>
  The loop of \<open>consumeIfUnlessEscaped\<close>; \<open>e\<close> is the escape symbol read last, if the next symbol is escaped,
  and \<open>cons\<close> acts on a state.
\<close>

fun consumeLoop ::
    "('c \<Rightarrow> bool) \<Rightarrow> ('c \<Rightarrow> bool) \<Rightarrow> ('c \<Rightarrow> 's \<Rightarrow> 's) \<Rightarrow> 'c list \<Rightarrow> 'c option \<Rightarrow> nat \<Rightarrow> 's \<Rightarrow> nat \<times> 'c list \<times> 's" where
  "consumeLoop accept escape cons [] e count s =
     (case e of None \<Rightarrow> (count, [], s) | Some x \<Rightarrow> (count + 1, [], cons x s))"
| "consumeLoop accept escape cons (c # cs) None count s =
     (if escape c then consumeLoop accept escape cons cs (Some c) count s
      else if \<not> accept c then (count, c # cs, s)
      else consumeLoop accept escape cons cs None (count + 1) (cons c s))"
| "consumeLoop accept escape cons (c # cs) (Some x) count s =
     (if accept c \<and> \<not> escape c
      then consumeLoop accept escape cons cs None (count + 2) (cons c (cons x s))
      else consumeLoop accept escape cons cs None (count + 1) (cons c s))"

definition consumeIfUnlessEscaped ::
    "('c \<Rightarrow> bool) \<Rightarrow> ('c \<Rightarrow> bool) \<Rightarrow> ('c \<Rightarrow> 's \<Rightarrow> 's) \<Rightarrow> 'c list \<Rightarrow> 's \<Rightarrow> nat \<times> 'c list \<times> 's" where
  "consumeIfUnlessEscaped accept escape cons cs s = consumeLoop accept escape cons cs None 0 s"

text \<open>The word at the start of an input, and what follows it.\<close>

fun wordLoop :: "('c \<Rightarrow> bool) \<Rightarrow> ('c \<Rightarrow> bool) \<Rightarrow> 'c list \<Rightarrow> 'c option \<Rightarrow> 'c list \<times> 'c list" where
  "wordLoop accept escape [] e = (case e of None \<Rightarrow> ([], []) | Some x \<Rightarrow> ([x], []))"
| "wordLoop accept escape (c # cs) None =
     (if escape c then wordLoop accept escape cs (Some c)
      else if \<not> accept c then ([], c # cs)
      else case wordLoop accept escape cs None of (w, rest) \<Rightarrow> (c # w, rest))"
| "wordLoop accept escape (c # cs) (Some x) =
     (case wordLoop accept escape cs None of (w, rest) \<Rightarrow>
        (if accept c \<and> \<not> escape c then x # c # w else c # w, rest))"

lemma consumeLoop_word:
  "consumeLoop accept escape cons cs e count s =
     (case wordLoop accept escape cs e of (w, rest) \<Rightarrow> (count + length w, rest, fold cons w s))"
  by (induction accept escape cs e arbitrary: count s rule: wordLoop.induct)
     (auto split: prod.splits option.splits)

lemma wordLoop_shorter:
  "wordLoop accept escape cs e = (w, rest) \<Longrightarrow> length rest \<le> length cs"
  by (induction accept escape cs e arbitrary: w rest rule: wordLoop.induct)
     (fastforce split: prod.splits option.splits if_splits)+

lemma wordLoop_escaped: "wordLoop accept escape cs (Some x) = (w, rest) \<Longrightarrow> w \<noteq> []"
  by (cases cs) (auto split: prod.splits if_splits)

lemma wordLoop_progress:
  assumes "wordLoop accept escape (c # cs) None = (w, rest)" and "accept c"
  shows "w \<noteq> [] \<and> length rest < length (c # cs)"
  using assms by (auto split: prod.splits if_splits dest: wordLoop_escaped wordLoop_shorter)

lemma dropWhile_shorter: "length (dropWhile P xs) \<le> length xs"
  by (induction xs) simp_all

lemma word_shorter:
  assumes "dropWhile ws cs = c # rest" and "wordLoop (\<lambda>c. \<not> ws c) esc (c # rest) None = (w, rest')"
  shows "length rest' < length cs"
proof -
  have "\<not> ws c" using assms(1) by (simp add: dropWhile_eq_Cons_conv)
  then show ?thesis
    using wordLoop_progress [OF assms(2)] dropWhile_shorter [of ws cs] assms(1) by simp
qed

text \<open>The words of an input: what \<open>ws\<close> accepts separates them, unless it is escaped.\<close>

function wordsOf :: "('c \<Rightarrow> bool) \<Rightarrow> ('c \<Rightarrow> bool) \<Rightarrow> 'c list \<Rightarrow> 'c list list" where
  "wordsOf ws esc cs =
     (case dropWhile ws cs of
        [] \<Rightarrow> []
      | c # rest \<Rightarrow> (case wordLoop (\<lambda>c. \<not> ws c) esc (c # rest) None of (w, rest) \<Rightarrow> w # wordsOf ws esc rest))"
  by pat_completeness auto

termination
  by (relation "measure (\<lambda>(ws, esc, cs). length cs)", rule wf_measure)
     (simp only: in_measure split word_shorter [OF _ sym])

declare wordsOf.simps [simp del]

section \<open>Blocks\<close>

text \<open>The variables of \<open>indentBlock\<close>; they count symbols, whose number is below \<open>2 ^ 32\<close>.\<close>

record 'c IndentState =
  ib_out :: "'c list"
  ib_empty :: bool
  ib_curPos :: nat
  ib_firstLine :: bool
  ib_indsz :: nat
  ib_width :: nat

text \<open>The start of a line, which occurs twice in the code, and a round of the loop.\<close>

definition indentLine :: "'c \<Rightarrow> 'c list \<Rightarrow> nat \<Rightarrow> nat \<Rightarrow> 'c IndentState \<Rightarrow> 'c IndentState" where
  "indentLine sp nl indent maxWidth s =
     (let s = (if \<not> ib_firstLine s then s\<lparr>ib_out := ib_out s @ nl, ib_width := maxWidth\<rparr>
               else s\<lparr>ib_firstLine := False\<rparr>) in
      s\<lparr>ib_out := ib_out s @ replicate (ib_indsz s) sp, ib_curPos := ib_indsz s, ib_indsz := indent\<rparr>)"

definition indentWord ::
    "('c \<Rightarrow> bool) \<Rightarrow> ('c \<Rightarrow> bool) \<Rightarrow> 'c \<Rightarrow> 'c list \<Rightarrow> nat \<Rightarrow> nat \<Rightarrow> 'c list \<Rightarrow> 'c IndentState \<Rightarrow> 'c IndentState" where
  "indentWord ws esc sp nl indent maxWidth pchr s =
     (let notWS = (\<lambda>c. \<not> ws c);
          wordLen = fst (consumeIfUnlessEscaped notWS esc (\<lambda>c. id) pchr ());
          copy = (\<lambda>s. s\<lparr>ib_out := snd (snd (consumeIfUnlessEscaped notWS esc (\<lambda>c out. out @ [c]) pchr (ib_out s)))\<rparr>) in
      if \<not> ib_empty s then
        (let s = (if ib_curPos s + wordLen + 1 < ib_width s
                  then s\<lparr>ib_out := ib_out s @ [sp], ib_curPos := ib_curPos s + 1\<rparr>
                  else indentLine sp nl indent maxWidth s);
             s = copy s in
         if ib_curPos s + wordLen < ib_width s then s\<lparr>ib_curPos := ib_curPos s + wordLen\<rparr>
         else s\<lparr>ib_empty := True, ib_curPos := 0\<rparr>)
      else
        (let s = copy (indentLine sp nl indent maxWidth s) in
         if ib_curPos s + wordLen < ib_width s
         then s\<lparr>ib_curPos := ib_curPos s + wordLen, ib_empty := False\<rparr> else s))"

lemma consume_word:
  "consumeIfUnlessEscaped accept escape cons cs s =
     (case wordLoop accept escape cs None of (w, rest) \<Rightarrow> (length w, rest, fold cons w s))"
  by (simp add: consumeIfUnlessEscaped_def consumeLoop_word)

lemma loop_shorter:
  assumes "pchr \<noteq> []" and "wordLoop (\<lambda>c. \<not> ws c) esc pchr None = (w, rest)"
  shows "length (dropWhile ws rest) < length pchr"
proof -
  obtain c cs where c: "pchr = c # cs" using assms(1) by (cases pchr) auto
  show ?thesis
  proof (cases "ws c \<and> \<not> esc c")
    case True
    then show ?thesis using assms(2) c dropWhile_shorter [of ws cs] by (auto simp: le_imp_less_Suc)
  next
    case False
    then have "length rest < length pchr"
      using assms(2) c
      by (auto split: prod.splits if_splits dest: wordLoop_shorter)
    then show ?thesis using dropWhile_shorter [of ws rest] by simp
  qed
qed

function indentLoop ::
    "('c \<Rightarrow> bool) \<Rightarrow> ('c \<Rightarrow> bool) \<Rightarrow> 'c \<Rightarrow> 'c list \<Rightarrow> nat \<Rightarrow> nat \<Rightarrow> 'c list \<Rightarrow> 'c IndentState \<Rightarrow> 'c list" where
  "indentLoop ws esc sp nl indent maxWidth pchr s =
     (if pchr = [] then ib_out s
      else
        (case consumeIfUnlessEscaped (\<lambda>c. \<not> ws c) esc (\<lambda>c. id) pchr () of (wordLen, wschr, _) \<Rightarrow>
           indentLoop ws esc sp nl indent maxWidth (dropWhile ws wschr)
             (indentWord ws esc sp nl indent maxWidth pchr s)))"
  by pat_completeness auto

termination
  by (relation "measure (\<lambda>(ws, esc, sp, nl, indent, maxWidth, pchr, s). length pchr)")
     (auto simp: consume_word loop_shorter split: prod.splits)

declare indentLoop.simps [simp del]

definition indentBlock ::
    "('c \<Rightarrow> bool) \<Rightarrow> ('c \<Rightarrow> bool) \<Rightarrow> nat \<Rightarrow> nat \<Rightarrow> nat \<Rightarrow> nat \<Rightarrow> 'c \<Rightarrow> 'c list \<Rightarrow> 'c list \<Rightarrow>
     (string, 'c list) outcome" where
  "indentBlock ws esc line1indent line1maxWidth indent maxWidth sp nl cs =
     (if line1maxWidth \<le> line1indent then
        Fail (''line1indent ('' @ dec_string line1indent @ '') may not be greater or equal to line1maxWidth ('' @
              dec_string line1maxWidth @ '')'')
      else if maxWidth \<le> indent then
        Fail (''indent ('' @ dec_string indent @ '') may not be greater or equal to maxWidth ('' @
              dec_string maxWidth @ '')'')
      else if dropWhile ws cs = [] then Ok []
      else Ok (indentLoop ws esc sp nl indent maxWidth (dropWhile ws cs)
        \<lparr>ib_out = [], ib_empty = True, ib_curPos = 0, ib_firstLine = True, ib_indsz = line1indent,
         ib_width = line1maxWidth\<rparr>))"

section \<open>What a block holds\<close>

text \<open>
  The words of a line, the indent and the width of a line and a block of lines.  A block is filled if a
  line is narrower than its width, unless it is a single word, and the first word of the next line would
  not have fit it.
\<close>

fun lineText :: "'c \<Rightarrow> 'c list list \<Rightarrow> 'c list" where
  "lineText sp [] = []"
| "lineText sp (w # ws) = w @ concat (map (\<lambda>v. sp # v) ws)"

definition per_line :: "'a \<Rightarrow> 'a \<Rightarrow> nat \<Rightarrow> 'a" where
  "per_line a b k = (if k = 0 then a else b)"

definition blockText :: "'c \<Rightarrow> 'c list \<Rightarrow> nat \<Rightarrow> nat \<Rightarrow> 'c list list list \<Rightarrow> 'c list" where
  "blockText sp nl i1 i ls =
     concat (map (\<lambda>k. per_line [] nl k @ replicate (per_line i1 i k) sp @ lineText sp (ls ! k)) [0..<length ls])"

definition filled :: "'c \<Rightarrow> nat \<Rightarrow> nat \<Rightarrow> nat \<Rightarrow> nat \<Rightarrow> 'c list list list \<Rightarrow> bool" where
  "filled sp i1 w1 i w ls \<longleftrightarrow>
     (\<forall>k < length ls. ls ! k \<noteq> [] \<and>
        (per_line i1 i k + length (lineText sp (ls ! k)) < per_line w1 w k \<or> length (ls ! k) = 1) \<and>
        (Suc k < length ls \<longrightarrow>
           per_line w1 w k \<le> per_line i1 i k + length (lineText sp (ls ! k @ [hd (ls ! Suc k)]))))"

lemma lineText_snoc [simp]: "l \<noteq> [] \<Longrightarrow> lineText sp (l @ [w]) = lineText sp l @ sp # w"
  by (cases l) simp_all

lemma per_line_simps [simp]: "per_line a b 0 = a" "per_line a b (Suc k) = b"
  by (simp_all add: per_line_def)

lemma blockText_snoc:
  "blockText sp nl i1 i (ls @ [l]) =
     blockText sp nl i1 i ls @ per_line [] nl (length ls) @ replicate (per_line i1 i (length ls)) sp @ lineText sp l"
proof -
  have "map (\<lambda>k. per_line [] nl k @ replicate (per_line i1 i k) sp @ lineText sp ((ls @ [l]) ! k)) [0..<length ls] =
      map (\<lambda>k. per_line [] nl k @ replicate (per_line i1 i k) sp @ lineText sp (ls ! k)) [0..<length ls]"
    by (simp add: nth_append)
  then show ?thesis unfolding blockText_def
    by (simp only: length_append_singleton upt_Suc_append [OF le0] map_append concat_append) simp
qed

lemma filled_line:
  assumes "filled sp i1 w1 i w ls"
    and "ls \<noteq> [] \<Longrightarrow> per_line w1 w (length ls - 1) \<le>
      per_line i1 i (length ls - 1) + length (lineText sp (last ls @ [v]))"
  shows "filled sp i1 w1 i w (ls @ [[v]])"
proof -
  have "Suc k = length ls \<Longrightarrow> k = length ls - 1" for k by simp
  moreover have "Suc k = length ls \<Longrightarrow> ls ! k = last ls \<and> ls \<noteq> []" for k
    by (cases ls rule: rev_cases) (auto simp: nth_append)
  ultimately show ?thesis
    using assms unfolding filled_def by (auto simp: nth_append less_Suc_eq)
qed

lemma filled_word:
  assumes "filled sp i1 w1 i w (ls @ [l])" and "per_line i1 i (length ls) + length (lineText sp (l @ [v])) < per_line w1 w (length ls)"
  shows "filled sp i1 w1 i w (ls @ [l @ [v]])"
proof -
  have "l \<noteq> []" using assms(1) unfolding filled_def by (metis length_append_singleton lessI nth_append_length)
  then show ?thesis
    using assms unfolding filled_def by (auto simp: nth_append less_Suc_eq)
qed

text \<open>The variables of the loop, for the lines written so far.\<close>

definition block_state :: "'c \<Rightarrow> 'c list \<Rightarrow> nat \<Rightarrow> nat \<Rightarrow> nat \<Rightarrow> nat \<Rightarrow> 'c list list list \<Rightarrow> 'c IndentState \<Rightarrow> bool" where
  "block_state sp nl i1 w1 i w ls s \<longleftrightarrow>
     ib_out s = blockText sp nl i1 i ls \<and> filled sp i1 w1 i w ls \<and>
     (if ls = [] then ib_firstLine s \<and> ib_empty s \<and> ib_indsz s = i1 \<and> ib_width s = w1
      else \<not> ib_firstLine s \<and> ib_indsz s = i \<and> ib_width s = per_line w1 w (length ls - 1) \<and>
        (let n = per_line i1 i (length ls - 1) + length (lineText sp (last ls)) in
         if ib_empty s then ib_width s \<le> n else n < ib_width s \<and> ib_curPos s = n))"

lemma fold_snoc: "fold (\<lambda>c out. out @ [c]) w out = out @ w"
  by (induction w arbitrary: out) simp_all

lemma indentLine_state:
  assumes "block_state sp nl i1 w1 i w ls s"
  shows "indentLine sp nl i w s =
    \<lparr>ib_out = blockText sp nl i1 i ls @ per_line [] nl (length ls) @ replicate (per_line i1 i (length ls)) sp,
     ib_empty = ib_empty s, ib_curPos = per_line i1 i (length ls), ib_firstLine = False, ib_indsz = i,
     ib_width = per_line w1 w (length ls)\<rparr>"
  using assms by (cases "ls = []") (simp_all add: block_state_def indentLine_def per_line_def)

lemma block_state_line:
  assumes "block_state sp nl i1 w1 i w ls s" and "\<not> ib_empty s \<Longrightarrow> ib_width s \<le> ib_curPos s + length v + 1"
  shows "block_state sp nl i1 w1 i w (ls @ [[v]])
    \<lparr>ib_out = blockText sp nl i1 i ls @ per_line [] nl (length ls) @ replicate (per_line i1 i (length ls)) sp @ v,
     ib_empty = (per_line w1 w (length ls) \<le> per_line i1 i (length ls) + length v),
     ib_curPos = (if per_line i1 i (length ls) + length v < per_line w1 w (length ls)
        then per_line i1 i (length ls) + length v else p),
     ib_firstLine = False, ib_indsz = i, ib_width = per_line w1 w (length ls)\<rparr>"
proof -
  have "filled sp i1 w1 i w (ls @ [[v]])"
  proof (rule filled_line)
    assume ls: "ls \<noteq> []"
    then have "last ls \<noteq> []"
      using assms(1) unfolding block_state_def filled_def by (metis last_conv_nth diff_less length_greater_0_conv zero_less_one)
    then show "per_line w1 w (length ls - 1) \<le> per_line i1 i (length ls - 1) + length (lineText sp (last ls @ [v]))"
      using assms ls by (auto simp: block_state_def Let_def split: if_splits)
  qed (use assms(1) in \<open>simp add: block_state_def\<close>)
  then show ?thesis by (auto simp: block_state_def blockText_snoc)
qed

lemma block_state_word:
  assumes "block_state sp nl i1 w1 i w (ls @ [l]) s" and "\<not> ib_empty s" "ib_curPos s + length v + 1 < ib_width s"
  shows "block_state sp nl i1 w1 i w (ls @ [l @ [v]])
    (s\<lparr>ib_out := ib_out s @ sp # v, ib_curPos := ib_curPos s + 1 + length v\<rparr>)"
proof -
  have l: "l \<noteq> []" using assms(1) unfolding block_state_def filled_def
    by (metis length_append_singleton lessI nth_append_length)
  have "filled sp i1 w1 i w (ls @ [l @ [v]])"
    using assms l by (intro filled_word) (simp_all add: block_state_def Let_def)
  then show ?thesis using assms l by (simp add: block_state_def Let_def blockText_snoc)
qed

lemma indentWord_state:
  assumes s: "block_state sp nl i1 w1 i w ls s" and v: "wordLoop (\<lambda>c. \<not> ws c) esc pchr None = (v, rest)"
  obtains ls' where "block_state sp nl i1 w1 i w ls' (indentWord ws esc sp nl i w pchr s)" "concat ls' = concat ls @ [v]"
proof (cases "\<not> ib_empty s \<and> ib_curPos s + length v + 1 < ib_width s")
  case True
  moreover have "ls \<noteq> []" using True s by (auto simp: block_state_def)
  then obtain ls0 l where ls: "ls = ls0 @ [l]" by (cases ls rule: rev_cases) auto
  moreover have "indentWord ws esc sp nl i w pchr s =
      s\<lparr>ib_out := ib_out s @ sp # v, ib_curPos := ib_curPos s + 1 + length v\<rparr>"
    using True by (simp add: indentWord_def consume_word v fold_snoc Let_def)
  ultimately show thesis using block_state_word that [of "ls0 @ [l @ [v]]"] s by force
next
  case False
  have "indentWord ws esc sp nl i w pchr s =
    \<lparr>ib_out = blockText sp nl i1 i ls @ per_line [] nl (length ls) @ replicate (per_line i1 i (length ls)) sp @ v,
     ib_empty = (per_line w1 w (length ls) \<le> per_line i1 i (length ls) + length v),
     ib_curPos = (if per_line i1 i (length ls) + length v < per_line w1 w (length ls)
        then per_line i1 i (length ls) + length v
        else if ib_empty s then per_line i1 i (length ls) else 0),
     ib_firstLine = False, ib_indsz = i, ib_width = per_line w1 w (length ls)\<rparr>"
    using False by (auto simp: indentWord_def consume_word v fold_snoc Let_def indentLine_state [OF s])
  moreover have "\<not> ib_empty s \<Longrightarrow> ib_width s \<le> ib_curPos s + length v + 1" using False by simp
  ultimately show thesis using block_state_line [OF s] that [of "ls @ [[v]]"] by simp
qed

lemma wordsOf_dropWhile: "wordsOf ws esc (dropWhile ws cs) = wordsOf ws esc cs"
  by (simp add: wordsOf.simps [of ws esc cs] wordsOf.simps [of ws esc "dropWhile ws cs"])

lemma wordsOf_start:
  assumes "dropWhile ws cs = cs" and "cs \<noteq> []"
  shows "wordsOf ws esc cs = (case wordLoop (\<lambda>c. \<not> ws c) esc cs None of (w, rest) \<Rightarrow> w # wordsOf ws esc rest)"
proof -
  obtain c cs' where "cs = c # cs'" using assms(2) by (cases cs) auto
  with assms(1) show ?thesis by (subst wordsOf.simps) simp
qed

lemma indentLoop_block:
  "block_state sp nl i1 w1 i w ls s \<Longrightarrow> dropWhile ws pchr = pchr \<Longrightarrow>
   \<exists>ls'. concat ls' = concat ls @ wordsOf ws esc pchr \<and> filled sp i1 w1 i w ls' \<and>
     indentLoop ws esc sp nl i w pchr s = blockText sp nl i1 i ls'"
proof (induction "length pchr" arbitrary: pchr s ls rule: less_induct)
  case less
  show ?case
  proof (cases "pchr = []")
    case True
    with less.prems(1) show ?thesis
      by (intro exI [of _ ls]) (simp add: block_state_def indentLoop.simps wordsOf.simps)
  next
    case False
    obtain v rest where v: "wordLoop (\<lambda>c. \<not> ws c) esc pchr None = (v, rest)" by fastforce
    obtain ls' where ls': "block_state sp nl i1 w1 i w ls' (indentWord ws esc sp nl i w pchr s)"
        "concat ls' = concat ls @ [v]"
      using indentWord_state [OF less.prems(1) v] .
    have "indentLoop ws esc sp nl i w pchr s =
        indentLoop ws esc sp nl i w (dropWhile ws rest) (indentWord ws esc sp nl i w pchr s)"
      using False by (simp add: indentLoop.simps [of _ _ _ _ _ _ pchr] consume_word v)
    moreover have "wordsOf ws esc pchr = v # wordsOf ws esc (dropWhile ws rest)"
      using wordsOf_start [OF less.prems(2) False] v by (simp add: wordsOf_dropWhile)
    ultimately show ?thesis
      using less.hyps [OF loop_shorter [OF False v] ls'(1)] ls'(2) by simp
  qed
qed

text \<open>C21: The words of the input fill a block in their order: a line is narrower than its width, unless it
  is a single word, and no word would have fit the line before its own.
\<close>

theorem indent_block_fills:
  assumes "line1indent < line1maxWidth" and "indent < maxWidth"
  shows "\<exists>ls. indentBlock ws esc line1indent line1maxWidth indent maxWidth sp nl cs =
      Ok (blockText sp nl line1indent indent ls) \<and>
    concat ls = wordsOf ws esc cs \<and> filled sp line1indent line1maxWidth indent maxWidth ls"
proof (cases "dropWhile ws cs = []")
  case True
  then have "wordsOf ws esc cs = []" by (subst wordsOf.simps) (simp only: list.case)
  with True assms show ?thesis
    by (intro exI [of _ "[]"]) (simp add: indentBlock_def blockText_def filled_def)
next
  case False
  have "block_state sp nl line1indent line1maxWidth indent maxWidth []
      \<lparr>ib_out = [], ib_empty = True, ib_curPos = 0, ib_firstLine = True, ib_indsz = line1indent,
       ib_width = line1maxWidth\<rparr>"
    by (simp add: block_state_def blockText_def filled_def)
  from indentLoop_block [OF this, of ws "dropWhile ws cs" esc] show ?thesis
    using False assms by (auto simp: indentBlock_def wordsOf_dropWhile)
qed

lemma indent_block_fills_witness:
  "\<exists>ls. indentBlock (\<lambda>c. c = (0 :: nat)) (\<lambda>c. c = 9) 1 4 2 7 0 [8] [0, 1, 2, 0, 3, 9, 0, 0, 4] =
      Ok (blockText 0 [8] 1 2 ls) \<and> concat ls = [[1, 2], [3, 0], [4]] \<and> filled 0 1 4 2 7 ls"
proof -
  have "wordsOf (\<lambda>c. c = (0 :: nat)) (\<lambda>c. c = 9) [0, 1, 2, 0, 3, 9, 0, 0, 4] = [[1, 2], [3, 0], [4]]"
    by (simp add: wordsOf.simps)
  then show ?thesis
    using indent_block_fills [of 1 4 2 7 "\<lambda>c. c = (0 :: nat)" "\<lambda>c. c = 9" 0 "[8]" "[0, 1, 2, 0, 3, 9, 0, 0, 4]"]
    by simp
qed

end
