(* ===== verification/GetOptLong.thy ===== *)
theory GetOptLong
  imports TextBlocks "HOL-Library.Word"
begin

text \<open>
  \<open>lib/pimc/unix/GetOptLong.hpp\<close> and \<open>GetOptLong.cpp\<close>: the declaration of command line options and the
  interpretation of what \<open>getopt_long\<close> returns.  That function belongs to the C library of the host and is
  a parameter: the sequence of the results of its calls, of which the code makes those up to the first
  that returns -1.  The pointers of the maps into the vector of options are indices.
\<close>

section \<open>Options\<close>

text \<open>The two exceptions, and the ends of the program: an exception, or the help, which exits.\<close>

datatype cli_exception = GetOptLongError string | CommandLineError string

datatype cli_end = Threw cli_exception | HelpShown string

abbreviation fatal :: "string \<Rightarrow> (cli_exception, 'a) outcome" where
  "fatal msg \<equiv> Fail (GetOptLongError msg)"

abbreviation cli_error :: "string \<Rightarrow> (cli_exception, 'a) outcome" where
  "cli_error msg \<equiv> Fail (CommandLineError msg)"

record OptionInfo =
  oi_shortOpt :: int
  oi_longOpt :: string
  oi_flag :: bool
  oi_metavar :: string
  oi_optional :: bool
  oi_multiple :: bool
  oi_help :: string
  oi_flagValue :: bool
  oi_values :: "string list"

text \<open>A code as a character, and \<open>-c|--name\<close>.\<close>

definition code_text :: "int \<Rightarrow> string" where
  "code_text i = [char_of (nat i)]"

definition both_text :: "OptionInfo \<Rightarrow> string" where
  "both_text oi = ''-'' @ code_text (oi_shortOpt oi) @ ''|--'' @ oi_longOpt oi"

definition setValue :: "string option \<Rightarrow> OptionInfo \<Rightarrow> (cli_exception, OptionInfo) outcome" where
  "setValue value oi =
     (if oi_flag oi then Ok (oi\<lparr>oi_flagValue := True\<rparr>)
      else (case value of
          None \<Rightarrow> fatal (''option '' @ both_text oi @ '' requires a value, but none is provided'')
        | Some v \<Rightarrow>
            if oi_values oi \<noteq> [] \<and> \<not> oi_multiple oi
            then cli_error (''duplicate '' @ both_text oi @ '' option'')
            else Ok (oi\<lparr>oi_values := oi_values oi @ [v]\<rparr>)))"

definition helpHeading :: "OptionInfo \<Rightarrow> string" where
  "helpHeading oi =
     (let pipe = (oi_shortOpt oi \<noteq> 0) in
      (if oi_shortOpt oi \<noteq> 0 then ''-'' @ code_text (oi_shortOpt oi) else []) @
      (if oi_longOpt oi \<noteq> [] then (if pipe then ''|'' else []) @ ''--'' @ oi_longOpt oi else []) @
      (if \<not> oi_flag oi then '' <'' @ oi_metavar oi @ ''>'' else []))"

definition isHelp :: "OptionInfo \<Rightarrow> bool" where
  "isHelp oi \<longleftrightarrow> oi_flag oi \<and> oi_multiple oi"

text \<open>The names of an option in the messages of \<open>checkRequired\<close> and \<open>requiresArg\<close>.\<close>

definition name_text :: "OptionInfo \<Rightarrow> string" where
  "name_text oi =
     (if oi_shortOpt oi \<noteq> 0 \<and> oi_longOpt oi \<noteq> [] then both_text oi
      else if oi_shortOpt oi \<noteq> 0 then ''-'' @ code_text (oi_shortOpt oi)
      else ''--'' @ oi_longOpt oi)"

definition checkRequired :: "OptionInfo \<Rightarrow> (cli_exception, unit) outcome" where
  "checkRequired oi =
     (if \<not> oi_optional oi \<and> oi_values oi = []
      then cli_error (''option '' @ name_text oi @ '' is required'') else Ok ())"

definition requiresArg :: "OptionInfo \<Rightarrow> cli_exception" where
  "requiresArg oi = CommandLineError (''option '' @ name_text oi @ '' requires an argument'')"

section \<open>Checks\<close>

text \<open>Short options are ASCII characters, so that the code of one is not negative.\<close>

definition is_alnum :: "char \<Rightarrow> bool" where
  "is_alnum c \<longleftrightarrow> (let n = (of_char c :: nat) in 97 \<le> n \<and> n \<le> 122 \<or> 65 \<le> n \<and> n \<le> 90 \<or> 48 \<le> n \<and> n \<le> 57)"

abbreviation NoShort :: char where "NoShort \<equiv> CHR 0x00"

definition checkShortOpt :: "char \<Rightarrow> (cli_exception, unit) outcome" where
  "checkShortOpt c =
     (if c = NoShort then Ok () else if is_alnum c then Ok () else fatal (''invalid short option '' @ quoted [c]))"

definition checkLongOpt :: "string \<Rightarrow> (cli_exception, unit) outcome" where
  "checkLongOpt s =
     (if s = [] then Ok ()
      else if length s < 2
      then fatal (''invalid long option '' @ quoted s @ '', must be at least 2 characters long'')
      else if \<not> is_alnum (s ! 0) then fatal (''invalid long option '' @ quoted s)
      else if \<exists>c \<in> set (tl s). \<not> (is_alnum c \<or> c = CHR ''-'' \<or> c = CHR ''_'')
      then fatal (''invalid long option '' @ quoted s)
      else Ok ())"

definition checkOpts :: "char \<Rightarrow> string \<Rightarrow> (cli_exception, unit) outcome" where
  "checkOpts c s =
     (case checkShortOpt c of
        Inl e \<Rightarrow> Fail e
      | Inr _ \<Rightarrow>
          (case checkLongOpt s of
             Inl e \<Rightarrow> Fail e
           | Inr _ \<Rightarrow>
               if c = NoShort \<and> s = [] then fatal ''at least a short or long option must be defined''
               else Ok ()))"

definition checkMetavar :: "string \<Rightarrow> (cli_exception, unit) outcome" where
  "checkMetavar s =
     (if s = [] then fatal ''metavar may not be empty''
      else if length s < 2
      then fatal (''invalid metavar '' @ quoted s @ '', must be at least 2 characters long'')
      else if \<not> is_alnum (s ! 0) then fatal (''invalid metavar '' @ quoted s)
      else if \<exists>c \<in> set (tl s). \<not> (is_alnum c \<or> c = CHR ''-'' \<or> c = CHR ''_'' \<or> c = CHR ''='')
      then fatal (''invalid metavar '' @ quoted s)
      else Ok ())"

section \<open>Declarations\<close>

text \<open>An entry of the table of \<open>getopt_long\<close>, whose last entry has no name.\<close>

record long_option =
  lo_name :: "string option"
  lo_hasArg :: bool
  lo_val :: int

record GetOptLong =
  gol_ois :: "OptionInfo list"
  gol_oiMap :: "32 word \<rightharpoonup> nat"
  gol_shortOpts :: string
  gol_longOpts :: "long_option list"
  gol_optMap :: "int \<rightharpoonup> nat"
  gol_loSet :: "string set"
  gol_prog :: string
  gol_helpLegend :: string

definition newOption ::
    "char \<Rightarrow> string \<Rightarrow> bool \<Rightarrow> string \<Rightarrow> bool \<Rightarrow> bool \<Rightarrow> string \<Rightarrow> OptionInfo" where
  "newOption so lo flag metavar opt multiple help =
     \<lparr>oi_shortOpt = of_char so, oi_longOpt = lo, oi_flag = flag, oi_metavar = metavar, oi_optional = opt,
      oi_multiple = multiple, oi_help = help, oi_flagValue = False, oi_values = []\<rparr>"

text \<open>The steps of \<open>addOption\<close>, in their order; \<open>i\<close> is the index of the option.\<close>

definition emplaceShort :: "char \<Rightarrow> nat \<Rightarrow> GetOptLong \<Rightarrow> (cli_exception, GetOptLong) outcome" where
  "emplaceShort so i g =
     (if so \<noteq> NoShort then
        (if gol_optMap g (of_char so) \<noteq> None then fatal (''duplicate short option '' @ quoted [so])
         else Ok (g\<lparr>gol_optMap := (gol_optMap g)(of_char so \<mapsto> i)\<rparr>))
      else Ok g)"

definition emplaceLong :: "string \<Rightarrow> GetOptLong \<Rightarrow> (cli_exception, GetOptLong) outcome" where
  "emplaceLong lo g =
     (if lo \<noteq> [] then
        (if lo \<in> gol_loSet g then fatal (''duplicate long option '' @ quoted lo)
         else Ok (g\<lparr>gol_loSet := insert lo (gol_loSet g)\<rparr>))
      else Ok g)"

definition pushShort :: "char \<Rightarrow> bool \<Rightarrow> GetOptLong \<Rightarrow> GetOptLong" where
  "pushShort so flag g =
     (if so \<noteq> NoShort then
        g\<lparr>gol_shortOpts := (if gol_shortOpts g = [] then '':'' else gol_shortOpts g) @ [so] @
            (if \<not> flag then '':'' else [])\<rparr>
      else g)"

definition pushLong :: "string \<Rightarrow> bool \<Rightarrow> nat \<Rightarrow> GetOptLong \<Rightarrow> (cli_exception, GetOptLong) outcome" where
  "pushLong lo flag i g =
     (if lo \<noteq> [] then
        (let optId = - int (length (gol_ois g)) in
         if gol_optMap g optId \<noteq> None then fatal (''internal error, duplicate optId '' @ int_text optId)
         else Ok (g\<lparr>gol_longOpts := gol_longOpts g @ [\<lparr>lo_name = Some lo, lo_hasArg = \<not> flag, lo_val = optId\<rparr>],
           gol_optMap := (gol_optMap g)(optId \<mapsto> i)\<rparr>))
      else Ok g)"

definition addOption ::
    "32 word \<Rightarrow> char \<Rightarrow> string \<Rightarrow> bool \<Rightarrow> string \<Rightarrow> bool \<Rightarrow> bool \<Rightarrow> string \<Rightarrow> GetOptLong \<Rightarrow>
     (cli_exception, GetOptLong) outcome" where
  "addOption ident so lo flag metavar opt multiple help g =
     (let i = length (gol_ois g) in
      if gol_oiMap g ident \<noteq> None then fatal (''duplicate option id '' @ dec_string (unat ident))
      else
        (case emplaceShort so i
            (g\<lparr>gol_ois := gol_ois g @ [newOption so lo flag metavar opt multiple help],
              gol_oiMap := (gol_oiMap g)(ident \<mapsto> i)\<rparr>) of
           Inl e \<Rightarrow> Fail e
         | Inr g \<Rightarrow>
             (case emplaceLong lo g of
                Inl e \<Rightarrow> Fail e
              | Inr g \<Rightarrow> pushLong lo flag i (pushShort so flag g))))"

text \<open>\<open>UINT_MAX\<close> is the ID of the help option; a flag that is multiple designates it.\<close>

definition newGetOptLong :: "string \<Rightarrow> string \<Rightarrow> (cli_exception, GetOptLong) outcome" where
  "newGetOptLong prog helpLegend =
     addOption (- 1) CHR ''h'' ''help'' True [] True True ''Show this message and exit''
       \<lparr>gol_ois = [], gol_oiMap = Map.empty, gol_shortOpts = '':'', gol_longOpts = [], gol_optMap = Map.empty,
        gol_loSet = {}, gol_prog = prog, gol_helpLegend = helpLegend\<rparr>"

definition withLegend :: "string \<Rightarrow> (cli_exception, GetOptLong) outcome" where
  "withLegend helpLegend = newGetOptLong [] helpLegend"

definition declareFlag ::
    "32 word \<Rightarrow> char \<Rightarrow> string \<Rightarrow> string \<Rightarrow> GetOptLong \<Rightarrow> (cli_exception, GetOptLong) outcome" where
  "declareFlag ident so lo help g =
     (case checkOpts so lo of Inl e \<Rightarrow> Fail e | Inr _ \<Rightarrow> addOption ident so lo True [] True False help g)"

definition declareRequired ::
    "32 word \<Rightarrow> char \<Rightarrow> string \<Rightarrow> string \<Rightarrow> string \<Rightarrow> bool \<Rightarrow> GetOptLong \<Rightarrow> (cli_exception, GetOptLong) outcome" where
  "declareRequired ident so lo metavar help multiple g =
     (case checkOpts so lo of
        Inl e \<Rightarrow> Fail e
      | Inr _ \<Rightarrow>
          (case checkMetavar metavar of
             Inl e \<Rightarrow> Fail e
           | Inr _ \<Rightarrow> addOption ident so lo False metavar False multiple help g))"

definition declareOptional ::
    "32 word \<Rightarrow> char \<Rightarrow> string \<Rightarrow> string \<Rightarrow> string \<Rightarrow> bool \<Rightarrow> GetOptLong \<Rightarrow> (cli_exception, GetOptLong) outcome" where
  "declareOptional ident so lo metavar help multiple g =
     (case checkOpts so lo of
        Inl e \<Rightarrow> Fail e
      | Inr _ \<Rightarrow>
          (case checkMetavar metavar of
             Inl e \<Rightarrow> Fail e
           | Inr _ \<Rightarrow> addOption ident so lo False metavar True multiple help g))"

section \<open>The command line\<close>

definition fini :: "GetOptLong \<Rightarrow> GetOptLong" where
  "fini g = g\<lparr>gol_shortOpts := gol_shortOpts g @ [CHR 0x00],
     gol_longOpts := gol_longOpts g @ [\<lparr>lo_name = None, lo_hasArg = False, lo_val = 0\<rparr>]\<rparr>"

definition is_space :: "char \<Rightarrow> bool" where
  "is_space c \<longleftrightarrow> (let n = (of_char c :: nat) in 9 \<le> n \<and> n \<le> 13 \<or> n = 32)"

definition is_escape :: "char \<Rightarrow> bool" where
  "is_escape c \<longleftrightarrow> c = CHR 0x5C"

text \<open>A line of the help; the widths make the failure of \<open>indentBlock\<close> impossible.\<close>

definition helpLine :: "OptionInfo \<Rightarrow> string" where
  "helpLine oi =
     (let heading = helpHeading oi; olsz = length heading; short = (olsz + 1 < 25);
          line1indent = (if short then 25 - olsz else 25);
          line1maxWidth = (if short then 90 - olsz else 90) in
      heading @ (if short then [] else [CHR 0x0A]) @
      (case indentBlock is_space is_escape line1indent line1maxWidth 25 90 CHR '' '' [CHR 0x0A] (oi_help oi) of
         Inl _ \<Rightarrow> [] | Inr t \<Rightarrow> t) @ [CHR 0x0A])"

definition showHelp :: "string \<Rightarrow> GetOptLong \<Rightarrow> string" where
  "showHelp progName g =
     takeWhile (\<lambda>c. c \<noteq> CHR 0x00)
       (''Usage: '' @ progName @ '' '' @ gol_helpLegend g @ [CHR 0x0A, CHR 0x0A] @ ''Options:'' @
        [CHR 0x0A, CHR 0x0A] @ concat (map helpLine (gol_ois g)))"

text \<open>What a call of \<open>getopt_long\<close> returns and leaves in \<open>optarg\<close>, \<open>optopt\<close>, \<open>optind\<close> and the arguments.\<close>

record getopt_call =
  gc_ret :: int
  gc_optarg :: "string option"
  gc_optopt :: int
  gc_optind :: nat
  gc_argv :: "string list"

type_synonym getopt = "string list \<Rightarrow> string \<Rightarrow> long_option list \<Rightarrow> getopt_call list"

text \<open>The loop, which returns the call that ended it; \<open>None\<close> where no call returns -1.\<close>

fun argsLoop :: "string \<Rightarrow> getopt_call list \<Rightarrow> GetOptLong \<Rightarrow> (cli_end, GetOptLong \<times> getopt_call) outcome option" where
  "argsLoop progName [] g = None"
| "argsLoop progName (c # cs) g =
     (if gc_ret c = -1 then Some (Ok (g, c))
      else if gc_ret c = 58 then
        (case gol_optMap g (gc_optopt c) of
           Some k \<Rightarrow> Some (Fail (Threw (requiresArg (gol_ois g ! k))))
         | None \<Rightarrow> Some (Fail (Threw (GetOptLongError
             (''getopt_long(), optopt contains unknown code '' @ int_text (gc_optopt c))))))
      else if gc_ret c = 63 then
        (if gc_optopt c \<noteq> 0
         then Some (Fail (Threw (CommandLineError (''unrecognized option -'' @ code_text (gc_optopt c)))))
         else Some (Fail (Threw (CommandLineError (''unrecognized option '' @ gc_argv c ! (gc_optind c - 1))))))
      else
        (case gol_optMap g (gc_ret c) of
           None \<Rightarrow> Some (Fail (Threw (GetOptLongError (''getopt_long() returned unknown code '' @ int_text (gc_ret c)))))
         | Some k \<Rightarrow>
             if isHelp (gol_ois g ! k) then Some (Fail (HelpShown (showHelp progName g)))
             else
               (case setValue (gc_optarg c) (gol_ois g ! k) of
                  Inl e \<Rightarrow> Some (Fail (Threw e))
                | Inr oi \<Rightarrow> argsLoop progName cs (g\<lparr>gol_ois := (gol_ois g)[k := oi]\<rparr>))))"

fun checkAllRequired :: "OptionInfo list \<Rightarrow> (cli_exception, unit) outcome" where
  "checkAllRequired [] = Ok ()"
| "checkAllRequired (oi # ois) = (case checkRequired oi of Inl e \<Rightarrow> Fail e | Inr _ \<Rightarrow> checkAllRequired ois)"

record GetOptLongResult =
  res_ois :: "OptionInfo list"
  res_oiMap :: "32 word \<rightharpoonup> nat"
  res_positional :: "string list"

definition args :: "getopt \<Rightarrow> string list \<Rightarrow> GetOptLong \<Rightarrow> (cli_end, GetOptLongResult) outcome option" where
  "args getopt_long argv g =
     (let g = fini g; progName = (if gol_prog g = [] then argv ! 0 else gol_prog g) in
      case argsLoop progName (getopt_long argv (gol_shortOpts g) (gol_longOpts g)) g of
        None \<Rightarrow> None
      | Some (Inl e) \<Rightarrow> Some (Fail e)
      | Some (Inr (g, c)) \<Rightarrow>
          (case checkAllRequired (gol_ois g) of
             Inl e \<Rightarrow> Some (Fail (Threw e))
           | Inr _ \<Rightarrow> Some (Ok \<lparr>res_ois = gol_ois g, res_oiMap = gol_oiMap g,
               res_positional = drop (gc_optind c) (gc_argv c)\<rparr>)))"

section \<open>The result\<close>

definition byId :: "32 word \<Rightarrow> GetOptLongResult \<Rightarrow> (cli_exception, OptionInfo) outcome" where
  "byId ident r =
     (case res_oiMap r ident of
        None \<Rightarrow> fatal (''non-existent id '' @ dec_string (unat ident))
      | Some k \<Rightarrow> Ok (res_ois r ! k))"

definition flagOf :: "32 word \<Rightarrow> GetOptLongResult \<Rightarrow> (cli_exception, bool) outcome" where
  "flagOf ident r =
     (case byId ident r of
        Inl e \<Rightarrow> Fail e
      | Inr oi \<Rightarrow>
          if \<not> oi_flag oi then fatal (''option with id '' @ dec_string (unat ident) @ '' is not a flag'')
          else Ok (oi_flagValue oi))"

definition valuesOf :: "32 word \<Rightarrow> GetOptLongResult \<Rightarrow> (cli_exception, string list) outcome" where
  "valuesOf ident r =
     (case byId ident r of
        Inl e \<Rightarrow> Fail e
      | Inr oi \<Rightarrow>
          if oi_flag oi then fatal (''option with id '' @ dec_string (unat ident) @ '' is a flag'')
          else Ok (oi_values oi))"

definition positional :: "GetOptLongResult \<Rightarrow> string list" where
  "positional r = res_positional r"

section \<open>What declarations build\<close>

text \<open>A call of \<open>flag\<close>, \<open>required\<close> or \<open>optional\<close>, and a chain of them.\<close>

datatype Declaration =
  DFlag (decl_id: "32 word") (decl_short: char) (decl_long: string) (decl_help: string)
| DRequired (decl_id: "32 word") (decl_short: char) (decl_long: string) (decl_metavar: string) (decl_help: string)
    (decl_multiple: bool)
| DOptional (decl_id: "32 word") (decl_short: char) (decl_long: string) (decl_metavar: string) (decl_help: string)
    (decl_multiple: bool)

fun declareOne :: "Declaration \<Rightarrow> GetOptLong \<Rightarrow> (cli_exception, GetOptLong) outcome" where
  "declareOne (DFlag ident so lo help) g = declareFlag ident so lo help g"
| "declareOne (DRequired ident so lo metavar help multiple) g = declareRequired ident so lo metavar help multiple g"
| "declareOne (DOptional ident so lo metavar help multiple) g = declareOptional ident so lo metavar help multiple g"

fun declareAll :: "Declaration list \<Rightarrow> GetOptLong \<Rightarrow> (cli_exception, GetOptLong) outcome" where
  "declareAll [] g = Ok g"
| "declareAll (d # ds) g = (case declareOne d g of Inl e \<Rightarrow> Fail e | Inr g \<Rightarrow> declareAll ds g)"

fun option_of :: "Declaration \<Rightarrow> OptionInfo" where
  "option_of (DFlag ident so lo help) = newOption so lo True [] True False help"
| "option_of (DRequired ident so lo metavar help multiple) = newOption so lo False metavar False multiple help"
| "option_of (DOptional ident so lo metavar help multiple) = newOption so lo False metavar True multiple help"

definition helpOption :: OptionInfo where
  "helpOption = newOption CHR ''h'' ''help'' True [] True True ''Show this message and exit''"

definition table :: "Declaration list \<Rightarrow> (32 word \<times> OptionInfo) list" where
  "table ds = (- 1, helpOption) # map (\<lambda>d. (decl_id d, option_of d)) ds"

text \<open>Valid names.\<close>

definition valid_name :: "char set \<Rightarrow> string \<Rightarrow> bool" where
  "valid_name extra s \<longleftrightarrow> 2 \<le> length s \<and> is_alnum (hd s) \<and> (\<forall>c \<in> set (tl s). is_alnum c \<or> c \<in> extra)"

fun valid_declaration :: "Declaration \<Rightarrow> bool" where
  "valid_declaration d \<longleftrightarrow>
     (decl_short d = NoShort \<or> is_alnum (decl_short d)) \<and>
     (decl_long d = [] \<or> valid_name {CHR ''-'', CHR ''_''} (decl_long d)) \<and>
     (decl_short d \<noteq> NoShort \<or> decl_long d \<noteq> []) \<and>
     (case d of DFlag _ _ _ _ \<Rightarrow> True | _ \<Rightarrow> valid_name {CHR ''-'', CHR ''_'', CHR ''=''} (decl_metavar d))"

declare valid_declaration.simps [simp del]

text \<open>No two options share an ID, a short or a long name.\<close>

definition distinct_options :: "(32 word \<times> OptionInfo) list \<Rightarrow> bool" where
  "distinct_options t \<longleftrightarrow> distinct (map fst t) \<and> distinct (filter (\<lambda>c. c \<noteq> 0) (map (oi_shortOpt \<circ> snd) t)) \<and>
     distinct (filter (\<lambda>s. s \<noteq> []) (map (oi_longOpt \<circ> snd) t))"

text \<open>The codes of an option, its part of the string of short options, and its entry in the table of \<open>getopt_long\<close>.\<close>

definition option_code :: "OptionInfo list \<Rightarrow> int \<Rightarrow> nat \<Rightarrow> bool" where
  "option_code ois c k \<longleftrightarrow> k < length ois \<and>
     (oi_shortOpt (ois ! k) \<noteq> 0 \<and> c = oi_shortOpt (ois ! k) \<or> oi_longOpt (ois ! k) \<noteq> [] \<and> c = - 1 - int k)"

definition short_spec :: "OptionInfo \<Rightarrow> string" where
  "short_spec oi = (if oi_shortOpt oi = 0 then [] else code_text (oi_shortOpt oi) @ (if oi_flag oi then [] else '':''))"

definition long_spec :: "OptionInfo list \<Rightarrow> long_option list" where
  "long_spec ois = concat (map (\<lambda>k. if oi_longOpt (ois ! k) = [] then []
     else [\<lparr>lo_name = Some (oi_longOpt (ois ! k)), lo_hasArg = \<not> oi_flag (ois ! k), lo_val = - 1 - int k\<rparr>])
     [0..<length ois])"

definition parser_table :: "(32 word \<times> OptionInfo) list \<Rightarrow> GetOptLong \<Rightarrow> bool" where
  "parser_table t g \<longleftrightarrow>
     gol_ois g = map snd t \<and>
     (\<forall>ident k. gol_oiMap g ident = Some k \<longleftrightarrow> k < length t \<and> fst (t ! k) = ident) \<and>
     (\<forall>c k. gol_optMap g c = Some k \<longleftrightarrow> option_code (gol_ois g) c k) \<and>
     gol_loSet g = oi_longOpt ` set (gol_ois g) - {[]} \<and>
     gol_shortOpts g = '':'' @ concat (map short_spec (gol_ois g)) \<and>
     gol_longOpts g = long_spec (gol_ois g)"

lemma long_spec_snoc:
  "long_spec (ois @ [oi]) = long_spec ois @ (if oi_longOpt oi = [] then []
     else [\<lparr>lo_name = Some (oi_longOpt oi), lo_hasArg = \<not> oi_flag oi, lo_val = - 1 - int (length ois)\<rparr>])"
proof -
  have "map (\<lambda>k. if oi_longOpt ((ois @ [oi]) ! k) = [] then []
       else [\<lparr>lo_name = Some (oi_longOpt ((ois @ [oi]) ! k)), lo_hasArg = \<not> oi_flag ((ois @ [oi]) ! k), lo_val = - 1 - int k\<rparr>]) [0..<length ois] =
     map (\<lambda>k. if oi_longOpt (ois ! k) = [] then []
       else [\<lparr>lo_name = Some (oi_longOpt (ois ! k)), lo_hasArg = \<not> oi_flag (ois ! k), lo_val = - 1 - int k\<rparr>]) [0..<length ois]"
    by (simp add: nth_append)
  then show ?thesis unfolding long_spec_def
    by (simp only: length_append_singleton upt_Suc_append [OF le0] map_append concat_append) simp
qed

lemma option_code_snoc:
  "option_code (ois @ [oi]) c k \<longleftrightarrow> option_code ois c k \<or>
     k = length ois \<and> (oi_shortOpt oi \<noteq> 0 \<and> c = oi_shortOpt oi \<or> oi_longOpt oi \<noteq> [] \<and> c = - 1 - int k)"
  by (auto simp: option_code_def nth_append less_Suc_eq)

text \<open>What a new option must not share with the others, and the parser with the option added.\<close>

definition fresh_option :: "(32 word \<times> OptionInfo) list \<Rightarrow> 32 word \<Rightarrow> OptionInfo \<Rightarrow> bool" where
  "fresh_option t ident oi \<longleftrightarrow> ident \<notin> fst ` set t \<and>
     (oi_shortOpt oi = 0 \<or> oi_shortOpt oi \<notin> (oi_shortOpt \<circ> snd) ` set t) \<and>
     (oi_longOpt oi = [] \<or> oi_longOpt oi \<notin> (oi_longOpt \<circ> snd) ` set t)"

definition added :: "32 word \<Rightarrow> OptionInfo \<Rightarrow> GetOptLong \<Rightarrow> GetOptLong" where
  "added ident oi g =
     (let n = length (gol_ois g) in
      g\<lparr>gol_ois := gol_ois g @ [oi], gol_oiMap := (gol_oiMap g)(ident \<mapsto> n),
        gol_shortOpts := gol_shortOpts g @ short_spec oi,
        gol_longOpts := gol_longOpts g @ (if oi_longOpt oi = [] then []
          else [\<lparr>lo_name = Some (oi_longOpt oi), lo_hasArg = \<not> oi_flag oi, lo_val = - 1 - int n\<rparr>]),
        gol_optMap := (\<lambda>c. if oi_longOpt oi \<noteq> [] \<and> c = - 1 - int n then Some n
          else if oi_shortOpt oi \<noteq> 0 \<and> c = oi_shortOpt oi then Some n else gol_optMap g c),
        gol_loSet := gol_loSet g \<union> ({oi_longOpt oi} - {[]})\<rparr>)"

lemma short_code [simp]: "(of_char c :: int) = 0 \<longleftrightarrow> c = NoShort"
proof -
  have "(of_char c :: int) = of_char NoShort \<longleftrightarrow> c = NoShort" by (simp only: of_char_eq_iff)
  then show ?thesis by simp
qed

lemma code_text_of_char [simp]: "code_text (of_char c) = [c]"
proof -
  have "nat (of_char c) = (of_char c :: nat)" by (metis nat_int of_nat_of_char)
  then show ?thesis by (simp add: code_text_def)
qed

lemma of_char_nonneg [simp]: "0 \<le> (of_char c :: int)"
  by (metis of_nat_0_le_iff of_nat_of_char)

lemma newOption_simps [simp]:
  "oi_shortOpt (newOption so lo flag metavar opt multiple help) = of_char so"
  "oi_longOpt (newOption so lo flag metavar opt multiple help) = lo"
  "oi_flag (newOption so lo flag metavar opt multiple help) = flag"
  "oi_optional (newOption so lo flag metavar opt multiple help) = opt"
  "oi_multiple (newOption so lo flag metavar opt multiple help) = multiple"
  "oi_values (newOption so lo flag metavar opt multiple help) = []"
  "oi_flagValue (newOption so lo flag metavar opt multiple help) = False"
  by (simp_all add: newOption_def)

lemma parser_table_code:
  assumes "parser_table t g"
  shows "gol_optMap g c = None \<longleftrightarrow> (\<forall>k. \<not> option_code (map snd t) c k)"
    and "gol_oiMap g ident = None \<longleftrightarrow> ident \<notin> fst ` set t"
    and "length (gol_ois g) = length t"
proof -
  show "gol_optMap g c = None \<longleftrightarrow> (\<forall>k. \<not> option_code (map snd t) c k)"
    using assms unfolding parser_table_def by (metis option.exhaust option.distinct(1))
  have "gol_oiMap g ident = None \<longleftrightarrow> (\<forall>k < length t. fst (t ! k) \<noteq> ident)"
    using assms unfolding parser_table_def by (metis option.exhaust option.distinct(1))
  then show "gol_oiMap g ident = None \<longleftrightarrow> ident \<notin> fst ` set t"
    using in_set_conv_nth [of ident "map fst t"] by auto
  show "length (gol_ois g) = length t" using assms by (simp add: parser_table_def)
qed

lemma no_short_code:
  assumes "\<forall>oi \<in> snd ` set t. 0 \<le> oi_shortOpt oi" and "0 < c"
  shows "(\<forall>k. \<not> option_code (map snd t) c k) \<longleftrightarrow> c \<notin> (oi_shortOpt \<circ> snd) ` set t"
  using assms by (force simp: option_code_def in_set_conv_nth)

lemma no_long_code:
  assumes "\<forall>oi \<in> snd ` set t. 0 \<le> oi_shortOpt oi"
  shows "\<not> option_code (map snd t) (- 1 - int (length t)) k"
  using assms by (force simp: option_code_def in_set_conv_nth)

lemma addOption_added:
  assumes t: "parser_table t g" and pos: "\<forall>oi \<in> snd ` set t. 0 \<le> oi_shortOpt oi"
    and oi_def: "oi = newOption so lo flag metavar opt multiple help"
  shows "fresh_option t ident oi \<Longrightarrow>
      addOption ident so lo flag metavar opt multiple help g = Ok (added ident oi g)"
    and "\<not> fresh_option t ident oi \<Longrightarrow>
      \<exists>msg. addOption ident so lo flag metavar opt multiple help g = fatal msg"
proof -
  have ident: "gol_oiMap g ident = None \<longleftrightarrow> ident \<notin> fst ` set t" using parser_table_code(2) [OF t] .
  have short: "gol_optMap g (of_char so) = None \<longleftrightarrow> of_char so \<notin> (oi_shortOpt \<circ> snd) ` set t" if "so \<noteq> NoShort"
  proof -
    have "0 < (of_char so :: int)" using that by (simp add: less_le)
    then show ?thesis using parser_table_code(1) [OF t] no_short_code [OF pos] by simp
  qed
  have long: "lo \<in> gol_loSet g \<longleftrightarrow> lo \<in> (oi_longOpt \<circ> snd) ` set t" if "lo \<noteq> []"
    using t that by (auto simp: parser_table_def)
  have code: "gol_optMap g (- 1 - int (length (gol_ois g))) = None"
    using parser_table_code [OF t] no_long_code [OF pos] by simp
  have clash: "(of_char so :: int) \<noteq> - 1 - int (length (gol_ois g))" using of_char_nonneg [of so] by linarith
  have opts: "gol_shortOpts g \<noteq> []" using t by (simp add: parser_table_def)
  show "addOption ident so lo flag metavar opt multiple help g = Ok (added ident oi g)" if "fresh_option t ident oi"
  proof -
    let ?n = "length (gol_ois g)"
    define g1 where "g1 = g\<lparr>gol_ois := gol_ois g @ [oi], gol_oiMap := (gol_oiMap g)(ident \<mapsto> ?n)\<rparr>"
    define g2 where "g2 = g1\<lparr>gol_optMap := (if so \<noteq> NoShort then (gol_optMap g1)(of_char so \<mapsto> ?n) else gol_optMap g1)\<rparr>"
    define g3 where "g3 = g2\<lparr>gol_loSet := gol_loSet g2 \<union> ({lo} - {[]})\<rparr>"
    have fresh: "gol_oiMap g ident = None" "so \<noteq> NoShort \<Longrightarrow> gol_optMap g (of_char so) = None"
      "lo \<noteq> [] \<Longrightarrow> lo \<notin> gol_loSet g"
      using that ident short long by (auto simp: fresh_option_def oi_def)
    have oi: "oi_shortOpt oi = of_char so" "oi_longOpt oi = lo" "oi_flag oi = flag"
      by (simp_all add: oi_def)
    have "emplaceShort so ?n g1 = Ok g2" using fresh by (simp add: emplaceShort_def g1_def g2_def)
    moreover have "emplaceLong lo g2 = Ok g3" using fresh by (simp add: emplaceLong_def g1_def g2_def g3_def)
    ultimately have "addOption ident so lo flag metavar opt multiple help g = pushLong lo flag ?n (pushShort so flag g3)"
      using fresh(1) unfolding addOption_def oi_def [symmetric] by (simp add: g1_def)
    also have "pushShort so flag g3 = g3\<lparr>gol_shortOpts := gol_shortOpts g @ short_spec oi\<rparr>"
      using opts by (simp add: pushShort_def short_spec_def oi g1_def g2_def g3_def)
    also have "pushLong lo flag ?n \<dots> = Ok (added ident oi g)"
    proof (cases "lo = []")
      case True
      then show ?thesis
        by (simp add: pushLong_def) (rule GetOptLong.GetOptLong.equality;
          simp add: g1_def g2_def g3_def added_def Let_def oi fun_upd_def fun_eq_iff)
    next
      case False
      have "gol_optMap g3 (- 1 - int ?n) = None" "length (gol_ois g3) = Suc ?n"
        using code clash by (simp_all add: g1_def g2_def g3_def)
      with False have "pushLong lo flag ?n (g3\<lparr>gol_shortOpts := gol_shortOpts g @ short_spec oi\<rparr>) =
          Ok (g3\<lparr>gol_shortOpts := gol_shortOpts g @ short_spec oi,
            gol_longOpts := gol_longOpts g3 @ [\<lparr>lo_name = Some lo, lo_hasArg = \<not> flag, lo_val = - 1 - int ?n\<rparr>],
            gol_optMap := (gol_optMap g3)(- 1 - int ?n \<mapsto> ?n)\<rparr>)"
        by (simp add: pushLong_def Let_def)
      also have "\<dots> = Ok (added ident oi g)"
        using False by simp (rule GetOptLong.GetOptLong.equality;
          simp add: g1_def g2_def g3_def added_def Let_def oi fun_upd_def fun_eq_iff)
      finally show ?thesis .
    qed
    finally show ?thesis .
  qed
  show "\<exists>msg. addOption ident so lo flag metavar opt multiple help g = fatal msg" if stale: "\<not> fresh_option t ident oi"
  proof -
    let ?g = "g\<lparr>gol_ois := gol_ois g @ [newOption so lo flag metavar opt multiple help],
      gol_oiMap := (gol_oiMap g)(ident \<mapsto> length (gol_ois g))\<rparr>"
    have clash: "gol_oiMap g ident \<noteq> None \<or> (so \<noteq> NoShort \<and> gol_optMap g (of_char so) \<noteq> None) \<or>
        (lo \<noteq> [] \<and> lo \<in> gol_loSet g)"
      using stale ident short long by (auto simp: fresh_option_def oi_def)
    show ?thesis
    proof (cases "gol_oiMap g ident = None")
      case True
      note free = True
      show ?thesis
      proof (cases "so \<noteq> NoShort \<and> gol_optMap g (of_char so) \<noteq> None")
        case True
        with free show ?thesis by (simp add: addOption_def Let_def emplaceShort_def)
      next
        case False
        with clash free have "lo \<noteq> []" "lo \<in> gol_loSet g" by auto
        with free False show ?thesis
          by (cases "so = NoShort") (simp_all add: addOption_def Let_def emplaceShort_def emplaceLong_def)
      qed
    qed (simp add: addOption_def Let_def)
  qed
qed

lemma parser_table_added:
  assumes t: "parser_table t g" and pos: "\<forall>oi \<in> snd ` set t. 0 \<le> oi_shortOpt oi" and "0 \<le> oi_shortOpt oi"
    and fresh: "fresh_option t ident oi"
  shows "parser_table (t @ [(ident, oi)]) (added ident oi g)"
proof -
  have n: "length (gol_ois g) = length t" and ois: "gol_ois g = map snd t"
    using t by (simp_all add: parser_table_def)
  have "gol_oiMap (added ident oi g) x = Some k \<longleftrightarrow>
      k < length (t @ [(ident, oi)]) \<and> fst ((t @ [(ident, oi)]) ! k) = x" for x k
  proof -
    have "fst (t ! k) \<noteq> ident" if "k < length t" for k
      using fresh that nth_mem [OF that] by (force simp: fresh_option_def)
    then show ?thesis using t n by (auto simp: parser_table_def added_def Let_def nth_append less_Suc_eq)
  qed
  moreover have "gol_optMap (added ident oi g) c = Some k \<longleftrightarrow> option_code (gol_ois (added ident oi g)) c k" for c k
  proof -
    have old: "gol_optMap g c = Some k \<longleftrightarrow> option_code (map snd t) c k" for c
      using t ois by (simp add: parser_table_def)
    have long: "\<not> option_code (map snd t) (- 1 - int (length t)) k" using no_long_code [OF pos] .
    have short: "\<not> option_code (map snd t) (oi_shortOpt oi) k" if "oi_shortOpt oi \<noteq> 0"
      using no_short_code [OF pos, of "oi_shortOpt oi"] fresh assms(3) that by (simp add: fresh_option_def)
    have "oi_shortOpt oi \<noteq> - 1 - int (length t)" using assms(3) by linarith
    then show ?thesis
      using old long short by (auto simp: added_def Let_def ois option_code_snoc)
  qed
  moreover have "gol_loSet (added ident oi g) = oi_longOpt ` set (gol_ois (added ident oi g)) - {[]}"
    "gol_shortOpts (added ident oi g) = '':'' @ concat (map short_spec (gol_ois (added ident oi g)))"
    "gol_longOpts (added ident oi g) = long_spec (gol_ois (added ident oi g))"
    using t by (auto simp: parser_table_def added_def Let_def long_spec_snoc)
  moreover have "gol_ois (added ident oi g) = map snd (t @ [(ident, oi)])"
    by (simp add: added_def Let_def ois)
  ultimately show ?thesis unfolding parser_table_def by blast
qed

lemma distinct_options_snoc:
  "distinct_options (t @ [(ident, oi)]) \<longleftrightarrow> distinct_options t \<and> fresh_option t ident oi"
  by (auto simp: distinct_options_def fresh_option_def)

definition entry :: "Declaration \<Rightarrow> 32 word \<times> OptionInfo" where
  "entry d = (decl_id d, option_of d)"

definition valid_opts :: "char \<Rightarrow> string \<Rightarrow> bool" where
  "valid_opts so lo \<longleftrightarrow> (so = NoShort \<or> is_alnum so) \<and> (lo = [] \<or> valid_name {CHR ''-'', CHR ''_''} lo) \<and>
     (so \<noteq> NoShort \<or> lo \<noteq> [])"

lemma hd_at: "2 \<le> length s \<Longrightarrow> s ! 0 = hd s"
  by (cases s) simp_all

lemma checkOpts_valid:
  "if valid_opts so lo then checkOpts so lo = Ok () else \<exists>msg. checkOpts so lo = fatal msg"
  by (auto simp: valid_opts_def valid_name_def checkOpts_def checkShortOpt_def checkLongOpt_def hd_at not_less)

lemma checkMetavar_valid:
  "if valid_name {CHR ''-'', CHR ''_'', CHR ''=''} s then checkMetavar s = Ok () else \<exists>msg. checkMetavar s = fatal msg"
  by (auto simp: valid_name_def checkMetavar_def hd_at not_less)

lemma valid_declaration_opts:
  "valid_declaration d \<longleftrightarrow> valid_opts (decl_short d) (decl_long d) \<and>
     (case d of DFlag _ _ _ _ \<Rightarrow> True | _ \<Rightarrow> valid_name {CHR ''-'', CHR ''_'', CHR ''=''} (decl_metavar d))"
  by (auto simp: valid_declaration.simps valid_opts_def)

lemma added_fields:
  "gol_prog (added ident oi g) = gol_prog g" "gol_helpLegend (added ident oi g) = gol_helpLegend g"
  by (simp_all add: added_def Let_def)

lemma declareOne_added:
  assumes t: "parser_table t g" and pos: "\<forall>oi \<in> snd ` set t. 0 \<le> oi_shortOpt oi"
  shows "if valid_declaration d \<and> fresh_option t (decl_id d) (option_of d)
    then declareOne d g = Ok (added (decl_id d) (option_of d) g) else \<exists>msg. declareOne d g = fatal msg"
proof -
  have opts: "checkOpts (decl_short d) (decl_long d) = Ok ()" if "valid_opts (decl_short d) (decl_long d)"
    using checkOpts_valid [of "decl_short d" "decl_long d"] that by simp
  have opts': "\<exists>msg. checkOpts (decl_short d) (decl_long d) = fatal msg" if "\<not> valid_opts (decl_short d) (decl_long d)"
    using checkOpts_valid [of "decl_short d" "decl_long d"] that by simp
  note add = addOption_added [OF t pos refl]
  show ?thesis
  proof (cases d)
    case (DFlag ident so lo hlp)
    show ?thesis
      using opts opts' add(1) [of ident so lo True "[]" True False hlp] add(2) [of ident so lo True "[]" True False hlp]
      by (cases "valid_opts so lo") (auto simp: DFlag valid_declaration_opts declareFlag_def)
  next
    case (DRequired ident so lo metavar hlp multiple)
    show ?thesis
      using opts opts' checkMetavar_valid [of metavar] add(1) [of ident so lo False metavar False multiple hlp]
        add(2) [of ident so lo False metavar False multiple hlp]
      by (cases "valid_opts so lo") (auto simp: DRequired valid_declaration_opts declareRequired_def split: if_splits)
  next
    case (DOptional ident so lo metavar hlp multiple)
    show ?thesis
      using opts opts' checkMetavar_valid [of metavar] add(1) [of ident so lo False metavar True multiple hlp]
        add(2) [of ident so lo False metavar True multiple hlp]
      by (cases "valid_opts so lo") (auto simp: DOptional valid_declaration_opts declareOptional_def split: if_splits)
  qed
qed

lemma option_of_short: "oi_shortOpt (option_of d) = of_char (decl_short d)" "oi_longOpt (option_of d) = decl_long d"
  by (cases d, simp_all)+

lemma distinct_options_prefix: "distinct_options (t @ t') \<Longrightarrow> distinct_options t"
  by (auto simp: distinct_options_def)

lemma declareAll_table:
  assumes "parser_table t g" and "\<forall>oi \<in> snd ` set t. 0 \<le> oi_shortOpt oi" and "distinct_options t"
  shows "if (\<forall>d \<in> set ds. valid_declaration d) \<and> distinct_options (t @ map entry ds)
    then \<exists>g'. declareAll ds g = Ok g' \<and> parser_table (t @ map entry ds) g' \<and> gol_prog g' = gol_prog g \<and>
      gol_helpLegend g' = gol_helpLegend g
    else \<exists>msg. declareAll ds g = fatal msg"
  using assms
proof (induction ds arbitrary: t g)
  case (Cons d ds)
  have split: "distinct_options ((t @ [entry d]) @ map entry ds) \<Longrightarrow> fresh_option t (decl_id d) (option_of d)"
    using distinct_options_snoc [of t "decl_id d" "option_of d"] distinct_options_prefix [of "t @ [entry d]"]
    by (simp only: entry_def)
  show ?case
  proof (cases "valid_declaration d \<and> fresh_option t (decl_id d) (option_of d)")
    case True
    then have d: "declareOne d g = Ok (added (decl_id d) (option_of d) g)"
      using declareOne_added [OF Cons.prems(1,2), of d] by simp
    have "parser_table (t @ [entry d]) (added (decl_id d) (option_of d) g)"
      using parser_table_added [OF Cons.prems(1,2)] True by (simp add: entry_def option_of_short)
    moreover have "\<forall>oi \<in> snd ` set (t @ [entry d]). 0 \<le> oi_shortOpt oi"
      using Cons.prems(2) by (simp add: entry_def option_of_short)
    moreover have "distinct_options (t @ [entry d])"
      using Cons.prems(3) True by (simp add: entry_def distinct_options_snoc)
    ultimately have "if (\<forall>d \<in> set ds. valid_declaration d) \<and> distinct_options ((t @ [entry d]) @ map entry ds)
      then \<exists>g'. declareAll ds (added (decl_id d) (option_of d) g) = Ok g' \<and>
        parser_table ((t @ [entry d]) @ map entry ds) g' \<and>
        gol_prog g' = gol_prog (added (decl_id d) (option_of d) g) \<and>
        gol_helpLegend g' = gol_helpLegend (added (decl_id d) (option_of d) g)
      else \<exists>msg. declareAll ds (added (decl_id d) (option_of d) g) = fatal msg"
      by (rule Cons.IH)
    moreover have "declareAll (d # ds) g = declareAll ds (added (decl_id d) (option_of d) g)" using d by simp
    moreover have "(\<forall>d' \<in> set (d # ds). valid_declaration d') \<longleftrightarrow> (\<forall>d \<in> set ds. valid_declaration d)"
      "t @ map entry (d # ds) = (t @ [entry d]) @ map entry ds" using True by simp_all
    ultimately show ?thesis by (simp only: added_fields)
  next
    case False
    then obtain msg where "declareOne d g = fatal msg" using declareOne_added [OF Cons.prems(1,2), of d] by auto
    moreover have "\<not> (valid_declaration d \<and> distinct_options ((t @ [entry d]) @ map entry ds))" using False split by blast
    ultimately show ?thesis by simp
  qed
qed simp

text \<open>A parser with all its declarations.\<close>

definition buildParser :: "string \<Rightarrow> string \<Rightarrow> Declaration list \<Rightarrow> (cli_exception, GetOptLong) outcome" where
  "buildParser prog helpLegend ds =
     (case newGetOptLong prog helpLegend of Inl e \<Rightarrow> Fail e | Inr g \<Rightarrow> declareAll ds g)"

definition declarations_ok :: "Declaration list \<Rightarrow> bool" where
  "declarations_ok ds \<longleftrightarrow> (\<forall>d \<in> set ds. valid_declaration d) \<and> distinct_options (table ds)"

lemma buildParser_cases:
  "case buildParser prog helpLegend ds of
     Inr g \<Rightarrow> declarations_ok ds \<and> parser_table (table ds) g \<and> gol_prog g = prog \<and> gol_helpLegend g = helpLegend
   | Inl e \<Rightarrow> \<not> declarations_ok ds \<and> (\<exists>msg. e = GetOptLongError msg)"
proof -
  let ?g = "\<lparr>gol_ois = [], gol_oiMap = Map.empty, gol_shortOpts = '':'', gol_longOpts = [], gol_optMap = Map.empty,
        gol_loSet = {}, gol_prog = prog, gol_helpLegend = helpLegend\<rparr>"
  have empty: "parser_table [] ?g" by (simp add: parser_table_def option_code_def long_spec_def)
  have fresh: "fresh_option [] (- 1) helpOption" by (simp add: fresh_option_def)
  have new: "newGetOptLong prog helpLegend = Ok (added (- 1) helpOption ?g)"
    unfolding newGetOptLong_def using addOption_added(1) [OF empty _ helpOption_def fresh] by simp
  define g where "g = added (- 1) helpOption ?g"
  have "parser_table [(- 1, helpOption)] g"
    using parser_table_added [OF empty _ _ fresh] by (simp add: g_def helpOption_def)
  moreover have "\<forall>oi \<in> snd ` set [(- 1, helpOption)]. 0 \<le> oi_shortOpt oi" "distinct_options [(- 1, helpOption)]"
    by (simp_all add: helpOption_def distinct_options_def)
  ultimately have "if (\<forall>d \<in> set ds. valid_declaration d) \<and> distinct_options ([(- 1, helpOption)] @ map entry ds)
      then \<exists>g'. declareAll ds g = Ok g' \<and> parser_table ([(- 1, helpOption)] @ map entry ds) g' \<and>
        gol_prog g' = gol_prog g \<and> gol_helpLegend g' = gol_helpLegend g
      else \<exists>msg. declareAll ds g = fatal msg"
    by (rule declareAll_table)
  moreover have "table ds = [(- 1, helpOption)] @ map entry ds" by (simp add: table_def entry_def)
  moreover have "gol_prog g = prog" "gol_helpLegend g = helpLegend" by (simp_all add: g_def added_def Let_def)
  ultimately have all: "if declarations_ok ds
      then \<exists>g'. declareAll ds g = Ok g' \<and> parser_table (table ds) g' \<and> gol_prog g' = prog \<and>
        gol_helpLegend g' = helpLegend
      else \<exists>msg. declareAll ds g = fatal msg"
    by (simp only: declarations_ok_def)
  have "buildParser prog helpLegend ds = declareAll ds g"
    by (simp add: buildParser_def new g_def)
  with all show ?thesis by (cases "declarations_ok ds") auto
qed

lemma parser_invariant_helper:
  "buildParser prog helpLegend ds = Ok g \<Longrightarrow> declarations_ok ds \<and> parser_table (table ds) g \<and> gol_prog g = prog"
  using buildParser_cases [where prog = prog and helpLegend = helpLegend and ds = ds] by simp

text \<open>C7: Declarations build a parser exactly if their names are valid and no two options, the help
  included, share an ID, a short or a long name; else the program error \<open>GetOptLongError\<close> is thrown.  The maps
  of the parser then find each option by its ID and by its codes, and nothing else, and the strings and
  entries for \<open>getopt_long\<close> describe the options in their order.
\<close>

theorem parser_invariant:
  "case buildParser prog helpLegend ds of
     Inr g \<Rightarrow> declarations_ok ds \<and> parser_table (table ds) g \<and> gol_prog g = prog \<and> gol_helpLegend g = helpLegend
   | Inl e \<Rightarrow> \<not> declarations_ok ds \<and> (\<exists>msg. e = GetOptLongError msg)"
  by (rule buildParser_cases)

section \<open>What a command line gives\<close>

text \<open>The calls that return an option, and the options after them.\<close>

definition callsOf :: "OptionInfo list \<Rightarrow> nat \<Rightarrow> getopt_call list \<Rightarrow> getopt_call list" where
  "callsOf ois k cs = filter (\<lambda>c. option_code ois (gc_ret c) k) cs"

definition given :: "OptionInfo list \<Rightarrow> getopt_call list \<Rightarrow> OptionInfo list" where
  "given ois cs = map (\<lambda>k.
     if oi_flag (ois ! k) then (ois ! k)\<lparr>oi_flagValue := callsOf ois k cs \<noteq> []\<rparr>
     else (ois ! k)\<lparr>oi_values := map (the \<circ> gc_optarg) (callsOf ois k cs)\<rparr>) [0..<length ois]"

definition calls_ok :: "OptionInfo list \<Rightarrow> getopt_call list \<Rightarrow> bool" where
  "calls_ok ois cs \<longleftrightarrow> (\<forall>k < length ois. \<not> oi_flag (ois ! k) \<longrightarrow>
     (\<forall>c \<in> set (callsOf ois k cs). gc_optarg c \<noteq> None) \<and>
     (oi_multiple (ois ! k) \<or> length (callsOf ois k cs) \<le> 1))"

lemma given_fields [simp]:
  assumes "k < length ois"
  shows "oi_flag (given ois cs ! k) = oi_flag (ois ! k)" "oi_multiple (given ois cs ! k) = oi_multiple (ois ! k)"
    "oi_optional (given ois cs ! k) = oi_optional (ois ! k)"
    "\<not> oi_flag (ois ! k) \<Longrightarrow> oi_values (given ois cs ! k) = map (the \<circ> gc_optarg) (callsOf ois k cs)"
    "oi_flag (ois ! k) \<Longrightarrow> oi_flagValue (given ois cs ! k) = (callsOf ois k cs \<noteq> [])"
  using assms by (simp_all add: given_def)

lemma length_given [simp]: "length (given ois cs) = length ois"
  by (simp add: given_def)

lemma callsOf_snoc [simp]:
  "callsOf ois k (cs @ [c]) = callsOf ois k cs @ (if option_code ois (gc_ret c) k then [c] else [])"
  by (simp add: callsOf_def)

lemma callsOf_Nil [simp]: "callsOf ois k [] = []"
  by (simp add: callsOf_def)

lemma calls_ok_snoc:
  assumes "\<And>j. option_code ois (gc_ret c) j \<longleftrightarrow> j = k" and "k < length ois"
  shows "calls_ok ois (cs @ [c]) \<longleftrightarrow> calls_ok ois cs \<and>
    (oi_flag (ois ! k) \<or> gc_optarg c \<noteq> None \<and> (oi_multiple (ois ! k) \<or> callsOf ois k cs = []))"
  using assms unfolding calls_ok_def by (auto simp: le_Suc_eq)

lemma calls_ok_prefix: "calls_ok ois (cs @ ds) \<Longrightarrow> calls_ok ois cs"
  unfolding calls_ok_def callsOf_def by fastforce

lemma given_step:
  assumes code: "\<And>j. option_code ois (gc_ret c) j \<longleftrightarrow> j = k" and k: "k < length ois" and ok: "calls_ok ois cs"
  shows "if calls_ok ois (cs @ [c])
    then \<exists>oi. setValue (gc_optarg c) (given ois cs ! k) = Ok oi \<and> (given ois cs)[k := oi] = given ois (cs @ [c])
    else \<exists>ex. setValue (gc_optarg c) (given ois cs ! k) = Fail ex"
proof -
  have upd: "(given ois cs)[k := given ois (cs @ [c]) ! k] = given ois (cs @ [c])"
  proof (rule nth_equalityI)
    fix j assume "j < length ((given ois cs)[k := given ois (cs @ [c]) ! k])"
    then show "(given ois cs)[k := given ois (cs @ [c]) ! k] ! j = given ois (cs @ [c]) ! j"
      using code by (cases "j = k") (simp_all add: given_def)
  qed simp
  show ?thesis
  proof (cases "oi_flag (ois ! k)")
    case True
    then have "setValue (gc_optarg c) (given ois cs ! k) = Ok (given ois (cs @ [c]) ! k)"
      using k code by (simp add: setValue_def given_def)
    then show ?thesis using upd True ok calls_ok_snoc [OF code k, of cs] by simp
  next
    case False
    show ?thesis
    proof (cases "calls_ok ois (cs @ [c])")
      case True
      with False ok have "gc_optarg c \<noteq> None" "oi_multiple (ois ! k) \<or> callsOf ois k cs = []"
        using calls_ok_snoc [OF code k, of cs] by simp_all
      then have "setValue (gc_optarg c) (given ois cs ! k) = Ok (given ois (cs @ [c]) ! k)"
        using k code False by (auto simp: setValue_def given_def)
      with True upd show ?thesis by simp
    next
      case bad: False
      then have "gc_optarg c = None \<or> \<not> oi_multiple (ois ! k) \<and> callsOf ois k cs \<noteq> []"
        using calls_ok_snoc [OF code k, of cs] False ok by simp
      with bad False k show ?thesis by (auto simp: setValue_def split: option.split)
    qed
  qed
qed

text \<open>The calls of the loop: each returns an option that is not the help.\<close>

definition option_call :: "OptionInfo list \<Rightarrow> getopt_call \<Rightarrow> bool" where
  "option_call ois c \<longleftrightarrow> gc_ret c \<noteq> -1 \<and> gc_ret c \<noteq> 58 \<and> gc_ret c \<noteq> 63 \<and>
     (\<exists>k. option_code ois (gc_ret c) k \<and> \<not> isHelp (ois ! k))"

lemma argsLoop_given:
  assumes map: "\<forall>c k. gol_optMap g c = Some k \<longleftrightarrow> option_code ois c k"
    and "\<forall>c \<in> set cs. option_call ois c" and "calls_ok ois cs0"
  shows "if calls_ok ois (cs0 @ cs)
    then argsLoop p (cs @ rest) (g\<lparr>gol_ois := given ois cs0\<rparr>) = argsLoop p rest (g\<lparr>gol_ois := given ois (cs0 @ cs)\<rparr>)
    else \<exists>ex. argsLoop p (cs @ rest) (g\<lparr>gol_ois := given ois cs0\<rparr>) = Some (Fail (Threw ex))"
  using assms(2,3)
proof (induction cs arbitrary: cs0)
  case (Cons c cs)
  then obtain k where c: "gc_ret c \<noteq> -1" "gc_ret c \<noteq> 58" "gc_ret c \<noteq> 63" "option_code ois (gc_ret c) k"
      "\<not> isHelp (ois ! k)" by (auto simp: option_call_def)
  have code: "option_code ois (gc_ret c) j \<longleftrightarrow> j = k" for j using map c(4) by (metis option.inject)
  have k: "k < length ois" using c(4) by (simp add: option_code_def)
  have opt: "gol_optMap g (gc_ret c) = Some k" using map c(4) by simp
  have nohelp: "\<not> isHelp (given ois cs0 ! k)" using c(5) k by (simp add: isHelp_def)
  note step = given_step [OF code k Cons.prems(2)]
  show ?case
  proof (cases "calls_ok ois (cs0 @ [c])")
    case True
    with step obtain oi where oi: "setValue (gc_optarg c) (given ois cs0 ! k) = Ok oi"
        "(given ois cs0)[k := oi] = given ois (cs0 @ [c])" by auto
    then have "argsLoop p ((c # cs) @ rest) (g\<lparr>gol_ois := given ois cs0\<rparr>) =
        argsLoop p (cs @ rest) (g\<lparr>gol_ois := given ois (cs0 @ [c])\<rparr>)"
      using c opt nohelp by simp
    then show ?thesis using Cons.IH [OF _ True] Cons.prems(1) by simp
  next
    case False
    with step obtain ex where "setValue (gc_optarg c) (given ois cs0 ! k) = Fail ex" by auto
    moreover have "\<not> calls_ok ois (cs0 @ c # cs)" using False calls_ok_prefix [of ois "cs0 @ [c]" cs] by auto
    ultimately show ?thesis using c opt nohelp by simp
  qed
qed simp

lemma checkAllRequired_iff:
  "if \<forall>oi \<in> set ois. oi_optional oi \<or> oi_values oi \<noteq> [] then checkAllRequired ois = Ok ()
   else \<exists>msg. checkAllRequired ois = Fail (CommandLineError msg)"
  by (induction ois) (auto simp: checkRequired_def)

text \<open>
  The calls that name the declaration with index \<open>k\<close>; the long option of the help has the code -1, those of
  the declarations follow.  A command line is acceptable if each value option has a value wherever it is
  given, is given once unless it is multiple, and is given if it is required.
\<close>

definition names :: "Declaration \<Rightarrow> nat \<Rightarrow> getopt_call \<Rightarrow> bool" where
  "names d k c \<longleftrightarrow> decl_short d \<noteq> NoShort \<and> gc_ret c = of_char (decl_short d) \<or>
     decl_long d \<noteq> [] \<and> gc_ret c = - 2 - int k"

definition uses :: "Declaration list \<Rightarrow> nat \<Rightarrow> getopt_call list \<Rightarrow> getopt_call list" where
  "uses ds k cs = filter (names (ds ! k) k) cs"

definition acceptable :: "Declaration list \<Rightarrow> getopt_call list \<Rightarrow> bool" where
  "acceptable ds cs \<longleftrightarrow> (\<forall>k < length ds. oi_flag (option_of (ds ! k)) \<or>
     (\<forall>c \<in> set (uses ds k cs). gc_optarg c \<noteq> None) \<and>
     (oi_multiple (option_of (ds ! k)) \<or> length (uses ds k cs) \<le> 1) \<and>
     (oi_optional (option_of (ds ! k)) \<or> uses ds k cs \<noteq> []))"

lemma option_code_names:
  "k < length ds \<Longrightarrow> option_code (map snd (table ds)) (gc_ret c) (Suc k) \<longleftrightarrow> names (ds ! k) k c"
  by (simp add: option_code_def table_def names_def option_of_short)

lemma callsOf_uses: "k < length ds \<Longrightarrow> callsOf (map snd (table ds)) (Suc k) cs = uses ds k cs"
  by (simp add: callsOf_def uses_def option_code_names cong: filter_cong)

lemma option_of_unset [simp]: "oi_values (option_of d) = []" "oi_flagValue (option_of d) = False"
  "\<not> isHelp (option_of d)" "oi_flag (option_of d) \<Longrightarrow> oi_optional (option_of d)"
  by (cases d; simp add: isHelp_def)+

lemma alnum_code:
  assumes "is_alnum c" shows "(of_char c :: int) \<noteq> 58 \<and> (of_char c :: int) \<noteq> 63"
proof -
  have "(of_char c :: nat) \<noteq> 58 \<and> (of_char c :: nat) \<noteq> 63" using assms by (auto simp: is_alnum_def Let_def)
  moreover have "(of_char c :: int) = int (of_char c)" by (rule of_nat_of_char [symmetric])
  ultimately show ?thesis by linarith
qed

lemma names_option_call:
  assumes "valid_declaration (ds ! k)" and "k < length ds" and "names (ds ! k) k c"
  shows "option_call (map snd (table ds)) c"
proof -
  have "(of_char (decl_short (ds ! k)) :: int) \<noteq> -1" using of_char_nonneg [of "decl_short (ds ! k)"] by linarith
  then have "gc_ret c \<noteq> 58 \<and> gc_ret c \<noteq> 63 \<and> gc_ret c \<noteq> -1"
    using assms(1,3) alnum_code [of "decl_short (ds ! k)"]
    by (auto simp: names_def valid_declaration.simps)
  moreover have "map snd (table ds) ! Suc k = option_of (ds ! k)" using assms(2) by (simp add: table_def)
  ultimately show ?thesis
    using assms option_code_names [OF assms(2)] unfolding option_call_def by (metis option_of_unset(3))
qed

lemma calls_ok_acceptable:
  "acceptable ds cs \<longleftrightarrow> calls_ok (map snd (table ds)) cs \<and>
     (\<forall>oi \<in> set (given (map snd (table ds)) cs). oi_optional oi \<or> oi_values oi \<noteq> [])"
proof -
  have opt: "map snd (table ds) ! Suc k = option_of (ds ! k)" if "k < length ds" for k
    using that by (simp add: table_def)
  have all: "(\<forall>k < length (map snd (table ds)). P k) \<longleftrightarrow> P 0 \<and> (\<forall>k < length ds. P (Suc k))" for P
    by (simp add: table_def All_less_Suc2)
  have first: "oi_flag (map snd (table ds) ! 0)" "oi_optional (map snd (table ds) ! 0)"
    by (simp_all add: table_def helpOption_def)
  have "calls_ok (map snd (table ds)) cs \<longleftrightarrow> (\<forall>k < length ds. oi_flag (option_of (ds ! k)) \<or>
     (\<forall>c \<in> set (uses ds k cs). gc_optarg c \<noteq> None) \<and> (oi_multiple (option_of (ds ! k)) \<or> length (uses ds k cs) \<le> 1))"
    unfolding calls_ok_def all using first opt by (auto simp: callsOf_uses)
  moreover have "(\<forall>oi \<in> set (given (map snd (table ds)) cs). oi_optional oi \<or> oi_values oi \<noteq> []) \<longleftrightarrow>
      (\<forall>k < length (map snd (table ds)). oi_optional (given (map snd (table ds)) cs ! k) \<or>
        oi_values (given (map snd (table ds)) cs ! k) \<noteq> [])"
    by (simp only: all_set_conv_all_nth length_given)
  moreover have "\<dots> \<longleftrightarrow> (\<forall>k < length ds. oi_flag (option_of (ds ! k)) \<or> oi_optional (option_of (ds ! k)) \<or> uses ds k cs \<noteq> [])"
  proof -
    have "oi_optional (given (map snd (table ds)) cs ! Suc k) \<or> oi_values (given (map snd (table ds)) cs ! Suc k) \<noteq> [] \<longleftrightarrow>
        oi_flag (option_of (ds ! k)) \<or> oi_optional (option_of (ds ! k)) \<or> uses ds k cs \<noteq> []" if "k < length ds" for k
    proof -
      have "Suc k < length (map snd (table ds))" using that by (simp add: table_def)
      then show ?thesis using that opt [OF that] option_of_unset(4) [of "ds ! k"]
        by (cases "oi_flag (option_of (ds ! k))") (simp_all add: callsOf_uses)
    qed
    then show ?thesis unfolding all using first by (simp add: table_def)
  qed
  ultimately show ?thesis unfolding acceptable_def by blast
qed

lemma given_Nil: "(\<forall>oi \<in> set ois. oi_values oi = [] \<and> \<not> oi_flagValue oi) \<Longrightarrow> given ois [] = ois"
  by (rule nth_equalityI) (auto simp: given_def)

lemma built_parser:
  assumes "buildParser prog legend ds = Ok g"
  shows "declarations_ok ds" "parser_table (table ds) g" "gol_ois g = map snd (table ds)" "gol_prog g = prog"
    "gol_oiMap g (decl_id d) = Some (Suc k) \<longleftrightarrow> k < length ds \<and> decl_id (ds ! k) = decl_id d"
    "given (gol_ois g) [] = gol_ois g"
proof -
  show ok: "declarations_ok ds" "parser_table (table ds) g" "gol_prog g = prog"
    using parser_invariant_helper [OF assms] by simp_all
  then show ois: "gol_ois g = map snd (table ds)" by (simp add: parser_table_def)
  show "gol_oiMap g (decl_id d) = Some (Suc k) \<longleftrightarrow> k < length ds \<and> decl_id (ds ! k) = decl_id d"
    using ok(2) by (auto simp: parser_table_def table_def)
  have "\<forall>oi \<in> set (map snd (table ds)). oi_values oi = [] \<and> \<not> oi_flagValue oi"
    by (auto simp: table_def helpOption_def)
  then show "given (gol_ois g) [] = gol_ois g" unfolding ois by (rule given_Nil)
qed

text \<open>The loop over the calls that name declared options, up to the first one that names none.\<close>

lemma args_given:
  assumes g: "buildParser prog legend ds = Ok g"
    and calls: "getopt_long argv (gol_shortOpts (fini g)) (gol_longOpts (fini g)) = cs @ e # rest"
    and opts: "\<forall>c \<in> set cs. \<exists>k < length ds. names (ds ! k) k c"
  defines "p \<equiv> if gol_prog g = [] then argv ! 0 else gol_prog g" and "ois \<equiv> map snd (table ds)"
  shows "if calls_ok ois cs
    then args getopt_long argv g = (case argsLoop p (e # rest) ((fini g)\<lparr>gol_ois := given ois cs\<rparr>) of
        None \<Rightarrow> None
      | Some (Inl ex) \<Rightarrow> Some (Fail ex)
      | Some (Inr (g, c)) \<Rightarrow>
          (case checkAllRequired (gol_ois g) of
             Inl ex \<Rightarrow> Some (Fail (Threw ex))
           | Inr _ \<Rightarrow> Some (Ok \<lparr>res_ois = gol_ois g, res_oiMap = gol_oiMap g,
               res_positional = drop (gc_optind c) (gc_argv c)\<rparr>)))
    else \<exists>ex. args getopt_long argv g = Some (Fail (Threw ex))"
proof -
  note built = built_parser [OF g]
  have opts': "\<forall>c \<in> set cs. option_call ois c"
    using opts names_option_call built(1) unfolding declarations_ok_def ois_def by (metis nth_mem)
  have map: "\<forall>c k. gol_optMap (fini g) c = Some k \<longleftrightarrow> option_code ois c k"
    using built(2,3) by (simp add: parser_table_def fini_def ois_def)
  have empty: "calls_ok ois []" by (simp add: calls_ok_def)
  have "(fini g)\<lparr>gol_ois := given ois []\<rparr> = fini g" using built(3,6) by (simp add: fini_def ois_def)
  then have loop: "if calls_ok ois cs
    then argsLoop p (cs @ e # rest) (fini g) = argsLoop p (e # rest) ((fini g)\<lparr>gol_ois := given ois cs\<rparr>)
    else \<exists>ex. argsLoop p (cs @ e # rest) (fini g) = Some (Fail (Threw ex))"
    using argsLoop_given [OF map opts' empty, of p "e # rest"] by (simp only: append_Nil)
  have "gol_prog (fini g) = gol_prog g" by (simp add: fini_def)
  then show ?thesis
    using loop by (cases "calls_ok ois cs") (auto simp: args_def Let_def calls p_def simp del: argsLoop.simps)
qed

lemma command_line_ok:
  assumes g: "buildParser prog legend ds = Ok g"
    and calls: "getopt_long argv (gol_shortOpts (fini g)) (gol_longOpts (fini g)) = cs @ e # rest" and e: "gc_ret e = -1"
    and opts: "\<forall>c \<in> set cs. \<exists>k < length ds. names (ds ! k) k c"
  shows "if acceptable ds cs
    then \<exists>r. args getopt_long argv g = Some (Ok r) \<and> positional r = drop (gc_optind e) (gc_argv e) \<and>
      (\<forall>k < length ds. if oi_flag (option_of (ds ! k)) then flagOf (decl_id (ds ! k)) r = Ok (uses ds k cs \<noteq> [])
        else valuesOf (decl_id (ds ! k)) r = Ok (map (the \<circ> gc_optarg) (uses ds k cs)))
    else \<exists>ex. args getopt_long argv g = Some (Fail (Threw ex))"
proof -
  note built = built_parser [OF g]
  let ?ois = "map snd (table ds)"
  have prog: "gol_oiMap (fini g) = gol_oiMap g" by (simp add: fini_def)
  note run = args_given [OF g, where getopt_long = getopt_long and argv = argv, OF calls opts]
  show ?thesis
  proof (cases "acceptable ds cs")
    case True
    then have ok: "calls_ok ?ois cs" "checkAllRequired (given ?ois cs) = Ok ()"
      using checkAllRequired_iff [of "given ?ois cs"] by (auto simp: calls_ok_acceptable)
    let ?r = "\<lparr>res_ois = given ?ois cs, res_oiMap = gol_oiMap g, res_positional = drop (gc_optind e) (gc_argv e)\<rparr>"
    have "args getopt_long argv g = Some (Ok ?r)" using run ok e by (simp add: prog)
    moreover have "if oi_flag (option_of (ds ! k)) then flagOf (decl_id (ds ! k)) ?r = Ok (uses ds k cs \<noteq> [])
        else valuesOf (decl_id (ds ! k)) ?r = Ok (map (the \<circ> gc_optarg) (uses ds k cs))" if k: "k < length ds" for k
    proof -
      have "gol_oiMap g (decl_id (ds ! k)) = Some (Suc k)" using built(5) k by simp
      moreover have "Suc k < length ?ois" "?ois ! Suc k = option_of (ds ! k)" using k by (simp_all add: table_def)
      ultimately show ?thesis using k by (simp add: flagOf_def valuesOf_def byId_def callsOf_uses)
    qed
    ultimately show ?thesis using True by (auto simp: positional_def)
  next
    case False
    then consider "\<not> calls_ok ?ois cs" | "calls_ok ?ois cs" "\<exists>msg. checkAllRequired (given ?ois cs) = Fail (CommandLineError msg)"
      using checkAllRequired_iff [of "given ?ois cs"] by (auto simp: calls_ok_acceptable split: if_splits)
    then show ?thesis using run e False by cases auto
  qed
qed

lemma command_line_other:
  assumes g: "buildParser prog legend ds = Ok g"
    and calls: "getopt_long argv (gol_shortOpts (fini g)) (gol_longOpts (fini g)) = cs @ e # rest" and e: "gc_ret e \<noteq> -1"
    and opts: "\<forall>c \<in> set cs. \<exists>k < length ds. names (ds ! k) k c" and other: "\<forall>k < length ds. \<not> names (ds ! k) k e"
  shows "if gc_ret e = of_char CHR ''h''
    then \<exists>x. args getopt_long argv g = Some (Fail x) \<and> (acceptable ds cs \<longrightarrow> (\<exists>t. x = HelpShown t))
    else \<exists>ex. args getopt_long argv g = Some (Fail (Threw ex))"
proof -
  note built = built_parser [OF g]
  let ?ois = "map snd (table ds)"
  note run = args_given [OF g, where getopt_long = getopt_long and argv = argv, OF calls opts]
  have ok: "acceptable ds cs \<Longrightarrow> calls_ok ?ois cs" by (simp add: calls_ok_acceptable)
  have first: "k = 0" if "gol_optMap (fini g) (gc_ret e) = Some k" for k
  proof (rule ccontr)
    assume "k \<noteq> 0"
    then obtain j where j: "k = Suc j" by (cases k) auto
    have "option_code ?ois (gc_ret e) (Suc j)" using that built(2,3) j by (simp add: parser_table_def fini_def)
    moreover from this have "j < length ds" by (simp add: option_code_def table_def)
    ultimately show False using other option_code_names [of j ds e] by blast
  qed
  have first_help: "0 < length ?ois" "oi_flag (?ois ! 0)" "oi_multiple (?ois ! 0)" by (simp_all add: table_def helpOption_def newOption_def)
  have shows_help: "isHelp (given ?ois cs ! 0)" unfolding isHelp_def using first_help given_fields [OF first_help(1)] by simp
  have h: "gol_optMap (fini g) (gc_ret e) = Some 0 \<longleftrightarrow> gc_ret e = of_char CHR ''h''"
    using built(2,3) e by (auto simp: parser_table_def fini_def option_code_def table_def helpOption_def newOption_def)
  show ?thesis
  proof (cases "calls_ok ?ois cs")
    case True
    show ?thesis
    proof (cases "gol_optMap (fini g) (gc_ret e)")
      case None
      then show ?thesis using run True e h by (auto split: option.splits)
    next
      case (Some k)
      then have "gc_ret e = of_char CHR ''h''" "k = 0" using first h by auto
      then show ?thesis using run True Some shows_help by simp
    qed
  next
    case False
    then show ?thesis using run ok by auto
  qed
qed

text \<open>C8: Whatever \<open>getopt_long\<close> returns.  If its calls up to the first that names no declared option are an acceptable
  command line, and that call ends the options, then every flag that is given is set and no other, every other option has
  the values of its calls in their order, and what follows the options are the positional arguments.  If that call names
  the short option of the help, the help is shown, or an earlier option ends the parser with an exception.  In all other
  cases, of an argument that is missing, of an unknown option and of a command line that is not acceptable, the parser
  throws an exception.
\<close>

theorem command_line_correct:
  assumes g: "buildParser prog legend ds = Ok g"
    and calls: "getopt_long argv (gol_shortOpts (fini g)) (gol_longOpts (fini g)) = cs @ e # rest"
    and opts: "\<forall>c \<in> set cs. \<exists>k < length ds. names (ds ! k) k c" and other: "\<forall>k < length ds. \<not> names (ds ! k) k e"
  shows "if gc_ret e = -1 \<and> acceptable ds cs
    then \<exists>r. args getopt_long argv g = Some (Ok r) \<and> positional r = drop (gc_optind e) (gc_argv e) \<and>
      (\<forall>k < length ds. if oi_flag (option_of (ds ! k)) then flagOf (decl_id (ds ! k)) r = Ok (uses ds k cs \<noteq> [])
        else valuesOf (decl_id (ds ! k)) r = Ok (map (the \<circ> gc_optarg) (uses ds k cs)))
    else if gc_ret e = of_char CHR ''h''
    then \<exists>x. args getopt_long argv g = Some (Fail x) \<and> (acceptable ds cs \<longrightarrow> (\<exists>t. x = HelpShown t))
    else \<exists>ex. args getopt_long argv g = Some (Fail (Threw ex))"
proof (cases "gc_ret e = -1")
  case True
  moreover have "gc_ret e \<noteq> of_char CHR ''h''" using True by simp
  ultimately show ?thesis using command_line_ok [OF g, where getopt_long = getopt_long and argv = argv, OF calls True opts] by (cases "acceptable ds cs") simp_all
next
  case False
  then show ?thesis using command_line_other [OF g, where getopt_long = getopt_long and argv = argv, OF calls False opts other] by simp
qed

text \<open>A concrete parser, and a command line with its calls.\<close>

definition sampleDeclarations :: "Declaration list" where
  "sampleDeclarations =
     [DFlag 1 CHR ''v'' ''version'' ''Show version'', DOptional 2 NoShort ''count'' ''num'' ''Number'' True]"

definition sampleCall :: "int \<Rightarrow> string option \<Rightarrow> nat \<Rightarrow> getopt_call" where
  "sampleCall ret arg ind = \<lparr>gc_ret = ret, gc_optarg = arg, gc_optopt = 0, gc_optind = ind,
     gc_argv = [''p'', ''-v'', ''--count'', ''7'', ''--count'', ''8'', ''file'']\<rparr>"

lemma sample_built: "\<exists>g. buildParser ''p'' [] sampleDeclarations = Ok g"
proof -
  have "declarations_ok sampleDeclarations"
    by (simp add: declarations_ok_def sampleDeclarations_def valid_declaration.simps valid_name_def is_alnum_def
        distinct_options_def table_def helpOption_def newOption_def)
  then show ?thesis using buildParser_cases [where prog = "''p''" and helpLegend = "[]" and ds = sampleDeclarations] by (auto split: sum.splits)
qed

lemma command_line_correct_witness:
  "\<exists>g r. buildParser ''p'' [] sampleDeclarations = Ok g \<and>
     args (\<lambda>_ _ _. [sampleCall 118 None 2, sampleCall (- 3) (Some ''7'') 4, sampleCall (- 3) (Some ''8'') 6,
       sampleCall (- 1) None 6]) [] g = Some (Ok r) \<and>
     positional r = [''file''] \<and> flagOf 1 r = Ok True \<and> valuesOf 2 r = Ok [''7'', ''8'']"
proof -
  obtain g where g: "buildParser ''p'' [] sampleDeclarations = Ok g" using sample_built by blast
  let ?cs = "[sampleCall 118 None 2, sampleCall (- 3) (Some ''7'') 4, sampleCall (- 3) (Some ''8'') 6]"
  have two: "(\<exists>k < length sampleDeclarations. P k) \<longleftrightarrow> P 0 \<or> P 1" for P
    by (auto simp: sampleDeclarations_def less_Suc_eq)
  have names: "names (sampleDeclarations ! 0) 0 (sampleCall 118 None 2)"
    "names (sampleDeclarations ! 1) 1 (sampleCall (- 3) (Some v) i)" for v i
    by (simp_all add: sampleDeclarations_def names_def sampleCall_def)
  then have "\<forall>c \<in> set ?cs. \<exists>k < length sampleDeclarations. names (sampleDeclarations ! k) k c"
    unfolding two by simp
  moreover have "\<forall>k < length sampleDeclarations. \<not> names (sampleDeclarations ! k) k (sampleCall (- 1) None 6)"
    by (auto simp: sampleDeclarations_def names_def sampleCall_def less_Suc_eq)
  moreover have "acceptable sampleDeclarations ?cs"
    by (simp add: acceptable_def sampleDeclarations_def uses_def names_def sampleCall_def less_Suc_eq all_conj_distrib)
  moreover have "uses sampleDeclarations 0 ?cs = [sampleCall 118 None 2]"
    "uses sampleDeclarations (Suc 0) ?cs = [sampleCall (- 3) (Some ''7'') 4, sampleCall (- 3) (Some ''8'') 6]"
    by (simp_all add: sampleDeclarations_def uses_def names_def sampleCall_def)
  ultimately show ?thesis
    using command_line_correct [OF g, of "\<lambda>_ _ _. ?cs @ [sampleCall (- 1) None 6]" "[]" ?cs "sampleCall (- 1) None 6" "[]"] g
    by (auto simp: sampleCall_def sampleDeclarations_def All_less_Suc2)
qed

text \<open>C9: The long option of the help has the code -1, so that a call that returns it ends the options: no
  help is shown, and the options before it are those of the command line.  The short option shows the help.
\<close>

theorem help_ends_options:
  assumes g: "buildParser prog legend ds = Ok g"
    and calls: "getopt_long argv (gol_shortOpts (fini g)) (gol_longOpts (fini g)) = c # cs"
  shows "(lo \<in> set (gol_longOpts (fini g)) \<and> lo_name lo = Some ''help'' \<and> gc_ret c = lo_val lo \<longrightarrow>
      (\<forall>t. args getopt_long argv g \<noteq> Some (Fail (HelpShown t))) \<and>
      ((\<forall>d \<in> set ds. oi_optional (option_of d)) \<longrightarrow>
        args getopt_long argv g = Some (Ok \<lparr>res_ois = gol_ois g, res_oiMap = gol_oiMap g,
          res_positional = drop (gc_optind c) (gc_argv c)\<rparr>))) \<and>
    (gc_ret c = of_char CHR ''h'' \<longrightarrow>
      args getopt_long argv g =
        Some (Fail (HelpShown (showHelp (if prog = [] then argv ! 0 else prog) (fini g)))))"
proof -
  note built = built_parser [OF g]
  have prog: "gol_prog (fini g) = prog" "gol_oiMap (fini g) = gol_oiMap g" "gol_ois (fini g) = gol_ois g" "gol_prog g = prog"
    using built(4) by (simp_all add: fini_def)
  note run = args_def [of getopt_long argv g] Let_def calls prog
  have code: "lo_val lo = -1" if lo: "lo \<in> set (gol_longOpts (fini g))" "lo_name lo = Some ''help''"
  proof -
    let ?ois = "map snd (table ds)"
    have "gol_longOpts (fini g) = long_spec ?ois @ [\<lparr>lo_name = None, lo_hasArg = False, lo_val = 0\<rparr>]"
      using built(2,3) by (simp add: parser_table_def fini_def)
    with lo obtain k where k: "k < length ?ois" "lo_val lo = - 1 - int k" "oi_longOpt (?ois ! k) = ''help''"
      by (auto simp: long_spec_def split: if_splits)
    have "k = 0"
    proof (rule ccontr)
      assume "k \<noteq> 0"
      then obtain j where "k = Suc j" by (cases k) auto
      with k have "j < length ds" "decl_long (ds ! j) = ''help''" by (simp_all add: table_def option_of_short)
      then have "''help'' \<in> decl_long ` set ds" by (metis nth_mem imageI)
      moreover have "''help'' \<notin> decl_long ` set ds"
        using built(1) by (auto simp: declarations_ok_def distinct_options_def table_def helpOption_def option_of_short)
      ultimately show False by blast
    qed
    with k show ?thesis by simp
  qed
  have noHelp: "\<forall>t. args getopt_long argv g \<noteq> Some (Fail (HelpShown t))" if "gc_ret c = -1"
    using that by (simp add: run split: sum.split)
  have result: "args getopt_long argv g = Some (Ok \<lparr>res_ois = gol_ois g, res_oiMap = gol_oiMap g,
      res_positional = drop (gc_optind c) (gc_argv c)\<rparr>)"
    if "gc_ret c = -1" "\<forall>d \<in> set ds. oi_optional (option_of d)"
  proof -
    have "\<forall>oi \<in> set (gol_ois g). oi_optional oi" using that(2) built(3) by (auto simp: table_def helpOption_def)
    then have "checkAllRequired (gol_ois g) = Ok ()" using checkAllRequired_iff [of "gol_ois g"] by auto
    with that(1) show ?thesis by (simp add: run)
  qed
  have short: "args getopt_long argv g =
      Some (Fail (HelpShown (showHelp (if prog = [] then argv ! 0 else prog) (fini g))))"
    if "gc_ret c = of_char CHR ''h''"
  proof -
    have "option_code (gol_ois g) (of_char CHR ''h'') 0" "isHelp (gol_ois g ! 0)"
      using built(3) by (simp_all add: option_code_def table_def helpOption_def isHelp_def newOption_def)
    then have "gol_optMap (fini g) 104 = Some 0" using built(2) by (simp add: parser_table_def fini_def)
    with that \<open>isHelp (gol_ois g ! 0)\<close> show ?thesis by (simp add: run)
  qed
  show ?thesis
    by (intro conjI impI; (elim conjE)?) (simp_all add: code noHelp result short)
qed

lemma help_ends_options_witness:
  "\<exists>g r. buildParser ''p'' [] sampleDeclarations = Ok g \<and>
     args (\<lambda>_ _ lopts. [sampleCall (lo_val (lopts ! 0)) None 2]) [''p'', ''--help''] g = Some (Ok r)"
proof -
  obtain g where g: "buildParser ''p'' [] sampleDeclarations = Ok g" using sample_built by blast
  let ?lo = "gol_longOpts (fini g) ! 0"
  have "gol_longOpts (fini g) \<noteq> []" by (simp add: fini_def)
  then have "?lo \<in> set (gol_longOpts (fini g))" by (intro nth_mem) simp
  moreover have "lo_name ?lo = Some ''help''"
    using built_parser [OF g]
    by (simp add: parser_table_def fini_def long_spec_def table_def sampleDeclarations_def helpOption_def newOption_def
        upt_rec)
  moreover have "\<forall>d \<in> set sampleDeclarations. oi_optional (option_of d)" by (simp add: sampleDeclarations_def newOption_def)
  ultimately show ?thesis
    using help_ends_options [OF g, of "\<lambda>_ _ lopts. [sampleCall (lo_val (lopts ! 0)) None 2]" "[''p'', ''--help'']"
        "sampleCall (lo_val ?lo) None 2" "[]" ?lo] g
    by (simp add: sampleCall_def)
qed

end
