(* ===== verification/Formats.thy ===== *)
theory Formats
  imports Scheduler IPv4Parsers Texts
begin

text \<open>
  The texts of configurations and updates: \<open>apps/pimc/config/Formatters.hpp\<close>,
  \<open>apps/pimc/pimsm/UpdateFormatter.hpp\<close> and \<open>lib/pimc/formatters/LoggingLevelFormatter.hpp\<close>.
\<close>

abbreviation nl :: string where "nl \<equiv> [CHR 0x0A]"

definition line :: "string \<Rightarrow> string" where
  "line s = s @ nl"

section \<open>Configurations\<close>

definition levelText :: "Level \<Rightarrow> string" where
  "levelText l =
     (case l of LevelNone \<Rightarrow> ''NONE'' | LevelCritical \<Rightarrow> ''CRITICAL'' | LevelError \<Rightarrow> ''ERROR''
      | LevelWarning \<Rightarrow> ''WARNING'' | LevelInfo \<Rightarrow> ''INFO'' | LevelDebug \<Rightarrow> ''DEBUG'')"

definition loggingConfigText :: "LoggingConfig \<Rightarrow> string" where
  "loggingConfigText c =
     line (''Logging level: '' @ levelText (level c)) @
     (case logFileName c of
        Some f \<Rightarrow> line (''Logging to: '' @ quoted f)
      | None \<Rightarrow> line ''Logging to: stdout'')"

definition rptText :: "RPT \<Rightarrow> string" where
  "rptText r =
     line (''    Join(*,G): RP '' @ addr_string (rp r)) @
     (if rpt_prunes r = [] then []
      else line ''    Prune(S,G,rpt):'' @ concat (map (\<lambda>a. line (''      '' @ addr_string a)) (rpt_prunes r)))"

definition groupConfigText :: "GroupConfig \<Rightarrow> string" where
  "groupConfigText gc =
     line (''  '' @ addr_string (gc_group gc)) @ (case gc_rpt gc of None \<Rightarrow> [] | Some r \<Rightarrow> rptText r) @
     (if gc_spt gc = [] then []
      else line ''    Join(S,G):'' @ concat (map (\<lambda>a. line (''      '' @ addr_string a)) (gc_spt gc)))"

definition jpConfigText :: "JPConfig \<Rightarrow> string" where
  "jpConfigText c = line ''Join/Prune config:'' @ concat (map groupConfigText (jp_groups c))"

text \<open>\<open>{:08x}\<close>\<close>

definition hexWord :: "u32 \<Rightarrow> string" where
  "hexWord w = concat (map (\<lambda>i. hex_byte (unat (drop_bit (8 * i) w) mod 256)) [3, 2, 1, 0])"

definition pimsmConfigText :: "PIMSMConfig \<Rightarrow> string" where
  "pimsmConfigText c =
     line ''PIM sparse-mode:'' @
     line (''  neighbor: '' @ addr_string (neighbor c)) @
     line (''  interface: '' @ intfName c @ '', #'' @ dec_string (unat (intfIndex c)) @ '', addr '' @
       addr_string (intfAddr c)) @
     line (''  hello period: '' @ dec_string (unat (helloPeriod c)) @ ''s'') @
     line (''  hello hold time: '' @ dec_string (unat (helloHoldtime c)) @ ''s'') @
     line (''  join/prune period: '' @ dec_string (unat (jpPeriod c)) @ ''s'') @
     line (''  join/prune hold time: '' @ dec_string (unat (jpHoldtime c)) @ ''s'') @
     line (''  generation ID: '' @ hexWord (generationId c))"

section \<open>Updates\<close>

definition sourceText :: "Source \<Rightarrow> string" where
  "sourceText s =
     addr_string (src_addr s) @ (if src_wildcard s then '', WC'' else []) @ (if src_rpt s then '', rpt'' else [])"

definition groupEntryText :: "GroupEntry \<Rightarrow> string" where
  "groupEntryText ge =
     line (''Group '' @ addr_string (ge_group ge)) @
     line ('' '' @ dec_string (length (ge_joins ge)) @ '' joins, '' @ dec_string (length (ge_prunes ge)) @ '' prunes'') @
     line '' Joins:'' @ concat (map (\<lambda>s. line (''   '' @ sourceText s)) (ge_joins ge)) @
     line '' Prunes:'' @ concat (map (\<lambda>s. line (''   '' @ sourceText s)) (ge_prunes ge))"

definition updateText :: "Update \<Rightarrow> string" where
  "updateText u =
     line (''Update with '' @ dec_string (length (upd_groups u)) @ '' group'' @ plural (length (upd_groups u)) @ '':'') @
     concat (map groupEntryText (upd_groups u))"

definition numberedUpdateText :: "nat \<Rightarrow> Update \<Rightarrow> string" where
  "numberedUpdateText n u =
     line (''Update #'' @ dec_string n @ '' with '' @ dec_string (length (upd_groups u)) @ '' group'' @
       plural (length (upd_groups u)) @ '':'') @
     concat (map groupEntryText (upd_groups u))"

text \<open>The table of an update; an address is filled to the width of its column before it is formatted.\<close>

definition updateSummaryText :: "UpdateSummary \<Rightarrow> string" where
  "updateSummaryText us =
     (let gss = us_groups us;
          numLen = (\<lambda>n. decimalUIntLen (of_nat n));
          groupColW = fold max (map (\<lambda>gs. charlen (gs_group gs)) gss) 5;
          joinsColW = fold max (map (\<lambda>gs. numLen (gs_joins gs)) gss) 5;
          prunesColW = fold max (map (\<lambda>gs. numLen (gs_prunes gs)) gss) 6;
          sizeColW = fold max (map (\<lambda>gs. numLen (gs_size gs)) gss) 4;
          sep = scSection CHR ''='' (max groupColW (max joinsColW (max prunesColW sizeColW)));
          row = (\<lambda>g j p s. line (SCLine CHR '' '' 2 @ pad_left groupColW g @ '' '' @ pad_right joinsColW j @ '' '' @
                   pad_right prunesColW p @ '' '' @ pad_right sizeColW s)) in
      line (''Update #'' @ dec_string (us_n us) @ '', size '' @ dec_string (us_size us) @ '', remaining size '' @
        dec_string (us_remaining us)) @
      row ''group'' ''joins'' ''prunes'' ''size'' @
      row (sep groupColW) (sep joinsColW) (sep prunesColW) (sep sizeColW) @
      concat (map (\<lambda>gs. row (pad_left groupColW (addr_string (gs_group gs))) (dec_string (gs_joins gs))
        (dec_string (gs_prunes gs)) (dec_string (gs_size gs))) gss))"

section \<open>Logging\<close>

text \<open>
  \<open>apps/pimc/logging\<close>.  A logger writes to the standard output or to a file; \<open>clock\<close> formats seconds as
  the local time of the host.
\<close>

datatype LogSink = ConsoleLogger | FileLogger string

record Logger =
  log_maxLevel :: nat
  log_sink :: LogSink

definition levelNo :: "Level \<Rightarrow> nat" where
  "levelNo l =
     (case l of LevelNone \<Rightarrow> 0 | LevelCritical \<Rightarrow> 1 | LevelError \<Rightarrow> 2 | LevelWarning \<Rightarrow> 3 | LevelInfo \<Rightarrow> 4
      | LevelDebug \<Rightarrow> 5)"

text \<open>The file system: whether a file exists and is a directory, and whether it can be opened.\<close>

definition newLogger ::
    "(string \<Rightarrow> bool) \<Rightarrow> (string \<Rightarrow> bool) \<Rightarrow> (string \<Rightarrow> string option) \<Rightarrow> LoggingConfig \<Rightarrow> (string, Logger) outcome" where
  "newLogger exist isDirectory openError c =
     (case logFileName c of
        None \<Rightarrow> Ok \<lparr>log_maxLevel = levelNo (level c), log_sink = ConsoleLogger\<rparr>
      | Some f \<Rightarrow>
          if exist f then
            (if isDirectory f then Fail (''unable to create log file: '' @ quoted f @ '' is a directory'')
             else Fail (''unable to create log file '' @ quoted f @ '': file exists''))
          else (case openError f of
              Some e \<Rightarrow> Fail (''unable to open log file '' @ quoted f @ '': '' @ e)
            | None \<Rightarrow> Ok \<lparr>log_maxLevel = levelNo (level c), log_sink = FileLogger f\<rparr>))"

definition log_enabled :: "Logger \<Rightarrow> Level \<Rightarrow> bool" where
  "log_enabled lg l \<longleftrightarrow> levelNo l \<le> log_maxLevel lg"

text \<open>The fractions of both time stamps are computed from the seconds.\<close>

definition consoleTime :: "(nat \<Rightarrow> string) \<Rightarrow> u64 \<Rightarrow> string" where
  "consoleTime clock ts =
     (let tt = unat ts div 1000000000; nanos = unat ts div 1000000000 in
      case prc nanos 6 of (nstext, carry) \<Rightarrow> clock (tt + carry) @ ''.'' @ pad_left 6 nstext)"

definition fileTime :: "(nat \<Rightarrow> string) \<Rightarrow> (nat \<Rightarrow> string) \<Rightarrow> u64 \<Rightarrow> string" where
  "fileTime clock zone ts =
     (let tt = unat ts div 1000000000; nanos = unat ts div 1000000000 in
      clock tt @ ''.'' @ pad_left 9 (dec_string nanos) @ '' UTC'' @ zone tt)"

text \<open>A message, if its level is enabled: its time stamp, level and text.\<close>

definition logMessage ::
    "(nat \<Rightarrow> string) \<Rightarrow> (nat \<Rightarrow> string) \<Rightarrow> (nat \<Rightarrow> string) \<Rightarrow> Logger \<Rightarrow> u64 \<Rightarrow> Level \<Rightarrow> string \<Rightarrow> string" where
  "logMessage clock fileClock zone lg ts l msg =
     (if log_maxLevel lg < levelNo l then []
      else (case log_sink lg of
          ConsoleLogger \<Rightarrow>
            takeWhile (\<lambda>c. c \<noteq> CHR 0x00) (consoleTime clock ts @ '' '' @ levelText l @ '': '' @ line msg)
        | FileLogger _ \<Rightarrow> fileTime fileClock zone ts @ '' '' @ levelText l @ '': '' @ line msg))"

text \<open>Two messages of the same second carry the same time stamp, whatever their nanoseconds.\<close>

lemma time_stamps_of_a_second:
  "unat ts div 1000000000 = unat ts' div 1000000000 \<Longrightarrow>
    consoleTime clock ts = consoleTime clock ts' \<and> fileTime clock zone ts = fileTime clock zone ts'"
  by (simp add: consoleTime_def fileTime_def)

end
