(* ===== verification/Documents.thy ===== *)
theory Documents
  imports LoadedConfigs
begin

text \<open>
  The documents that load: what a YAML document has to hold to represent a configuration, and that the
  loaders read exactly that configuration from it.
\<close>

section \<open>Documents that represent a configuration\<close>

definition addrNode :: "'n YAML \<Rightarrow> 'n \<Rightarrow> IPv4Address \<Rightarrow> bool" where
  "addrNode Y n a \<longleftrightarrow> yn_type Y n = Scalar \<and> parseIPv4Address (yn_scalar Y n) = Some a"

definition addrSeq :: "'n YAML \<Rightarrow> 'n \<Rightarrow> IPv4Address list \<Rightarrow> bool" where
  "addrSeq Y n as \<longleftrightarrow> yn_type Y n = Sequence \<and> yn_size Y n = length as \<and>
     (\<forall>i < length as. addrNode Y (yn_at Y n i) (as ! i))"

text \<open>A mapping with some of the fields, and a field that holds a set of addresses, if it is there.\<close>

definition mapNode :: "'n YAML \<Rightarrow> 'n \<Rightarrow> string set \<Rightarrow> bool" where
  "mapNode Y n known \<longleftrightarrow> yn_type Y n = Map \<and> cleanKeys Y known (map fst (yn_items Y n))"

definition addrsField :: "'n YAML \<Rightarrow> 'n \<Rightarrow> string \<Rightarrow> IPv4Address list \<Rightarrow> bool" where
  "addrsField Y n f as \<longleftrightarrow>
     (if yn_defined Y (yn_field Y n f) then \<exists>bs. addrSeq Y (yn_field Y n f) bs \<and> distinct bs \<and> set bs = set as
      else as = [])"

definition rptNode :: "'n YAML \<Rightarrow> 'n \<Rightarrow> RPT \<Rightarrow> bool" where
  "rptNode Y n r \<longleftrightarrow> mapNode Y n {''RP'', ''Prune''} \<and>
     yn_defined Y (yn_field Y n ''RP'') \<and> addrNode Y (yn_field Y n ''RP'') (rp r) \<and>
     addrsField Y n ''Prune'' (rpt_prunes r)"

definition groupNode :: "'n YAML \<Rightarrow> 'n \<Rightarrow> GroupConfig \<Rightarrow> bool" where
  "groupNode Y n gc \<longleftrightarrow> mapNode Y n {''Join*'', ''Join''} \<and>
     (case gc_rpt gc of
        None \<Rightarrow> \<not> yn_defined Y (yn_field Y n ''Join*'') \<and> yn_defined Y (yn_field Y n ''Join'')
      | Some r \<Rightarrow> yn_defined Y (yn_field Y n ''Join*'') \<and> rptNode Y (yn_field Y n ''Join*'') r) \<and>
     addrsField Y n ''Join'' (gc_spt gc)"

definition jpNode :: "'n YAML \<Rightarrow> 'n \<Rightarrow> JPConfig \<Rightarrow> bool" where
  "jpNode Y n cfg \<longleftrightarrow> yn_type Y n = Map \<and> yn_size Y n \<noteq> 0 \<and>
     list_all2 (\<lambda>(k, v) gc. addrNode Y k (gc_group gc) \<and> groupNode Y v gc) (yn_items Y n) (jp_groups cfg)"

section \<open>A group\<close>

lemma addrNode_scalar:
  assumes "addrNode Y (nc_node v) a" and "unicast a"
  shows "getScalar Y name v = Inr (newNodeContext (nc_node v) (nc_ctx v))"
    and "scalarAddr Y t (newNodeContext (nc_node v) (nc_ctx v)) = Inr a"
  using assms by (simp_all add: getScalar_Ok scalarAddr_Ok addrNode_def)

definition src_entry :: "'n YAML \<Rightarrow> JPSourceType \<Rightarrow> 'n NodeContext \<Rightarrow> IPv4Address \<Rightarrow> IPv4Address \<times> JPSourceInfo" where
  "src_entry Y t v a = (a, \<lparr>jsi_type = t, jsi_line = nodeLine Y (nc_node v)\<rparr>)"

lemma loadPrune_addr:
  assumes "addrNode Y (nc_node v) a" and "unicast a" and "a \<notin> fst ` set (gb_sources b)" and "gb_rptPruned b < 180"
  shows "loadPrune Y G v (b, es) =
    (b\<lparr>gb_sources := gb_sources b @ [src_entry Y JP_RptPruned v a], gb_rptPruned := gb_rptPruned b + 1,
       gb_impl := gcb_acceptPruneSGrpt G a (gb_impl b)\<rparr>, es)"
proof -
  have "map_of (gb_sources b) a = None" using assms(3) by (simp add: map_of_eq_None_iff)
  then show ?thesis
    using addrNode_scalar [OF assms(1,2)] assms(4)
    by (simp add: loadPrune_def Let_def chkSrc_def MaxPruneSGrptLen_def src_entry_def nc_line_def)
qed

lemma loadJoin_addr:
  assumes "addrNode Y (nc_node v) a" and "unicast a" and "a \<notin> fst ` set (gb_sources b)"
  shows "loadJoin Y G v (b, es) =
    (b\<lparr>gb_sources := gb_sources b @ [src_entry Y JP_SptJoined v a],
       gb_impl := gcb_acceptJoinSG G a (gb_impl b)\<rparr>, es)"
proof -
  have "map_of (gb_sources b) a = None" using assms(3) by (simp add: map_of_eq_None_iff)
  then show ?thesis
    using addrNode_scalar [OF assms(1,2)]
    by (simp add: loadJoin_def Let_def chkSrc_def src_entry_def nc_line_def)
qed

text \<open>The folds over the elements of a sequence.\<close>

lemma loadPrunes:
  assumes "list_all2 (\<lambda>v a. addrNode Y (nc_node v) a) vs as" and "\<forall>a \<in> set as. unicast a"
    and "distinct (map fst (gb_sources b) @ as)" and "gb_rptPruned b + length as \<le> 180"
  shows "\<exists>srcs. map fst srcs = as \<and> fold (loadPrune Y G) vs (b, es) =
    (b\<lparr>gb_sources := gb_sources b @ srcs, gb_rptPruned := gb_rptPruned b + length as,
       gb_impl := fold (gcb_acceptPruneSGrpt G) as (gb_impl b)\<rparr>, es)"
  using assms
proof (induction vs as arbitrary: b rule: list_all2_induct)
  case (Cons v vs a as)
  let ?b = "b\<lparr>gb_sources := gb_sources b @ [src_entry Y JP_RptPruned v a], gb_rptPruned := gb_rptPruned b + 1,
       gb_impl := gcb_acceptPruneSGrpt G a (gb_impl b)\<rparr>"
  have "loadPrune Y G v (b, es) = (?b, es)"
    using Cons.hyps(1) Cons.prems by (intro loadPrune_addr) auto
  moreover have "\<exists>srcs. map fst srcs = as \<and> fold (loadPrune Y G) vs (?b, es) =
    (?b\<lparr>gb_sources := gb_sources ?b @ srcs, gb_rptPruned := gb_rptPruned ?b + length as,
       gb_impl := fold (gcb_acceptPruneSGrpt G) as (gb_impl ?b)\<rparr>, es)"
    using Cons.prems by (intro Cons.IH) (auto simp: src_entry_def)
  then obtain srcs where "map fst srcs = as" "fold (loadPrune Y G) vs (?b, es) =
    (?b\<lparr>gb_sources := gb_sources ?b @ srcs, gb_rptPruned := gb_rptPruned ?b + length as,
       gb_impl := fold (gcb_acceptPruneSGrpt G) as (gb_impl ?b)\<rparr>, es)" by blast
  ultimately show ?case by (intro exI [of _ "src_entry Y JP_RptPruned v a # srcs"]) (simp add: src_entry_def)
qed simp

lemma loadJoins:
  assumes "list_all2 (\<lambda>v a. addrNode Y (nc_node v) a) vs as" and "\<forall>a \<in> set as. unicast a"
    and "distinct (map fst (gb_sources b) @ as)"
  shows "\<exists>srcs. map fst srcs = as \<and> fold (loadJoin Y G) vs (b, es) =
    (b\<lparr>gb_sources := gb_sources b @ srcs, gb_impl := fold (gcb_acceptJoinSG G) as (gb_impl b)\<rparr>, es)"
  using assms
proof (induction vs as arbitrary: b rule: list_all2_induct)
  case (Cons v vs a as)
  let ?b = "b\<lparr>gb_sources := gb_sources b @ [src_entry Y JP_SptJoined v a],
       gb_impl := gcb_acceptJoinSG G a (gb_impl b)\<rparr>"
  have "loadJoin Y G v (b, es) = (?b, es)"
    using Cons.hyps(1) Cons.prems by (intro loadJoin_addr) auto
  moreover have "\<exists>srcs. map fst srcs = as \<and> fold (loadJoin Y G) vs (?b, es) =
    (?b\<lparr>gb_sources := gb_sources ?b @ srcs, gb_impl := fold (gcb_acceptJoinSG G) as (gb_impl ?b)\<rparr>, es)"
    using Cons.prems by (intro Cons.IH) (auto simp: src_entry_def)
  then obtain srcs where "map fst srcs = as" "fold (loadJoin Y G) vs (?b, es) =
    (?b\<lparr>gb_sources := gb_sources ?b @ srcs, gb_impl := fold (gcb_acceptJoinSG G) as (gb_impl ?b)\<rparr>, es)" by blast
  ultimately show ?case by (intro exI [of _ "src_entry Y JP_SptJoined v a # srcs"]) (simp add: src_entry_def)
qed simp

lemma addrSeq_elements:
  assumes "addrSeq Y n as" and "nc_node sq = n"
  shows "list_all2 (\<lambda>v a. addrNode Y (nc_node v) a) (elements Y sq) as"
  using assms by (auto simp: addrSeq_def list_all2_conv_all_nth elements_def)

text \<open>The fields of a mapping.\<close>

lemma getMapping_node:
  "yn_type Y (nc_node v) = Map \<Longrightarrow>
    getMapping Y name v = Inr \<lparr>nc_node = nc_node v, nc_ctx = nc_ctx v, mc_name = name, mc_known = {}\<rparr>"
  by (simp add: getMapping_Ok)

lemma optionalField_eq:
  "optionalField Y f mc =
    (if yn_defined Y (yn_field Y (nc_node mc) f)
     then Some (namedNodeContext (yn_field Y (nc_node mc) f) (nc_ctx mc) (describeField (mc\<lparr>mc_known := insert f (mc_known mc)\<rparr>) f))
     else None, mc\<lparr>mc_known := insert f (mc_known mc)\<rparr>)"
  by (simp add: optionalField_def Let_def)

lemma requiredField_eq:
  "yn_defined Y (yn_field Y (nc_node mc) f) \<Longrightarrow> requiredField Y f mc =
    (Ok (namedNodeContext (yn_field Y (nc_node mc) f) (nc_ctx mc) (describeField (mc\<lparr>mc_known := insert f (mc_known mc)\<rparr>) f)),
     mc\<lparr>mc_known := insert f (mc_known mc)\<rparr>)"
  by (simp add: requiredField_def Let_def)

lemma chkExtraneous_clean:
  "cleanKeys Y (mc_known mc) (map fst (yn_items Y (nc_node mc))) \<Longrightarrow> chkExtraneous Y mc es = es"
  using extraneous_Nil [of Y mc] by (simp add: chkExtraneous_def)

lemma getSequence_addrs:
  "addrSeq Y (nc_node v) as \<Longrightarrow>
    getSequence Y name v = Inr \<lparr>nc_node = nc_node v, nc_ctx = nc_ctx v, sc_name = name\<rparr>"
  by (simp add: getSequence_Ok addrSeq_def)

lemma addrsField_distinct:
  assumes "addrSeq Y n bs" "distinct bs" "set bs = set as" "distinct as"
  shows "length bs = length as"
  using assms by (metis distinct_card)

lemma prunesField:
  assumes f: "addrsField Y n ''Prune'' as" and n: "nc_node mc = n" and u: "\<forall>a \<in> set as. unicast a"
    and d: "distinct (map fst (gb_sources b) @ as)" "gb_rptPruned b + length as \<le> 180"
  shows "\<exists>ps srcs. set ps = set as \<and> map fst srcs = ps \<and> distinct ps \<and>
    (case fst (optionalField Y ''Prune'' mc) of
       None \<Rightarrow> (b, es)
     | Some pCtx \<Rightarrow>
         let rList = getSequence Y ''RPT-pruned sources'' pCtx; es = chk rList es in
         case rList of Inl _ \<Rightarrow> (b, es) | Inr sq \<Rightarrow> fold (loadPrune Y G) (elements Y sq) (b, es)) =
    (b\<lparr>gb_sources := gb_sources b @ srcs, gb_rptPruned := gb_rptPruned b + length ps,
       gb_impl := fold (gcb_acceptPruneSGrpt G) ps (gb_impl b)\<rparr>, es)"
proof (cases "yn_defined Y (yn_field Y n ''Prune'')")
  case True
  then obtain ps where ps: "addrSeq Y (yn_field Y n ''Prune'') ps" "distinct ps" "set ps = set as"
    using f by (auto simp: addrsField_def)
  have len: "length ps = length as" using addrsField_distinct [OF ps] d(1) by simp
  let ?c = "namedNodeContext (yn_field Y n ''Prune'') (nc_ctx mc)
      (describeField (mc\<lparr>mc_known := insert ''Prune'' (mc_known mc)\<rparr>) ''Prune'')"
  let ?sq = "\<lparr>nc_node = nc_node ?c, nc_ctx = nc_ctx ?c, sc_name = ''RPT-pruned sources''\<rparr>"
  have "\<exists>srcs. map fst srcs = ps \<and> fold (loadPrune Y G) (elements Y ?sq) (b, es) =
    (b\<lparr>gb_sources := gb_sources b @ srcs, gb_rptPruned := gb_rptPruned b + length ps,
       gb_impl := fold (gcb_acceptPruneSGrpt G) ps (gb_impl b)\<rparr>, es)"
    using ps u d len by (intro loadPrunes addrSeq_elements [OF ps(1)]) auto
  then obtain srcs where "map fst srcs = ps" "fold (loadPrune Y G) (elements Y ?sq) (b, es) =
    (b\<lparr>gb_sources := gb_sources b @ srcs, gb_rptPruned := gb_rptPruned b + length ps,
       gb_impl := fold (gcb_acceptPruneSGrpt G) ps (gb_impl b)\<rparr>, es)" by blast
  moreover have "getSequence Y name ?c = Inr \<lparr>nc_node = nc_node ?c, nc_ctx = nc_ctx ?c, sc_name = name\<rparr>" for name
    using ps(1) by (intro getSequence_addrs [of _ _ ps]) simp
  ultimately show ?thesis
    using True n ps by (intro exI [of _ ps] exI [of _ srcs]) (simp add: optionalField_eq Let_def)
next
  case False
  then show ?thesis using f n by (simp add: optionalField_eq addrsField_def)
qed

lemma joinsField:
  assumes f: "addrsField Y n ''Join'' as" and n: "nc_node mc = n" and u: "\<forall>a \<in> set as. unicast a"
    and d: "distinct (map fst (gb_sources b) @ as)"
  shows "\<exists>js srcs. set js = set as \<and> map fst srcs = js \<and> distinct js \<and>
    (case fst (optionalField Y ''Join'' mc) of None \<Rightarrow> (b, es) | Some v \<Rightarrow> loadSPTConfig Y G v (b, es)) =
    (b\<lparr>gb_sources := gb_sources b @ srcs, gb_impl := fold (gcb_acceptJoinSG G) js (gb_impl b)\<rparr>, es)"
proof (cases "yn_defined Y (yn_field Y n ''Join'')")
  case True
  then obtain js where js: "addrSeq Y (yn_field Y n ''Join'') js" "distinct js" "set js = set as"
    using f by (auto simp: addrsField_def)
  let ?c = "namedNodeContext (yn_field Y n ''Join'') (nc_ctx mc)
      (describeField (mc\<lparr>mc_known := insert ''Join'' (mc_known mc)\<rparr>) ''Join'')"
  let ?sq = "\<lparr>nc_node = nc_node ?c, nc_ctx = nc_ctx ?c, sc_name = ''IPv4 SPT config''\<rparr>"
  have "\<exists>srcs. map fst srcs = js \<and> fold (loadJoin Y G) (elements Y ?sq) (b, es) =
    (b\<lparr>gb_sources := gb_sources b @ srcs, gb_impl := fold (gcb_acceptJoinSG G) js (gb_impl b)\<rparr>, es)"
    using js u d by (intro loadJoins addrSeq_elements [OF js(1)]) auto
  then obtain srcs where "map fst srcs = js" "fold (loadJoin Y G) (elements Y ?sq) (b, es) =
    (b\<lparr>gb_sources := gb_sources b @ srcs, gb_impl := fold (gcb_acceptJoinSG G) js (gb_impl b)\<rparr>, es)" by blast
  moreover have "getSequence Y name ?c = Inr \<lparr>nc_node = nc_node ?c, nc_ctx = nc_ctx ?c, sc_name = name\<rparr>" for name
    using js(1) by (intro getSequence_addrs [of _ _ js]) simp
  ultimately show ?thesis
    using True n js by (intro exI [of _ js] exI [of _ srcs]) (simp add: optionalField_eq loadSPTConfig_def Let_def)
next
  case False
  then show ?thesis using f n by (simp add: optionalField_eq addrsField_def)
qed

lemma loadRPTConfig_node:
  assumes r: "rptNode Y (nc_node v) r" and u: "\<forall>a \<in> set (rp r # rpt_prunes r). unicast a"
    and d: "distinct (rp r # rpt_prunes r)" "length (rpt_prunes r) \<le> 180"
  shows "\<exists>ps b. set ps = set (rpt_prunes r) \<and> distinct ps \<and>
    loadRPTConfig Y G v (newGroupBuilder G ga l, es) = (b, es) \<and>
    gb_group b = ga \<and> set (map fst (gb_sources b)) = set (rp r # rpt_prunes r) \<and> distinct (map fst (gb_sources b)) \<and>
    gb_impl b = fold (gcb_acceptPruneSGrpt G) ps (gcb_acceptRP G (rp r) (gcb_new G))"
proof -
  let ?n = "nc_node v"
  let ?mc = "\<lparr>nc_node = ?n, nc_ctx = nc_ctx v, mc_name = ''IPv4 RPT config'', mc_known = {''RP''}\<rparr>"
  let ?c = "namedNodeContext (yn_field Y ?n ''RP'') (nc_ctx v) (describeField ?mc ''RP'')"
  let ?b1 = "(newGroupBuilder G ga l)\<lparr>gb_sources := [(rp r, \<lparr>jsi_type = JP_RP, jsi_line = nodeLine Y (yn_field Y ?n ''RP'')\<rparr>)],
      gb_impl := gcb_acceptRP G (rp r) (gcb_new G)\<rparr>"
  have m: "yn_type Y ?n = Map" "cleanKeys Y {''Prune'', ''RP''} (map fst (yn_items Y ?n))"
    "yn_defined Y (yn_field Y ?n ''RP'')" "addrNode Y (yn_field Y ?n ''RP'') (rp r)" "addrsField Y ?n ''Prune'' (rpt_prunes r)"
    using r by (simp_all add: rptNode_def mapNode_def insert_commute)
  have rp: "loadRP Y G (getScalar Y name ?c) (newGroupBuilder G ga l, es) = (?b1, es)" for name
    using addrNode_scalar [of Y ?c "rp r"] m(4) u
    by (simp add: loadRP_def Let_def chkSrc_def newGroupBuilder_def nc_line_def)
  have "\<exists>ps srcs. set ps = set (rpt_prunes r) \<and> map fst srcs = ps \<and> distinct ps \<and>
    (case fst (optionalField Y ''Prune'' ?mc) of
       None \<Rightarrow> (?b1, es)
     | Some pCtx \<Rightarrow>
         let rList = getSequence Y ''RPT-pruned sources'' pCtx; es = chk rList es in
         case rList of Inl _ \<Rightarrow> (?b1, es) | Inr sq \<Rightarrow> fold (loadPrune Y G) (elements Y sq) (?b1, es)) =
    (?b1\<lparr>gb_sources := gb_sources ?b1 @ srcs, gb_rptPruned := gb_rptPruned ?b1 + length ps,
       gb_impl := fold (gcb_acceptPruneSGrpt G) ps (gb_impl ?b1)\<rparr>, es)"
    using m(5) u d by (intro prunesField) (auto simp: newGroupBuilder_def)
  then obtain ps srcs where ps: "set ps = set (rpt_prunes r)" "map fst srcs = ps" "distinct ps"
    "(case fst (optionalField Y ''Prune'' ?mc) of
       None \<Rightarrow> (?b1, es)
     | Some pCtx \<Rightarrow>
         let rList = getSequence Y ''RPT-pruned sources'' pCtx; es = chk rList es in
         case rList of Inl _ \<Rightarrow> (?b1, es) | Inr sq \<Rightarrow> fold (loadPrune Y G) (elements Y sq) (?b1, es)) =
    (?b1\<lparr>gb_sources := gb_sources ?b1 @ srcs, gb_rptPruned := gb_rptPruned ?b1 + length ps,
       gb_impl := fold (gcb_acceptPruneSGrpt G) ps (gb_impl ?b1)\<rparr>, es)" by blast
  obtain oP mc where oF: "optionalField Y ''Prune'' ?mc = (oP, mc)" by fastforce
  then have known: "mc_known mc = {''Prune'', ''RP''}" "nc_node mc = ?n" by (auto simp: optionalField_eq)
  define b where "b = ?b1\<lparr>gb_sources := gb_sources ?b1 @ srcs, gb_rptPruned := gb_rptPruned ?b1 + length ps,
       gb_impl := fold (gcb_acceptPruneSGrpt G) ps (gb_impl ?b1)\<rparr>"
  have "loadRPTConfig Y G v (newGroupBuilder G ga l, es) = (b, es)"
    using ps(4) oF m(2) known
    by (simp add: loadRPTConfig_def getMapping_node [OF m(1)] requiredField_eq m(3) Let_def rp chkExtraneous_clean b_def)
  moreover have "gb_group b = ga" "map fst (gb_sources b) = rp r # ps"
    "gb_impl b = fold (gcb_acceptPruneSGrpt G) ps (gcb_acceptRP G (rp r) (gcb_new G))"
    using ps(2) by (simp_all add: b_def newGroupBuilder_def)
  moreover have "rp r \<notin> set ps" using ps(1) d(1) by simp
  ultimately show ?thesis using ps(1,3) by (intro exI [of _ ps] exI [of _ b]) simp
qed

section \<open>The Join/Prune configuration\<close>

text \<open>The sets of the builder, for addresses in any order.\<close>

lemma fold_insort:
  "sorted xs \<Longrightarrow> distinct xs \<Longrightarrow>
    sorted (fold List.insort_insert as xs) \<and> distinct (fold List.insort_insert as xs) \<and>
    set (fold List.insort_insert as xs) = set as \<union> set xs"
  by (induction as arbitrary: xs) (simp_all add: sorted_insort_insert distinct_insort_insert set_insort_insert)

lemma fold_insort_eq:
  assumes "set as = set bs" "sorted bs" "distinct bs" shows "fold List.insort_insert as [] = bs"
  using fold_insort [of "[]" as] assms by (intro sorted_distinct_set_unique) auto

lemma fold_accepts:
  "fold jpAcceptPruneSGrpt ps b = b\<lparr>jb_prunes := fold List.insort_insert ps (jb_prunes b)\<rparr>"
  "fold jpAcceptJoinSG ps b = b\<lparr>jb_joins := fold List.insort_insert ps (jb_joins b)\<rparr>"
  by (induction ps arbitrary: b) (simp_all add: jpAcceptPruneSGrpt_def jpAcceptJoinSG_def)

lemma loadGroupConfig_node:
  assumes n: "groupNode Y (nc_node v) gc" and ok: "loadableGroup gc"
  shows "\<exists>b. loadGroupConfig Y jpGroupConfigBuilder v (newGroupBuilder jpGroupConfigBuilder (gc_group gc) l, es) = (b, es) \<and>
    gb_group b = gc_group gc \<and> jpBuild (gc_group gc) (gb_impl b) = gc"
proof -
  let ?G = jpGroupConfigBuilder
  let ?n = "nc_node v"
  have m: "yn_type Y ?n = Map" "cleanKeys Y {''Join'', ''Join*''} (map fst (yn_items Y ?n))" "addrsField Y ?n ''Join'' (gc_spt gc)"
    using n by (simp_all add: groupNode_def mapNode_def insert_commute)
  have acc: "gcb_acceptRP ?G = jpAcceptRP" "gcb_acceptPruneSGrpt ?G = jpAcceptPruneSGrpt"
    "gcb_acceptJoinSG ?G = jpAcceptJoinSG" "gcb_new ?G = \<lparr>jb_rp = None, jb_prunes = [], jb_joins = []\<rparr>"
    by (simp_all add: jpGroupConfigBuilder_def)
  have u: "\<forall>a \<in> set (configAddrs gc). unicast a" "distinct (configAddrs gc)" "sorted (gc_spt gc)"
    using ok by (simp_all add: loadableGroup_def)
  have grp: "gb_group (newGroupBuilder ?G ga l) = ga" for ga by (simp add: newGroupBuilder_def)
  let ?name = "''IPv4 group '' @ addr_string (gc_group gc) @ '' config''"
  let ?mc = "\<lparr>nc_node = ?n, nc_ctx = nc_ctx v, mc_name = ?name, mc_known = {}\<rparr>"
  define oR where "oR = fst (optionalField Y ''Join*'' ?mc)"
  define mc1 where "mc1 = snd (optionalField Y ''Join*'' ?mc)"
  define oS where "oS = fst (optionalField Y ''Join'' mc1)"
  define mc2 where "mc2 = snd (optionalField Y ''Join'' mc1)"
  have oR: "optionalField Y ''Join*'' ?mc = (oR, mc1)" and oS: "optionalField Y ''Join'' mc1 = (oS, mc2)"
    by (simp_all add: oR_def mc1_def oS_def mc2_def)
  have mc1: "nc_node mc1 = ?n" "mc_known mc1 = {''Join*''}" by (simp_all add: mc1_def optionalField_eq)
  have mc2: "nc_node mc2 = ?n" "mc_known mc2 = {''Join'', ''Join*''}" by (simp_all add: mc2_def optionalField_eq mc1)
  have oR': "if yn_defined Y (yn_field Y ?n ''Join*'') then \<exists>w. oR = Some w \<and> nc_node w = yn_field Y ?n ''Join*'' else oR = None"
    by (simp add: oR_def optionalField_eq)
  have oS': "oS = None \<longleftrightarrow> \<not> yn_defined Y (yn_field Y ?n ''Join'')"
    by (simp add: oS_def optionalField_eq mc1)
  have "\<exists>ps b. (case oR of None \<Rightarrow> (newGroupBuilder ?G (gc_group gc) l, es)
       | Some v \<Rightarrow> loadRPTConfig Y ?G v (newGroupBuilder ?G (gc_group gc) l, es)) = (b, es) \<and>
     gb_group b = gc_group gc \<and> distinct (map fst (gb_sources b) @ gc_spt gc) \<and>
     gb_impl b = (case gc_rpt gc of None \<Rightarrow> gcb_new ?G | Some r \<Rightarrow> fold jpAcceptPruneSGrpt ps (jpAcceptRP (rp r) (gcb_new ?G))) \<and>
     (case gc_rpt gc of None \<Rightarrow> True | Some r \<Rightarrow> set ps = set (rpt_prunes r))"
  proof (cases "gc_rpt gc")
    case None
    then have "oR = None" using n oR' by (simp add: groupNode_def)
    then show ?thesis using None u(2) by (auto simp: newGroupBuilder_def configAddrs_def)
  next
    case (Some r)
    then have "yn_defined Y (yn_field Y ?n ''Join*'')" "rptNode Y (yn_field Y ?n ''Join*'') r"
      using n by (simp_all add: groupNode_def)
    then obtain w where w: "oR = Some w" "rptNode Y (nc_node w) r" using oR' by auto
    have "length (rpt_prunes r) \<le> 180" using ok Some by (simp add: loadableGroup_def prunes_bounded_def MaxPruneSGrptLen_def)
    then obtain ps b where b: "set ps = set (rpt_prunes r)"
      "loadRPTConfig Y ?G w (newGroupBuilder ?G (gc_group gc) l, es) = (b, es)" "gb_group b = gc_group gc"
      "set (map fst (gb_sources b)) = set (rp r # rpt_prunes r)" "distinct (map fst (gb_sources b))"
      "gb_impl b = fold (gcb_acceptPruneSGrpt ?G) ps (gcb_acceptRP ?G (rp r) (gcb_new ?G))"
      using loadRPTConfig_node [OF w(2), of ?G "gc_group gc" l es] u Some by (auto simp: configAddrs_def)
    have "distinct (map fst (gb_sources b) @ gc_spt gc)"
      using b(4,5) u(2) Some unfolding distinct_append by (simp add: configAddrs_def)
    with b w Some show ?thesis by (intro exI [of _ ps] exI [of _ b]) (simp add: acc)
  qed
  then obtain ps b where b: "(case oR of None \<Rightarrow> (newGroupBuilder ?G (gc_group gc) l, es)
       | Some v \<Rightarrow> loadRPTConfig Y ?G v (newGroupBuilder ?G (gc_group gc) l, es)) = (b, es)"
     "gb_group b = gc_group gc" "distinct (map fst (gb_sources b) @ gc_spt gc)"
     "gb_impl b = (case gc_rpt gc of None \<Rightarrow> gcb_new ?G | Some r \<Rightarrow> fold jpAcceptPruneSGrpt ps (jpAcceptRP (rp r) (gcb_new ?G)))"
     "case gc_rpt gc of None \<Rightarrow> True | Some r \<Rightarrow> set ps = set (rpt_prunes r)" by blast
  have "\<forall>a \<in> set (gc_spt gc). unicast a" using u(1) by (simp add: configAddrs_def)
  from joinsField [OF m(3) mc1(1) this b(3), where G = ?G and es = es] obtain js srcs where js: "set js = set (gc_spt gc)"
    "(case oS of None \<Rightarrow> (b, es) | Some v \<Rightarrow> loadSPTConfig Y ?G v (b, es)) =
      (b\<lparr>gb_sources := gb_sources b @ srcs, gb_impl := fold (gcb_acceptJoinSG ?G) js (gb_impl b)\<rparr>, es)"
    using oS by auto
  have "oR \<noteq> None \<or> oS \<noteq> None" using n oR' oS' by (auto simp: groupNode_def split: option.splits)
  then have some: "(oR = None \<and> oS = None) = False" by blast
  have "loadGroupConfig Y ?G v (newGroupBuilder ?G (gc_group gc) l, es) =
      (case (case oR of None \<Rightarrow> (newGroupBuilder ?G (gc_group gc) l, es)
         | Some v \<Rightarrow> loadRPTConfig Y ?G v (newGroupBuilder ?G (gc_group gc) l, es)) of (b, es) \<Rightarrow>
       case (case oS of None \<Rightarrow> (b, es) | Some v \<Rightarrow> loadSPTConfig Y ?G v (b, es)) of (b, es) \<Rightarrow>
         (b, chkExtraneous Y mc2 es))"
    by (simp only: loadGroupConfig_def prod.case Let_def getMapping_node [OF m(1)] sum.case chk_simps grp oR oS some if_False)
  also have "\<dots> = (b\<lparr>gb_sources := gb_sources b @ srcs, gb_impl := fold jpAcceptJoinSG js (gb_impl b)\<rparr>, es)"
    using m(2) mc2 by (simp only: b(1) prod.case js(2) acc(3)) (simp add: chkExtraneous_clean)
  finally have load: "loadGroupConfig Y ?G v (newGroupBuilder ?G (gc_group gc) l, es) =
      (b\<lparr>gb_sources := gb_sources b @ srcs, gb_impl := fold jpAcceptJoinSG js (gb_impl b)\<rparr>, es)" .
  have "jpBuild (gc_group gc) (fold jpAcceptJoinSG js (gb_impl b)) = gc"
  proof -
    have j: "fold List.insort_insert js [] = gc_spt gc"
      using js(1) u by (intro fold_insort_eq) (auto simp: configAddrs_def)
    show ?thesis
    proof (cases "gc_rpt gc")
      case None
      then show ?thesis using b(4) j by (simp add: jpBuild_def fold_accepts acc)
    next
      case (Some r)
      have "fold List.insort_insert ps [] = rpt_prunes r"
        using b(5) ok u(2) Some by (intro fold_insort_eq) (auto simp: configAddrs_def loadableGroup_def)
      then show ?thesis using b(4) j Some by (simp add: jpBuild_def fold_accepts acc jpAcceptRP_def)
    qed
  qed
  with load show ?thesis using b(2) by simp
qed

lemma loadGroup_node:
  assumes k: "addrNode Y (nc_node k) (gc_group gc)" and v: "groupNode Y (nc_node v) gc" and ok: "loadableGroup gc"
    and fresh: "gc_group gc \<notin> fst ` set (mb_map mb)"
  shows "\<exists>b. jpBuild (gc_group gc) (gb_impl b) = gc \<and> loadGroup Y jpGroupConfigBuilder (k, v) (mb, es) =
    (\<lparr>mb_groups = mb_groups mb @ [gc_group gc], mb_map = mb_map mb @ [(gc_group gc, b)]\<rparr>, es)"
proof -
  have k': "yn_type Y (nc_node k) = Scalar" "parseIPv4Address (yn_scalar Y (nc_node k)) = Some (gc_group gc)"
    using k by (simp_all add: addrNode_def)
  have "isMcast (gc_group gc)" using ok by (simp add: loadableGroup_def)
  then have a: "grpAddr (scalarValue Y (newNodeContext (nc_node k) (nc_ctx k))) = Inr (gc_group gc)"
    using k'(2) by (simp add: grpAddr_Ok scalarValue_def)
  have sc: "getScalar Y [] k = Inr (newNodeContext (nc_node k) (nc_ctx k))" using k'(1) by (simp add: getScalar_Ok)
  have free: "map_of (mb_map mb) (gc_group gc) = None" using fresh by (simp add: map_of_eq_None_iff)
  obtain b where b: "loadGroupConfig Y jpGroupConfigBuilder v (newGroupBuilder jpGroupConfigBuilder (gc_group gc)
      (nc_line Y (newNodeContext (nc_node k) (nc_ctx k))), es) = (b, es)"
    "jpBuild (gc_group gc) (gb_impl b) = gc"
    using loadGroupConfig_node [OF v ok, of "nc_line Y (newNodeContext (nc_node k) (nc_ctx k))" es] by blast
  have "loadGroup Y jpGroupConfigBuilder (k, v) (mb, es) =
    (\<lparr>mb_groups = mb_groups mb @ [gc_group gc], mb_map = mb_map mb @ [(gc_group gc, b)]\<rparr>, es)"
    by (simp only: loadGroup_def prod.case fst_conv snd_conv Let_def sc sum.case chk_simps a mapError_simps free option.case b)
  with b(2) show ?thesis by blast
qed

lemma loadGroups_node:
  assumes "list_all2 (\<lambda>(k, v) gc. addrNode Y (nc_node k) (gc_group gc) \<and> groupNode Y (nc_node v) gc) kvs gcs"
    and "\<forall>gc \<in> set gcs. loadableGroup gc" and "distinct (map fst (mb_map mb) @ map gc_group gcs)"
  shows "\<exists>bs. list_all2 (\<lambda>b gc. jpBuild (gc_group gc) (gb_impl b) = gc) bs gcs \<and>
    fold (loadGroup Y jpGroupConfigBuilder) kvs (mb, es) =
      (\<lparr>mb_groups = mb_groups mb @ map gc_group gcs, mb_map = mb_map mb @ zip (map gc_group gcs) bs\<rparr>, es)"
  using assms
proof (induction kvs gcs arbitrary: mb rule: list_all2_induct)
  case (Cons kv kvs gc gcs)
  obtain k v where kv: "kv = (k, v)" by (cases kv)
  have "addrNode Y (nc_node k) (gc_group gc)" "groupNode Y (nc_node v) gc" using Cons.hyps(1) kv by simp_all
  moreover have "loadableGroup gc" "gc_group gc \<notin> fst ` set (mb_map mb)" using Cons.prems by auto
  ultimately obtain b where b: "jpBuild (gc_group gc) (gb_impl b) = gc" "loadGroup Y jpGroupConfigBuilder kv (mb, es) =
    (\<lparr>mb_groups = mb_groups mb @ [gc_group gc], mb_map = mb_map mb @ [(gc_group gc, b)]\<rparr>, es)"
    using loadGroup_node [of Y k gc v mb es] kv by blast
  let ?mb = "\<lparr>mb_groups = mb_groups mb @ [gc_group gc], mb_map = mb_map mb @ [(gc_group gc, b)]\<rparr>"
  have "\<exists>bs. list_all2 (\<lambda>b gc. jpBuild (gc_group gc) (gb_impl b) = gc) bs gcs \<and>
    fold (loadGroup Y jpGroupConfigBuilder) kvs (?mb, es) =
      (\<lparr>mb_groups = mb_groups ?mb @ map gc_group gcs, mb_map = mb_map ?mb @ zip (map gc_group gcs) bs\<rparr>, es)"
    using Cons.prems by (intro Cons.IH) auto
  then obtain bs where "list_all2 (\<lambda>b gc. jpBuild (gc_group gc) (gb_impl b) = gc) bs gcs"
    "fold (loadGroup Y jpGroupConfigBuilder) kvs (?mb, es) =
      (\<lparr>mb_groups = mb_groups ?mb @ map gc_group gcs, mb_map = mb_map ?mb @ zip (map gc_group gcs) bs\<rparr>, es)" by blast
  with b show ?case by (intro exI [of _ "b # bs"]) simp
qed simp

lemma buildGroups_zip:
  assumes "list_all2 (\<lambda>b gc. jpBuild (gc_group gc) (gb_impl b) = gc) bs gcs" and "distinct (map gc_group gcs)"
  shows "buildGroups jpGroupConfigBuilder (zip (map gc_group gcs) bs) (map gc_group gcs) = Ok gcs"
proof -
  let ?m = "zip (map gc_group gcs) bs"
  have build: "gcb_build jpGroupConfigBuilder = jpBuild" by (simp add: jpGroupConfigBuilder_def)
  have "buildGroups jpGroupConfigBuilder ?m (map gc_group gs) = Ok gs" if "set gs \<subseteq> set gcs" for gs
    using that
  proof (induction gs)
    case (Cons g gs)
    then obtain i where i: "i < length gcs" "gcs ! i = g" by (auto simp: in_set_conv_nth)
    then have "map_of ?m (gc_group g) = Some (bs ! i)"
      using assms map_of_zip_nth [of "map gc_group gcs" bs i] by (simp add: list_all2_lengthD)
    moreover have "jpBuild (gc_group g) (gb_impl (bs ! i)) = g" using assms(1) i by (auto simp: list_all2_conv_all_nth)
    ultimately show ?case using Cons by (simp add: build)
  qed simp
  then show ?thesis by simp
qed

lemma loadJPConfig_node:
  assumes n: "jpNode Y (nc_node v) cfg" and ok: "loadableConfig cfg"
  shows "loadJPConfig Y v = Ok (Ok cfg)"
proof -
  let ?mc = "\<lparr>nc_node = nc_node v, nc_ctx = nc_ctx v, mc_name = ''IPv4 multicast config'', mc_known = {}\<rparr>"
  let ?gcs = "jp_groups cfg"
  have m: "yn_type Y (nc_node v) = Map" "yn_size Y (nc_node v) \<noteq> 0" using n by (simp_all add: jpNode_def)
  have "list_all2 (\<lambda>(k, v) gc. addrNode Y (nc_node k) (gc_group gc) \<and> groupNode Y (nc_node v) gc) (items Y ?mc) ?gcs"
    using n m(2) by (auto simp: jpNode_def items_def list_all2_map1 elim!: list_all2_mono)
  then obtain bs where bs: "list_all2 (\<lambda>b gc. jpBuild (gc_group gc) (gb_impl b) = gc) bs ?gcs"
    "fold (loadGroup Y jpGroupConfigBuilder) (items Y ?mc) (\<lparr>mb_groups = [], mb_map = []\<rparr>, []) =
      (\<lparr>mb_groups = map gc_group ?gcs, mb_map = zip (map gc_group ?gcs) bs\<rparr>, [])"
    using loadGroups_node [of Y "items Y ?mc" ?gcs "\<lparr>mb_groups = [], mb_map = []\<rparr>" "[]"] ok
    by (auto simp: loadableConfig_def)
  have "buildGroups jpGroupConfigBuilder (zip (map gc_group ?gcs) bs) (map gc_group ?gcs) = Ok ?gcs"
    using bs(1) ok by (intro buildGroups_zip) (simp_all add: loadableConfig_def)
  then show ?thesis
    using m(2) by (simp add: loadJPConfig_def loadMulticastConfig_def getMapping_node [OF m(1)] Let_def mc_size_def bs(2)
        buildMulticastConfig_def)
qed

section \<open>The whole document\<close>

definition pimNode :: "'n YAML \<Rightarrow> Host \<Rightarrow> IntfTable \<Rightarrow> 'n \<Rightarrow> PIMSMConfig \<Rightarrow> bool" where
  "pimNode Y H t n c \<longleftrightarrow> mapNode Y n {''interface'', ''neighbor''} \<and>
     yn_defined Y (yn_field Y n ''neighbor'') \<and> addrNode Y (yn_field Y n ''neighbor'') (neighbor c) \<and> unicast (neighbor c) \<and>
     yn_defined Y (yn_field Y n ''interface'') \<and> yn_type Y (yn_field Y n ''interface'') = Scalar \<and>
     (\<exists>info a. byName t (yn_scalar Y (yn_field Y n ''interface'')) = Some info \<and> ipv4addr info = Some a \<and>
        c = \<lparr>neighbor = neighbor c, intfIndex = ifindex info, intfAddr = a, intfName = intf_name info, helloPeriod = 30,
          helloHoldtime = 105, jpPeriod = 60, jpHoldtime = 210, drPriority = 0, generationId = h_generationId H\<rparr>)"

text \<open>The optional fields of the logging configuration, and that configuration, which is optional too.\<close>

definition levelNode :: "'n YAML \<Rightarrow> 'n \<Rightarrow> Level \<Rightarrow> bool" where
  "levelNode Y n l \<longleftrightarrow>
     (if yn_defined Y n then yn_type Y n = Scalar \<and> levelOf (yn_scalar Y n) = Some l else l = LevelInfo)"

definition dirNode :: "'n YAML \<Rightarrow> Host \<Rightarrow> 'n \<Rightarrow> string option \<Rightarrow> bool" where
  "dirNode Y H n d \<longleftrightarrow>
     (if yn_defined Y n then yn_type Y n = Scalar \<and> d = Some (yn_scalar Y n) \<and> h_exists H (yn_scalar Y n) \<and>
        h_isDirectory H (yn_scalar Y n)
      else d = None)"

definition loggingNode :: "'n YAML \<Rightarrow> Host \<Rightarrow> 'n \<Rightarrow> LoggingConfig \<Rightarrow> bool" where
  "loggingNode Y H n c \<longleftrightarrow>
     (if yn_defined Y n then mapNode Y n {''dir'', ''level''} \<and>
        (\<exists>l d. levelNode Y (yn_field Y n ''level'') l \<and> dirNode Y H (yn_field Y n ''dir'') d \<and>
           c = buildLoggingConfig H \<lparr>ll_level = l, ll_dir = d\<rparr>)
      else c = \<lparr>level = LevelInfo, logFileName = None\<rparr>)"

definition configNode :: "'n YAML \<Rightarrow> Host \<Rightarrow> IntfTable \<Rightarrow> 'n \<Rightarrow> LoggingConfig \<Rightarrow> PIMSMConfig \<Rightarrow> JPConfig \<Rightarrow> bool" where
  "configNode Y H t n lc pc cfg \<longleftrightarrow> mapNode Y n {''logging'', ''multicast'', ''pim''} \<and>
     loggingNode Y H (yn_field Y n ''logging'') lc \<and>
     yn_defined Y (yn_field Y n ''pim'') \<and> pimNode Y H t (yn_field Y n ''pim'') pc \<and>
     yn_defined Y (yn_field Y n ''multicast'') \<and> jpNode Y (yn_field Y n ''multicast'') cfg"

lemma loadPIMSMConfig_node:
  assumes "pimNode Y H t (nc_node v) c"
  shows "loadPIMSMConfig Y (h_generationId H) t v = Some (Ok c)"
proof -
  let ?n = "nc_node v"
  let ?mc = "\<lambda>known. \<lparr>nc_node = ?n, nc_ctx = nc_ctx v, mc_name = ''PIM-SM config'', mc_known = known\<rparr>"
  let ?cN = "namedNodeContext (yn_field Y ?n ''neighbor'') (nc_ctx v) (describeField (?mc {''neighbor''}) ''neighbor'')"
  let ?cI = "namedNodeContext (yn_field Y ?n ''interface'') (nc_ctx v)
      (describeField (?mc {''interface'', ''neighbor''}) ''interface'')"
  have m: "yn_type Y ?n = Map" "cleanKeys Y {''interface'', ''neighbor''} (map fst (yn_items Y ?n))"
    "yn_defined Y (yn_field Y ?n ''neighbor'')" "addrNode Y (yn_field Y ?n ''neighbor'') (neighbor c)" "unicast (neighbor c)"
    "yn_defined Y (yn_field Y ?n ''interface'')" "yn_type Y (yn_field Y ?n ''interface'') = Scalar"
    using assms by (simp_all add: pimNode_def mapNode_def)
  obtain info a where i: "byName t (yn_scalar Y (yn_field Y ?n ''interface'')) = Some info" "ipv4addr info = Some a"
    "c = \<lparr>neighbor = neighbor c, intfIndex = ifindex info, intfAddr = a, intfName = intf_name info, helloPeriod = 30,
          helloHoldtime = 105, jpPeriod = 60, jpHoldtime = 210, drPriority = 0, generationId = h_generationId H\<rparr>"
    using assms by (auto simp: pimNode_def)
  have nb: "loadNeighbor Y (getScalar Y name ?cN) (pl, es) = (pl\<lparr>pl_neighbor := neighbor c\<rparr>, es)" for name pl es
    using addrNode_scalar [of Y ?cN "neighbor c"] m(4,5) by (simp add: loadNeighbor_def Let_def)
  have "getScalar Y name ?cI = Inr (newNodeContext (nc_node ?cI) (nc_ctx ?cI))" for name
    using m(7) by (simp add: getScalar_Ok)
  then have intf: "loadInterface Y t (getScalar Y name ?cI) (pl, es) =
      (pl\<lparr>pl_intfIndex := Some (ifindex info), pl_intfAddr := a, pl_intfName := intf_name info\<rparr>, es)" for name pl es
    using i(1,2) by (simp add: loadInterface_def Let_def scalarValue_def)
  show ?thesis
    using i(3) m(2)
    by (simp add: loadPIMSMConfig_def runPIMSMConfigLoader_def getMapping_node [OF m(1)] requiredField_eq m(3,6) Let_def
        nb intf chkExtraneous_clean newPIMSMConfigLoader_def buildPIMSMConfig_def)
qed

lemma loadLoggingConfig_node:
  assumes "loggingNode Y H (yn_field Y (nc_node mc) ''logging'') c"
  shows "loadLoggingConfig Y H (fst (optionalField Y ''logging'' mc)) = Ok c"
proof (cases "yn_defined Y (yn_field Y (nc_node mc) ''logging'')")
  case True
  let ?n = "yn_field Y (nc_node mc) ''logging''"
  let ?v = "namedNodeContext ?n (nc_ctx mc) (describeField (mc\<lparr>mc_known := insert ''logging'' (mc_known mc)\<rparr>) ''logging'')"
  let ?mc = "\<lambda>known. \<lparr>nc_node = ?n, nc_ctx = nc_ctx ?v, mc_name = ''Logging Config'', mc_known = known\<rparr>"
  have m: "yn_type Y (nc_node ?v) = Map" "cleanKeys Y {''dir'', ''level''} (map fst (yn_items Y ?n))"
    using assms True by (simp_all add: loggingNode_def mapNode_def)
  obtain l d where ld: "levelNode Y (yn_field Y ?n ''level'') l" "dirNode Y H (yn_field Y ?n ''dir'') d"
    "c = buildLoggingConfig H \<lparr>ll_level = l, ll_dir = d\<rparr>"
    using assms True by (auto simp: loggingNode_def)
  define oL where "oL = fst (optionalField Y ''level'' (?mc {}))"
  define oD where "oD = fst (optionalField Y ''dir'' (?mc {''level''}))"
  have opt: "optionalField Y ''level'' (?mc {}) = (oL, ?mc {''level''})"
    "optionalField Y ''dir'' (?mc {''level''}) = (oD, ?mc {''dir'', ''level''})"
    by (simp_all add: optionalField_eq oL_def oD_def)
  have lev: "getLevel Y oL (\<lparr>ll_level = LevelInfo, ll_dir = None\<rparr>, []) = (\<lparr>ll_level = l, ll_dir = None\<rparr>, [])"
    using ld(1)
    by (auto simp: oL_def levelNode_def optionalField_eq getLevel_def Let_def getScalar_def scalarValue_def split: if_splits)
  have dir: "getDir Y H oD (\<lparr>ll_level = l, ll_dir = None\<rparr>, []) = (\<lparr>ll_level = l, ll_dir = d\<rparr>, [])"
    using ld(2)
    by (auto simp: oD_def dirNode_def optionalField_eq getDir_def Let_def getScalar_def scalarValue_def split: if_splits)
  have "fst (optionalField Y ''logging'' mc) = Some ?v" using True by (simp add: optionalField_eq)
  moreover have map: "getMapping Y ''Logging Config'' ?v = Inr (?mc {})"
    using getMapping_node [OF m(1)] by simp
  have "runLoggingConfigLoader Y H (Some ?v) (\<lparr>ll_level = LevelInfo, ll_dir = None\<rparr>, []) =
      (\<lparr>ll_level = l, ll_dir = d\<rparr>, chkExtraneous Y (?mc {''dir'', ''level''}) [])"
    by (simp only: runLoggingConfigLoader_def prod.case option.case map Let_def sum.case chk_simps opt lev dir)
  moreover have "chkExtraneous Y (?mc {''dir'', ''level''}) [] = []" using m(2) by (simp add: chkExtraneous_clean)
  ultimately show ?thesis using ld(3) by (simp add: loadLoggingConfig_def)
next
  case False
  then show ?thesis
    using assms by (simp add: loggingNode_def optionalField_eq loadLoggingConfig_def runLoggingConfigLoader_def
        buildLoggingConfig_def)
qed

lemma runPIMCConfigLoader_node:
  assumes n: "configNode Y H t (nc_node v) lc pc cfg" and ok: "loadableConfig cfg"
  shows "runPIMCConfigLoader Y H t v (\<lparr>cl_logging = None, cl_pimsm = None, cl_jp = None\<rparr>, []) =
    Some (Ok (\<lparr>cl_logging = Some lc, cl_pimsm = Some pc, cl_jp = Some cfg\<rparr>, []))"
proof -
  let ?n = "nc_node v"
  let ?mc = "\<lambda>known. \<lparr>nc_node = ?n, nc_ctx = nc_ctx v, mc_name = [], mc_known = known\<rparr>"
  have m: "yn_type Y ?n = Map" "cleanKeys Y {''multicast'', ''pim'', ''logging''} (map fst (yn_items Y ?n))"
    "loggingNode Y H (yn_field Y ?n ''logging'') lc"
    "yn_defined Y (yn_field Y ?n ''pim'')" "pimNode Y H t (yn_field Y ?n ''pim'') pc"
    "yn_defined Y (yn_field Y ?n ''multicast'')" "jpNode Y (yn_field Y ?n ''multicast'') cfg"
    using n by (simp_all add: configNode_def mapNode_def insert_commute)
  define oL where "oL = fst (optionalField Y ''logging'' (?mc {}))"
  have log: "loadLoggingConfig Y H oL = Ok lc"
    unfolding oL_def using m(3) by (intro loadLoggingConfig_node) simp
  have opt: "optionalField Y ''logging'' (?mc {}) = (oL, ?mc {''logging''})"
    by (simp add: optionalField_eq oL_def)
  have pim: "loadPIMSMConfig Y (h_generationId H) t (namedNodeContext (yn_field Y ?n ''pim'') ctx f) = Some (Ok pc)" for ctx f
    using m(5) by (intro loadPIMSMConfig_node) simp
  have jp: "loadJPConfig Y (namedNodeContext (yn_field Y ?n ''multicast'') ctx f) = Ok (Ok cfg)" for ctx f
    using m(7) ok by (intro loadJPConfig_node) simp_all
  show ?thesis
    using m(2)
    by (simp add: runPIMCConfigLoader_def getMapping_node [OF m(1)] opt log Let_def requiredField_eq m(4,6) loadPIM_def
        loadMulticast_def pim jp chkExtraneous_clean)
qed

text \<open>C5: Every document that represents a well-formed configuration loads without an error to exactly that
  configuration, with the updates of the packers, whatever the order of its sources; only where the inverse
  packer loses the prune of an RP, an exception ends the program instead.
\<close>

theorem represented_config_loads:
  assumes n: "configNode Y H t n lc pc cfg" and ok: "loadableConfig cfg"
    and groups: "\<forall>gc \<in> set (jp_groups cfg). \<not> emptyGroup gc"
  shows "\<exists>us vs. pack cfg = Some (Ok us) \<and> inversePack cfg = Some (Ok vs) \<and>
    (if withdrawsRps vs cfg
     then loadPIMCConfig Y H t (vc_root n) = Some (Ok (Ok \<lparr>loggingConfig = lc, pimsmConfig = pc, jpConfig = cfg,
       cfg_updates = us, inverseUpdates = vs\<rparr>))
     else \<exists>errs. loadPIMCConfig Y H t (vc_root n) = Some (Fail (InverseSanityFailed errs)))"
proof -
  let ?cl = "\<lparr>cl_logging = Some lc, cl_pimsm = Some pc, cl_jp = Some cfg\<rparr>"
  have "nc_node (vc_root n) = n" by (simp add: vc_root_def)
  then have load: "loadPIMCConfig Y H t (vc_root n) = map_option (result_map Inr) (buildPIMCConfig ?cl)"
    using runPIMCConfigLoader_node [of Y H t "vc_root n" lc pc cfg] n ok by (simp add: loadPIMCConfig_def)
  have fields: "cl_logging ?cl = Some lc" "cl_pimsm ?cl = Some pc" "cl_jp ?cl = Some cfg" by simp_all
  show ?thesis
  proof (rule buildPIMCConfig_loaded [OF fields ok])
    fix us vs assume run: "pack cfg = Some (Ok us)" "inversePack cfg = Some (Ok vs)" "\<not> withdrawsRps vs cfg"
      and "\<exists>es. buildPIMCConfig ?cl = Some (Fail (InverseSanityFailed es))"
    then obtain es where "buildPIMCConfig ?cl = Some (Fail (InverseSanityFailed es))" by blast
    with run load show ?thesis by simp
  next
    fix us vs assume "pack cfg = Some (Ok us)" "inversePack cfg = Some (Ok vs)" "withdrawsRps vs cfg"
      "buildPIMCConfig ?cl = Some (Ok \<lparr>loggingConfig = lc, pimsmConfig = pc, jpConfig = cfg,
       cfg_updates = us, inverseUpdates = vs\<rparr>)"
    with load show ?thesis by simp
  qed (use groups in blast)
qed

section \<open>A concrete document\<close>

datatype document = DUndefined | DScalar string | DSequence "document list" | DMap "(string \<times> document) list"

fun doc_type :: "document \<Rightarrow> NodeType" where
  "doc_type DUndefined = Undefined"
| "doc_type (DScalar s) = Scalar"
| "doc_type (DSequence ds) = Sequence"
| "doc_type (DMap kvs) = Map"

fun doc_scalar :: "document \<Rightarrow> string" where
  "doc_scalar (DScalar s) = s"
| "doc_scalar _ = []"

fun doc_items :: "document \<Rightarrow> (string \<times> document) list" where
  "doc_items (DMap kvs) = kvs"
| "doc_items _ = []"

fun doc_elems :: "document \<Rightarrow> document list" where
  "doc_elems (DSequence ds) = ds"
| "doc_elems _ = []"

definition docYAML :: "document YAML" where
  "docYAML = \<lparr>yn_type = doc_type, yn_line = (\<lambda>_. -1), yn_defined = (\<lambda>d. d \<noteq> DUndefined), yn_scalar = doc_scalar,
     yn_size = (\<lambda>d. length (doc_items d) + length (doc_elems d)),
     yn_field = (\<lambda>d f. case map_of (doc_items d) f of None \<Rightarrow> DUndefined | Some v \<Rightarrow> v),
     yn_at = (\<lambda>d i. doc_elems d ! i), yn_items = (\<lambda>d. map (\<lambda>(k, v). (DScalar k, v)) (doc_items d))\<rparr>"

definition sampleDocument :: document where
  "sampleDocument = DMap
     [(''pim'', DMap [(''neighbor'', DScalar ''10.0.0.1''), (''interface'', DScalar ''eth0'')]),
      (''multicast'', DMap [(''239.1.1.1'', DMap [(''Join'', DSequence [DScalar ''10.9.9.2'', DScalar ''10.9.9.1''])])])]"

definition sampleHost :: Host where
  "sampleHost = \<lparr>h_exists = (\<lambda>_. True), h_isDirectory = (\<lambda>_. True), h_logTime = [], h_generationId = 7\<rparr>"

definition sampleTable :: IntfTable where
  "sampleTable = \<lparr>indexMap = [(2, \<lparr>intf_name = ''eth0'', ifindex = 2, ipv4addr = Some (ofOctets 10 0 0 9)\<rparr>)],
     nameMap = [(''eth0'', 2)]\<rparr>"

definition samplePIMSM :: PIMSMConfig where
  "samplePIMSM = \<lparr>neighbor = ofOctets 10 0 0 1, intfIndex = 2, intfAddr = ofOctets 10 0 0 9, intfName = ''eth0'',
     helloPeriod = 30, helloHoldtime = 105, jpPeriod = 60, jpHoldtime = 210, drPriority = 0, generationId = 7\<rparr>"

definition sampleJP :: JPConfig where
  "sampleJP = \<lparr>jp_groups = [\<lparr>gc_group = ofOctets 239 1 1 1, gc_rpt = None,
     gc_spt = [ofOctets 10 9 9 1, ofOctets 10 9 9 2]\<rparr>]\<rparr>"

lemma parse_addr_string: "parseIPv4Address (addr_string a) = Some a"
  using Impl_complete [of a "addr_string a" "[]"] dotted_addr_string [of a] by (auto simp: parseIPv4Address_def)

lemma sample_addrs:
  "parseIPv4Address ''10.0.0.1'' = Some (ofOctets 10 0 0 1)" "parseIPv4Address ''239.1.1.1'' = Some (ofOctets 239 1 1 1)"
  "parseIPv4Address ''10.9.9.1'' = Some (ofOctets 10 9 9 1)" "parseIPv4Address ''10.9.9.2'' = Some (ofOctets 10 9 9 2)"
proof -
  have "addr_string (ofOctets 10 0 0 1) = ''10.0.0.1''" "addr_string (ofOctets 239 1 1 1) = ''239.1.1.1''"
    "addr_string (ofOctets 10 9 9 1) = ''10.9.9.1''" "addr_string (ofOctets 10 9 9 2) = ''10.9.9.2''"
    by code_simp+
  with parse_addr_string show
    "parseIPv4Address ''10.0.0.1'' = Some (ofOctets 10 0 0 1)" "parseIPv4Address ''239.1.1.1'' = Some (ofOctets 239 1 1 1)"
    "parseIPv4Address ''10.9.9.1'' = Some (ofOctets 10 9 9 1)" "parseIPv4Address ''10.9.9.2'' = Some (ofOctets 10 9 9 2)"
    by metis+
qed

lemma sample_kinds:
  "unicast (ofOctets 10 0 0 1)" "unicast (ofOctets 10 9 9 1)" "unicast (ofOctets 10 9 9 2)" "isMcast (ofOctets 239 1 1 1)"
  "ofOctets 10 9 9 1 < ofOctets 10 9 9 2"
  unfolding unicast_def by code_simp+

lemma sample_node: "configNode docYAML sampleHost sampleTable sampleDocument \<lparr>level = LevelInfo, logFileName = None\<rparr> samplePIMSM sampleJP"
proof -
  have "groupNode docYAML (DMap [(''Join'', DSequence [DScalar ''10.9.9.2'', DScalar ''10.9.9.1''])])
      \<lparr>gc_group = ofOctets 239 1 1 1, gc_rpt = None, gc_spt = [ofOctets 10 9 9 1, ofOctets 10 9 9 2]\<rparr>"
  proof -
    have "addrSeq docYAML (DSequence [DScalar ''10.9.9.2'', DScalar ''10.9.9.1'']) [ofOctets 10 9 9 2, ofOctets 10 9 9 1]"
      by (simp add: addrSeq_def docYAML_def addrNode_def sample_addrs less_Suc_eq all_conj_distrib)
    then have "addrsField docYAML (DMap [(''Join'', DSequence [DScalar ''10.9.9.2'', DScalar ''10.9.9.1''])]) ''Join''
        [ofOctets 10 9 9 1, ofOctets 10 9 9 2]"
      using sample_kinds(5) unfolding addrsField_def
      by (auto simp: docYAML_def intro!: exI [of _ "[ofOctets 10 9 9 2, ofOctets 10 9 9 1]"])
    then show ?thesis
      by (simp add: groupNode_def mapNode_def cleanKeys_def docYAML_def)
  qed
  then have "jpNode docYAML (DMap [(''239.1.1.1'', DMap [(''Join'', DSequence [DScalar ''10.9.9.2'', DScalar ''10.9.9.1''])])]) sampleJP"
    by (simp add: jpNode_def sampleJP_def addrNode_def sample_addrs docYAML_def)
  moreover have "pimNode docYAML sampleHost sampleTable (DMap [(''neighbor'', DScalar ''10.0.0.1''), (''interface'', DScalar ''eth0'')])
      samplePIMSM"
    by (simp add: pimNode_def mapNode_def cleanKeys_def docYAML_def addrNode_def sample_addrs sample_kinds samplePIMSM_def
        sampleHost_def sampleTable_def byName_def)
  ultimately show ?thesis
    by (simp add: configNode_def mapNode_def cleanKeys_def sampleDocument_def loggingNode_def) (simp add: docYAML_def)
qed

lemma sample_loadable: "loadableConfig sampleJP" "\<forall>gc \<in> set (jp_groups sampleJP). \<not> emptyGroup gc"
  using sample_kinds
  by (auto simp: loadableConfig_def loadableGroup_def sampleJP_def configAddrs_def prunes_bounded_def emptyGroup_def)

text \<open>Without an RP there is no prune of an RP to lose.\<close>

lemma withdrawsRps_no_rp:
  assumes "distinct (map gc_group (jp_groups cfg))" and "\<forall>gc \<in> set (jp_groups cfg). gc_rpt gc = None"
    and vs: "inversePack cfg = Some (Ok vs)"
  shows "withdrawsRps vs cfg"
proof -
  obtain ip fs where ip: "inversePack cfg = Some (Ok (inverseBuildUpdates ip))" "ipacker_inv fs ip"
    "\<forall>gc \<in> set (jp_groups cfg). withdraws (ownEntries (gc_group gc) fs) gc"
    using inversePack_ok [OF assms(1)] by blast
  have "concat (map upd_groups vs) = fs" using ip(1) vs inverseBuildUpdates_ok(1) [OF ip(2)] by simp
  with ip(3) assms(2) show ?thesis by (auto simp: withdrawsRps_def withdraws_def losesRp_def)
qed

lemma represented_config_loads_witness:
  "\<exists>us vs. pack sampleJP = Some (Ok us) \<and> inversePack sampleJP = Some (Ok vs) \<and>
    loadPIMCConfig docYAML sampleHost sampleTable (vc_root sampleDocument) =
      Some (Ok (Ok \<lparr>loggingConfig = \<lparr>level = LevelInfo, logFileName = None\<rparr>, pimsmConfig = samplePIMSM,
        jpConfig = sampleJP, cfg_updates = us, inverseUpdates = vs\<rparr>))"
proof -
  have "withdrawsRps vs sampleJP" if "inversePack sampleJP = Some (Ok vs)" for vs
    using that by (intro withdrawsRps_no_rp) (simp_all add: sampleJP_def)
  with represented_config_loads [OF sample_node sample_loadable] show ?thesis by (auto split: if_splits)
qed

end
