(* ===== verification/Programs.thy ===== *)
theory Programs
  imports Documents GetOptLong Formats
begin

text \<open>
  What the programs of the toolkit share: a call of a function of a program returns, ends the process with
  \<open>exit(0)\<close>, or throws, and the command line of a program.
\<close>

section \<open>Exceptions and exits\<close>

text \<open>
  An exception that a program catches carries its message; an error of the program, a \<open>std::logic_error\<close>, is
  caught nowhere.
\<close>

datatype logic_error =
  CliMisuse string
| TableMisuse string
| ConfigMisuse load_exception
| PacketMisuse packet_error

datatype 'a run =
  Finished 'a
| Exits string  \<comment> \<open>\<open>exit(0)\<close> with a text on the standard output\<close>
| ThrowsCommandLine string
| ThrowsRuntime string
| ThrowsLogic logic_error

definition run_bind :: "'a run \<Rightarrow> ('a \<Rightarrow> 'b run) \<Rightarrow> 'b run" where
  "run_bind r f =
     (case r of
        Finished a \<Rightarrow> f a
      | Exits t \<Rightarrow> Exits t
      | ThrowsCommandLine m \<Rightarrow> ThrowsCommandLine m
      | ThrowsRuntime m \<Rightarrow> ThrowsRuntime m
      | ThrowsLogic e \<Rightarrow> ThrowsLogic e)"

lemma run_bind_simps [simp]:
  "run_bind (Finished a) f = f a" "run_bind (Exits t) f = Exits t"
  "run_bind (ThrowsCommandLine m) f = ThrowsCommandLine m" "run_bind (ThrowsRuntime m) f = ThrowsRuntime m"
  "run_bind (ThrowsLogic e) f = ThrowsLogic e"
  by (simp_all add: run_bind_def)

lemma run_bind_Finished: "run_bind r f = Finished b \<longleftrightarrow> (\<exists>a. r = Finished a \<and> f a = Finished b)"
  by (cases r) simp_all

definition throw_cli :: "cli_exception \<Rightarrow> 'a run" where
  "throw_cli e = (case e of GetOptLongError m \<Rightarrow> ThrowsLogic (CliMisuse m) | CommandLineError m \<Rightarrow> ThrowsCommandLine m)"

definition run_cli :: "(cli_exception, 'a) outcome \<Rightarrow> 'a run" where
  "run_cli r = (case r of Inl e \<Rightarrow> throw_cli e | Inr a \<Rightarrow> Finished a)"

lemma run_cli_simps [simp]: "run_cli (Inr a) = Finished a" "run_cli (Inl (CommandLineError m)) = ThrowsCommandLine m"
  by (simp_all add: run_cli_def throw_cli_def)

lemma run_cli_Finished [simp]: "run_cli r = Finished a \<longleftrightarrow> r = Inr a"
  by (auto simp: run_cli_def throw_cli_def split: sum.splits cli_exception.splits)

section \<open>The command line of a program\<close>

text \<open>
  A parser with the help header and the options of the program is built and applied to the arguments; an
  option for the help ends the process.
\<close>

definition programArgs :: "string \<Rightarrow> Declaration list \<Rightarrow> getopt \<Rightarrow> string list \<Rightarrow> GetOptLongResult run option" where
  "programArgs header options getopt_long argv =
     (case buildParser [] header options of
        Inl e \<Rightarrow> Some (throw_cli e)
      | Inr g \<Rightarrow>
          (case args getopt_long argv g of
             None \<Rightarrow> None
           | Some (Inl (Threw e)) \<Rightarrow> Some (throw_cli e)
           | Some (Inl (HelpShown t)) \<Rightarrow> Some (Exits t)
           | Some (Inr r) \<Rightarrow> Some (Finished r)))"

text \<open>The flags and the values of the options that were given, and the positional arguments.\<close>

definition options_given :: "Declaration list \<Rightarrow> getopt_call list \<Rightarrow> GetOptLongResult \<Rightarrow> bool" where
  "options_given ds cs r \<longleftrightarrow>
     (\<forall>k < length ds. if oi_flag (option_of (ds ! k)) then flagOf (decl_id (ds ! k)) r = Ok (uses ds k cs \<noteq> [])
        else valuesOf (decl_id (ds ! k)) r = Ok (map (the \<circ> gc_optarg) (uses ds k cs)))"

lemma programArgs_acceptable:
  assumes "buildParser [] header ds = Ok g"
    and "getopt_long argv (gol_shortOpts (fini g)) (gol_longOpts (fini g)) = cs @ [e]" and "gc_ret e = -1"
    and "\<forall>c \<in> set cs. \<exists>k < length ds. names (ds ! k) k c" and "acceptable ds cs"
  shows "\<exists>r. programArgs header ds getopt_long argv = Some (Finished r) \<and>
    positional r = drop (gc_optind e) (gc_argv e) \<and> options_given ds cs r"
  using command_line_ok [OF assms(1), where getopt_long = getopt_long and argv = argv, OF assms(2-4)] assms(1,5)
  by (auto simp: programArgs_def options_given_def)

end
