(* ===== verification/Client.thy ===== *)
theory Client
  imports Programs
begin

text \<open>
  The client program: \<open>apps/pimc/Main.cpp\<close>, \<open>apps/pimc/config/Config.cpp\<close>, \<open>lib/pimc/yaml/LoadAll.cpp\<close> and
  \<open>lib/pimc/yaml/ErrorHandler.hpp\<close>.  What the program gets from outside is the record \<open>World\<close>: the C library,
  the file system, the parser of yaml-cpp, the interfaces of the host, its clock and its sockets.
\<close>

section \<open>The world\<close>

text \<open>
  \<open>w_fopen\<close> tells the error of \<open>fopen\<close>, or the bytes of the file with the error of reading them, and
  \<open>w_parse\<close> the documents of a text, or the line and the message of a \<open>ParserException\<close>.
\<close>

record 'n World =
  w_le :: bool
  w_getopt :: getopt
  w_host :: Host
  w_isRegular :: "string \<Rightarrow> bool"
  w_fopen :: "string \<Rightarrow> (string, string \<times> string option) outcome"
  w_parse :: "string \<Rightarrow> (int \<times> string, 'n list) outcome"
  w_yaml :: "'n YAML"
  w_ifaddrs :: "(string, ifaddrs list) outcome"
  w_nametoindex :: "string \<Rightarrow> u32"
  w_logError :: "string \<Rightarrow> string option"
  w_version :: string
  w_base :: "nat \<Rightarrow> u64"
  w_socket :: "PIMCConfig \<Rightarrow> (string, unit) outcome"
  w_accepts :: "nat \<Rightarrow> bool"
  w_start :: u64
  w_rounds :: "u64 list"
  w_leave :: "u64 \<times> u64"

section \<open>Loading a file\<close>

definition loadAll :: "'n World \<Rightarrow> string \<Rightarrow> (string, 'n list) outcome" where
  "loadAll W yml =
     (if \<not> h_exists (w_host W) yml then Fail (''file '' @ quoted yml @ '' does not exist'')
      else if h_isDirectory (w_host W) yml then Fail (quoted yml @ '' is a directory'')
      else if \<not> w_isRegular W yml then Fail (quoted yml @ '' is not a regular file'')
      else (case w_fopen W yml of
          Inl e \<Rightarrow> Fail (''unable to open file '' @ quoted yml @ '': '' @ e)
        | Inr (_, Some e) \<Rightarrow> Fail (''I/O error while reading file '' @ quoted yml @ '': '' @ e)
        | Inr (bytes, None) \<Rightarrow>
            (case w_parse W (takeWhile (\<lambda>c. c \<noteq> CHR 0x00) bytes) of
               Inl (l, msg) \<Rightarrow> Fail (yml @ '', '' @ int_text (l + 1) @ '': '' @ msg)
             | Inr docs \<Rightarrow> Ok docs)))"

text \<open>An error on the standard error output; the context is shown if the line is not known.\<close>

definition showError :: "string \<Rightarrow> ErrorContext \<Rightarrow> string" where
  "showError yamlfn e =
     takeWhile (\<lambda>c. c \<noteq> CHR 0x00)
       (line (''error: '' @ (if ec_line e \<noteq> -1 then yamlfn @ '', '' @ int_text (ec_line e) @ '': '' else []) @
         (if ec_line e = -1 then ec_context e else []) @ ec_message e))"

section \<open>The configuration of the client\<close>

definition ShowConfig :: u32 where "ShowConfig = 1"

definition ShowVersion :: u32 where "ShowVersion = 2"

definition clientOptions :: "Declaration list" where
  "clientOptions =
     [DFlag ShowConfig NoShort ''show-config'' ''Show config and exit'',
      DFlag ShowVersion CHR ''v'' ''version'' ''show version and exit'']"

definition clientHeader :: string where
  "clientHeader = ''[Options] pimc-config.yml''"

definition clientArgs :: "'n World \<Rightarrow> string list \<Rightarrow> GetOptLongResult run option" where
  "clientArgs W argv = programArgs clientHeader clientOptions (w_getopt W) argv"

text \<open>What \<open>--show-config\<close> prints; the number \<open>n\<close> of an update is never increased.\<close>

definition showConfigText :: "PIMCConfig \<Rightarrow> string" where
  "showConfigText c =
     takeWhile (\<lambda>c. c \<noteq> CHR 0x00)
       (line (loggingConfigText (loggingConfig c)) @ line (pimsmConfigText (pimsmConfig c)) @
        line (jpConfigText (jpConfig c)) @
        line (line (''Will be sending '' @ dec_string (length (cfg_updates c)) @ '' update'' @
          plural (length (cfg_updates c)) @ '':'')) @
        concat (map (\<lambda>u. line (numberedUpdateText 1 u)) (cfg_updates c)) @
        line (line (''Will send '' @ dec_string (length (inverseUpdates c)) @ '' inverse update'' @
          plural (length (inverseUpdates c)) @ '' upon exit:'')) @
        concat (map (\<lambda>u. line (numberedUpdateText 1 u)) (inverseUpdates c)))"

text \<open>
  The end of \<open>loadIPv4Config\<close>, from the document on, and the whole function, with what it wrote to the
  standard error output.
\<close>

definition loadDocument :: "'n World \<Rightarrow> bool \<Rightarrow> string \<Rightarrow> 'n \<Rightarrow> (string \<times> PIMCConfig run) option" where
  "loadDocument W show yamlfn doc =
     (case newTable (w_le W) (w_nametoindex W) (w_ifaddrs W) of
        Inl e \<Rightarrow> Some ([], ThrowsLogic (TableMisuse e))
      | Inr (Inl e) \<Rightarrow> Some ([], ThrowsRuntime (''unable to get host interfaces: '' @ e))
      | Inr (Inr t) \<Rightarrow>
          (case loadPIMCConfig (w_yaml W) (w_host W) t (vc_root doc) of
             None \<Rightarrow> None
           | Some (Inl e) \<Rightarrow> Some ([], ThrowsLogic (ConfigMisuse e))
           | Some (Inr (Inl es)) \<Rightarrow>
               Some (concat (map (showError yamlfn) es),
                 ThrowsRuntime (''invalid YAML configuration file '' @ quoted yamlfn))
           | Some (Inr (Inr c)) \<Rightarrow> Some ([], if show then Exits (showConfigText c) else Finished c)))"

definition loadIPv4Config :: "'n World \<Rightarrow> string list \<Rightarrow> (string \<times> PIMCConfig run) option" where
  "loadIPv4Config W argv =
     (case clientArgs W argv of
        None \<Rightarrow> None
      | Some (Finished r) \<Rightarrow>
          (case (flagOf ShowVersion r, flagOf ShowConfig r) of
             (Inl e, _) \<Rightarrow> Some ([], throw_cli e)
           | (Inr True, _) \<Rightarrow> Some ([], Exits (''pimc'' @ nl @ w_version W))
           | (Inr False, showConfig) \<Rightarrow>
               (case positional r of
                  [] \<Rightarrow> Some ([], ThrowsCommandLine ''no pimc YAML config file specified'')
                | [yamlfn] \<Rightarrow>
                    (case loadAll W yamlfn of
                       Inl e \<Rightarrow> Some ([], ThrowsRuntime e)
                     | Inr [doc] \<Rightarrow>
                         (case showConfig of
                            Inl e \<Rightarrow> Some ([], throw_cli e)
                          | Inr show \<Rightarrow> loadDocument W show yamlfn doc)
                     | Inr docs \<Rightarrow>
                         Some ([], ThrowsRuntime (''pimc YAML configuration must contain exactly 1 document, not '' @
                           dec_string (length docs))))
                | _ \<Rightarrow> Some ([], ThrowsCommandLine ''too many positional parameters'')))
      | Some (Exits t) \<Rightarrow> Some ([], Exits t)
      | Some (ThrowsCommandLine m) \<Rightarrow> Some ([], ThrowsCommandLine m)
      | Some (ThrowsRuntime m) \<Rightarrow> Some ([], ThrowsRuntime m)
      | Some (ThrowsLogic e) \<Rightarrow> Some ([], ThrowsLogic e))"

section \<open>The program\<close>

text \<open>How the process ends, with its outputs and the packets sent.\<close>

datatype process_end =
  ExitCode nat (p_stdout: string) (p_stderr: string) (p_sent: "(u64 \<times> u8 list) list")
| Terminated logic_error

definition runClient :: "'n World \<Rightarrow> PIMCConfig \<Rightarrow> string \<Rightarrow> process_end option" where
  "runClient W c err =
     (case newLogger (h_exists (w_host W)) (h_isDirectory (w_host W)) (w_logError W) (loggingConfig c) of
        Inl e \<Rightarrow> Some (ExitCode 1 [] (err @ line (''error: '' @ e)) [])
      | Inr _ \<Rightarrow>
          (case ipv4exec (w_le W) (w_base W) c (w_socket W c) (w_accepts W) (w_start W) (w_rounds W)
              (fst (w_leave W)) (snd (w_leave W)) of
             None \<Rightarrow> None
           | Some (Inl e) \<Rightarrow> Some (Terminated (PacketMisuse e))
           | Some (Inr (res, sent)) \<Rightarrow> Some (ExitCode (if res then 0 else 1) [] err sent)))"

definition main :: "'n World \<Rightarrow> string list \<Rightarrow> process_end option" where
  "main W argv =
     (case loadIPv4Config W argv of
        None \<Rightarrow> None
      | Some (err, Finished c) \<Rightarrow> runClient W c err
      | Some (err, Exits out) \<Rightarrow> Some (ExitCode 0 out err [])
      | Some (err, ThrowsCommandLine m) \<Rightarrow> Some (ExitCode 2 [] (err @ line (''error: '' @ m)) [])
      | Some (err, ThrowsRuntime m) \<Rightarrow> Some (ExitCode 1 [] (err @ line (''error: '' @ m)) [])
      | Some (err, ThrowsLogic e) \<Rightarrow> Some (Terminated e))"

section \<open>Runs of the program\<close>

text \<open>
  A run with the table \<open>t\<close> of interfaces whose command line names one file, without an option, that has
  the one document \<open>doc\<close>.
\<close>

definition invoked :: "'n World \<Rightarrow> string list \<Rightarrow> string \<Rightarrow> 'n \<Rightarrow> IntfTable \<Rightarrow> bool" where
  "invoked W argv fn doc t \<longleftrightarrow>
     (\<exists>r. clientArgs W argv = Some (Finished r) \<and> flagOf ShowVersion r = Ok False \<and>
        flagOf ShowConfig r = Ok False \<and> positional r = [fn]) \<and>
     loadAll W fn = Ok [doc] \<and> newTable (w_le W) (w_nametoindex W) (w_ifaddrs W) = Ok (Ok t)"

definition invalidConfig :: "string \<Rightarrow> ErrorContext list \<Rightarrow> string" where
  "invalidConfig fn es =
     concat (map (showError fn) es) @ line (''error: invalid YAML configuration file '' @ quoted fn)"

lemma main_invoked:
  assumes "invoked W argv fn doc t"
  shows "main W argv =
    (case loadPIMCConfig (w_yaml W) (w_host W) t (vc_root doc) of
       None \<Rightarrow> None
     | Some (Inl e) \<Rightarrow> Some (Terminated (ConfigMisuse e))
     | Some (Inr (Inl es)) \<Rightarrow> Some (ExitCode 1 [] (invalidConfig fn es) [])
     | Some (Inr (Inr c)) \<Rightarrow> runClient W c [])"
proof -
  from assms obtain r where r: "clientArgs W argv = Some (Finished r)" "flagOf ShowVersion r = Ok False"
      "flagOf ShowConfig r = Ok False" "positional r = [fn]"
    and doc: "loadAll W fn = Ok [doc]" "newTable (w_le W) (w_nametoindex W) (w_ifaddrs W) = Ok (Ok t)"
    by (auto simp: invoked_def)
  then have "loadIPv4Config W argv = loadDocument W False fn doc" by (simp add: loadIPv4Config_def)
  with doc(2) show ?thesis
    by (auto simp: main_def loadDocument_def invalidConfig_def line_def split: option.split sum.split)
qed

text \<open>The updates of a configuration that was built fit into packets.\<close>

lemma packed_fits:
  assumes "distinct (map gc_group (jp_groups cfg))" and "\<forall>gc \<in> set (jp_groups cfg). prunes_bounded gc"
    and "pack cfg = Some (Ok us)" and "inversePack cfg = Some (Ok vs)"
  shows "\<forall>u \<in> set us \<union> set vs. fits_update u"
    and "\<forall>gc \<in> set (jp_groups cfg). carries (entriesFor (gc_group gc) (concat (map upd_groups us))) gc \<and>
      withdraws (ownEntries (gc_group gc) (concat (map upd_groups vs))) gc"
proof -
  obtain up es where up: "us = buildUpdates up" "packer_inv es up"
    "\<forall>gc \<in> set (jp_groups cfg). carries (entriesFor (gc_group gc) es) gc"
    using pack_ok [OF assms(1,2)] assms(3) by auto
  obtain ip fs where ip: "vs = inverseBuildUpdates ip" "ipacker_inv fs ip"
    "\<forall>gc \<in> set (jp_groups cfg). withdraws (ownEntries (gc_group gc) fs) gc"
    using inversePack_ok [OF assms(1)] assms(4) by auto
  show "\<forall>u \<in> set us \<union> set vs. fits_update u"
    using buildUpdates_ok(2) [OF up(2)] inverseBuildUpdates_ok(2) [OF ip(2)] up(1) ip(1)
    by (auto intro!: fits_update_if_fits)
  show "\<forall>gc \<in> set (jp_groups cfg). carries (entriesFor (gc_group gc) (concat (map upd_groups us))) gc \<and>
      withdraws (ownEntries (gc_group gc) (concat (map upd_groups vs))) gc"
    using up ip buildUpdates_ok(1) [OF up(2)] inverseBuildUpdates_ok(1) [OF ip(2)] by simp
qed

lemma runClient_cases:
  assumes "\<forall>u \<in> set (cfg_updates c) \<union> set (inverseUpdates c). fits_update u"
  obtains e where "newLogger (h_exists (w_host W)) (h_isDirectory (w_host W)) (w_logError W) (loggingConfig c) = Fail e"
    "runClient W c err = Some (ExitCode 1 [] (err @ line (''error: '' @ e)) [])"
  | lg e where "newLogger (h_exists (w_host W)) (h_isDirectory (w_host W)) (w_logError W) (loggingConfig c) = Ok lg"
    "w_socket W c = Fail e" "runClient W c err = Some (ExitCode 1 [] err [])"
  | lg hello updates invPkts goodbye P k where
    "newLogger (h_exists (w_host W)) (h_isDirectory (w_host W)) (w_logError W) (loggingConfig c) = Ok lg"
    "w_socket W c = Ok ()" "run_packets c hello updates invPkts goodbye"
    "P = loop_plan (pimsmConfig c) (w_start W) (w_rounds W) hello updates @
       map (Pair (fst (w_leave W))) invPkts @ [(snd (w_leave W), goodbye)]"
    "k = length (takeWhile (w_accepts W) [0..<length P])"
    "runClient W c err = Some (ExitCode (if k = length P then 0 else 1) [] err (take k P))"
proof -
  let ?log = "newLogger (h_exists (w_host W)) (h_isDirectory (w_host W)) (w_logError W) (loggingConfig c)"
  show thesis
  proof (cases ?log)
    case (Inl e)
    then show thesis by (intro that(1)) (simp_all add: runClient_def)
  next
    case log: (Inr lg)
    show thesis
    proof (cases "w_socket W c")
      case (Inl e)
      then show thesis
        using log by (intro that(2)) (simp_all add: runClient_def ipv4exec_def hasError_def)
    next
      case sock: (Inr u)
      obtain hello updates invPkts goodbye where run: "run_packets c hello updates invPkts goodbye"
        and exec: "\<And>accepts t0 ts t1 t2.
          let P = loop_plan (pimsmConfig c) t0 ts hello updates @ map (Pair t1) invPkts @ [(t2, goodbye)];
              k = accepted accepts 0 (length P)
          in ipv4exec (w_le W) (w_base W) c (Ok ()) accepts t0 ts t1 t2 = Some (Ok (k = length P, take k P))"
        using exec_ok [OF assms, of "w_le W" "w_base W"] by blast
      define P where "P = loop_plan (pimsmConfig c) (w_start W) (w_rounds W) hello updates @
        map (Pair (fst (w_leave W))) invPkts @ [(snd (w_leave W), goodbye)]"
      define k where "k = length (takeWhile (w_accepts W) [0..<length P])"
      have "ipv4exec (w_le W) (w_base W) c (Ok ()) (w_accepts W) (w_start W) (w_rounds W) (fst (w_leave W)) (snd (w_leave W)) =
          Some (Ok (k = length P, take k P))"
        using exec [of "w_start W" "w_rounds W" "fst (w_leave W)" "snd (w_leave W)" "w_accepts W"]
        by (simp only: Let_def accepted_def P_def k_def add_0)
      then have "runClient W c err = Some (ExitCode (if k = length P then 0 else 1) [] err (take k P))"
        using log sock by (simp add: runClient_def)
      from that(3) [OF log _ run P_def k_def this] sock show thesis by simp
    qed
  qed
qed

text \<open>C2: A run whose command line is parsed and names one configuration file, neither the version nor the configuration
  being asked for, whose file is read to one document, and whose interfaces can be listed, ends.  The errors of the loaders are shown and the exit code is 1,
  with nothing sent.  Without errors the configuration is well formed, and the program is terminated by an
  exception that it does not catch exactly if a group of the document is empty or the inverse packer loses
  the prune of an RP; otherwise it runs, and ends with the exit code 0 or 1.
\<close>

theorem client_outcomes:
  assumes "invoked W argv fn doc t"
  shows "\<exists>cl es. runPIMCConfigLoader (w_yaml W) (w_host W) t (vc_root doc)
      (\<lparr>cl_logging = None, cl_pimsm = None, cl_jp = None\<rparr>, []) = Some (Ok (cl, es)) \<and>
    (if es \<noteq> [] then main W argv = Some (ExitCode 1 [] (invalidConfig fn es) [])
     else \<exists>cfg vs. cl_jp cl = Some cfg \<and> loadableConfig cfg \<and>
       ((\<exists>gc \<in> set (jp_groups cfg). emptyGroup gc) \<or> inversePack cfg = Some (Ok vs)) \<and>
       (if (\<exists>gc \<in> set (jp_groups cfg). emptyGroup gc) \<or> \<not> withdrawsRps vs cfg
        then \<exists>e. main W argv = Some (Terminated e)
        else \<exists>code err sent. code \<le> 1 \<and> main W argv = Some (ExitCode code [] err sent)))"
proof -
  let ?run = "runPIMCConfigLoader (w_yaml W) (w_host W) t (vc_root doc)
      (\<lparr>cl_logging = None, cl_pimsm = None, cl_jp = None\<rparr>, [])"
  let ?load = "loadPIMCConfig (w_yaml W) (w_host W) t (vc_root doc)"
  note run = main_invoked [OF assms]
  obtain cl es where cl: "?run = Some (Ok (cl, es))" and
    cases: "if es \<noteq> [] then ?load = Some (Ok (Fail es))
     else \<exists>lc pc cfg us. cl = \<lparr>cl_logging = Some lc, cl_pimsm = Some pc, cl_jp = Some cfg\<rparr> \<and>
       pimsm_ok t pc \<and> loadableConfig cfg \<and> pack cfg = Some (Ok us) \<and>
       (if \<exists>gc \<in> set (jp_groups cfg). emptyGroup gc
        then \<exists>errs. ?load = Some (Fail (SanityFailed errs))
        else \<exists>vs. inversePack cfg = Some (Ok vs) \<and>
          (if withdrawsRps vs cfg
           then ?load = Some (Ok (Ok \<lparr>loggingConfig = lc, pimsmConfig = pc, jpConfig = cfg,
                  cfg_updates = us, inverseUpdates = vs\<rparr>))
           else \<exists>errs. ?load = Some (Fail (InverseSanityFailed errs))))"
    using load_config_cases [of "w_yaml W" "w_host W" t "vc_root doc"] by blast
  show ?thesis
  proof (cases "es = []")
    case False
    with cases have "?load = Some (Ok (Fail es))" by simp
    with cl False show ?thesis by (intro exI [of _ cl] exI [of _ es]) (simp add: run)
  next
    case True
    with cases obtain lc pc cfg us where fields: "cl = \<lparr>cl_logging = Some lc, cl_pimsm = Some pc, cl_jp = Some cfg\<rparr>"
      "loadableConfig cfg" "pack cfg = Some (Ok us)"
      and rest: "if \<exists>gc \<in> set (jp_groups cfg). emptyGroup gc
        then \<exists>errs. ?load = Some (Fail (SanityFailed errs))
        else \<exists>vs. inversePack cfg = Some (Ok vs) \<and>
          (if withdrawsRps vs cfg
           then ?load = Some (Ok (Ok \<lparr>loggingConfig = lc, pimsmConfig = pc, jpConfig = cfg,
                  cfg_updates = us, inverseUpdates = vs\<rparr>))
           else \<exists>errs. ?load = Some (Fail (InverseSanityFailed errs)))" by auto
    have "cl_jp cl = Some cfg" using fields(1) by simp
    note intro = exI [of _ cl] exI [of _ es] conjI [OF cl]
    show ?thesis
    proof (cases "\<exists>gc \<in> set (jp_groups cfg). emptyGroup gc")
      case empty: True
      then have "\<exists>e. main W argv = Some (Terminated e)" using rest by (auto simp: run)
      then show ?thesis using empty True fields(2) \<open>cl_jp cl = Some cfg\<close> by (intro intro) auto
    next
      case nonempty: False
      with rest obtain vs where vs: "inversePack cfg = Some (Ok vs)"
        "if withdrawsRps vs cfg
         then ?load = Some (Ok (Ok \<lparr>loggingConfig = lc, pimsmConfig = pc, jpConfig = cfg,
                  cfg_updates = us, inverseUpdates = vs\<rparr>))
         else \<exists>errs. ?load = Some (Fail (InverseSanityFailed errs))" by auto
      have "if \<not> withdrawsRps vs cfg then \<exists>e. main W argv = Some (Terminated e)
        else \<exists>code err sent. code \<le> 1 \<and> main W argv = Some (ExitCode code [] err sent)"
      proof (cases "withdrawsRps vs cfg")
        case False
        then show ?thesis using vs(2) by (auto simp: run)
      next
        case keeps: True
        let ?c = "\<lparr>loggingConfig = lc, pimsmConfig = pc, jpConfig = cfg, cfg_updates = us, inverseUpdates = vs\<rparr>"
        have "\<forall>u \<in> set (cfg_updates ?c) \<union> set (inverseUpdates ?c). fits_update u"
          using packed_fits(1) [OF loadable_distinct loadable_bounded fields(3) vs(1)] fields(2) by simp
        then have "\<exists>code err sent. code \<le> 1 \<and> runClient W ?c [] = Some (ExitCode code [] err sent)"
          by (rule runClient_cases [of ?c W "[]"]) auto
        with keeps vs(2) show ?thesis by (simp add: run)
      qed
      then show ?thesis using nonempty True fields(2) vs(1) \<open>cl_jp cl = Some cfg\<close>
        by (intro intro) auto
    qed
  qed
qed

text \<open>
  What a run sends for the groups of a configuration: the updates and the inverse updates decode to entries
  that carry, and withdraw, every group.
\<close>

definition announces :: "PIMSMConfig \<Rightarrow> JPConfig \<Rightarrow> u8 list list \<Rightarrow> u8 list list \<Rightarrow> bool" where
  "announces pc cfg updates invPkts \<longleftrightarrow>
     (\<exists>ess fss. map (\<lambda>p. dec_update (drop 20 p)) updates = map (\<lambda>es. Some (neighbor pc, jpHoldtime pc, es)) ess \<and>
        map (\<lambda>p. dec_update (drop 20 p)) invPkts = map (\<lambda>es. Some (neighbor pc, jpHoldtime pc, es)) fss \<and>
        (\<forall>gc \<in> set (jp_groups cfg). carries (entriesFor (gc_group gc) (concat ess)) gc \<and>
           withdraws (ownEntries (gc_group gc) (concat fss)) gc \<and>
           withdrawsRp (ownEntries (gc_group gc) (concat fss)) gc))"

lemma decoded_updates:
  "list_all2 (carries_update pc) us ps \<Longrightarrow>
    map (\<lambda>p. dec_update (drop 20 p)) ps = map (\<lambda>es. Some (neighbor pc, jpHoldtime pc, es)) (map upd_groups us)"
  by (induction rule: list_all2_induct) (simp_all add: carries_update_def)

lemma run_announces:
  assumes "loadableConfig cfg" and "pack cfg = Some (Ok us)" and "inversePack cfg = Some (Ok vs)" and "withdrawsRps vs cfg"
    and "run_packets \<lparr>loggingConfig = lc, pimsmConfig = pc, jpConfig = cfg, cfg_updates = us, inverseUpdates = vs\<rparr>
      hello updates invPkts goodbye"
  shows "announces pc cfg updates invPkts"
proof -
  have "map (\<lambda>p. dec_update (drop 20 p)) updates = map (\<lambda>es. Some (neighbor pc, jpHoldtime pc, es)) (map upd_groups us)"
    "map (\<lambda>p. dec_update (drop 20 p)) invPkts = map (\<lambda>es. Some (neighbor pc, jpHoldtime pc, es)) (map upd_groups vs)"
    using assms(5) by (intro decoded_updates; simp add: run_packets_def)+
  then show ?thesis
    using packed_fits(2) [OF loadable_distinct loadable_bounded assms(2,3)] assms(1,4) unfolding announces_def
    by (intro exI [of _ "map upd_groups us"] exI [of _ "map upd_groups vs"]) (simp add: withdrawsRps_def)
qed

text \<open>C1: From the document to the wire.  A run that is given one configuration file, whose single document represents a well-formed configuration without an
  empty group, from which the inverse packer loses no RP, sends, when its log and its interface can be
  opened, exactly its plan up to the first packet that the socket refuses: in every round the Hello and the
  updates when they are due, and at the end the inverse updates and the goodbye.  Its updates carry every
  group of the document, its inverse updates withdraw every group, and the exit code is 0 exactly if nothing
  was refused.
\<close>

theorem client_sends:
  assumes run: "invoked W argv fn doc t"
    and doc: "configNode (w_yaml W) (w_host W) t doc lc pc cfg"
    and ok: "loadableConfig cfg" "\<forall>gc \<in> set (jp_groups cfg). \<not> emptyGroup gc"
    and keeps: "\<forall>vs. inversePack cfg = Some (Ok vs) \<longrightarrow> withdrawsRps vs cfg"
    and log: "newLogger (h_exists (w_host W)) (h_isDirectory (w_host W)) (w_logError W) lc = Ok lg"
    and sock: "\<forall>c. pimsmConfig c = pc \<longrightarrow> w_socket W c = Ok ()"
  shows "\<exists>hello updates invPkts goodbye P k. carries_hello pc (helloHoldtime pc) hello \<and> carries_hello pc 0 goodbye \<and>
    announces pc cfg updates invPkts \<and>
    P = loop_plan pc (w_start W) (w_rounds W) hello updates @
      map (Pair (fst (w_leave W))) invPkts @ [(snd (w_leave W), goodbye)] \<and>
    k = length (takeWhile (w_accepts W) [0..<length P]) \<and>
    main W argv = Some (ExitCode (if k = length P then 0 else 1) [] [] (take k P))"
proof -
  let ?cl = "\<lparr>cl_logging = Some lc, cl_pimsm = Some pc, cl_jp = Some cfg\<rparr>"
  obtain us where us: "pack cfg = Some (Ok us)" using loadable_pack [OF ok(1)] by blast
  obtain vs where vs: "inversePack cfg = Some (Ok vs)" using loadable_inverse [OF ok] by blast
  let ?c = "\<lparr>loggingConfig = lc, pimsmConfig = pc, jpConfig = cfg, cfg_updates = us, inverseUpdates = vs\<rparr>"
  have rps: "withdrawsRps vs cfg" using keeps vs by blast
  have "nc_node (vc_root doc) = doc" by (simp add: vc_root_def)
  then have "loadPIMCConfig (w_yaml W) (w_host W) t (vc_root doc) = map_option (result_map Inr) (buildPIMCConfig ?cl)"
    using runPIMCConfigLoader_node [of "w_yaml W" "w_host W" t "vc_root doc" lc pc cfg] doc ok(1)
    by (simp add: loadPIMCConfig_def)
  moreover have "buildPIMCConfig ?cl = Some (Ok ?c)"
    by (rule buildPIMCConfig_loaded [of ?cl lc pc cfg]) (use ok us vs rps in auto)
  ultimately have main: "main W argv = runClient W ?c []" using main_invoked [OF run] by simp
  have "\<forall>u \<in> set (cfg_updates ?c) \<union> set (inverseUpdates ?c). fits_update u"
    using packed_fits(1) [OF loadable_distinct loadable_bounded us vs] ok(1) by simp
  then show ?thesis
  proof (rule runClient_cases [of ?c W "[]"])
    fix lg' hello updates invPkts goodbye P k
    assume packets: "run_packets ?c hello updates invPkts goodbye"
      and P: "P = loop_plan (pimsmConfig ?c) (w_start W) (w_rounds W) hello updates @
        map (Pair (fst (w_leave W))) invPkts @ [(snd (w_leave W), goodbye)]"
      and k: "k = length (takeWhile (w_accepts W) [0..<length P])"
      and sent: "runClient W ?c [] = Some (ExitCode (if k = length P then 0 else 1) [] [] (take k P))"
    have "carries_hello pc (helloHoldtime pc) hello" "carries_hello pc 0 goodbye"
      using packets by (simp_all add: run_packets_def)
    moreover have "announces pc cfg updates invPkts" by (rule run_announces [OF ok(1) us vs rps packets])
    ultimately show ?thesis using P k sent main
      by (intro exI [of _ hello] exI [of _ updates] exI [of _ invPkts] exI [of _ goodbye] exI [of _ P] exI [of _ k]) simp
  qed (use log sock in simp_all)
qed

section \<open>A concrete run\<close>

definition sampleWorld :: "document World" where
  "sampleWorld =
     \<lparr>w_le = False,
      w_getopt = (\<lambda>argv _ _. [\<lparr>gc_ret = -1, gc_optarg = None, gc_optopt = 0, gc_optind = 1, gc_argv = argv\<rparr>]),
      w_host = \<lparr>h_exists = (\<lambda>_. True), h_isDirectory = (\<lambda>_. False), h_logTime = [], h_generationId = 7\<rparr>,
      w_isRegular = (\<lambda>_. True), w_fopen = (\<lambda>_. Ok ([], None)), w_parse = (\<lambda>_. Ok [sampleDocument]),
      w_yaml = docYAML,
      w_ifaddrs = Ok [\<lparr>ifa_name = ''eth0'', ifa_addr = Some (SockIn 167772169)\<rparr>],
      w_nametoindex = (\<lambda>_. 2), w_logError = (\<lambda>_. None), w_version = ''1'', w_base = (\<lambda>_. 0),
      w_socket = (\<lambda>_. Ok ()), w_accepts = (\<lambda>_. True), w_start = 5, w_rounds = [7, 30000000009],
      w_leave = (30000000010, 30000000011)\<rparr>"

lemma client_parser: "\<exists>g. buildParser [] clientHeader clientOptions = Ok g"
proof -
  have "declarations_ok clientOptions"
    by (simp add: declarations_ok_def clientOptions_def ShowConfig_def ShowVersion_def valid_declaration.simps valid_name_def
        is_alnum_def distinct_options_def table_def helpOption_def newOption_def)
  then show ?thesis
    using buildParser_cases [where prog = "[]" and helpLegend = clientHeader and ds = clientOptions] by (auto split: sum.splits)
qed

lemma sample_args:
  "\<exists>r. clientArgs sampleWorld [''pimc'', ''f''] = Some (Finished r) \<and> flagOf ShowVersion r = Ok False \<and>
    flagOf ShowConfig r = Ok False \<and> positional r = [''f'']"
proof -
  obtain g where g: "buildParser [] clientHeader clientOptions = Ok g" using client_parser by blast
  let ?argv = "[''pimc'', ''f'']"
  let ?e = "\<lparr>gc_ret = -1, gc_optarg = None, gc_optopt = 0, gc_optind = 1, gc_argv = ?argv\<rparr>"
  have "acceptable clientOptions []"
    by (simp add: acceptable_def clientOptions_def uses_def less_Suc_eq all_conj_distrib)
  moreover have "w_getopt sampleWorld ?argv so lo = [] @ [?e]" for so lo by (simp add: sampleWorld_def)
  ultimately obtain r where "clientArgs sampleWorld ?argv = Some (Finished r)" "positional r = [''f'']"
      "options_given clientOptions [] r"
    using programArgs_acceptable [OF g, of "w_getopt sampleWorld" ?argv "[]" ?e] by (auto simp: clientArgs_def)
  then show ?thesis
    by (intro exI [of _ r]) (simp add: clientOptions_def options_given_def All_less_Suc2 uses_def)
qed

lemma sample_table: "newTable (w_le sampleWorld) (w_nametoindex sampleWorld) (w_ifaddrs sampleWorld) = Ok (Ok sampleTable)"
proof -
  have "from_nl False 167772169 = ofOctets 10 0 0 9" by code_simp
  then show ?thesis
    by (simp add: sampleWorld_def sampleTable_def newTable_def sockaddrIPv4_def omap_emplace_def)
qed

lemma sample_invoked: "invoked sampleWorld [''pimc'', ''f''] ''f'' sampleDocument sampleTable"
  using sample_args sample_table by (simp add: invoked_def) (simp add: sampleWorld_def loadAll_def)

lemma sampleWorld_node: "configNode (w_yaml sampleWorld) (w_host sampleWorld) sampleTable sampleDocument
    \<lparr>level = LevelInfo, logFileName = None\<rparr> samplePIMSM sampleJP"
proof -
  have nolog: "\<not> yn_defined docYAML (yn_field docYAML sampleDocument ''logging'')"
    by (simp add: docYAML_def sampleDocument_def)
  have "configNode docYAML (w_host sampleWorld) sampleTable sampleDocument \<lparr>level = LevelInfo, logFileName = None\<rparr> samplePIMSM sampleJP"
    using sample_node nolog
    by (simp add: configNode_def pimNode_def loggingNode_def sampleWorld_def sampleHost_def)
  then show ?thesis by (simp add: sampleWorld_def)
qed

lemma sample_keeps: "inversePack sampleJP = Some (Ok vs) \<Longrightarrow> withdrawsRps vs sampleJP"
  by (intro withdrawsRps_no_rp) (simp_all add: sampleJP_def)

lemma client_outcomes_witness:
  "(\<exists>cl es. runPIMCConfigLoader docYAML (w_host sampleWorld) sampleTable (vc_root sampleDocument)
      (\<lparr>cl_logging = None, cl_pimsm = None, cl_jp = None\<rparr>, []) = Some (Ok (cl, es)) \<and> es = []) \<and>
   (\<exists>code err sent. code \<le> 1 \<and> main sampleWorld [''pimc'', ''f''] = Some (ExitCode code [] err sent))"
proof -
  have run: "runPIMCConfigLoader docYAML (w_host sampleWorld) sampleTable (vc_root sampleDocument)
      (\<lparr>cl_logging = None, cl_pimsm = None, cl_jp = None\<rparr>, []) =
      Some (Ok (\<lparr>cl_logging = Some \<lparr>level = LevelInfo, logFileName = None\<rparr>, cl_pimsm = Some samplePIMSM, cl_jp = Some sampleJP\<rparr>, []))"
    using sampleWorld_node by (intro runPIMCConfigLoader_node sample_loadable) (simp add: vc_root_def sampleWorld_def)
  have "w_yaml sampleWorld = docYAML" by (simp add: sampleWorld_def)
  then show ?thesis
    using client_outcomes [OF sample_invoked] run sample_keeps sample_loadable(2) by (auto split: if_splits)
qed

lemma client_sends_witness:
  "\<exists>hello updates invPkts goodbye. carries_hello samplePIMSM 105 hello \<and> carries_hello samplePIMSM 0 goodbye \<and>
    announces samplePIMSM sampleJP updates invPkts \<and>
    main sampleWorld [''pimc'', ''f''] = Some (ExitCode 0 [] []
      (loop_plan samplePIMSM 5 [7, 30000000009] hello updates @
        map (Pair 30000000010) invPkts @ [(30000000011, goodbye)]))"
proof -
  have log: "newLogger (h_exists (w_host sampleWorld)) (h_isDirectory (w_host sampleWorld)) (w_logError sampleWorld)
      \<lparr>level = LevelInfo, logFileName = None\<rparr> = Ok \<lparr>log_maxLevel = 4, log_sink = ConsoleLogger\<rparr>"
    by (simp add: newLogger_def levelNo_def)
  have W: "w_accepts sampleWorld = (\<lambda>_. True)" "w_start sampleWorld = 5" "w_rounds sampleWorld = [7, 30000000009]"
    "w_leave sampleWorld = (30000000010, 30000000011)" "\<forall>c. pimsmConfig c = samplePIMSM \<longrightarrow> w_socket sampleWorld c = Ok ()"
    "helloHoldtime samplePIMSM = 105"
    by (simp_all add: sampleWorld_def samplePIMSM_def)
  have keeps: "\<forall>vs. inversePack sampleJP = Some (Ok vs) \<longrightarrow> withdrawsRps vs sampleJP" using sample_keeps by blast
  have "takeWhile (\<lambda>_. True) xs = xs" for xs :: "nat list" by (induction xs) simp_all
  then show ?thesis
    using client_sends [OF sample_invoked sampleWorld_node sample_loadable keeps log W(5)] unfolding W by auto
qed

end
