(* ===== verification/ErrorHandlers.thy ===== *)
theory ErrorHandlers
  imports Client
begin

text \<open>
  \<open>lib/pimc/yaml/ErrorHandler.hpp\<close>: the handlers that count and show the errors of structured YAML.  The virtual
  function \<open>showError\<close> of the base class is a parameter, which tells what is written; the handler for the standard error
  output is the function \<open>showError\<close> of \<open>Client\<close>, where the context is shown optionally.
\<close>

record ErrorHandler =
  eh_yamlfn :: string
  eh_cnt :: int
  eh_shown :: string

definition newErrorHandler :: "string \<Rightarrow> ErrorHandler" where
  "newErrorHandler yamlfn = \<lparr>eh_yamlfn = yamlfn, eh_cnt = 0, eh_shown = []\<rparr>"

text \<open>The counter is an \<open>int\<close>: its overflow is undefined, \<open>None\<close>.\<close>

definition eh_error :: "(string \<Rightarrow> ErrorContext \<Rightarrow> string) \<Rightarrow> ErrorContext \<Rightarrow> ErrorHandler \<Rightarrow> ErrorHandler option" where
  "eh_error shw e h =
     (if eh_cnt h = 2 ^ 31 - 1 then None
      else Some (h\<lparr>eh_cnt := eh_cnt h + 1, eh_shown := eh_shown h @ shw (eh_yamlfn h) e\<rparr>))"

definition eh_chk ::
    "(string \<Rightarrow> ErrorContext \<Rightarrow> string) \<Rightarrow> (ErrorContext, 'a) outcome \<Rightarrow> ErrorHandler \<Rightarrow>
     ((ErrorContext, 'a) outcome \<times> ErrorHandler) option" where
  "eh_chk shw r h =
     map_option (Pair r) (if hasError r then eh_error shw (result_error r) h else Some h)"

fun eh_chkAll :: "(string \<Rightarrow> ErrorContext \<Rightarrow> string) \<Rightarrow> ErrorContext list \<Rightarrow> ErrorHandler \<Rightarrow> ErrorHandler option" where
  "eh_chkAll shw [] h = Some h"
| "eh_chkAll shw (e # es) h = Option.bind (eh_error shw e h) (eh_chkAll shw es)"

definition eh_errors :: "ErrorHandler \<Rightarrow> int" where "eh_errors h = eh_cnt h"

datatype ErrorContextShow = Optionally | Always

text \<open>\<open>StderrErrorHandler<ECS>::showError\<close>; what follows a null character is not written.\<close>

definition stderrShow :: "ErrorContextShow \<Rightarrow> string \<Rightarrow> ErrorContext \<Rightarrow> string" where
  "stderrShow ecs yamlfn e =
     takeWhile (\<lambda>c. c \<noteq> CHR 0x00)
       (line (''error: '' @ (if ec_line e \<noteq> -1 then yamlfn @ '', '' @ int_text (ec_line e) @ '': '' else []) @
         (if ecs = Always then ec_context e else if ec_line e = -1 then ec_context e else []) @ ec_message e))"

lemma showError_optional: "showError = stderrShow Optionally"
  by (simp add: fun_eq_iff showError_def stderrShow_def)

lemma eh_chkAll_ok:
  "eh_cnt h + int (length es) < 2 ^ 31 \<Longrightarrow>
   eh_chkAll shw es h =
     Some (h\<lparr>eh_cnt := eh_cnt h + int (length es), eh_shown := eh_shown h @ concat (map (shw (eh_yamlfn h)) es)\<rparr>)"
  by (induction es arbitrary: h) (simp_all add: eh_error_def)

lemma fold_bind_None: "fold (\<lambda>r h. Option.bind h (f r)) rs None = None"
  by (induction rs) simp_all

text \<open>
  The two functions agree: checking results one by one shows and counts the same as checking the vector of their
  errors, a result is given back as it was, and a new handler that took no error has shown nothing.
\<close>

theorem handler_counts:
  assumes "int (length es) < 2 ^ 31"
  shows "\<exists>h. eh_chkAll shw es (newErrorHandler fn) = Some h \<and> eh_errors h = int (length es) \<and>
      eh_shown h = concat (map (shw fn) es)"
    and "fold (\<lambda>r h. Option.bind h (map_option snd \<circ> eh_chk shw r)) rs (Some h0) =
      eh_chkAll shw (map result_error (filter hasError rs)) h0"
    and "eh_chk shw r h0 = Some (r', h') \<Longrightarrow> r' = r"
proof -
  show "\<exists>h. eh_chkAll shw es (newErrorHandler fn) = Some h \<and> eh_errors h = int (length es) \<and>
      eh_shown h = concat (map (shw fn) es)"
    using assms by (simp add: eh_chkAll_ok newErrorHandler_def eh_errors_def)
  show "eh_chk shw r h0 = Some (r', h') \<Longrightarrow> r' = r" by (auto simp: eh_chk_def)
  have step: "map_option snd (eh_chk shw r h) = (if hasError r then eh_error shw (result_error r) h else Some h)" for r h
    by (simp add: eh_chk_def option.map_comp comp_def option.map_ident)
  show "fold (\<lambda>r h. Option.bind h (map_option snd \<circ> eh_chk shw r)) rs (Some h0) =
      eh_chkAll shw (map result_error (filter hasError rs)) h0"
  proof (induction rs arbitrary: h0)
    case (Cons r rs)
    then show ?case
      by (cases "hasError r"; cases "eh_error shw (result_error r) h0") (simp_all add: step fold_bind_None)
  qed simp
qed

end
