(* ===== verification/FlowStatistics.thy ===== *)
theory FlowStatistics
  imports IntfTables
begin

text \<open>
  The statistics of a receiver, \<open>apps/mclst/RxStats.hpp\<close>: packets and bytes by flow, where a flow is the
  source address with the source and destination ports.
\<close>

section \<open>Flows\<close>

definition flowId :: "IPv4Address \<Rightarrow> u16 \<Rightarrow> u16 \<Rightarrow> u64" where
  "flowId src sport dport = push_bit 48 (ucast dport) + push_bit 16 (ucast (addr_val src)) + ucast sport"

definition flowSource :: "u64 \<Rightarrow> IPv4Address" where
  "flowSource fid = IPv4Address (ucast (drop_bit 16 fid AND 0xFFFFFFFF))"

definition flowSPort :: "u64 \<Rightarrow> u16" where
  "flowSPort fid = ucast (fid AND 0xFFFF)"

definition flowDPort :: "u64 \<Rightarrow> u16" where
  "flowDPort fid = ucast (drop_bit 48 fid AND 0xFFFF)"

record FlowStats =
  fs_pkts :: u64
  fs_bytes :: u64

definition withHeaders :: "u64 \<Rightarrow> u64" where
  "withHeaders udpBytes = 12 + 20 + 8 + udpBytes + 4"

definition newFlowStats :: "u64 \<Rightarrow> FlowStats" where
  "newFlowStats udpBytes = \<lparr>fs_pkts = 1, fs_bytes = withHeaders udpBytes\<rparr>"

definition fs_add :: "u64 \<Rightarrow> FlowStats \<Rightarrow> FlowStats" where
  "fs_add udpBytes fs = \<lparr>fs_pkts = fs_pkts fs + 1, fs_bytes = fs_bytes fs + withHeaders udpBytes\<rparr>"

section \<open>Statistics\<close>

text \<open>
  The map of the flows is an association list, the ordered set of their IDs a sorted list.  The duration is
  not initialised; it is written when the timer of the loop is destroyed.
\<close>

record RxStats =
  fsMap :: "(u64 \<times> FlowStats) list"
  fids :: "u64 list"
  durationNanos :: "u64 option"

definition newRxStats :: RxStats where
  "newRxStats = \<lparr>fsMap = [], fids = [], durationNanos = None\<rparr>"

definition rx_update :: "IPv4Address \<Rightarrow> u16 \<Rightarrow> u16 \<Rightarrow> u64 \<Rightarrow> RxStats \<Rightarrow> RxStats" where
  "rx_update source sport dport udpBytes s =
     (let fid = flowId source sport dport in
      case map_of (fsMap s) fid of
        None \<Rightarrow> s\<lparr>fsMap := (fid, newFlowStats udpBytes) # fsMap s, fids := insort_insert fid (fids s)\<rparr>
      | Some _ \<Rightarrow> s\<lparr>fsMap := alist_modify fid (fs_add udpBytes) (fsMap s)\<rparr>)"

text \<open>The arguments of the calls of \<open>forEach\<close>; \<open>None\<close> is the use of \<open>find\<close> without a result.\<close>

definition rx_forEach :: "RxStats \<Rightarrow> (IPv4Address \<times> u16 \<times> u16 \<times> FlowStats) list option" where
  "rx_forEach s =
     those (map (\<lambda>fid. map_option (\<lambda>fs. (flowSource fid, flowSPort fid, flowDPort fid, fs)) (map_of (fsMap s) fid))
       (fids s))"

definition rx_size :: "RxStats \<Rightarrow> nat" where
  "rx_size s = length (fsMap s)"

definition rx_nonempty :: "RxStats \<Rightarrow> bool" where
  "rx_nonempty s \<longleftrightarrow> fsMap s \<noteq> []"

text \<open>The timer of the statistics: the start and its destruction.\<close>

definition rx_timer_end :: "u64 \<Rightarrow> u64 \<Rightarrow> RxStats \<Rightarrow> RxStats" where
  "rx_timer_end startNanos now s = s\<lparr>durationNanos := Some (now - startNanos)\<rparr>"

section \<open>What the statistics count\<close>

lemma u64_of_u16: "unat (ucast (v :: u16) :: u64) = unat v"
  and u64_of_u32: "unat (ucast (w :: u32) :: u64) = unat w"
  by (simp_all add: unsigned_ucast_eq take_bit_nat_eq_self_iff less_trans [OF unat_u16_less]
      less_trans [OF unat_u32_less])

lemma flow_number:
  fixes d s p :: nat
  assumes "d < 65536" "s < 4294967296" "p < 65536"
  shows "d * 281474976710656 + s * 65536 + p < 18446744073709551616"
    "(d * 281474976710656 + s * 65536 + p) div 65536 mod 4294967296 = s"
    "(d * 281474976710656 + s * 65536 + p) mod 65536 = p"
    "(d * 281474976710656 + s * 65536 + p) div 281474976710656 = d"
proof -
  let ?n = "d * 281474976710656 + s * 65536 + p"
  show "?n < 18446744073709551616" using assms by linarith
  have "?n = (d * 4294967296 + s) * 65536 + p" by simp
  then have n: "?n div 65536 = d * 4294967296 + s" "?n mod 65536 = p" using assms(3) by (simp_all only: div_mult_self3 mod_mult_self3 div_less mod_less)
  then show "?n mod 65536 = p" by blast
  show "?n div 65536 mod 4294967296 = s" using n(1) assms(2) by simp
  have "s * 65536 + p < 281474976710656" using assms by linarith
  then have "(d * 281474976710656 + (s * 65536 + p)) div 281474976710656 = d" by simp
  then show "?n div 281474976710656 = d" by (simp only: add.assoc)
qed

lemma unat_flowId:
  "unat (flowId src sport dport) = unat dport * 281474976710656 + unat (addr_val src) * 65536 + unat sport"
proof -
  have "flowId src sport dport = of_nat (unat dport * 281474976710656 + unat (addr_val src) * 65536 + unat sport)"
    by (simp add: flowId_def push_bit_eq_mult)
  then have "unat (flowId src sport dport) =
      (unat dport * 281474976710656 + unat (addr_val src) * 65536 + unat sport) mod 18446744073709551616"
    by (simp only: unat_of_nat) simp
  then show ?thesis
    using flow_number(1) [OF unat_u16_less [of dport] unat_u32_less [of "addr_val src"] unat_u16_less [of sport]]
    by (simp only: mod_less)
qed

lemma flowId_fields [simp]:
  "flowSource (flowId src sport dport) = src" "flowSPort (flowId src sport dport) = sport"
  "flowDPort (flowId src sport dport) = dport"
proof -
  have m: "(0xFFFFFFFF :: u64) = mask 32" "(0xFFFF :: u64) = mask 16" by (simp_all add: mask_eq_exp_minus_1)
  note n = flow_number(2-4) [OF unat_u16_less [of dport] unat_u32_less [of "addr_val src"] unat_u16_less [of sport],
      folded unat_flowId]
  have self: "take_bit 64 (unat fid) = unat fid" for fid :: u64
    using unsigned_less [of fid] by (intro take_bit_nat_eq_self) simp
  have words: "unat (ucast (drop_bit 16 fid AND 0xFFFFFFFF) :: u32) = take_bit 32 (drop_bit 16 (unat fid))"
    "unat (ucast (fid AND 0xFFFF) :: u16) = take_bit 16 (unat fid)"
    "unat (ucast (drop_bit 48 fid AND 0xFFFF) :: u16) = take_bit 16 (drop_bit 48 (unat fid))" for fid :: u64
    by (simp_all add: m unsigned_ucast_eq unsigned_drop_bit_eq unsigned_take_bit_eq self flip: take_bit_eq_mask)
  have "unat (ucast (drop_bit 16 (flowId src sport dport) AND 0xFFFFFFFF) :: u32) = unat (addr_val src)"
    using n(1) unfolding words(1) by (simp add: drop_bit_eq_div take_bit_eq_mod)
  then have "ucast (drop_bit 16 (flowId src sport dport) AND 0xFFFFFFFF) = addr_val src"
    by (simp only: word_unat_eq_iff)
  then show "flowSource (flowId src sport dport) = src" by (simp add: flowSource_def)
  have "unat (ucast (flowId src sport dport AND 0xFFFF) :: u16) = unat sport"
    using n(2) unfolding words(2) by (simp add: take_bit_eq_mod)
  then have "ucast (flowId src sport dport AND 0xFFFF) = sport" by (simp only: word_unat_eq_iff)
  then show "flowSPort (flowId src sport dport) = sport" by (simp add: flowSPort_def)
  have "unat (ucast (drop_bit 48 (flowId src sport dport) AND 0xFFFF) :: u16) = unat dport"
    using n(3) unfolding words(3) by (simp add: drop_bit_eq_div take_bit_eq_mod)
  then have "ucast (drop_bit 48 (flowId src sport dport) AND 0xFFFF) = dport" by (simp only: word_unat_eq_iff)
  then show "flowDPort (flowId src sport dport) = dport" by (simp add: flowDPort_def)
qed

lemma flowId_inject [simp]: "flowId a sp dp = flowId a' sp' dp' \<longleftrightarrow> a = a' \<and> sp = sp' \<and> dp = dp'"
  by (metis flowId_fields)

text \<open>The order of the set of IDs: by destination port, source and source port.\<close>

definition flow_less :: "IPv4Address \<times> u16 \<times> u16 \<Rightarrow> IPv4Address \<times> u16 \<times> u16 \<Rightarrow> bool" where
  "flow_less f g \<longleftrightarrow> (case (f, g) of ((a, sp, dp), (a', sp', dp')) \<Rightarrow>
     dp < dp' \<or> dp = dp' \<and> (a < a' \<or> a = a' \<and> sp < sp'))"

lemma flow_less_code: "flowId a sp dp < flowId a' sp' dp' \<Longrightarrow> flow_less (a, sp, dp) (a', sp', dp')"
proof -
  note b = unat_u16_less [of dp] unat_u32_less [of "addr_val a"] unat_u16_less [of sp]
    unat_u16_less [of dp'] unat_u32_less [of "addr_val a'"] unat_u16_less [of sp']
  assume "flowId a sp dp < flowId a' sp' dp'"
  then have less: "unat dp * 281474976710656 + unat (addr_val a) * 65536 + unat sp <
      unat dp' * 281474976710656 + unat (addr_val a') * 65536 + unat sp'"
    by (simp only: word_less_nat_alt unat_flowId)
  then have "unat dp < unat dp' \<or> unat dp = unat dp' \<and>
      (unat (addr_val a) < unat (addr_val a') \<or> unat (addr_val a) = unat (addr_val a') \<and> unat sp < unat sp')"
    using b by linarith
  then show ?thesis
    by (auto simp: flow_less_def addr_order(1) word_less_nat_alt word_unat_eq_iff intro!: IPv4Address.expand)
qed

text \<open>The packets of a flow, and their statistics: 44 bytes of headers are counted for every payload.\<close>

definition of_flow ::
    "IPv4Address \<times> u16 \<times> u16 \<Rightarrow> (IPv4Address \<times> u16 \<times> u16 \<times> u64) list \<Rightarrow> (IPv4Address \<times> u16 \<times> u16 \<times> u64) list" where
  "of_flow f ps = filter (\<lambda>(a, sp, dp, n). (a, sp, dp) = f) ps"

definition flow_stats :: "(IPv4Address \<times> u16 \<times> u16 \<times> u64) list \<Rightarrow> FlowStats" where
  "flow_stats ps = \<lparr>fs_pkts = of_nat (length ps), fs_bytes = sum_list (map (\<lambda>(a, sp, dp, n). n + 44) ps)\<rparr>"

definition rx_all :: "(IPv4Address \<times> u16 \<times> u16 \<times> u64) list \<Rightarrow> RxStats \<Rightarrow> RxStats" where
  "rx_all ps s = fold (\<lambda>(a, sp, dp, n). rx_update a sp dp n) ps s"

definition rx_inv :: "(IPv4Address \<times> u16 \<times> u16 \<times> u64) list \<Rightarrow> RxStats \<Rightarrow> bool" where
  "rx_inv ps s \<longleftrightarrow> distinct (map fst (fsMap s)) \<and> sorted (fids s) \<and> distinct (fids s) \<and>
     set (fids s) = (\<lambda>(a, sp, dp, n). flowId a sp dp) ` set ps \<and> length (fsMap s) = length (fids s) \<and>
     (\<forall>a sp dp. map_of (fsMap s) (flowId a sp dp) =
       (if of_flow (a, sp, dp) ps = [] then None else Some (flow_stats (of_flow (a, sp, dp) ps))))"

lemma of_flow_snoc:
  "of_flow f (ps @ [(a, sp, dp, n)]) = of_flow f ps @ (if f = (a, sp, dp) then [(a, sp, dp, n)] else [])"
  by (auto simp: of_flow_def)

lemma flow_stats_new: "newFlowStats n = flow_stats [(a, sp, dp, n)]"
  by (simp add: newFlowStats_def flow_stats_def withHeaders_def)

lemma flow_stats_add: "fs_add n (flow_stats ps) = flow_stats (ps @ [(a, sp, dp, n)])"
  by (simp add: fs_add_def flow_stats_def withHeaders_def)

lemma of_flow_empty: "of_flow (a, sp, dp) ps = [] \<longleftrightarrow> flowId a sp dp \<notin> (\<lambda>(a, sp, dp, n). flowId a sp dp) ` set ps"
  by (force simp: of_flow_def filter_empty_conv)

lemma rx_inv_update:
  assumes "rx_inv ps s"
  shows "rx_inv (ps @ [(a, sp, dp, n)]) (rx_update a sp dp n s)"
proof (cases "of_flow (a, sp, dp) ps = []")
  case True
  let ?id = "flowId a sp dp"
  have new: "?id \<notin> set (fids s)" "map_of (fsMap s) ?id = None"
    using assms True of_flow_empty [of a sp dp ps] by (auto simp: rx_inv_def)
  then have keys: "?id \<notin> set (map fst (fsMap s))" by (simp add: map_of_eq_None_iff)
  from new have upd: "rx_update a sp dp n s =
      s\<lparr>fsMap := (?id, newFlowStats n) # fsMap s, fids := insort ?id (fids s)\<rparr>"
    by (simp add: rx_update_def Let_def insort_insert_key_def)
  show ?thesis
    using assms new keys True unfolding upd
    by (auto simp: rx_inv_def of_flow_snoc flow_stats_new [of n a sp dp] sorted_insort distinct_insort set_insort_key)
next
  case False
  let ?id = "flowId a sp dp"
  have old: "?id \<in> set (fids s)" "map_of (fsMap s) ?id = Some (flow_stats (of_flow (a, sp, dp) ps))"
    using assms False of_flow_empty [of a sp dp ps] by (auto simp: rx_inv_def)
  then have upd: "rx_update a sp dp n s = s\<lparr>fsMap := alist_modify ?id (fs_add n) (fsMap s)\<rparr>"
    by (simp add: rx_update_def Let_def)
  have len: "length (alist_modify k f m) = length m" for k :: u64 and f :: "FlowStats \<Rightarrow> FlowStats" and m
    by (simp add: alist_modify_def)
  have "map_of (alist_modify ?id (fs_add n) (fsMap s)) (flowId a' sp' dp') =
      (if of_flow (a', sp', dp') (ps @ [(a, sp, dp, n)]) = [] then None
       else Some (flow_stats (of_flow (a', sp', dp') (ps @ [(a, sp, dp, n)]))))" for a' sp' dp'
    using assms old(2) by (auto simp: map_of_alist_modify of_flow_snoc flow_stats_add rx_inv_def)
  moreover have "?id \<in> (\<lambda>(a, sp, dp, n). flowId a sp dp) ` set ps" using old(1) assms by (simp add: rx_inv_def)
  ultimately show ?thesis
    using assms unfolding upd by (simp add: rx_inv_def len insert_absorb)
qed

lemma rx_inv_all: "rx_inv ps s \<Longrightarrow> rx_inv (ps @ qs) (rx_all qs s)"
proof (induction qs arbitrary: ps s)
  case (Cons q qs)
  obtain a sp dp n where q: "q = (a, sp, dp, n)" by (cases q)
  have "rx_inv ((ps @ [q]) @ qs) (rx_all qs (rx_update a sp dp n s))"
    using rx_inv_update [OF Cons.prems] by (intro Cons.IH) (simp add: q)
  then show ?case by (simp add: rx_all_def q)
qed (simp add: rx_all_def)

lemma rx_inv_new: "rx_inv [] newRxStats"
  by (simp add: rx_inv_def newRxStats_def of_flow_def)

lemma rx_inv_rows:
  assumes "rx_inv ps s"
  obtains rows where "rx_forEach s = Some rows" "length rows = rx_size s"
    "sorted_wrt flow_less (map (\<lambda>(a, sp, dp, fs). (a, sp, dp)) rows)"
    "set rows = (\<lambda>(a, sp, dp, n). (a, sp, dp, flow_stats (of_flow (a, sp, dp) ps))) ` set ps"
proof -
  let ?row = "\<lambda>fid. (flowSource fid, flowSPort fid, flowDPort fid,
    flow_stats (of_flow (flowSource fid, flowSPort fid, flowDPort fid) ps))"
  have ids: "set (fids s) = (\<lambda>(a, sp, dp, n). flowId a sp dp) ` set ps" using assms by (simp add: rx_inv_def)
  have find: "map_option (\<lambda>fs. (flowSource fid, flowSPort fid, flowDPort fid, fs)) (map_of (fsMap s) fid) = Some (?row fid)"
    if "fid \<in> set (fids s)" for fid
  proof -
    from that ids obtain a sp dp n where f: "fid = flowId a sp dp" "(a, sp, dp, n) \<in> set ps" by auto
    then have "of_flow (a, sp, dp) ps \<noteq> []" by (auto simp: of_flow_def filter_empty_conv)
    with f assms show ?thesis by (simp add: rx_inv_def)
  qed
  have "those (map (\<lambda>fid. Some (?row fid)) xs) = Some (map ?row xs)" for xs by (induction xs) simp_all
  then have "rx_forEach s = Some (map ?row (fids s))"
    using find by (simp add: rx_forEach_def cong: map_cong)
  moreover have "length (map ?row (fids s)) = rx_size s" using assms by (simp add: rx_inv_def rx_size_def)
  moreover have "sorted_wrt flow_less (map (\<lambda>(a, sp, dp, fs). (a, sp, dp)) (map ?row (fids s)))"
  proof -
    have "sorted_wrt (<) (fids s)" using assms by (simp add: rx_inv_def strict_sorted_iff)
    then have "sorted_wrt (\<lambda>x y. flow_less (flowSource x, flowSPort x, flowDPort x) (flowSource y, flowSPort y, flowDPort y)) (fids s)"
    proof (rule sorted_wrt_mono_rel [rotated])
      fix x y assume "x \<in> set (fids s)" "y \<in> set (fids s)" "x < y"
      then show "flow_less (flowSource x, flowSPort x, flowDPort x) (flowSource y, flowSPort y, flowDPort y)"
        using ids flow_less_code by fastforce
    qed
    then show ?thesis by (simp add: sorted_wrt_map)
  qed
  moreover have "set (map ?row (fids s)) = (\<lambda>(a, sp, dp, n). (a, sp, dp, flow_stats (of_flow (a, sp, dp) ps))) ` set ps"
    by (simp add: ids image_image case_prod_unfold)
  ultimately show thesis by (rule that)
qed

text \<open>C20: The statistics list every flow of the received packets exactly once, in the order of the destination
  port, the source and the source port, with the number of its packets and their bytes, each with 44 bytes
  of headers, modulo 2 ^ 64.
\<close>

theorem rx_stats_correct:
  "\<exists>rows. rx_forEach (rx_all ps newRxStats) = Some rows \<and> length rows = rx_size (rx_all ps newRxStats) \<and>
    (rx_nonempty (rx_all ps newRxStats) \<longleftrightarrow> ps \<noteq> []) \<and>
    sorted_wrt flow_less (map (\<lambda>(a, sp, dp, fs). (a, sp, dp)) rows) \<and>
    set rows = (\<lambda>(a, sp, dp, n). (a, sp, dp, flow_stats (of_flow (a, sp, dp) ps))) ` set ps"
proof -
  have inv: "rx_inv ps (rx_all ps newRxStats)" using rx_inv_all [OF rx_inv_new, of ps] by simp
  obtain rows where rows: "rx_forEach (rx_all ps newRxStats) = Some rows" "length rows = rx_size (rx_all ps newRxStats)"
    "sorted_wrt flow_less (map (\<lambda>(a, sp, dp, fs). (a, sp, dp)) rows)"
    "set rows = (\<lambda>(a, sp, dp, n). (a, sp, dp, flow_stats (of_flow (a, sp, dp) ps))) ` set ps"
    by (rule rx_inv_rows [OF inv])
  have "rx_nonempty (rx_all ps newRxStats) \<longleftrightarrow> ps \<noteq> []"
    using rows(2,4) by (auto simp: rx_nonempty_def rx_size_def)
  with rows show ?thesis by blast
qed

end
