(* ===== verification/MclstConfig.thy ===== *)
theory MclstConfig
  imports Programs NumberParsers
begin

text \<open>
  The configuration of the multicast listener and sender, \<open>apps/mclst/Config.hpp\<close> and \<open>Config.cpp\<close>: the
  command line of \<open>mclst\<close>, the parsers of its values, and the text of \<open>--show-config\<close>.
\<close>

section \<open>The options\<close>

definition OptInterface :: u32 where "OptInterface = 1"
definition OptSourceOfG :: u32 where "OptSourceOfG = 2"
definition OptTimeout :: u32 where "OptTimeout = 3"
definition OptShowPayload :: u32 where "OptShowPayload = 4"
definition OptSender :: u32 where "OptSender = 5"
definition OptSetTTL :: u32 where "OptSetTTL = 6"
definition OptCount :: u32 where "OptCount = 7"
definition OptNoColors :: u32 where "OptNoColors = 8"
definition OptShowConfig :: u32 where "OptShowConfig = 9"
definition OptShowVersion :: u32 where "OptShowVersion = 10"

lemmas option_ids = OptInterface_def OptSourceOfG_def OptTimeout_def OptShowPayload_def OptSender_def OptSetTTL_def
  OptCount_def OptNoColors_def OptShowConfig_def OptShowVersion_def

definition mclstHeader :: string where
  "mclstHeader = ''[Options] group[:port]'' @ nl @ nl @
     ''where group[:port] may be specified either as '' @ quoted ''group:port'' @ '', e.g. 239.1.2.3:12345'' @ nl @
     ''or just as a group, e.g. 239.1.2.3, which implies receiving multicast traffic'' @ nl @
     ''destined for all UDP ports''"

definition mclstOptions :: "Declaration list" where
  "mclstOptions =
     [DOptional OptInterface CHR ''i'' ''interface'' ''Interface''
        (''The host interface on which to receive/send multicast. The '' @
         ''interface can be specified by name, e.g. eth0, or by its '' @ ''IPv4 address.'') False,
      DOptional OptSourceOfG CHR ''S'' ''source'' ''IPv4Address''
        (''Indicates that the subscription should be source specific. '' @
         ''This option implies the use of IGMPv3, which may or may not be '' @
         ''enabled on the host. If it'' @ [CHR 0x27] @ ''s not enabled, the host will join (*,G) '' @
         ''as opposed to (S,G) and filtering by source will be performed by '' @ ''the host'') False,
      DOptional OptTimeout CHR ''t'' ''timeout'' ''Seconds''
        (''The timeout in seconds, defaults to 5s. Valid values are '' @ ''in range 1-600.'') False,
      DFlag OptShowPayload CHR ''X'' ''hex-ascii''
        (''Show the payload of the received traffic using split Hex/ASCII '' @ ''output similar to tcpdump -XX.''),
      DFlag OptSender CHR ''s'' ''sender''
        (''Send multicast traffic. If this flag is set, then the destination '' @ ''port may not be omitted.''),
      DOptional OptSetTTL NoShort ''ttl'' ''TTL''
        (''Set the TTL of the sent traffic to the specified value. '' @
         ''Defaults to 255. Valid values are in range 1-255. '' @
         ''This option may only be specified with the flag -s|--sender.'') False,
      DOptional OptCount CHR ''c'' ''count'' ''NoOfPkts''
        (''Specify the number of packets to receive or to send. By default '' @
         ''the receiver will keep receiving and the sender will keep sending '' @
         ''until interrupted. This option will cause the receiver or the '' @
         ''sender to stop after the specified number of packet was received '' @ ''or sent.'') False,
      DFlag OptNoColors NoShort ''no-colors'' ''Do not use colored output'',
      DFlag OptShowConfig NoShort ''show-config'' ''Show config and exit'',
      DFlag OptShowVersion CHR ''v'' ''version'' ''show version and exit'']"

section \<open>The parsers of the values\<close>

definition parseGroupPort :: "string \<Rightarrow> (IPv4Address \<times> u16 \<times> bool) run" where
  "parseGroupPort gp =
     (if CHR '':'' \<in> set gp then
        (let grpsv = takeWhile (\<lambda>c. c \<noteq> CHR '':'') gp; portsv = tl (dropWhile (\<lambda>c. c \<noteq> CHR '':'') gp) in
         case parseIPv4Address grpsv of
           None \<Rightarrow> ThrowsCommandLine (''invalid multicast group '' @ quoted grpsv)
         | Some grp \<Rightarrow>
             (case parseDecimalUInt16 portsv of
                Inl _ \<Rightarrow> ThrowsCommandLine (''invalid destination UDP port '' @ quoted portsv)
              | Inr dport \<Rightarrow>
                  if dport = 0 then ThrowsCommandLine ''destination UDP port may not be 0''
                  else Finished (grp, dport, False)))
      else (case parseIPv4Address gp of
          None \<Rightarrow> ThrowsCommandLine (''invalid multicast group/port '' @ quoted gp)
        | Some grp \<Rightarrow> Finished (grp, 0, True)))"

definition parseSourceOfG :: "string list \<Rightarrow> IPv4Address run" where
  "parseSourceOfG sofg =
     (case sofg of
        [] \<Rightarrow> Finished (IPv4Address DefaultAddressValue)
      | ss # _ \<Rightarrow>
          (case parseIPv4Address ss of
             None \<Rightarrow> ThrowsCommandLine (''invalid source address '' @ quoted ss)
           | Some s \<Rightarrow>
               if isMcast s then ThrowsCommandLine (''source address may not be multicast ('' @ addr_string s @ '')'')
               else if isDefault s then ThrowsCommandLine (''source address may not be default ('' @ addr_string s @ '')'')
               else if isLocalBroadcast s
                 then ThrowsCommandLine (''source address may not be broadcast ('' @ addr_string s @ '')'')
               else Finished s))"

definition parseTimeoutSecs :: "string list \<Rightarrow> u32 run" where
  "parseTimeoutSecs ts =
     (case ts of
        [] \<Rightarrow> Finished 5
      | tsSpec # _ \<Rightarrow>
          (case parseDecimalUInt32 tsSpec of
             Inl _ \<Rightarrow> ThrowsCommandLine (''invalid timeout '' @ quoted tsSpec)
           | Inr t \<Rightarrow>
               if t < 1 \<or> t > 600
               then ThrowsCommandLine (''invalid timeout of '' @ dec_string (unat t) @ '' seconds, valid range is 0-600'')
               else Finished t))"

definition parseTTL :: "string list \<Rightarrow> bool \<Rightarrow> u32 run" where
  "parseTTL ttls sender =
     (if \<not> sender then
        (if ttls \<noteq> []
         then ThrowsCommandLine (''the option --ttl may only be specified with '' @ ''the option -s|--sender'')
         else Finished 0)
      else (case ttls of
          [] \<Rightarrow> Finished 255
        | ttlSpec # _ \<Rightarrow>
            (case parseDecimalUInt32 ttlSpec of
               Inl _ \<Rightarrow> ThrowsCommandLine (''invalid TTL '' @ quoted ttlSpec)
             | Inr ttl \<Rightarrow>
                 if ttl < 1 \<or> ttl > 255
                 then ThrowsCommandLine (''invalid TTL value '' @ dec_string (unat ttl) @ '', valid range is 1-255'')
                 else Finished ttl)))"

definition parseCount :: "string list \<Rightarrow> u32 run" where
  "parseCount counts =
     (case counts of
        [] \<Rightarrow> Finished 0
      | countSpec # _ \<Rightarrow>
          (case parseDecimalUInt32 countSpec of
             Inl _ \<Rightarrow> ThrowsCommandLine (''invalid packet count '' @ quoted countSpec)
           | Inr c \<Rightarrow> Finished c))"

section \<open>The configuration\<close>

record Config =
  c_group :: IPv4Address
  c_dport :: u16
  c_wildcard :: bool
  c_intf :: string
  c_intfAddr :: IPv4Address
  c_source :: IPv4Address
  c_timeoutSec :: u32
  c_sender :: bool
  c_ttl :: u32
  c_count :: u64
  c_showPayload :: bool
  c_colors :: bool
  c_intfTable :: IntfTable
  c_showConfig :: bool

text \<open>
  The rest of \<open>fromArgs\<close> after the interface, and the function.  The result of \<open>IntfTable::newTable\<close>, whether
  both outputs are terminals, and the version are parameters.
\<close>

definition noAddress :: "string \<Rightarrow> IntfTable \<Rightarrow> string" where
  "noAddress problem t = problem @ nl @ nl @ ''available interfaces:'' @ nl @ formatIntfTable t 0 True"

definition intfAddrOf :: "IntfTable \<Rightarrow> string \<Rightarrow> IPv4Address run" where
  "intfAddrOf t ifn =
     (case byName t ifn of
        None \<Rightarrow> ThrowsCommandLine (noAddress (''unknown interface '' @ quoted ifn) t)
      | Some info \<Rightarrow>
          (case ipv4addr info of
             None \<Rightarrow> ThrowsCommandLine (noAddress (''interface '' @ ifn @ '' has no IPv4 address'') t)
           | Some a \<Rightarrow> Finished a))"

definition configOf ::
    "bool \<Rightarrow> GetOptLongResult \<Rightarrow> IPv4Address \<times> u16 \<times> bool \<Rightarrow> IntfTable \<Rightarrow> string \<Rightarrow> IPv4Address \<Rightarrow> Config run" where
  "configOf tty r gp t ifn addr =
     (case gp of (grp, dport, wildcard) \<Rightarrow>
        run_bind (run_bind (run_cli (valuesOf OptSourceOfG r)) parseSourceOfG) (\<lambda>sourceAddr.
        run_bind (run_bind (run_cli (valuesOf OptTimeout r)) parseTimeoutSecs) (\<lambda>timeoutSecs.
        run_bind (run_cli (flagOf OptShowPayload r)) (\<lambda>showPayload.
        run_bind (run_bind (run_cli (valuesOf OptCount r)) parseCount) (\<lambda>count.
        run_bind (run_cli (flagOf OptSender r)) (\<lambda>sender.
        run_bind (run_bind (run_cli (valuesOf OptSetTTL r)) (\<lambda>ttls. parseTTL ttls sender)) (\<lambda>ttl.
        if sender \<and> wildcard
        then ThrowsCommandLine ''the destination port must be specified with the option -s|--sender''
        else
        run_bind (run_cli (flagOf OptNoColors r)) (\<lambda>noColors.
        run_bind (run_cli (flagOf OptShowConfig r)) (\<lambda>showConfig.
          Finished
            \<lparr>c_group = grp, c_dport = dport, c_wildcard = wildcard, c_intf = ifn, c_intfAddr = addr,
             c_source = sourceAddr, c_timeoutSec = timeoutSecs, c_sender = sender, c_ttl = ttl,
             c_count = ucast count, c_showPayload = showPayload, c_colors = (\<not> noColors \<and> tty),
             c_intfTable = t, c_showConfig = showConfig\<rparr>)))))))))"

definition configFromArgs ::
    "bool \<Rightarrow> (string, (string, IntfTable) outcome) outcome \<Rightarrow> string \<Rightarrow> GetOptLongResult \<Rightarrow> Config run" where
  "configFromArgs tty tab version r =
     run_bind (run_cli (flagOf OptShowVersion r)) (\<lambda>showVersion.
       if showVersion then Exits (''mclst'' @ nl @ version)
       else run_bind (run_cli (valuesOf OptInterface r)) (\<lambda>intf.
         case positional r of
           [] \<Rightarrow> ThrowsCommandLine ''no group and destination port specified''
         | [gp] \<Rightarrow>
             (case intf of
                [] \<Rightarrow> ThrowsCommandLine ''interface is required''
              | ifn # _ \<Rightarrow>
                  run_bind (parseGroupPort gp) (\<lambda>group.
                    case tab of
                      Inl e \<Rightarrow> ThrowsLogic (TableMisuse e)
                    | Inr (Inl e) \<Rightarrow> ThrowsCommandLine (''unable to query host'' @ [CHR 0x27] @ ''s interfaces: '' @ e)
                    | Inr (Inr t) \<Rightarrow> run_bind (intfAddrOf t ifn) (configOf tty r group t ifn)))
         | _ \<Rightarrow> ThrowsCommandLine ''too many positional parameters''))"

definition fromArgs ::
    "bool \<Rightarrow> (string, (string, IntfTable) outcome) outcome \<Rightarrow> string \<Rightarrow> getopt \<Rightarrow> string list \<Rightarrow> Config run option" where
  "fromArgs tty tab version getopt_long argv =
     map_option (\<lambda>r. run_bind r (configFromArgs tty tab version))
       (programArgs mclstHeader mclstOptions getopt_long argv)"

text \<open>The text of \<open>--show-config\<close>.\<close>

definition yesNo :: "bool \<Rightarrow> string" where "yesNo b = (if b then ''YES'' else ''NO'')"

definition showMclstConfig :: "Config \<Rightarrow> string" where
  "showMclstConfig c =
     (let packets = (if 0 < c_count c then '', '' @ dec_string (unat (c_count c)) @ '' packets only'' else []) in
      takeWhile (\<lambda>ch. ch \<noteq> CHR 0x00)
        ((if \<not> c_sender c
          then ''Receive from ('' @ (if isDefault (c_source c) then ''*, '' else addr_string (c_source c) @ '','') @
            (if \<not> c_wildcard c then addr_string (c_group c) @ '':'' @ dec_string (unat (c_dport c)) @ '')''
             else addr_string (c_group c) @ '':*)'') @
            packets @ nl @ ''Show payload: '' @ yesNo (c_showPayload c)
          else ''Send to '' @ addr_string (c_group c) @ '':'' @ dec_string (unat (c_dport c)) @ '', 1pps, TTL '' @
            dec_string (unat (c_ttl c)) @ packets) @
         nl @ ''Interface: '' @ c_intf c @ '' ('' @ addr_string (c_intfAddr c) @ '')'' @ nl @
         ''Colors: '' @ yesNo (c_colors c) @ nl @ nl @ ''Host interfaces:'' @ nl @ nl @
         formatIntfTable (c_intfTable c) 2 True))"

section \<open>Valid configurations\<close>

text \<open>What every configuration promises the receiver and the sender.\<close>

definition config_ok :: "bool \<Rightarrow> IntfTable \<Rightarrow> Config \<Rightarrow> bool" where
  "config_ok tty t c \<longleftrightarrow>
     c_intfTable c = t \<and> (\<exists>info. byName t (c_intf c) = Some info \<and> ipv4addr info = Some (c_intfAddr c)) \<and>
     c_timeoutSec c \<noteq> 0 \<and> c_timeoutSec c \<le> 600 \<and> unat (c_count c) < 2 ^ 32 \<and>
     (c_wildcard c \<longleftrightarrow> c_dport c = 0) \<and> \<not> isMcast (c_source c) \<and> \<not> isLocalBroadcast (c_source c) \<and>
     (if c_sender c then \<not> c_wildcard c \<and> c_ttl c \<noteq> 0 \<and> c_ttl c \<le> 255 else c_ttl c = 0) \<and>
     (c_colors c \<longrightarrow> tty)"

lemma parseGroupPort_wildcard: "parseGroupPort gp = Finished (grp, dport, w) \<Longrightarrow> w \<longleftrightarrow> dport = 0"
  by (auto simp: parseGroupPort_def Let_def split: if_splits option.splits sum.splits)

lemma parseSourceOfG_ok: "parseSourceOfG ss = Finished a \<Longrightarrow> \<not> isMcast a \<and> \<not> isLocalBroadcast a"
proof -
  have "\<not> isMcast (IPv4Address DefaultAddressValue) \<and> \<not> isLocalBroadcast (IPv4Address DefaultAddressValue)" by code_simp
  then show "parseSourceOfG ss = Finished a \<Longrightarrow> \<not> isMcast a \<and> \<not> isLocalBroadcast a"
    by (auto simp: parseSourceOfG_def split: if_splits option.splits list.splits)
qed

lemma parseTimeoutSecs_ok: "parseTimeoutSecs ts = Finished t \<Longrightarrow> t \<noteq> 0 \<and> t \<le> 600"
  by (auto simp: parseTimeoutSecs_def not_less split: if_splits sum.splits list.splits)

lemma parseTTL_ok: "parseTTL ttls s = Finished t \<Longrightarrow> if s then t \<noteq> 0 \<and> t \<le> 255 else t = 0"
  by (auto simp: parseTTL_def not_less split: if_splits sum.splits list.splits)

lemma intfAddrOf_ok: "intfAddrOf t n = Finished a \<longleftrightarrow> (\<exists>info. byName t n = Some info \<and> ipv4addr info = Some a)"
  by (auto simp: intfAddrOf_def split: option.splits)

lemma configOf_ok:
  assumes "configOf tty r gp t n a = Finished c" and "intfAddrOf t n = Finished a" and "parseGroupPort g = Finished gp"
  shows "config_ok tty t c"
proof -
  obtain grp dport w where gp: "gp = (grp, dport, w)" by (cases gp)
  have "unat (ucast k :: u64) = unat k" for k :: u32
    by (simp add: unsigned_ucast_eq take_bit_nat_eq_self_iff less_trans [OF unat_u32_less])
  then have count: "unat (ucast k :: u64) < 4294967296" for k :: u32 by simp
  show ?thesis
    using assms parseGroupPort_wildcard [of g grp dport w] unfolding configOf_def gp
    by (auto simp: run_bind_Finished config_ok_def intfAddrOf_ok count
        dest!: parseSourceOfG_ok parseTimeoutSecs_ok parseTTL_ok split: if_splits)
qed

lemma fromArgs_ok:
  assumes "fromArgs tty tab version getopt_long argv = Some (Finished c)"
  shows "\<exists>t. tab = Ok (Ok t) \<and> config_ok tty t c"
proof -
  obtain r where "configFromArgs tty tab version r = Finished c"
    using assms by (auto simp: fromArgs_def run_bind_Finished)
  then obtain intf where "(case positional r of
           [] \<Rightarrow> ThrowsCommandLine ''no group and destination port specified''
         | [gp] \<Rightarrow>
             (case intf of
                [] \<Rightarrow> ThrowsCommandLine ''interface is required''
              | ifn # _ \<Rightarrow>
                  run_bind (parseGroupPort gp) (\<lambda>group.
                    case tab of
                      Inl e \<Rightarrow> ThrowsLogic (TableMisuse e)
                    | Inr (Inl e) \<Rightarrow> ThrowsCommandLine (''unable to query host'' @ [CHR 0x27] @ ''s interfaces: '' @ e)
                    | Inr (Inr t) \<Rightarrow> run_bind (intfAddrOf t ifn) (configOf tty r group t ifn)))
         | _ \<Rightarrow> ThrowsCommandLine ''too many positional parameters'') = Finished c"
    by (auto simp: configFromArgs_def run_bind_Finished split: if_splits)
  then obtain n g gp t where "parseGroupPort gp = Finished g" "tab = Ok (Ok t)"
      "run_bind (intfAddrOf t n) (configOf tty r g t n) = Finished c"
    by (cases "positional r"; cases "tl (positional r)"; cases intf; cases tab; cases "projr tab";
        auto simp: run_bind_Finished) blast
  moreover then obtain a where "intfAddrOf t n = Finished a" "configOf tty r g t n a = Finished c"
    by (auto simp: run_bind_Finished)
  ultimately show ?thesis using configOf_ok by metis
qed

section \<open>Command lines for configurations\<close>

text \<open>The values of the options and the flags that describe a configuration, and its positional argument.\<close>

definition describes :: "Config \<Rightarrow> getopt_call list \<Rightarrow> bool" where
  "describes c cs \<longleftrightarrow> acceptable mclstOptions cs \<and>
     (let vals = (\<lambda>k. map (the \<circ> gc_optarg) (uses mclstOptions k cs)); on = (\<lambda>k. uses mclstOptions k cs \<noteq> []) in
      vals 0 = [c_intf c] \<and>
      vals 1 = (if isDefault (c_source c) then [] else [addr_string (c_source c)]) \<and>
      (vals 2 = [dec_string (unat (c_timeoutSec c))] \<or> vals 2 = [] \<and> c_timeoutSec c = 5) \<and>
      on 3 = c_showPayload c \<and> on 4 = c_sender c \<and>
      (if c_sender c then vals 5 = [dec_string (unat (c_ttl c))] \<or> vals 5 = [] \<and> c_ttl c = 255 else vals 5 = []) \<and>
      (vals 6 = [dec_string (unat (c_count c))] \<or> vals 6 = [] \<and> c_count c = 0) \<and>
      on 8 = c_showConfig c \<and> \<not> on 9)"

definition groupText :: "Config \<Rightarrow> string" where
  "groupText c = addr_string (c_group c) @ (if c_wildcard c then [] else '':'' @ dec_string (unat (c_dport c)))"

lemma parseGroupPort_text:
  assumes "c_wildcard c \<longleftrightarrow> c_dport c = 0"
  shows "parseGroupPort (groupText c) = Finished (c_group c, c_dport c, c_wildcard c)"
proof -
  have no: "CHR '':'' \<notin> set (addr_string (c_group c))"
  proof
    have "\<not> is_digit CHR '':''" by (simp add: is_digit_def)
    moreover assume "CHR '':'' \<in> set (addr_string (c_group c))"
    ultimately show False using addr_string_chars by fastforce
  qed
  then have "takeWhile (\<lambda>ch. ch \<noteq> CHR '':'') (addr_string (c_group c) @ CHR '':'' # ps) = addr_string (c_group c)"
    "dropWhile (\<lambda>ch. ch \<noteq> CHR '':'') (addr_string (c_group c) @ CHR '':'' # ps) = CHR '':'' # ps" for ps
    by (subst takeWhile_append2 dropWhile_append2; auto)+
  then show ?thesis
    using assms no
    by (simp add: parseGroupPort_def groupText_def Let_def parse_addr_string parseDecimalUInt16_def p16.parse_dec_string)
qed

lemma parse_uint32: "parseDecimalUInt32 (dec_string (unat v)) = Ok v"
  by (simp add: parseDecimalUInt32_def p32.parse_dec_string)

lemma parseSourceOfG_text:
  assumes "\<not> isMcast s" and "\<not> isLocalBroadcast s"
  shows "parseSourceOfG (if isDefault s then [] else [addr_string s]) = Finished s"
  using assms by (cases s) (auto simp: parseSourceOfG_def parse_addr_string isDefault_def)

lemma mclst_values:
  assumes "options_given mclstOptions cs r"
  shows "valuesOf OptInterface r = Ok (map (the \<circ> gc_optarg) (uses mclstOptions 0 cs))"
    "valuesOf OptSourceOfG r = Ok (map (the \<circ> gc_optarg) (uses mclstOptions 1 cs))"
    "valuesOf OptTimeout r = Ok (map (the \<circ> gc_optarg) (uses mclstOptions 2 cs))"
    "flagOf OptShowPayload r = Ok (uses mclstOptions 3 cs \<noteq> [])"
    "flagOf OptSender r = Ok (uses mclstOptions 4 cs \<noteq> [])"
    "valuesOf OptSetTTL r = Ok (map (the \<circ> gc_optarg) (uses mclstOptions 5 cs))"
    "valuesOf OptCount r = Ok (map (the \<circ> gc_optarg) (uses mclstOptions 6 cs))"
    "flagOf OptNoColors r = Ok (uses mclstOptions 7 cs \<noteq> [])"
    "flagOf OptShowConfig r = Ok (uses mclstOptions 8 cs \<noteq> [])"
    "flagOf OptShowVersion r = Ok (uses mclstOptions 9 cs \<noteq> [])"
proof -
  have n: "length mclstOptions = 10" by (simp add: mclstOptions_def)
  have "if oi_flag (option_of (mclstOptions ! k)) then flagOf (decl_id (mclstOptions ! k)) r = Ok (uses mclstOptions k cs \<noteq> [])
      else valuesOf (decl_id (mclstOptions ! k)) r = Ok (map (the \<circ> gc_optarg) (uses mclstOptions k cs))" if "k < 10" for k
    using assms that by (simp add: options_given_def n)
  note given = this [of 0] this [of 1] this [of 2] this [of 3] this [of 4] this [of 5] this [of 6] this [of 7]
    this [of 8] this [of 9]
  have at: "decl_id (mclstOptions ! 0) = OptInterface" "\<not> oi_flag (option_of (mclstOptions ! 0))"
    "decl_id (mclstOptions ! 1) = OptSourceOfG" "\<not> oi_flag (option_of (mclstOptions ! 1))"
    "decl_id (mclstOptions ! 2) = OptTimeout" "\<not> oi_flag (option_of (mclstOptions ! 2))"
    "decl_id (mclstOptions ! 3) = OptShowPayload" "oi_flag (option_of (mclstOptions ! 3))"
    "decl_id (mclstOptions ! 4) = OptSender" "oi_flag (option_of (mclstOptions ! 4))"
    "decl_id (mclstOptions ! 5) = OptSetTTL" "\<not> oi_flag (option_of (mclstOptions ! 5))"
    "decl_id (mclstOptions ! 6) = OptCount" "\<not> oi_flag (option_of (mclstOptions ! 6))"
    "decl_id (mclstOptions ! 7) = OptNoColors" "oi_flag (option_of (mclstOptions ! 7))"
    "decl_id (mclstOptions ! 8) = OptShowConfig" "oi_flag (option_of (mclstOptions ! 8))"
    "decl_id (mclstOptions ! 9) = OptShowVersion" "oi_flag (option_of (mclstOptions ! 9))"
    by (simp_all add: mclstOptions_def newOption_def)
  from given show "valuesOf OptInterface r = Ok (map (the \<circ> gc_optarg) (uses mclstOptions 0 cs))"
    "valuesOf OptSourceOfG r = Ok (map (the \<circ> gc_optarg) (uses mclstOptions 1 cs))"
    "valuesOf OptTimeout r = Ok (map (the \<circ> gc_optarg) (uses mclstOptions 2 cs))"
    "flagOf OptShowPayload r = Ok (uses mclstOptions 3 cs \<noteq> [])"
    "flagOf OptSender r = Ok (uses mclstOptions 4 cs \<noteq> [])"
    "valuesOf OptSetTTL r = Ok (map (the \<circ> gc_optarg) (uses mclstOptions 5 cs))"
    "valuesOf OptCount r = Ok (map (the \<circ> gc_optarg) (uses mclstOptions 6 cs))"
    "flagOf OptNoColors r = Ok (uses mclstOptions 7 cs \<noteq> [])"
    "flagOf OptShowConfig r = Ok (uses mclstOptions 8 cs \<noteq> [])"
    "flagOf OptShowVersion r = Ok (uses mclstOptions 9 cs \<noteq> [])"
    by (simp_all only: at if_True if_False)
qed

lemma describes_values:
  assumes "describes c cs" and "config_ok tty t c"
  shows "map (the \<circ> gc_optarg) (uses mclstOptions 0 cs) = [c_intf c]"
    "parseSourceOfG (map (the \<circ> gc_optarg) (uses mclstOptions 1 cs)) = Finished (c_source c)"
    "parseTimeoutSecs (map (the \<circ> gc_optarg) (uses mclstOptions 2 cs)) = Finished (c_timeoutSec c)"
    "parseTTL (map (the \<circ> gc_optarg) (uses mclstOptions 5 cs)) (c_sender c) = Finished (c_ttl c)"
    "parseCount (map (the \<circ> gc_optarg) (uses mclstOptions 6 cs)) = Finished (ucast (c_count c))"
    "ucast (ucast (c_count c) :: u32) = c_count c"
proof -
  note d = assms(1) [unfolded describes_def Let_def]
  have ok: "c_timeoutSec c \<noteq> 0" "c_timeoutSec c \<le> 600" "\<not> isMcast (c_source c)" "\<not> isLocalBroadcast (c_source c)"
    "c_sender c \<Longrightarrow> c_ttl c \<noteq> 0 \<and> c_ttl c \<le> 255" "\<not> c_sender c \<Longrightarrow> c_ttl c = 0" "unat (c_count c) < 2 ^ 32"
    using assms(2) by (auto simp: config_ok_def)
  show "map (the \<circ> gc_optarg) (uses mclstOptions 0 cs) = [c_intf c]" using d by blast
  have "map (the \<circ> gc_optarg) (uses mclstOptions 1 cs) = (if isDefault (c_source c) then [] else [addr_string (c_source c)])"
    using d by blast
  then show "parseSourceOfG (map (the \<circ> gc_optarg) (uses mclstOptions 1 cs)) = Finished (c_source c)"
    using parseSourceOfG_text [OF ok(3,4)] by (simp only:)
  have one: "\<not> v < 1" if "v \<noteq> 0" for v :: u32 using that by (simp add: word_less_nat_alt unat_eq_0)
  have "map (the \<circ> gc_optarg) (uses mclstOptions 2 cs) = [dec_string (unat (c_timeoutSec c))] \<or>
      map (the \<circ> gc_optarg) (uses mclstOptions 2 cs) = [] \<and> c_timeoutSec c = 5" using d by blast
  then show "parseTimeoutSecs (map (the \<circ> gc_optarg) (uses mclstOptions 2 cs)) = Finished (c_timeoutSec c)"
    using ok(1,2) one by (elim disjE conjE) (simp_all only: parseTimeoutSecs_def list.case parse_uint32 sum.case, auto simp: not_less)
  have "if c_sender c then map (the \<circ> gc_optarg) (uses mclstOptions 5 cs) = [dec_string (unat (c_ttl c))] \<or>
      map (the \<circ> gc_optarg) (uses mclstOptions 5 cs) = [] \<and> c_ttl c = 255
      else map (the \<circ> gc_optarg) (uses mclstOptions 5 cs) = []" using d by blast
  then show "parseTTL (map (the \<circ> gc_optarg) (uses mclstOptions 5 cs)) (c_sender c) = Finished (c_ttl c)"
    using ok(5,6) one unfolding parseTTL_def by (cases "c_sender c") (auto simp: parse_uint32 not_less)
  have u: "unat (ucast (c_count c) :: u32) = unat (c_count c)"
    using ok(7) by (simp add: unsigned_ucast_eq take_bit_nat_eq_self)
  have "unat (ucast v :: u64) = unat v" for v :: u32
    by (simp add: unsigned_ucast_eq take_bit_nat_eq_self_iff less_trans [OF unat_u32_less])
  then have small: "ucast (ucast (c_count c) :: u32) = c_count c" by (simp only: u word_unat_eq_iff)
  then show "ucast (ucast (c_count c) :: u32) = c_count c" .
  have "map (the \<circ> gc_optarg) (uses mclstOptions 6 cs) = [dec_string (unat (c_count c))] \<or>
      map (the \<circ> gc_optarg) (uses mclstOptions 6 cs) = [] \<and> c_count c = 0" using d by blast
  moreover have "parseDecimalUInt32 (dec_string (unat (c_count c))) = Ok (ucast (c_count c))"
    by (simp only: parse_uint32 flip: u)
  ultimately show "parseCount (map (the \<circ> gc_optarg) (uses mclstOptions 6 cs)) = Finished (ucast (c_count c))"
    by (elim disjE conjE) (simp_all only: parseCount_def list.case sum.case, simp)
qed

text \<open>C17: Every configuration that \<open>mclst\<close> accepts is valid: the interface has its address, the timeout and the
  TTL are in their ranges, the port is 0 exactly for all ports, a sender has a port, and the source is no
  multicast or broadcast address.
\<close>

theorem mclst_config_valid:
  assumes "fromArgs tty tab version getopt_long argv = Some (Finished c)"
  shows "\<exists>t. tab = Ok (Ok t) \<and> config_ok tty t c"
  using assms by (rule fromArgs_ok)

lemma fromArgs_describes:
  assumes g: "buildParser [] mclstHeader mclstOptions = Ok g"
    and calls: "getopt_long argv (gol_shortOpts (fini g)) (gol_longOpts (fini g)) = cs @ [e]" "gc_ret e = -1"
    and opts: "\<forall>k \<in> set cs. \<exists>j < length mclstOptions. names (mclstOptions ! j) j k"
    and desc: "describes c cs" "drop (gc_optind e) (gc_argv e) = [groupText c]"
    and ok: "config_ok tty t c" "c_colors c \<longleftrightarrow> uses mclstOptions 7 cs = [] \<and> tty"
  shows "fromArgs tty (Ok (Ok t)) version getopt_long argv = Some (Finished c)"
proof -
  have acc: "acceptable mclstOptions cs" using desc(1) by (simp add: describes_def)
  obtain r where r: "programArgs mclstHeader mclstOptions getopt_long argv = Some (Finished r)"
    "positional r = [groupText c]" "options_given mclstOptions cs r"
    using programArgs_acceptable [OF g, where getopt_long = getopt_long and argv = argv, OF calls opts acc] desc(2) by auto
  note vals = mclst_values [OF r(3)] describes_values [OF desc(1) ok(1)]
  have flags: "uses mclstOptions 3 cs \<noteq> [] \<longleftrightarrow> c_showPayload c" "uses mclstOptions 4 cs \<noteq> [] \<longleftrightarrow> c_sender c"
    "uses mclstOptions 8 cs \<noteq> [] \<longleftrightarrow> c_showConfig c" "\<not> uses mclstOptions 9 cs \<noteq> []"
    using desc(1) by (simp_all add: describes_def Let_def)
  have "parseGroupPort (groupText c) = Finished (c_group c, c_dport c, c_wildcard c)"
    using ok(1) by (intro parseGroupPort_text) (simp add: config_ok_def)
  moreover have "intfAddrOf t (c_intf c) = Finished (c_intfAddr c)" "\<not> (c_sender c \<and> c_wildcard c)" "c_intfTable c = t"
    using ok(1) by (auto simp: intfAddrOf_ok config_ok_def split: if_splits)
  moreover have "configOf tty r (c_group c, c_dport c, c_wildcard c) t (c_intf c) (c_intfAddr c) = Finished c"
  proof -
    have "c = \<lparr>c_group = c_group c, c_dport = c_dport c, c_wildcard = c_wildcard c, c_intf = c_intf c, c_intfAddr = c_intfAddr c,
        c_source = c_source c, c_timeoutSec = c_timeoutSec c, c_sender = c_sender c, c_ttl = c_ttl c,
        c_count = c_count c, c_showPayload = c_showPayload c, c_colors = (\<not> uses mclstOptions 7 cs \<noteq> [] \<and> tty),
        c_intfTable = t, c_showConfig = c_showConfig c\<rparr>"
      using ok(2) \<open>c_intfTable c = t\<close> by simp
    with \<open>\<not> (c_sender c \<and> c_wildcard c)\<close> show ?thesis
      by (simp only: configOf_def prod.case vals(2-9) run_cli_simps run_bind_simps vals(12-16) flags if_False simp_thms)
  qed
  ultimately have "configFromArgs tty (Ok (Ok t)) version r = Finished c"
    by (simp add: configFromArgs_def vals(1,10) r(2) vals(11) flags)
  then show ?thesis by (simp add: fromArgs_def r(1))
qed

text \<open>C18: Every valid configuration is what \<open>mclst\<close> gets from the command lines that describe it: the group,
  with the port unless all ports are meant, the name of the interface, and the values and flags that differ
  from the defaults.  The group can be any address, multicast or not.
\<close>

theorem mclst_args_roundtrip:
  assumes "buildParser [] mclstHeader mclstOptions = Ok g"
    and "getopt_long argv (gol_shortOpts (fini g)) (gol_longOpts (fini g)) = cs @ [e]" and "gc_ret e = -1"
    and "\<forall>k \<in> set cs. \<exists>j < length mclstOptions. names (mclstOptions ! j) j k"
    and "describes c cs" and "drop (gc_optind e) (gc_argv e) = [groupText c]"
    and "config_ok tty t c" and "c_colors c \<longleftrightarrow> uses mclstOptions 7 cs = [] \<and> tty"
  shows "fromArgs tty (Ok (Ok t)) version getopt_long argv = Some (Finished c)"
  using assms by (rule fromArgs_describes)

text \<open>A concrete command line, \<open>mclst -i eth0 10.1.1.1:5000\<close>.\<close>

lemma mclst_parser: "\<exists>g. buildParser [] mclstHeader mclstOptions = Ok g"
proof -
  have "declarations_ok mclstOptions"
    by (simp add: declarations_ok_def mclstOptions_def option_ids valid_declaration.simps valid_name_def
        is_alnum_def distinct_options_def table_def helpOption_def newOption_def)
  then show ?thesis
    using buildParser_cases [where prog = "[]" and helpLegend = mclstHeader and ds = mclstOptions]
    by (auto split: sum.splits)
qed

definition sampleConfigMclst :: Config where
  "sampleConfigMclst =
     \<lparr>c_group = ofOctets 10 1 1 1, c_dport = 5000, c_wildcard = False, c_intf = ''eth0'',
      c_intfAddr = ofOctets 10 0 0 9, c_source = IPv4Address 0, c_timeoutSec = 5, c_sender = False, c_ttl = 0,
      c_count = 0, c_showPayload = False, c_colors = True, c_intfTable = sampleTable, c_showConfig = False\<rparr>"

definition sampleCalls :: "getopt_call list" where
  "sampleCalls = [\<lparr>gc_ret = of_char CHR ''i'', gc_optarg = Some ''eth0'', gc_optopt = 0, gc_optind = 3, gc_argv = []\<rparr>]"

lemma sample_config_ok: "config_ok True sampleTable sampleConfigMclst"
proof -
  have "\<not> isMcast (IPv4Address 0)" "\<not> isLocalBroadcast (IPv4Address 0)" by code_simp+
  then show ?thesis by (simp add: config_ok_def sampleConfigMclst_def sampleTable_def byName_def)
qed

lemma names_sample: "k \<noteq> 0 \<Longrightarrow> k < length mclstOptions \<Longrightarrow> uses mclstOptions k sampleCalls = []"
  "uses mclstOptions 0 sampleCalls = sampleCalls"
  by (auto simp: mclstOptions_def uses_def names_def sampleCalls_def less_Suc_eq)

lemma sample_describes: "describes sampleConfigMclst sampleCalls"
proof -
  have n: "length mclstOptions = 10" by (simp add: mclstOptions_def)
  have one: "oi_optional (option_of (mclstOptions ! 0))" by (simp add: mclstOptions_def newOption_def)
  have "acceptable mclstOptions sampleCalls"
    unfolding acceptable_def
  proof (intro allI impI)
    fix k assume "k < length mclstOptions"
    moreover have "\<forall>k < length mclstOptions. oi_flag (option_of (mclstOptions ! k)) \<or> oi_optional (option_of (mclstOptions ! k))"
      by (simp add: mclstOptions_def newOption_def less_Suc_eq all_conj_distrib)
    ultimately show "oi_flag (option_of (mclstOptions ! k)) \<or>
       (\<forall>c \<in> set (uses mclstOptions k sampleCalls). gc_optarg c \<noteq> None) \<and>
       (oi_multiple (option_of (mclstOptions ! k)) \<or> length (uses mclstOptions k sampleCalls) \<le> 1) \<and>
       (oi_optional (option_of (mclstOptions ! k)) \<or> uses mclstOptions k sampleCalls \<noteq> [])"
      using names_sample(1) [of k] names_sample(2) by (cases "k = 0") (auto simp: sampleCalls_def)
  qed
  then show ?thesis
    using names_sample by (simp add: describes_def n) (simp add: sampleConfigMclst_def sampleCalls_def isDefault_def DefaultAddressValue_def)
qed

lemma sample_names: "\<forall>k \<in> set sampleCalls. \<exists>j < length mclstOptions. names (mclstOptions ! j) j k"
proof -
  have "names (mclstOptions ! 0) 0 (hd sampleCalls)" "0 < length mclstOptions"
    by (simp_all add: mclstOptions_def names_def sampleCalls_def)
  then show ?thesis by (auto simp: sampleCalls_def)
qed

definition sampleLast :: getopt_call where
  "sampleLast = \<lparr>gc_ret = -1, gc_optarg = None, gc_optopt = 0, gc_optind = 0, gc_argv = [groupText sampleConfigMclst]\<rparr>"

definition sampleGetopt :: getopt where
  "sampleGetopt argv so lo = sampleCalls @ [sampleLast]"

lemma mclst_args_roundtrip_witness:
  "fromArgs True (Ok (Ok sampleTable)) [] sampleGetopt [] = Some (Finished sampleConfigMclst)"
proof -
  obtain g where g: "buildParser [] mclstHeader mclstOptions = Ok g" using mclst_parser by blast
  have colors: "c_colors sampleConfigMclst \<longleftrightarrow> uses mclstOptions 7 sampleCalls = [] \<and> True"
    using names_sample(1) [of 7] by (simp add: sampleConfigMclst_def) (simp add: mclstOptions_def)
  show ?thesis
    by (rule mclst_args_roundtrip [OF g, where cs = sampleCalls and e = sampleLast, OF _ _ sample_names sample_describes _ sample_config_ok colors])
      (simp_all add: sampleGetopt_def sampleLast_def)
qed

lemma mclst_config_valid_witness: 
  "\<exists>t. (Ok (Ok sampleTable) :: (string, (string, IntfTable) outcome) outcome) = Ok (Ok t) \<and>
    config_ok True t sampleConfigMclst"
proof -
  obtain g where g: "buildParser [] mclstHeader mclstOptions = Ok g" using mclst_parser by blast
  have colors: "c_colors sampleConfigMclst \<longleftrightarrow> uses mclstOptions 7 sampleCalls = [] \<and> True"
    using names_sample(1) [of 7] by (simp add: sampleConfigMclst_def) (simp add: mclstOptions_def)
  have "fromArgs True (Ok (Ok sampleTable)) [] sampleGetopt [] = Some (Finished sampleConfigMclst)"
    by (rule fromArgs_describes [OF g, where cs = sampleCalls and e = sampleLast, OF _ _ sample_names sample_describes _ sample_config_ok colors])
      (simp_all add: sampleGetopt_def sampleLast_def)
  then show ?thesis by (rule mclst_config_valid)
qed

end
