(* ===== verification/MclstBeacon.thy ===== *)
theory MclstBeacon
  imports MclstConfig PIMPackets
begin

text \<open>
  The packets of \<open>mclst\<close>: the beacon (\<open>apps/mclst/MclstBeacon.hpp\<close>), the packet of a sender (\<open>Sender.cpp\<close>),
  the information on a received packet (\<open>PacketInfo.hpp\<close>), and how the receivers of UDP and of raw IP packets
  dissect one (\<open>Receiver.hpp\<close>, \<open>IPRawReceiver.hpp\<close>, \<open>ReceiverBase.hpp\<close>).
\<close>

section \<open>The beacon\<close>

text \<open>Integers of 64 bits in memory, as in the theory of the packet memory.\<close>

definition bytes_of64 :: "u64 \<Rightarrow> u8 list" where
  "bytes_of64 v = map (\<lambda>i. ucast (drop_bit (56 - 8 * i) v)) [0..<8]"

definition host_bytes64 :: "bool \<Rightarrow> u64 \<Rightarrow> u8 list" where
  "host_bytes64 le v = (if le then rev (bytes_of64 v) else bytes_of64 v)"

definition host_value64 :: "bool \<Rightarrow> u8 list \<Rightarrow> u64" where
  "host_value64 le bs = of_bytes 0 (if le then rev bs else bs)"

definition htobe64 :: "bool \<Rightarrow> u64 \<Rightarrow> u64" where
  "htobe64 le v = (if le then of_bytes 0 (rev (bytes_of64 v)) else v)"

abbreviation be64toh :: "bool \<Rightarrow> u64 \<Rightarrow> u64" where "be64toh \<equiv> htobe64"

definition get64 :: "bool \<Rightarrow> nat option \<Rightarrow> nat \<Rightarrow> u8 list \<Rightarrow> u64 option" where
  "get64 le ptr off m = map_option (host_value64 le) (get_bytes ptr off 8 m)"

definition MclstMagic :: u64 where "MclstMagic = 11899030981529723792"

text \<open>The packed header: the fields at the offsets 0, 8, 16 and 24, in the byte order of the network.\<close>

definition MclstBeaconHdrSize :: nat where "MclstBeaconHdrSize = 26"

definition beaconHdr :: "bool \<Rightarrow> u64 \<Rightarrow> u64 \<Rightarrow> u64 \<Rightarrow> u16 \<Rightarrow> u8 list" where
  "beaconHdr le magic sq timeNs dataLen =
     host_bytes64 le magic @ host_bytes64 le sq @ host_bytes64 le timeNs @ host_bytes16 le dataLen"

text \<open>
  The packet of a sender; its message is the name of the host, whose length is that of the C string, and is
  sent without its terminator.
\<close>

definition beaconPacket :: "bool \<Rightarrow> string \<Rightarrow> u64 \<Rightarrow> u64 \<Rightarrow> u8 list" where
  "beaconPacket le hostname sq timeNs =
     (let msg = takeWhile (\<lambda>c. c \<noteq> CHR 0x00) hostname in
      beaconHdr le (htobe64 le MclstMagic) (htobe64 le sq) (htobe64 le timeNs) (htons le (of_nat (length msg))) @
      map of_char msg)"

section \<open>Received packets\<close>

definition BufferSize :: nat where "BufferSize = 67584"

text \<open>The pointers into the buffer of the received data are offsets.\<close>

record PacketInfo =
  pi_timestamp :: u64
  pi_source :: IPv4Address
  pi_sport :: u16
  pi_group :: IPv4Address
  pi_dport :: u16
  pi_ifIndex :: u32
  pi_ttl :: int
  pi_receivedData :: "u8 list"
  pi_receivedSize :: u32
  pi_payload :: nat
  pi_payloadSize :: u32
  pi_mclstBeacon :: bool
  pi_remoteSeq :: u64
  pi_remoteTimestamp :: u64
  pi_remoteMsgLen :: u64
  pi_remoteMsg :: nat

definition pi_reset :: "PacketInfo \<Rightarrow> PacketInfo" where
  "pi_reset pki = pki\<lparr>pi_timestamp := 0, pi_ifIndex := 0, pi_ttl := -1, pi_mclstBeacon := False\<rparr>"

text \<open>The text \<open>source:port->group:port\<close> of a packet.\<close>

definition flowText :: "PacketInfo \<Rightarrow> string" where
  "flowText pki = addr_string (pi_source pki) @ '':'' @ dec_string (unat (pi_sport pki)) @ ''->'' @
     addr_string (pi_group pki) @ '':'' @ dec_string (unat (pi_dport pki))"

text \<open>
  The dissection of the payload returns the packet with its warnings; \<open>None\<close> is a read outside the buffer.
\<close>

definition beaconOf :: "bool \<Rightarrow> nat \<Rightarrow> PacketInfo \<Rightarrow> PacketInfo option" where
  "beaconOf le p pki =
     (let m = pi_receivedData pki in
      Option.bind (get64 le (Some p) 0 m) (\<lambda>magic.
      if be64toh le magic = MclstMagic then
        Option.bind (get64 le (Some p) 8 m) (\<lambda>sq.
        Option.bind (get64 le (Some p) 16 m) (\<lambda>timeNs.
        Option.bind (get16 le (Some p) 24 m) (\<lambda>dataLen.
        Some (pki\<lparr>pi_mclstBeacon := True, pi_remoteSeq := be64toh le sq, pi_remoteTimestamp := be64toh le timeNs,
          pi_remoteMsgLen := ucast (ntohs le dataLen)\<rparr>))))
      else Some pki))"

definition dissectMclstBeaconPayload :: "bool \<Rightarrow> PacketInfo \<Rightarrow> (string list \<times> PacketInfo) option" where
  "dissectMclstBeaconPayload le pki =
     (case pv_take (of_nat MclstBeaconHdrSize) (newPacketView (int (pi_payload pki)) (ucast (pi_payloadSize pki))) of
        (None, pv) \<Rightarrow> Some ([], pki)
      | (Some p, pv) \<Rightarrow>
          Option.bind (beaconOf le (nat p) pki) (\<lambda>pki.
          if \<not> pi_mclstBeacon pki then Some ([], pki)
          else (case pv_take (pi_remoteMsgLen pki) pv of
              (Some q, pv) \<Rightarrow> Some ([], pki\<lparr>pi_remoteMsg := nat q\<rparr>)
            | (None, pv) \<Rightarrow>
                Some ([flowText pki @ '': in message #'' @ dec_string (unat (pi_remoteSeq pki)) @ '' length is '' @
                    dec_string (unat (pi_remoteMsgLen pki)) @ '', but the remaining length is '' @
                    dec_string (unat (pv_remaining pv))],
                  pki\<lparr>pi_mclstBeacon := False\<rparr>))))"

datatype PacketStatus = Filtered | AcceptedNoShow | AcceptedShow

definition ps_code :: "PacketStatus \<Rightarrow> u32" where
  "ps_code s = (case s of Filtered \<Rightarrow> 0 | AcceptedNoShow \<Rightarrow> 1 | AcceptedShow \<Rightarrow> 3)"

text \<open>The receiver of UDP packets; the sender is an address and a port in the network byte order.\<close>

definition processUDP ::
    "bool \<Rightarrow> Config \<Rightarrow> u32 \<times> u16 \<Rightarrow> PacketInfo \<Rightarrow> (string list \<times> PacketStatus \<times> PacketInfo) option" where
  "processUDP le cfg sender pki =
     (case sender of (saddr, sport) \<Rightarrow>
        map_option (\<lambda>(ws, pki). (ws, AcceptedShow, pki))
          (dissectMclstBeaconPayload le
            (pki\<lparr>pi_dport := c_dport cfg, pi_source := from_nl le saddr, pi_sport := ntohs le sport,
               pi_payload := 0, pi_payloadSize := pi_receivedSize pki\<rparr>)))"

text \<open>
  The receiver of raw IP packets.  \<open>rawDatagram\<close> is the part from the UDP header at \<open>udp\<close> on, with the view
  after it.
\<close>

definition UDPHdrSize :: nat where "UDPHdrSize = 8"

definition UDPProto :: u8 where "UDPProto = 17"

definition udpSizeText :: "PacketInfo \<Rightarrow> u16 \<Rightarrow> string \<Rightarrow> string" where
  "udpSizeText pki udpSize problem =
     ''in packet '' @ flowText pki @ '' UDP size '' @ dec_string (unat udpSize) @ '' '' @ problem"

definition rawPayload ::
    "bool \<Rightarrow> u16 \<Rightarrow> PacketView \<Rightarrow> PacketInfo \<Rightarrow> (string list \<times> PacketStatus \<times> PacketInfo) option" where
  "rawPayload le len pv pki =
     (let remSize = pv_remaining pv; udpSize = len - of_nat UDPHdrSize;
          dataSize = ''size of the data after the IPv4 and UDP headers, which is '' @ dec_string (unat remSize) in
      if len < of_nat UDPHdrSize then
        Some ([udpSizeText pki len (''is less than the UDP header size '' @ dec_string UDPHdrSize)], AcceptedNoShow, pki)
      else if ucast udpSize > remSize then
        Some ([udpSizeText pki udpSize (''is larger than the '' @ dataSize)], AcceptedNoShow, pki)
      else
        map_option (\<lambda>(ws, pki).
            ((if ucast udpSize < remSize then [udpSizeText pki udpSize (''is less than the '' @ dataSize)] else []) @ ws,
             AcceptedShow, pki))
          (dissectMclstBeaconPayload le
            (pki\<lparr>pi_payload := unat (pv_taken pv), pi_payloadSize := ucast udpSize\<rparr>)))"

definition rawDatagram ::
    "bool \<Rightarrow> nat option \<Rightarrow> nat option \<Rightarrow> PacketView \<Rightarrow> PacketInfo \<Rightarrow> (string list \<times> PacketStatus \<times> PacketInfo) option" where
  "rawDatagram le ip udp pv pki =
     (let m = pi_receivedData pki in
      Option.bind (hv_saddr le ip m) (\<lambda>saddr.
      Option.bind (uv_sport le udp m) (\<lambda>sport.
      Option.bind (uv_dport le udp m) (\<lambda>dport.
      Option.bind (hv_ttl ip m) (\<lambda>ttl.
      Option.bind (uv_len le udp m) (\<lambda>len.
        let pki = pki\<lparr>pi_source := from_nl le saddr, pi_sport := ntohs le sport, pi_dport := ntohs le dport\<rparr>;
            ws = (if pi_ttl pki \<noteq> uint ttl
              then [''in packet '' @ flowText pki @ '' TTL received from recvmsg() is '' @ int_text (pi_ttl pki) @
                '' whereas the TTL in the IPv4 header is '' @ dec_string (unat ttl) @ '', overriding'']
              else [])
        in map_option (\<lambda>(ws', st, pki). (ws @ ws', st, pki))
             (rawPayload le (ntohs le len) pv (pki\<lparr>pi_ttl := uint ttl\<rparr>))))))))"

definition processRaw ::
    "bool \<Rightarrow> u32 \<Rightarrow> PacketInfo \<Rightarrow> (string list \<times> PacketStatus \<times> PacketInfo) option" where
  "processRaw le groupNl pki =
     (let m = pi_receivedData pki; size = dec_string (unat (pi_receivedSize pki)); hdrSize = dec_string IPv4HdrSize in
      case pv_take (of_nat IPv4HdrSize) (newPacketView 0 (ucast (pi_receivedSize pki))) of
        (None, pv) \<Rightarrow>
          Some ([''recvmsg() returned size '' @ size @ '' which is smaller than the minimum IPv4 header size '' @ hdrSize],
            Filtered, pki)
      | (Some p, pv) \<Rightarrow>
          let ip = Some (nat p) in
          Option.bind (hv_daddr le ip m) (\<lambda>daddr.
          if daddr \<noteq> groupNl then Some ([], Filtered, pki)
          else Option.bind (hv_protocol ip m) (\<lambda>proto.
          if proto \<noteq> UDPProto then Some ([], Filtered, pki)
          else Option.bind (hv_headerSizeBytes ip m) (\<lambda>eff.
          if eff < of_nat IPv4HdrSize then
            Some ([''corrupted IPv4 header: header size in header is '' @ dec_string (unat eff) @
              '' whereas the minimum header size is '' @ hdrSize], AcceptedNoShow, pki)
          else (case pv_skip (ucast eff - of_nat IPv4HdrSize) pv of
              (False, pv) \<Rightarrow>
                Some ([''recvmsg() returned size '' @ size @ '' which is smaller than the actual IPv4 header size '' @
                  hdrSize], AcceptedNoShow, pki)
            | (True, pv) \<Rightarrow>
                (case pv_take (of_nat UDPHdrSize) pv of
                   (None, pv) \<Rightarrow>
                     Some ([''recvmsg() returned size '' @ size @ '' which is insufficient for IPv4 and UDP headers ('' @
                       dec_string (unat eff) @ '' + '' @ dec_string UDPHdrSize @ '' = '' @
                       dec_string (unat eff + UDPHdrSize) @ '')''], AcceptedNoShow, pki)
                 | (Some q, pv) \<Rightarrow> rawDatagram le ip (Some (nat q)) pv pki))))))"

section \<open>Views of received data\<close>

text \<open>A view of \<open>n\<close> bytes at the offset \<open>d\<close> of which \<open>k\<close> are taken; the sizes are far from wrapping.\<close>

definition view :: "nat \<Rightarrow> nat \<Rightarrow> nat \<Rightarrow> PacketView" where
  "view d n k = \<lparr>pv_data = int d, pv_len = of_nat n, pv_taken = of_nat k\<rparr>"

lemma unat_small: "n < 2 ^ 62 \<Longrightarrow> unat (of_nat n :: u64) = n"
  by (simp add: unat_of_nat)

lemma view_take:
  assumes "n < 2 ^ 60" "k \<le> n" "sz < 2 ^ 60"
  shows "pv_take (of_nat sz) (view d n k) = (if k + sz \<le> n then (Some (int (d + k)), view d n (k + sz)) else (None, view d n k))"
    and "pv_skip (of_nat sz) (view d n k) = (if k + sz \<le> n then (True, view d n (k + sz)) else (False, view d n k))"
    and "pv_remaining (view d n k) = of_nat (n - k)" and "unat (pv_taken (view d n k)) = k"
proof -
  have sum: "of_nat k + of_nat sz = (of_nat (k + sz) :: u64)" by simp
  have "(2::nat) ^ 60 + 2 ^ 60 < 2 ^ 62" by simp
  with assms have small: "k + sz < 2 ^ 62" "n < 2 ^ 62" by linarith+
  have le: "of_nat k + of_nat sz \<le> (of_nat n :: u64) \<longleftrightarrow> k + sz \<le> n"
    by (simp only: sum word_le_nat_alt unat_small [OF small(1)] unat_small [OF small(2)])
  have k: "unat (of_nat k :: u64) = k" using small assms(2) by (intro unat_small) linarith
  then have "uint (of_nat k :: u64) = int k" by (simp only: uint_nat)
  then show "pv_take (of_nat sz) (view d n k) = (if k + sz \<le> n then (Some (int (d + k)), view d n (k + sz)) else (None, view d n k))"
    using le by (simp add: pv_take_def view_def)
  show "pv_skip (of_nat sz) (view d n k) = (if k + sz \<le> n then (True, view d n (k + sz)) else (False, view d n k))"
    using le by (simp add: pv_skip_def view_def)
  show "pv_remaining (view d n k) = of_nat (n - k)" using assms(2) by (simp add: pv_remaining_def view_def)
  show "unat (pv_taken (view d n k)) = k" using k by (simp add: view_def)
qed

lemma newPacketView_view: "newPacketView (int d) (ucast (v :: u32)) = view d (unat v) 0"
  by (simp add: newPacketView_def view_def)

lemma bytes_at: "p + off + n \<le> length m \<Longrightarrow> get_bytes (Some p) off n m = Some (take n (drop (p + off) m))"
  by (simp add: get_bytes_def peek_def)

text \<open>The integers in the byte order of the network.\<close>

definition be16_at :: "nat \<Rightarrow> u8 list \<Rightarrow> u16" where
  "be16_at p d = of_bytes 0 (take 2 (drop p d))"

definition be32_at :: "nat \<Rightarrow> u8 list \<Rightarrow> u32" where
  "be32_at p d = of_bytes 0 (take 4 (drop p d))"

definition be64_at :: "nat \<Rightarrow> u8 list \<Rightarrow> u64" where
  "be64_at p d = of_bytes 0 (take 8 (drop p d))"

lemma length_8E:
  assumes "length bs = 8" obtains a b c d e f g h where "bs = [a, b, c, d, e, f, g, h]"
  using assms by (auto simp: eval_nat_numeral length_Suc_conv)

lemma bytes_of_bytes64: "bytes_of64 (of_bytes 0 [a, b, c, d, e, f, g, h]) = [a, b, c, d, e, f, g, h]"
proof -
  have "bytes_of64 v = [ucast (drop_bit 56 v), ucast (drop_bit 48 v), ucast (drop_bit 40 v), ucast (drop_bit 32 v),
      ucast (drop_bit 24 v), ucast (drop_bit 16 v), ucast (drop_bit 8 v), ucast v]" for v
    by (simp add: bytes_of64_def upt_rec)
  then show ?thesis by (auto simp: of_bytes.simps bit_simps intro!: bit_word_eqI)
qed

lemma be_host_value64: "length bs = 8 \<Longrightarrow> be64toh le (host_value64 le bs) = of_bytes 0 bs"
  using bytes_of_bytes64 by (elim length_8E) (simp add: htobe64_def host_value64_def)

lemma get_be:
  "p + off + 8 \<le> length m \<Longrightarrow> \<exists>v. get64 le (Some p) off m = Some v \<and> be64toh le v = be64_at (p + off) m"
  "p + off + 4 \<le> length m \<Longrightarrow> \<exists>v. get32 le (Some p) off m = Some v \<and> ntohl le v = be32_at (p + off) m"
  "p + off + 2 \<le> length m \<Longrightarrow> \<exists>v. get16 le (Some p) off m = Some v \<and> ntohs le v = be16_at (p + off) m"
  by (simp_all add: get64_def get32_def get16_def bytes_at be_host_value64 ntoh_host_value be64_at_def be32_at_def
      be16_at_def)

section \<open>The receiver of raw packets\<close>

text \<open>
  What the bytes of a packet say: its IP header length, and the UDP length after it.  A datagram is complete
  if its headers and its UDP length fit into the received bytes.
\<close>

definition ipHdrLen :: "u8 list \<Rightarrow> nat" where
  "ipHdrLen d = 4 * unat (take_bit 4 (d ! 0))"

definition for_group :: "IPv4Address \<Rightarrow> u8 list \<Rightarrow> bool" where
  "for_group g d \<longleftrightarrow> 20 \<le> length d \<and> be32_at 16 d = addr_val g \<and> d ! 9 = 17"

definition complete_datagram :: "u8 list \<Rightarrow> bool" where
  "complete_datagram d \<longleftrightarrow>
     (let h = ipHdrLen d; len = unat (be16_at (h + 4) d) in
      20 \<le> h \<and> h + 8 \<le> length d \<and> 8 \<le> len \<and> h + len \<le> length d)"

text \<open>The received bytes of a packet, and packets of which a read inside the received bytes is defined.\<close>

definition received :: "PacketInfo \<Rightarrow> u8 list" where
  "received pki = take (unat (pi_receivedSize pki)) (pi_receivedData pki)"

definition received_ok :: "PacketInfo \<Rightarrow> bool" where
  "received_ok pki \<longleftrightarrow> unat (pi_receivedSize pki) \<le> length (pi_receivedData pki)"

text \<open>The beacon of a payload, if it starts with a complete one.\<close>

definition beacon_in :: "u8 list \<Rightarrow> bool" where
  "beacon_in b \<longleftrightarrow> 26 \<le> length b \<and> be64_at 0 b = MclstMagic \<and> 26 + unat (be16_at 24 b) \<le> length b"

definition dissected :: "u8 list \<Rightarrow> PacketInfo \<Rightarrow> bool" where
  "dissected b pki \<longleftrightarrow>
     (pi_mclstBeacon pki \<longleftrightarrow> beacon_in b) \<and>
     (beacon_in b \<longrightarrow> pi_remoteSeq pki = be64_at 8 b \<and> pi_remoteTimestamp pki = be64_at 16 b \<and>
        unat (pi_remoteMsgLen pki) = unat (be16_at 24 b) \<and> pi_remoteMsg pki = pi_payload pki + 26)"

lemma be_at_sub:
  "off + 8 \<le> n \<Longrightarrow> be64_at off (take n (drop p m)) = be64_at (p + off) m"
  "off + 4 \<le> n \<Longrightarrow> be32_at off (take n (drop p m)) = be32_at (p + off) m"
  "off + 2 \<le> n \<Longrightarrow> be16_at off (take n (drop p m)) = be16_at (p + off) m"
  by (simp_all add: be64_at_def be32_at_def be16_at_def drop_take min_def add.commute)

text \<open>Everything but what the beacon tells.\<close>

definition same_packet :: "PacketInfo \<Rightarrow> PacketInfo \<Rightarrow> bool" where
  "same_packet pki pki' \<longleftrightarrow> pi_timestamp pki' = pi_timestamp pki \<and> pi_source pki' = pi_source pki \<and>
     pi_sport pki' = pi_sport pki \<and> pi_group pki' = pi_group pki \<and> pi_dport pki' = pi_dport pki \<and>
     pi_ifIndex pki' = pi_ifIndex pki \<and> pi_ttl pki' = pi_ttl pki \<and> pi_receivedData pki' = pi_receivedData pki \<and>
     pi_receivedSize pki' = pi_receivedSize pki \<and> pi_payload pki' = pi_payload pki \<and>
     pi_payloadSize pki' = pi_payloadSize pki"

lemma dissect_correct:
  assumes fits: "pi_payload pki + unat (pi_payloadSize pki) \<le> length (pi_receivedData pki)"
    and new: "\<not> pi_mclstBeacon pki"
    and b_def: "b = take (unat (pi_payloadSize pki)) (drop (pi_payload pki) (pi_receivedData pki))"
  shows "\<exists>ws pki'. dissectMclstBeaconPayload le pki = Some (ws, pki') \<and> dissected b pki' \<and> same_packet pki pki' \<and>
    (ws = [] \<longleftrightarrow> \<not> (26 \<le> length b \<and> be64_at 0 b = MclstMagic \<and> length b < 26 + unat (be16_at 24 b)))"
proof -
  let ?d = "pi_payload pki" and ?n = "unat (pi_payloadSize pki)" and ?m = "pi_receivedData pki"
  have n: "?n < 2 ^ 60" by (rule less_trans [OF unat_u32_less]) simp
  have len: "length b = ?n" using fits by (simp add: b_def)
  note view = newPacketView_view view_take(1) [OF n le0, where d = ?d and sz = MclstBeaconHdrSize]
  show ?thesis
  proof (cases "26 \<le> ?n")
    case False
    then have "dissectMclstBeaconPayload le pki = Some ([], pki)"
      using view by (simp add: dissectMclstBeaconPayload_def MclstBeaconHdrSize_def)
    with False new len show ?thesis by (simp add: dissected_def beacon_in_def same_packet_def)
  next
    case True
    have sub: "be64_at 0 b = be64_at ?d ?m" "be64_at 8 b = be64_at (?d + 8) ?m" "be64_at 16 b = be64_at (?d + 16) ?m"
      "be16_at 24 b = be16_at (?d + 24) ?m"
      using True be_at_sub [of _ ?n ?d ?m] by (simp_all add: b_def)
    obtain magic where magic: "get64 le (Some ?d) 0 ?m = Some magic" "be64toh le magic = be64_at 0 b"
      using get_be(1) [of ?d 0 ?m le] True fits sub by auto
    obtain sq where sq: "get64 le (Some ?d) 8 ?m = Some sq" "be64toh le sq = be64_at 8 b"
      using get_be(1) [of ?d 8 ?m le] True fits sub by auto
    obtain tm where tm: "get64 le (Some ?d) 16 ?m = Some tm" "be64toh le tm = be64_at 16 b"
      using get_be(1) [of ?d 16 ?m le] True fits sub by auto
    obtain dl where dl: "get16 le (Some ?d) 24 ?m = Some dl" "ntohs le dl = be16_at 24 b"
      using get_be(3) [of ?d 24 ?m le] True fits sub by auto
    have take1: "pv_take (of_nat MclstBeaconHdrSize) (newPacketView (int ?d) (ucast (pi_payloadSize pki))) =
        (Some (int ?d), view ?d ?n 26)"
      using view True by (simp add: MclstBeaconHdrSize_def)
    show ?thesis
    proof (cases "be64_at 0 b = MclstMagic")
      case False
      then have "beaconOf le ?d pki = Some pki" using magic by (simp add: beaconOf_def)
      then have "dissectMclstBeaconPayload le pki = Some ([], pki)"
        using take1 new by (simp add: dissectMclstBeaconPayload_def)
      with False new show ?thesis by (simp add: dissected_def beacon_in_def same_packet_def)
    next
      case magical: True
      let ?k = "unat (be16_at 24 b)"
      let ?p = "pki\<lparr>pi_mclstBeacon := True, pi_remoteSeq := be64_at 8 b, pi_remoteTimestamp := be64_at 16 b,
          pi_remoteMsgLen := of_nat ?k\<rparr>"
      have beacon: "beaconOf le ?d pki = Some ?p"
        using magic sq tm dl magical by (simp add: beaconOf_def)
      have k: "?k < 2 ^ 60" by (rule less_trans [OF unat_u16_less]) simp
      have k': "unat (of_nat ?k :: u64) = ?k" by (rule unat_small [OF less_trans [OF unat_u16_less]]) simp
      note take2 = view_take(1) [OF n True k, where d = ?d]
      show ?thesis
      proof (cases "26 + ?k \<le> ?n")
        case True
        then have "dissectMclstBeaconPayload le pki = Some ([], ?p\<lparr>pi_remoteMsg := ?d + 26\<rparr>)"
          using take1 beacon take2 by (simp add: dissectMclstBeaconPayload_def nat_add_distrib)
        with True magical len k' show ?thesis by (simp add: dissected_def beacon_in_def same_packet_def)
      next
        case False
        then have "\<exists>w. dissectMclstBeaconPayload le pki = Some ([w], ?p\<lparr>pi_mclstBeacon := False\<rparr>)"
          using take1 beacon take2 by (simp add: dissectMclstBeaconPayload_def)
        with False magical len \<open>26 \<le> ?n\<close> show ?thesis by (auto simp: dissected_def beacon_in_def same_packet_def)
      qed
    qed
  qed
qed

lemma byte_at: "p + off < length m \<Longrightarrow> get8 (Some p) off m = Some (m ! (p + off))"
  by (simp add: get8_def bytes_at hd_drop_conv_nth take_Suc_conv_app_nth hd_append)

lemma header_size_at:
  assumes "0 < length m"
  shows "\<exists>eff. hv_headerSizeBytes (Some 0) m = Some eff \<and> unat eff = ipHdrLen m"
proof -
  have "get_bytes (Some 0) 0 1 m = Some [m ! 0]"
    using assms by (cases m) (simp_all add: get_bytes_def peek_def)
  then have "hv_ihl (Some 0) m = Some (take_bit 4 (m ! 0))" by (simp add: hv_ihl_def get_field_bits_def get_bits_def)
  then have "hv_headerSizeBytes (Some 0) m = Some (push_bit 2 (ucast (take_bit 4 (m ! 0))))"
    by (simp add: hv_headerSizeBytes_def)
  moreover have "unat (push_bit 2 (ucast (take_bit 4 (m ! 0))) :: u16) = ipHdrLen m"
  proof -
    have "take_bit 4 (unat (m ! 0)) < 2 ^ 4" by (rule take_bit_nat_less_exp)
    then have small: "unat (take_bit 4 (m ! 0)) < 16" by (simp add: unsigned_take_bit_eq)
    then have "unat (ucast (take_bit 4 (m ! 0)) :: u16) = unat (take_bit 4 (m ! 0))"
      by (simp add: unsigned_ucast_eq take_bit_nat_eq_self)
    then show ?thesis using small by (simp add: push_bit_eq_mult unat_word_ariths ipHdrLen_def)
  qed
  ultimately show ?thesis by blast
qed

lemma rawPayload_correct:
  assumes small: "n < 2 ^ 60" "k \<le> n" "n \<le> length (pi_receivedData pki)" and new: "\<not> pi_mclstBeacon pki"
  shows "if 8 \<le> unat len \<and> k + (unat len - 8) \<le> n
    then \<exists>ws pki'. rawPayload le len (view 0 n k) pki = Some (ws, AcceptedShow, pki') \<and>
      same_packet (pki\<lparr>pi_payload := k, pi_payloadSize := ucast len - 8\<rparr>) pki' \<and>
      unat (pi_payloadSize pki') = unat len - 8 \<and>
      dissected (take (unat len - 8) (drop k (pi_receivedData pki))) pki'
    else \<exists>w. rawPayload le len (view 0 n k) pki = Some ([w], AcceptedNoShow, pki)"
proof (cases "8 \<le> unat len")
  case False
  then have "len < of_nat UDPHdrSize" by (simp add: UDPHdrSize_def word_less_nat_alt)
  with False show ?thesis by (simp add: rawPayload_def Let_def)
next
  case True
  have ge: "\<not> len < of_nat UDPHdrSize" using True by (simp add: UDPHdrSize_def word_less_nat_alt)
  have "(8 :: u16) \<le> len" using True by (simp add: word_le_nat_alt)
  then have sub: "unat (len - of_nat UDPHdrSize) = unat len - 8" by (simp add: UDPHdrSize_def unat_sub)
  have size: "unat (ucast (len - of_nat UDPHdrSize) :: u32) = unat len - 8"
    "unat (ucast (len - of_nat UDPHdrSize) :: u64) = unat len - 8"
    using less_trans [OF unat_u16_less [of "len - of_nat UDPHdrSize"]]
    by (simp_all add: unsigned_ucast_eq take_bit_nat_eq_self sub)
  have rem: "unat (pv_remaining (view 0 n k)) = n - k"
  proof -
    have "pv_remaining (view 0 n k) = of_nat (n - k)"
      by (rule view_take(3) [OF small(1,2), where sz = 0]) simp
    moreover have "n - k < 2 ^ 62" using small(1) by simp
    ultimately show ?thesis by (simp only: unat_small)
  qed
  have cmp: "ucast (len - of_nat UDPHdrSize) > pv_remaining (view 0 n k) \<longleftrightarrow> n - k < unat len - 8"
    by (simp add: word_less_nat_alt size rem)
  show ?thesis
  proof (cases "k + (unat len - 8) \<le> n")
    case False
    then have "n - k < unat len - 8" using small(2) by linarith
    with cmp ge have "\<exists>w. rawPayload le len (view 0 n k) pki = Some ([w], AcceptedNoShow, pki)"
      by (simp add: rawPayload_def Let_def)
    with False show ?thesis by auto
  next
    case fits: True
    then have less: "\<not> ucast (len - of_nat UDPHdrSize) > pv_remaining (view 0 n k)" using cmp by linarith
    have taken: "unat (pv_taken (view 0 n k)) = k" by (rule view_take(4) [OF small(1,2), where sz = 0]) simp
    let ?p = "pki\<lparr>pi_payload := k, pi_payloadSize := ucast (len - of_nat UDPHdrSize)\<rparr>"
    have "pi_payload ?p + unat (pi_payloadSize ?p) \<le> length (pi_receivedData ?p)"
      using fits small(3) by (simp add: size)
    moreover have "\<not> pi_mclstBeacon ?p" using new by simp
    ultimately obtain ws pki' where d: "dissectMclstBeaconPayload le ?p = Some (ws, pki')"
      "dissected (take (unat len - 8) (drop k (pi_receivedData pki))) pki'" "same_packet ?p pki'"
      using dissect_correct [of ?p "take (unat len - 8) (drop k (pi_receivedData pki))" le] by (auto simp: size)
    have "ucast (len - of_nat UDPHdrSize) = (ucast len - 8 :: u32)"
    proof -
      have "unat (ucast len :: u32) = unat len"
        using less_trans [OF unat_u16_less [of len]] by (simp add: unsigned_ucast_eq take_bit_nat_eq_self)
      moreover from this have "(8 :: u32) \<le> ucast len" using True by (simp add: word_le_nat_alt)
      ultimately have "unat (ucast len - 8 :: u32) = unat len - 8" by (simp add: unat_sub)
      then show ?thesis by (simp add: word_unat_eq_iff size)
    qed
    moreover have "unat (pi_payloadSize pki') = unat len - 8" using d(3) by (simp add: same_packet_def size)
    ultimately show ?thesis
      using True fits d ge less by (simp add: rawPayload_def Let_def taken)
  qed
qed

text \<open>What is told of a datagram that is shown.\<close>

definition shown_datagram :: "u8 list \<Rightarrow> PacketInfo \<Rightarrow> bool" where
  "shown_datagram d pki \<longleftrightarrow>
     (let h = ipHdrLen d; len = unat (be16_at (h + 4) d) in
      pi_source pki = IPv4Address (be32_at 12 d) \<and> pi_sport pki = be16_at h d \<and> pi_dport pki = be16_at (h + 2) d \<and>
      pi_ttl pki = uint (d ! 8) \<and> pi_payload pki = h + 8 \<and> unat (pi_payloadSize pki) = len - 8 \<and>
      dissected (take (len - 8) (drop (h + 8) d)) pki)"

lemma to_nl_eq: "v = to_nl le g \<longleftrightarrow> ntohl le v = addr_val g"
  by (auto simp: to_nl_def) (metis ntoh_ntoh(2))

lemma rawDatagram_correct:
  fixes pki :: PacketInfo
  defines "m \<equiv> pi_receivedData pki" and "n \<equiv> unat (pi_receivedSize pki)"
  assumes ok: "n \<le> length m" and new: "\<not> pi_mclstBeacon pki" and h: "20 \<le> h" "h + 8 \<le> n" "ipHdrLen (take n m) = h"
  shows "if complete_datagram (take n m)
    then \<exists>ws pki'. rawDatagram le (Some 0) (Some h) (view 0 n (h + 8)) pki = Some (ws, AcceptedShow, pki') \<and>
      shown_datagram (take n m) pki'
    else \<exists>ws pki'. rawDatagram le (Some 0) (Some h) (view 0 n (h + 8)) pki = Some (ws, AcceptedNoShow, pki')"
proof -
  have sub: "be16_at p (take n m) = be16_at p m" if "p + 2 \<le> n" for p
    using be_at_sub(3) [of p n 0 m] that by simp
  have src: "be32_at 12 (take n m) = be32_at 12 m" using be_at_sub(2) [of 12 n 0 m] h by simp
  obtain saddr where saddr: "hv_saddr le (Some 0) m = Some saddr" "ntohl le saddr = be32_at 12 (take n m)"
    using get_be(2) [of 0 12 m le] h ok src by (auto simp: hv_saddr_def)
  obtain sport where sport: "uv_sport le (Some h) m = Some sport" "ntohs le sport = be16_at h (take n m)"
    using get_be(3) [of h 0 m le] h ok sub [of h] by (auto simp: uv_sport_def)
  obtain dport where dport: "uv_dport le (Some h) m = Some dport" "ntohs le dport = be16_at (h + 2) (take n m)"
    using get_be(3) [of h 2 m le] h ok sub [of "h + 2"] by (auto simp: uv_dport_def)
  obtain len where len: "uv_len le (Some h) m = Some len" "ntohs le len = be16_at (h + 4) (take n m)"
    using get_be(3) [of h 4 m le] h ok sub [of "h + 4"] by (auto simp: uv_len_def)
  have ttl: "hv_ttl (Some 0) m = Some (take n m ! 8)" using byte_at [of 0 8 m] h ok by (simp add: hv_ttl_def)
  define q where "q = pki\<lparr>pi_source := from_nl le saddr, pi_sport := ntohs le sport, pi_dport := ntohs le dport,
    pi_ttl := uint (take n m ! 8)\<rparr>"
  have q: "pi_receivedData q = m" "\<not> pi_mclstBeacon q" using new by (simp_all add: q_def m_def)
  have "\<exists>ws0. rawDatagram le (Some 0) (Some h) (view 0 n (h + 8)) pki =
      map_option (\<lambda>(ws', st, pki). (ws0 @ ws', st, pki)) (rawPayload le (ntohs le len) (view 0 n (h + 8)) q)"
    by (simp only: rawDatagram_def Let_def m_def [symmetric] saddr(1) sport(1) dport(1) ttl len(1) Option.bind.simps q_def)
      (rule exI, rule refl)
  then obtain ws0 where run: "rawDatagram le (Some 0) (Some h) (view 0 n (h + 8)) pki =
      map_option (\<lambda>(ws', st, pki). (ws0 @ ws', st, pki)) (rawPayload le (ntohs le len) (view 0 n (h + 8)) q)" by blast
  have small: "n < 2 ^ 60" unfolding n_def by (rule less_trans [OF unat_u32_less]) simp
  let ?k = "unat (ntohs le len)"
  have complete: "complete_datagram (take n m) \<longleftrightarrow> 8 \<le> ?k \<and> h + 8 + (?k - 8) \<le> n"
    using h ok len(2) by (auto simp: complete_datagram_def Let_def)
  note payload = rawPayload_correct [OF small h(2), where pki = q, unfolded q(1), OF ok q(2), of "ntohs le len" le]
  show ?thesis
  proof (cases "complete_datagram (take n m)")
    case True
    then have fits: "8 \<le> ?k \<and> h + 8 + (?k - 8) \<le> n" using complete by blast
    with payload obtain ws pki' where r: "rawPayload le (ntohs le len) (view 0 n (h + 8)) q = Some (ws, AcceptedShow, pki')"
      "same_packet (q\<lparr>pi_payload := h + 8, pi_payloadSize := ucast (ntohs le len) - 8\<rparr>) pki'"
      "unat (pi_payloadSize pki') = ?k - 8" "dissected (take (?k - 8) (drop (h + 8) m)) pki'" by auto
    have "take (?k - 8) (drop (h + 8) (take n m)) = take (?k - 8) (drop (h + 8) m)"
      using fits by (auto simp: drop_take min_def)
    then have "shown_datagram (take n m) pki'"
      using r(2-4) h(3) saddr(2) sport(2) dport(2) len(2)
      by (simp add: shown_datagram_def Let_def same_packet_def q_def from_nl_def)
    with True r(1) run show ?thesis by simp
  next
    case False
    then have "\<exists>w. rawPayload le (ntohs le len) (view 0 n (h + 8)) q = Some ([w], AcceptedNoShow, q)"
      using payload complete by (simp only: if_False)
    with False run show ?thesis by auto
  qed
qed

text \<open>The reads of a packet with an IPv4 header, and the steps of its views.\<close>

lemma raw_header:
  fixes pki :: PacketInfo
  defines "m \<equiv> pi_receivedData pki" and "n \<equiv> unat (pi_receivedSize pki)"
  assumes "received_ok pki" "20 \<le> n"
  obtains daddr eff where "hv_daddr le (Some 0) m = Some daddr" "hv_protocol (Some 0) m = Some (received pki ! 9)"
    "hv_headerSizeBytes (Some 0) m = Some eff" "unat eff = ipHdrLen (received pki)"
    "for_group g (received pki) \<longleftrightarrow> daddr = to_nl le g \<and> received pki ! 9 = UDPProto"
    "pv_take (of_nat IPv4HdrSize) (newPacketView 0 (ucast (pi_receivedSize pki))) = (Some 0, view 0 n 20)"
    "20 \<le> unat eff \<Longrightarrow> pv_skip (ucast eff - of_nat IPv4HdrSize) (view 0 n 20) =
       (if unat eff \<le> n then (True, view 0 n (unat eff)) else (False, view 0 n 20))"
proof -
  have ok: "n \<le> length m" and d: "received pki = take n m"
    using assms(3) by (simp_all add: received_ok_def received_def m_def n_def)
  have small: "n < 2 ^ 60" unfolding n_def by (rule less_trans [OF unat_u32_less]) simp
  have sub: "be32_at 16 (take n m) = be32_at 16 m" "take n m ! 9 = m ! 9" "ipHdrLen (take n m) = ipHdrLen m"
    using be_at_sub(2) [of 16 n 0 m] assms(4) by (simp_all add: ipHdrLen_def)
  obtain daddr where daddr: "hv_daddr le (Some 0) m = Some daddr" "ntohl le daddr = be32_at 16 (take n m)"
    using get_be(2) [of 0 16 m le] assms(4) ok sub(1) by (auto simp: hv_daddr_def)
  have proto: "hv_protocol (Some 0) m = Some (received pki ! 9)"
    using byte_at [of 0 9 m] assms(4) ok by (simp add: hv_protocol_def d)
  have "0 < length m" using assms(4) ok by linarith
  then obtain eff where eff: "hv_headerSizeBytes (Some 0) m = Some eff" "unat eff = ipHdrLen (received pki)"
    using header_size_at [of m] by (auto simp: sub(3) d)
  have "for_group g (received pki) \<longleftrightarrow> daddr = to_nl le g \<and> received pki ! 9 = UDPProto"
    using assms(4) ok daddr(2) by (auto simp: for_group_def d to_nl_eq UDPProto_def)
  moreover have "pv_take (of_nat IPv4HdrSize) (newPacketView 0 (ucast (pi_receivedSize pki))) = (Some 0, view 0 n 20)"
    using view_take(1) [OF small le0, where d = 0 and sz = IPv4HdrSize] newPacketView_view [of 0 "pi_receivedSize pki"] assms(4)
    by (simp add: IPv4HdrSize_def n_def)
  moreover have "pv_skip (ucast eff - of_nat IPv4HdrSize) (view 0 n 20) =
       (if unat eff \<le> n then (True, view 0 n (unat eff)) else (False, view 0 n 20))" if long: "20 \<le> unat eff"
  proof -
    have "ucast eff = (of_nat (unat eff) :: u64)" by simp
    then have skip: "ucast eff - of_nat IPv4HdrSize = (of_nat (unat eff - 20) :: u64)" using long by (simp add: IPv4HdrSize_def)
    have h: "unat eff - 20 < 2 ^ 60" using less_trans [OF unat_u16_less [of eff], of "2 ^ 60"] by simp
    from view_take(2) [OF small assms(4) h, where d = 0, folded skip] long show ?thesis by simp
  qed
  ultimately show thesis using that daddr(1) proto eff by blast
qed

lemma processRaw_filtered:
  assumes "received_ok pki" and "\<not> for_group g (received pki)"
  shows "\<exists>ws. processRaw le (to_nl le g) pki = Some (ws, Filtered, pki)"
proof (cases "20 \<le> unat (pi_receivedSize pki)")
  case True
  from assms(1) True show ?thesis
    by (rule raw_header [of pki le g]) (use assms(2) in \<open>auto simp: processRaw_def Let_def\<close>)
next
  case False
  have "unat (pi_receivedSize pki) < 2 ^ 60" by (rule less_trans [OF unat_u32_less]) simp
  then show ?thesis
    using False view_take(1) [OF _ le0, where d = 0 and sz = IPv4HdrSize and n = "unat (pi_receivedSize pki)"]
      newPacketView_view [of 0 "pi_receivedSize pki"]
    by (simp add: processRaw_def Let_def IPv4HdrSize_def)
qed

lemma processRaw_for_group:
  assumes "received_ok pki" and "\<not> pi_mclstBeacon pki" and "for_group g (received pki)"
  shows "if complete_datagram (received pki)
    then \<exists>ws pki'. processRaw le (to_nl le g) pki = Some (ws, AcceptedShow, pki') \<and> shown_datagram (received pki) pki'
    else \<exists>ws pki'. processRaw le (to_nl le g) pki = Some (ws, AcceptedNoShow, pki')"
proof -
  define n where "n = unat (pi_receivedSize pki)"
  have ok: "n \<le> length (pi_receivedData pki)" and d: "received pki = take n (pi_receivedData pki)"
    using assms(1) by (simp_all add: received_ok_def received_def n_def)
  have n: "20 \<le> n" using assms(3) ok by (simp add: for_group_def d)
  have small: "n < 2 ^ 60" unfolding n_def by (rule less_trans [OF unat_u32_less]) simp
  let ?h = "ipHdrLen (received pki)"
  obtain daddr eff where hdr: "hv_daddr le (Some 0) (pi_receivedData pki) = Some daddr"
    "hv_protocol (Some 0) (pi_receivedData pki) = Some (received pki ! 9)"
    "hv_headerSizeBytes (Some 0) (pi_receivedData pki) = Some eff" "unat eff = ?h"
    "daddr = to_nl le g" "received pki ! 9 = UDPProto"
    "pv_take (of_nat IPv4HdrSize) (newPacketView 0 (ucast (pi_receivedSize pki))) = (Some 0, view 0 n 20)"
    "20 \<le> unat eff \<Longrightarrow> pv_skip (ucast eff - of_nat IPv4HdrSize) (view 0 n 20) =
       (if unat eff \<le> n then (True, view 0 n (unat eff)) else (False, view 0 n 20))"
    by (rule raw_header [of pki le g, OF assms(1) n [unfolded n_def]]) (use assms(3) in \<open>auto simp: n_def\<close>)
  have short: "eff < of_nat IPv4HdrSize \<longleftrightarrow> ?h < 20" using hdr(4) by (simp add: word_less_nat_alt IPv4HdrSize_def)
  have udp: "pv_take (of_nat UDPHdrSize) (view 0 n ?h) = (if ?h + 8 \<le> n then (Some (int ?h), view 0 n (?h + 8)) else (None, view 0 n ?h))"
    if "?h \<le> n"
    using view_take(1) [OF small that, where d = 0 and sz = UDPHdrSize] by (simp add: UDPHdrSize_def)
  note run = processRaw_def Let_def hdr(1-3,5-7) short
  show ?thesis
  proof (cases "20 \<le> ?h \<and> ?h + 8 \<le> n")
    case False
    then have "\<not> complete_datagram (received pki)" using ok by (auto simp: complete_datagram_def Let_def d)
    moreover have "\<exists>w. processRaw le (to_nl le g) pki = Some ([w], AcceptedNoShow, pki)"
      using False hdr(4,8) udp by (cases "20 \<le> ?h"; cases "?h \<le> n") (simp_all add: run)
    ultimately show ?thesis by auto
  next
    case fits: True
    then have l: "20 \<le> ?h" "?h + 8 \<le> n" by blast+
    have "processRaw le (to_nl le g) pki = rawDatagram le (Some 0) (Some ?h) (view 0 n (?h + 8)) pki"
      using l hdr(4,8) udp by (simp add: run)
    moreover have "ipHdrLen (take n (pi_receivedData pki)) = ?h" by (simp only: d)
    note rawDatagram_correct [of pki ?h le, folded n_def, OF ok assms(2) l this, folded d]
    ultimately show ?thesis by (simp only:)
  qed
qed

text \<open>C19: The receiver of raw packets never reads outside the bytes that were received.  A packet is filtered
  unless it is an IPv4 packet for the group with UDP; it is accepted without being shown if its headers or
  its UDP length do not fit; else it is shown with the addresses, ports, TTL and payload of its headers, and
  as a beacon exactly if the payload holds one with its message.
\<close>

theorem raw_receiver_correct:
  assumes "received_ok pki" and "\<not> pi_mclstBeacon pki"
  shows "\<exists>ws st pki'. processRaw le (to_nl le g) pki = Some (ws, st, pki') \<and>
    (if \<not> for_group g (received pki) then st = Filtered
     else if \<not> complete_datagram (received pki) then st = AcceptedNoShow
     else st = AcceptedShow \<and> shown_datagram (received pki) pki')"
  using processRaw_filtered [OF assms(1), of g le] processRaw_for_group [OF assms, of g le]
  by (cases "for_group g (received pki)"; cases "complete_datagram (received pki)") auto

definition sampleDatagram :: "u8 list" where
  "sampleDatagram = [0x45, 0, 0, 30, 0, 0, 0, 0, 1, 17, 0, 0, 10, 0, 0, 1, 239, 1, 1, 1,
     0x13, 0x88, 0x13, 0x88, 0, 10, 0, 0, 65, 66]"

definition samplePacket :: PacketInfo where
  "samplePacket = \<lparr>pi_timestamp = 9, pi_source = IPv4Address 0, pi_sport = 0, pi_group = ofOctets 239 1 1 1,
     pi_dport = 0, pi_ifIndex = 2, pi_ttl = 1, pi_receivedData = sampleDatagram, pi_receivedSize = 30,
     pi_payload = 0, pi_payloadSize = 0, pi_mclstBeacon = False, pi_remoteSeq = 0, pi_remoteTimestamp = 0,
     pi_remoteMsgLen = 0, pi_remoteMsg = 0\<rparr>"

lemma sample_datagram: "for_group (ofOctets 239 1 1 1) sampleDatagram" "complete_datagram sampleDatagram"
  by code_simp+

lemma raw_receiver_correct_witness:
  "\<exists>ws pki'. processRaw True (to_nl True (ofOctets 239 1 1 1)) samplePacket = Some (ws, AcceptedShow, pki') \<and>
    shown_datagram sampleDatagram pki'"
proof -
  have "received_ok samplePacket" "\<not> pi_mclstBeacon samplePacket" "received samplePacket = sampleDatagram"
    by (simp_all add: received_ok_def received_def samplePacket_def sampleDatagram_def)
  with raw_receiver_correct [of samplePacket True "ofOctets 239 1 1 1"] sample_datagram show ?thesis by auto
qed

end
