(* ===== verification/Syscalls.thy ===== *)
theory Syscalls
  imports Programs
begin

text \<open>
  Programs that call the operating system: the functions on sockets (\<open>lib/pimc/net/SocketUtils.cpp\<close>), the
  capabilities of the process (\<open>lib/pimc/unix/CapState.hpp\<close>), the handlers of signals
  (\<open>lib/pimc/unix/SignalHandler.hpp\<close>) and the scope guard of \<open>lib/pimc/core/Deferred.hpp\<close>.
\<close>

section \<open>The kernel\<close>

datatype SocketKind = PIMSocket | UDPSocket | RawUDPSocket

text \<open>The options that are set, with the values passed; addresses are in the network byte order.\<close>

datatype Sockopt =
  ReuseAddr int
| RcvBuf int
| HdrIncl u32
| BindToDevice string
| RecvTTL int
| RecvPktInfo int
| AddMembership u32 u32
| AddSourceMembership u32 u32 u32
| MulticastTTL u8
| MulticastLoop u8
| MulticastIf u32

text \<open>
  What a program does that its environment sees or answers.  A history is the list of the events so far, the
  latest first, and the answer to an event depends on the history it ends.
\<close>

datatype Event =
  Socket SocketKind
| GetFlags int
| SetFlags int int
| SetSockopt int Sockopt
| InterfaceIndex int string
| Bind int u16
| Close int
| CapGetProc
| CapSetFlag int string
| CapSetProc int
| CapFree int
| CapInit
| SigAction nat
| GetHostName nat
| Now
| IsStopped
| Select int u32
| Recvmsg int
| Sendto int "u8 list" u32 u16
| SleepSeconds nat
| SleepMillis nat
| Fopen string
| Fwrite string
| Fclose
| Stdout string
| Stderr string

text \<open>
  The answers of the calls, with \<open>errno\<close> after them and the text of an error; a capability object is a
  handle that is not \<open>0\<close>.  \<open>k_libcap\<close> is the build option \<open>WITH_LIBCAP\<close>.
\<close>

record Kernel =
  k_ret :: "Event list \<Rightarrow> int"
  k_errno :: "Event list \<Rightarrow> int"
  k_strerror :: "int \<Rightarrow> string"
  k_libcap :: bool

definition EPERM :: int where "EPERM = 1"

definition EINTR :: int where "EINTR = 4"

definition SysError :: "'k Kernel_scheme \<Rightarrow> Event list \<Rightarrow> string" where
  "SysError K h = k_strerror K (k_errno K h)"

text \<open>
  A program: from a history it returns or throws, with the history after it; \<open>None\<close> if it does not end or its
  behaviour is undefined.
\<close>

type_synonym ('e, 'a) prog = "Event list \<Rightarrow> (('e, 'a) outcome \<times> Event list) option"

definition prog_bind :: "('e, 'a) prog \<Rightarrow> ('a \<Rightarrow> ('e, 'b) prog) \<Rightarrow> ('e, 'b) prog" where
  "prog_bind m f =
     (\<lambda>h. case m h of
        None \<Rightarrow> None
      | Some (Inl e, h) \<Rightarrow> Some (Inl e, h)
      | Some (Inr a, h) \<Rightarrow> f a h)"

definition prog_return :: "'a \<Rightarrow> ('e, 'a) prog" where
  "prog_return a = (\<lambda>h. Some (Ok a, h))"

definition prog_throw :: "'e \<Rightarrow> ('e, 'a) prog" where
  "prog_throw e = (\<lambda>h. Some (Fail e, h))"

text \<open>A destructor runs at the end of a scope, however it is left.\<close>

definition prog_finally :: "('e, 'a) prog \<Rightarrow> (Event list \<Rightarrow> Event list option) \<Rightarrow> ('e, 'a) prog" where
  "prog_finally m d = (\<lambda>h. case m h of None \<Rightarrow> None | Some (r, h) \<Rightarrow> map_option (Pair r) (d h))"

lemma prog_simps [simp]:
  "prog_return a h = Some (Ok a, h)" "prog_throw e h = Some (Fail e, h)"
  "m h = None \<Longrightarrow> prog_bind m f h = None"
  "m h = Some (Inl e, h') \<Longrightarrow> prog_bind m f h = Some (Inl e, h')"
  "m h = Some (Inr a, h') \<Longrightarrow> prog_bind m f h = f a h'"
  "m h = None \<Longrightarrow> prog_finally m d h = None"
  "m h = Some (r, h') \<Longrightarrow> prog_finally m d h = map_option (Pair r) (d h')"
  by (simp_all add: prog_return_def prog_throw_def prog_bind_def prog_finally_def)

text \<open>A call that fails with \<open>-1\<close>, and then ends the function with a message and the error.\<close>

definition syscall :: "'k Kernel_scheme \<Rightarrow> Event \<Rightarrow> string \<Rightarrow> (string, int) prog" where
  "syscall K c msg =
     (\<lambda>h. let h = c # h in
        Some (if k_ret K h = -1 then Fail (msg @ SysError K h) else Ok (k_ret K h), h))"

text \<open>A call is repeated until it is not interrupted, \<open>close\<close> for one.\<close>

definition interrupted :: "'k Kernel_scheme \<Rightarrow> Event list \<Rightarrow> bool" where
  "interrupted K h \<longleftrightarrow> k_ret K h = -1 \<and> k_errno K h = EINTR"

partial_function (option) retryLoop :: "'k Kernel_scheme \<Rightarrow> Event \<Rightarrow> Event list \<Rightarrow> Event list option" where
  "retryLoop K c h = (let h = c # h in if interrupted K h then retryLoop K c h else Some h)"

declare retryLoop.simps [code]

definition closeLoop :: "'k Kernel_scheme \<Rightarrow> int \<Rightarrow> Event list \<Rightarrow> Event list option" where
  "closeLoop K s = retryLoop K (Close s)"

section \<open>Sockets\<close>

definition EnablingReuse :: string where "EnablingReuse = ''enabling transport port reuse failed: ''"

definition O_NONBLOCK :: int where "O_NONBLOCK = 2048"

text \<open>After \<open>F_SETFL\<close> the flags are tested instead of the result of the call.\<close>

definition makeNonBlocking :: "'k Kernel_scheme \<Rightarrow> int \<Rightarrow> (string, int) prog" where
  "makeNonBlocking K s =
     prog_bind (syscall K (GetFlags s) ''fcntl() failed to get socket flags: '') (\<lambda>flags h.
       let flags = flags OR O_NONBLOCK; h = SetFlags s flags # h in
       if flags = -1 then prog_throw (''fcntl() failed to make socket non-blocking: '' @ SysError K h) h
       else prog_return s h)"

definition allowReuse :: "'k Kernel_scheme \<Rightarrow> int \<Rightarrow> (string, int) prog" where
  "allowReuse K s = prog_bind (syscall K (SetSockopt s (ReuseAddr 1)) EnablingReuse) (\<lambda>_. prog_return s)"

definition setRcvdBuffSize :: "'k Kernel_scheme \<Rightarrow> int \<Rightarrow> int \<Rightarrow> (string, int) prog" where
  "setRcvdBuffSize K s bufsz =
     prog_bind (syscall K (SetSockopt s (RcvBuf bufsz))
         (''failed to set receive buffer size to '' @ int_text bufsz @ '' bytes: ''))
       (\<lambda>_. prog_return s)"

definition setMulticastTTL :: "'k Kernel_scheme \<Rightarrow> int \<Rightarrow> u8 \<Rightarrow> (string, int) prog" where
  "setMulticastTTL K s ttl =
     prog_bind (syscall K (SetSockopt s (MulticastTTL ttl))
         (''unable to set multicast TTL to '' @ dec_string (unat ttl) @ '': ''))
       (\<lambda>_. prog_return s)"

text \<open>The socket of the client; \<open>bindToDevice\<close> is the one for Linux.\<close>

definition LastResortMsg :: "'k Kernel_scheme \<Rightarrow> string" where
  "LastResortMsg K =
     (if k_libcap K
      then ''unable to open IPv4 PIM socket: '' @ ''even though the process now has the effective CAP_NET_RAW; '' @
        ''as a last resort try running under sudo''
      else ''unable to open IPv4 PIM socket, '' @ ''try running under sudo'')"

definition openIPv4PIMSocket :: "'k Kernel_scheme \<Rightarrow> (string, int) prog" where
  "openIPv4PIMSocket K =
     (\<lambda>h. let h = Socket PIMSocket # h; s = k_ret K h in
        if s = -1 then
          (if k_errno K h = EPERM then prog_throw (LastResortMsg K) h
           else prog_throw (''unable to open PIM IP socket: '' @ SysError K h) h)
        else prog_return s h)"

definition bindToDevice :: "'k Kernel_scheme \<Rightarrow> int \<Rightarrow> string \<Rightarrow> (string, int) prog" where
  "bindToDevice K s ifn =
     (let ifr_name = take 15 (cstring ifn) in
      (\<lambda>h. let h = InterfaceIndex s ifr_name # h in
        if k_ret K h < 0 then prog_throw (''ioctl() failed to find interface '' @ ifn @ '': '' @ SysError K h) h
        else prog_bind (syscall K (SetSockopt s (BindToDevice ifr_name))
            (''unable to bind PIM socket to interface '' @ ifn @ '': '')) (\<lambda>_. prog_return s) h))"

section \<open>Capabilities\<close>

text \<open>\<open>CapState\<close>.  An object that was raised drops all capabilities of the process when it is destroyed.\<close>

datatype CapFailure = NotSet string | CapError string

definition dropAllCaps :: "'k Kernel_scheme \<Rightarrow> Event list \<Rightarrow> Event list" where
  "dropAllCaps K h =
     (let h = CapInit # h; caps = k_ret K h in if caps = 0 then h else CapFree caps # CapSetProc caps # h)"

definition raiseCap :: "'k Kernel_scheme \<Rightarrow> string \<Rightarrow> (CapFailure, unit) prog" where
  "raiseCap K cap h =
     (let h = CapGetProc # h; caps = k_ret K h in
      if caps = 0 then prog_throw (CapError (''cap_get_proc() failed: '' @ SysError K h)) h
      else let h = CapSetFlag caps cap # h in
      if k_ret K h = -1 then
        (let h = CapFree caps # h in prog_throw (CapError (''cap_set_flag() failed: '' @ SysError K h)) h)
      else let h = CapSetProc caps # h in
      if k_ret K h = -1 then
        (let ec = k_errno K h; h = dropAllCaps K (CapFree caps # h) in
         if ec = EPERM then prog_throw (NotSet cap) h
         else prog_throw (CapError (''cap_set_proc() failed: '' @ k_strerror K ec)) h)
      else let h = CapFree caps # h in
      if k_ret K h = -1 then prog_throw (CapError (''cap_free() failed: '' @ SysError K h)) h
      else prog_return () h)"

fun raiseImpl :: "'k Kernel_scheme \<Rightarrow> string list \<Rightarrow> (CapFailure, unit) prog" where
  "raiseImpl K [] = prog_return ()"
| "raiseImpl K (cap # caps) = prog_bind (raiseCap K cap) (\<lambda>_. raiseImpl K caps)"

fun joinCaps :: "string list \<Rightarrow> string" where
  "joinCaps [] = []"
| "joinCaps [cap] = cap"
| "joinCaps (cap # caps) = cap @ '','' @ joinCaps caps"

definition raiseCaps :: "'k Kernel_scheme \<Rightarrow> string \<Rightarrow> string list \<Rightarrow> (string, unit) prog" where
  "raiseCaps K progname caps =
     (if \<not> k_libcap K then prog_return ()
      else (\<lambda>h. case raiseImpl K caps h of
          None \<Rightarrow> None
        | Some (Inr u, h) \<Rightarrow> prog_return u h
        | Some (Inl (CapError msg), h) \<Rightarrow> prog_throw msg h
        | Some (Inl (NotSet cap), h) \<Rightarrow>
            prog_throw (''unable to raise '' @ cap @ '' capability: '' @ ''try running under sudo or grant '' @ progname @
              '' the required capabilities '' @ ''by running sudo setcap '' @ joinCaps caps @ ''=p '' @ progname) h))"

definition destroyCapState :: "'k Kernel_scheme \<Rightarrow> Event list \<Rightarrow> Event list" where
  "destroyCapState K h = (if k_libcap K then dropAllCaps K h else h)"

text \<open>
  The object itself, of the build with libcap, is the flag \<open>capRaised_\<close>: what a move gives to its target and leaves in its
  source, where a move assignment first looks whether they are the same object, and the destructor.
\<close>

definition moveCapState :: "bool \<Rightarrow> bool \<times> bool" where
  "moveCapState rhs = (rhs, False)"

definition moveAssignCapState :: "bool \<Rightarrow> bool \<Rightarrow> bool \<Rightarrow> bool \<times> bool" where
  "moveAssignCapState same lhs rhs = (if same then (lhs, rhs) else (rhs, False))"

definition dropCapState :: "'k Kernel_scheme \<Rightarrow> bool \<Rightarrow> Event list \<Rightarrow> Event list" where
  "dropCapState K raised h = (if raised then dropAllCaps K h else h)"

text \<open>
  A move passes the duty to drop the capabilities on, so that they are dropped once; the assignment to an object that
  has that duty forgets it, and if the other has none the capabilities stay.
\<close>

lemma cap_moves:
  "dropCapState K (snd (moveCapState r)) (dropCapState K (fst (moveCapState r)) h) = dropCapState K r h"
  "case moveAssignCapState False l r of (l', r') \<Rightarrow> dropCapState K l' (dropCapState K r' h) = dropCapState K r h"
  "case moveAssignCapState False True False of (l', r') \<Rightarrow> dropCapState K l' (dropCapState K r' h) = h"
  by (simp_all add: moveCapState_def moveAssignCapState_def dropCapState_def)

text \<open>A scope that starts with raising capabilities and fails if they cannot be raised.\<close>

definition withCaps ::
    "'k Kernel_scheme \<Rightarrow> string \<Rightarrow> string list \<Rightarrow> (string, 'a) prog \<Rightarrow> (string, 'a) prog" where
  "withCaps K progname caps body =
     prog_bind (raiseCaps K progname caps) (\<lambda>_. prog_finally body (\<lambda>h. Some (destroyCapState K h)))"

section \<open>Signals\<close>

text \<open>\<open>SignalHandler\<close> with its default handler of errors.\<close>

fun installSignals :: "'k Kernel_scheme \<Rightarrow> nat list \<Rightarrow> (string, bool) prog" where
  "installSignals K [] = prog_return True"
| "installSignals K (sig # sigs) =
     prog_bind (syscall K (SigAction sig) (''unable to install handler for signal '' @ dec_string sig @ '': ''))
       (\<lambda>_. installSignals K sigs)"

section \<open>Scope guards\<close>

text \<open>
  \<open>Deferred\<close>: the body of a scope, whose result comes with whether the deferred function was cancelled.
\<close>

definition deferred ::
    "(Event list \<Rightarrow> Event list option) \<Rightarrow>
     (Event list \<Rightarrow> ((bool \<times> ('e, 'a) outcome) \<times> Event list) option) \<Rightarrow> ('e, 'a) prog" where
  "deferred d body =
     (\<lambda>h. case body h of
        None \<Rightarrow> None
      | Some ((cancelled, r), h) \<Rightarrow> if cancelled then Some (r, h) else map_option (Pair r) (d h))"

section \<open>The events of a program\<close>

text \<open>A history that continues another by events of some kind, and programs that add only such events.\<close>

definition adds :: "(Event \<Rightarrow> bool) \<Rightarrow> Event list \<Rightarrow> Event list \<Rightarrow> bool" where
  "adds P h h' \<longleftrightarrow> (\<exists>es. h' = es @ h \<and> list_all P es)"

lemma adds_refl [simp]: "adds P h h"
  by (simp add: adds_def)

lemma adds_trans [trans]: "adds P h h' \<Longrightarrow> adds P h' h'' \<Longrightarrow> adds P h h''"
  unfolding adds_def by (metis append_assoc list_all_append)

lemma adds_Cons: "P e \<Longrightarrow> adds P h h' \<Longrightarrow> adds P h (e # h')"
  unfolding adds_def by (metis append_Cons list.pred_inject(2))

lemma adds_mono: "adds P h h' \<Longrightarrow> (\<And>e. P e \<Longrightarrow> Q e) \<Longrightarrow> adds Q h h'"
  by (auto simp: adds_def list_all_iff)

text \<open>A function of the history that the added events do not change.\<close>

lemma adds_keeps:
  assumes "\<And>e h. P e \<Longrightarrow> f (e # h) = f h" and "adds P h h'"
  shows "f h' = f h"
proof -
  have "list_all P es \<Longrightarrow> f (es @ h) = f h" for es by (induction es) (simp_all add: assms(1))
  then show ?thesis using assms(2) by (auto simp: adds_def)
qed

definition prog_adds :: "(Event \<Rightarrow> bool) \<Rightarrow> ('e, 'a) prog \<Rightarrow> bool" where
  "prog_adds P m \<longleftrightarrow> (\<forall>h r h'. m h = Some (r, h') \<longrightarrow> adds P h h')"

lemma prog_addsD: "prog_adds P m \<Longrightarrow> m h = Some (r, h') \<Longrightarrow> adds P h h'"
  by (simp add: prog_adds_def)

lemma prog_adds_bind: "prog_adds P m \<Longrightarrow> (\<And>a. prog_adds P (f a)) \<Longrightarrow> prog_adds P (prog_bind m f)"
  unfolding prog_adds_def prog_bind_def by (fastforce split: option.splits sum.splits intro: adds_trans)

lemma prog_adds_finally:
  "prog_adds P m \<Longrightarrow> (\<And>h h'. d h = Some h' \<Longrightarrow> adds P h h') \<Longrightarrow> prog_adds P (prog_finally m d)"
  unfolding prog_adds_def prog_finally_def by (fastforce split: option.splits intro: adds_trans)

lemma prog_adds_return [simp]: "prog_adds P (prog_return a)" "prog_adds P (prog_throw e)" "prog_adds P (\<lambda>h. Some (r, h))"
  by (simp_all add: prog_adds_def)

lemma prog_adds_syscall: "P c \<Longrightarrow> prog_adds P (syscall K c msg)"
  by (auto simp: prog_adds_def syscall_def Let_def intro: adds_Cons)

section \<open>What a history leaves behind\<close>

text \<open>
  The descriptors that are open after a history, and the capability objects with their flags and the
  effective capabilities of the process, which were \<open>eff\<close> at its start.
\<close>

primrec open_fds :: "'k Kernel_scheme \<Rightarrow> Event list \<Rightarrow> int set" where
  "open_fds K [] = {}"
| "open_fds K (e # h) =
     (case e of
        Socket k \<Rightarrow> (if k_ret K (e # h) = -1 then open_fds K h else insert (k_ret K (e # h)) (open_fds K h))
      | Close s \<Rightarrow> (if interrupted K (e # h) then open_fds K h else open_fds K h - {s})
      | _ \<Rightarrow> open_fds K h)"

primrec cap_state :: "'k Kernel_scheme \<Rightarrow> string set \<Rightarrow> Event list \<Rightarrow> (int \<Rightarrow> string set option) \<times> string set" where
  "cap_state K eff [] = (Map.empty, eff)"
| "cap_state K eff (e # h) =
     (case cap_state K eff h of (objs, cur) \<Rightarrow>
        let ret = k_ret K (e # h) in
        case e of
          CapGetProc \<Rightarrow> (if ret = 0 then objs else objs(ret \<mapsto> cur), cur)
        | CapInit \<Rightarrow> (if ret = 0 then objs else objs(ret \<mapsto> {}), cur)
        | CapSetFlag c cap \<Rightarrow> (if ret = -1 then objs else objs(c := map_option (insert cap) (objs c)), cur)
        | CapSetProc c \<Rightarrow> (objs, if ret = -1 then cur else (case objs c of Some flags \<Rightarrow> flags | None \<Rightarrow> cur))
        | CapFree c \<Rightarrow> (if ret = -1 then objs else objs(c := None), cur)
        | _ \<Rightarrow> (objs, cur))"

definition effective :: "'k Kernel_scheme \<Rightarrow> string set \<Rightarrow> Event list \<Rightarrow> string set" where
  "effective K eff h = snd (cap_state K eff h)"

text \<open>
  Giving up the capabilities can fail: \<open>cap_init\<close> has no memory, or \<open>cap_set_proc\<close> refuses the empty set; \<open>dropAllCaps\<close>
  then returns silently.  Whether that happened in a history, and what a process is left with after it tried.
\<close>

primrec drop_failed :: "'k Kernel_scheme \<Rightarrow> string set \<Rightarrow> Event list \<Rightarrow> bool" where
  "drop_failed K eff [] = False"
| "drop_failed K eff (e # h) =
     (drop_failed K eff h \<or>
      (case e of
         CapInit \<Rightarrow> k_ret K (e # h) = 0
       | CapSetProc c \<Rightarrow> k_ret K (e # h) = -1 \<and> fst (cap_state K eff h) c = Some {}
       | _ \<Rightarrow> False))"

definition dropped :: "'k Kernel_scheme \<Rightarrow> string set \<Rightarrow> Event list \<Rightarrow> bool" where
  "dropped K eff h \<longleftrightarrow> effective K eff h = {} \<or> drop_failed K eff h"

text \<open>A property of a kernel: a call of \<open>close\<close> is not interrupted for ever.\<close>

definition closes :: "'k Kernel_scheme \<Rightarrow> bool" where
  "closes K \<longleftrightarrow> (\<forall>s h. \<exists>n. \<not> interrupted K (replicate (Suc n) (Close s) @ h))"

lemma retryLoop_ends:
  assumes "\<not> interrupted K (replicate (Suc m) c @ h)"
  obtains n where "retryLoop K c h = Some (replicate (Suc n) c @ h)"
    "\<not> interrupted K (replicate (Suc n) c @ h)" "\<forall>i < n. interrupted K (replicate (Suc i) c @ h)"
proof -
  have "\<exists>n. retryLoop K c h = Some (replicate (Suc n) c @ h) \<and>
      \<not> interrupted K (replicate (Suc n) c @ h) \<and> (\<forall>i < n. interrupted K (replicate (Suc i) c @ h))"
    if "\<not> interrupted K (replicate (Suc m) c @ h)" for m
    using that
  proof (induction m arbitrary: h)
    case 0
    then show ?case by (intro exI [of _ 0]) (simp add: retryLoop.simps)
  next
    case (Suc m)
    show ?case
    proof (cases "interrupted K (c # h)")
      case True
      have shift: "replicate (Suc i) c @ (c # h) = replicate (Suc (Suc i)) c @ h" for i
        by (simp add: replicate_append_same flip: replicate_Suc)
      have "\<not> interrupted K (replicate (Suc m) c @ (c # h))" unfolding shift by (rule Suc.prems)
      from Suc.IH [OF this] obtain n where n: "retryLoop K c (c # h) = Some (replicate (Suc (Suc n)) c @ h)"
        "\<not> interrupted K (replicate (Suc (Suc n)) c @ h)"
        "\<forall>i < n. interrupted K (replicate (Suc (Suc i)) c @ h)" by (auto simp only: shift)
      have "\<forall>i < Suc n. interrupted K (replicate (Suc i) c @ h)"
      proof (intro allI impI)
        fix i assume "i < Suc n"
        then show "interrupted K (replicate (Suc i) c @ h)" using True n(3) by (cases i) auto
      qed
      moreover have "retryLoop K c h = retryLoop K c (c # h)" using True by (simp add: retryLoop.simps [of K c h])
      ultimately show ?thesis using n(1,2) by (intro exI [of _ "Suc n"]) simp
    next
      case False
      then show ?thesis by (intro exI [of _ 0]) (simp add: retryLoop.simps)
    qed
  qed
  then show thesis using assms that by blast
qed

lemma closeLoop_ends:
  assumes "closes K"
  obtains n where "closeLoop K s h = Some (replicate (Suc n) (Close s) @ h)"
    "\<not> interrupted K (replicate (Suc n) (Close s) @ h)" "\<forall>i < n. interrupted K (replicate (Suc i) (Close s) @ h)"
  using assms retryLoop_ends [of K _ "Close s" h] unfolding closes_def closeLoop_def by metis


lemma open_fds_closed:
  assumes "\<not> interrupted K (replicate (Suc n) (Close s) @ h)" and "\<forall>i < n. interrupted K (replicate (Suc i) (Close s) @ h)"
  shows "open_fds K (replicate (Suc n) (Close s) @ h) = open_fds K h - {s}"
proof -
  have "open_fds K (replicate i (Close s) @ h) = open_fds K h" if "i \<le> n" for i
    using that assms(2) by (induction i) auto
  then show ?thesis using assms(1) by simp
qed

lemma dropped_replicate_Close [simp]: "dropped K eff (replicate n (Close s) @ h) = dropped K eff h"
  by (induction n) (simp_all add: dropped_def effective_def Let_def split: prod.splits)

lemma closeLoop_open:
  assumes "closes K"
  obtains h' where "closeLoop K s h = Some h'" "open_fds K h' = open_fds K h - {s}"
    "\<And>eff. dropped K eff h' = dropped K eff h"
  using closeLoop_ends [OF assms, of s h] open_fds_closed [of K _ s h]
  by (metis dropped_replicate_Close)

lemma dropAllCaps_open [simp]: "open_fds K (dropAllCaps K h) = open_fds K h"
  by (simp add: dropAllCaps_def Let_def)

lemma dropAllCaps_drops: "dropped K eff (dropAllCaps K h)"
proof -
  obtain objs cur where st: "cap_state K eff h = (objs, cur)" by (cases "cap_state K eff h")
  let ?h = "CapInit # h"
  show ?thesis
  proof (cases "k_ret K ?h = 0")
    case False
    then have "cap_state K eff ?h = (objs(k_ret K ?h \<mapsto> {}), cur)" by (simp add: st)
    with False show ?thesis
      by (cases "k_ret K (CapSetProc (k_ret K ?h) # ?h) = -1")
        (simp_all add: dropAllCaps_def dropped_def effective_def Let_def)
  qed (simp add: dropAllCaps_def dropped_def Let_def)
qed

lemma destroyCapState_open [simp]: "open_fds K (destroyCapState K h) = open_fds K h"
  by (simp add: destroyCapState_def)

text \<open>Raising capabilities: the errors before or after the change of the process leave what was raised.\<close>

definition keeps_caps :: "CapFailure \<Rightarrow> bool" where
  "keeps_caps f \<longleftrightarrow>
     (\<exists>c t. f = CapError (c @ ''() failed: '' @ t) \<and> c \<in> {''cap_get_proc'', ''cap_set_flag'', ''cap_free''})"

lemma raiseCap_cases:
  obtains h' where "raiseCap K cap h = Some (Ok (), h')" "open_fds K h' = open_fds K h"
    "effective K eff h' = insert cap (effective K eff h)"
  | f h' where "raiseCap K cap h = Some (Fail f, h')" "open_fds K h' = open_fds K h" "keeps_caps f"
  | f h' where "raiseCap K cap h = Some (Fail f, h')" "open_fds K h' = open_fds K h" "dropped K eff h'"
    "f = NotSet cap \<or> (\<exists>t. f = CapError (''cap_set_proc() failed: '' @ t))"
proof -
  obtain objs cur where st: "cap_state K eff h = (objs, cur)" by (cases "cap_state K eff h")
  define h1 where "h1 = CapGetProc # h"
  define c where "c = k_ret K h1"
  define h2 where "h2 = CapSetFlag c cap # h1"
  define h3 where "h3 = CapSetProc c # h2"
  define h4 where "h4 = CapFree c # h3"
  have open4: "open_fds K h1 = open_fds K h" "open_fds K (CapFree c # h2) = open_fds K h" "open_fds K h4 = open_fds K h"
    by (simp_all add: h1_def h2_def h3_def h4_def)
  note run = raiseCap_def Let_def h1_def [symmetric] c_def [symmetric] h2_def [symmetric] h3_def [symmetric]
    h4_def [symmetric]
  have keep: "keeps_caps (CapError (''cap_get_proc() failed: '' @ t))" "keeps_caps (CapError (''cap_set_flag() failed: '' @ t))"
    "keeps_caps (CapError (''cap_free() failed: '' @ t))" for t
    unfolding keeps_caps_def
    by (rule exI [of _ "''cap_get_proc''"], rule exI [of _ t], simp)
      (rule exI [of _ "''cap_set_flag''"], rule exI [of _ t], simp, rule exI [of _ "''cap_free''"], rule exI [of _ t], simp)
  show thesis
  proof (cases "c = 0")
    case True
    then show thesis using that(2) [OF _ open4(1) keep(1)] by (simp add: run)
  next
    case c0: False
    show thesis
    proof (cases "k_ret K h2 = -1")
      case True
      then show thesis using that(2) [OF _ open4(2) keep(2)] c0 by (simp add: run)
    next
      case flag: False
      show thesis
      proof (cases "k_ret K h3 = -1")
        case True
        note dropped = dropAllCaps_drops [of K eff h4] open4(3)
        show thesis
        proof (cases "k_errno K h3 = EPERM")
          case perm: True
          then have "raiseCap K cap h = Some (Fail (NotSet cap), dropAllCaps K h4)" using True c0 flag by (simp add: run)
          then show thesis by (rule that(3)) (simp_all add: dropped)
        next
          case False
          then have "raiseCap K cap h =
              Some (Fail (CapError (''cap_set_proc() failed: '' @ k_strerror K (k_errno K h3))), dropAllCaps K h4)"
            using True c0 flag by (simp add: run)
          then show thesis by (rule that(3)) (simp_all add: dropped)
        qed
      next
        case set: False
        have "cap_state K eff h2 = (objs(c \<mapsto> insert cap cur), cur)"
          using c0 flag st by (simp add: h2_def h1_def c_def)
        then have eff: "effective K eff h4 = insert cap (effective K eff h)"
          using set st by (simp add: effective_def h3_def h4_def Let_def)
        show thesis
        proof (cases "k_ret K h4 = -1")
          case True
          then show thesis using that(2) [OF _ open4(3) keep(3)] c0 flag set by (simp add: run)
        next
          case False
          then show thesis using that(1) [OF _ open4(3) eff] c0 flag set by (simp add: run)
        qed
      qed
    qed
  qed
qed

lemma raiseImpl_cases:
  "\<exists>r h'. raiseImpl K caps h = Some (r, h') \<and> open_fds K h' = open_fds K h \<and>
    (case r of
       Inr u \<Rightarrow> effective K eff h' = set caps \<union> effective K eff h
     | Inl f \<Rightarrow> keeps_caps f \<or> dropped K eff h' \<and> ((\<exists>cap. f = NotSet cap) \<or> (\<exists>t. f = CapError (''cap_set_proc() failed: '' @ t))))"
proof (induction caps arbitrary: h)
  case Nil
  then show ?case by simp
next
  case (Cons cap caps)
  show ?case
  proof (cases rule: raiseCap_cases [of K cap h eff])
    case (1 h')
    from Cons.IH [of h'] obtain r h'' where IH: "raiseImpl K caps h' = Some (r, h'')" "open_fds K h'' = open_fds K h'"
      "case r of Inr u \<Rightarrow> effective K eff h'' = set caps \<union> effective K eff h'
       | Inl f \<Rightarrow> keeps_caps f \<or> dropped K eff h'' \<and> ((\<exists>cap. f = NotSet cap) \<or> (\<exists>t. f = CapError (''cap_set_proc() failed: '' @ t)))"
      by blast
    then show ?thesis using 1 by (cases r) auto
  next
    case (2 f h')
    then show ?thesis by auto
  next
    case (3 f h')
    then show ?thesis by auto
  qed
qed

text \<open>The texts of the errors of raising capabilities after which the process keeps the ones it had.\<close>

definition caps_kept :: "string \<Rightarrow> bool" where
  "caps_kept e \<longleftrightarrow> (\<exists>c t. e = c @ ''() failed: '' @ t \<and> c \<in> {''cap_get_proc'', ''cap_set_flag'', ''cap_free''})"

lemma raiseCaps_cases:
  "\<exists>r h'. raiseCaps K progname caps h = Some (r, h') \<and> open_fds K h' = open_fds K h \<and>
    (\<forall>e. r = Fail e \<longrightarrow> hd e \<noteq> CHR ''e'' \<and> k_libcap K \<and> (dropped K eff h' \<or> caps_kept e))"
proof (cases "k_libcap K")
  case True
  obtain r h' where raised: "raiseImpl K caps h = Some (r, h')" "open_fds K h' = open_fds K h"
    "case r of Inr u \<Rightarrow> effective K eff h' = set caps \<union> effective K eff h
     | Inl f \<Rightarrow> keeps_caps f \<or> dropped K eff h' \<and> ((\<exists>cap. f = NotSet cap) \<or> (\<exists>t. f = CapError (''cap_set_proc() failed: '' @ t)))"
    using raiseImpl_cases [of K caps h eff] by blast
  show ?thesis
  proof (cases r)
    case (Inl f)
    show ?thesis
    proof (cases f)
      case (NotSet cap)
      then show ?thesis using True raised Inl by (auto simp: raiseCaps_def keeps_caps_def)
    next
      case (CapError m)
      then have "hd m \<noteq> CHR ''e''" "dropped K eff h' \<or> caps_kept m"
        using raised(3) Inl by (auto simp: keeps_caps_def caps_kept_def)
      then show ?thesis using True raised Inl CapError by (simp add: raiseCaps_def)
    qed
  qed (use True raised in \<open>simp add: raiseCaps_def\<close>)
qed (simp add: raiseCaps_def)

end
