(* ===== verification/Loggers.thy ===== *)
theory Loggers
  imports Syscalls
begin

text \<open>
  The loggers at work, \<open>apps/pimc/logging\<close>: \<open>Logger::log\<close>, the loggers to the console and to a file, the file
  that one of them opens, writes and closes, and what the file holds at the end.
\<close>

section \<open>The host of a logger\<close>

text \<open>
  The kernel with the clock and with the local times of a number of seconds as the console and the log file show
  them.  The answer to \<open>Fopen\<close> is \<open>0\<close> for a null pointer, that to \<open>Fwrite\<close> the number of items written, and
  that to \<open>Fclose\<close> is \<open>-1\<close> for \<open>EOF\<close>.
\<close>

record LogHost = Kernel +
  l_now :: "Event list \<Rightarrow> u64"
  l_clock :: "nat \<Rightarrow> string"
  l_fileClock :: "nat \<Rightarrow> string"
  l_zone :: "nat \<Rightarrow> string"

section \<open>Messages\<close>

text \<open>An action of a logger always comes back: it returns or throws.\<close>

type_synonym ('e, 'a) act = "Event list \<Rightarrow> ('e, 'a) outcome \<times> Event list"

definition perform :: "('e, 'a) act \<Rightarrow> ('e, 'a) prog" where
  "perform a = (\<lambda>h. Some (a h))"

definition fileWrite :: "'k Kernel_scheme \<Rightarrow> string \<Rightarrow> (string, unit) act" where
  "fileWrite K s h =
     (let h = Fwrite s # h in
      (if k_ret K h \<noteq> 1 then Fail (''unable to write message to log file: '' @ SysError K h) else Ok (), h))"

definition logWrite :: "'k LogHost_scheme \<Rightarrow> LogSink \<Rightarrow> u64 \<Rightarrow> Level \<Rightarrow> string \<Rightarrow> (string, unit) act" where
  "logWrite H sink ts l message h =
     (case sink of
        ConsoleLogger \<Rightarrow>
          (Ok (), Stdout (cstring (consoleTime (l_clock H) ts @ '' '' @ levelText l @ '': '' @ message)) # h)
      | FileLogger _ \<Rightarrow>
          (case fileWrite H (fileTime (l_fileClock H) (l_zone H) ts @ '' '' @ levelText l @ '': '') h of
             (Inl e, h) \<Rightarrow> (Fail e, h)
           | (Inr _, h) \<Rightarrow> fileWrite H message h))"

definition logAt :: "'k LogHost_scheme \<Rightarrow> Logger \<Rightarrow> u64 \<Rightarrow> Level \<Rightarrow> string \<Rightarrow> (string, unit) act" where
  "logAt H lg ts l msg h =
     (if log_maxLevel lg < levelNo l then (Ok (), h) else logWrite H (log_sink lg) ts l (line msg) h)"

definition logNow :: "'k LogHost_scheme \<Rightarrow> Logger \<Rightarrow> Level \<Rightarrow> string \<Rightarrow> (string, unit) act" where
  "logNow H lg l msg h = (let h = Now # h in logAt H lg (l_now H h) l msg h)"

section \<open>The life of a logger\<close>

definition openLogger ::
    "'k Kernel_scheme \<Rightarrow> (string \<Rightarrow> bool) \<Rightarrow> (string \<Rightarrow> bool) \<Rightarrow> LoggingConfig \<Rightarrow> (string, Logger) act" where
  "openLogger K exist isDirectory c h =
     (case logFileName c of
        None \<Rightarrow> (newLogger exist isDirectory (\<lambda>_. None) c, h)
      | Some f \<Rightarrow>
          if exist f then (newLogger exist isDirectory (\<lambda>_. None) c, h)
          else let h = Fopen f # h in
            (newLogger exist isDirectory (\<lambda>_. if k_ret K h = 0 then Some (SysError K h) else None) c, h))"

text \<open>\<open>fclose\<close> is repeated as \<open>close\<close> is.\<close>

definition fcloseLoop :: "'k Kernel_scheme \<Rightarrow> Event list \<Rightarrow> Event list option" where
  "fcloseLoop K = retryLoop K Fclose"

definition closeLogger :: "'k Kernel_scheme \<Rightarrow> Logger \<Rightarrow> Event list \<Rightarrow> Event list option" where
  "closeLogger K lg h = (case log_sink lg of ConsoleLogger \<Rightarrow> Some h | FileLogger _ \<Rightarrow> fcloseLoop K h)"

section \<open>What the log holds\<close>

text \<open>What was written to the log file with success, and what was printed.\<close>

primrec written :: "'k Kernel_scheme \<Rightarrow> Event list \<Rightarrow> string" where
  "written K [] = []"
| "written K (e # h) = written K h @ (case e of Fwrite s \<Rightarrow> if k_ret K (e # h) = 1 then s else [] | _ \<Rightarrow> [])"

primrec printed :: "Event list \<Rightarrow> string" where
  "printed [] = []"
| "printed (e # h) = printed h @ (case e of Stdout s \<Rightarrow> s | _ \<Rightarrow> [])"

text \<open>A sequence of messages, each with its time, as a program that logs them in order.\<close>

fun logAll :: "'k LogHost_scheme \<Rightarrow> Logger \<Rightarrow> (u64 \<times> Level \<times> string) list \<Rightarrow> (string, unit) act" where
  "logAll H lg [] h = (Ok (), h)"
| "logAll H lg ((ts, l, msg) # ms) h =
     (case logAt H lg ts l msg h of (Inl e, h) \<Rightarrow> (Fail e, h) | (Inr _, h) \<Rightarrow> logAll H lg ms h)"

definition message_text :: "'k LogHost_scheme \<Rightarrow> Logger \<Rightarrow> u64 \<times> Level \<times> string \<Rightarrow> string" where
  "message_text H lg m = (case m of (ts, l, msg) \<Rightarrow> logMessage (l_clock H) (l_fileClock H) (l_zone H) lg ts l msg)"

text \<open>Actions of a logger touch no socket and no capability.\<close>

definition log_event :: "Event \<Rightarrow> bool" where
  "log_event e \<longleftrightarrow> (case e of Now \<Rightarrow> True | Stdout _ \<Rightarrow> True | Fwrite _ \<Rightarrow> True | _ \<Rightarrow> False)"

abbreviation "logs_only \<equiv> adds log_event"

lemma logs_only_step: "log_event e \<Longrightarrow> logs_only h (e # h)"
  by (simp add: adds_Cons)

lemma logs_only_open: "logs_only h h' \<Longrightarrow> open_fds K h' = open_fds K h"
  by (rule adds_keeps) (auto simp: log_event_def split: Event.splits)

text \<open>
  The log: what was written to the file, or printed.  A message is logged whole, or its file refuses a part of it,
  the logger throws, and the log holds what is before that part.
\<close>

definition WriteFailed :: string where "WriteFailed = ''unable to write message to log file: ''"

definition log_text :: "'k Kernel_scheme \<Rightarrow> Logger \<Rightarrow> Event list \<Rightarrow> string" where
  "log_text K lg h = (case log_sink lg of ConsoleLogger \<Rightarrow> printed h | FileLogger _ \<Rightarrow> written K h)"

definition refused :: "'k Kernel_scheme \<Rightarrow> Logger \<Rightarrow> string \<Rightarrow> Event list \<Rightarrow> bool" where
  "refused K lg e h \<longleftrightarrow>
     log_sink lg \<noteq> ConsoleLogger \<and> (\<exists>s h0. h = Fwrite s # h0 \<and> k_ret K h \<noteq> 1 \<and> e = WriteFailed @ SysError K h)"

lemma logAt_cases:
  assumes "logAt H lg ts l msg h = (r, h')"
  shows "logs_only h h'"
    and "r = Ok () \<Longrightarrow> log_text H lg h' = log_text H lg h @ message_text H lg (ts, l, msg)"
    and "r = Fail e \<Longrightarrow> refused H lg e h' \<and> levelNo l \<le> log_maxLevel lg \<and>
      (\<exists>p q. message_text H lg (ts, l, msg) = p @ q \<and> q \<noteq> [] \<and> log_text H lg h' = log_text H lg h @ p)"
  using assms
  by (auto simp: logAt_def logWrite_def fileWrite_def message_text_def logMessage_def cstring_def Let_def WriteFailed_def
      log_event_def log_text_def refused_def line_def split: if_splits LogSink.splits
      intro: logs_only_step adds_trans [OF logs_only_step logs_only_step])

lemma logNow_cases:
  assumes "logNow H lg l msg h = (r, h')"
  shows "logs_only h h'" and "r = Fail e \<Longrightarrow> refused H lg e h'"
proof -
  have logged: "logAt H lg (l_now H (Now # h)) l msg (Now # h) = (r, h')" using assms by (simp add: logNow_def Let_def)
  show "logs_only h h'"
    using adds_trans [OF logs_only_step logAt_cases(1) [OF logged]] by (simp add: log_event_def)
  show "r = Fail e \<Longrightarrow> refused H lg e h'" using logAt_cases(3) [OF logged] by blast
qed

text \<open>The messages \<open>ms\<close> follow \<open>text\<close> in the log, up to the one that is refused.\<close>

definition logged ::
    "'k LogHost_scheme \<Rightarrow> Logger \<Rightarrow> string \<Rightarrow> (u64 \<times> Level \<times> string) list \<Rightarrow> (string, unit) outcome \<Rightarrow> Event list \<Rightarrow> bool" where
  "logged H lg start ms r h \<longleftrightarrow>
     (case r of
        Inr u \<Rightarrow> log_text H lg h = start @ concat (map (message_text H lg) ms)
      | Inl e \<Rightarrow> refused H lg e h \<and> (\<exists>i < length ms. \<exists>p q. message_text H lg (ms ! i) = p @ q \<and> q \<noteq> [] \<and>
          log_text H lg h = start @ concat (map (message_text H lg) (take i ms)) @ p))"

lemma logged_Cons:
  assumes "logged H lg (start @ message_text H lg m) ms r h"
  shows "logged H lg start (m # ms) r h"
proof (cases r)
  case (Inl e)
  then obtain i p q where "i < length ms" "message_text H lg (ms ! i) = p @ q" "q \<noteq> []"
    "log_text H lg h = (start @ message_text H lg m) @ concat (map (message_text H lg) (take i ms)) @ p" "refused H lg e h"
    using assms unfolding logged_def by auto
  then show ?thesis
    unfolding logged_def Inl sum.case by (intro conjI exI [of _ "Suc i"] exI [of _ p] exI [of _ q]) simp_all
qed (use assms in \<open>simp add: logged_def\<close>)

lemma logAll_cases:
  assumes "logAll H lg ms h = (r, h')"
  shows "logs_only h h' \<and> logged H lg (log_text H lg h) ms r h'"
  using assms
proof (induction ms arbitrary: h)
  case (Cons m ms)
  obtain ts l msg where m: "m = (ts, l, msg)" by (cases m)
  obtain r1 h1 where 1: "logAt H lg ts l msg h = (r1, h1)" by fastforce
  note step = logAt_cases [OF 1]
  show ?case
  proof (cases r1)
    case (Inl e)
    then obtain p q where pq: "message_text H lg m = p @ q" "q \<noteq> []" "log_text H lg h1 = log_text H lg h @ p"
      "refused H lg e h1" using step(3) unfolding m by blast
    have "r = Inl e" "h' = h1" using Cons.prems 1 Inl by (simp_all add: m)
    moreover have "logged H lg (log_text H lg h) (m # ms) (Inl e) h1"
      unfolding logged_def sum.case by (intro conjI exI [of _ 0] exI [of _ p] exI [of _ q]) (simp_all add: pq)
    ultimately show ?thesis using step(1) by simp
  next
    case (Inr u)
    then have rest: "logAll H lg ms h1 = (r, h')" and more: "log_text H lg h1 = log_text H lg h @ message_text H lg m"
      using Cons.prems 1 step(2) by (simp_all add: m)
    have "logs_only h1 h'" "logged H lg (log_text H lg h @ message_text H lg m) ms r h'"
      using Cons.IH [OF rest] by (simp_all add: more)
    then show ?thesis using logged_Cons step(1) adds_trans by blast
  qed
qed (auto simp: logged_def)

text \<open>A kernel does not interrupt \<open>fclose\<close> for ever.\<close>

definition fcloses :: "'k Kernel_scheme \<Rightarrow> bool" where
  "fcloses K \<longleftrightarrow> (\<forall>h. \<exists>n. \<not> interrupted K (replicate (Suc n) Fclose @ h))"

lemma closeLogger_ends:
  assumes "fcloses K"
  obtains n where "closeLogger K lg h = Some (replicate n Fclose @ h)" "n = 0 \<longleftrightarrow> log_sink lg = ConsoleLogger"
    "n \<noteq> 0 \<Longrightarrow> \<not> interrupted K (replicate n Fclose @ h)" "\<forall>i < n - 1. interrupted K (replicate (Suc i) Fclose @ h)"
proof (cases "log_sink lg")
  case ConsoleLogger
  then show thesis using that [of 0] by (simp add: closeLogger_def)
next
  case (FileLogger f)
  obtain m where "\<not> interrupted K (replicate (Suc m) Fclose @ h)" using assms by (auto simp: fcloses_def)
  from retryLoop_ends [OF this] obtain n where "retryLoop K Fclose h = Some (replicate (Suc n) Fclose @ h)"
    "\<not> interrupted K (replicate (Suc n) Fclose @ h)" "\<forall>i < n. interrupted K (replicate (Suc i) Fclose @ h)" by blast
  then show thesis using FileLogger that [of "Suc n"] by (simp add: closeLogger_def fcloseLoop_def)
qed

lemma openLogger_cases:
  assumes "openLogger K exist isDirectory c h = (Ok lg, h')"
  shows "lg = \<lparr>log_maxLevel = levelNo (level c),
      log_sink = (case logFileName c of None \<Rightarrow> ConsoleLogger | Some f \<Rightarrow> FileLogger f)\<rparr>"
    and "h' = (case logFileName c of None \<Rightarrow> h | Some f \<Rightarrow> Fopen f # h)"
    and "\<forall>f. logFileName c = Some f \<longrightarrow> \<not> exist f \<and> k_ret K h' \<noteq> 0"
  using assms by (auto simp: openLogger_def newLogger_def Let_def split: option.splits if_splits)

text \<open>C15: The life of a logger that was opened: its file, if it has one, exists since then and was not there
  before.  However the messages end, the log is closed once, after them, and holds them in order and nothing else,
  those above the level left out, up to the first that the file refuses; then the logger throws the error of the
  write, and logs no more.
\<close>

theorem log_file_life:
  assumes "fcloses H" and "openLogger H exist isDirectory c [] = (Ok lg, h0)" and "logAll H lg ms h0 = (r, h1)"
  shows "\<exists>n. closeLogger H lg h1 = Some (replicate n Fclose @ h1) \<and> (n = 0 \<longleftrightarrow> logFileName c = None) \<and>
    (\<forall>i < n. interrupted H (replicate (Suc i) Fclose @ h1) \<longleftrightarrow> i < n - 1) \<and>
    logs_only h0 h1 \<and> h0 = (case logFileName c of None \<Rightarrow> [] | Some f \<Rightarrow> [Fopen f]) \<and>
    logged H lg [] ms r h1"
proof -
  note opened = openLogger_cases [OF assms(2)]
  obtain n where n: "closeLogger H lg h1 = Some (replicate n Fclose @ h1)" "n = 0 \<longleftrightarrow> log_sink lg = ConsoleLogger"
    "n \<noteq> 0 \<Longrightarrow> \<not> interrupted H (replicate n Fclose @ h1)" "\<forall>i < n - 1. interrupted H (replicate (Suc i) Fclose @ h1)"
    using closeLogger_ends [OF assms(1)] by blast
  have "log_text H lg h0 = []" using opened(1,2) by (simp add: log_text_def split: option.splits)
  moreover have "\<forall>i < n. interrupted H (replicate (Suc i) Fclose @ h1) \<longleftrightarrow> i < n - 1"
  proof (intro allI impI)
    fix i assume "i < n"
    show "interrupted H (replicate (Suc i) Fclose @ h1) \<longleftrightarrow> i < n - 1"
    proof (cases "i < n - 1")
      case False
      then have "Suc i = n" using \<open>i < n\<close> by simp
      then show ?thesis using n(3) False by auto
    qed (use n(4) in simp)
  qed
  moreover have "n = 0 \<longleftrightarrow> logFileName c = None" using n(2) opened(1) by (simp split: option.splits)
  ultimately show ?thesis
    using logAll_cases [OF assms(3)] opened(2) n(1) by (intro exI [of _ n] conjI) simp_all
qed

text \<open>A disk that is full after the first write: the second part of the first message is lost.\<close>

definition fullDisk :: LogHost where
  "fullDisk =
     \<lparr>k_ret = (\<lambda>h. case h of Fopen f # _ \<Rightarrow> 9 | Fwrite s # h \<Rightarrow> if length h = 1 then 1 else 0 | _ \<Rightarrow> 0),
      k_errno = (\<lambda>_. 28), k_strerror = (\<lambda>_. ''No space left on device''), k_libcap = False,
      l_now = (\<lambda>_. 0), l_clock = (\<lambda>_. ''12:00:00''), l_fileClock = (\<lambda>_. ''2024-01-01 12:00:00''), l_zone = (\<lambda>_. ''+0000'')\<rparr>"

lemma log_file_life_witness:
  "\<exists>h1. logAll fullDisk \<lparr>log_maxLevel = 2, log_sink = FileLogger ''f''\<rparr>
      [(3000000000, LevelDebug, ''a''), (3000000000, LevelError, ''b''), (3000000000, LevelError, ''c'')] [Fopen ''f''] =
      (Fail ''unable to write message to log file: No space left on device'', h1) \<and>
    log_text fullDisk \<lparr>log_maxLevel = 2, log_sink = FileLogger ''f''\<rparr> h1 =
      fileTime (l_fileClock fullDisk) (l_zone fullDisk) 3000000000 @ '' '' @ levelText LevelError @ '': '' \<and>
    closeLogger fullDisk \<lparr>log_maxLevel = 2, log_sink = FileLogger ''f''\<rparr> h1 = Some (Fclose # h1)"
proof -
  let ?lg = "\<lparr>log_maxLevel = 2, log_sink = FileLogger ''f''\<rparr>"
  let ?ms = "[(3000000000, LevelDebug, ''a''), (3000000000, LevelError, ''b''), (3000000000, LevelError, ''c'')]"
  have closes: "fcloses fullDisk" by (auto simp: fcloses_def interrupted_def fullDisk_def)
  have opened: "openLogger fullDisk (\<lambda>_. False) (\<lambda>_. False) \<lparr>level = LevelError, logFileName = Some ''f''\<rparr> [] = (Ok ?lg, [Fopen ''f''])"
    by (simp add: openLogger_def newLogger_def levelNo_def fullDisk_def Let_def)
  obtain r h1 where run: "logAll fullDisk ?lg ?ms [Fopen ''f''] = (r, h1)" by fastforce
  have ret: "k_ret fullDisk (Fwrite t # [Fopen ''f'']) = 1" "k_ret fullDisk (Fwrite t # e # [Fopen ''f'']) = 0" for t e
    by (simp_all add: fullDisk_def)
  have "logAll fullDisk ?lg ?ms [Fopen ''f''] =
      (Fail ''unable to write message to log file: No space left on device'',
       [Fwrite (line ''b''), Fwrite (fileTime (l_fileClock fullDisk) (l_zone fullDisk) 3000000000 @ '' '' @ levelText LevelError @ '': ''),
        Fopen ''f''])"
    by (simp add: logAt_def logWrite_def fileWrite_def levelNo_def Let_def SysError_def ret) (simp add: fullDisk_def)
  then have r: "r = Fail ''unable to write message to log file: No space left on device''"
      "log_text fullDisk ?lg h1 =
      fileTime (l_fileClock fullDisk) (l_zone fullDisk) 3000000000 @ '' '' @ levelText LevelError @ '': ''"
    using run by (auto simp: log_text_def ret)
  have once: "\<not> interrupted fullDisk (Fclose # h1)" by (simp add: interrupted_def fullDisk_def)
  obtain n where n: "closeLogger fullDisk ?lg h1 = Some (replicate n Fclose @ h1)" "n = 0 \<longleftrightarrow> Some ''f'' = None"
      "\<forall>i < n. interrupted fullDisk (replicate (Suc i) Fclose @ h1) \<longleftrightarrow> i < n - 1"
    using log_file_life [OF closes opened run] by auto
  have "n = 1" using n(2) n(3) [rule_format, of 0] once by auto
  then show ?thesis using run r n(1) by (intro exI [of _ h1]) simp
qed

end
