(* ===== verification/PIMInterface.thy ===== *)
theory PIMInterface
  imports Loggers
begin

text \<open>
  The interface of the client, \<open>apps/pimc/net/IPv4PIMIntf.hpp\<close> and \<open>IPv4PIMIntf.cpp\<close>: the creation of its socket
  under raised capabilities, its moves and its destruction, and sending.
\<close>

section \<open>The interface\<close>

text \<open>
  A function that returns a \<open>Result\<close> and throws nothing, as a value.  An exception of \<open>create\<close> is one of the
  logger.  The interface owns its socket, and \<open>-1\<close> stands for none.
\<close>

definition prog_try :: "('e, 'a) prog \<Rightarrow> ('x, ('e, 'a) outcome) prog" where
  "prog_try m = (\<lambda>h. map_option (\<lambda>(r, h). (Ok r, h)) (m h))"

definition HdrInclFailed :: string where
  "HdrInclFailed = ''unable to configure socket to be supplied with a custom IP header: ''"

definition SocketCreated :: string where "SocketCreated = ''created IPv4 PIM socket''"

definition socketBound :: "PIMSMConfig \<Rightarrow> string" where
  "socketBound cfg =
     ''bound the IPv4 PIM socket to device '' @ intfName cfg @ '' (#'' @ dec_string (unat (intfIndex cfg)) @ '')''"

definition createSocket ::
    "'k LogHost_scheme \<Rightarrow> Logger \<Rightarrow> PIMSMConfig \<Rightarrow> (string, (string, int) outcome) prog" where
  "createSocket H lg cfg =
     prog_bind (prog_try (prog_bind (openIPv4PIMSocket H) (allowReuse H))) (\<lambda>rs.
       case rs of
         Inl e \<Rightarrow> prog_return (Fail e)
       | Inr s \<Rightarrow>
           prog_bind (perform (logNow H lg LevelDebug SocketCreated)) (\<lambda>_.
             deferred (closeLoop H s) (\<lambda>h.
               case prog_bind (syscall H (SetSockopt s (HdrIncl 1)) HdrInclFailed) (\<lambda>_. bindToDevice H s (intfName cfg)) h of
                 None \<Rightarrow> None
               | Some (Inl e, h) \<Rightarrow> Some ((False, Ok (Fail e)), h)
               | Some (Inr _, h) \<Rightarrow>
                   (case logNow H lg LevelDebug (socketBound cfg) h of
                      (Inl e, h) \<Rightarrow> Some ((False, Fail e), h)
                    | (Inr _, h) \<Rightarrow> Some ((True, Ok (Ok s)), h)))))"

definition createIntf ::
    "'k LogHost_scheme \<Rightarrow> Logger \<Rightarrow> string \<Rightarrow> PIMSMConfig \<Rightarrow> (string, (string, int) outcome) prog" where
  "createIntf H lg progname cfg =
     prog_bind (prog_try (raiseCaps H progname [''CAP_NET_RAW'', ''CAP_NET_BIND_SERVICE''])) (\<lambda>rcap.
       case rcap of
         Inl e \<Rightarrow> prog_return (Fail e)
       | Inr _ \<Rightarrow> prog_finally (createSocket H lg cfg) (\<lambda>h. Some (destroyCapState H h)))"

definition moveIntf :: "int \<Rightarrow> int \<times> int" where
  "moveIntf rhs = (rhs, -1)"

text \<open>\<open>same\<close> tells whether the two sides are the same object; otherwise the socket that the left side had is forgotten.\<close>

definition moveAssignIntf :: "bool \<Rightarrow> int \<Rightarrow> int \<Rightarrow> int \<times> int" where
  "moveAssignIntf same lhs rhs = (if same then (lhs, rhs) else (rhs, -1))"

definition destroyIntf :: "'k Kernel_scheme \<Rightarrow> int \<Rightarrow> Event list \<Rightarrow> Event list option" where
  "destroyIntf K s h = (if s \<noteq> -1 then closeLoop K s h else Some h)"

lemma intf_moves:
  "case moveIntf s of (t, r) \<Rightarrow> Option.bind (destroyIntf K r h) (destroyIntf K t) = destroyIntf K s h"
  "case moveAssignIntf False l s of (t, r) \<Rightarrow> Option.bind (destroyIntf K r h) (destroyIntf K t) = destroyIntf K s h"
  "moveAssignIntf True s s = (s, s)"
  by (simp_all add: moveIntf_def moveAssignIntf_def destroyIntf_def)

text \<open>Sending, to the group of all PIM routers and the port \<open>0\<close>.\<close>

definition pimSend :: "'k Kernel_scheme \<Rightarrow> bool \<Rightarrow> int \<Rightarrow> string \<Rightarrow> u8 list \<Rightarrow> (string, unit) act" where
  "pimSend K le s pktName pkt h =
     (let h = Sendto s pkt (to_nl le AllPIMRouters) 0 # h in
      (if k_ret K h = -1 then Fail (''unable to send PIM '' @ pktName @ '' packet: '' @ SysError K h) else Ok (), h))"

section \<open>What is left behind\<close>

lemma prog_try_simps [simp]:
  "m h = Some (r, h') \<Longrightarrow> prog_try m h = Some (Ok r, h')" "m h = None \<Longrightarrow> prog_try m h = None"
  "a h = (r, h') \<Longrightarrow> perform a h = Some (r, h')"
  by (simp_all add: prog_try_def perform_def)

text \<open>The exceptions of a logger.\<close>

definition log_refused :: "'k Kernel_scheme \<Rightarrow> Logger \<Rightarrow> string \<Rightarrow> bool" where
  "log_refused K lg e \<longleftrightarrow> (\<exists>h. refused K lg e h)"

lemma log_refusedI: "refused K lg e h \<Longrightarrow> log_refused K lg e"
  by (auto simp: log_refused_def)

text \<open>The outcomes of \<open>create\<close> with what they leave open; \<open>EnablingReuse\<close> starts the error of \<open>allowReuse\<close>.\<close>

definition socket_left :: "'k Kernel_scheme \<Rightarrow> Logger \<Rightarrow> (string, (string, int) outcome) outcome \<Rightarrow> Event list \<Rightarrow> bool" where
  "socket_left K lg r h \<longleftrightarrow>
     (case r of
        Inr (Inr s) \<Rightarrow> s \<noteq> -1 \<and> open_fds K h = {s}
      | Inr (Inl e) \<Rightarrow> if \<exists>t. e = EnablingReuse @ t then \<exists>s. open_fds K h = {s} else open_fds K h = {}
      | Inl e \<Rightarrow> log_refused K lg e \<and> (\<exists>s. open_fds K h \<subseteq> {s}))"

lemma openIPv4PIMSocket_cases:
  assumes "open_fds K h = {}"
  obtains e h' where "openIPv4PIMSocket K h = Some (Fail e, h')" "open_fds K h' = {}" "\<nexists>t. e = EnablingReuse @ t"
  | s h' where "openIPv4PIMSocket K h = Some (Ok s, h')" "s \<noteq> -1" "open_fds K h' = {s}"
proof -
  let ?h = "Socket PIMSocket # h" and ?s = "k_ret K (Socket PIMSocket # h)"
  have opened: "open_fds K ?h = (if ?s = -1 then {} else {?s})" using assms by simp
  have other: "\<nexists>t. LastResortMsg K = EnablingReuse @ t" "\<nexists>t. CHR ''u'' # m = EnablingReuse @ t" for m
    by (simp_all add: LastResortMsg_def EnablingReuse_def)
  show thesis
  proof (cases "?s = -1")
    case True
    then obtain e where "openIPv4PIMSocket K h = Some (Fail e, ?h)" "\<nexists>t. e = EnablingReuse @ t"
      using other by (cases "k_errno K ?h = EPERM") (auto simp: openIPv4PIMSocket_def Let_def)
    then show thesis using that(1) opened True by simp
  next
    case False
    then show thesis using that(2) [of ?s ?h] opened by (simp add: openIPv4PIMSocket_def Let_def)
  qed
qed

text \<open>The calls after the socket keep what is open.\<close>

lemma configure_cases:
  "\<exists>r h'. prog_bind (syscall K (SetSockopt s (HdrIncl 1)) HdrInclFailed) (\<lambda>_. bindToDevice K s ifn) h = Some (r, h') \<and>
    open_fds K h' = open_fds K h \<and> (\<forall>e. r = Fail e \<longrightarrow> hd e = CHR ''u'' \<or> hd e = CHR ''i'')"
proof -
  define h1 where "h1 = SetSockopt s (HdrIncl 1) # h"
  define h2 where "h2 = InterfaceIndex s (take 15 (cstring ifn)) # h1"
  define h3 where "h3 = SetSockopt s (BindToDevice (take 15 (cstring ifn))) # h2"
  note run = bindToDevice_def syscall_def prog_bind_def prog_return_def prog_throw_def Let_def h1_def [symmetric]
    h2_def [symmetric] h3_def [symmetric]
  have opens: "open_fds K h1 = open_fds K h" "open_fds K h2 = open_fds K h" "open_fds K h3 = open_fds K h"
    by (simp_all add: h1_def h2_def h3_def)
  consider "k_ret K h1 = -1" | "k_ret K h1 \<noteq> -1" "k_ret K h2 < 0" | "k_ret K h1 \<noteq> -1" "\<not> k_ret K h2 < 0" "k_ret K h3 = -1"
    | "k_ret K h1 \<noteq> -1" "\<not> k_ret K h2 < 0" "k_ret K h3 \<noteq> -1" by blast
  then show ?thesis by cases (simp_all add: run opens HdrInclFailed_def)
qed

lemma createSocket_cases:
  assumes "closes H" and "open_fds H h = {}"
  shows "\<exists>r h'. createSocket H lg cfg h = Some (r, h') \<and> socket_left H lg r h'"
  using assms(2)
proof (cases rule: openIPv4PIMSocket_cases)
  case (1 e h1)
  then show ?thesis by (simp add: createSocket_def socket_left_def)
next
  case (2 s h1)
  let ?h2 = "SetSockopt s (ReuseAddr 1) # h1"
  have opened: "open_fds H ?h2 = {s}" using 2 by simp
  show ?thesis
  proof (cases "k_ret H ?h2 = -1")
    case True
    then have "allowReuse H s h1 = Some (Fail (EnablingReuse @ SysError H ?h2), ?h2)"
      by (simp add: allowReuse_def syscall_def Let_def prog_bind_def)
    then have "createSocket H lg cfg h = Some (Ok (Fail (EnablingReuse @ SysError H ?h2)), ?h2)"
      using 2(1) by (simp add: createSocket_def)
    then show ?thesis using opened by (simp add: socket_left_def)
  next
    case False
    then have "allowReuse H s h1 = Some (Ok s, ?h2)"
      by (simp add: allowReuse_def syscall_def Let_def prog_bind_def)
    then have made: "prog_try (prog_bind (openIPv4PIMSocket H) (allowReuse H)) h = Some (Ok (Ok s), ?h2)"
      using 2(1) by simp
    obtain r3 h3 where 3: "logNow H lg LevelDebug SocketCreated ?h2 = (r3, h3)" by fastforce
    note log3 = logNow_cases [OF 3]
    have open3: "open_fds H h3 = {s}" using logs_only_open [OF log3(1)] opened by blast
    obtain r4 h4 where 4: "prog_bind (syscall H (SetSockopt s (HdrIncl 1)) HdrInclFailed) (\<lambda>_. bindToDevice H s (intfName cfg)) h3 = Some (r4, h4)"
      "open_fds H h4 = {s}" "\<forall>e. r4 = Fail e \<longrightarrow> hd e = CHR ''u'' \<or> hd e = CHR ''i''"
      using configure_cases [of H s "intfName cfg" h3] open3 by metis
    obtain r5 h5 where 5: "logNow H lg LevelDebug (socketBound cfg) h4 = (r5, h5)" by fastforce
    note log5 = logNow_cases [OF 5]
    have open5: "open_fds H h5 = {s}" using logs_only_open [OF log5(1)] 4(2) by blast
    have close: "\<exists>h'. closeLoop H s h'' = Some h' \<and> open_fds H h' = {}" if "open_fds H h'' = {s}" for h''
      using closeLoop_open [OF assms(1), of s h''] that by (metis Diff_cancel)
    note run = createSocket_def made 3 4(1) 5 deferred_def
    consider e where "r3 = Fail e" | e where "r3 = Ok ()" "r4 = Fail e" | e v where "r3 = Ok ()" "r4 = Ok v" "r5 = Fail e"
      | v where "r3 = Ok ()" "r4 = Ok v" "r5 = Ok ()" by (cases r3; cases r4; cases r5) auto
    then show ?thesis
    proof cases
      case 1
      then have "createSocket H lg cfg h = Some (Fail e, h3)" by (simp add: run)
      then show ?thesis using log_refusedI [OF log3(2) [OF 1]] open3 by (auto simp: socket_left_def)
    next
      case 2
      obtain h' where h': "closeLoop H s h4 = Some h'" "open_fds H h' = {}" using close [OF 4(2)] by blast
      then have "createSocket H lg cfg h = Some (Ok (Fail e), h')" using 2 by (simp add: run)
      moreover have "\<nexists>t. e = EnablingReuse @ t" using 4(3) 2 by (auto simp: EnablingReuse_def)
      ultimately show ?thesis using h'(2) by (simp add: socket_left_def)
    next
      case 3
      obtain h' where h': "closeLoop H s h5 = Some h'" "open_fds H h' = {}" using close [OF open5] by blast
      then have "createSocket H lg cfg h = Some (Fail e, h')" using 3 by (simp add: run)
      then show ?thesis using log_refusedI [OF log5(2) [OF 3(3)]] h'(2) by (auto simp: socket_left_def)
    next
      case 4
      then have "createSocket H lg cfg h = Some (Ok (Ok s), h5)" by (simp add: run)
      then show ?thesis using open5 \<open>s \<noteq> -1\<close> by (simp add: socket_left_def)
    qed
  qed
qed

lemma createIntf_cases:
  assumes "closes H" and "open_fds H h = {}"
  shows "\<exists>r h'. createIntf H lg progname cfg h = Some (r, h') \<and> socket_left H lg r h' \<and>
    (k_libcap H \<longrightarrow> dropped H eff h' \<or> (\<exists>e. r = Ok (Fail e) \<and> caps_kept e))"
proof -
  obtain r1 h1 where raised: "raiseCaps H progname [''CAP_NET_RAW'', ''CAP_NET_BIND_SERVICE''] h = Some (r1, h1)"
    "open_fds H h1 = {}" "\<forall>e. r1 = Fail e \<longrightarrow> hd e \<noteq> CHR ''e'' \<and> k_libcap H \<and> (dropped H eff h1 \<or> caps_kept e)"
    using raiseCaps_cases [of H progname "[''CAP_NET_RAW'', ''CAP_NET_BIND_SERVICE'']" h eff] assms(2) by auto
  show ?thesis
  proof (cases r1)
    case (Inl e)
    then have "\<nexists>t. e = EnablingReuse @ t" using raised(3) by (auto simp: EnablingReuse_def)
    with Inl raised show ?thesis by (simp add: createIntf_def socket_left_def)
  next
    case (Inr u)
    obtain r h' where made: "createSocket H lg cfg h1 = Some (r, h')" "socket_left H lg r h'"
      using createSocket_cases [OF assms(1) raised(2), of lg cfg] by blast
    then have "createIntf H lg progname cfg h = Some (r, destroyCapState H h')"
      using raised(1) Inr by (simp add: createIntf_def)
    moreover have "socket_left H lg r (destroyCapState H h')"
      using made(2) by (simp add: socket_left_def split: sum.splits)
    moreover have "k_libcap H \<longrightarrow> dropped H eff (destroyCapState H h')"
      using dropAllCaps_drops [of H eff h'] by (simp add: destroyCapState_def)
    ultimately show ?thesis by blast
  qed
qed

lemma destroyIntf_ends:
  assumes "closes K" and "s \<noteq> -1"
  obtains h' where "destroyIntf K s h = Some h'" "open_fds K h' = open_fds K h - {s}"
    "\<And>eff. dropped K eff h' = dropped K eff h"
proof -
  obtain h' where "closeLoop K s h = Some h'" "open_fds K h' = open_fds K h - {s}"
    "\<And>eff. dropped K eff h' = dropped K eff h"
    using closeLoop_open [OF assms(1), of s h] by blast
  with assms(2) show thesis by (intro that [of h']) (simp_all add: destroyIntf_def)
qed


text \<open>A kernel that refuses to enable reuse.\<close>

definition leakyHost :: LogHost where
  "leakyHost =
     \<lparr>k_ret = (\<lambda>h. case h of
          SetSockopt s (ReuseAddr v) # _ \<Rightarrow> -1
        | Socket k # _ \<Rightarrow> 3
        | CapGetProc # _ \<Rightarrow> 7
        | CapInit # _ \<Rightarrow> 8
        | _ \<Rightarrow> 0),
      k_errno = (\<lambda>_. 22), k_strerror = (\<lambda>_. ''Invalid argument''), k_libcap = True,
      l_now = (\<lambda>_. 0), l_clock = (\<lambda>_. []), l_fileClock = (\<lambda>_. []), l_zone = (\<lambda>_. [])\<rparr>"

lemma leakyHost_closes: "closes leakyHost"
  by (simp add: closes_def interrupted_def leakyHost_def)

lemma leakyHost_drops: "\<not> drop_failed leakyHost eff h"
  by (induction h) (auto simp: leakyHost_def split: Event.splits)

definition infoLogger :: Logger where
  "infoLogger = \<lparr>log_maxLevel = levelNo LevelInfo, log_sink = ConsoleLogger\<rparr>"


text \<open>
  If \<open>cap_init\<close> has no memory when the capabilities are to be given up, the interface is created and the process
  keeps both.
\<close>

definition scantHost :: LogHost where
  "scantHost = leakyHost\<lparr>k_ret := (\<lambda>h. case h of Socket k # _ \<Rightarrow> 3 | CapGetProc # _ \<Rightarrow> 7 | InterfaceIndex s i # _ \<Rightarrow> 2 | _ \<Rightarrow> 0)\<rparr>"

lemma capabilities_survive:
  defines "h \<equiv> [CapInit, Now, SetSockopt 3 (BindToDevice ''eth0''), InterfaceIndex 3 ''eth0'', SetSockopt 3 (HdrIncl 1), Now,
    SetSockopt 3 (ReuseAddr 1), Socket PIMSocket, CapFree 7, CapSetProc 7, CapSetFlag 7 ''CAP_NET_BIND_SERVICE'', CapGetProc,
    CapFree 7, CapSetProc 7, CapSetFlag 7 ''CAP_NET_RAW'', CapGetProc]"
  shows "createIntf scantHost infoLogger ''pimc'' samplePIMSM [] = Some (Ok (Ok 3), h)"
    and "effective scantHost {} h = {''CAP_NET_RAW'', ''CAP_NET_BIND_SERVICE''}"
proof -
  show "createIntf scantHost infoLogger ''pimc'' samplePIMSM [] = Some (Ok (Ok 3), h)"
    unfolding h_def by code_simp
  show "effective scantHost {} h = {''CAP_NET_RAW'', ''CAP_NET_BIND_SERVICE''}"
    by (auto simp: effective_def scantHost_def leakyHost_def h_def)
qed

text \<open>A capability stays effective if the next one cannot be raised because its state cannot be read.\<close>

definition forgetfulHost :: LogHost where
  "forgetfulHost =
     \<lparr>k_ret = (\<lambda>h. case h of CapGetProc # h \<Rightarrow> if h = [] then 7 else 0 | CapInit # _ \<Rightarrow> 8 | _ \<Rightarrow> 0),
      k_errno = (\<lambda>_. 12), k_strerror = (\<lambda>_. ''Cannot allocate memory''), k_libcap = True,
      l_now = (\<lambda>_. 0), l_clock = (\<lambda>_. []), l_fileClock = (\<lambda>_. []), l_zone = (\<lambda>_. [])\<rparr>"

lemma capability_kept:
  defines "h \<equiv> [CapGetProc, CapFree 7, CapSetProc 7, CapSetFlag 7 ''CAP_NET_RAW'', CapGetProc]"
  shows "createIntf forgetfulHost infoLogger ''pimc'' samplePIMSM [] =
      Some (Ok (Fail ''cap_get_proc() failed: Cannot allocate memory''), h)"
    and "effective forgetfulHost {} h = {''CAP_NET_RAW''}"
proof -
  show "createIntf forgetfulHost infoLogger ''pimc'' samplePIMSM [] =
      Some (Ok (Fail ''cap_get_proc() failed: Cannot allocate memory''), h)"
    unfolding h_def by code_simp
  show "effective forgetfulHost {} h = {''CAP_NET_RAW''}"
    by (simp add: effective_def forgetfulHost_def h_def)
qed

end
