(* ===== verification/ClientSystem.thy ===== *)
theory ClientSystem
  imports Client PIMInterface
begin

text \<open>
  The client as the operating system sees it: \<open>ipv4exec\<close> (\<open>apps/pimc/scheduler\<close>) and \<open>main\<close>
  (\<open>apps/pimc/Main.cpp\<close>) down to the calls of the kernel, with the log and the exceptions of the logger.
  \<open>Scheduler\<close> and \<open>Client\<close> are the abstract view of the same code, in which the answers of the socket and of the
  clock are given; a run here refines a run there.
\<close>

section \<open>The host\<close>

record ClientHost = LogHost +
  ch_stopped :: "Event list \<Rightarrow> bool"

section \<open>Texts of the log\<close>

definition helloDescr :: "u16 \<Rightarrow> u32 \<Rightarrow> u32 \<Rightarrow> string" where
  "helloDescr holdtime dr gid =
     (if holdtime > 0
      then ''IPv4 PIM Hello [holdtime '' @ dec_string (unat holdtime) @ ''s, DR priority '' @ dec_string (unat dr) @
        '', generation ID '' @ hexWord gid @ '']''
      else ''IPv4 PIM Goodbye [DR priority '' @ dec_string (unat dr) @ '', generation ID '' @ hexWord gid @ '']'')"

definition updateDescr :: "nat \<Rightarrow> Update \<Rightarrow> PIMSMConfig \<Rightarrow> string" where
  "updateDescr n u cfg =
     ''IPv4 PIM Join/Prune Update packet #'' @ dec_string n @ '' with '' @ dec_string (length (upd_groups u)) @ '' group'' @
     plural (length (upd_groups u)) @ '', neighbor '' @ addr_string (neighbor cfg) @ '', holdtime '' @
     dec_string (unat (jpHoldtime cfg)) @ line ''s'' @ concat (map groupEntryText (upd_groups u))"

text \<open>Both loops over the updates count them from 1.\<close>

definition updateDescrs :: "PIMSMConfig \<Rightarrow> Update list \<Rightarrow> string list" where
  "updateDescrs cfg us = map (\<lambda>(n, u). updateDescr n u cfg) (List.enumerate 1 us)"

definition numberedText :: "string \<Rightarrow> string \<Rightarrow> Update list \<Rightarrow> string" where
  "numberedText intro noun us =
     cstring (intro @ dec_string (length us) @ noun @ plural (length us) @ line '':'' @
       concat (map (\<lambda>(n, u). numberedUpdateText n u) (List.enumerate 1 us)))"

text \<open>What \<open>ipv4exec\<close> logs first, with the time of its start.\<close>

definition logConfig :: "'k LogHost_scheme \<Rightarrow> Logger \<Rightarrow> PIMCConfig \<Rightarrow> u64 \<Rightarrow> (string, unit) act" where
  "logConfig H lg cfg ts =
     logAll H lg (map (\<lambda>msg. (ts, LevelDebug, msg))
       ([line ''PIM SM config:'' @ pimsmConfigText (pimsmConfig cfg),
         line ''Join/Prune Config:'' @ '' '' @ jpConfigText (jpConfig cfg)] @
        (if log_enabled lg LevelDebug
         then [numberedText ''Will be sending '' '' update'' (cfg_updates cfg),
           numberedText ''Once terminated will send '' '' inverse update'' (inverseUpdates cfg)]
         else [])))"

section \<open>Events\<close>

text \<open>
  The times of the scheduler with the history.  An event fails with an error of the socket, which is a value, or
  with the exception of a logger, which ends the queue of events in the same way.
\<close>

record SysState =
  y_ts :: u64
  y_hello_next :: u64
  y_jp_next :: u64
  y_hist :: "Event list"

datatype fire_error = SendError string | LogError string

definition onHist :: "('e, 'a) act \<Rightarrow> SysState \<Rightarrow> ('e, 'a) outcome \<times> SysState" where
  "onHist a y = (case a (y_hist y) of (r, h) \<Rightarrow> (r, y\<lparr>y_hist := h\<rparr>))"

definition sysUpdate :: "'k LogHost_scheme \<Rightarrow> SysState \<Rightarrow> SysState" where
  "sysUpdate H y = (let h = Now # y_hist y in y\<lparr>y_ts := l_now H h, y_hist := h\<rparr>)"

text \<open>A packet with its description, which is logged when it is sent.\<close>

definition sendLogged ::
    "'k LogHost_scheme \<Rightarrow> bool \<Rightarrow> Logger \<Rightarrow> int \<Rightarrow> string \<Rightarrow> u8 list \<times> string \<Rightarrow> (fire_error, unit) act" where
  "sendLogged H le lg fd pktName pd h =
     (case pimSend H le fd pktName (fst pd) h of
        (Inl e, h) \<Rightarrow> (Fail (SendError e), h)
      | (Inr _, h) \<Rightarrow>
          (case logNow H lg LevelDebug (''sent '' @ snd pd) h of
             (Inl e, h) \<Rightarrow> (Fail (LogError e), h)
           | (Inr _, h) \<Rightarrow> (Ok (), h)))"

fun sendAllLogged ::
    "'k LogHost_scheme \<Rightarrow> bool \<Rightarrow> Logger \<Rightarrow> int \<Rightarrow> string \<Rightarrow> (u8 list \<times> string) list \<Rightarrow> (fire_error, unit) act" where
  "sendAllLogged H le lg fd pktName [] h = (Ok (), h)"
| "sendAllLogged H le lg fd pktName (pd # pds) h =
     (case sendLogged H le lg fd pktName pd h of
        (r, h) \<Rightarrow> if hasError r then (r, h) else sendAllLogged H le lg fd pktName pds h)"

definition sysHelloReady :: "u64 \<Rightarrow> SysState \<Rightarrow> bool \<times> SysState" where
  "sysHelloReady period y =
     (if y_hello_next y \<le> y_ts y then (True, y\<lparr>y_hello_next := inSec (y_ts y) period\<rparr>) else (False, y))"

definition sysJpReady :: "u64 \<Rightarrow> SysState \<Rightarrow> bool \<times> SysState" where
  "sysJpReady period y =
     (if y_jp_next y \<le> y_ts y then (True, y\<lparr>y_jp_next := inSec (y_ts y) period\<rparr>) else (False, y))"

definition sysHelloEvent ::
    "'k LogHost_scheme \<Rightarrow> bool \<Rightarrow> Logger \<Rightarrow> int \<Rightarrow> u8 list \<times> string \<Rightarrow> u64 \<Rightarrow> (SysState, fire_error) EventHandler" where
  "sysHelloEvent H le lg fd pd period =
     \<lparr>eh_ready = sysHelloReady period, eh_fire = onHist (sendLogged H le lg fd ''Hello'' pd)\<rparr>"

definition sysJpUpdateEvent ::
    "'k LogHost_scheme \<Rightarrow> bool \<Rightarrow> Logger \<Rightarrow> int \<Rightarrow> (u8 list \<times> string) list \<Rightarrow> u64 \<Rightarrow> (SysState, fire_error) EventHandler" where
  "sysJpUpdateEvent H le lg fd pds period =
     \<lparr>eh_ready = sysJpReady period, eh_fire = onHist (sendAllLogged H le lg fd ''Join/Prune Update'' pds)\<rparr>"

section \<open>The main loop\<close>

text \<open>The error of an event is logged, with the time of the timer, and is the result \<open>false\<close>.\<close>

definition reportFailure :: "'k LogHost_scheme \<Rightarrow> Logger \<Rightarrow> fire_error \<Rightarrow> SysState \<Rightarrow> (string, bool) outcome \<times> Event list" where
  "reportFailure H lg e y =
     (case e of
        LogError m \<Rightarrow> (Fail m, y_hist y)
      | SendError m \<Rightarrow>
          (case logAt H lg (y_ts y) LevelError m (y_hist y) of (Inl m, h) \<Rightarrow> (Fail m, h) | (Inr _, h) \<Rightarrow> (Ok False, h)))"

partial_function (option) clientLoop ::
    "'k ClientHost_scheme \<Rightarrow> (SysState, fire_error) EventHandler list \<Rightarrow> SysState \<Rightarrow>
     ((fire_error, unit) outcome \<times> SysState) option" where
  "clientLoop H events y =
     (let y = y\<lparr>y_hist := IsStopped # y_hist y\<rparr> in
      if ch_stopped H (y_hist y) then Some (Ok (), y)
      else (case runOnce events (sysUpdate H y) of
          (Inl e, y) \<Rightarrow> Some (Fail e, y)
        | (Inr _, y) \<Rightarrow> clientLoop H events (y\<lparr>y_hist := SleepMillis 100 # y_hist y\<rparr>)))"

declare clientLoop.simps [code]

definition clientLeave ::
    "'k LogHost_scheme \<Rightarrow> bool \<Rightarrow> Logger \<Rightarrow> int \<Rightarrow> (u8 list \<times> string) list \<Rightarrow> u8 list \<times> string \<Rightarrow> SysState \<Rightarrow>
     (string, bool) outcome \<times> Event list" where
  "clientLeave H le lg fd invPkts goodbye y =
     (case onHist (sendAllLogged H le lg fd ''Goodbye Join/Prune Update'' invPkts) (sysUpdate H y) of
        (Inl e, y) \<Rightarrow> reportFailure H lg e y
      | (Inr _, y) \<Rightarrow>
          (case onHist (sendLogged H le lg fd ''Goodbye'' goodbye) (sysUpdate H y) of
             (Inl e, y) \<Rightarrow> reportFailure H lg e y
           | (Inr _, y) \<Rightarrow> (Ok True, y_hist y)))"

section \<open>A run\<close>

text \<open>
  The exceptions of a run: those of the logger, and those of the packets.  The stack is unwound also for the
  latter, although the program does not catch them.
\<close>

datatype exec_error = RuntimeError string | LogicError packet_error

definition runtime :: "(string, 'a) prog \<Rightarrow> (exec_error, 'a) prog" where
  "runtime m = (\<lambda>h. map_option (\<lambda>(r, h). (case r of Inl e \<Rightarrow> Fail (RuntimeError e) | Inr a \<Rightarrow> Ok a, h)) (m h))"

definition built :: "(packet_error, 'a) outcome option \<Rightarrow> (exec_error, 'a) prog" where
  "built p =
     (\<lambda>h. case p of None \<Rightarrow> None | Some (Inl e) \<Rightarrow> Some (Fail (LogicError e), h) | Some (Inr a) \<Rightarrow> Some (Ok a, h))"

text \<open>The loop and the withdrawal after it, with the packets of the events.\<close>

definition runEvents ::
    "'k ClientHost_scheme \<Rightarrow> bool \<Rightarrow> Logger \<Rightarrow> int \<Rightarrow> PIMCConfig \<Rightarrow> u64 \<Rightarrow> u8 list \<Rightarrow> u8 list list \<Rightarrow> u8 list \<Rightarrow> u8 list list \<Rightarrow>
     (string, bool) prog" where
  "runEvents H le lg fd cfg t0 goodbye invPkts hello updates h =
     (let pc = pimsmConfig cfg; jp = ucast (jpPeriod pc); dr = drPriority pc; gid = generationId pc;
          y = \<lparr>y_ts = t0, y_hello_next = t0, y_jp_next = inSec t0 jp, y_hist = h\<rparr>;
          events = [sysHelloEvent H le lg fd (hello, helloDescr (helloHoldtime pc) dr gid) (ucast (helloPeriod pc)),
            sysJpUpdateEvent H le lg fd (zip updates (updateDescrs pc (cfg_updates cfg))) jp]
      in case clientLoop H events y of
           None \<Rightarrow> None
         | Some (Inl e, y) \<Rightarrow> Some (reportFailure H lg e y)
         | Some (Inr _, y) \<Rightarrow>
             Some (clientLeave H le lg fd (zip invPkts (updateDescrs pc (inverseUpdates cfg))) (goodbye, helloDescr 0 dr gid) y))"

definition execEvents ::
    "'k ClientHost_scheme \<Rightarrow> bool \<Rightarrow> (nat \<Rightarrow> u64) \<Rightarrow> Logger \<Rightarrow> int \<Rightarrow> PIMCConfig \<Rightarrow> (exec_error, bool) prog" where
  "execEvents H le base lg fd cfg h =
     (let pc = pimsmConfig cfg; n = length (inverseUpdates cfg); h = Now # h; t0 = l_now H h in
      prog_bind (built (goodbyePacket le (base 0) pc)) (\<lambda>goodbye.
      prog_bind (built (updatePackets le base pc 1 (inverseUpdates cfg))) (\<lambda>invPkts.
      prog_bind (built (helloPacket le (base (n + 1)) pc)) (\<lambda>hello.
      prog_bind (built (updatePackets le base pc (n + 2) (cfg_updates cfg))) (\<lambda>updates.
        runtime (runEvents H le lg fd cfg t0 goodbye invPkts hello updates))))) h)"

definition clientExec ::
    "'k ClientHost_scheme \<Rightarrow> bool \<Rightarrow> (nat \<Rightarrow> u64) \<Rightarrow> Logger \<Rightarrow> string \<Rightarrow> PIMCConfig \<Rightarrow> (exec_error, bool) prog" where
  "clientExec H le base lg progname cfg h =
     (let h = Now # h; ts = l_now H h in
      prog_bind (runtime (perform (logConfig H lg cfg ts))) (\<lambda>_.
      prog_bind (runtime (createIntf H lg progname (pimsmConfig cfg))) (\<lambda>r.
        case r of
          Inl e \<Rightarrow> prog_bind (runtime (perform (logNow H lg LevelError e))) (\<lambda>_. prog_return False)
        | Inr fd \<Rightarrow> prog_finally (execEvents H le base lg fd cfg) (destroyIntf H fd))) h)"

section \<open>The program\<close>

datatype system_end = SystemExit nat | SystemTerminated logic_error

text \<open>An exception that \<open>main\<close> catches.\<close>

definition exitWith :: "nat \<Rightarrow> string \<Rightarrow> Event list \<Rightarrow> (system_end \<times> Event list) option" where
  "exitWith code m h = Some (SystemExit code, Stderr (line (''error: '' @ m)) # h)"

definition clientProcess ::
    "'k ClientHost_scheme \<Rightarrow> 'n World \<Rightarrow> string \<Rightarrow> PIMCConfig \<Rightarrow> Event list \<Rightarrow> (system_end \<times> Event list) option" where
  "clientProcess H W progname cfg h =
     (case openLogger H (h_exists (w_host W)) (h_isDirectory (w_host W)) (loggingConfig cfg) h of
        (Inl e, h) \<Rightarrow> exitWith 1 e h
      | (Inr lg, h) \<Rightarrow>
          (case prog_finally (clientExec H (w_le W) (w_base W) lg progname cfg) (closeLogger H lg) h of
             None \<Rightarrow> None
           | Some (Inl (RuntimeError e), h) \<Rightarrow> exitWith 1 e h
           | Some (Inl (LogicError e), h) \<Rightarrow> Some (SystemTerminated (PacketMisuse e), h)
           | Some (Inr res, h) \<Rightarrow> Some (SystemExit (if res then 0 else 1), h)))"

definition clientSystem :: "'k ClientHost_scheme \<Rightarrow> 'n World \<Rightarrow> string list \<Rightarrow> (system_end \<times> Event list) option" where
  "clientSystem H W argv =
     (case installSignals H [2, 15, 1] [] of
        None \<Rightarrow> None
      | Some (Inl e, h) \<Rightarrow> exitWith 1 e h
      | Some (Inr _, h) \<Rightarrow>
          (case loadIPv4Config W argv of
             None \<Rightarrow> None
           | Some (err, res) \<Rightarrow>
               let h = (if err = [] then h else Stderr err # h) in
               (case res of
                  Finished cfg \<Rightarrow> clientProcess H W (argv ! 0) cfg h
                | Exits out \<Rightarrow> Some (SystemExit 0, Stdout out # h)
                | ThrowsCommandLine m \<Rightarrow> exitWith 2 m h
                | ThrowsRuntime m \<Rightarrow> exitWith 1 m h
                | ThrowsLogic e \<Rightarrow> Some (SystemTerminated e, h))))"

section \<open>What a history says of the socket\<close>

text \<open>The answers of the socket in their order, the packets it took, and what went to the standard error output.\<close>

primrec answers :: "'k Kernel_scheme \<Rightarrow> Event list \<Rightarrow> bool list" where
  "answers K [] = []"
| "answers K (e # h) = answers K h @ (case e of Sendto _ _ _ _ \<Rightarrow> [k_ret K (e # h) \<noteq> -1] | _ \<Rightarrow> [])"

primrec taken :: "'k Kernel_scheme \<Rightarrow> Event list \<Rightarrow> u8 list list" where
  "taken K [] = []"
| "taken K (e # h) = taken K h @ (case e of Sendto _ pkt _ _ \<Rightarrow> if k_ret K (e # h) = -1 then [] else [pkt] | _ \<Rightarrow> [])"

primrec stderr_text :: "Event list \<Rightarrow> string" where
  "stderr_text [] = []"
| "stderr_text (e # h) = stderr_text h @ (case e of Stderr t \<Rightarrow> t | _ \<Rightarrow> [])"

definition body_event :: "Event \<Rightarrow> bool" where
  "body_event e \<longleftrightarrow>
     (case e of Sendto _ _ _ _ \<Rightarrow> True | IsStopped \<Rightarrow> True | SleepMillis _ \<Rightarrow> True | _ \<Rightarrow> log_event e)"

lemma adds_body: "logs_only h h' \<Longrightarrow> adds body_event h h'"
  by (erule adds_mono) (auto simp: body_event_def log_event_def split: Event.splits)

lemma logs_only_socket:
  assumes "logs_only h h'"
  shows "answers K h' = answers K h" "taken K h' = taken K h" "stderr_text h' = stderr_text h"
  by (rule adds_keeps [OF _ assms]; auto simp: log_event_def split: Event.splits)+

lemma body_keeps:
  assumes "adds body_event h h'"
  shows "open_fds K h' = open_fds K h" "cap_state K eff h' = cap_state K eff h" "stderr_text h' = stderr_text h"
    "drop_failed K eff h' = drop_failed K eff h"
  by (rule adds_keeps [OF _ assms];
      auto simp: body_event_def log_event_def Let_def split: Event.splits prod.splits)+

lemma answers_grow:
  assumes "adds P h h'"
  obtains bs where "answers K h' = answers K h @ bs"
proof -
  have "\<exists>bs. answers K (es @ h) = answers K h @ bs" for es by (induction es) auto
  then show thesis using assms that by (auto simp: adds_def)
qed

text \<open>The answers of a history as those of \<open>Scheduler\<close>, by the number of the call.\<close>

definition agrees :: "(nat \<Rightarrow> bool) \<Rightarrow> 'k Kernel_scheme \<Rightarrow> Event list \<Rightarrow> bool" where
  "agrees accepts K h \<longleftrightarrow> (\<forall>i < length (answers K h). accepts i = answers K h ! i)"

lemma agrees_before: "agrees accepts K h' \<Longrightarrow> adds P h h' \<Longrightarrow> agrees accepts K h"
  by (elim answers_grow [of P h h' K]) (auto simp: agrees_def nth_append)

section \<open>The scheduler on the kernel\<close>

text \<open>A state of \<open>Scheduler\<close> as the view of a state here, and an outcome there as that of an outcome here.\<close>

definition viewed :: "'k Kernel_scheme \<Rightarrow> SysState \<Rightarrow> SchedState \<Rightarrow> bool" where
  "viewed K y s \<longleftrightarrow> st_ts s = y_ts y \<and> st_hello_next s = y_hello_next y \<and> st_jp_next s = y_jp_next y \<and>
     map snd (st_sent s) = taken K (y_hist y) \<and> st_calls s = length (answers K (y_hist y))"

definition same_outcome :: "(fire_error, 'a) outcome \<Rightarrow> (send_error, 'a) outcome \<Rightarrow> bool" where
  "same_outcome r r' \<longleftrightarrow>
     (case r of Inl (SendError m) \<Rightarrow> hasError r' | Inl (LogError m) \<Rightarrow> False | Inr v \<Rightarrow> r' = Inr v)"

text \<open>
  A step on the kernel refines a step of \<open>Scheduler\<close>: whatever answers the history after it gives are also the
  answers there.
\<close>

definition refines ::
    "'k Kernel_scheme \<Rightarrow> (SysState \<Rightarrow> (fire_error, 'a) outcome \<times> SysState) \<Rightarrow>
     ((nat \<Rightarrow> bool) \<Rightarrow> SchedState \<Rightarrow> (send_error, 'a) outcome \<times> SchedState) \<Rightarrow> bool" where
  "refines K c a \<longleftrightarrow>
     (\<forall>y r y'. c y = (r, y') \<longrightarrow> adds body_event (y_hist y) (y_hist y') \<and>
        (\<forall>accepts s. viewed K y s \<and> agrees accepts K (y_hist y') \<longrightarrow>
           (\<exists>r' s'. a accepts s = (r', s') \<and> viewed K y' s' \<and> same_outcome r r')))"

lemma refinesD:
  assumes "refines K c a" and "c y = (r, y')"
  shows "adds body_event (y_hist y) (y_hist y')"
    and "viewed K y s \<Longrightarrow> agrees accepts K (y_hist y') \<Longrightarrow>
      \<exists>r' s'. a accepts s = (r', s') \<and> viewed K y' s' \<and> same_outcome r r'"
  using assms unfolding refines_def by blast+

text \<open>A log whose file takes every write throws nothing.\<close>

definition writes :: "'k Kernel_scheme \<Rightarrow> bool" where
  "writes K \<longleftrightarrow> (\<forall>s h. k_ret K (Fwrite s # h) = 1)"

lemma writes_not_refused: "writes K \<Longrightarrow> \<not> refused K lg e h"
  by (auto simp: writes_def refused_def)

lemma writes_log:
  assumes "writes H"
  shows "fst (logAt H lg ts l msg h) = Ok ()" "fst (logNow H lg l msg h) = Ok ()"
proof -
  obtain r h' where r: "logAt H lg ts l msg h = (r, h')" by fastforce
  then show "fst (logAt H lg ts l msg h) = Ok ()"
    using logAt_cases(3) [OF r] writes_not_refused [OF assms] by (cases r) auto
  obtain q k where q: "logNow H lg l msg h = (q, k)" by fastforce
  then show "fst (logNow H lg l msg h) = Ok ()"
    using logNow_cases(2) [OF q] writes_not_refused [OF assms] by (cases q) auto
qed

lemma sendLogged_refines:
  assumes "writes H"
  shows "refines H (onHist (sendLogged H le lg fd name pd)) (\<lambda>accepts. intf_send accepts name' (fst pd))"
  unfolding refines_def
proof (intro allI impI)
  fix y r y'
  assume run: "onHist (sendLogged H le lg fd name pd) y = (r, y')"
  let ?h = "Sendto fd (fst pd) (to_nl le AllPIMRouters) 0 # y_hist y"
  obtain h' where logged: "logNow H lg LevelDebug (''sent '' @ snd pd) ?h = (Ok (), h')"
    using writes_log(2) [OF assms] by (metis prod.collapse)
  note only = logNow_cases(1) [OF logged]
  have sent: "adds body_event (y_hist y) ?h" by (simp add: adds_Cons body_event_def)
  show "adds body_event (y_hist y) (y_hist y') \<and>
    (\<forall>accepts s. viewed H y s \<and> agrees accepts H (y_hist y') \<longrightarrow>
       (\<exists>r' s'. intf_send accepts name' (fst pd) s = (r', s') \<and> viewed H y' s' \<and> same_outcome r r'))"
  proof (cases "k_ret H ?h = -1")
    case True
    then obtain m where "r = Fail (SendError m)" "y' = y\<lparr>y_hist := ?h\<rparr>"
      using run by (auto simp: onHist_def sendLogged_def pimSend_def Let_def)
    then show ?thesis
      using sent True by (auto simp: viewed_def agrees_def intf_send_def same_outcome_def hasError_def nth_append Let_def)
  next
    case False
    then have "r = Ok ()" "y' = y\<lparr>y_hist := h'\<rparr>"
      using run logged by (auto simp: onHist_def sendLogged_def pimSend_def Let_def)
    moreover have "answers H h' = answers H (y_hist y) @ [True]" "taken H h' = taken H (y_hist y) @ [fst pd]"
      using False by (simp_all add: logs_only_socket [OF only])
    ultimately show ?thesis
      using adds_trans [OF sent adds_body [OF only]]
      by (auto simp: viewed_def agrees_def intf_send_def same_outcome_def nth_append Let_def)
  qed
qed

lemma onHist_sendAllLogged:
  "onHist (sendAllLogged H le lg fd name []) y = (Ok (), y)"
  "onHist (sendAllLogged H le lg fd name (pd # pds)) y =
     (case onHist (sendLogged H le lg fd name pd) y of
        (r, y) \<Rightarrow> if hasError r then (r, y) else onHist (sendAllLogged H le lg fd name pds) y)"
  by (auto simp: onHist_def split: prod.splits)

lemma sendAllLogged_refines:
  assumes "writes H"
  shows "refines H (onHist (sendAllLogged H le lg fd name pds)) (\<lambda>accepts. sendAll accepts name' (map fst pds))"
  unfolding refines_def
proof (intro allI impI)
  fix y r y'
  assume "onHist (sendAllLogged H le lg fd name pds) y = (r, y')"
  then show "adds body_event (y_hist y) (y_hist y') \<and>
    (\<forall>accepts s. viewed H y s \<and> agrees accepts H (y_hist y') \<longrightarrow>
       (\<exists>r' s'. sendAll accepts name' (map fst pds) s = (r', s') \<and> viewed H y' s' \<and> same_outcome r r'))"
  proof (induction pds arbitrary: y)
    case Nil
    then have "r = Ok ()" "y' = y" unfolding onHist_sendAllLogged by simp_all
    then show ?case by (simp add: same_outcome_def)
  next
    case (Cons pd pds)
    obtain r1 y1 where 1: "onHist (sendLogged H le lg fd name pd) y = (r1, y1)" by fastforce
    note prems = Cons.prems [unfolded onHist_sendAllLogged 1 prod.case]
    note first = refinesD [OF sendLogged_refines [OF assms, where name' = name'] 1]
    show ?case
    proof (cases r1)
      case (Inl e)
      then have "r = r1" "y' = y1" using prems by (simp_all add: hasError_def)
      moreover have "sendAll accepts name' (map fst (pd # pds)) s = intf_send accepts name' (fst pd) s"
        if "intf_send accepts name' (fst pd) s = (r', s')" "same_outcome r1 r'" for accepts s r' s'
        using that Inl by (auto simp: same_outcome_def split: fire_error.splits)
      ultimately show ?thesis using first by metis
    next
      case (Inr v)
      then have rest: "onHist (sendAllLogged H le lg fd name pds) y1 = (r, y')"
        using prems by (simp add: hasError_def)
      note IH = Cons.IH [OF rest]
      have "\<exists>r' s'. sendAll accepts name' (map fst (pd # pds)) s = (r', s') \<and> viewed H y' s' \<and> same_outcome r r'"
        if s: "viewed H y s" "agrees accepts H (y_hist y')" for accepts s
      proof -
        obtain r1' s1 where "intf_send accepts name' (fst pd) s = (r1', s1)" "viewed H y1 s1" "same_outcome r1 r1'"
          using first(2) [OF s(1) agrees_before [OF s(2)]] IH by blast
        moreover from this obtain r' s' where "sendAll accepts name' (map fst pds) s1 = (r', s')" "viewed H y' s'" "same_outcome r r'"
          using IH s(2) by blast
        ultimately show ?thesis using Inr by (simp add: same_outcome_def hasError_def)
      qed
      then show ?thesis using IH first(1) adds_trans by blast
    qed
  qed
qed

text \<open>Handlers and the queue.\<close>

lemma poll_refines:
  assumes ready: "\<And>y s. viewed K y s \<Longrightarrow> fst (eh_ready c y) = fst (eh_ready a s) \<and> viewed K (snd (eh_ready c y)) (snd (eh_ready a s))"
    and hist: "\<And>y. y_hist (snd (eh_ready c y)) = y_hist y"
    and fire: "refines K (eh_fire c) (\<lambda>accepts. eh_fire (b accepts))" and same: "\<And>accepts. eh_ready (b accepts) = eh_ready a"
  shows "refines K (pollHandler c) (\<lambda>accepts. pollHandler (b accepts))"
  unfolding refines_def
proof (intro allI impI)
  fix y r y'
  assume run: "pollHandler c y = (r, y')"
  obtain rdy y1 where 1: "eh_ready c y = (rdy, y1)" by fastforce
  obtain r2 y2 where 2: "eh_fire c y1 = (r2, y2)" by fastforce
  have h1: "y_hist y1 = y_hist y" using hist [of y] 1 by simp
  note fired = refinesD [OF fire 2]
  have "\<exists>r' s'. pollHandler (b accepts) s = (r', s') \<and> viewed K y' s' \<and> same_outcome r r'"
    if s: "viewed K y s" "agrees accepts K (y_hist y')" for accepts s
  proof -
    obtain s1 where s1: "eh_ready a s = (rdy, s1)" "viewed K y1 s1" using ready [OF s(1)] 1 by (cases "eh_ready a s") auto
    show ?thesis
    proof (cases rdy)
      case True
      have "y' = y2" "r = (case r2 of Inl e \<Rightarrow> Fail e | Inr _ \<Rightarrow> Ok 1)"
        using run 1 2 True by (auto simp: pollHandler_def split: sum.splits)
      moreover from this obtain r' s' where "eh_fire (b accepts) s1 = (r', s')" "viewed K y' s'" "same_outcome r2 r'"
        using fired(2) [OF s1(2)] s(2) by blast
      ultimately show ?thesis
        using s1(1) same True
        by (auto simp: pollHandler_def same_outcome_def hasError_def split: sum.splits fire_error.splits)
    next
      case False
      then show ?thesis using run 1 s1 same by (auto simp: pollHandler_def same_outcome_def)
    qed
  qed
  moreover have "adds body_event (y_hist y) (y_hist y')"
    using run 1 2 fired(1) h1 by (auto simp: pollHandler_def split: bool.splits sum.splits)
  ultimately show "adds body_event (y_hist y) (y_hist y') \<and>
    (\<forall>accepts s. viewed K y s \<and> agrees accepts K (y_hist y') \<longrightarrow>
       (\<exists>r' s'. pollHandler (b accepts) s = (r', s') \<and> viewed K y' s' \<and> same_outcome r r'))" by blast
qed

lemma then_poll_refines:
  assumes "refines K c a" and "refines K d b"
  shows "refines K (\<lambda>y. then_poll (c y) d) (\<lambda>accepts s. then_poll (a accepts s) (b accepts))"
  unfolding refines_def
proof (intro allI impI)
  fix y r y'
  assume run: "then_poll (c y) d = (r, y')"
  obtain r1 y1 where 1: "c y = (r1, y1)" by fastforce
  obtain r2 y2 where 2: "d y1 = (r2, y2)" by fastforce
  note c = refinesD [OF assms(1) 1] and d = refinesD [OF assms(2) 2]
  have final: "case r1 of Inl e \<Rightarrow> r = Fail e \<and> y' = y1
      | Inr n \<Rightarrow> y' = y2 \<and> r = (case r2 of Inl e \<Rightarrow> Fail e | Inr m \<Rightarrow> Ok (n + m))"
    using run 1 2 by (auto simp: then_poll_def split: sum.splits)
  have grown: "adds body_event (y_hist y1) (y_hist y')" using final d(1) by (cases r1) auto
  have "\<exists>r' s'. then_poll (a accepts s) (b accepts) = (r', s') \<and> viewed K y' s' \<and> same_outcome r r'"
    if s: "viewed K y s" "agrees accepts K (y_hist y')" for accepts s
  proof -
    obtain r1' s1 where 1: "a accepts s = (r1', s1)" "viewed K y1 s1" "same_outcome r1 r1'"
      using c(2) [OF s(1) agrees_before [OF s(2) grown]] by blast
    show ?thesis
    proof (cases r1)
      case (Inl e)
      then show ?thesis
        using 1 final by (auto simp: then_poll_def same_outcome_def hasError_def split: fire_error.splits sum.splits)
    next
      case (Inr n)
      then obtain r2' s2 where "b accepts s1 = (r2', s2)" "viewed K y2 s2" "same_outcome r2 r2'"
        using d(2) [OF 1(2), of accepts] s(2) final Inr by auto
      with Inr 1 final show ?thesis
        by (auto simp: then_poll_def same_outcome_def hasError_def split: fire_error.splits sum.splits)
    qed
  qed
  moreover have "adds body_event (y_hist y) (y_hist y')" using adds_trans [OF c(1) grown] .
  ultimately show "adds body_event (y_hist y) (y_hist y') \<and>
    (\<forall>accepts s. viewed K y s \<and> agrees accepts K (y_hist y') \<longrightarrow>
       (\<exists>r' s'. then_poll (a accepts s) (b accepts) = (r', s') \<and> viewed K y' s' \<and> same_outcome r r'))" by blast
qed

lemma queue_refines:
  assumes "writes H"
  shows "refines H (runOnce [sysHelloEvent H le lg fd pd hp, sysJpUpdateEvent H le lg fd pds jp])
    (\<lambda>accepts. runOnce [helloEvent accepts (fst pd) hp, jpUpdateEvent accepts (map fst pds) jp])"
proof -
  have hello: "refines H (pollHandler (sysHelloEvent H le lg fd pd hp)) (\<lambda>accepts. pollHandler (helloEvent accepts (fst pd) hp))"
    by (rule poll_refines [where a = "helloEvent (\<lambda>_. True) (fst pd) hp"])
      (use sendLogged_refines [OF assms] in \<open>auto simp: sysHelloEvent_def sysHelloReady_def helloEvent_def helloReady_def viewed_def\<close>)
  have jpu: "refines H (pollHandler (sysJpUpdateEvent H le lg fd pds jp)) (\<lambda>accepts. pollHandler (jpUpdateEvent accepts (map fst pds) jp))"
    by (rule poll_refines [where a = "jpUpdateEvent (\<lambda>_. True) (map fst pds) jp"])
      (use sendAllLogged_refines [OF assms] in \<open>auto simp: sysJpUpdateEvent_def sysJpReady_def jpUpdateEvent_def jpReady_def viewed_def\<close>)
  show ?thesis using then_poll_refines [OF hello jpu] by (simp add: runOnce_Cons [abs_def])
qed

text \<open>A run is stopped by a signal after finitely many events.\<close>

definition client_stops :: "'k ClientHost_scheme \<Rightarrow> bool" where
  "client_stops H \<longleftrightarrow> (\<exists>n. \<forall>h. n \<le> length h \<longrightarrow> ch_stopped H (IsStopped # h))"

lemma adds_length: "adds P h h' \<Longrightarrow> length h \<le> length h'"
  by (auto simp: adds_def)

lemma viewed_update:
  "viewed K y s \<Longrightarrow> viewed K (sysUpdate H y) (timer_update (y_ts (sysUpdate H y)) s)"
  by (simp add: viewed_def sysUpdate_def timer_update_def Let_def)

lemma sysUpdate_hist: "y_hist (sysUpdate H y) = Now # y_hist y"
  by (simp add: sysUpdate_def Let_def)

lemma viewed_hist:
  "viewed K y s \<Longrightarrow> answers K h = answers K (y_hist y) \<Longrightarrow> taken K h = taken K (y_hist y) \<Longrightarrow> viewed K (y\<lparr>y_hist := h\<rparr>) s"
  by (simp add: viewed_def)

text \<open>The loop returns, and is the loop of \<open>Scheduler\<close> on the times that it read from the clock.\<close>

definition loop_refined ::
    "'k ClientHost_scheme \<Rightarrow> (SysState, fire_error) EventHandler list \<Rightarrow>
     ((nat \<Rightarrow> bool) \<Rightarrow> (SchedState, send_error) EventHandler list) \<Rightarrow> SysState \<Rightarrow> bool" where
  "loop_refined H events abstracts y \<longleftrightarrow>
     (\<exists>r y' ts. clientLoop H events y = Some (r, y') \<and> adds body_event (y_hist y) (y_hist y') \<and>
        (\<forall>accepts s. viewed H y s \<and> agrees accepts H (y_hist y') \<longrightarrow>
           (\<exists>r' s'. execLoop (abstracts accepts) ts s = (r', s') \<and> viewed H y' s' \<and> same_outcome r r')))"

lemma loop_refined_round:
  assumes "refines H (runOnce events) (\<lambda>accepts. runOnce (abstracts accepts))"
    and "\<not> ch_stopped H (IsStopped # y_hist y)"
    and "runOnce events (sysUpdate H (y\<lparr>y_hist := IsStopped # y_hist y\<rparr>)) = (Inr v, y1)"
    and "loop_refined H events abstracts (y1\<lparr>y_hist := SleepMillis 100 # y_hist y1\<rparr>)"
  shows "loop_refined H events abstracts y"
proof -
  let ?y0 = "sysUpdate H (y\<lparr>y_hist := IsStopped # y_hist y\<rparr>)" and ?y2 = "y1\<lparr>y_hist := SleepMillis 100 # y_hist y1\<rparr>"
  note round = refinesD [OF assms(1) assms(3)]
  obtain r y' ts where loop: "clientLoop H events ?y2 = Some (r, y')" "adds body_event (y_hist ?y2) (y_hist y')"
    and refined: "\<And>accepts s. viewed H ?y2 s \<Longrightarrow> agrees accepts H (y_hist y') \<Longrightarrow>
      \<exists>r' s'. execLoop (abstracts accepts) ts s = (r', s') \<and> viewed H y' s' \<and> same_outcome r r'"
    using assms(4) unfolding loop_refined_def by blast
  have grown: "adds body_event (y_hist y1) (y_hist y')"
    using adds_trans [OF adds_Cons [OF _ adds_refl] loop(2) [simplified]] by (simp add: body_event_def)
  have "adds body_event (y_hist y) (y_hist ?y0)"
    by (simp add: sysUpdate_hist adds_Cons body_event_def log_event_def)
  then have all: "adds body_event (y_hist y) (y_hist y')" using round(1) grown adds_trans by blast
  have "\<exists>r' s'. execLoop (abstracts accepts) (y_ts ?y0 # ts) s = (r', s') \<and> viewed H y' s' \<and> same_outcome r r'"
    if s: "viewed H y s" "agrees accepts H (y_hist y')" for accepts s
  proof -
    have "viewed H (y\<lparr>y_hist := IsStopped # y_hist y\<rparr>) s" using s(1) by (rule viewed_hist) simp_all
    then have "viewed H ?y0 (timer_update (y_ts ?y0) s)" by (rule viewed_update)
    then obtain s1 where s1: "runOnce (abstracts accepts) (timer_update (y_ts ?y0) s) = (Inr v, s1)" "viewed H y1 s1"
      using round(2) agrees_before [OF s(2) grown] by (force simp: same_outcome_def)
    have "viewed H ?y2 s1" using s1(2) by (rule viewed_hist) simp_all
    from refined [OF this s(2)] show ?thesis by (simp add: s1(1))
  qed
  moreover have "clientLoop H events y = Some (r, y')"
    using assms(2,3) loop(1) by (simp add: clientLoop.simps [of H events y])
  ultimately show ?thesis using all unfolding loop_refined_def by blast
qed

lemma clientLoop_refines:
  assumes "refines H (runOnce events) (\<lambda>accepts. runOnce (abstracts accepts))" and "client_stops H"
  shows "loop_refined H events abstracts y"
proof -
  obtain n where n: "\<And>h. n \<le> length h \<Longrightarrow> ch_stopped H (IsStopped # h)" using assms(2) by (auto simp: client_stops_def)
  show ?thesis
  proof (induction "n - length (y_hist y)" arbitrary: y rule: less_induct)
    case less
    let ?y = "y\<lparr>y_hist := IsStopped # y_hist y\<rparr>"
    show ?case
    proof (cases "ch_stopped H (IsStopped # y_hist y)")
      case True
      have "viewed H ?y s" if "viewed H y s" for s using that by (rule viewed_hist) simp_all
      then have "\<forall>accepts s. viewed H y s \<and> agrees accepts H (y_hist ?y) \<longrightarrow>
          (\<exists>r' s'. execLoop (abstracts accepts) [] s = (r', s') \<and> viewed H ?y s' \<and> same_outcome (Ok ()) r')"
        by (simp add: same_outcome_def)
      moreover have "clientLoop H events y = Some (Ok (), ?y)" using True by (simp add: clientLoop.simps [of H events y])
      moreover have "adds body_event (y_hist y) (y_hist ?y)" by (simp add: adds_Cons body_event_def)
      ultimately show ?thesis unfolding loop_refined_def by blast
    next
      case go: False
      then have short: "length (y_hist y) < n" using n [of "y_hist y"] by (cases "n \<le> length (y_hist y)") auto
      obtain r1 y1 where 1: "runOnce events (sysUpdate H ?y) = (r1, y1)" by fastforce
      note round = refinesD [OF assms(1) 1]
      have start: "adds body_event (y_hist y) (y_hist (sysUpdate H ?y))"
        by (simp add: sysUpdate_hist adds_Cons body_event_def log_event_def)
      show ?thesis
      proof (cases r1)
        case (Inl e)
        have "\<exists>r' s'. execLoop (abstracts accepts) [y_ts (sysUpdate H ?y)] s = (r', s') \<and> viewed H y1 s' \<and> same_outcome (Fail e) r'"
          if s: "viewed H y s" "agrees accepts H (y_hist y1)" for accepts s
        proof -
          have "viewed H ?y s" using s(1) by (rule viewed_hist) simp_all
          from round(2) [OF viewed_update [OF this] s(2)] show ?thesis
            using Inl by (auto simp: same_outcome_def hasError_def split: fire_error.splits sum.splits)
        qed
        moreover have "clientLoop H events y = Some (Fail e, y1)"
          using go 1 Inl by (simp add: clientLoop.simps [of H events y])
        ultimately show ?thesis using adds_trans [OF start round(1)] unfolding loop_refined_def by blast
      next
        case (Inr v)
        have "length (y_hist y) < length (SleepMillis 100 # y_hist y1)"
          using adds_length [OF start] adds_length [OF round(1)] by simp
        then have "loop_refined H events abstracts (y1\<lparr>y_hist := SleepMillis 100 # y_hist y1\<rparr>)"
          using short by (intro less.hyps) simp
        then show ?thesis using loop_refined_round [OF assms(1) go] 1 Inr by blast
      qed
    qed
  qed
qed

text \<open>The report of a failure changes nothing of the socket, and its result is \<open>false\<close>.\<close>

lemma reportFailure_socket:
  assumes "reportFailure H lg e y = (r, h)"
  shows "logs_only (y_hist y) h"
  using assms
  by (auto simp: reportFailure_def split: fire_error.splits prod.splits sum.splits dest: logAt_cases(1))

lemma reportFailure_false:
  assumes "writes H" and "reportFailure H lg (SendError m) y = (r, h)"
  shows "r = Ok False"
  using assms(2) writes_log(1) [OF assms(1), of lg "y_ts y" LevelError m "y_hist y"]
  by (auto simp: reportFailure_def split: prod.splits sum.splits)

definition leave_refined ::
    "'k LogHost_scheme \<Rightarrow> ((nat \<Rightarrow> bool) \<Rightarrow> SchedState \<Rightarrow> bool \<times> SchedState) \<Rightarrow> SysState \<Rightarrow> (string, bool) outcome \<Rightarrow> Event list \<Rightarrow> bool" where
  "leave_refined H a y r h \<longleftrightarrow>
     adds body_event (y_hist y) h \<and>
     (\<forall>accepts s. viewed H y s \<and> agrees accepts H h \<longrightarrow>
        (\<exists>res s'. a accepts s = (res, s') \<and> r = Ok res \<and> map snd (st_sent s') = taken H h))"

lemma clientLeave_refines:
  assumes "writes H" and "clientLeave H le lg fd invPkts goodbye y = (r, h)"
  shows "\<exists>t1 t2. leave_refined H (\<lambda>accepts. leave accepts t1 t2 (map fst invPkts) (fst goodbye)) y r h"
proof -
  let ?y0 = "sysUpdate H y"
  obtain r1 y1 where 1: "onHist (sendAllLogged H le lg fd ''Goodbye Join/Prune Update'' invPkts) ?y0 = (r1, y1)" by fastforce
  note jps = refinesD [OF sendAllLogged_refines [OF assms(1), where name' = "''Goodbye Join/Prune Update''"] 1]
  have start: "adds body_event (y_hist y) (y_hist ?y0)" by (simp add: sysUpdate_hist adds_Cons body_event_def log_event_def)
  show ?thesis
  proof (cases r1)
    case (Inl e)
    then have report: "reportFailure H lg e y1 = (r, h)" using assms(2) 1 by (simp add: clientLeave_def)
    note only = reportFailure_socket [OF report]
    have "\<exists>res s'. leave accepts (y_ts ?y0) t2 (map fst invPkts) (fst goodbye) s = (res, s') \<and> r = Ok res \<and>
        map snd (st_sent s') = taken H h" if s: "viewed H y s" "agrees accepts H h" for accepts s t2
    proof -
      obtain r' s' where s': "goodbyeJpSend accepts (map fst invPkts) (timer_update (y_ts ?y0) s) = (r', s')"
        "viewed H y1 s'" "same_outcome r1 r'"
        using jps(2) [OF viewed_update [OF s(1)] agrees_before [OF s(2) only]] unfolding goodbyeJpSend_def by blast
      obtain m where "e = SendError m" "hasError r'" using s'(3) Inl by (auto simp: same_outcome_def split: fire_error.splits)
      then show ?thesis
        using s' reportFailure_false [OF assms(1), of lg m y1 r h] report logs_only_socket(2) [OF only, of H]
        by (intro exI [of _ False] exI [of _ s']) (simp add: leave_def viewed_def)
    qed
    then show ?thesis
      using adds_trans [OF start adds_trans [OF jps(1) adds_body [OF only]]] unfolding leave_refined_def by blast
  next
    case (Inr v)
    let ?y2 = "sysUpdate H y1"
    obtain r2 y2 where 2: "onHist (sendLogged H le lg fd ''Goodbye'' goodbye) ?y2 = (r2, y2)" by fastforce
    note bye = refinesD [OF sendLogged_refines [OF assms(1), where name' = "''Goodbye''"] 2]
    have mid: "adds body_event (y_hist y1) (y_hist ?y2)" by (simp add: sysUpdate_hist adds_Cons body_event_def log_event_def)
    have last: "adds body_event (y_hist y2) h \<and> (answers H h = answers H (y_hist y2) \<and> taken H h = taken H (y_hist y2)) \<and>
        (case r2 of Inl (SendError m) \<Rightarrow> r = Ok False | Inl (LogError m) \<Rightarrow> True | Inr u \<Rightarrow> r = Ok True)"
    proof (cases r2)
      case (Inl e)
      then have report: "reportFailure H lg e y2 = (r, h)" using assms(2) 1 2 Inr by (simp add: clientLeave_def)
      note only = reportFailure_socket [OF report]
      show ?thesis
        using logs_only_socket [OF only] adds_body [OF only] reportFailure_false [OF assms(1)] report Inl
        by (auto split: fire_error.splits)
    next
      case Inr2: (Inr u)
      then have "r = Ok True" "h = y_hist y2" using assms(2) 1 2 Inr by (simp_all add: clientLeave_def)
      with Inr2 show ?thesis by simp
    qed
    have before: "adds body_event (y_hist y1) h" using adds_trans [OF mid adds_trans [OF bye(1)]] last by blast
    have "\<exists>res s'. leave accepts (y_ts ?y0) (y_ts ?y2) (map fst invPkts) (fst goodbye) s = (res, s') \<and> r = Ok res \<and>
        map snd (st_sent s') = taken H h" if s: "viewed H y s" "agrees accepts H h" for accepts s
    proof -
      obtain r' s' where s': "goodbyeJpSend accepts (map fst invPkts) (timer_update (y_ts ?y0) s) = (r', s')"
        "viewed H y1 s'" "same_outcome r1 r'"
        using jps(2) [OF viewed_update [OF s(1)] agrees_before [OF s(2) before]] unfolding goodbyeJpSend_def by blast
      have "agrees accepts H (y_hist y2)" using s(2) last by (simp add: agrees_def)
      then obtain r'' s'' where s'': "goodbyeSend accepts (fst goodbye) (timer_update (y_ts ?y2) s') = (r'', s'')"
        "viewed H y2 s''" "same_outcome r2 r''"
        using bye(2) [OF viewed_update [OF s'(2)]] unfolding goodbyeSend_def by blast
      have "r = Ok (hasValue r'')"
        using s''(3) last by (cases r2) (auto simp: same_outcome_def hasError_def split: fire_error.splits)
      moreover have "leave accepts (y_ts ?y0) (y_ts ?y2) (map fst invPkts) (fst goodbye) s = (hasValue r'', s'')"
        using s' s''(1) Inr by (simp add: leave_def same_outcome_def hasError_def)
      ultimately show ?thesis using s''(2) last by (simp add: viewed_def)
    qed
    then show ?thesis using adds_trans [OF start adds_trans [OF jps(1) before]] unfolding leave_refined_def by blast
  qed
qed

text \<open>The run of \<open>ipv4exec\<close> after its packets are built.\<close>

definition execRun ::
    "PIMSMConfig \<Rightarrow> (nat \<Rightarrow> bool) \<Rightarrow> u64 \<Rightarrow> u64 list \<Rightarrow> u64 \<Rightarrow> u64 \<Rightarrow> u8 list \<Rightarrow> u8 list list \<Rightarrow> u8 list \<Rightarrow> u8 list list \<Rightarrow>
     bool \<times> (u64 \<times> u8 list) list" where
  "execRun pc accepts t0 ts t1 t2 goodbye invPkts hello updates =
     (let jp = ucast (jpPeriod pc);
          s = \<lparr>st_ts = t0, st_hello_next = t0, st_jp_next = inSec t0 jp, st_sent = [], st_calls = 0\<rparr>;
          events = [helloEvent accepts hello (ucast (helloPeriod pc)), jpUpdateEvent accepts updates jp]
      in case execLoop events ts s of
           (r, s) \<Rightarrow>
             if hasError r then (False, st_sent s)
             else (case leave accepts t1 t2 invPkts goodbye s of (res, s) \<Rightarrow> (res, st_sent s)))"

definition packets_built ::
    "bool \<Rightarrow> (nat \<Rightarrow> u64) \<Rightarrow> PIMCConfig \<Rightarrow> u8 list \<Rightarrow> u8 list list \<Rightarrow> u8 list \<Rightarrow> u8 list list \<Rightarrow> bool" where
  "packets_built le base cfg goodbye invPkts hello updates \<longleftrightarrow>
     (let pc = pimsmConfig cfg; n = length (inverseUpdates cfg) in
      goodbyePacket le (base 0) pc = Some (Ok goodbye) \<and> updatePackets le base pc 1 (inverseUpdates cfg) = Some (Ok invPkts) \<and>
      helloPacket le (base (n + 1)) pc = Some (Ok hello) \<and> updatePackets le base pc (n + 2) (cfg_updates cfg) = Some (Ok updates))"

lemma ipv4exec_run:
  "packets_built le base cfg goodbye invPkts hello updates \<Longrightarrow>
    ipv4exec le base cfg (Ok ()) accepts t0 ts t1 t2 =
      Some (Ok (execRun (pimsmConfig cfg) accepts t0 ts t1 t2 goodbye invPkts hello updates))"
  by (simp add: packets_built_def ipv4exec_def execRun_def hasError_def Let_def split: prod.splits)

lemma updatePackets_length: "updatePackets le base pc n us = Some (Ok ps) \<Longrightarrow> length ps = length us"
proof (induction us arbitrary: n ps)
  case (Cons u us)
  then show ?case by (fastforce simp: run_then_def split: option.splits sum.splits)
qed simp

lemma packets_built_length:
  assumes "packets_built le base cfg goodbye invPkts hello updates"
  shows "map fst (zip updates (updateDescrs pc (cfg_updates cfg))) = updates"
    "map fst (zip invPkts (updateDescrs pc (inverseUpdates cfg))) = invPkts"
  using assms by (auto simp: packets_built_def Let_def updateDescrs_def dest!: updatePackets_length)

definition run_refined :: "'k LogHost_scheme \<Rightarrow> ((nat \<Rightarrow> bool) \<Rightarrow> bool \<times> (u64 \<times> u8 list) list) \<Rightarrow> (string, bool) outcome \<Rightarrow> Event list \<Rightarrow> bool" where
  "run_refined H a r h \<longleftrightarrow>
     (\<forall>accepts. agrees accepts H h \<longrightarrow> r = Ok (fst (a accepts)) \<and> map snd (snd (a accepts)) = taken H h)"

lemma runEvents_refines:
  assumes "writes H" and "client_stops H" and built: "packets_built le base cfg goodbye invPkts hello updates"
    and "answers H h = []" and "taken H h = []"
  shows "\<exists>r h' ts t1 t2. runEvents H le lg fd cfg t0 goodbye invPkts hello updates h = Some (r, h') \<and> adds body_event h h' \<and>
    run_refined H (\<lambda>accepts. execRun (pimsmConfig cfg) accepts t0 ts t1 t2 goodbye invPkts hello updates) r h'"
proof -
  define pc where "pc = pimsmConfig cfg"
  define y where "y = \<lparr>y_ts = t0, y_hello_next = t0, y_jp_next = inSec t0 (ucast (jpPeriod pc)), y_hist = h\<rparr>"
  define s where "s = \<lparr>st_ts = t0, st_hello_next = t0, st_jp_next = inSec t0 (ucast (jpPeriod pc)), st_sent = [], st_calls = 0\<rparr>"
  define hd_pkt where "hd_pkt = (hello, helloDescr (helloHoldtime pc) (drPriority pc) (generationId pc))"
  define gb_pkt where "gb_pkt = (goodbye, helloDescr 0 (drPriority pc) (generationId pc))"
  define ups where "ups = zip updates (updateDescrs pc (cfg_updates cfg))"
  define invs where "invs = zip invPkts (updateDescrs pc (inverseUpdates cfg))"
  let ?ev = "[sysHelloEvent H le lg fd hd_pkt (ucast (helloPeriod pc)), sysJpUpdateEvent H le lg fd ups (ucast (jpPeriod pc))]"
  let ?av = "\<lambda>accepts. [helloEvent accepts hello (ucast (helloPeriod pc)), jpUpdateEvent accepts updates (ucast (jpPeriod pc))]"
  have fsts: "map fst ups = updates" "map fst invs = invPkts" "fst hd_pkt = hello" "fst gb_pkt = goodbye"
    using packets_built_length [OF built] by (simp_all add: ups_def invs_def hd_pkt_def gb_pkt_def)
  have start: "viewed H y s" using assms(4,5) by (simp add: viewed_def y_def s_def)
  have "loop_refined H ?ev ?av y"
    using clientLoop_refines [OF queue_refines [OF assms(1), of le lg fd hd_pkt "ucast (helloPeriod pc)" ups "ucast (jpPeriod pc)"] assms(2), of y]
    unfolding fsts .
  then obtain r1 y1 ts where "clientLoop H ?ev y = Some (r1, y1)" "adds body_event (y_hist y) (y_hist y1)"
    "\<forall>accepts s. viewed H y s \<and> agrees accepts H (y_hist y1) \<longrightarrow>
      (\<exists>r' s'. execLoop (?av accepts) ts s = (r', s') \<and> viewed H y1 s' \<and> same_outcome r1 r')"
    unfolding loop_refined_def by blast
  then have loop: "clientLoop H ?ev y = Some (r1, y1)" "adds body_event h (y_hist y1)"
    and loop_abs: "\<And>accepts. agrees accepts H (y_hist y1) \<Longrightarrow>
      \<exists>r' s'. execLoop (?av accepts) ts s = (r', s') \<and> viewed H y1 s' \<and> same_outcome r1 r'"
    using start by (simp_all add: y_def)
  have run: "runEvents H le lg fd cfg t0 goodbye invPkts hello updates h =
      (case r1 of Inl e \<Rightarrow> Some (reportFailure H lg e y1) | Inr _ \<Rightarrow> Some (clientLeave H le lg fd invs gb_pkt y1))"
    unfolding runEvents_def Let_def pc_def [symmetric] y_def [symmetric] hd_pkt_def [symmetric] gb_pkt_def [symmetric]
      ups_def [symmetric] invs_def [symmetric] loop(1) by (cases r1) simp_all
  have abs: "execRun pc accepts t0 ts t1 t2 goodbye invPkts hello updates =
      (case execLoop (?av accepts) ts s of
         (r, s) \<Rightarrow> if hasError r then (False, st_sent s)
           else (case leave accepts t1 t2 invPkts goodbye s of (res, s) \<Rightarrow> (res, st_sent s)))" for accepts t1 t2
    by (simp add: execRun_def s_def Let_def)
  show ?thesis
  proof (cases r1)
    case (Inl e)
    obtain r h' where report: "reportFailure H lg e y1 = (r, h')" by fastforce
    note only = reportFailure_socket [OF report]
    have "run_refined H (\<lambda>accepts. execRun pc accepts t0 ts t1 t2 goodbye invPkts hello updates) r h'" for t1 t2
      unfolding run_refined_def
    proof (intro allI impI)
      fix accepts assume "agrees accepts H h'"
      then have "agrees accepts H (y_hist y1)" by (rule agrees_before [OF _ only])
      then obtain r' s' where s': "execLoop (?av accepts) ts s = (r', s')" "viewed H y1 s'" "same_outcome r1 r'"
        using loop_abs by blast
      obtain m where "e = SendError m" "hasError r'" using s'(3) Inl by (auto simp: same_outcome_def split: fire_error.splits)
      then show "r = Ok (fst (execRun pc accepts t0 ts t1 t2 goodbye invPkts hello updates)) \<and>
          map snd (snd (execRun pc accepts t0 ts t1 t2 goodbye invPkts hello updates)) = taken H h'"
        using s' reportFailure_false [OF assms(1), of lg m y1 r h'] report logs_only_socket(2) [OF only, of H]
        by (simp add: abs viewed_def)
    qed
    then show ?thesis
      using run Inl report adds_trans [OF loop(2) adds_body [OF only]] unfolding pc_def [symmetric]
      by (intro exI [of _ r] exI [of _ h'] exI [of _ ts] exI [of _ 0] conjI) simp_all
  next
    case (Inr u)
    obtain r h' where left: "clientLeave H le lg fd invs gb_pkt y1 = (r, h')" by fastforce
    from clientLeave_refines [OF assms(1) left] obtain t1 t2
      where leaves: "leave_refined H (\<lambda>accepts. leave accepts t1 t2 invPkts goodbye) y1 r h'"
      unfolding fsts by blast
    have "run_refined H (\<lambda>accepts. execRun pc accepts t0 ts t1 t2 goodbye invPkts hello updates) r h'"
      unfolding run_refined_def
    proof (intro allI impI)
      fix accepts assume agr: "agrees accepts H h'"
      have "agrees accepts H (y_hist y1)" by (rule agrees_before [OF agr, where P = body_event]) (use leaves in \<open>simp add: leave_refined_def\<close>)
      then obtain r' s' where s': "execLoop (?av accepts) ts s = (r', s')" "viewed H y1 s'" "same_outcome r1 r'"
        using loop_abs by blast
      obtain res s'' where "leave accepts t1 t2 invPkts goodbye s' = (res, s'')" "r = Ok res" "map snd (st_sent s'') = taken H h'"
        using leaves s'(2) agr unfolding leave_refined_def by blast
      then show "r = Ok (fst (execRun pc accepts t0 ts t1 t2 goodbye invPkts hello updates)) \<and>
          map snd (snd (execRun pc accepts t0 ts t1 t2 goodbye invPkts hello updates)) = taken H h'"
        using s' Inr by (simp add: abs same_outcome_def hasError_def)
    qed
    moreover have "adds body_event h h'"
      by (rule adds_trans [OF loop(2)]) (use leaves in \<open>simp add: leave_refined_def\<close>)
    ultimately show ?thesis using run Inr left unfolding pc_def [symmetric] by auto
  qed
qed

section \<open>Runs that fail\<close>

text \<open>Whatever the kernel and the log do, the body of a run adds events of the log and the socket only, and ends.\<close>

definition acts :: "(SysState \<Rightarrow> 'r \<times> SysState) \<Rightarrow> bool" where
  "acts c \<longleftrightarrow> (\<forall>y r y'. c y = (r, y') \<longrightarrow> adds body_event (y_hist y) (y_hist y'))"

lemma actsD: "acts c \<Longrightarrow> c y = (r, y') \<Longrightarrow> adds body_event (y_hist y) (y_hist y')"
  by (simp add: acts_def)

lemma acts_onHist: "(\<And>h r h'. a h = (r, h') \<Longrightarrow> adds body_event h h') \<Longrightarrow> acts (onHist a)"
  by (auto simp: acts_def onHist_def split: prod.splits)

lemma sendLogged_acts: "sendLogged H le lg fd name pd h = (r, h') \<Longrightarrow> adds body_event h h'"
proof -
  assume sent: "sendLogged H le lg fd name pd h = (r, h')"
  let ?h = "Sendto fd (fst pd) (to_nl le AllPIMRouters) 0 # h"
  have start: "adds body_event h ?h" by (simp add: adds_Cons body_event_def)
  obtain q k where logged: "logNow H lg LevelDebug (''sent '' @ snd pd) ?h = (q, k)" by fastforce
  have "h' = ?h \<or> h' = k"
    using sent logged by (auto simp: sendLogged_def pimSend_def Let_def split: if_splits sum.splits)
  then show "adds body_event h h'" using start adds_trans [OF start adds_body [OF logNow_cases(1) [OF logged]]] by auto
qed

lemma sendAllLogged_acts: "sendAllLogged H le lg fd name pds h = (r, h') \<Longrightarrow> adds body_event h h'"
proof (induction pds arbitrary: h)
  case (Cons pd pds)
  obtain r1 h1 where 1: "sendLogged H le lg fd name pd h = (r1, h1)" by fastforce
  show ?case
    using Cons.prems 1 sendLogged_acts [OF 1] Cons.IH [of h1] adds_trans [of body_event h h1 h'] by (auto split: if_splits)
qed simp

lemma pollHandler_acts:
  assumes "acts (eh_fire c)" and "\<And>y. y_hist (snd (eh_ready c y)) = y_hist y"
  shows "acts (pollHandler c)"
  unfolding acts_def
proof (intro allI impI)
  fix y r y'
  assume run: "pollHandler c y = (r, y')"
  obtain rdy y1 where 1: "eh_ready c y = (rdy, y1)" by fastforce
  obtain r2 y2 where 2: "eh_fire c y1 = (r2, y2)" by fastforce
  have "y_hist y1 = y_hist y" using assms(2) [of y] 1 by simp
  then show "adds body_event (y_hist y) (y_hist y')"
    using run 1 2 actsD [OF assms(1) 2] by (auto simp: pollHandler_def split: bool.splits sum.splits)
qed

lemma then_poll_acts: "acts c \<Longrightarrow> acts d \<Longrightarrow> acts (\<lambda>y. then_poll (c y) d)"
  unfolding acts_def then_poll_def by (fastforce split: prod.splits sum.splits intro: adds_trans)

lemma queue_acts: "acts (runOnce [sysHelloEvent H le lg fd pd hp, sysJpUpdateEvent H le lg fd pds jp])"
proof -
  have "acts (pollHandler (sysHelloEvent H le lg fd pd hp))"
    by (rule pollHandler_acts)
      (auto simp: sysHelloEvent_def sysHelloReady_def intro!: acts_onHist dest: sendLogged_acts)
  moreover have "acts (pollHandler (sysJpUpdateEvent H le lg fd pds jp))"
    by (rule pollHandler_acts)
      (auto simp: sysJpUpdateEvent_def sysJpReady_def intro!: acts_onHist dest: sendAllLogged_acts)
  ultimately show ?thesis using then_poll_acts by (simp add: runOnce_Cons [abs_def])
qed

lemma clientLoop_ends:
  assumes "acts (runOnce events)" and "client_stops H"
  shows "\<exists>r y'. clientLoop H events y = Some (r, y') \<and> adds body_event (y_hist y) (y_hist y')"
proof -
  obtain n where n: "\<And>h. n \<le> length h \<Longrightarrow> ch_stopped H (IsStopped # h)" using assms(2) by (auto simp: client_stops_def)
  show ?thesis
  proof (induction "n - length (y_hist y)" arbitrary: y rule: less_induct)
    case less
    let ?y = "y\<lparr>y_hist := IsStopped # y_hist y\<rparr>"
    have look: "adds body_event (y_hist y) (y_hist ?y)" by (simp add: adds_Cons body_event_def)
    show ?case
    proof (cases "ch_stopped H (IsStopped # y_hist y)")
      case True
      then show ?thesis using look by (simp add: clientLoop.simps [of H events y])
    next
      case go: False
      then have short: "length (y_hist y) < n" using n [of "y_hist y"] by (cases "n \<le> length (y_hist y)") auto
      obtain r1 y1 where 1: "runOnce events (sysUpdate H ?y) = (r1, y1)" by fastforce
      have "adds body_event (y_hist y) (y_hist (sysUpdate H ?y))"
        by (simp add: sysUpdate_hist adds_Cons body_event_def log_event_def)
      then have round: "adds body_event (y_hist y) (y_hist y1)" using actsD [OF assms(1) 1] adds_trans by blast
      let ?y2 = "y1\<lparr>y_hist := SleepMillis 100 # y_hist y1\<rparr>"
      have more: "adds body_event (y_hist y) (y_hist ?y2)" using round by (simp add: adds_Cons body_event_def)
      show ?thesis
      proof (cases r1)
        case (Inl e)
        then show ?thesis using go 1 round by (simp add: clientLoop.simps [of H events y])
      next
        case (Inr v)
        have "n - length (y_hist ?y2) < n - length (y_hist y)" using short adds_length [OF round] by simp
        from less.hyps [OF this] obtain r y' where "clientLoop H events ?y2 = Some (r, y')" "adds body_event (y_hist ?y2) (y_hist y')"
          by blast
        then show ?thesis using go 1 Inr adds_trans [OF more] by (simp add: clientLoop.simps [of H events y])
      qed
    qed
  qed
qed

lemma clientLeave_acts:
  assumes "clientLeave H le lg fd invPkts goodbye y = (r, h)"
  shows "adds body_event (y_hist y) h"
proof -
  have now: "adds body_event (y_hist y) (y_hist (sysUpdate H y))" for y
    by (simp add: sysUpdate_hist adds_Cons body_event_def log_event_def)
  obtain r1 y1 where 1: "onHist (sendAllLogged H le lg fd ''Goodbye Join/Prune Update'' invPkts) (sysUpdate H y) = (r1, y1)" by fastforce
  have "adds body_event (y_hist (sysUpdate H y)) (y_hist y1)" by (rule actsD [OF acts_onHist 1]) (rule sendAllLogged_acts)
  then have first: "adds body_event (y_hist y) (y_hist y1)" using now adds_trans by blast
  obtain r2 y2 where 2: "onHist (sendLogged H le lg fd ''Goodbye'' goodbye) (sysUpdate H y1) = (r2, y2)" by fastforce
  have "adds body_event (y_hist (sysUpdate H y1)) (y_hist y2)" by (rule actsD [OF acts_onHist 2]) (rule sendLogged_acts)
  then have second: "adds body_event (y_hist y) (y_hist y2)" using first now adds_trans by blast
  have report: "adds body_event (y_hist y) (y_hist z) \<Longrightarrow> reportFailure H lg e z = (r, h) \<Longrightarrow> adds body_event (y_hist y) h" for z e
    using adds_trans adds_body reportFailure_socket by blast
  show ?thesis
    using assms 1 2 first second report by (auto simp: clientLeave_def split: sum.splits)
qed

lemma runEvents_ends:
  assumes "client_stops H"
  shows "\<exists>r h'. runEvents H le lg fd cfg t0 goodbye invPkts hello updates h = Some (r, h') \<and> adds body_event h h'"
proof -
  define pc where "pc = pimsmConfig cfg"
  define y where "y = \<lparr>y_ts = t0, y_hello_next = t0, y_jp_next = inSec t0 (ucast (jpPeriod pc)), y_hist = h\<rparr>"
  define hd_pkt where "hd_pkt = (hello, helloDescr (helloHoldtime pc) (drPriority pc) (generationId pc))"
  define ups where "ups = zip updates (updateDescrs pc (cfg_updates cfg))"
  let ?ev = "[sysHelloEvent H le lg fd hd_pkt (ucast (helloPeriod pc)), sysJpUpdateEvent H le lg fd ups (ucast (jpPeriod pc))]"
  obtain r1 y1 where loop: "clientLoop H ?ev y = Some (r1, y1)" "adds body_event (y_hist y) (y_hist y1)"
    using clientLoop_ends [OF queue_acts assms] by blast
  have hist: "y_hist y = h" by (simp add: y_def)
  note run = runEvents_def Let_def pc_def [symmetric] y_def [symmetric] hd_pkt_def [symmetric] ups_def [symmetric] loop(1)
  show ?thesis
  proof (cases r1)
    case (Inl e)
    obtain r h' where "reportFailure H lg e y1 = (r, h')" by fastforce
    then show ?thesis
      unfolding run using Inl adds_trans [OF loop(2) adds_body [OF reportFailure_socket]] hist by auto
  next
    case (Inr u)
    obtain r h' where left: "clientLeave H le lg fd (zip invPkts (updateDescrs pc (inverseUpdates cfg)))
        (goodbye, helloDescr 0 (drPriority pc) (generationId pc)) y1 = (r, h')" by fastforce
    then show ?thesis
      unfolding run using Inr adds_trans [OF loop(2) clientLeave_acts [OF left]] hist by auto
  qed
qed

section \<open>The whole client\<close>

text \<open>The four kinds of packets of a run, or the error of building them.\<close>

definition runPackets ::
    "bool \<Rightarrow> (nat \<Rightarrow> u64) \<Rightarrow> PIMCConfig \<Rightarrow> (packet_error, u8 list \<times> u8 list list \<times> u8 list \<times> u8 list list) outcome option" where
  "runPackets le base cfg =
     (let pc = pimsmConfig cfg; n = length (inverseUpdates cfg) in
      run_then (goodbyePacket le (base 0) pc) (\<lambda>goodbye.
      run_then (updatePackets le base pc 1 (inverseUpdates cfg)) (\<lambda>invPkts.
      run_then (helloPacket le (base (n + 1)) pc) (\<lambda>hello.
      run_then (updatePackets le base pc (n + 2) (cfg_updates cfg)) (\<lambda>updates.
        Some (Ok (goodbye, invPkts, hello, updates)))))))"

lemma runPackets_built:
  "runPackets le base cfg = Some (Ok (goodbye, invPkts, hello, updates)) \<longleftrightarrow>
    packets_built le base cfg goodbye invPkts hello updates"
  by (auto simp: runPackets_def packets_built_def run_then_def Let_def split: option.splits sum.splits)

lemma built_bind:
  "prog_bind (built p) f h =
     (case p of None \<Rightarrow> None | Some (Inl e) \<Rightarrow> Some (Fail (LogicError e), h) | Some (Inr a) \<Rightarrow> f a h)"
  by (auto simp: built_def prog_bind_def split: option.splits sum.splits)

lemma ipv4exec_packets:
  "ipv4exec le base cfg (Ok ()) accepts t0 ts t1 t2 =
     (case runPackets le base cfg of
        None \<Rightarrow> None
      | Some (Inl e) \<Rightarrow> Some (Fail e)
      | Some (Inr (goodbye, invPkts, hello, updates)) \<Rightarrow>
          Some (Ok (execRun (pimsmConfig cfg) accepts t0 ts t1 t2 goodbye invPkts hello updates)))"
proof (cases "runPackets le base cfg")
  case None
  then show ?thesis
    by (auto simp: ipv4exec_def runPackets_def run_then_def hasError_def Let_def split: option.splits sum.splits)
next
  case (Some r)
  show ?thesis
  proof (cases r)
    case (Inl e)
    with Some show ?thesis
      by (auto simp: ipv4exec_def runPackets_def run_then_def hasError_def Let_def split: option.splits sum.splits)
  next
    case (Inr p)
    then obtain goodbye invPkts hello updates where run: "runPackets le base cfg = Some (Ok (goodbye, invPkts, hello, updates))"
      using Some by (cases p) auto
    show ?thesis using ipv4exec_run [OF run [unfolded runPackets_built]] by (simp add: run)
  qed
qed

lemma execEvents_packets:
  "execEvents H le base lg fd cfg h =
     (case runPackets le base cfg of
        None \<Rightarrow> None
      | Some (Inl e) \<Rightarrow> Some (Fail (LogicError e), Now # h)
      | Some (Inr (goodbye, invPkts, hello, updates)) \<Rightarrow>
          runtime (runEvents H le lg fd cfg (l_now H (Now # h)) goodbye invPkts hello updates) (Now # h))"
  by (simp add: execEvents_def built_bind runPackets_def run_then_def Let_def split: option.split sum.split)

text \<open>The events of opening the interface are none of the socket and none of the log file.\<close>

definition setup_event :: "Event \<Rightarrow> bool" where
  "setup_event e \<longleftrightarrow>
     (case e of Sendto _ _ _ _ \<Rightarrow> False | Fopen _ \<Rightarrow> False | Fclose \<Rightarrow> False | Stderr _ \<Rightarrow> False | _ \<Rightarrow> True)"

lemma setup_keeps:
  assumes "adds setup_event h h'"
  shows "answers K h' = answers K h" "taken K h' = taken K h" "stderr_text h' = stderr_text h"
  by (rule adds_keeps [OF _ assms]; auto simp: setup_event_def split: Event.splits)+

lemma adds_setup: "logs_only h h' \<Longrightarrow> adds setup_event h h'"
  by (erule adds_mono) (auto simp: setup_event_def log_event_def split: Event.splits)

lemma adds_setup_trans: "adds setup_event h h' \<Longrightarrow> logs_only h' h'' \<Longrightarrow> adds setup_event h h''"
  using adds_trans adds_setup by blast

lemma dropAllCaps_adds: "adds setup_event h (dropAllCaps K h)"
  by (simp add: dropAllCaps_def Let_def adds_Cons setup_event_def)

lemma raiseCap_adds: "prog_adds setup_event (raiseCap K cap)"
proof -
  have "adds setup_event h (dropAllCaps K (CapFree c # CapSetProc d # CapSetFlag e cap # CapGetProc # h))" for h c d e
    by (rule adds_trans [OF _ dropAllCaps_adds]) (simp add: adds_Cons setup_event_def)
  then show ?thesis
    unfolding prog_adds_def raiseCap_def Let_def by (auto simp: setup_event_def split: if_splits intro!: adds_Cons)
qed

lemma raiseCaps_adds: "prog_adds setup_event (raiseCaps K progname caps)"
proof -
  have "prog_adds setup_event (raiseImpl K caps)"
    by (induction caps) (auto intro!: prog_adds_bind raiseCap_adds)
  then show ?thesis
    by (auto simp: prog_adds_def raiseCaps_def split: option.splits sum.splits CapFailure.splits)
qed

lemma prog_try_adds: "prog_adds P m \<Longrightarrow> prog_adds P (prog_try m)"
  by (auto simp: prog_adds_def prog_try_def)

lemma logNow_adds: "prog_adds setup_event (perform (logNow H lg l msg))"
  by (auto simp: prog_adds_def perform_def dest!: logNow_cases(1) adds_setup)

lemma closeLoop_adds: "closes K \<Longrightarrow> closeLoop K s h = Some h' \<Longrightarrow> adds setup_event h h'"
  by (elim closeLoop_ends [of K s h]) (auto simp: adds_def setup_event_def list_all_iff intro!: exI [of _ "replicate (Suc n) (Close s)" for n])

lemma createIntf_adds:
  assumes "closes H"
  shows "prog_adds setup_event (createIntf H lg progname cfg)"
proof -
  have opened: "prog_adds setup_event (prog_bind (openIPv4PIMSocket H) (allowReuse H))"
    unfolding allowReuse_def
    by (intro prog_adds_bind prog_adds_syscall prog_adds_return)
      (auto simp: prog_adds_def openIPv4PIMSocket_def Let_def setup_event_def intro: adds_Cons split: if_splits)
  have bound: "prog_adds setup_event (prog_bind (syscall H (SetSockopt s (HdrIncl 1)) HdrInclFailed) (\<lambda>_. bindToDevice H s ifn))" for s ifn
  proof (intro prog_adds_bind prog_adds_syscall)
    have rest: "prog_adds setup_event (prog_bind (syscall H (SetSockopt s (BindToDevice i)) m) (\<lambda>_. prog_return s))" for i m
      by (intro prog_adds_bind prog_adds_syscall prog_adds_return) (simp add: setup_event_def)
    have look: "adds setup_event h (InterfaceIndex s i # h)" for h i by (simp add: adds_Cons setup_event_def)
    show "prog_adds setup_event (bindToDevice H s ifn)" for a :: int
      unfolding prog_adds_def
    proof (intro allI impI)
      fix h r h'
      let ?i = "take 15 (cstring ifn)" and ?m = "''unable to bind PIM socket to interface '' @ ifn @ '': ''"
      assume run: "bindToDevice H s ifn h = Some (r, h')"
      show "adds setup_event h h'"
      proof (cases "k_ret H (InterfaceIndex s ?i # h) < 0")
        case True
        then show ?thesis using run look by (auto simp: bindToDevice_def Let_def)
      next
        case False
        then have "prog_bind (syscall H (SetSockopt s (BindToDevice ?i)) ?m) (\<lambda>_. prog_return s) (InterfaceIndex s ?i # h) = Some (r, h')"
          using run unfolding bindToDevice_def Let_def by simp
        from prog_addsD [OF rest this] show ?thesis using adds_trans [OF look] by blast
      qed
    qed
  qed (simp add: setup_event_def)
  have guarded: "prog_adds setup_event (deferred (closeLoop H s) body)"
    if "\<And>h c r h'. body h = Some ((c, r), h') \<Longrightarrow> adds setup_event h h'" for s
      and body :: "Event list \<Rightarrow> ((bool \<times> (string, (string, int) outcome) outcome) \<times> Event list) option"
    using that closeLoop_adds [OF assms] unfolding prog_adds_def deferred_def
    by (fastforce split: option.splits prod.splits if_splits intro: adds_trans)
  have made: "prog_adds setup_event (createSocket H lg cfg)"
    unfolding createSocket_def
  proof (rule prog_adds_bind [OF prog_try_adds [OF opened]])
    fix rs :: "(string, int) outcome"
    show "prog_adds setup_event (case rs of Inl e \<Rightarrow> prog_return (Fail e)
       | Inr s \<Rightarrow>
           prog_bind (perform (logNow H lg LevelDebug SocketCreated)) (\<lambda>_.
             deferred (closeLoop H s) (\<lambda>h.
               case prog_bind (syscall H (SetSockopt s (HdrIncl 1)) HdrInclFailed) (\<lambda>_. bindToDevice H s (intfName cfg)) h of
                 None \<Rightarrow> None
               | Some (Inl e, h) \<Rightarrow> Some ((False, Ok (Fail e)), h)
               | Some (Inr _, h) \<Rightarrow>
                   (case logNow H lg LevelDebug (socketBound cfg) h of
                      (Inl e, h) \<Rightarrow> Some ((False, Fail e), h)
                    | (Inr _, h) \<Rightarrow> Some ((True, Ok (Ok s)), h)))))"
      by (cases rs)
        (auto intro!: prog_adds_bind logNow_adds guarded split: option.splits sum.splits prod.splits
          dest!: prog_addsD [OF bound] logNow_cases(1) dest: adds_setup_trans)
  qed
  have "prog_adds setup_event (prog_finally (createSocket H lg cfg) (\<lambda>h. Some (destroyCapState H h)))"
    by (intro prog_adds_finally made) (auto simp: destroyCapState_def dropAllCaps_adds split: if_splits)
  then show ?thesis
    unfolding createIntf_def by (auto intro!: prog_adds_bind prog_try_adds raiseCaps_adds split: sum.splits)
qed

lemma runtime_simps [simp]:
  "m h = None \<Longrightarrow> runtime m h = None"
  "m h = Some (Inl e, h') \<Longrightarrow> runtime m h = Some (Fail (RuntimeError e), h')"
  "m h = Some (Inr a, h') \<Longrightarrow> runtime m h = Some (Ok a, h')"
  by (simp_all add: runtime_def)

text \<open>The start of a run: its texts are logged, and the interface is created.\<close>

lemma logConfig_cases:
  assumes "logConfig H lg cfg ts h = (r, h')"
  shows "logs_only h h'" and "r = Fail e \<Longrightarrow> refused H lg e h'"
  using logAll_cases [OF assms [unfolded logConfig_def]] by (auto simp: logged_def)

lemma destroyIntf_adds:
  "closes K \<Longrightarrow> destroyIntf K s h = Some h' \<Longrightarrow> adds setup_event h h'"
  by (auto simp: destroyIntf_def split: if_splits intro: closeLoop_adds)

text \<open>A run as a run of \<open>Scheduler\<close> with an outcome of the interface, answers of the socket and times of the clock.\<close>

definition exec_refined ::
    "'k LogHost_scheme \<Rightarrow> (packet_error, bool \<times> (u64 \<times> u8 list) list) outcome option \<Rightarrow> Event list \<Rightarrow>
     ((exec_error, bool) outcome \<times> Event list) option \<Rightarrow> bool" where
  "exec_refined H a h c \<longleftrightarrow>
     (case a of
        None \<Rightarrow> c = None
      | Some (Inl e) \<Rightarrow> \<exists>h'. c = Some (Fail (LogicError e), h')
      | Some (Inr (res, sent)) \<Rightarrow>
          \<exists>h'. c = Some (Ok res, h') \<and> taken H h' = map snd sent \<and> stderr_text h' = stderr_text h)"

lemma agrees_answers: "agrees (\<lambda>i. i < length (answers K h) \<and> answers K h ! i) K h"
  by (simp add: agrees_def)

lemma execEvents_refines:
  assumes "writes H" and "client_stops H" and "answers H h = []" and "taken H h = []" and "closes H" and "fd \<noteq> -1"
  shows "\<exists>accepts t0 ts t1 t2. exec_refined H (ipv4exec le base cfg (Ok ()) accepts t0 ts t1 t2) h
    (prog_finally (execEvents H le base lg fd cfg) (destroyIntf H fd) h)"
proof (cases "runPackets le base cfg")
  case None
  then show ?thesis by (simp add: exec_refined_def ipv4exec_packets execEvents_packets prog_finally_def)
next
  case (Some p)
  show ?thesis
  proof (cases p)
    case (Inl e)
    obtain h' where h': "destroyIntf H fd (Now # h) = Some h'" by (rule destroyIntf_ends [OF assms(5,6), of "Now # h"])
    have "execEvents H le base lg fd cfg h = Some (Fail (LogicError e), Now # h)"
      unfolding execEvents_packets Some Inl by simp
    then have "prog_finally (execEvents H le base lg fd cfg) (destroyIntf H fd) h = Some (Fail (LogicError e), h')"
      using h' by (simp add: prog_finally_def)
    moreover have "ipv4exec le base cfg (Ok ()) accepts t0 ts t1 t2 = Some (Fail e)" for accepts t0 ts t1 t2
      unfolding ipv4exec_packets Some Inl by simp
    ultimately have "exec_refined H (ipv4exec le base cfg (Ok ()) (\<lambda>_. True) 0 [] 0 0) h
        (prog_finally (execEvents H le base lg fd cfg) (destroyIntf H fd) h)" by (simp add: exec_refined_def)
    then show ?thesis by blast
  next
    case (Inr q)
    obtain goodbye invPkts hello updates where q: "q = (goodbye, invPkts, hello, updates)" by (cases q)
    have built: "packets_built le base cfg goodbye invPkts hello updates"
      using Some Inr q runPackets_built by blast
    let ?t0 = "l_now H (Now # h)"
    have none: "answers H (Now # h) = []" "taken H (Now # h) = []" using assms(3,4) by simp_all
    obtain r h1 ts t1 t2 where run: "runEvents H le lg fd cfg ?t0 goodbye invPkts hello updates (Now # h) = Some (r, h1)"
      "adds body_event (Now # h) h1"
      "run_refined H (\<lambda>accepts. execRun (pimsmConfig cfg) accepts ?t0 ts t1 t2 goodbye invPkts hello updates) r h1"
      using runEvents_refines [OF assms(1,2) built none, of lg fd ?t0] by blast
    define accepts where "accepts = (\<lambda>i. i < length (answers H h1) \<and> answers H h1 ! i)"
    define res where "res = execRun (pimsmConfig cfg) accepts ?t0 ts t1 t2 goodbye invPkts hello updates"
    have r: "r = Ok (fst res)" "map snd (snd res) = taken H h1"
      using run(3) agrees_answers [of H h1] unfolding run_refined_def accepts_def res_def by blast+
    obtain h' where h': "destroyIntf H fd h1 = Some h'" by (rule destroyIntf_ends [OF assms(5,6), of h1])
    have "execEvents H le base lg fd cfg h = Some (Ok (fst res), h1)"
      using Some Inr q run(1) r(1) by (simp add: execEvents_packets)
    then have "prog_finally (execEvents H le base lg fd cfg) (destroyIntf H fd) h = Some (Ok (fst res), h')"
      using h' by simp
    moreover have "ipv4exec le base cfg (Ok ()) accepts ?t0 ts t1 t2 = Some (Ok (fst res, snd res))"
      using ipv4exec_run [OF built] by (simp add: res_def)
    moreover have "taken H h' = map snd (snd res)" "stderr_text h' = stderr_text h"
      using setup_keeps [OF destroyIntf_adds [OF assms(5) h']] r(2) body_keeps(3) [OF run(2)] by simp_all
    ultimately have "exec_refined H (ipv4exec le base cfg (Ok ()) accepts ?t0 ts t1 t2) h
        (prog_finally (execEvents H le base lg fd cfg) (destroyIntf H fd) h)"
      by (cases res) (simp add: exec_refined_def)
    then show ?thesis by blast
  qed
qed

lemma exec_refined_same:
  "exec_refined H a h c \<Longrightarrow> stderr_text h = stderr_text h0 \<Longrightarrow> exec_refined H a h0 c"
  by (simp add: exec_refined_def split: option.splits sum.splits prod.splits)

lemma clientExec_refines:
  assumes "writes H" and "client_stops H" and "closes H"
    and "answers H h = []" and "taken H h = []" and "open_fds H h = {}"
  shows "\<exists>created accepts t0 ts t1 t2. exec_refined H (ipv4exec le base cfg created accepts t0 ts t1 t2) h
    (clientExec H le base lg progname cfg h)"
proof -
  obtain r1 h1 where 1: "logConfig H lg cfg (l_now H (Now # h)) (Now # h) = (r1, h1)" by fastforce
  note start = logConfig_cases [OF 1]
  have r1: "r1 = Ok ()" using start(2) writes_not_refused [OF assms(1)] by (cases r1) auto
  have "logs_only h h1" using adds_trans [OF logs_only_step start(1)] by (simp add: log_event_def)
  note keep1 = logs_only_socket [OF this] logs_only_open [OF this]
  obtain r2 h2 where 2: "createIntf H lg progname (pimsmConfig cfg) h1 = Some (r2, h2)" "socket_left H lg r2 h2"
    using createIntf_cases [OF assms(3)] keep1 assms(6) by metis
  have added: "adds setup_event h1 h2" by (rule prog_addsD [OF createIntf_adds [OF assms(3)] 2(1)])
  note keep2 = setup_keeps [OF added]
  obtain r where r: "r2 = Ok r"
    using 2(2) writes_not_refused [OF assms(1)] by (cases r2) (auto simp: socket_left_def log_refused_def)
  have run: "clientExec H le base lg progname cfg h = (case r of
      Inl e \<Rightarrow> prog_bind (runtime (perform (logNow H lg LevelError e))) (\<lambda>_. prog_return False) h2
    | Inr fd \<Rightarrow> prog_finally (execEvents H le base lg fd cfg) (destroyIntf H fd) h2)"
    using 1 r1 2(1) r by (cases r) (simp_all add: clientExec_def Let_def)
  show ?thesis
  proof (cases r)
    case (Inl e)
    obtain h3 where 3: "logNow H lg LevelError e h2 = (Ok (), h3)" using writes_log(2) [OF assms(1)] by (metis prod.collapse)
    have "clientExec H le base lg progname cfg h = Some (Ok False, h3)" using run Inl 3 by simp
    moreover have "taken H h3 = []" "stderr_text h3 = stderr_text h"
      unfolding logs_only_socket [OF logNow_cases(1) [OF 3]] keep2 keep1 assms(5) by (rule refl)+
    moreover have "ipv4exec le base cfg (Fail e) accepts t0 ts t1 t2 = Some (Ok (False, []))" for accepts t0 ts t1 t2
      by (simp add: ipv4exec_def hasError_def)
    ultimately have "exec_refined H (ipv4exec le base cfg (Fail e) (\<lambda>_. True) 0 [] 0 0) h
        (clientExec H le base lg progname cfg h)" by (simp add: exec_refined_def)
    then show ?thesis by blast
  next
    case (Inr fd)
    have fd: "fd \<noteq> -1" using 2(2) r Inr by (simp add: socket_left_def)
    have none: "answers H h2 = []" "taken H h2 = []" unfolding keep2 keep1 assms(4,5) by (rule refl)+
    obtain accepts t0 ts t1 t2 where "exec_refined H (ipv4exec le base cfg (Ok ()) accepts t0 ts t1 t2) h2
        (prog_finally (execEvents H le base lg fd cfg) (destroyIntf H fd) h2)"
      using execEvents_refines [OF assms(1,2) none assms(3) fd, of le base cfg lg] by blast
    then have "exec_refined H (ipv4exec le base cfg (Ok ()) accepts t0 ts t1 t2) h (clientExec H le base lg progname cfg h)"
      unfolding run Inr sum.case by (rule exec_refined_same) (simp only: keep1(3) keep2(3))
    then show ?thesis by blast
  qed
qed

section \<open>What a run leaves behind\<close>

text \<open>The log file: opened, and not yet closed.\<close>

primrec log_open :: "'k Kernel_scheme \<Rightarrow> Event list \<Rightarrow> bool" where
  "log_open K [] = False"
| "log_open K (e # h) =
     (case e of
        Fopen _ \<Rightarrow> k_ret K (e # h) \<noteq> 0
      | Fclose \<Rightarrow> interrupted K (e # h) \<and> log_open K h
      | _ \<Rightarrow> log_open K h)"

definition file_kept :: "Event \<Rightarrow> bool" where
  "file_kept e \<longleftrightarrow> (case e of Fopen _ \<Rightarrow> False | Fclose \<Rightarrow> False | _ \<Rightarrow> True)"

lemma adds_file_kept:
  "adds setup_event h h' \<Longrightarrow> adds file_kept h h'" "adds body_event h h' \<Longrightarrow> adds file_kept h h'"
  "logs_only h h' \<Longrightarrow> adds file_kept h h'"
  by (auto elim!: adds_mono simp: setup_event_def body_event_def log_event_def file_kept_def split: Event.splits)

lemma log_open_kept: "adds file_kept h h' \<Longrightarrow> log_open K h' = log_open K h"
  by (rule adds_keeps) (auto simp: file_kept_def split: Event.splits)

lemma fits_packets:
  assumes "\<forall>u \<in> set (cfg_updates cfg) \<union> set (inverseUpdates cfg). fits_update u"
  obtains goodbye invPkts hello updates where "packets_built le base cfg goodbye invPkts hello updates"
proof -
  have "\<exists>res sent. ipv4exec le base cfg (Ok ()) (\<lambda>_. True) 0 [] 0 0 = Some (Ok (res, sent))"
    using exec_ok [OF assms, of le base] by (meson prod.collapse)
  then obtain q where "runPackets le base cfg = Some (Inr q)"
    by (auto simp: ipv4exec_packets split: option.splits sum.splits)
  then show thesis using that runPackets_built by (cases q) blast
qed

text \<open>A run ends, and what it leaves open depends on its result.\<close>

definition exec_left :: "'k Kernel_scheme \<Rightarrow> string set \<Rightarrow> (exec_error, bool) outcome \<Rightarrow> Event list \<Rightarrow> bool" where
  "exec_left K eff r h \<longleftrightarrow>
     (case r of
        Inl (LogicError _) \<Rightarrow> False
      | Inl (RuntimeError _) \<Rightarrow> \<exists>s. open_fds K h \<subseteq> {s}
      | Inr False \<Rightarrow> \<exists>s. open_fds K h \<subseteq> {s}
      | Inr True \<Rightarrow> open_fds K h = {} \<and> (k_libcap K \<longrightarrow> dropped K eff h))"

lemma destroyIntf_closes:
  "closes K \<Longrightarrow> s \<noteq> -1 \<Longrightarrow>
    \<exists>h'. destroyIntf K s h = Some h' \<and> open_fds K h' = open_fds K h - {s} \<and> (\<forall>eff. dropped K eff h' = dropped K eff h)"
  by (rule destroyIntf_ends [of K s h]) auto

lemma execEvents_ends:
  assumes "client_stops H" and "closes H" and "fd \<noteq> -1" and "packets_built le base cfg goodbye invPkts hello updates"
    and "open_fds H h = {fd}" and "k_libcap H \<longrightarrow> dropped H eff h"
  shows "\<exists>r h'. prog_finally (execEvents H le base lg fd cfg) (destroyIntf H fd) h = Some (r, h') \<and>
    adds file_kept h h' \<and> exec_left H eff r h'"
proof -
  let ?t0 = "l_now H (Now # h)"
  obtain r h1 where 1: "runEvents H le lg fd cfg ?t0 goodbye invPkts hello updates (Now # h) = Some (r, h1)"
    "adds body_event (Now # h) h1"
    using runEvents_ends [OF assms(1)] by blast
  have body: "adds body_event h h1"
    by (rule adds_trans [OF adds_Cons 1(2)]) (simp_all add: body_event_def log_event_def)
  have opened: "open_fds H h1 = {fd}" "dropped H eff h1 = dropped H eff h"
    using body_keeps(1) [OF body, of H] body_keeps(2,4) [OF body, of H eff] assms(5) by (simp_all add: dropped_def effective_def)
  obtain h' where "destroyIntf H fd h1 = Some h' \<and> open_fds H h' = open_fds H h1 - {fd} \<and>
      (\<forall>eff. dropped H eff h' = dropped H eff h1)"
    using destroyIntf_closes [OF assms(2,3), of h1] by (rule exE)
  then have h': "destroyIntf H fd h1 = Some h'" "open_fds H h' = open_fds H h1 - {fd}"
    "dropped H eff h' = dropped H eff h1" by simp_all
  let ?r = "case r of Inl e \<Rightarrow> Fail (RuntimeError e) | Inr a \<Rightarrow> Ok a"
  have "runPackets le base cfg = Some (Ok (goodbye, invPkts, hello, updates))"
    using assms(4) runPackets_built by blast
  then have "execEvents H le base lg fd cfg h = Some (?r, h1)"
    unfolding execEvents_packets using 1(1) by (cases r) simp_all
  then have "prog_finally (execEvents H le base lg fd cfg) (destroyIntf H fd) h = Some (?r, h')"
    using h'(1) by (simp add: prog_finally_def)
  moreover have "adds file_kept h h'"
    using adds_trans [OF adds_file_kept(2) [OF body] adds_file_kept(1) [OF destroyIntf_adds [OF assms(2) h'(1)]]] .
  moreover have "exec_left H eff ?r h'"
    using h'(2,3) opened assms(6) by (simp add: exec_left_def split: sum.splits bool.splits)
  ultimately show ?thesis by blast
qed

lemma clientExec_ends:
  assumes "client_stops H" and "closes H" and "open_fds H h = {}"
    and "\<forall>u \<in> set (cfg_updates cfg) \<union> set (inverseUpdates cfg). fits_update u"
  shows "\<exists>r h'. clientExec H le base lg progname cfg h = Some (r, h') \<and> adds file_kept h h' \<and> exec_left H eff r h'"
proof -
  obtain r1 h1 where 1: "logConfig H lg cfg (l_now H (Now # h)) (Now # h) = (r1, h1)" by fastforce
  have only: "logs_only h h1" using adds_trans [OF logs_only_step logConfig_cases(1) [OF 1]] by (simp add: log_event_def)
  have none: "open_fds H h1 = {}" using logs_only_open [OF only, of H] assms(3) by simp
  note kept1 = adds_file_kept(3) [OF only]
  show ?thesis
  proof (cases r1)
    case (Inl e)
    then have "clientExec H le base lg progname cfg h = Some (Fail (RuntimeError e), h1)"
      using 1 by (simp add: clientExec_def Let_def)
    then show ?thesis using kept1 none by (simp add: exec_left_def)
  next
    case (Inr u)
    obtain r2 h2 where 2: "createIntf H lg progname (pimsmConfig cfg) h1 = Some (r2, h2)" "socket_left H lg r2 h2"
      "k_libcap H \<longrightarrow> dropped H eff h2 \<or> (\<exists>e. r2 = Ok (Fail e) \<and> caps_kept e)"
      using createIntf_cases [OF assms(2) none, of lg progname "pimsmConfig cfg" eff] by blast
    have kept2: "adds file_kept h h2"
      using adds_trans [OF kept1 adds_file_kept(1) [OF prog_addsD [OF createIntf_adds [OF assms(2)] 2(1)]]] .
    show ?thesis
    proof (cases r2)
      case (Inl e)
      then have "clientExec H le base lg progname cfg h = Some (Fail (RuntimeError e), h2)"
        using 1 \<open>r1 = Inr u\<close> 2(1) by (simp add: clientExec_def Let_def)
      then show ?thesis using kept2 2(2) Inl by (simp add: exec_left_def socket_left_def)
    next
      case made: (Inr r)
      have run: "clientExec H le base lg progname cfg h = (case r of
          Inl e \<Rightarrow> prog_bind (runtime (perform (logNow H lg LevelError e))) (\<lambda>_. prog_return False) h2
        | Inr fd \<Rightarrow> prog_finally (execEvents H le base lg fd cfg) (destroyIntf H fd) h2)"
        using 1 \<open>r1 = Inr u\<close> 2(1) made by (cases r) (simp_all add: clientExec_def Let_def)
      show ?thesis
      proof (cases r)
        case (Inl e)
        obtain r3 h3 where 3: "logNow H lg LevelError e h2 = (r3, h3)" by fastforce
        note only3 = logNow_cases(1) [OF 3]
        have "\<exists>s. open_fds H h2 \<subseteq> {s}" using 2(2) made Inl by (auto simp: socket_left_def split: if_splits)
        then have "\<exists>s. open_fds H h3 \<subseteq> {s}" using logs_only_open [OF only3, of H] by simp
        moreover have "clientExec H le base lg progname cfg h =
            Some (case r3 of Inl m \<Rightarrow> Fail (RuntimeError m) | Inr _ \<Rightarrow> Ok False, h3)"
          unfolding run using Inl 3 by (cases r3) simp_all
        ultimately show ?thesis
          using adds_trans [OF kept2 adds_file_kept(3) [OF only3]] by (simp add: exec_left_def split: sum.splits)
      next
        case (Inr fd)
        have fd: "fd \<noteq> -1" "open_fds H h2 = {fd}" using 2(2) made Inr by (simp_all add: socket_left_def)
        have caps: "k_libcap H \<longrightarrow> dropped H eff h2" using 2(3) made Inr by simp
        obtain goodbye invPkts hello updates where built: "packets_built le base cfg goodbye invPkts hello updates"
          by (rule fits_packets [OF assms(4)])
        obtain r' h' where "prog_finally (execEvents H le base lg fd cfg) (destroyIntf H fd) h2 = Some (r', h')"
          "adds file_kept h2 h'" "exec_left H eff r' h'"
          using execEvents_ends [OF assms(1,2) fd(1) built fd(2) caps, of lg] by blast
        then show ?thesis using run Inr adds_trans [OF kept2] by auto
      qed
    qed
  qed
qed

section \<open>The process\<close>

text \<open>The events of installing the handlers and of the log file, which say nothing of the socket.\<close>

definition outer_event :: "Event \<Rightarrow> bool" where
  "outer_event e \<longleftrightarrow> (case e of SigAction _ \<Rightarrow> True | Fopen _ \<Rightarrow> True | Fclose \<Rightarrow> True | _ \<Rightarrow> False)"

lemma outer_keeps:
  assumes "adds outer_event h h'"
  shows "answers K h' = answers K h" "taken K h' = taken K h" "stderr_text h' = stderr_text h"
    "open_fds K h' = open_fds K h" "cap_state K eff h' = cap_state K eff h" "printed h' = printed h"
    "drop_failed K eff h' = drop_failed K eff h"
  by (rule adds_keeps [OF _ assms]; auto simp: outer_event_def Let_def split: Event.splits prod.splits)+

lemma adds_replicate_Fclose: "adds outer_event h (replicate n Fclose @ h)"
  by (auto simp: adds_def outer_event_def list_all_iff)

lemma installSignals_cases:
  "\<exists>r h'. installSignals K sigs h = Some (r, h') \<and> adds outer_event h h' \<and> log_open K h' = log_open K h"
proof (induction sigs arbitrary: h)
  case (Cons sig sigs)
  have "adds outer_event h (SigAction sig # h)" by (simp add: adds_Cons outer_event_def)
  with Cons.IH [of "SigAction sig # h"] show ?case
    by (auto simp: syscall_def prog_bind_def Let_def intro: adds_trans)
qed (simp add: prog_return_def)

definition installs :: "'k Kernel_scheme \<Rightarrow> bool" where
  "installs K \<longleftrightarrow> (\<forall>sig h. k_ret K (SigAction sig # h) \<noteq> -1)"

lemma installSignals_ok: "installs K \<Longrightarrow> installSignals K sigs h = Some (r, h') \<Longrightarrow> r = Ok True"
  by (induction sigs arbitrary: h) (auto simp: installs_def syscall_def prog_bind_def prog_return_def Let_def)

lemma openLogger_outer:
  assumes "openLogger K exist isDirectory c h = (r, h')"
  shows "adds outer_event h h'"
    and "\<not> log_open K h \<Longrightarrow> r = Fail e \<or> r = Ok lg \<and> log_sink lg = ConsoleLogger \<Longrightarrow> \<not> log_open K h'"
    and "\<exists>le. newLogger exist isDirectory le c = r"
proof -
  show "adds outer_event h h'"
    using assms by (auto simp: openLogger_def Let_def outer_event_def intro!: adds_Cons split: option.splits if_splits)
  show "\<not> log_open K h \<Longrightarrow> r = Fail e \<or> r = Ok lg \<and> log_sink lg = ConsoleLogger \<Longrightarrow> \<not> log_open K h'"
    using assms by (auto simp: openLogger_def newLogger_def Let_def split: option.splits if_splits)
  show "\<exists>le. newLogger exist isDirectory le c = r"
    using assms by (auto simp: openLogger_def Let_def split: option.splits if_splits)
qed

text \<open>A configuration that was loaded has updates that fit into packets.\<close>

lemma loadDocument_fits:
  assumes "loadDocument W b fn doc = Some (err, Finished c)"
  shows "\<forall>u \<in> set (cfg_updates c) \<union> set (inverseUpdates c). fits_update u"
proof -
  obtain t where load: "loadPIMCConfig (w_yaml W) (w_host W) t (vc_root doc) = Some (Inr (Inr c))"
    using assms by (auto simp: loadDocument_def split: sum.splits option.splits if_splits)
  have "\<exists>cfg us vs lc pc. loadableConfig cfg \<and> pack cfg = Some (Ok us) \<and> inversePack cfg = Some (Ok vs) \<and>
      c = \<lparr>loggingConfig = lc, pimsmConfig = pc, jpConfig = cfg, cfg_updates = us, inverseUpdates = vs\<rparr>"
    using load_config_cases [of "w_yaml W" "w_host W" t "vc_root doc"] load by (auto split: if_splits)
  then obtain cfg us vs where "loadableConfig cfg" "pack cfg = Some (Ok us)" "inversePack cfg = Some (Ok vs)"
    "cfg_updates c = us" "inverseUpdates c = vs" by auto
  then show ?thesis
    using packed_fits(1) [OF loadable_distinct loadable_bounded, of cfg us vs] by simp
qed

lemma loadIPv4Config_fits:
  assumes "loadIPv4Config W argv = Some (err, Finished c)"
  shows "\<forall>u \<in> set (cfg_updates c) \<union> set (inverseUpdates c). fits_update u"
proof -
  obtain b fn doc where "loadDocument W b fn doc = Some (err, Finished c)"
    using assms
    by (auto simp: loadIPv4Config_def throw_cli_def split: option.splits run.splits prod.splits sum.splits bool.splits list.splits
        if_splits cli_exception.splits)
  then show ?thesis by (rule loadDocument_fits)
qed

lemma loadDocument_ends: "loadDocument W b fn doc \<noteq> None"
proof -
  have "\<exists>r. loadPIMCConfig (w_yaml W) (w_host W) t (vc_root doc) = Some r" for t
    using load_config_cases [of "w_yaml W" "w_host W" t "vc_root doc"] by (auto split: if_splits)
  then show ?thesis
    by (auto simp: loadDocument_def split: sum.splits option.splits) (metis option.distinct(1))
qed

lemma loadIPv4Config_ends:
  assumes "clientArgs W argv \<noteq> None"
  shows "loadIPv4Config W argv \<noteq> None"
  using assms loadDocument_ends
  by (auto simp: loadIPv4Config_def split: option.splits run.splits prod.splits sum.splits bool.splits list.splits)

text \<open>The process after its configuration was loaded.\<close>

definition process_left :: "'k Kernel_scheme \<Rightarrow> string set \<Rightarrow> system_end \<Rightarrow> Event list \<Rightarrow> bool" where
  "process_left K eff e h \<longleftrightarrow>
     \<not> log_open K h \<and> (open_fds K h = {} \<or> e = SystemExit 1 \<and> (\<exists>s. open_fds K h = {s})) \<and>
     (e = SystemExit 0 \<and> k_libcap K \<longrightarrow> dropped K eff h)"

lemma closeLogger_left:
  assumes "fcloses K" and "log_sink lg = ConsoleLogger \<Longrightarrow> \<not> log_open K h"
  obtains h' where "closeLogger K lg h = Some h'" "adds outer_event h h'" "\<not> log_open K h'"
proof -
  obtain n where n: "closeLogger K lg h = Some (replicate n Fclose @ h)" "n = 0 \<longleftrightarrow> log_sink lg = ConsoleLogger"
    "n \<noteq> 0 \<Longrightarrow> \<not> interrupted K (replicate n Fclose @ h)"
    using closeLogger_ends [OF assms(1)] by blast
  have "\<not> log_open K (replicate n Fclose @ h)"
    using n(2,3) assms(2) by (cases n) simp_all
  then show thesis using n(1) adds_replicate_Fclose that by blast
qed

lemma clientProcess_ends:
  assumes "client_stops H" and "closes H" and "fcloses H" and "open_fds H h = {}" and "\<not> log_open H h"
    and "\<forall>u \<in> set (cfg_updates cfg) \<union> set (inverseUpdates cfg). fits_update u"
  shows "\<exists>e h'. clientProcess H W progname cfg h = Some (e, h') \<and> process_left H eff e h'"
proof -
  obtain r h1 where 1: "openLogger H (h_exists (w_host W)) (h_isDirectory (w_host W)) (loggingConfig cfg) h = (r, h1)" by fastforce
  note opened = openLogger_outer [OF 1]
  have none: "open_fds H h1 = {}" using outer_keeps(4) [OF opened(1), of H] assms(4) by simp
  show ?thesis
  proof (cases r)
    case (Inl e)
    then have "\<not> log_open H h1" using opened(2) [OF assms(5)] by blast
    then show ?thesis using 1 Inl none by (simp add: clientProcess_def exitWith_def process_left_def)
  next
    case (Inr lg)
    then have console: "log_sink lg = ConsoleLogger \<Longrightarrow> \<not> log_open H h1" using opened(2) [OF assms(5)] by blast
    obtain x h2 where 2: "clientExec H (w_le W) (w_base W) lg progname cfg h1 = Some (x, h2)"
      "adds file_kept h1 h2" "exec_left H eff x h2"
      using clientExec_ends [OF assms(1,2) none assms(6)] by blast
    obtain h3 where 3: "closeLogger H lg h2 = Some h3" "adds outer_event h2 h3" "\<not> log_open H h3"
      by (rule closeLogger_left [OF assms(3), of lg h2]) (use console log_open_kept [OF 2(2), of H] in blast)+
    have left: "exec_left H eff x h3"
      using 2(3) unfolding exec_left_def dropped_def effective_def outer_keeps(4,5,7) [OF 3(2)] .
    have fin: "prog_finally (clientExec H (w_le W) (w_base W) lg progname cfg) (closeLogger H lg) h1 = Some (x, h3)"
      using 2(1) 3(1) by (simp add: prog_finally_def)
    have one: "(\<exists>s. open_fds H h3 \<subseteq> {s}) \<Longrightarrow> open_fds H h3 = {} \<or> (\<exists>s. open_fds H h3 = {s})" by blast
    show ?thesis
    proof (cases x)
      case (Inl e)
      then obtain m where m: "e = RuntimeError m" using left by (cases e) (simp_all add: exec_left_def)
      then have "\<exists>s. open_fds H h3 \<subseteq> {s}" using left Inl by (simp add: exec_left_def)
      from one [OF this] show ?thesis
        using 1 \<open>r = Inr lg\<close> fin Inl m 3(3) by (simp add: clientProcess_def exitWith_def process_left_def)
    next
      case (Inr res)
      have run: "clientProcess H W progname cfg h = Some (SystemExit (if res then 0 else 1), h3)"
        using 1 \<open>r = Inr lg\<close> fin Inr by (simp add: clientProcess_def)
      show ?thesis
      proof (cases res)
        case True
        then show ?thesis using run left Inr 3(3) by (simp add: exec_left_def process_left_def)
      next
        case False
        then have "\<exists>s. open_fds H h3 \<subseteq> {s}" using left Inr by (simp add: exec_left_def)
        from one [OF this] show ?thesis using run False 3(3) by (simp add: process_left_def)
      qed
    qed
  qed
qed

text \<open>What the loader returns does not depend on the interface, the socket and the clock.\<close>

definition seenAs :: "'n World \<Rightarrow> 'n World \<Rightarrow> bool" where
  "seenAs W W' \<longleftrightarrow> (\<exists>le created accepts t0 ts t1 t2.
     W' = W\<lparr>w_logError := le, w_socket := \<lambda>_. created, w_accepts := accepts, w_start := t0, w_rounds := ts, w_leave := (t1, t2)\<rparr>)"

lemma seenAs_load: "seenAs W W' \<Longrightarrow> loadIPv4Config W' argv = loadIPv4Config W argv"
proof -
  assume seen: "seenAs W W'"
  then have same: "w_le W' = w_le W" "w_getopt W' = w_getopt W" "w_host W' = w_host W" "w_isRegular W' = w_isRegular W"
      "w_fopen W' = w_fopen W" "w_parse W' = w_parse W" "w_yaml W' = w_yaml W" "w_ifaddrs W' = w_ifaddrs W"
      "w_nametoindex W' = w_nametoindex W" "w_version W' = w_version W"
    by (auto simp: seenAs_def)
  have "clientArgs W' argv = clientArgs W argv" "loadAll W' = loadAll W" "loadDocument W' = loadDocument W"
      "w_version W' = w_version W"
    unfolding fun_eq_iff clientArgs_def loadAll_def loadDocument_def same by (rule refl allI)+
  then show ?thesis unfolding loadIPv4Config_def by (simp only:)
qed

text \<open>The end of a process as its end in \<open>Client\<close>.\<close>

definition end_refined :: "'k Kernel_scheme \<Rightarrow> process_end option \<Rightarrow> (system_end \<times> Event list) option \<Rightarrow> bool" where
  "end_refined K a c \<longleftrightarrow>
     (case c of
        None \<Rightarrow> a = None
      | Some (SystemTerminated e, h) \<Rightarrow> a = Some (Terminated e)
      | Some (SystemExit code, h) \<Rightarrow>
          \<exists>out sent. a = Some (ExitCode code out (stderr_text h) sent) \<and> taken K h = map snd sent \<and> (out = [] \<or> printed h = out))"

lemma clientProcess_refines:
  assumes "writes H" and "client_stops H" and "closes H" and "fcloses H"
    and "answers H h = []" and "taken H h = []" and "open_fds H h = {}"
  shows "\<exists>W'. seenAs W W' \<and> end_refined H (runClient W' cfg (stderr_text h)) (clientProcess H W progname cfg h)"
proof -
  let ?H = "w_host W"
  obtain r h1 where 1: "openLogger H (h_exists ?H) (h_isDirectory ?H) (loggingConfig cfg) h = (r, h1)" by fastforce
  note opened = openLogger_outer [OF 1]
  note keep1 = outer_keeps [OF opened(1)]
  obtain le where le: "newLogger (h_exists ?H) (h_isDirectory ?H) le (loggingConfig cfg) = r" using opened(3) by blast
  show ?thesis
  proof (cases r)
    case (Inl e)
    let ?W = "W\<lparr>w_logError := le, w_socket := \<lambda>_. Ok (), w_accepts := \<lambda>_. True, w_start := 0, w_rounds := [], w_leave := (0, 0)\<rparr>"
    have "runClient ?W cfg (stderr_text h) = Some (ExitCode 1 [] (stderr_text h @ line (''error: '' @ e)) [])"
      using le Inl by (simp add: runClient_def)
    moreover have "clientProcess H W progname cfg h = Some (SystemExit 1, Stderr (line (''error: '' @ e)) # h1)"
      using 1 Inl by (simp add: clientProcess_def exitWith_def)
    moreover have "seenAs W ?W" unfolding seenAs_def by blast
    moreover have "taken H h1 = []" "stderr_text h1 = stderr_text h" unfolding keep1 assms(6) by (rule refl)+
    ultimately have "seenAs W ?W \<and> end_refined H (runClient ?W cfg (stderr_text h)) (clientProcess H W progname cfg h)"
      by (simp add: end_refined_def)
    then show ?thesis by (rule exI)
  next
    case (Inr lg)
    have none: "answers H h1 = []" "taken H h1 = []" "open_fds H h1 = {}" unfolding keep1 assms(5-7) by (rule refl)+
    obtain created accepts t0 ts t1 t2 where ref: "exec_refined H (ipv4exec (w_le W) (w_base W) cfg created accepts t0 ts t1 t2) h1
        (clientExec H (w_le W) (w_base W) lg progname cfg h1)"
      using clientExec_refines [OF assms(1,2,3) none, of "w_le W" "w_base W" cfg lg progname] by blast
    let ?W = "W\<lparr>w_logError := le, w_socket := \<lambda>_. created, w_accepts := accepts, w_start := t0, w_rounds := ts, w_leave := (t1, t2)\<rparr>"
    let ?a = "ipv4exec (w_le W) (w_base W) cfg created accepts t0 ts t1 t2"
    let ?c = "clientExec H (w_le W) (w_base W) lg progname cfg"
    have run: "runClient ?W cfg (stderr_text h) = (case ?a of
        None \<Rightarrow> None
      | Some (Inl e) \<Rightarrow> Some (Terminated (PacketMisuse e))
      | Some (Inr (res, sent)) \<Rightarrow> Some (ExitCode (if res then 0 else 1) [] (stderr_text h) sent))"
      using le Inr by (simp add: runClient_def)
    have proc: "clientProcess H W progname cfg h = (case prog_finally ?c (closeLogger H lg) h1 of
        None \<Rightarrow> None
      | Some (Inl (RuntimeError e), h) \<Rightarrow> exitWith 1 e h
      | Some (Inl (LogicError e), h) \<Rightarrow> Some (SystemTerminated (PacketMisuse e), h)
      | Some (Inr res, h) \<Rightarrow> Some (SystemExit (if res then 0 else 1), h))"
      using 1 Inr by (simp add: clientProcess_def)
    have close: "\<exists>k. closeLogger H lg h2 = Some k \<and> adds outer_event h2 k" for h2
      using closeLogger_ends [OF assms(4), of lg h2] adds_replicate_Fclose by metis
    have "end_refined H (runClient ?W cfg (stderr_text h)) (clientProcess H W progname cfg h)"
    proof (cases ?a)
      case None
      then have "?c h1 = None" using ref by (simp add: exec_refined_def)
      then show ?thesis unfolding run proc by (simp add: None prog_finally_def end_refined_def)
    next
      case (Some q)
      show ?thesis
      proof (cases q)
        case (Inl e)
        then obtain h2 where "?c h1 = Some (Fail (LogicError e), h2)" using ref Some by (auto simp: exec_refined_def)
        moreover obtain k where "closeLogger H lg h2 = Some k" using close by blast
        ultimately show ?thesis unfolding run proc by (simp add: Some Inl prog_finally_def end_refined_def)
      next
        case q: (Inr p)
        obtain res sent where p: "p = (res, sent)" by (cases p)
        obtain h2 where h2: "?c h1 = Some (Ok res, h2)" "taken H h2 = map snd sent" "stderr_text h2 = stderr_text h1"
          using ref Some q p by (auto simp: exec_refined_def)
        obtain k where k: "closeLogger H lg h2 = Some k" "adds outer_event h2 k" using close by blast
        have "taken H k = map snd sent" "stderr_text k = stderr_text h"
          unfolding outer_keeps [OF k(2)] h2 keep1 by (rule refl)+
        then show ?thesis unfolding run proc by (simp add: Some q p h2(1) k(1) prog_finally_def end_refined_def)
      qed
    qed
    moreover have "seenAs W ?W" unfolding seenAs_def by blast
    ultimately have "seenAs W ?W \<and> end_refined H (runClient ?W cfg (stderr_text h)) (clientProcess H W progname cfg h)" by blast
    then show ?thesis by (rule exI)
  qed
qed

text \<open>Every way in which the loader ends, with the history and the output at the end of the process.\<close>

lemma clientSystem_started:
  assumes "installSignals H [2, 15, 1] [] = Some (Ok b, h0)" and "loadIPv4Config W argv = Some (err, res)"
  shows "clientSystem H W argv =
     (let h = (if err = [] then h0 else Stderr err # h0) in
      case res of
        Finished cfg \<Rightarrow> clientProcess H W (argv ! 0) cfg h
      | Exits out \<Rightarrow> Some (SystemExit 0, Stdout out # h)
      | ThrowsCommandLine m \<Rightarrow> exitWith 2 m h
      | ThrowsRuntime m \<Rightarrow> exitWith 1 m h
      | ThrowsLogic e \<Rightarrow> Some (SystemTerminated e, h))"
  unfolding clientSystem_def assms by simp

text \<open>C3: For every run whose log takes what is written to it, on a kernel that installs the handlers, there are
  outcomes of the interface, answers of the socket and times of the clock with which \<open>main\<close> of the model of
  the client without a system ends in the same way: the exit code or the exception, the text on the standard error
  output and the packets that the socket took are the same.
\<close>

theorem client_refines:
  assumes "writes H" and "client_stops H" and "closes H" and "fcloses H" and "installs H"
  shows "\<exists>W'. seenAs W W' \<and>
    (case clientSystem H W argv of
       None \<Rightarrow> main W' argv = None
     | Some (SystemTerminated e, h) \<Rightarrow> main W' argv = Some (Terminated e)
     | Some (SystemExit code, h) \<Rightarrow>
         \<exists>out sent. main W' argv = Some (ExitCode code out (stderr_text h) sent) \<and> taken H h = map snd sent \<and>
           (out = [] \<or> printed h = out))"
proof -
  obtain r h0 where 0: "installSignals H [2, 15, 1] [] = Some (r, h0)" "adds outer_event [] h0"
    using installSignals_cases [of H "[2, 15, 1]" "[]"] by blast
  then have signals: "installSignals H [2, 15, 1] [] = Some (Ok True, h0)" using installSignals_ok [OF assms(5)] by blast
  have none: "answers H h0 = []" "taken H h0 = []" "open_fds H h0 = {}" "stderr_text h0 = []" "printed h0 = []"
    unfolding outer_keeps [OF 0(2)] by simp_all
  have self: "seenAs W (W\<lparr>w_logError := le, w_socket := \<lambda>_. created, w_accepts := accepts, w_start := t0, w_rounds := ts, w_leave := (t1, t2)\<rparr>)"
    for le created accepts t0 ts t1 t2 unfolding seenAs_def by blast
  let ?W = "W\<lparr>w_logError := \<lambda>_. None, w_socket := \<lambda>_. Ok (), w_accepts := \<lambda>_. True, w_start := 0, w_rounds := [], w_leave := (0, 0)\<rparr>"
  note load = seenAs_load [of W, where argv = argv]
  have "\<exists>W'. seenAs W W' \<and> end_refined H (main W' argv) (clientSystem H W argv)"
  proof (cases "loadIPv4Config W argv")
    case None
    have "loadIPv4Config ?W argv = None" using load [OF self] None by simp
    moreover have "clientSystem H W argv = None" unfolding clientSystem_def signals None by simp
    ultimately have "end_refined H (main ?W argv) (clientSystem H W argv)" by (simp add: main_def end_refined_def)
    then show ?thesis using self by blast
  next
    case (Some x)
    obtain err res where x: "loadIPv4Config W argv = Some (err, res)" using Some by (cases x) auto
    define h where "h = (if err = [] then h0 else Stderr err # h0)"
    have start: "answers H h = []" "taken H h = []" "open_fds H h = {}" "stderr_text h = err" "printed h = []"
      using none by (simp_all add: h_def)
    note run = clientSystem_started [OF signals x, folded h_def, unfolded Let_def]
    have loaded: "loadIPv4Config ?W argv = Some (err, res)" using load [OF self] x by simp
    show ?thesis
    proof (cases res)
      case (Finished cfg)
      obtain W' where W': "seenAs W W'" "end_refined H (runClient W' cfg (stderr_text h)) (clientProcess H W (argv ! 0) cfg h)"
        using clientProcess_refines [OF assms(1-4) start(1-3)] by blast
      have "main W' argv = runClient W' cfg err" using load [OF W'(1)] x Finished by (simp add: main_def)
      then have "end_refined H (main W' argv) (clientSystem H W argv)" using W'(2) run Finished start(4) by simp
      with W'(1) show ?thesis by blast
    next
      case (Exits out)
      then have "end_refined H (main ?W argv) (clientSystem H W argv)"
        using loaded start unfolding run by (simp add: main_def end_refined_def)
      then show ?thesis using self by blast
    next
      case (ThrowsCommandLine m)
      then have "end_refined H (main ?W argv) (clientSystem H W argv)"
        using loaded start unfolding run by (simp add: main_def end_refined_def exitWith_def)
      then show ?thesis using self by blast
    next
      case (ThrowsRuntime m)
      then have "end_refined H (main ?W argv) (clientSystem H W argv)"
        using loaded start unfolding run by (simp add: main_def end_refined_def exitWith_def)
      then show ?thesis using self by blast
    next
      case (ThrowsLogic e)
      then have "end_refined H (main ?W argv) (clientSystem H W argv)"
        using loaded start unfolding run by (simp add: main_def end_refined_def)
      then show ?thesis using self by blast
    qed
  qed
  then show ?thesis unfolding end_refined_def .
qed


text \<open>A kernel on which all calls succeed, and a signal that comes some time after the start.\<close>

definition quietHost :: ClientHost where
  "quietHost =
     \<lparr>k_ret = (\<lambda>h. case h of Socket k # _ \<Rightarrow> 3 | CapGetProc # _ \<Rightarrow> 7 | CapInit # _ \<Rightarrow> 8 | Fopen f # _ \<Rightarrow> 9 | Fwrite t # _ \<Rightarrow> 1 | _ \<Rightarrow> 0),
      k_errno = (\<lambda>_. 22), k_strerror = (\<lambda>_. ''Invalid argument''), k_libcap = True,
      l_now = (\<lambda>h. of_nat (length h) * 1000000000), l_clock = (\<lambda>_. ''12:00:00''), l_fileClock = (\<lambda>_. ''2024-01-01 12:00:00''),
      l_zone = (\<lambda>_. ''+0000''), ch_stopped = (\<lambda>h. 100 < length h)\<rparr>"

lemma quietHost_ok:
  "writes quietHost" "client_stops quietHost" "closes quietHost" "fcloses quietHost" "installs quietHost"
  by (auto simp: writes_def client_stops_def closes_def fcloses_def installs_def interrupted_def quietHost_def
      intro: exI [of _ 100])

lemma quietHost_drops: "\<not> drop_failed quietHost eff h"
  by (induction h) (auto simp: quietHost_def split: Event.splits)

lemma client_refines_witness:
  "\<exists>W'. seenAs sampleWorld W' \<and>
    (case clientSystem quietHost sampleWorld [''pimc'', ''f''] of
       None \<Rightarrow> main W' [''pimc'', ''f''] = None
     | Some (SystemTerminated e, h) \<Rightarrow> main W' [''pimc'', ''f''] = Some (Terminated e)
     | Some (SystemExit code, h) \<Rightarrow>
         \<exists>out sent. main W' [''pimc'', ''f''] = Some (ExitCode code out (stderr_text h) sent) \<and>
           taken quietHost h = map snd sent \<and> (out = [] \<or> printed h = out))"
  by (rule client_refines [OF quietHost_ok])


end
