(* ===== verification/MclstOutput.thy ===== *)
theory MclstOutput
  imports MclstBeacon FlowStatistics
begin

text \<open>
  What \<open>mclst\<close> prints, \<open>apps/mclst/OutputHandler.hpp\<close>: the texts of packets, timeouts and warnings, and the
  table of the statistics.
\<close>

section \<open>Values\<close>

text \<open>
  What the texts depend on in the host and in the formatter: the local time of a number of seconds, as a time
  of day and as a date with it, and the arithmetic of \<open>double\<close> with the text \<open>{:.2f}\<close>.
\<close>

record 'd Display =
  d_clock :: "nat \<Rightarrow> string"
  d_date :: "nat \<Rightarrow> string"
  d_u64 :: "u64 \<Rightarrow> 'd"
  d_int :: "int \<Rightarrow> 'd"
  d_times :: "'d \<Rightarrow> 'd \<Rightarrow> 'd"
  d_divide :: "'d \<Rightarrow> 'd \<Rightarrow> 'd"
  d_less :: "'d \<Rightarrow> 'd \<Rightarrow> bool"
  d_fixed2 :: "'d \<Rightarrow> string"

definition interfaceText :: "IntfTable \<Rightarrow> u32 \<Rightarrow> string" where
  "interfaceText t i =
     (if i \<noteq> 0 then
        (case byIndex t i of
           Some info \<Rightarrow> intf_name info @ '' (#'' @ dec_string (unat i) @ '')''
         | None \<Rightarrow> ''*unknown intf* (#'' @ dec_string (unat i) @ '')'')
      else ''N/A'')"

definition ttlText :: "int \<Rightarrow> string" where
  "ttlText ttl =
     (if ttl \<noteq> -1 then (if 0 \<le> ttl \<and> ttl \<le> 255 then int_text ttl else ''[Err]'') else ''N/A'')"

text \<open>The fractions of both times are computed from the seconds; that of a duration loses its carry.\<close>

definition timestampText :: "'d Display \<Rightarrow> u64 \<Rightarrow> string" where
  "timestampText D ts =
     (let tt = unat ts div 1000000000; nanos = unat ts div 1000000000 in
      case prc nanos 6 of (nstext, carry) \<Rightarrow> d_clock D (tt + carry) @ ''.'' @ pad_left 6 nstext)"

definition beaconTimeText :: "'d Display \<Rightarrow> u64 \<Rightarrow> string" where
  "beaconTimeText D ts =
     (let tt = unat ts div 1000000000; nanos = unat ts div 1000000000 in
      case prc nanos 9 of (nstext, carry) \<Rightarrow> d_date D (tt + carry) @ ''.'' @ nstext)"

definition durationText :: "u64 \<Rightarrow> string" where
  "durationText d =
     (let nanos = unat d mod 1000000000; secs = unat d div 1000000000 in
      case prc nanos 6 of (nstext, carry) \<Rightarrow> dec_string secs @ ''.'' @ nstext)"

definition sourceAndPortText :: "IPv4Address \<Rightarrow> u16 \<Rightarrow> string" where
  "sourceAndPortText source sport = addr_string source @ '':'' @ dec_string (unat sport)"

section \<open>Messages\<close>

text \<open>The colours, \<open>lib/pimc/unix/TerminalColors.hpp\<close>, which are used if the output is coloured.\<close>

definition TermReset :: string where "TermReset = CHR 0x1B # ''[0m''"
definition TermYellow :: string where "TermYellow = CHR 0x1B # ''[0;33m''"
definition TermRedBright :: string where "TermRedBright = CHR 0x1B # ''[0;91m''"
definition TermGreenBright :: string where "TermGreenBright = CHR 0x1B # ''[0;92m''"
definition TermYellowBright :: string where "TermYellowBright = CHR 0x1B # ''[0;93m''"
definition TermBlueBright :: string where "TermBlueBright = CHR 0x1B # ''[0;94m''"
definition TermWhiteBright :: string where "TermWhiteBright = CHR 0x1B # ''[0;97m''"

definition colour :: "Config \<Rightarrow> string \<Rightarrow> string" where
  "colour cfg c = (if c_colors cfg then c else [])"

text \<open>A warning has no new line; all texts are written as C strings.\<close>

definition warningText :: "Config \<Rightarrow> string \<Rightarrow> string" where
  "warningText cfg msg = cstring (colour cfg TermRedBright @ ''warning: '' @ msg @ colour cfg TermReset)"

definition warningTsText :: "'d Display \<Rightarrow> Config \<Rightarrow> u64 \<Rightarrow> string \<Rightarrow> string" where
  "warningTsText D cfg ts msg =
     cstring (colour cfg TermRedBright @ timestampText D ts @ ''warning: '' @ msg @ colour cfg TermReset @ nl)"

definition timeoutText :: "'d Display \<Rightarrow> Config \<Rightarrow> u64 \<Rightarrow> string" where
  "timeoutText D cfg ts =
     cstring (colour cfg TermWhiteBright @ timestampText D ts @ '' timeout'' @ colour cfg TermReset @ nl)"

text \<open>
  A received packet.  The message of a beacon is formatted as a C string, cut to its length: \<open>None\<close> is the read
  beyond the buffer if no null character follows the message in it.
\<close>

definition remoteMsgText :: "PacketInfo \<Rightarrow> string option" where
  "remoteMsgText pki =
     (let mem = drop (pi_remoteMsg pki) (pi_receivedData pki) in
      if 0 \<in> set mem then Some (take (unat (pi_remoteMsgLen pki)) (map (\<lambda>b. char_of (unat b)) (takeWhile (\<lambda>b. b \<noteq> 0) mem))) else None)"

definition beaconText :: "'d Display \<Rightarrow> Config \<Rightarrow> PacketInfo \<Rightarrow> string option" where
  "beaconText D cfg pki =
     (if pi_mclstBeacon pki then
        map_option (\<lambda>msg.
            nl @ colour cfg TermBlueBright @ replicate 15 CHR '' '' @ '' mclst pkt #'' @
            dec_string (unat (pi_remoteSeq pki)) @ '', '' @ beaconTimeText D (pi_remoteTimestamp pki) @ '', delta '' @
            dec_string (unat (pi_timestamp pki - pi_remoteTimestamp pki)) @ ''ns, '' @ msg)
          (remoteMsgText pki)
      else Some [])"

definition payloadText :: "Config \<Rightarrow> PacketInfo \<Rightarrow> string option" where
  "payloadText cfg pki =
     (if c_showPayload cfg then
        map_option (\<lambda>bs. nl @ colour cfg TermYellow @ formatHexAscii (map unat bs) 0)
          (get_bytes (Some (pi_payload pki)) 0 (unat (pi_payloadSize pki)) (pi_receivedData pki))
      else Some [])"

definition receivedPacketText :: "'d Display \<Rightarrow> Config \<Rightarrow> PacketInfo \<Rightarrow> string option" where
  "receivedPacketText D cfg pki =
     Option.bind (beaconText D cfg pki) (\<lambda>beacon.
     Option.bind (payloadText cfg pki) (\<lambda>payload.
       Some (cstring
         (colour cfg TermYellowBright @ timestampText D (pi_timestamp pki) @ '' '' @
          interfaceText (c_intfTable cfg) (pi_ifIndex pki) @ '', '' @ addr_string (pi_source pki) @ '':'' @
          dec_string (unat (pi_sport pki)) @ ''->'' @ addr_string (c_group cfg) @ '':'' @
          dec_string (unat (pi_dport pki)) @ '', TTL '' @ ttlText (pi_ttl pki) @ '', UDP size '' @
          dec_string (unat (pi_payloadSize pki)) @ beacon @ payload @ colour cfg TermReset @ nl))))"

definition sentPacketText :: "'d Display \<Rightarrow> Config \<Rightarrow> u64 \<Rightarrow> u64 \<Rightarrow> string" where
  "sentPacketText D cfg ts sq =
     cstring (colour cfg TermGreenBright @ timestampText D ts @ '' sent packet to '' @ addr_string (c_group cfg) @ '':'' @
       dec_string (unat (c_dport cfg)) @ '', seq #'' @ dec_string (unat sq) @ colour cfg TermReset @ nl)"

definition txStatsText :: "u64 \<Rightarrow> bool \<Rightarrow> string" where
  "txStatsText count stopped = (if stopped then nl else []) @ ''Sent '' @ dec_string (unat count) @ '' packets'' @ nl"

section \<open>The table of the statistics\<close>

record FlowStatsView =
  fv_source :: IPv4Address
  fv_sport :: u16
  fv_dport :: u16
  fv_packets :: u64
  fv_bytes :: u64
  fv_aps :: string
  fv_rate :: string

definition aps :: "'d Display \<Rightarrow> FlowStats \<Rightarrow> 'd" where
  "aps D fs = d_divide D (d_u64 D (fs_bytes fs)) (d_u64 D (fs_pkts fs))"

definition rateText :: "'d Display \<Rightarrow> FlowStats \<Rightarrow> u64 \<Rightarrow> string" where
  "rateText D fs duration =
     (let rate = d_divide D (d_times D (d_u64 D (push_bit 3 (fs_bytes fs))) (d_int D 1000000000)) (d_u64 D duration) in
      if d_less D rate (d_int D 1000) then d_fixed2 D rate @ ''bps''
      else if d_less D rate (d_int D 1000000) then d_fixed2 D (d_divide D rate (d_int D 1000)) @ ''Kbps''
      else if d_less D rate (d_int D 1000000000) then d_fixed2 D (d_divide D rate (d_int D 1000000)) @ ''Mbps''
      else d_fixed2 D (d_divide D rate (d_int D 1000000000)) @ ''Gbps'')"

definition newFlowStatsView :: "'d Display \<Rightarrow> IPv4Address \<Rightarrow> u16 \<Rightarrow> u16 \<Rightarrow> FlowStats \<Rightarrow> u64 \<Rightarrow> FlowStatsView" where
  "newFlowStatsView D source sport dport fs duration =
     \<lparr>fv_source = source, fv_sport = sport, fv_dport = dport, fv_packets = fs_pkts fs, fv_bytes = fs_bytes fs,
      fv_aps = d_fixed2 D (aps D fs), fv_rate = rateText D fs duration\<rparr>"

definition spSize :: "FlowStatsView \<Rightarrow> nat" where
  "spSize v = charlen (fv_source v) + 1 + decimalUIntLen (ucast (fv_sport v))"

text \<open>The widths of the six columns, and a line of the table.\<close>

definition rxWidths :: "FlowStatsView list \<Rightarrow> nat list" where
  "rxWidths fsvs =
     [fold max (map spSize fsvs) (length ''Source''),
      fold max (map (\<lambda>v. decimalUIntLen (ucast (fv_dport v))) fsvs) (length ''DPort''),
      fold max (map (\<lambda>v. decimalUIntLen (fv_packets v)) fsvs) (length ''Pkts''),
      fold max (map (\<lambda>v. decimalUIntLen (fv_bytes v)) fsvs) (length ''Bytes''),
      fold max (map (\<lambda>v. length (fv_aps v)) fsvs) (length ''APS''),
      fold max (map (\<lambda>v. length (fv_rate v)) fsvs) (length ''Rate'')]"

definition rxLine :: "nat list \<Rightarrow> string list \<Rightarrow> string" where
  "rxLine ws cells =
     tl (concat (map (\<lambda>(pad, w, c). CHR '' '' # pad w c)
       (zip [pad_left, pad_left, pad_right, pad_right, pad_right, pad_right] (zip ws cells)))) @ nl"

definition rxCells :: "FlowStatsView \<Rightarrow> string list" where
  "rxCells v =
     [sourceAndPortText (fv_source v) (fv_sport v), dec_string (unat (fv_dport v)), dec_string (unat (fv_packets v)),
      dec_string (unat (fv_bytes v)), fv_aps v, fv_rate v]"

definition rxTable :: "FlowStatsView list \<Rightarrow> string list" where
  "rxTable fsvs =
     (let ws = rxWidths fsvs in
      rxLine ws [''Source'', ''DPort'', ''Pkts'', ''Bytes'', ''APS'', ''Rate''] #
      rxLine ws (map (scSection CHR ''='' (fold max ws 0)) ws) #
      map (\<lambda>v. rxLine ws (rxCells v)) fsvs)"

definition groupPortText :: "Config \<Rightarrow> string" where
  "groupPortText cfg =
     addr_string (c_group cfg) @ (if c_wildcard cfg then '':*'' else '':'' @ dec_string (unat (c_dport cfg)))"

text \<open>\<open>None\<close> is the use of a duration that was never written, or of a flow without statistics.\<close>

definition rxStatsText :: "'d Display \<Rightarrow> Config \<Rightarrow> RxStats \<Rightarrow> bool \<Rightarrow> string option" where
  "rxStatsText D cfg rx stopped =
     Option.bind (durationNanos rx) (\<lambda>duration.
       let start = (if stopped then nl else []) @ nl in
       if \<not> rx_nonempty rx then
         Some (start @ ''No traffic received for '' @ groupPortText cfg @ '' in '' @ durationText duration @ '' sec'' @ nl)
       else Option.bind (rx_forEach rx) (\<lambda>flows.
         let fsvs = map (\<lambda>(source, sport, dport, fs). newFlowStatsView D source sport dport fs duration) flows in
         Some (start @ ''Traffic received for '' @ groupPortText cfg @ '' in '' @ durationText duration @ '' sec'' @
           nl @ nl @ concat (rxTable fsvs))))"

section \<open>The lines of the table\<close>

lemma fold_max_start: "n \<le> fold max xs (n :: nat)"
proof (induction xs arbitrary: n)
  case (Cons y xs)
  show ?case using Cons.IH [of "max y n"] by simp
qed simp

lemma fold_max_map: "v \<in> set vs \<Longrightarrow> f v \<le> fold max (map f vs) (n :: nat)"
proof (induction vs arbitrary: n)
  case (Cons y vs)
  show ?case
  proof (cases "v = y")
    case True
    then show ?thesis using fold_max_start [of "max (f y) n" "map f vs"] by simp
  qed (use Cons in simp)
qed simp

lemma length_port: "decimalUIntLen (ucast (p :: u16)) = length (dec_string (unat p))"
  by (simp add: decimalUIntLen_length u64_of_u16)

lemma rxWidths_fit:
  assumes "v \<in> set fsvs"
  shows "list_all2 (\<lambda>w c. length c \<le> w) (rxWidths fsvs) (rxCells v)"
proof -
  have sizes: "length (sourceAndPortText (fv_source v) (fv_sport v)) = spSize v"
    "length (dec_string (unat (fv_dport v))) = decimalUIntLen (ucast (fv_dport v))"
    "length (dec_string (unat (fv_packets v))) = decimalUIntLen (fv_packets v)"
    "length (dec_string (unat (fv_bytes v))) = decimalUIntLen (fv_bytes v)"
    by (simp_all add: sourceAndPortText_def spSize_def charlen_length decimalUIntLen_length u64_of_u16)
  show ?thesis
    by (simp only: rxWidths_def rxCells_def list_all2_Cons list.simps list_all2_Nil sizes simp_thms
        fold_max_map [OF assms, of "\<lambda>v. decimalUIntLen (ucast (fv_dport v))"] fold_max_map [OF assms, of spSize]
        fold_max_map [OF assms, of "\<lambda>v. decimalUIntLen (fv_packets v)"]
        fold_max_map [OF assms, of "\<lambda>v. decimalUIntLen (fv_bytes v)"]
        fold_max_map [OF assms, of "\<lambda>v. length (fv_aps v)"] fold_max_map [OF assms, of "\<lambda>v. length (fv_rate v)"])
qed

text \<open>A line whose cells fit is as long as its widths say.\<close>

lemma rxLine_length:
  assumes "list_all2 (\<lambda>w c. length c \<le> w) ws cells" and "length ws = 6"
  shows "length (rxLine ws cells) = sum_list ws + 6"
proof -
  obtain a b c d e f where ws: "ws = [a, b, c, d, e, f]" using assms(2) by (auto simp: eval_nat_numeral length_Suc_conv)
  then obtain a' b' c' d' e' f' where cells: "cells = [a', b', c', d', e', f']"
    using assms(1) by (auto simp: list_all2_Cons1)
  show ?thesis using assms(1) by (simp add: ws cells rxLine_def pad_left_def pad_right_def)
qed

lemma rxTable_lines:
  "length (rxTable fsvs) = length fsvs + 2" "\<forall>l \<in> set (rxTable fsvs). length l = sum_list (rxWidths fsvs) + 6"
proof -
  let ?ws = "rxWidths fsvs"
  have six: "length ?ws = 6" by (simp add: rxWidths_def)
  have caps: "list_all2 (\<lambda>w c. length c \<le> w) ?ws [''Source'', ''DPort'', ''Pkts'', ''Bytes'', ''APS'', ''Rate'']"
    by (simp only: rxWidths_def list_all2_Cons list_all2_Nil simp_thms fold_max_start)
  have "w \<le> fold max ?ws 0" if "w \<in> set ?ws" for w using fold_max_map [of w ?ws id 0] that by simp
  then have "list_all2 (\<lambda>w c. length c \<le> w) ?ws (map (scSection CHR ''='' (fold max ?ws 0)) ?ws)"
    by (simp add: list_all2_conv_all_nth scSection_def SCLine_def)
  then show "\<forall>l \<in> set (rxTable fsvs). length l = sum_list ?ws + 6"
    using rxLine_length [OF caps six] rxLine_length [OF _ six] rxWidths_fit
    by (auto simp: rxTable_def Let_def)
  show "length (rxTable fsvs) = length fsvs + 2" by (simp add: rxTable_def Let_def)
qed

text \<open>C16: After any packets the statistics are printed as a table with one line for every flow, in the order of
  destination port, source and source port, below two lines of headings, and all lines of the table have the
  same length.
\<close>

theorem rx_table_aligned:
  assumes "ps \<noteq> []"
  shows "\<exists>t flows fsvs. rxStatsText D cfg ((rx_all ps newRxStats)\<lparr>durationNanos := Some d\<rparr>) stopped =
      Some (t @ concat (rxTable fsvs)) \<and>
    fsvs = map (\<lambda>(source, sport, dport, fs). newFlowStatsView D source sport dport fs d) flows \<and>
    sorted_wrt flow_less (map (\<lambda>(a, sp, dp, fs). (a, sp, dp)) flows) \<and>
    set flows = (\<lambda>(a, sp, dp, n). (a, sp, dp, flow_stats (of_flow (a, sp, dp) ps))) ` set ps \<and>
    length (rxTable fsvs) = length flows + 2 \<and>
    (\<forall>l \<in> set (rxTable fsvs). length l = sum_list (rxWidths fsvs) + 6)"
proof -
  let ?rx = "rx_all ps newRxStats"
  let ?rx' = "?rx\<lparr>durationNanos := Some d\<rparr>"
  have inv: "rx_inv ps ?rx" using rx_inv_all [OF rx_inv_new, of ps] by simp
  obtain flows where flows: "rx_forEach ?rx = Some flows" "sorted_wrt flow_less (map (\<lambda>(a, sp, dp, fs). (a, sp, dp)) flows)"
    "set flows = (\<lambda>(a, sp, dp, n). (a, sp, dp, flow_stats (of_flow (a, sp, dp) ps))) ` set ps"
    by (rule rx_inv_rows [OF inv]) blast
  have "fids ?rx \<noteq> []" using inv assms by (auto simp: rx_inv_def)
  then have "rx_nonempty ?rx'" using inv by (auto simp: rx_inv_def rx_nonempty_def)
  moreover have "rx_forEach ?rx' = Some flows" using flows(1) by (simp add: rx_forEach_def)
  ultimately obtain t where t: "rxStatsText D cfg ?rx' stopped = Some (t @ concat (rxTable
      (map (\<lambda>(source, sport, dport, fs). newFlowStatsView D source sport dport fs d) flows)))"
    by (simp add: rxStatsText_def Let_def)
  show ?thesis
    by (rule exI [of _ t], rule exI [of _ flows], rule exI, intro conjI, rule t, rule refl)
      (use flows(2,3) rxTable_lines in \<open>simp_all only: length_map\<close>)
qed

definition sampleDisplay :: "nat Display" where
  "sampleDisplay = \<lparr>d_clock = dec_string, d_date = dec_string, d_u64 = unat, d_int = nat, d_times = (*), d_divide = (div),
     d_less = (<), d_fixed2 = (\<lambda>n. dec_string n @ ''.00'')\<rparr>"

lemma rx_table_aligned_witness:
  "\<exists>t flows fsvs. rxStatsText sampleDisplay sampleConfigMclst
        ((rx_all [(ofOctets 10 0 0 1, 5000, 5001, 100), (ofOctets 10 0 0 1, 5000, 5001, 200)] newRxStats)
          \<lparr>durationNanos := Some 1000000000\<rparr>) False = Some (t @ concat (rxTable fsvs)) \<and>
    set flows = {(ofOctets 10 0 0 1, 5000 :: u16, 5001 :: u16, \<lparr>fs_pkts = 2, fs_bytes = 388\<rparr>)} \<and> length (rxTable fsvs) = length flows + 2 \<and>
    (\<forall>l \<in> set (rxTable fsvs). length l = sum_list (rxWidths fsvs) + 6)"
proof -
  let ?ps = "[(ofOctets 10 0 0 1, 5000, 5001, 100), (ofOctets 10 0 0 1, 5000, 5001, 200)]"
  have "flow_stats (of_flow (ofOctets 10 0 0 1, 5000, 5001) ?ps) = \<lparr>fs_pkts = 2, fs_bytes = 388\<rparr>" by code_simp
  then have flow: "(\<lambda>(a, sp, dp, n). (a, sp, dp, flow_stats (of_flow (a, sp, dp) ?ps))) ` set ?ps =
      {(ofOctets 10 0 0 1, 5000, 5001, \<lparr>fs_pkts = 2, fs_bytes = 388\<rparr>)}" by simp
  have "?ps \<noteq> []" by simp
  from rx_table_aligned [OF this, of sampleDisplay sampleConfigMclst 1000000000 False] show ?thesis
    unfolding flow by blast
qed

end
