(* ===== verification/MclstReceiver.thy ===== *)
theory MclstReceiver
  imports Syscalls MclstOutput
begin

text \<open>
  The receivers of \<open>mclst\<close>, \<open>apps/mclst/ReceiverBase.hpp\<close> with \<open>Receiver.hpp\<close>, \<open>IPRawReceiver.hpp\<close>,
  \<open>Timer.hpp\<close> and \<open>MclstBase.hpp\<close>: opening and configuring the socket, joining the group, receiving a packet,
  and the loop that shows and counts the packets until it is stopped or has received enough.
\<close>

section \<open>The network\<close>

text \<open>
  What \<open>recvmsg\<close> delivers: the address and the port of the sender in the network byte order, the data, and the
  control messages, of which the receiver reads the TTL and the index of the interface.
\<close>

datatype CmsgType = IP_TTL | IP_RECVTTL | IP_PKTINFO | OtherCmsg

record Cmsg =
  cm_ip :: bool  \<comment> \<open>the level is \<open>IPPROTO_IP\<close>\<close>
  cm_type :: CmsgType
  cm_len :: nat
  cm_ttl :: u8
  cm_ifIndex :: u32

record Message =
  m_addr :: u32
  m_port :: u16
  m_data :: "u8 list"
  m_cmsgs :: "Cmsg list"

text \<open>
  The kernel with the clock, the flag that a signal sets, and the messages; \<open>n_msg\<close> is \<open>None\<close> if \<open>recvmsg\<close>
  fails.  \<open>n_memory\<close> is what the memory of a new \<open>PacketInfo\<close>, which is not initialised, holds.
\<close>

record 'd Net = Kernel +
  n_le :: bool
  n_now :: "Event list \<Rightarrow> u64"
  n_stopped :: "Event list \<Rightarrow> bool"
  n_msg :: "Event list \<Rightarrow> Message option"
  n_display :: "'d Display"
  n_memory :: PacketInfo

section \<open>The timer and the limit\<close>

record Timer =
  tm_start :: u64
  tm_timestamp :: u64
  tm_timeout :: u64

definition newTimer :: "Config \<Rightarrow> u64 \<Rightarrow> Timer" where
  "newTimer cfg now = \<lparr>tm_start = now, tm_timestamp = now, tm_timeout = ucast (c_timeoutSec cfg) * 1000000000\<rparr>"

definition tm_save :: "u64 \<Rightarrow> Timer \<Rightarrow> Timer" where
  "tm_save now t = t\<lparr>tm_timestamp := now\<rparr>"

definition tm_reset :: "Timer \<Rightarrow> Timer" where
  "tm_reset t = t\<lparr>tm_start := tm_timestamp t\<rparr>"

definition tm_expired :: "Timer \<Rightarrow> bool" where
  "tm_expired t \<longleftrightarrow> tm_timestamp t - tm_start t \<ge> tm_timeout t"

datatype Limit = UnlimitedPackets | LimitedPackets u64 u64  \<comment> \<open>the limit and the count\<close>

definition newLimit :: "Config \<Rightarrow> Limit" where
  "newLimit cfg = (if c_count cfg = 0 then UnlimitedPackets else LimitedPackets (c_count cfg) 0)"

definition reached :: "Limit \<Rightarrow> bool \<times> Limit" where
  "reached l =
     (case l of
        UnlimitedPackets \<Rightarrow> (False, UnlimitedPackets)
      | LimitedPackets limit count \<Rightarrow> (count + 1 \<ge> limit, LimitedPackets limit (count + 1)))"

section \<open>The socket\<close>

datatype Provider = UDPReceiver | IPRawReceiver

definition RawLastResortMsg :: "'k Kernel_scheme \<Rightarrow> string" where
  "RawLastResortMsg K =
     (if k_libcap K
      then ''permission to receive multicast on all UDP ports denied '' @
        ''even though the process now has the effective CAP_NET_RAW; '' @ ''as a last resort try running under sudo''
      else ''permission to receive multicast on all UDP ports denied, '' @ ''try running under sudo'')"

definition openUDPSocket :: "'k Kernel_scheme \<Rightarrow> (string, int) prog" where
  "openUDPSocket K = syscall K (Socket UDPSocket) ''unable to create socket: ''"

definition openRawSocket :: "'k Kernel_scheme \<Rightarrow> string \<Rightarrow> (string, int) prog" where
  "openRawSocket K progname =
     withCaps K progname [''CAP_NET_RAW''] (\<lambda>h.
       let h = Socket RawUDPSocket # h; s = k_ret K h in
       if s = -1 then
         (if k_errno K h = EPERM then prog_throw (RawLastResortMsg K) h
          else prog_throw (''unable to open raw IP socket: '' @ SysError K h) h)
       else prog_return s h)"

definition openSocket :: "'k Kernel_scheme \<Rightarrow> Provider \<Rightarrow> string \<Rightarrow> (string, int) prog" where
  "openSocket K P progname =
     (case P of UDPReceiver \<Rightarrow> openUDPSocket K | IPRawReceiver \<Rightarrow> openRawSocket K progname)"

text \<open>
  The rest of \<open>configure\<close>, with the set of descriptors to poll.  A receive buffer that cannot be set is only
  told, and the flags are tested where the result of \<open>F_SETFL\<close> is meant.
\<close>

definition setBuffer :: "'k Kernel_scheme \<Rightarrow> Config \<Rightarrow> int \<Rightarrow> (string, unit) prog" where
  "setBuffer K cfg s h =
     (let h = SetSockopt s (RcvBuf (int BufferSize)) # h in
      prog_return () (if k_ret K h = -1
        then Stderr (warningText cfg (''failed to set receive buffer size to '' @ dec_string BufferSize @ '' bytes: '' @
            SysError K h)) # h
        else h))"

definition configure :: "'k Kernel_scheme \<Rightarrow> bool \<Rightarrow> Config \<Rightarrow> int \<Rightarrow> (string, int set) prog" where
  "configure K le cfg s =
     prog_bind (syscall K (GetFlags s) ''fcntl() failed to get socket flags: '') (\<lambda>flags h.
       let flags = flags OR O_NONBLOCK; h = SetFlags s flags # h in
       if flags = -1 then prog_throw (''fcntl() failed to make socket non-blocking: '' @ SysError K h) h
       else
         prog_bind (syscall K (SetSockopt s (ReuseAddr 1)) ''cannot enable UDP port reuse: '') (\<lambda>_.
         prog_bind (setBuffer K cfg s) (\<lambda>_.
         prog_bind (syscall K (SetSockopt s (RecvTTL 1)) ''cannot enable receiving TTL: '') (\<lambda>_.
         prog_bind (syscall K (SetSockopt s (RecvPktInfo 1))
           ''cannot enable receiving the interface on which packet is received'') (\<lambda>_.
         prog_bind (syscall K (Bind s (htons le (c_dport cfg)))
           (''cannot bind socket to UDP port '' @ dec_string (unat (c_dport cfg)) @ '': '')) (\<lambda>_.
           prog_return {s}))))) h)"

definition join :: "'k Kernel_scheme \<Rightarrow> bool \<Rightarrow> Config \<Rightarrow> int \<Rightarrow> (string, int) prog" where
  "join K le cfg s =
     (if c_source cfg \<noteq> IPv4Address DefaultAddressValue then
        syscall K (SetSockopt s (AddSourceMembership (to_nl le (c_intfAddr cfg)) (to_nl le (c_group cfg))
            (to_nl le (c_source cfg))))
          (''failed to join ('' @ addr_string (c_source cfg) @ '', '' @ addr_string (c_group cfg) @ '') on '' @
            c_intf cfg @ '': '')
      else
        syscall K (SetSockopt s (AddMembership (to_nl le (c_intfAddr cfg)) (to_nl le (c_group cfg))))
          (''failed to join (*, '' @ addr_string (c_group cfg) @ '') on '' @ c_intf cfg @ '': ''))"

section \<open>Receiving a packet\<close>

definition applyCmsg :: "Cmsg \<Rightarrow> PacketInfo \<Rightarrow> PacketInfo" where
  "applyCmsg c pki =
     (if cm_ip c \<and> (cm_type c = IP_TTL \<or> cm_type c = IP_RECVTTL) \<and> 0 < cm_len c then pki\<lparr>pi_ttl := uint (cm_ttl c)\<rparr>
      else if cm_ip c \<and> cm_type c = IP_PKTINFO \<and> 0 < cm_len c then pki\<lparr>pi_ifIndex := cm_ifIndex c\<rparr>
      else pki)"

type_synonym provider = "u32 \<times> u16 \<Rightarrow> PacketInfo \<Rightarrow> (string list \<times> PacketStatus \<times> PacketInfo) option"

definition processPacket :: "bool \<Rightarrow> Config \<Rightarrow> Provider \<Rightarrow> provider" where
  "processPacket le cfg P =
     (case P of UDPReceiver \<Rightarrow> processUDP le cfg | IPRawReceiver \<Rightarrow> (\<lambda>_. processRaw le (to_nl le (c_group cfg))))"

text \<open>A message as the buffer and the fields of the packet receive it: its data are cut to the buffer.\<close>

definition storeMessage :: "u64 \<Rightarrow> Message \<Rightarrow> PacketInfo \<Rightarrow> PacketInfo" where
  "storeMessage recvTime m pki =
     (let pki = pi_reset pki; data = take BufferSize (m_data m) in
      fold applyCmsg (m_cmsgs m)
        (pki\<lparr>pi_receivedData := data @ drop (length data) (pi_receivedData pki), pi_timestamp := recvTime,
           pi_receivedSize := of_nat (length data)\<rparr>))"

definition receive ::
    "('d, 'k) Net_scheme \<Rightarrow> provider \<Rightarrow> Config \<Rightarrow> int \<Rightarrow> u64 \<Rightarrow> PacketInfo \<Rightarrow>
     (string, PacketStatus \<times> PacketInfo) prog" where
  "receive N process cfg s recvTime pki h =
     (let h = Recvmsg s # h in
      case n_msg N h of
        None \<Rightarrow> prog_throw (''recvmsg() failed: '' @ SysError N h) h
      | Some m \<Rightarrow>
          (case process (m_addr m, m_port m) (storeMessage recvTime m pki) of
             None \<Rightarrow> None
           | Some (ws, st, pki) \<Rightarrow>
               prog_return (st, pki)
                 (map (\<lambda>w. Stdout (warningTsText (n_display N) cfg recvTime w)) (rev ws) @ h)))"

section \<open>The loop\<close>

record Receiver =
  rv_pktInfo :: PacketInfo
  rv_limit :: Limit
  rv_stats :: RxStats
  rv_timer :: Timer

text \<open>
  A packet that is shown, and a packet that was accepted, with whether the limit is reached.  A round of the
  loop tells whether the loop returns; it looks for the socket in the set \<open>rfds\<close> that was polled.
\<close>

definition showPacket ::
    "('d, 'k) Net_scheme \<Rightarrow> Config \<Rightarrow> Receiver \<Rightarrow> (string, Receiver) prog" where
  "showPacket N cfg r h =
     (let pki = rv_pktInfo r in
      map_option (\<lambda>t. (Ok (r\<lparr>rv_stats := rx_update (pi_source pki) (pi_sport pki) (pi_dport pki)
          (ucast (pi_payloadSize pki)) (rv_stats r)\<rparr>), Stdout t # h))
        (receivedPacketText (n_display N) cfg pki))"

definition acceptPacket ::
    "('d, 'k) Net_scheme \<Rightarrow> Config \<Rightarrow> u32 \<Rightarrow> Receiver \<Rightarrow> (string, bool \<times> Receiver) prog" where
  "acceptPacket N cfg ps r =
     (let r = r\<lparr>rv_timer := tm_reset (rv_timer r)\<rparr> in
      prog_bind (if ps AND 2 \<noteq> 0 then showPacket N cfg r else prog_return r) (\<lambda>r.
        case reached (rv_limit r) of (full, l) \<Rightarrow> prog_return (full, r\<lparr>rv_limit := l\<rparr>)))"

definition receiveRound ::
    "('d, 'k) Net_scheme \<Rightarrow> provider \<Rightarrow> Config \<Rightarrow> int \<Rightarrow> int set \<Rightarrow> Receiver \<Rightarrow> (string, bool \<times> Receiver) prog" where
  "receiveRound N process cfg s rfds r h =
     (let h = Select s (c_timeoutSec cfg) # h; rc = k_ret N h; h = Now # h;
          timer = tm_save (n_now N h) (rv_timer r); ts = tm_timestamp timer; r = r\<lparr>rv_timer := timer\<rparr> in
      if rc < 0 then
        (if k_errno N h = EINTR then prog_return (False, r) h
         else prog_throw (''select() failed: '' @ SysError N h) h)
      else if rc = 0 then
        (if tm_expired timer
         then prog_return (False, r\<lparr>rv_timer := tm_reset timer\<rparr>) (Stdout (timeoutText (n_display N) cfg ts) # h)
         else prog_return (False, r) h)
      else if s \<in> rfds then
        prog_bind (receive N process cfg s ts (rv_pktInfo r)) (\<lambda>(st, pki).
          let r = r\<lparr>rv_pktInfo := pki\<rparr>; ps = ps_code st in
          if ps AND 1 \<noteq> 0 then acceptPacket N cfg ps r else prog_return (False, r)) h
      else
        prog_return (False, r)
          (Stdout (warningTsText (n_display N) cfg ts
            (''select returned '' @ int_text rc @ '' but multicast socket has no data'')) # h))"

partial_function (option) receiving ::
    "('d, 'k) Net_scheme \<Rightarrow> provider \<Rightarrow> Config \<Rightarrow> int \<Rightarrow> int set \<Rightarrow> Receiver \<Rightarrow> Event list \<Rightarrow>
     ((string, Receiver) outcome \<times> Event list) option" where
  "receiving N process cfg s rfds r h =
     (let h = IsStopped # h in
      if n_stopped N h then Some (Ok r, h)
      else (case receiveRound N process cfg s rfds r h of
          None \<Rightarrow> None
        | Some (Inl e, h) \<Rightarrow> Some (Fail e, h)
        | Some (Inr (full, r), h) \<Rightarrow> if full then Some (Ok r, h) else receiving N process cfg s rfds r h))"

declare receiving.simps [code]

text \<open>
  \<open>receiveLoop\<close>: the timer of the statistics is made first, and ends when the loop is left, also by an
  exception.
\<close>

definition newReceiver :: "('d, 'k) Net_scheme \<Rightarrow> Config \<Rightarrow> u64 \<Rightarrow> Receiver" where
  "newReceiver N cfg now =
     \<lparr>rv_pktInfo = (n_memory N)\<lparr>pi_group := c_group cfg\<rparr>, rv_limit = newLimit cfg, rv_stats = newRxStats,
      rv_timer = newTimer cfg now\<rparr>"

definition receiveLoop ::
    "('d, 'k) Net_scheme \<Rightarrow> provider \<Rightarrow> Config \<Rightarrow> int \<Rightarrow> int set \<Rightarrow> (string, RxStats) prog" where
  "receiveLoop N process cfg s rfds h =
     (let h = Now # h; start = n_now N h; h = Now # h in
      case receiving N process cfg s rfds (newReceiver N cfg (n_now N h)) h of
        None \<Rightarrow> None
      | Some (Inl e, h) \<Rightarrow> prog_throw e (Now # h)
      | Some (Inr r, h) \<Rightarrow> let h = Now # h in prog_return (rx_timer_end start (n_now N h) (rv_stats r)) h)"

text \<open>
  \<open>run\<close>, with the destructor of the receiver, which closes its socket.
\<close>

definition showRxStats :: "('d, 'k) Net_scheme \<Rightarrow> Config \<Rightarrow> RxStats \<Rightarrow> (string, unit) prog" where
  "showRxStats N cfg rx h =
     (let h = IsStopped # h in
      map_option (\<lambda>t. (Ok (), Stdout (cstring t) # h)) (rxStatsText (n_display N) cfg rx (n_stopped N h)))"

definition destroyBase :: "'k Kernel_scheme \<Rightarrow> int \<Rightarrow> Event list \<Rightarrow> Event list option" where
  "destroyBase K s h = (if s \<noteq> -1 then closeLoop K s h else Some h)"

definition runReceiver :: "('d, 'k) Net_scheme \<Rightarrow> Provider \<Rightarrow> Config \<Rightarrow> string \<Rightarrow> (string, unit) prog" where
  "runReceiver N P cfg progname =
     prog_bind (openSocket N P progname) (\<lambda>s.
       prog_finally
         (prog_bind (configure N (n_le N) cfg s) (\<lambda>rfds.
          prog_bind (join N (n_le N) cfg s) (\<lambda>_.
          prog_bind (receiveLoop N (processPacket (n_le N) cfg P) cfg s rfds) (showRxStats N cfg))))
         (destroyBase N s))"

section \<open>Providers of receivers\<close>

text \<open>
  The concept \<open>ReceiverProvider\<close>.  A provider decides from the sender and the received bytes whether a packet is
  filtered, accepted or shown, and tells the flow of one that is shown; it keeps the buffer, and what it says of
  the payload and the message lies in the received bytes; where the name in the beacon of a packet that is shown starts
  depends on the received bytes only.
\<close>

definition showable :: "PacketInfo \<Rightarrow> bool" where
  "showable pki \<longleftrightarrow> pi_payload pki + unat (pi_payloadSize pki) \<le> unat (pi_receivedSize pki) \<and>
     (pi_mclstBeacon pki \<longrightarrow> pi_remoteMsg pki \<le> unat (pi_receivedSize pki))"

definition flow_shown :: "PacketInfo \<Rightarrow> IPv4Address \<times> u16 \<times> u16 \<times> u64" where
  "flow_shown pki = (pi_source pki, pi_sport pki, pi_dport pki, ucast (pi_payloadSize pki))"

locale receiver_provider =
  fixes process :: provider
    and verdict :: "u32 \<times> u16 \<Rightarrow> u8 list \<Rightarrow> PacketStatus"
    and flow :: "u32 \<times> u16 \<Rightarrow> u8 list \<Rightarrow> IPv4Address \<times> u16 \<times> u16 \<times> u64"
    and name_at :: "u8 list \<Rightarrow> nat option"
  assumes processes: "received_ok pki \<Longrightarrow> \<not> pi_mclstBeacon pki \<Longrightarrow>
    \<exists>ws pki'. process sender pki = Some (ws, verdict sender (received pki), pki') \<and>
      pi_receivedData pki' = pi_receivedData pki \<and> pi_receivedSize pki' = pi_receivedSize pki \<and>
      (verdict sender (received pki) = AcceptedShow \<longrightarrow>
         showable pki' \<and> flow_shown pki' = flow sender (received pki) \<and>
         (pi_mclstBeacon pki' \<longrightarrow> name_at (received pki) = Some (pi_remoteMsg pki')))"

text \<open>What the messages of a history add up to.\<close>

primrec received_msgs :: "('d, 'k) Net_scheme \<Rightarrow> Event list \<Rightarrow> Message list" where
  "received_msgs N [] = []"
| "received_msgs N (e # h) =
     received_msgs N h @ (case e of Recvmsg s \<Rightarrow> (case n_msg N (e # h) of Some m \<Rightarrow> [m] | None \<Rightarrow> []) | _ \<Rightarrow> [])"

primrec stopped_in :: "('d, 'k) Net_scheme \<Rightarrow> Event list \<Rightarrow> bool" where
  "stopped_in N [] \<longleftrightarrow> False"
| "stopped_in N (e # h) \<longleftrightarrow> e = IsStopped \<and> n_stopped N (e # h) \<or> stopped_in N h"

primrec sent_packets :: "Event list \<Rightarrow> (u8 list \<times> u32 \<times> u16) list" where
  "sent_packets [] = []"
| "sent_packets (e # h) = sent_packets h @ (case e of Sendto s pkt a p \<Rightarrow> [(pkt, a, p)] | _ \<Rightarrow> [])"

text \<open>A call of the history failed.\<close>

definition call_fails :: "('d, 'k) Net_scheme \<Rightarrow> Event list \<Rightarrow> bool" where
  "call_fails N h \<longleftrightarrow>
     (case h of
        [] \<Rightarrow> False
      | e # _ \<Rightarrow>
          (case e of
             Socket _ \<Rightarrow> k_ret N h < 0
           | GetFlags _ \<Rightarrow> k_ret N h < 0
           | SetSockopt _ _ \<Rightarrow> k_ret N h < 0
           | Bind _ _ \<Rightarrow> k_ret N h < 0
           | CapGetProc \<Rightarrow> k_ret N h = 0
           | CapSetFlag _ _ \<Rightarrow> k_ret N h < 0
           | CapSetProc _ \<Rightarrow> k_ret N h < 0
           | CapFree _ \<Rightarrow> k_ret N h < 0
           | Select _ _ \<Rightarrow> k_ret N h < 0
           | Recvmsg _ \<Rightarrow> n_msg N h = None
           | GetHostName _ \<Rightarrow> k_ret N h < 0
           | Sendto _ _ _ _ \<Rightarrow> k_ret N h < 0
           | SigAction _ \<Rightarrow> k_ret N h < 0
           | _ \<Rightarrow> False))"

primrec failing :: "('d, 'k) Net_scheme \<Rightarrow> Event list \<Rightarrow> bool" where
  "failing N [] \<longleftrightarrow> False"
| "failing N (e # h) \<longleftrightarrow> call_fails N (e # h) \<or> failing N h"

definition msg_verdict :: "(u32 \<times> u16 \<Rightarrow> u8 list \<Rightarrow> PacketStatus) \<Rightarrow> Message \<Rightarrow> PacketStatus" where
  "msg_verdict verdict m = verdict (m_addr m, m_port m) (m_data m)"

definition accepted_msgs :: "(u32 \<times> u16 \<Rightarrow> u8 list \<Rightarrow> PacketStatus) \<Rightarrow> Message list \<Rightarrow> Message list" where
  "accepted_msgs verdict ms = filter (\<lambda>m. msg_verdict verdict m \<noteq> Filtered) ms"

definition shown_flows ::
    "(u32 \<times> u16 \<Rightarrow> u8 list \<Rightarrow> PacketStatus) \<Rightarrow> (u32 \<times> u16 \<Rightarrow> u8 list \<Rightarrow> IPv4Address \<times> u16 \<times> u16 \<times> u64) \<Rightarrow>
     Message list \<Rightarrow> (IPv4Address \<times> u16 \<times> u16 \<times> u64) list" where
  "shown_flows verdict flow ms =
     map (\<lambda>m. flow (m_addr m, m_port m) (m_data m)) (filter (\<lambda>m. msg_verdict verdict m = AcceptedShow) ms)"

lemma accepted_snoc:
  "accepted_msgs verdict (ms @ [m]) = accepted_msgs verdict ms @ (if msg_verdict verdict m \<noteq> Filtered then [m] else [])"
  by (simp add: accepted_msgs_def)

lemma shown_snoc:
  "shown_flows verdict flow (ms @ [m]) = shown_flows verdict flow ms @
     (if msg_verdict verdict m = AcceptedShow then [flow (m_addr m, m_port m) (m_data m)] else [])"
  by (simp add: shown_flows_def)

text \<open>
  The environment of a receiver: its buffer has its size, and datagrams are not larger than IPv4 allows.  Nothing is
  assumed of the bytes of the buffer, which no constructor initialises.
\<close>

definition network_ok :: "('d, 'k) Net_scheme \<Rightarrow> bool" where
  "network_ok N \<longleftrightarrow> length (pi_receivedData (n_memory N)) = BufferSize \<and>
     (\<forall>h m. n_msg N h = Some m \<longrightarrow> length (m_data m) \<le> 65535)"

text \<open>
  The name in a beacon is read as a C string.  It is read beyond the buffer only if the last byte of the buffer, which
  no datagram overwrites, happens not to be zero, and a packet that is shown has no zero from the name on.
\<close>

definition overread ::
    "(u32 \<times> u16 \<Rightarrow> u8 list \<Rightarrow> PacketStatus) \<Rightarrow> (u8 list \<Rightarrow> nat option) \<Rightarrow> ('d, 'k) Net_scheme \<Rightarrow> bool" where
  "overread verdict name_at N \<longleftrightarrow> last (pi_receivedData (n_memory N)) \<noteq> 0 \<and>
     (\<exists>h m k. n_msg N h = Some m \<and> msg_verdict verdict m = AcceptedShow \<and> name_at (m_data m) = Some k \<and>
        0 \<notin> set (drop k (m_data m)))"

text \<open>What holds of the outcome of a program, which has none only under a condition.\<close>

definition ends_or :: "bool \<Rightarrow> ('a \<times> Event list) option \<Rightarrow> ('a \<Rightarrow> Event list \<Rightarrow> bool) \<Rightarrow> bool" where
  "ends_or lost x Q \<longleftrightarrow> (case x of Some (r, h) \<Rightarrow> Q r h | None \<Rightarrow> lost)"

lemma ends_or_simps [simp]: "ends_or lost (Some (r, h)) Q = Q r h" "ends_or lost None Q = lost"
  by (simp_all add: ends_or_def)

lemma ends_orE:
  assumes "ends_or lost x Q"
  obtains r h where "x = Some (r, h)" "Q r h" | "x = None" lost
  using assms by (cases x) (auto simp: ends_or_def)

text \<open>The buffer of a receiver, whose last byte stays the one of the memory.\<close>

definition buffer_of :: "('d, 'k) Net_scheme \<Rightarrow> PacketInfo \<Rightarrow> bool" where
  "buffer_of N pki \<longleftrightarrow> length (pi_receivedData pki) = BufferSize \<and>
     last (pi_receivedData pki) = last (pi_receivedData (n_memory N))"

lemma applyCmsgs_same [simp]:
  "pi_receivedData (fold applyCmsg cs pki) = pi_receivedData pki"
  "pi_receivedSize (fold applyCmsg cs pki) = pi_receivedSize pki"
  "pi_mclstBeacon (fold applyCmsg cs pki) = pi_mclstBeacon pki"
  by (induction cs arbitrary: pki) (simp_all add: applyCmsg_def)

lemma storeMessage_ok:
  fixes t
  assumes "buffer_of N pki" and "length (m_data m) \<le> 65535"
  defines "p \<equiv> storeMessage t m pki"
  shows "buffer_of N p" "\<not> pi_mclstBeacon p" "received p = m_data m" "received_ok p" "unat (pi_receivedSize p) \<le> 65535"
    "take (length (m_data m)) (pi_receivedData p) = m_data m"
proof -
  have len: "length (m_data m) < 4294967296" "take BufferSize (m_data m) = m_data m"
    using assms(2) by (simp_all add: BufferSize_def)
  then have size: "unat (of_nat (length (m_data m)) :: u32) = length (m_data m)" by (intro unat_of_nat_small)
  have "drop (length (m_data m)) (pi_receivedData pki) \<noteq> []"
    using assms(1,2) by (simp add: buffer_of_def BufferSize_def)
  then show "buffer_of N p"
    using assms(1,2) len(2) by (simp add: p_def storeMessage_def Let_def buffer_of_def pi_reset_def BufferSize_def)
  show "\<not> pi_mclstBeacon p" "received p = m_data m" "received_ok p" "unat (pi_receivedSize p) \<le> 65535"
    "take (length (m_data m)) (pi_receivedData p) = m_data m"
    using size assms(2) len(2) by (simp_all add: p_def storeMessage_def Let_def pi_reset_def received_def received_ok_def)
qed

text \<open>A packet that can be shown has a text, unless the name in its beacon is not terminated in the buffer.\<close>

lemma receivedPacketText_defined:
  assumes "length (pi_receivedData pki) = BufferSize" and "showable pki" and "unat (pi_receivedSize pki) \<le> 65535"
    and "pi_mclstBeacon pki \<longrightarrow> 0 \<in> set (drop (pi_remoteMsg pki) (pi_receivedData pki))"
  shows "receivedPacketText D cfg pki \<noteq> None"
proof -
  have "beaconText D cfg pki \<noteq> None" using assms(4) by (simp add: beaconText_def remoteMsgText_def Let_def)
  moreover have "payloadText cfg pki \<noteq> None"
  proof -
    have "pi_payload pki + 0 + unat (pi_payloadSize pki) \<le> length (pi_receivedData pki)"
      using assms by (simp add: showable_def BufferSize_def)
    from bytes_at [OF this] show ?thesis by (simp add: payloadText_def)
  qed
  ultimately show ?thesis by (auto simp: receivedPacketText_def)
qed

lemma name_terminated:
  assumes "buffer_of N pki" and "showable pki" and "pi_mclstBeacon pki" and "unat (pi_receivedSize pki) \<le> 65535"
    and "take (length d) (pi_receivedData pki) = d"
    and "last (pi_receivedData (n_memory N)) = 0 \<or> 0 \<in> set (drop (pi_remoteMsg pki) d)"
  shows "0 \<in> set (drop (pi_remoteMsg pki) (pi_receivedData pki))"
  using assms(6)
proof
  assume zero: "last (pi_receivedData (n_memory N)) = 0"
  have less: "pi_remoteMsg pki < length (pi_receivedData pki)"
    using assms(1-4) by (simp add: buffer_of_def showable_def BufferSize_def)
  then have "last (drop (pi_remoteMsg pki) (pi_receivedData pki)) = 0" using assms(1) zero by (simp add: buffer_of_def last_drop)
  then show ?thesis using less by (metis drop_eq_Nil last_in_set not_le)
next
  assume "0 \<in> set (drop (pi_remoteMsg pki) d)"
  then have "0 \<in> set (drop (pi_remoteMsg pki) (take (length d) (pi_receivedData pki)))" by (simp only: assms(5))
  then show ?thesis by (simp add: drop_take) (meson in_set_takeD)
qed

section \<open>Counting packets\<close>

text \<open>
  The state of the loop after the messages \<open>ms\<close>: the statistics are those of the packets that were shown, and
  fewer packets than the limit were accepted; and the state in which it returns because of the limit.
\<close>

definition limit_at :: "Config \<Rightarrow> nat \<Rightarrow> Limit" where
  "limit_at cfg n = (if c_count cfg = 0 then UnlimitedPackets else LimitedPackets (c_count cfg) (of_nat n))"

definition counted ::
    "('d, 'k) Net_scheme \<Rightarrow> (u32 \<times> u16 \<Rightarrow> u8 list \<Rightarrow> PacketStatus) \<Rightarrow> (u32 \<times> u16 \<Rightarrow> u8 list \<Rightarrow> IPv4Address \<times> u16 \<times> u16 \<times> u64) \<Rightarrow> Config \<Rightarrow>
     Message list \<Rightarrow> Receiver \<Rightarrow> bool" where
  "counted N verdict flow cfg ms r \<longleftrightarrow>
     rv_stats r = rx_all (shown_flows verdict flow ms) newRxStats \<and>
     (let n = length (accepted_msgs verdict ms) in
      rv_limit r = limit_at cfg n \<and> (c_count cfg \<noteq> 0 \<longrightarrow> n < unat (c_count cfg))) \<and>
     buffer_of N (rv_pktInfo r)"

definition full_with ::
    "(u32 \<times> u16 \<Rightarrow> u8 list \<Rightarrow> PacketStatus) \<Rightarrow> (u32 \<times> u16 \<Rightarrow> u8 list \<Rightarrow> IPv4Address \<times> u16 \<times> u16 \<times> u64) \<Rightarrow> Config \<Rightarrow>
     Message list \<Rightarrow> RxStats \<Rightarrow> bool" where
  "full_with verdict flow cfg ms rx \<longleftrightarrow>
     rx = rx_all (shown_flows verdict flow ms) newRxStats \<and>
     c_count cfg \<noteq> 0 \<and> length (accepted_msgs verdict ms) = unat (c_count cfg) \<and>
     ms \<noteq> [] \<and> msg_verdict verdict (last ms) \<noteq> Filtered"

lemma count_reached:
  fixes c :: u64
  assumes "n < unat c"
  shows "c \<le> of_nat n + 1 \<longleftrightarrow> Suc n = unat c"
proof -
  have "unat c < 18446744073709551616" by (rule unat_u64_less)
  with assms have "Suc n < 18446744073709551616" by linarith
  then have "unat (of_nat (Suc n) :: u64) = Suc n" by (rule unat_of_nat_small)
  moreover have "of_nat n + 1 = (of_nat (Suc n) :: u64)" by simp
  ultimately show ?thesis using assms by (simp only: word_le_nat_alt) linarith
qed

lemma reached_at:
  assumes "c_count cfg \<noteq> 0 \<longrightarrow> n < unat (c_count cfg)"
  shows "reached (limit_at cfg n) = (c_count cfg \<noteq> 0 \<and> Suc n = unat (c_count cfg), limit_at cfg (Suc n))"
proof (cases "c_count cfg = 0")
  case False
  then have "c_count cfg \<le> of_nat n + 1 \<longleftrightarrow> Suc n = unat (c_count cfg)" using assms by (intro count_reached) simp
  with False show ?thesis by (simp add: reached_def limit_at_def add.commute)
qed (simp add: reached_def limit_at_def)

text \<open>Events that open and close no descriptor, and receive and send nothing.\<close>

definition quiet :: "('d, 'k) Net_scheme \<Rightarrow> Event list \<Rightarrow> Event list \<Rightarrow> bool" where
  "quiet N h h' \<longleftrightarrow> open_fds N h' = open_fds N h \<and> received_msgs N h' = received_msgs N h \<and>
     sent_packets h' = sent_packets h \<and> length h \<le> length h'"

lemma quiet_trans: "quiet N h h' \<Longrightarrow> quiet N h' h'' \<Longrightarrow> quiet N h h''"
  by (simp add: quiet_def)

lemma quiet_refl [simp]: "quiet N h h"
  by (simp add: quiet_def)

lemma quiet_warnings: "quiet N h (map (\<lambda>w. Stdout (f w)) ws @ h)"
  by (induction ws) (simp_all add: quiet_def)

text \<open>The errors of the loop.\<close>

definition poll_failed :: "string \<Rightarrow> bool" where
  "poll_failed e \<longleftrightarrow> (\<exists>t. e = ''select() failed: '' @ t \<or> e = ''recvmsg() failed: '' @ t)"

text \<open>A run is stopped by a signal after finitely many events.\<close>

definition stops :: "('d, 'k) Net_scheme \<Rightarrow> bool" where
  "stops N \<longleftrightarrow> (\<exists>n. \<forall>h. n \<le> length h \<longrightarrow> n_stopped N (IsStopped # h))"

text \<open>The statistics of a run that returned after the messages \<open>ms\<close>, and why it did.\<close>

definition counts ::
    "(u32 \<times> u16 \<Rightarrow> u8 list \<Rightarrow> PacketStatus) \<Rightarrow> (u32 \<times> u16 \<Rightarrow> u8 list \<Rightarrow> IPv4Address \<times> u16 \<times> u16 \<times> u64) \<Rightarrow> Config \<Rightarrow>
     bool \<Rightarrow> Message list \<Rightarrow> RxStats \<Rightarrow> bool" where
  "counts verdict flow cfg stopped ms rx \<longleftrightarrow>
     rx = rx_all (shown_flows verdict flow ms) newRxStats \<and>
     (if c_count cfg \<noteq> 0 \<and> length (accepted_msgs verdict ms) = unat (c_count cfg)
      then msg_verdict verdict (last ms) \<noteq> Filtered
      else stopped \<and> (c_count cfg \<noteq> 0 \<longrightarrow> length (accepted_msgs verdict ms) < unat (c_count cfg)))"

context receiver_provider
begin

lemma receive_cases:
  assumes "network_ok N" and "buffer_of N pki"
  obtains e h' where "receive N process cfg s t pki h = Some (Fail (''recvmsg() failed: '' @ e), h')"
    "quiet N h h'" "length h < length h'" "failing N h'"
  | m pki' h' where "receive N process cfg s t pki h = Some (Ok (msg_verdict verdict m, pki'), h')"
    "open_fds N h' = open_fds N h" "received_msgs N h' = received_msgs N h @ [m]" "length h < length h'"
    "buffer_of N pki'"
    "msg_verdict verdict m = AcceptedShow \<longrightarrow>
      flow_shown pki' = flow (m_addr m, m_port m) (m_data m) \<and>
      (receivedPacketText (n_display N) cfg pki' = None \<longrightarrow> overread verdict name_at N)"
proof (cases "n_msg N (Recvmsg s # h)")
  case None
  then have "receive N process cfg s t pki h = Some (Fail (''recvmsg() failed: '' @ SysError N (Recvmsg s # h)), Recvmsg s # h)"
    by (simp add: receive_def Let_def)
  then show thesis by (rule that(1)) (use None in \<open>simp_all add: quiet_def call_fails_def\<close>)
next
  case (Some m)
  let ?h = "Recvmsg s # h" and ?p = "storeMessage t m pki"
  have small: "length (m_data m) \<le> 65535" using assms(1) Some by (auto simp: network_ok_def)
  note stored = storeMessage_ok [OF assms(2) small, of t]
  obtain ws pki' where p: "process (m_addr m, m_port m) ?p = Some (ws, msg_verdict verdict m, pki')"
    "pi_receivedData pki' = pi_receivedData ?p" "pi_receivedSize pki' = pi_receivedSize ?p"
    "msg_verdict verdict m = AcceptedShow \<longrightarrow> showable pki' \<and> flow_shown pki' = flow (m_addr m, m_port m) (m_data m) \<and>
      (pi_mclstBeacon pki' \<longrightarrow> name_at (m_data m) = Some (pi_remoteMsg pki'))"
    using processes [OF stored(4,2), of "(m_addr m, m_port m)"] by (auto simp: msg_verdict_def stored(3))
  let ?h' = "map (\<lambda>w. Stdout (warningTsText (n_display N) cfg t w)) (rev ws) @ ?h"
  have got: "receive N process cfg s t pki h = Some (Ok (msg_verdict verdict m, pki'), ?h')"
    using Some p(1) by (simp add: receive_def Let_def)
  have kept: "open_fds N ?h' = open_fds N h" "received_msgs N ?h' = received_msgs N h @ [m]" "length h < length ?h'"
    using quiet_warnings [of N ?h _ "rev ws"] Some by (simp_all add: quiet_def)
  have buf: "buffer_of N pki'" using stored(1) p(2) by (simp add: buffer_of_def)
  have over: "overread verdict name_at N"
    if shown: "msg_verdict verdict m = AcceptedShow" and lost: "receivedPacketText (n_display N) cfg pki' = None"
  proof (rule ccontr)
    assume "\<not> overread verdict name_at N"
    then have zero: "last (pi_receivedData (n_memory N)) = 0 \<or> 0 \<in> set (drop (pi_remoteMsg pki') (m_data m))"
      if "pi_mclstBeacon pki'"
      using Some shown p(4) that by (auto simp: overread_def)
    have "0 \<in> set (drop (pi_remoteMsg pki') (pi_receivedData pki'))" if "pi_mclstBeacon pki'"
      using name_terminated [OF buf _ that _ _ zero [OF that]] shown p(2-4) stored(5,6) by simp
    then show False using receivedPacketText_defined [of pki' "n_display N" cfg] buf shown p(3,4) stored(5) lost
      by (simp add: buffer_of_def)
  qed
  show thesis by (rule that(2) [OF got kept buf]) (use p(4) over in blast)
qed

lemma show_ok:
  assumes "receivedPacketText (n_display N) cfg (rv_pktInfo r) \<noteq> None"
    and "flow_shown (rv_pktInfo r) = f"
  obtains t where "showPacket N cfg r h = Some (Ok (r\<lparr>rv_stats := rx_all [f] (rv_stats r)\<rparr>), Stdout t # h)"
  using assms by (auto simp: showPacket_def Let_def rx_all_def flow_shown_def)

lemma accept_cases:
  assumes st: "rv_stats r = rx_all (shown_flows verdict flow ms) newRxStats" "rv_limit r = limit_at cfg n"
    "c_count cfg \<noteq> 0 \<longrightarrow> n < unat (c_count cfg)" "n = length (accepted_msgs verdict ms)"
    and m: "msg_verdict verdict m \<noteq> Filtered" and pki: "buffer_of N (rv_pktInfo r)"
      "msg_verdict verdict m = AcceptedShow \<longrightarrow> flow_shown (rv_pktInfo r) = flow (m_addr m, m_port m) (m_data m) \<and>
        (receivedPacketText (n_display N) cfg (rv_pktInfo r) = None \<longrightarrow> lost)"
  shows "ends_or lost (acceptPacket N cfg (ps_code (msg_verdict verdict m)) r h)
    (\<lambda>res h'. \<exists>r'. res = Ok (c_count cfg \<noteq> 0 \<and> Suc n = unat (c_count cfg), r') \<and> quiet N h h' \<and>
      rv_stats r' = rx_all (shown_flows verdict flow (ms @ [m])) newRxStats \<and>
      rv_limit r' = limit_at cfg (Suc n) \<and> buffer_of N (rv_pktInfo r'))"
proof -
  let ?r = "r\<lparr>rv_timer := tm_reset (rv_timer r)\<rparr>"
  have all: "rx_all [f] (rx_all fs s) = rx_all (fs @ [f]) s" for f fs s by (simp add: rx_all_def)
  show ?thesis
  proof (cases "msg_verdict verdict m = AcceptedShow")
    case True
    then have code: "ps_code (msg_verdict verdict m) AND 2 \<noteq> 0" by (simp add: ps_code_def)
    show ?thesis
    proof (cases "receivedPacketText (n_display N) cfg (rv_pktInfo r)")
      case None
      then have "acceptPacket N cfg (ps_code (msg_verdict verdict m)) r h = None"
        using code by (simp add: acceptPacket_def showPacket_def Let_def prog_bind_def)
      then show ?thesis using pki(2) True None by simp
    next
      case (Some b)
      obtain t where t: "showPacket N cfg ?r h =
          Some (Ok (?r\<lparr>rv_stats := rx_all [flow (m_addr m, m_port m) (m_data m)] (rv_stats ?r)\<rparr>), Stdout t # h)"
        by (rule show_ok [of N cfg ?r]) (use pki(2) True Some in auto)
      show ?thesis
        using t st code pki(1) True reached_at [OF st(3)]
        by (simp add: acceptPacket_def Let_def all shown_snoc quiet_def prog_return_def prog_bind_def)
    qed
  next
    case False
    then have "msg_verdict verdict m = AcceptedNoShow" using m by (cases "msg_verdict verdict m") auto
    then have code: "ps_code (msg_verdict verdict m) AND 2 = 0" by (simp add: ps_code_def)
    show ?thesis
      using st code pki(1) False reached_at [OF st(3)]
      by (simp add: acceptPacket_def Let_def shown_snoc)
  qed
qed

text \<open>A round fails, or ends the loop with the packet that fills the limit, or goes on.\<close>

lemma round_cases:
  assumes net: "network_ok N" and st: "counted N verdict flow cfg (received_msgs N h) r"
  shows "ends_or (overread verdict name_at N) (receiveRound N process cfg s {s} r h)
    (\<lambda>res h'. open_fds N h' = open_fds N h \<and> length h < length h' \<and>
      (case res of
         Inl e \<Rightarrow> poll_failed e \<and> failing N h'
       | Inr (full, r') \<Rightarrow>
           if full then full_with verdict flow cfg (received_msgs N h') (rv_stats r')
           else counted N verdict flow cfg (received_msgs N h') r'))"
proof -
  let ?h = "Now # Select s (c_timeoutSec cfg) # h" and ?rc = "k_ret N (Select s (c_timeoutSec cfg) # h)"
  let ?t = "tm_save (n_now N ?h) (rv_timer r)"
  let ?r = "r\<lparr>rv_timer := ?t\<rparr>"
  have same: "open_fds N ?h = open_fds N h" "received_msgs N ?h = received_msgs N h" by simp_all
  consider "?rc < 0" | "?rc = 0" | "\<not> ?rc < 0" "?rc \<noteq> 0" by blast
  then show ?thesis
  proof cases
    case 1
    then show ?thesis
      using st by (cases "k_errno N ?h = EINTR") (simp_all add: receiveRound_def Let_def poll_failed_def counted_def call_fails_def)
  next
    case 2
    then show ?thesis
      using st by (cases "tm_expired ?t") (simp_all add: receiveRound_def Let_def counted_def)
  next
    case 3
    have buf: "buffer_of N (rv_pktInfo ?r)" using st by (simp add: counted_def Let_def)
    have round: "receiveRound N process cfg s {s} r h =
        prog_bind (receive N process cfg s (tm_timestamp ?t) (rv_pktInfo ?r)) (\<lambda>(st, pki).
          let r = ?r\<lparr>rv_pktInfo := pki\<rparr>; ps = ps_code st in
          if ps AND 1 \<noteq> 0 then acceptPacket N cfg ps r else prog_return (False, r)) ?h"
      using 3 by (simp add: receiveRound_def Let_def)
    show ?thesis
    proof (cases rule: receive_cases [OF net buf, of cfg s "tm_timestamp ?t" ?h])
      case (1 e h')
      then show ?thesis by (simp add: round quiet_def poll_failed_def)
    next
      case (2 m pki' h')
      let ?ms = "received_msgs N h"
      define n where "n = length (accepted_msgs verdict ?ms)"
      have parts: "rv_stats r = rx_all (shown_flows verdict flow ?ms) newRxStats" "rv_limit r = limit_at cfg n"
        "c_count cfg \<noteq> 0 \<longrightarrow> n < unat (c_count cfg)"
        using st by (simp_all add: counted_def Let_def n_def)
      show ?thesis
      proof (cases "msg_verdict verdict m = Filtered")
        case True
        then show ?thesis
          using 2 parts
          by (simp add: round ps_code_def counted_def accepted_snoc shown_snoc flip: n_def)
      next
        case False
        then have code: "ps_code (msg_verdict verdict m) AND 1 \<noteq> 0"
          by (cases "msg_verdict verdict m") (simp_all add: ps_code_def)
        let ?q = "?r\<lparr>rv_pktInfo := pki'\<rparr>"
        have acc: "ends_or (overread verdict name_at N) (acceptPacket N cfg (ps_code (msg_verdict verdict m)) ?q h')
            (\<lambda>res h''. \<exists>r'. res = Ok (c_count cfg \<noteq> 0 \<and> Suc n = unat (c_count cfg), r') \<and> quiet N h' h'' \<and>
              rv_stats r' = rx_all (shown_flows verdict flow (?ms @ [m])) newRxStats \<and>
              rv_limit r' = limit_at cfg (Suc n) \<and> buffer_of N (rv_pktInfo r'))"
          by (rule accept_cases) (use parts 2 False in \<open>auto simp: n_def\<close>)
        have step: "receiveRound N process cfg s {s} r h = acceptPacket N cfg (ps_code (msg_verdict verdict m)) ?q h'"
          using 2(1) code by (simp add: round Let_def)
        show ?thesis
          using acc
        proof (cases rule: ends_orE)
          case (1 res h'')
          then obtain r' where acc: "res = Ok (c_count cfg \<noteq> 0 \<and> Suc n = unat (c_count cfg), r')" "quiet N h' h''"
            "rv_stats r' = rx_all (shown_flows verdict flow (?ms @ [m])) newRxStats"
            "rv_limit r' = limit_at cfg (Suc n)" "buffer_of N (rv_pktInfo r')" by blast
          have n': "length (accepted_msgs verdict (?ms @ [m])) = Suc n" using False by (simp add: accepted_snoc n_def)
          have msgs: "received_msgs N h'' = ?ms @ [m]" "open_fds N h'' = open_fds N h" "length h < length h''"
            using 2 acc(2) same by (simp_all add: quiet_def)
          show ?thesis
            using msgs acc(3-5) n' parts(3) False
            by (simp add: step 1(1) acc(1) full_with_def counted_def Let_def) linarith
        qed (simp add: step)
      qed
    qed
  qed
qed

lemma receiving_ends:
  assumes net: "network_ok N" and stop: "\<forall>h. n \<le> length h \<longrightarrow> n_stopped N (IsStopped # h)"
    and st: "counted N verdict flow cfg (received_msgs N h) r"
  shows "ends_or (overread verdict name_at N) (receiving N process cfg s {s} r h)
    (\<lambda>res h'. open_fds N h' = open_fds N h \<and>
      (case res of
         Inl e \<Rightarrow> poll_failed e \<and> failing N h'
       | Inr r' \<Rightarrow> counts verdict flow cfg (stopped_in N h') (received_msgs N h') (rv_stats r')))"
  using st
proof (induction "n - length h" arbitrary: h r rule: less_induct)
  case less
  let ?h = "IsStopped # h"
  show ?case
  proof (cases "n_stopped N ?h")
    case True
    then have "receiving N process cfg s {s} r h = Some (Ok r, ?h)" by (simp add: receiving.simps)
    then show ?thesis using less.prems True by (auto simp: counts_def counted_def Let_def)
  next
    case False
    then have short: "length h < n" using stop by (metis not_le)
    have st: "counted N verdict flow cfg (received_msgs N ?h) r" using less.prems by simp
    show ?thesis
      using round_cases [OF net st, of s]
    proof (cases rule: ends_orE)
      case (1 res h')
      then have round: "open_fds N h' = open_fds N h" "length h < length h'"
        and res: "case res of Inl e \<Rightarrow> poll_failed e \<and> failing N h'
          | Inr (full, r') \<Rightarrow>
              if full then full_with verdict flow cfg (received_msgs N h') (rv_stats r')
              else counted N verdict flow cfg (received_msgs N h') r'"
        by auto
      have step: "receiving N process cfg s {s} r h =
          (case res of
             Inl e \<Rightarrow> Some (Fail e, h')
           | Inr (full, r') \<Rightarrow> if full then Some (Ok r', h') else receiving N process cfg s {s} r' h')"
        using False 1(1) by (subst receiving.simps) (simp add: Let_def split: sum.splits prod.splits)
      show ?thesis
      proof (cases res)
        case (Inl e)
        then show ?thesis using step res round(1) by simp
      next
        case (Inr fr)
        then obtain full r' where fr: "res = Inr (full, r')" by (cases fr) auto
        show ?thesis
        proof (cases full)
          case True
          then show ?thesis using step res round(1) fr by (simp add: full_with_def counts_def)
        next
          case False
          then have st': "counted N verdict flow cfg (received_msgs N h') r'" using res fr by simp
          have "n - length h' < n - length h" using short round(2) by linarith
          from less.hyps [OF this st'] show ?thesis using step fr False round(1) by simp
        qed
      qed
    next
      case 2
      then have "receiving N process cfg s {s} r h = None"
        using False by (subst receiving.simps) (simp add: Let_def)
      then show ?thesis using 2(2) by simp
    qed
  qed
qed

lemma receiveLoop_ends:
  assumes "network_ok N" and "stops N" and none: "received_msgs N h = []"
  shows "ends_or (overread verdict name_at N) (receiveLoop N process cfg s {s} h)
    (\<lambda>res h'. open_fds N h' = open_fds N h \<and>
      (case res of
         Inl e \<Rightarrow> poll_failed e \<and> failing N h'
       | Inr rx \<Rightarrow> \<exists>rx' d. rx = rx'\<lparr>durationNanos := Some d\<rparr> \<and>
           counts verdict flow cfg (stopped_in N h') (received_msgs N h') rx'))"
proof -
  obtain n where n: "\<forall>h. n \<le> length h \<longrightarrow> n_stopped N (IsStopped # h)" using assms(2) by (auto simp: stops_def)
  let ?h = "Now # Now # h"
  let ?r = "newReceiver N cfg (n_now N ?h)"
  have "counted N verdict flow cfg (received_msgs N ?h) ?r"
    using none assms(1)
    by (simp add: counted_def newReceiver_def newLimit_def limit_at_def accepted_msgs_def shown_flows_def rx_all_def
        network_ok_def buffer_of_def unat_gt_0)
  from receiving_ends [OF assms(1) n this, of s]
  show ?thesis
  proof (cases rule: ends_orE)
    case (1 res h')
    then have loop: "open_fds N h' = open_fds N h"
      "case res of Inl e \<Rightarrow> poll_failed e \<and> failing N h'
       | Inr r' \<Rightarrow> counts verdict flow cfg (stopped_in N h') (received_msgs N h') (rv_stats r')"
      by auto
    show ?thesis
    proof (cases res)
      case (Inl e)
      then show ?thesis using 1(1) loop by (simp add: receiveLoop_def Let_def)
    next
      case (Inr r')
      let ?rx = "rx_timer_end (n_now N (Now # h)) (n_now N (Now # h')) (rv_stats r')"
      have "receiveLoop N process cfg s {s} h = Some (Ok ?rx, Now # h')"
        using Inr 1(1) by (simp add: receiveLoop_def Let_def)
      moreover have "\<exists>rx' d. ?rx = rx'\<lparr>durationNanos := Some d\<rparr> \<and>
          counts verdict flow cfg (stopped_in N (Now # h')) (received_msgs N (Now # h')) rx'"
        using Inr loop(2) by (intro exI [of _ "rv_stats r'"] exI, intro conjI) (auto simp: rx_timer_end_def)
      ultimately show ?thesis using loop(1) by simp
    qed
  qed (simp add: receiveLoop_def Let_def)
qed

end

section \<open>The receivers of UDP and of raw packets\<close>

definition providerVerdict :: "Config \<Rightarrow> Provider \<Rightarrow> u32 \<times> u16 \<Rightarrow> u8 list \<Rightarrow> PacketStatus" where
  "providerVerdict cfg P sender d =
     (case P of
        UDPReceiver \<Rightarrow> AcceptedShow
      | IPRawReceiver \<Rightarrow>
          if \<not> for_group (c_group cfg) d then Filtered else if \<not> complete_datagram d then AcceptedNoShow else AcceptedShow)"

definition providerFlow :: "bool \<Rightarrow> Config \<Rightarrow> Provider \<Rightarrow> u32 \<times> u16 \<Rightarrow> u8 list \<Rightarrow> IPv4Address \<times> u16 \<times> u16 \<times> u64" where
  "providerFlow le cfg P sender d =
     (case P of
        UDPReceiver \<Rightarrow> (from_nl le (fst sender), ntohs le (snd sender), c_dport cfg, of_nat (length d))
      | IPRawReceiver \<Rightarrow>
          let h = ipHdrLen d in
          (IPv4Address (be32_at 12 d), be16_at h d, be16_at (h + 2) d, of_nat (unat (be16_at (h + 4) d) - 8)))"

text \<open>The payload of a packet that is shown, and where in the received bytes the name in its beacon starts.\<close>

definition providerPayload :: "Provider \<Rightarrow> u8 list \<Rightarrow> u8 list" where
  "providerPayload P d =
     (case P of
        UDPReceiver \<Rightarrow> d
      | IPRawReceiver \<Rightarrow> take (unat (be16_at (ipHdrLen d + 4) d) - 8) (drop (ipHdrLen d + 8) d))"

definition nameAt :: "Provider \<Rightarrow> u8 list \<Rightarrow> nat option" where
  "nameAt P d =
     (if beacon_in (providerPayload P d)
      then Some ((case P of UDPReceiver \<Rightarrow> 0 | IPRawReceiver \<Rightarrow> ipHdrLen d + 8) + 26)
      else None)"

text \<open>Processing a packet changes neither the buffer nor what was received.\<close>

lemma dissect_keeps:
  assumes "dissectMclstBeaconPayload le pki = Some (ws, pki')"
  shows "pi_receivedData pki' = pi_receivedData pki \<and> pi_receivedSize pki' = pi_receivedSize pki"
  using assms
  by (auto simp: dissectMclstBeaconPayload_def beaconOf_def Let_def split: prod.splits option.splits if_splits bind_splits)

lemma rawPayload_keeps:
  assumes "rawPayload le len pv pki = Some (ws, st, pki')"
  shows "pi_receivedData pki' = pi_receivedData pki \<and> pi_receivedSize pki' = pi_receivedSize pki"
  using assms by (auto simp: rawPayload_def Let_def split: if_splits dest!: dissect_keeps)

lemma rawDatagram_keeps:
  assumes "rawDatagram le ip udp pv pki = Some (ws, st, pki')"
  shows "pi_receivedData pki' = pi_receivedData pki \<and> pi_receivedSize pki' = pi_receivedSize pki"
  using assms by (auto simp: rawDatagram_def Let_def split: bind_splits dest!: rawPayload_keeps)

lemma processRaw_keeps:
  assumes "processRaw le g pki = Some (ws, st, pki')"
  shows "pi_receivedData pki' = pi_receivedData pki \<and> pi_receivedSize pki' = pi_receivedSize pki"
  using assms
  by (auto simp: processRaw_def Let_def split: option.splits prod.splits bool.splits if_splits bind_splits dest!: rawDatagram_keeps)

lemma processUDP_provides:
  assumes "received_ok pki" and "\<not> pi_mclstBeacon pki"
  shows "\<exists>ws pki'. processUDP le cfg sender pki = Some (ws, AcceptedShow, pki') \<and>
    pi_receivedData pki' = pi_receivedData pki \<and> pi_receivedSize pki' = pi_receivedSize pki \<and> showable pki' \<and>
    flow_shown pki' = providerFlow le cfg UDPReceiver sender (received pki) \<and> dissected (received pki) pki' \<and>
    pi_payload pki' = 0"
proof -
  let ?q = "pki\<lparr>pi_dport := c_dport cfg, pi_source := from_nl le (fst sender), pi_sport := ntohs le (snd sender),
    pi_payload := 0, pi_payloadSize := pi_receivedSize pki\<rparr>"
  have fits: "pi_payload ?q + unat (pi_payloadSize ?q) \<le> length (pi_receivedData ?q)" "\<not> pi_mclstBeacon ?q"
    "received pki = take (unat (pi_payloadSize ?q)) (drop (pi_payload ?q) (pi_receivedData ?q))"
    using assms by (simp_all add: received_ok_def received_def)
  obtain ws pki' where d: "dissectMclstBeaconPayload le ?q = Some (ws, pki')" "dissected (received pki) pki'" "same_packet ?q pki'"
    using dissect_correct [OF fits, of le] by blast
  have len: "length (received pki) = unat (pi_receivedSize pki)" using assms(1) by (simp add: received_def received_ok_def)
  then have "ucast (pi_receivedSize pki) = (of_nat (length (received pki)) :: u64)" by simp
  moreover have "showable pki'" using d(2,3) len by (auto simp: showable_def same_packet_def dissected_def beacon_in_def)
  ultimately show ?thesis
    using d by (auto simp: processUDP_def same_packet_def flow_shown_def providerFlow_def split: prod.split)
qed

lemma processRaw_provides:
  assumes "received_ok pki" and "\<not> pi_mclstBeacon pki"
  shows "\<exists>ws pki'. processRaw le (to_nl le (c_group cfg)) pki = Some (ws, providerVerdict cfg IPRawReceiver sender (received pki), pki') \<and>
    (providerVerdict cfg IPRawReceiver sender (received pki) = AcceptedShow \<longrightarrow>
       complete_datagram (received pki) \<and> shown_datagram (received pki) pki')"
  using processRaw_filtered [OF assms(1), of "c_group cfg" le] processRaw_for_group [OF assms, of "c_group cfg" le]
  by (cases "for_group (c_group cfg) (received pki)"; cases "complete_datagram (received pki)")
    (auto simp: providerVerdict_def)

lemma shown_datagram_showable:
  assumes "complete_datagram d" and "shown_datagram d pki" and "length d = unat (pi_receivedSize pki)"
  shows "showable pki" and "flow_shown pki = providerFlow le cfg IPRawReceiver sender d"
proof -
  let ?h = "ipHdrLen d" and ?len = "unat (be16_at (ipHdrLen d + 4) d)"
  have c: "20 \<le> ?h" "?h + 8 \<le> length d" "8 \<le> ?len" "?h + ?len \<le> length d"
    using assms(1) by (simp_all add: complete_datagram_def Let_def)
  have s: "pi_source pki = IPv4Address (be32_at 12 d)" "pi_sport pki = be16_at ?h d" "pi_dport pki = be16_at (?h + 2) d"
    "pi_payload pki = ?h + 8" "unat (pi_payloadSize pki) = ?len - 8" "dissected (take (?len - 8) (drop (?h + 8) d)) pki"
    using assms(2) by (simp_all add: shown_datagram_def Let_def)
  have "length (take (?len - 8) (drop (?h + 8) d)) = ?len - 8" using c by simp
  then show "showable pki" using c s(4-6) assms(3) by (auto simp: showable_def dissected_def beacon_in_def)
  have "ucast (pi_payloadSize pki) = (of_nat (?len - 8) :: u64)" by (simp flip: s(5))
  with s(1-3) show "flow_shown pki = providerFlow le cfg IPRawReceiver sender d"
    by (simp add: flow_shown_def providerFlow_def Let_def)
qed

interpretation rcv: receiver_provider "processPacket le cfg P" "providerVerdict cfg P" "providerFlow le cfg P" "nameAt P"
  for le cfg P
proof
  fix pki sender
  assume ok: "received_ok pki" and new: "\<not> pi_mclstBeacon pki"
  have len: "length (received pki) = unat (pi_receivedSize pki)" using ok by (simp add: received_def received_ok_def)
  show "\<exists>ws pki'. processPacket le cfg P sender pki = Some (ws, providerVerdict cfg P sender (received pki), pki') \<and>
      pi_receivedData pki' = pi_receivedData pki \<and> pi_receivedSize pki' = pi_receivedSize pki \<and>
      (providerVerdict cfg P sender (received pki) = AcceptedShow \<longrightarrow>
         showable pki' \<and> flow_shown pki' = providerFlow le cfg P sender (received pki) \<and>
         (pi_mclstBeacon pki' \<longrightarrow> nameAt P (received pki) = Some (pi_remoteMsg pki')))"
  proof (cases P)
    case UDPReceiver
    then show ?thesis
      using processUDP_provides [OF ok new, of le cfg sender] by (auto simp: processPacket_def providerVerdict_def nameAt_def providerPayload_def dissected_def)
  next
    case IPRawReceiver
    obtain ws pki' where p: "processRaw le (to_nl le (c_group cfg)) pki =
        Some (ws, providerVerdict cfg IPRawReceiver sender (received pki), pki')"
      "providerVerdict cfg IPRawReceiver sender (received pki) = AcceptedShow \<longrightarrow>
        complete_datagram (received pki) \<and> shown_datagram (received pki) pki'"
      using processRaw_provides [OF ok new, of le cfg sender] by blast
    have keep: "pi_receivedData pki' = pi_receivedData pki" "pi_receivedSize pki' = pi_receivedSize pki"
      using processRaw_keeps [OF p(1)] by blast+
    have "nameAt P (received pki) = Some (pi_remoteMsg pki')"
      if "shown_datagram (received pki) pki'" "pi_mclstBeacon pki'"
      using that IPRawReceiver by (auto simp: shown_datagram_def Let_def dissected_def nameAt_def providerPayload_def)
    then show ?thesis
      using IPRawReceiver p keep shown_datagram_showable [where d = "received pki" and pki = pki'] len
      by (simp add: processPacket_def)
  qed
qed

section \<open>Runs of a receiver\<close>

text \<open>A step of a run that opens, closes and receives nothing, and fails only if a call does.\<close>

definition quietly :: "('d, 'k) Net_scheme \<Rightarrow> ('e, 'a) prog \<Rightarrow> ('a \<Rightarrow> bool) \<Rightarrow> bool" where
  "quietly N m Q \<longleftrightarrow>
     (\<forall>h. \<exists>r h'. m h = Some (r, h') \<and> quiet N h h' \<and> (case r of Inl e \<Rightarrow> failing N h' | Inr a \<Rightarrow> Q a))"

lemma quietlyE:
  assumes "quietly N m Q"
  obtains e h' where "m h = Some (Fail e, h')" "quiet N h h'" "failing N h'"
  | a h' where "m h = Some (Ok a, h')" "quiet N h h'" "Q a"
proof -
  obtain r h' where "m h = Some (r, h')" "quiet N h h'" "case r of Inl e \<Rightarrow> failing N h' | Inr a \<Rightarrow> Q a"
    using assms unfolding quietly_def by blast
  then show thesis using that by (cases r) auto
qed

lemma quietly_bind:
  assumes "quietly N m Q" and "\<And>a. Q a \<Longrightarrow> quietly N (f a) R"
  shows "quietly N (prog_bind m f) R"
  unfolding quietly_def
proof
  fix h
  show "\<exists>r h'. prog_bind m f h = Some (r, h') \<and> quiet N h h' \<and> (case r of Inl e \<Rightarrow> failing N h' | Inr a \<Rightarrow> R a)"
  proof (cases rule: quietlyE [OF assms(1), of h])
    case (1 e h')
    then show ?thesis by simp
  next
    case (2 a h')
    then show ?thesis
      by (cases rule: quietlyE [OF assms(2) [OF 2(3)], of h']) (auto intro: quiet_trans)
  qed
qed

definition quiet_call :: "Event \<Rightarrow> bool" where
  "quiet_call e \<longleftrightarrow> (case e of GetFlags _ \<Rightarrow> True | SetSockopt _ _ \<Rightarrow> True | Bind _ _ \<Rightarrow> True | SigAction _ \<Rightarrow> True |
     _ \<Rightarrow> False)"

lemma quietly_syscall: "quiet_call e \<Longrightarrow> quietly N (syscall N e msg) (\<lambda>v. v \<noteq> -1)"
  by (cases e) (simp_all add: quietly_def syscall_def Let_def quiet_def call_fails_def quiet_call_def)

lemma quietly_return: "Q a \<Longrightarrow> quietly N (prog_return a) Q"
  by (simp add: quietly_def)

lemma quietly_mono: "quietly N m Q \<Longrightarrow> (\<And>a. Q a \<Longrightarrow> R a) \<Longrightarrow> quietly N m R"
  unfolding quietly_def by (fastforce split: sum.splits)

lemma quietly_setBuffer: "quietly N (setBuffer N cfg s) (\<lambda>_. True)"
  by (simp add: quietly_def setBuffer_def Let_def quiet_def)

lemma flags_negative: "flags OR O_NONBLOCK = -1 \<Longrightarrow> (flags :: int) < 0"
  using or_nonnegative_int_iff [of flags O_NONBLOCK] by (simp add: O_NONBLOCK_def)

lemma quietly_configure: "quietly N (configure N le cfg s) (\<lambda>rfds. rfds = {s})"
proof -
  let ?rest = "\<lambda>h. prog_bind (syscall N (SetSockopt s (ReuseAddr 1)) ''cannot enable UDP port reuse: '') (\<lambda>_.
         prog_bind (setBuffer N cfg s) (\<lambda>_.
         prog_bind (syscall N (SetSockopt s (RecvTTL 1)) ''cannot enable receiving TTL: '') (\<lambda>_.
         prog_bind (syscall N (SetSockopt s (RecvPktInfo 1))
           ''cannot enable receiving the interface on which packet is received'') (\<lambda>_.
         prog_bind (syscall N (Bind s (htons le (c_dport cfg)))
           (''cannot bind socket to UDP port '' @ dec_string (unat (c_dport cfg)) @ '': '')) (\<lambda>_.
           prog_return {s}))))) h"
  have rest: "quietly N ?rest (\<lambda>rfds. rfds = {s})"
    by (intro quietly_bind [OF quietly_syscall] quietly_bind [OF quietly_setBuffer] quietly_return)
      (simp_all add: quiet_call_def)
  show ?thesis
    unfolding quietly_def
  proof
    fix h
    let ?h = "GetFlags s # h" and ?P = "\<lambda>r h'. case r of Inl e \<Rightarrow> failing N h' | Inr a \<Rightarrow> a = {s}"
    let ?flags = "k_ret N ?h OR O_NONBLOCK"
    show "\<exists>r h'. configure N le cfg s h = Some (r, h') \<and> quiet N h h' \<and> ?P r h'"
    proof (cases "k_ret N ?h = -1 \<or> ?flags = -1")
      case True
      then have "call_fails N ?h" using flags_negative [of "k_ret N ?h"] by (auto simp: call_fails_def)
      with True show ?thesis
        by (cases "k_ret N ?h = -1") (simp_all add: configure_def prog_bind_def syscall_def Let_def prog_throw_def quiet_def)
    next
      case False
      then have "configure N le cfg s h = ?rest (SetFlags s ?flags # ?h)"
        by (simp add: configure_def prog_bind_def [of "syscall N (GetFlags s) msg" for msg] syscall_def [of N "GetFlags s"] Let_def)
      moreover obtain r h' where "?rest (SetFlags s ?flags # ?h) = Some (r, h')" "quiet N (SetFlags s ?flags # ?h) h'" "?P r h'"
        using rest unfolding quietly_def by blast
      moreover have "quiet N h (SetFlags s ?flags # ?h)" by (simp add: quiet_def)
      ultimately show ?thesis by (metis quiet_trans)
    qed
  qed
qed

lemma quietly_join: "quietly N (join N le cfg s) (\<lambda>_. True)"
  by (cases "c_source cfg \<noteq> IPv4Address DefaultAddressValue")
    (auto simp: join_def quiet_call_def intro!: quietly_mono [OF quietly_syscall])

text \<open>A history before a run: nothing is open, received or sent.\<close>

definition fresh :: "('d, 'k) Net_scheme \<Rightarrow> Event list \<Rightarrow> bool" where
  "fresh N h \<longleftrightarrow> open_fds N h = {} \<and> received_msgs N h = [] \<and> sent_packets h = []"

lemma fresh_Nil [simp]: "fresh N []"
  by (simp add: fresh_def)

lemma fresh_quiet: "fresh N h \<Longrightarrow> quiet N h h' \<Longrightarrow> fresh N h'"
  by (simp add: fresh_def quiet_def)

lemma quietly_installSignals: "quietly N (installSignals N sigs) (\<lambda>_. True)"
proof (induction sigs)
  case Nil
  then show ?case by (simp add: quietly_def)
next
  case (Cons sig sigs)
  then show ?case unfolding installSignals.simps by (intro quietly_bind [OF quietly_syscall]) (simp_all add: quiet_call_def)
qed

text \<open>Opening the socket.\<close>

lemma failing_more: "failing N h \<Longrightarrow> failing N (xs @ h)"
  by (induction xs) simp_all

lemma dropAllCaps_msgs [simp]:
  "received_msgs N (dropAllCaps N h) = received_msgs N h" "failing N h \<Longrightarrow> failing N (dropAllCaps N h)"
  by (simp_all add: dropAllCaps_def Let_def)

lemma destroyCapState_msgs [simp]:
  "received_msgs N (destroyCapState N h) = received_msgs N h" "failing N h \<Longrightarrow> failing N (destroyCapState N h)"
  by (simp_all add: destroyCapState_def)

lemma raiseCap_msgs:
  assumes "raiseCap N cap h = Some (r, h')"
  shows "received_msgs N h' = received_msgs N h \<and> (\<forall>e. r = Inl e \<longrightarrow> failing N h')"
  using assms by (auto simp: raiseCap_def Let_def call_fails_def split: if_splits)

lemma raiseImpl_msgs:
  assumes "raiseImpl N caps h = Some (r, h')"
  shows "received_msgs N h' = received_msgs N h \<and> (\<forall>e. r = Inl e \<longrightarrow> failing N h')"
  using assms
proof (induction caps arbitrary: h)
  case (Cons cap caps)
  then show ?case
    by (auto simp: prog_bind_def split: option.splits sum.splits dest: raiseCap_msgs)
qed auto

lemma raiseCaps_msgs:
  assumes "raiseCaps N progname caps h = Some (r, h')"
  shows "received_msgs N h' = received_msgs N h \<and> (\<forall>e. r = Inl e \<longrightarrow> failing N h')"
  using assms
  by (auto simp: raiseCaps_def split: option.splits sum.splits CapFailure.splits if_splits dest: raiseImpl_msgs)

lemma openSocket_ends:
  assumes "fresh N h0"
  shows "\<exists>r h. openSocket N P progname h0 = Some (r, h) \<and> received_msgs N h = [] \<and>
    (case r of Inl e \<Rightarrow> failing N h \<and> open_fds N h = {} | Inr s \<Rightarrow> s \<noteq> -1 \<and> open_fds N h = {s})"
proof (cases P)
  case UDPReceiver
  then show ?thesis using assms by (simp add: fresh_def openSocket_def openUDPSocket_def syscall_def Let_def call_fails_def)
next
  case IPRawReceiver
  obtain r h where raised: "raiseCaps N progname [''CAP_NET_RAW''] h0 = Some (r, h)" "open_fds N h = {}"
    using raiseCaps_cases [of N progname "[''CAP_NET_RAW'']" h0 "{}"] assms by (auto simp: fresh_def)
  have msgs: "received_msgs N h = []" "\<forall>e. r = Inl e \<longrightarrow> failing N h"
    using raiseCaps_msgs [OF raised(1)] assms by (auto simp: fresh_def)
  show ?thesis
  proof (cases r)
    case (Inl e)
    then show ?thesis using IPRawReceiver raised msgs by (simp add: openSocket_def openRawSocket_def withCaps_def)
  next
    case (Inr u)
    let ?h = "Socket RawUDPSocket # h"
    show ?thesis
    proof (cases "k_ret N ?h = -1")
      case True
      then show ?thesis
        using IPRawReceiver raised msgs Inr
        by (cases "k_errno N ?h = EPERM")
          (simp_all add: openSocket_def openRawSocket_def withCaps_def Let_def prog_finally_def call_fails_def)
    next
      case False
      then show ?thesis
        using IPRawReceiver raised msgs Inr
        by (simp add: openSocket_def openRawSocket_def withCaps_def Let_def prog_finally_def)
    qed
  qed
qed

lemma counts_mono: "counts verdict flow cfg st ms rx \<Longrightarrow> (st \<Longrightarrow> st') \<Longrightarrow> counts verdict flow cfg st' ms rx"
  by (auto simp: counts_def)

lemma rxStatsText_defined: "\<exists>t. rxStatsText D cfg ((rx_all ps newRxStats)\<lparr>durationNanos := Some d\<rparr>) stopped = Some t"
proof -
  have "rx_inv ps (rx_all ps newRxStats)" using rx_inv_all [OF rx_inv_new, of ps] by simp
  then obtain flows where "rx_forEach (rx_all ps newRxStats) = Some flows" by (rule rx_inv_rows)
  then have "rx_forEach ((rx_all ps newRxStats)\<lparr>durationNanos := Some d\<rparr>) = Some flows" by (simp add: rx_forEach_def)
  then show ?thesis by (simp add: rxStatsText_def Let_def)
qed

lemma closing_keeps [simp]:
  "received_msgs N (replicate n (Close s) @ h) = received_msgs N h"
  "failing N (replicate n (Close s) @ h) = failing N h"
  "stopped_in N (replicate n (Close s) @ h) = stopped_in N h"
  by (induction n) (simp_all add: call_fails_def)

lemma destroyBase_ends:
  assumes "closes N" and "s \<noteq> -1" and "open_fds N h = {s}"
  obtains n where "destroyBase N s h = Some (replicate n (Close s) @ h)" "open_fds N (replicate n (Close s) @ h) = {}"
proof -
  obtain n where n: "closeLoop N s h = Some (replicate (Suc n) (Close s) @ h)"
    "\<not> interrupted N (replicate (Suc n) (Close s) @ h)" "\<forall>i < n. interrupted N (replicate (Suc i) (Close s) @ h)"
    using closeLoop_ends [OF assms(1)] by blast
  then have "open_fds N (replicate (Suc n) (Close s) @ h) = {}"
    using open_fds_closed [OF n(2,3)] assms(3) by (simp del: replicate_Suc)
  then show thesis using that n(1) assms(2) by (metis destroyBase_def)
qed

text \<open>What a run shows at its end, before its socket is closed.\<close>

definition run_counts :: "('d, 'k) Net_scheme \<Rightarrow> Provider \<Rightarrow> Config \<Rightarrow> Event list \<Rightarrow> bool" where
  "run_counts N P cfg h \<longleftrightarrow>
     (\<exists>cs t h' rx d stopped. h = cs @ Stdout (cstring t) # h' \<and> (\<forall>e \<in> set cs. \<exists>s. e = Close s) \<and>
        counts (providerVerdict cfg P) (providerFlow (n_le N) cfg P) cfg (stopped_in N h) (received_msgs N h) rx \<and>
        rxStatsText (n_display N) cfg (rx\<lparr>durationNanos := Some d\<rparr>) stopped = Some t)"

lemma run_counts_closed: "run_counts N P cfg h \<Longrightarrow> run_counts N P cfg (replicate n (Close s) @ h)"
proof -
  assume "run_counts N P cfg h"
  then obtain cs t h' rx d stopped where h: "h = cs @ Stdout (cstring t) # h'" "\<forall>e \<in> set cs. \<exists>s. e = Close s"
    and counts: "counts (providerVerdict cfg P) (providerFlow (n_le N) cfg P) cfg (stopped_in N h) (received_msgs N h) rx"
      "rxStatsText (n_display N) cfg (rx\<lparr>durationNanos := Some d\<rparr>) stopped = Some t"
    unfolding run_counts_def by blast
  have "replicate n (Close s) @ h = (replicate n (Close s) @ cs) @ Stdout (cstring t) # h'" using h(1) by simp
  moreover have "\<forall>e \<in> set (replicate n (Close s) @ cs). \<exists>s. e = Close s" using h(2) by (auto simp: in_set_replicate)
  ultimately show ?thesis
    using counts unfolding run_counts_def closing_keeps by blast
qed

text \<open>Whether a receiver can come to read beyond its buffer.\<close>

definition receiver_overread :: "('d, 'k) Net_scheme \<Rightarrow> Provider \<Rightarrow> Config \<Rightarrow> bool" where
  "receiver_overread N P cfg = overread (providerVerdict cfg P) (nameAt P) N"

lemma loop_and_stats:
  assumes "network_ok N" and "stops N" and "received_msgs N h = []" and "open_fds N h = {s}"
  shows "ends_or (receiver_overread N P cfg)
    (prog_bind (receiveLoop N (processPacket (n_le N) cfg P) cfg s {s}) (showRxStats N cfg) h)
    (\<lambda>r h'. open_fds N h' = {s} \<and> (case r of Inl e \<Rightarrow> failing N h' | Inr u \<Rightarrow> run_counts N P cfg h'))"
  using rcv.receiveLoop_ends [OF assms(1-3), where le = "n_le N" and cfga = cfg and P = P and cfg = cfg and s = s]
proof (cases rule: ends_orE)
  case (1 res h')
  then have loop: "open_fds N h' = {s}"
    and res: "case res of
       Inl e \<Rightarrow> poll_failed e \<and> failing N h'
     | Inr rx \<Rightarrow> \<exists>rx' d. rx = rx'\<lparr>durationNanos := Some d\<rparr> \<and>
         counts (providerVerdict cfg P) (providerFlow (n_le N) cfg P) cfg (stopped_in N h') (received_msgs N h') rx'"
    using assms(4) by auto
  show ?thesis
  proof (cases res)
    case (Inl e)
    then show ?thesis using 1(1) loop res by simp
  next
    case (Inr rx)
    then obtain rx' d where rx: "rx = rx'\<lparr>durationNanos := Some d\<rparr>"
      and counts: "counts (providerVerdict cfg P) (providerFlow (n_le N) cfg P) cfg (stopped_in N h') (received_msgs N h') rx'"
      using res by auto
    let ?h = "IsStopped # h'"
    obtain t where t: "rxStatsText (n_display N) cfg rx (n_stopped N ?h) = Some t"
      using counts rxStatsText_defined unfolding rx counts_def by metis
    have "run_counts N P cfg (Stdout (cstring t) # ?h)"
      unfolding run_counts_def
      by (intro exI [of _ "[]"] exI [of _ t] exI [of _ ?h] exI [of _ rx'] exI [of _ d] exI [of _ "n_stopped N ?h"])
        (use t rx counts in \<open>auto elim: counts_mono\<close>)
    then show ?thesis using 1(1) loop Inr t by (simp add: showRxStats_def Let_def)
  qed
qed (simp add: prog_bind_def receiver_overread_def)

lemma run_after_open:
  assumes "network_ok N" and "stops N" and "received_msgs N h = []" and "open_fds N h = {s}"
  shows "ends_or (receiver_overread N P cfg)
    (prog_bind (configure N (n_le N) cfg s) (\<lambda>rfds.
      prog_bind (join N (n_le N) cfg s) (\<lambda>_.
      prog_bind (receiveLoop N (processPacket (n_le N) cfg P) cfg s rfds) (showRxStats N cfg))) h)
    (\<lambda>r h'. open_fds N h' = {s} \<and> (case r of Inl e \<Rightarrow> failing N h' | Inr u \<Rightarrow> run_counts N P cfg h'))"
proof (cases rule: quietlyE [OF quietly_configure [of N "n_le N" cfg s], of h])
  case (1 e h')
  then show ?thesis using assms(4) by (simp add: quiet_def)
next
  case (2 rfds h1)
  show ?thesis
  proof (cases rule: quietlyE [OF quietly_join [of N "n_le N" cfg s], of h1])
    case (1 e h')
    then show ?thesis using 2 assms(4) by (simp add: quiet_def)
  next
    case step: (2 a h2)
    have "received_msgs N h2 = []" "open_fds N h2 = {s}" using 2(2) step(2) assms(3,4) by (simp_all add: quiet_def)
    from loop_and_stats [OF assms(1,2) this, of P cfg] show ?thesis using 2 step by simp
  qed
qed

lemma runReceiver_ends:
  assumes "network_ok N" and "stops N" and "closes N" and "fresh N h0"
  shows "ends_or (receiver_overread N P cfg) (runReceiver N P cfg progname h0)
    (\<lambda>r h. open_fds N h = {} \<and> (case r of Inl e \<Rightarrow> failing N h | Inr u \<Rightarrow> run_counts N P cfg h))"
proof -
  obtain r h where opened: "openSocket N P progname h0 = Some (r, h)" "received_msgs N h = []"
    "case r of Inl e \<Rightarrow> failing N h \<and> open_fds N h = {} | Inr s \<Rightarrow> s \<noteq> -1 \<and> open_fds N h = {s}"
    using openSocket_ends [OF assms(4), of P progname] by blast
  show ?thesis
  proof (cases r)
    case (Inl e)
    then show ?thesis using opened by (simp add: runReceiver_def)
  next
    case (Inr s)
    then have s: "s \<noteq> -1" "open_fds N h = {s}" using opened(3) by auto
    show ?thesis
      using run_after_open [OF assms(1,2) opened(2) s(2), of P cfg]
    proof (cases rule: ends_orE)
      case (1 r' h')
      then have run: "open_fds N h' = {s}" "case r' of Inl e \<Rightarrow> failing N h' | Inr u \<Rightarrow> run_counts N P cfg h'" by auto
      obtain n where n: "destroyBase N s h' = Some (replicate n (Close s) @ h')" "open_fds N (replicate n (Close s) @ h') = {}"
        by (rule destroyBase_ends [OF assms(3) s(1) run(1)])
      have "runReceiver N P cfg progname h0 = Some (r', replicate n (Close s) @ h')"
        using opened(1) Inr 1(1) n(1) by (simp add: runReceiver_def prog_finally_def)
      then show ?thesis using n(2) run(2) run_counts_closed by (cases r') auto
    next
      case 2
      then show ?thesis using opened(1) Inr by (simp add: runReceiver_def prog_finally_def)
    qed
  qed
qed

text \<open>C11: A receiver that is stopped at some time ends, whatever it receives and whatever its buffer held before, and
  leaves no descriptor open, if \<open>close\<close> is not interrupted for ever.  It fails only if one of its calls fails.  Otherwise
  it prints the statistics of exactly the packets that its provider shows, and it has stopped because of a signal, or
  with the packet that fills the limit of the command line, and never accepts more.  The one exception is the read
  beyond the buffer, in which a run has no outcome: it takes a beacon that is shown and has no zero byte from the name
  it carries up to its end, and memory whose byte at the end of the buffer, which is never written, is not zero.
\<close>

theorem receiver_run:
  assumes "network_ok N" and "stops N" and "closes N" and "fresh N h0"
  shows "case runReceiver N P cfg progname h0 of
      Some (r, h) \<Rightarrow> open_fds N h = {} \<and> (case r of Inl e \<Rightarrow> failing N h | Inr u \<Rightarrow> run_counts N P cfg h)
    | None \<Rightarrow>
        last (pi_receivedData (n_memory N)) \<noteq> 0 \<and>
        (\<exists>h m k. n_msg N h = Some m \<and> msg_verdict (providerVerdict cfg P) m = AcceptedShow \<and>
           nameAt P (m_data m) = Some k \<and> 0 \<notin> set (drop k (m_data m)))"
  using runReceiver_ends [OF assms, of P cfg progname] unfolding ends_or_def receiver_overread_def overread_def .

text \<open>
  The read beyond the buffer happens: where the buffer held no zero, a UDP packet with a beacon that has none from
  the name on is accepted and has no text.
\<close>

lemma name_overread:
  assumes "buffer_of N pki" and "0 \<notin> set (pi_receivedData pki)" and "length (m_data m) \<le> 65535"
    and "beacon_in (m_data m)" and "0 \<notin> set (drop 26 (m_data m))"
  shows "\<exists>ws pki'. processPacket le cfg UDPReceiver (m_addr m, m_port m) (storeMessage t m pki) = Some (ws, AcceptedShow, pki') \<and>
    receivedPacketText D cfg pki' = None"
proof -
  note stored = storeMessage_ok [OF assms(1,3), of t]
  obtain ws pki' where p: "processUDP le cfg (m_addr m, m_port m) (storeMessage t m pki) = Some (ws, AcceptedShow, pki')"
    "pi_receivedData pki' = pi_receivedData (storeMessage t m pki)" "dissected (m_data m) pki'" "pi_payload pki' = 0"
    using processUDP_provides [OF stored(4,2), of le cfg "(m_addr m, m_port m)"] unfolding stored(3) by blast
  have beacon: "pi_mclstBeacon pki'" "pi_remoteMsg pki' = 26" using p(3,4) assms(4) by (simp_all add: dissected_def)
  have len: "26 \<le> length (m_data m)" "take BufferSize (m_data m) = m_data m"
    using assms(3,4) by (simp_all add: beacon_in_def BufferSize_def)
  have "set (drop (length (m_data m)) (pi_receivedData pki)) \<subseteq> set (pi_receivedData pki)" by (rule set_drop_subset)
  then have "0 \<notin> set (drop 26 (pi_receivedData pki'))"
    using assms(2,5) len p(2) by (auto simp: storeMessage_def Let_def pi_reset_def)
  then have "receivedPacketText D cfg pki' = None"
    using beacon by (simp add: receivedPacketText_def beaconText_def remoteMsgText_def Let_def)
  with p(1) show ?thesis by (auto simp: processPacket_def)
qed

text \<open>A host on which no call fails, and which delivers the same packet until it is stopped.\<close>

definition busyNet :: "nat Net" where
  "busyNet =
     \<lparr>k_ret = (\<lambda>h. case h of Socket k # _ \<Rightarrow> 3 | Select s t # _ \<Rightarrow> 1 | CapGetProc # _ \<Rightarrow> 7 | CapInit # _ \<Rightarrow> 8 | _ \<Rightarrow> 0),
      k_errno = (\<lambda>_. 0), k_strerror = (\<lambda>_. []), k_libcap = True, n_le = True, n_now = (\<lambda>h. of_nat (length h)),
      n_stopped = (\<lambda>h. 100 \<le> length h),
      n_msg = (\<lambda>_. Some \<lparr>m_addr = 16777226, m_port = 35091, m_data = [1, 2, 3], m_cmsgs = []\<rparr>),
      n_display = sampleDisplay, n_memory = samplePacket\<lparr>pi_receivedData := replicate BufferSize 0\<rparr>\<rparr>"

lemma busyNet_ok: "network_ok busyNet" "stops busyNet" "closes busyNet" "\<not> failing busyNet h"
proof -
  show "network_ok busyNet" by (simp add: network_ok_def busyNet_def BufferSize_def)
  show "stops busyNet" by (auto simp: stops_def busyNet_def intro!: exI [of _ 100])
  show "closes busyNet" by (auto simp: closes_def interrupted_def busyNet_def)
  have "\<not> call_fails busyNet h" for h by (auto simp: call_fails_def busyNet_def split: list.splits Event.splits)
  then show "\<not> failing busyNet h" by (induction h) simp_all
qed

lemma receiver_run_witness:
  "\<exists>u h. runReceiver busyNet UDPReceiver sampleConfigMclst ''mclst'' [] = Some (Ok u, h) \<and> open_fds busyNet h = {} \<and>
    run_counts busyNet UDPReceiver sampleConfigMclst h"
proof -
  have "last (pi_receivedData (n_memory busyNet)) = 0" by (simp add: busyNet_def BufferSize_def)
  with receiver_run [OF busyNet_ok(1-3) fresh_Nil, where P = UDPReceiver and cfg = sampleConfigMclst and progname = "''mclst''"]
  obtain r h where run: "runReceiver busyNet UDPReceiver sampleConfigMclst ''mclst'' [] = Some (r, h)" "open_fds busyNet h = {}"
    "case r of Inl e \<Rightarrow> failing busyNet h | Inr u \<Rightarrow> run_counts busyNet UDPReceiver sampleConfigMclst h"
    by (auto split: option.splits)
  show ?thesis
  proof (cases r)
    case (Inl e)
    then show ?thesis using run(3) busyNet_ok(4) by simp
  next
    case (Inr u)
    then show ?thesis using run by auto
  qed
qed

end
