(* ===== verification/MclstPrograms.thy ===== *)
theory MclstPrograms
  imports MclstReceiver
begin

text \<open>
  The program \<open>mclst\<close>: the sender of beacons, \<open>apps/mclst/Sender.hpp\<close> and \<open>Sender.cpp\<close>, and \<open>main\<close>,
  \<open>apps/mclst/Main.cpp\<close>.
\<close>

section \<open>The sender\<close>

text \<open>
  The host of the program: the network with the memory of the message after \<open>gethostname\<close>, the command line
  parser of the C library, the interfaces, and whether the outputs are terminals.
\<close>

record 'd MclstHost = "'d Net" +
  n_hostname :: string
  n_getopt :: getopt
  n_ifaddrs :: "(string, ifaddrs list) outcome"
  n_nametoindex :: "string \<Rightarrow> u32"
  n_tty :: bool
  n_version :: string

text \<open>
  \<open>init\<close>, up to the socket and from it on.  The length of the message is taken before it is terminated: \<open>None\<close>
  is a read beyond its array.
\<close>

definition MessageSize :: nat where "MessageSize = 1024"

definition initMessage :: "('d, 'k) MclstHost_scheme \<Rightarrow> (string, unit) prog" where
  "initMessage N =
     prog_bind (syscall N (GetHostName MessageSize) ''unable to get local host name: '') (\<lambda>_ h.
       if CHR 0x00 \<in> set (take MessageSize (n_hostname N)) then prog_return () h else None)"

definition initSocket :: "'k Kernel_scheme \<Rightarrow> bool \<Rightarrow> Config \<Rightarrow> int \<Rightarrow> (string, int) prog" where
  "initSocket K le cfg s =
     prog_bind (syscall K (SetSockopt s (MulticastTTL (ucast (c_ttl cfg)))) ''unable to set multicast TTL: '') (\<lambda>_.
     prog_bind (syscall K (SetSockopt s (MulticastLoop 1)) ''unable to set loopback mode on socket: '') (\<lambda>_.
       syscall K (SetSockopt s (MulticastIf (to_nl le (c_intfAddr cfg))))
         (''unable to make '' @ c_intf cfg @ '' ('' @ addr_string (c_intfAddr cfg) @ '') multicast output interface: '')))"

text \<open>A packet is sent every second until the sender is stopped or has sent enough; the value is the next number.\<close>

partial_function (option) sendLoop ::
    "('d, 'k) MclstHost_scheme \<Rightarrow> Config \<Rightarrow> int \<Rightarrow> u64 \<Rightarrow> Event list \<Rightarrow> ((string, u64) outcome \<times> Event list) option" where
  "sendLoop N cfg s sq h =
     (let h = IsStopped # h in
      if n_stopped N h then Some (Ok sq, h)
      else
        let h = Now # h;
            h = Sendto s (beaconPacket (n_le N) (n_hostname N) sq (n_now N h)) (to_nl (n_le N) (c_group cfg))
              (htons (n_le N) (c_dport cfg)) # h in
        if k_ret N h = -1 then
          Some (Fail (''failed to send packet to '' @ addr_string (c_group cfg) @ '':'' @
            dec_string (unat (c_dport cfg)) @ '': '' @ SysError N h), h)
        else
          let h = Now # h;
              h = Stdout (sentPacketText (n_display N) cfg (n_now N h) sq) # h in
          if c_count cfg \<noteq> 0 \<and> sq + 1 \<ge> c_count cfg then Some (Ok (sq + 1), h)
          else sendLoop N cfg s (sq + 1) (SleepSeconds 1 # h))"

declare sendLoop.simps [code]

text \<open>\<open>run\<close>, with the destructor of the sender; the packets it tells are one more than it sent.\<close>

definition runSender :: "('d, 'k) MclstHost_scheme \<Rightarrow> Config \<Rightarrow> (string, unit) prog" where
  "runSender N cfg =
     prog_bind (initMessage N) (\<lambda>_.
     prog_bind (syscall N (Socket UDPSocket) ''unable to create socket: '') (\<lambda>s.
       prog_finally
         (prog_bind (initSocket N (n_le N) cfg s) (\<lambda>_.
          prog_bind (sendLoop N cfg s 0) (\<lambda>sq h.
            let h = IsStopped # h in prog_return () (Stdout (txStatsText (sq + 1) (n_stopped N h)) # h))))
         (destroyBase N s)))"

section \<open>The program\<close>

text \<open>How the process ends; a \<open>CommandLineError\<close> is a \<open>std::runtime_error\<close>.\<close>

datatype mclst_end = MclstExit nat | MclstTerminated logic_error

definition mclstRun :: "('d, 'k) MclstHost_scheme \<Rightarrow> string \<Rightarrow> Config \<Rightarrow> (string, unit) prog" where
  "mclstRun N progname cfg =
     (if c_showConfig cfg then (\<lambda>h. prog_return () (Stdout (showMclstConfig cfg) # h))
      else prog_bind (installSignals N [2, 15, 1]) (\<lambda>_.
        if \<not> c_sender cfg then runReceiver N (if \<not> c_wildcard cfg then UDPReceiver else IPRawReceiver) cfg progname
        else runSender N cfg))"

definition mclstError :: "string \<Rightarrow> Event list \<Rightarrow> (mclst_end \<times> Event list) option" where
  "mclstError m h = Some (MclstExit 1, Stderr (line (''error: '' @ m)) # h)"

definition mclstMain :: "('d, 'k) MclstHost_scheme \<Rightarrow> string list \<Rightarrow> (mclst_end \<times> Event list) option" where
  "mclstMain N argv =
     (case fromArgs (n_tty N) (newTable (n_le N) (n_nametoindex N) (n_ifaddrs N)) (n_version N) (n_getopt N) argv of
        None \<Rightarrow> None
      | Some (Finished cfg) \<Rightarrow>
          (case mclstRun N (hd argv) cfg [] of
             None \<Rightarrow> None
           | Some (Inl e, h) \<Rightarrow> mclstError e h
           | Some (Inr _, h) \<Rightarrow> Some (MclstExit 0, h))
      | Some (Exits t) \<Rightarrow> Some (MclstExit 0, [Stdout t])
      | Some (ThrowsCommandLine m) \<Rightarrow> mclstError m []
      | Some (ThrowsRuntime m) \<Rightarrow> mclstError m []
      | Some (ThrowsLogic e) \<Rightarrow> Some (MclstTerminated e, []))"

section \<open>What is sent\<close>

text \<open>The packets of a sender: the beacons with the numbers from 0 on, to the group and port of the command line.\<close>

definition beacons_sent :: "('d, 'k) MclstHost_scheme \<Rightarrow> Config \<Rightarrow> (u8 list \<times> u32 \<times> u16) list \<Rightarrow> bool" where
  "beacons_sent N cfg ps \<longleftrightarrow>
     (\<forall>i < length ps. \<exists>t. ps ! i = (beaconPacket (n_le N) (n_hostname N) (of_nat i) t, to_nl (n_le N) (c_group cfg),
        htons (n_le N) (c_dport cfg)))"

lemma beacons_sent_snoc:
  assumes "beacons_sent N cfg ps"
  shows "beacons_sent N cfg (ps @ [(beaconPacket (n_le N) (n_hostname N) (of_nat (length ps)) t, to_nl (n_le N) (c_group cfg),
    htons (n_le N) (c_dport cfg))])"
  using assms by (auto simp: beacons_sent_def nth_append less_Suc_eq)

text \<open>How many packets a sender that returned has sent.\<close>

definition sent_enough :: "Config \<Rightarrow> bool \<Rightarrow> nat \<Rightarrow> bool" where
  "sent_enough cfg stopped n \<longleftrightarrow>
     (if c_count cfg \<noteq> 0 \<and> n = unat (c_count cfg) then True
      else stopped \<and> (c_count cfg \<noteq> 0 \<longrightarrow> n < unat (c_count cfg)))"

lemma sendLoop_ends:
  assumes stop: "\<forall>h. n \<le> length h \<longrightarrow> n_stopped N (IsStopped # h)"
    and st: "beacons_sent N cfg (sent_packets h)" "sq = of_nat (length (sent_packets h))"
      "c_count cfg \<noteq> 0 \<longrightarrow> length (sent_packets h) < unat (c_count cfg)"
  shows "\<exists>r h'. sendLoop N cfg s sq h = Some (r, h') \<and> open_fds N h' = open_fds N h \<and> beacons_sent N cfg (sent_packets h') \<and>
    (case r of
       Inl e \<Rightarrow> failing N h'
     | Inr sq' \<Rightarrow> sq' = of_nat (length (sent_packets h')) \<and> sent_enough cfg (stopped_in N h') (length (sent_packets h')))"
  using st
proof (induction "n - length h" arbitrary: h sq rule: less_induct)
  case less
  let ?k = "length (sent_packets h)"
  show ?case
  proof (cases "n_stopped N (IsStopped # h)")
    case True
    then have "sendLoop N cfg s sq h = Some (Ok sq, IsStopped # h)" by (simp add: sendLoop.simps)
    then show ?thesis using less.prems True by (auto simp: sent_enough_def)
  next
    case False
    then have short: "length h < n" using stop by (metis not_le)
    let ?h1 = "Now # IsStopped # h"
    let ?pkt = "beaconPacket (n_le N) (n_hostname N) sq (n_now N ?h1)"
    let ?h2 = "Sendto s ?pkt (to_nl (n_le N) (c_group cfg)) (htons (n_le N) (c_dport cfg)) # ?h1"
    let ?h4 = "Stdout (sentPacketText (n_display N) cfg (n_now N (Now # ?h2)) sq) # Now # ?h2"
    have sent: "beacons_sent N cfg (sent_packets ?h2)" "length (sent_packets ?h2) = Suc ?k"
      using beacons_sent_snoc [OF less.prems(1)] by (simp_all add: less.prems(2))
    have step: "sendLoop N cfg s sq h =
        (if k_ret N ?h2 = -1 then
           Some (Fail (''failed to send packet to '' @ addr_string (c_group cfg) @ '':'' @
             dec_string (unat (c_dport cfg)) @ '': '' @ SysError N ?h2), ?h2)
         else if c_count cfg \<noteq> 0 \<and> sq + 1 \<ge> c_count cfg then Some (Ok (sq + 1), ?h4)
         else sendLoop N cfg s (sq + 1) (SleepSeconds 1 # ?h4))"
      using False by (subst sendLoop.simps) (simp only: Let_def if_False)
    have next_sq: "sq + 1 = of_nat (Suc ?k)" by (simp add: less.prems(2))
    show ?thesis
    proof (cases "k_ret N ?h2 = -1")
      case True
      then have "failing N ?h2" by (simp add: call_fails_def)
      then show ?thesis using True step sent(1) by simp
    next
      case ok: False
      show ?thesis
      proof (cases "c_count cfg \<noteq> 0 \<and> Suc ?k = unat (c_count cfg)")
        case True
        then have "sq + 1 \<ge> c_count cfg" using less.prems(2,3) count_reached [of ?k "c_count cfg"] by simp
        then have "sendLoop N cfg s sq h = Some (Ok (sq + 1), ?h4)" using True ok by (simp only: step if_False) simp
        then show ?thesis using sent next_sq True by (simp add: sent_enough_def)
      next
        case more: False
        then have "\<not> (c_count cfg \<noteq> 0 \<and> sq + 1 \<ge> c_count cfg)"
          using less.prems(2,3) count_reached [of ?k "c_count cfg"] by auto
        then have loop: "sendLoop N cfg s sq h = sendLoop N cfg s (sq + 1) (SleepSeconds 1 # ?h4)"
          using ok by (simp only: step if_False)
        have "n - length (SleepSeconds 1 # ?h4) < n - length h" using short by simp
        moreover have "beacons_sent N cfg (sent_packets (SleepSeconds 1 # ?h4))"
          "sq + 1 = of_nat (length (sent_packets (SleepSeconds 1 # ?h4)))"
          "c_count cfg \<noteq> 0 \<longrightarrow> length (sent_packets (SleepSeconds 1 # ?h4)) < unat (c_count cfg)"
          using sent next_sq more less.prems(3) by (simp_all, linarith)
        ultimately show ?thesis using less.hyps [of "SleepSeconds 1 # ?h4" "sq + 1"] loop by simp
      qed
    qed
  qed
qed

lemma initMessage_ends:
  assumes "CHR 0x00 \<in> set (take MessageSize (n_hostname N))"
  shows "\<exists>r. initMessage N h = Some (r, GetHostName MessageSize # h) \<and> (\<forall>e. r = Inl e \<longrightarrow> failing N (GetHostName MessageSize # h))"
  using assms by (simp add: initMessage_def syscall_def prog_bind_def call_fails_def Let_def)

lemma quietly_initSocket: "quietly N (initSocket N le cfg s) (\<lambda>_. True)"
  unfolding initSocket_def
  by (intro quietly_bind [OF quietly_syscall] quietly_mono [OF quietly_syscall]) (simp_all add: quiet_call_def)

text \<open>What a sender that returned shows at its end.\<close>

definition run_sent :: "('d, 'k) MclstHost_scheme \<Rightarrow> Config \<Rightarrow> Event list \<Rightarrow> bool" where
  "run_sent N cfg h \<longleftrightarrow>
     (\<exists>cs h' stopped. h = cs @ Stdout (txStatsText (of_nat (length (sent_packets h)) + 1) stopped) # h' \<and>
        (\<forall>e \<in> set cs. \<exists>s. e = Close s) \<and> sent_enough cfg (stopped_in N h) (length (sent_packets h)))"

lemma closing_sends [simp]: "sent_packets (replicate n (Close s) @ h) = sent_packets h"
  by (induction n) simp_all

lemma run_sent_closed: "run_sent N cfg h \<Longrightarrow> run_sent N cfg (replicate n (Close s) @ h)"
proof -
  assume "run_sent N cfg h"
  then obtain cs h' stopped where h: "h = cs @ Stdout (txStatsText (of_nat (length (sent_packets h)) + 1) stopped) # h'"
    "\<forall>e \<in> set cs. \<exists>s. e = Close s" "sent_enough cfg (stopped_in N h) (length (sent_packets h))"
    unfolding run_sent_def by blast
  have "replicate n (Close s) @ h =
      (replicate n (Close s) @ cs) @ Stdout (txStatsText (of_nat (length (sent_packets h)) + 1) stopped) # h'"
    using h(1) by simp
  moreover have "\<forall>e \<in> set (replicate n (Close s) @ cs). \<exists>s. e = Close s" using h(2) by (auto simp: in_set_replicate)
  ultimately show ?thesis using h(3) unfolding run_sent_def closing_keeps closing_sends by blast
qed

lemma sending_ends:
  assumes "stops N" and "sent_packets h = []" and "open_fds N h = {s}"
  shows "\<exists>r h'. prog_bind (initSocket N (n_le N) cfg s) (\<lambda>_.
      prog_bind (sendLoop N cfg s 0) (\<lambda>sq h.
        let h = IsStopped # h in prog_return () (Stdout (txStatsText (sq + 1) (n_stopped N h)) # h))) h = Some (r, h') \<and>
    open_fds N h' = {s} \<and> beacons_sent N cfg (sent_packets h') \<and>
    (case r of Inl e \<Rightarrow> failing N h' | Inr u \<Rightarrow> run_sent N cfg h')"
proof (cases rule: quietlyE [OF quietly_initSocket [of N "n_le N" cfg s], of h])
  case (1 e h')
  then show ?thesis using assms(2,3) by (simp add: quiet_def beacons_sent_def)
next
  case (2 a h1)
  obtain n where n: "\<forall>h. n \<le> length h \<longrightarrow> n_stopped N (IsStopped # h)" using assms(1) by (auto simp: stops_def)
  have none: "sent_packets h1 = []" "open_fds N h1 = {s}" using 2(2) assms(2,3) by (simp_all add: quiet_def)
  then have start: "beacons_sent N cfg (sent_packets h1)" "0 = (of_nat (length (sent_packets h1)) :: u64)"
    "c_count cfg \<noteq> 0 \<longrightarrow> length (sent_packets h1) < unat (c_count cfg)"
    by (simp_all add: beacons_sent_def unat_gt_0)
  obtain r h2 where loop: "sendLoop N cfg s 0 h1 = Some (r, h2)" "open_fds N h2 = {s}" "beacons_sent N cfg (sent_packets h2)"
    "case r of
       Inl e \<Rightarrow> failing N h2
     | Inr sq' \<Rightarrow> sq' = of_nat (length (sent_packets h2)) \<and> sent_enough cfg (stopped_in N h2) (length (sent_packets h2))"
    using sendLoop_ends [OF n start, of s] none(2) by auto
  show ?thesis
  proof (cases r)
    case (Inl e)
    then show ?thesis using 2(1) loop by simp
  next
    case (Inr sq)
    let ?h = "Stdout (txStatsText (sq + 1) (n_stopped N (IsStopped # h2))) # IsStopped # h2"
    have "sent_enough cfg (stopped_in N ?h) (length (sent_packets ?h))"
      using loop(4) Inr by (auto simp: sent_enough_def)
    then have "run_sent N cfg ?h"
      unfolding run_sent_def
      by (intro exI [of _ "[]"] exI [of _ "IsStopped # h2"] exI [of _ "n_stopped N (IsStopped # h2)"])
        (use loop(4) Inr in simp)
    then show ?thesis using 2(1) loop Inr by (simp add: Let_def)
  qed
qed

lemma runSender_ends:
  assumes "CHR 0x00 \<in> set (take MessageSize (n_hostname N))" and "stops N" and "closes N" and "fresh N h0"
  shows "\<exists>r h. runSender N cfg h0 = Some (r, h) \<and> open_fds N h = {} \<and> beacons_sent N cfg (sent_packets h) \<and>
    (case r of Inl e \<Rightarrow> failing N h | Inr u \<Rightarrow> run_sent N cfg h)"
proof -
  let ?h1 = "GetHostName MessageSize # h0" and ?h2 = "Socket UDPSocket # GetHostName MessageSize # h0"
  obtain r where message: "initMessage N h0 = Some (r, ?h1)" "\<forall>e. r = Inl e \<longrightarrow> failing N ?h1"
    using initMessage_ends [OF assms(1)] by blast
  show ?thesis
  proof (cases r)
    case (Inl e)
    then show ?thesis using message assms(4) by (simp add: runSender_def beacons_sent_def fresh_def)
  next
    case ok: (Inr u)
    let ?s = "k_ret N ?h2"
    show ?thesis
    proof (cases "?s = -1")
      case True
      then show ?thesis
        using message(1) ok assms(4) by (simp add: runSender_def syscall_def Let_def beacons_sent_def call_fails_def fresh_def)
    next
      case False
      have "sent_packets ?h2 = []" "open_fds N ?h2 = {?s}" using False assms(4) by (simp_all add: fresh_def)
      from sending_ends [OF assms(2) this, of cfg] obtain r' h' where run:
        "prog_bind (initSocket N (n_le N) cfg ?s) (\<lambda>_.
          prog_bind (sendLoop N cfg ?s 0) (\<lambda>sq h.
            let h = IsStopped # h in prog_return () (Stdout (txStatsText (sq + 1) (n_stopped N h)) # h))) ?h2 = Some (r', h')"
        "open_fds N h' = {?s}" "beacons_sent N cfg (sent_packets h')"
        "case r' of Inl e \<Rightarrow> failing N h' | Inr u \<Rightarrow> run_sent N cfg h'" by blast
      obtain n where n: "destroyBase N ?s h' = Some (replicate n (Close ?s) @ h')" "open_fds N (replicate n (Close ?s) @ h') = {}"
        by (rule destroyBase_ends [OF assms(3) False run(2)])
      have "runSender N cfg h0 = Some (r', replicate n (Close ?s) @ h')"
        using message(1) ok False run(1) n(1) by (simp add: runSender_def syscall_def Let_def)
      then show ?thesis using n(2) run(3,4) run_sent_closed by (cases r') auto
    qed
  qed
qed

text \<open>C13: A sender that is stopped at some time ends and leaves no descriptor open.  It has sent the beacons with the
  numbers 0, 1, 2, ... in order, to the group and port of the command line.  It fails only if a call fails;
  otherwise it has sent as many packets as the command line asks for, or was stopped before, and the number that
  it prints is one more than the number of packets sent.
\<close>

theorem sender_run:
  assumes "CHR 0x00 \<in> set (take MessageSize (n_hostname N))" and "stops N" and "closes N" and "fresh N h0"
  shows "\<exists>r h. runSender N cfg h0 = Some (r, h) \<and> open_fds N h = {} \<and> beacons_sent N cfg (sent_packets h) \<and>
    (case r of Inl e \<Rightarrow> failing N h | Inr u \<Rightarrow> run_sent N cfg h)"
  using assms by (rule runSender_ends)

section \<open>From the sender to the receiver\<close>

lemma of_bytes_of64: "of_bytes 0 (bytes_of64 v) = v"
proof -
  have "length (bytes_of64 v) = 8" by (simp add: bytes_of64_def)
  then obtain a b c d e f g h where l: "bytes_of64 v = [a, b, c, d, e, f, g, h]" by (rule length_8E)
  have "v = w" if "bytes_of64 v = bytes_of64 w" for w
  proof (rule bit_word_eqI)
    fix n assume "n < LENGTH(64)"
    then have n: "n div 8 < 8" "n = 8 * (n div 8) + n mod 8" "n mod 8 < 8" by auto
    have "bytes_of64 v ! (7 - n div 8) = bytes_of64 w ! (7 - n div 8)" using that by simp
    then have "ucast (drop_bit (56 - 8 * (7 - n div 8)) v) = (ucast (drop_bit (56 - 8 * (7 - n div 8)) w) :: u8)"
      using n(1) by (simp only: bytes_of64_def) (subst (asm) (1 2) nth_map_upt, auto)
    moreover have "56 - 8 * (7 - n div 8) = 8 * (n div 8)" using n(1) by simp
    ultimately have "ucast (drop_bit (8 * (n div 8)) v) = (ucast (drop_bit (8 * (n div 8)) w) :: u8)" by simp
    then have "bit (ucast (drop_bit (8 * (n div 8)) v) :: u8) (n mod 8) = bit (ucast (drop_bit (8 * (n div 8)) w) :: u8) (n mod 8)"
      by simp
    then have "bit v (8 * (n div 8) + n mod 8) = bit w (8 * (n div 8) + n mod 8)" using n(3) by (simp add: bit_simps)
    then show "bit v n = bit w n" using n(2) by simp
  qed
  moreover have "bytes_of64 (of_bytes 0 (bytes_of64 v)) = bytes_of64 v" by (simp only: l bytes_of_bytes64)
  ultimately show ?thesis by metis
qed

lemma host_bytes_htobe64: "host_bytes64 le (htobe64 le v) = bytes_of64 v"
proof -
  have "length (bytes_of64 v) = 8" by (simp add: bytes_of64_def)
  then obtain a b c d e f g h where "bytes_of64 v = [a, b, c, d, e, f, g, h]" by (rule length_8E)
  then show ?thesis by (simp add: host_bytes64_def htobe64_def bytes_of_bytes64)
qed

lemma beaconPacket_bytes:
  "beaconPacket le name sq t =
     bytes_of64 MclstMagic @ bytes_of64 sq @ bytes_of64 t @ bytes_of16 (of_nat (length (cstring name))) @
     map of_char (cstring name)"
  by (simp add: beaconPacket_def beaconHdr_def Let_def host_bytes_htobe64 cstring_def)

lemma beacon_fields:
  fixes le name sq t
  defines "b \<equiv> beaconPacket le name sq t"
  assumes "length (cstring name) < MessageSize"
  shows "be64_at 0 b = MclstMagic" "be64_at 8 b = sq" "be64_at 16 b = t"
    "unat (be16_at 24 b) = length (cstring name)" "drop 26 b = map of_char (cstring name)" "beacon_in b"
proof -
  have l: "length (bytes_of64 v) = 8" for v by (simp add: bytes_of64_def)
  note at = b_def beaconPacket_bytes be64_at_def be16_at_def of_bytes_of64 l
  show at0: "be64_at 0 b = MclstMagic" "be64_at 8 b = sq" "be64_at 16 b = t" by (simp_all add: at)
  have "unat (of_nat (length (cstring name)) :: u16) = length (cstring name)"
    using assms(2) by (intro unat_of_nat_small) (simp add: MessageSize_def)
  then show len: "unat (be16_at 24 b) = length (cstring name)" by (simp add: at)
  show dr: "drop 26 b = map of_char (cstring name)" by (simp add: at)
  have "length b = 26 + length (cstring name)" by (simp add: at)
  then show "beacon_in b" using at0(1) len by (simp add: beacon_in_def)
qed

text \<open>The text of the message of a dissected beacon is the name of the host.\<close>

lemma of_char_zero: "of_char c = (0 :: u8) \<longleftrightarrow> c = CHR 0x00"
proof -
  have less: "(of_char c :: nat) < 256" by (rule nat_of_char_less_256)
  have "(of_char c :: u8) = of_nat (of_char c :: nat)" by (rule of_nat_of_char [symmetric])
  then have "of_char c = (0 :: u8) \<longleftrightarrow> unat (of_nat (of_char c :: nat) :: u8) = 0" by (simp only: unat_eq_zero)
  also have "\<dots> \<longleftrightarrow> (of_char c :: nat) = 0" using less by (simp only: unat_of_nat_small)
  also have "\<dots> \<longleftrightarrow> c = CHR 0x00"
  proof
    assume "(of_char c :: nat) = 0"
    then have "c = char_of (0 :: nat)" by (metis char_of_char)
    moreover have "char_of (0 :: nat) = CHR 0x00" by code_simp
    ultimately show "c = CHR 0x00" by simp
  qed simp
  finally show ?thesis .
qed

definition buffer_ok :: "PacketInfo \<Rightarrow> bool" where
  "buffer_ok pki \<longleftrightarrow> length (pi_receivedData pki) = BufferSize \<and> last (pi_receivedData pki) = 0"

lemma remoteMsg_of_beacon:
  assumes "buffer_ok pki" and "pi_payload pki + n \<le> 65535" and "length (cstring name) < MessageSize"
    and b: "take n (drop (pi_payload pki) (pi_receivedData pki)) = beaconPacket le name sq t"
    and d: "dissected (beaconPacket le name sq t) pki"
  shows "pi_mclstBeacon pki \<and> pi_remoteSeq pki = sq \<and> pi_remoteTimestamp pki = t \<and> remoteMsgText pki = Some (cstring name)"
proof -
  let ?b = "beaconPacket le name sq t" and ?m = "map (\<lambda>c. of_char c :: u8) (cstring name)"
  note f = beacon_fields [OF assms(3), of le sq t]
  have told: "pi_mclstBeacon pki" "pi_remoteSeq pki = sq" "pi_remoteTimestamp pki = t"
    "unat (pi_remoteMsgLen pki) = length ?m" "pi_remoteMsg pki = pi_payload pki + 26"
    using d f(1-4,6) by (simp_all add: dissected_def)
  define rest where "rest = drop (pi_payload pki + n) (pi_receivedData pki)"
  have "pi_payload pki + n < length (pi_receivedData pki)" using assms(1,2) by (simp add: buffer_ok_def BufferSize_def)
  then have "rest \<noteq> []" "last rest = 0" using assms(1) by (simp_all add: rest_def buffer_ok_def last_drop)
  then have zero: "0 \<in> set rest" by (metis last_in_set)
  have "drop (pi_payload pki) (pi_receivedData pki) = ?b @ rest"
    unfolding b [symmetric] rest_def by (metis add.commute append_take_drop_id drop_drop)
  then have "drop 26 (drop (pi_payload pki) (pi_receivedData pki)) = drop 26 ?b @ drop (26 - length ?b) rest" by simp
  moreover have "26 \<le> length ?b" using f(6) by (simp add: beacon_in_def)
  ultimately have mem: "drop (pi_remoteMsg pki) (pi_receivedData pki) = ?m @ rest"
    unfolding told(5) f(5) by (simp add: add.commute)
  have "\<forall>c \<in> set (cstring name). (of_char c :: u8) \<noteq> 0"
    unfolding cstring_def of_char_zero using set_takeWhileD by fast
  then have "takeWhile (\<lambda>b. b \<noteq> 0) (?m @ rest) = ?m @ takeWhile (\<lambda>b. b \<noteq> 0) rest"
    by (intro takeWhile_append2) auto
  moreover have "map (\<lambda>b. char_of (unat b)) ?m = cstring name"
  proof -
    have "unat (of_char c :: u8) = of_char c" for c
      using unat_of_nat_small(1) [OF nat_of_char_less_256, of c] by (simp only: of_nat_of_char)
    then show ?thesis by (simp add: comp_def)
  qed
  ultimately have "remoteMsgText pki = Some (cstring name)"
    using zero told(4) by (simp add: remoteMsgText_def mem)
  with told show ?thesis by blast
qed

lemma provider_dissects:
  assumes "received_ok pki" and "\<not> pi_mclstBeacon pki" and "providerVerdict cfg P sender (received pki) = AcceptedShow"
  obtains ws pki' n where "processPacket le cfg P sender pki = Some (ws, AcceptedShow, pki')"
    "pi_receivedData pki' = pi_receivedData pki" "dissected (providerPayload P (received pki)) pki'"
    "providerPayload P (received pki) = take n (drop (pi_payload pki') (pi_receivedData pki'))"
    "pi_payload pki' + n \<le> unat (pi_receivedSize pki)"
proof (cases P)
  case UDPReceiver
  obtain ws pki' where p: "processUDP le cfg sender pki = Some (ws, AcceptedShow, pki')" "pi_receivedData pki' = pi_receivedData pki"
    "dissected (received pki) pki'" "pi_payload pki' = 0"
    using processUDP_provides [OF assms(1,2), of le cfg sender] by blast
  show thesis
    by (rule that [of ws pki' "unat (pi_receivedSize pki)"])
      (use UDPReceiver p in \<open>simp_all add: processPacket_def providerPayload_def received_def\<close>)
next
  case IPRawReceiver
  let ?d = "received pki"
  let ?n = "unat (be16_at (ipHdrLen ?d + 4) ?d) - 8"
  have len: "length ?d = unat (pi_receivedSize pki)" using assms(1) by (simp add: received_def received_ok_def)
  obtain ws pki' where p: "processRaw le (to_nl le (c_group cfg)) pki = Some (ws, AcceptedShow, pki')"
    "complete_datagram ?d" "shown_datagram ?d pki'"
    using processRaw_provides [OF assms(1,2), of le cfg sender] assms(3) IPRawReceiver by auto
  have keep: "pi_receivedData pki' = pi_receivedData pki" using processRaw_keeps [OF p(1)] by blast
  have fits: "ipHdrLen ?d + 8 + ?n \<le> unat (pi_receivedSize pki)" using p(2) len by (simp add: complete_datagram_def Let_def)
  have told: "pi_payload pki' = ipHdrLen ?d + 8" "dissected (take ?n (drop (ipHdrLen ?d + 8) ?d)) pki'"
    using p(3) by (simp_all add: shown_datagram_def Let_def)
  have "take ?n (drop (ipHdrLen ?d + 8) (take (unat (pi_receivedSize pki)) (pi_receivedData pki))) =
      take ?n (drop (ipHdrLen ?d + 8) (pi_receivedData pki))"
    using fits by (simp add: drop_take min_def)
  then have sub: "take ?n (drop (ipHdrLen ?d + 8) ?d) = take ?n (drop (pi_payload pki') (pi_receivedData pki'))"
    by (simp only: received_def [of pki, symmetric] told(1) keep)
  show thesis
    by (rule that [of ws pki' ?n])
      (use IPRawReceiver p keep fits told sub in \<open>simp_all add: processPacket_def providerPayload_def\<close>)
qed

text \<open>C12: Whatever the byte orders of the two hosts, a beacon that is the payload of a packet that a receiver shows,
  as a UDP packet or within a raw one, is dissected to its number, its time and the name of the sending host.
\<close>

theorem beacon_roundtrip:
  assumes "received_ok pki" and "\<not> pi_mclstBeacon pki" and "buffer_ok pki" and "unat (pi_receivedSize pki) \<le> 65535"
    and "providerVerdict cfg P sender (received pki) = AcceptedShow"
    and "providerPayload P (received pki) = beaconPacket le' hostname sq t" and "length (cstring hostname) < MessageSize"
  shows "\<exists>ws pki'. processPacket le cfg P sender pki = Some (ws, AcceptedShow, pki') \<and> pi_mclstBeacon pki' \<and>
    pi_remoteSeq pki' = sq \<and> pi_remoteTimestamp pki' = t \<and> remoteMsgText pki' = Some (cstring hostname)"
proof -
  obtain ws pki' n where p: "processPacket le cfg P sender pki = Some (ws, AcceptedShow, pki')"
    "pi_receivedData pki' = pi_receivedData pki" "dissected (providerPayload P (received pki)) pki'"
    "providerPayload P (received pki) = take n (drop (pi_payload pki') (pi_receivedData pki'))"
    "pi_payload pki' + n \<le> unat (pi_receivedSize pki)"
    by (rule provider_dissects [OF assms(1,2,5)])
  have "buffer_ok pki'" using assms(3) p(2) by (simp add: buffer_ok_def)
  from remoteMsg_of_beacon [OF this le_trans [OF p(5) assms(4)] assms(7) p(4) [symmetric, unfolded assms(6)]
      p(3) [unfolded assms(6)]] p(1)
  show ?thesis by blast
qed

definition sampleBeacon :: "u8 list" where
  "sampleBeacon = beaconPacket False ''host'' 7 9"

definition beaconInfo :: PacketInfo where
  "beaconInfo = samplePacket\<lparr>pi_receivedData := sampleBeacon @ replicate (BufferSize - 30) 0, pi_receivedSize := 30\<rparr>"

lemma beacon_roundtrip_witness:
  "\<exists>ws pki'. processPacket True sampleConfigMclst UDPReceiver (0, 0) beaconInfo = Some (ws, AcceptedShow, pki') \<and>
    pi_mclstBeacon pki' \<and> pi_remoteSeq pki' = 7 \<and> pi_remoteTimestamp pki' = 9 \<and> remoteMsgText pki' = Some ''host''"
proof -
  have len: "length sampleBeacon = 30" by code_simp
  have name: "cstring ''host'' = ''host''" by (simp add: cstring_def)
  have received: "received beaconInfo = sampleBeacon" by (simp add: received_def beaconInfo_def len)
  have ok: "received_ok beaconInfo" "\<not> pi_mclstBeacon beaconInfo" "buffer_ok beaconInfo" "unat (pi_receivedSize beaconInfo) \<le> 65535"
    by (simp_all add: received_ok_def beaconInfo_def len samplePacket_def buffer_ok_def BufferSize_def)
  have "providerVerdict sampleConfigMclst UDPReceiver (0, 0) (received beaconInfo) = AcceptedShow"
    "providerPayload UDPReceiver (received beaconInfo) = beaconPacket False ''host'' 7 9" "length (cstring ''host'') < MessageSize"
    by (simp_all add: providerVerdict_def providerPayload_def received sampleBeacon_def name MessageSize_def)
  from beacon_roundtrip [OF ok this, of True] show ?thesis by (simp only: name)
qed

text \<open>The busy network, with a host that has a name.\<close>

definition busyHost :: "nat MclstHost" where
  "busyHost =
     Net.extend busyNet \<lparr>n_hostname = ''host'' @ [CHR 0x00], n_getopt = sampleGetopt,
       n_ifaddrs = Ok [\<lparr>ifa_name = ''eth0'', ifa_addr = Some (SockIn 150994954)\<rparr>],
       n_nametoindex = (\<lambda>_. 2), n_tty = True, n_version = ''1''\<rparr>"

lemma busyHost_ok:
  "network_ok busyHost" "stops busyHost" "closes busyHost" "\<not> failing busyHost h"
  "CHR 0x00 \<in> set (take MessageSize (n_hostname busyHost))"
proof -
  show "network_ok busyHost"
    by (simp add: network_ok_def busyHost_def busyNet_def Net.defs BufferSize_def)
  show "stops busyHost" by (auto simp: stops_def busyHost_def busyNet_def Net.defs intro!: exI [of _ 100])
  show "closes busyHost"
    by (auto simp: closes_def interrupted_def busyHost_def busyNet_def Net.defs)
  have "\<not> call_fails busyHost h" for h
    by (auto simp: call_fails_def busyHost_def busyNet_def Net.defs split: list.splits Event.splits)
  then show "\<not> failing busyHost h" by (induction h) simp_all
  show "CHR 0x00 \<in> set (take MessageSize (n_hostname busyHost))"
    by (simp add: busyHost_def Net.defs MessageSize_def)
qed

lemma sender_run_witness:
  "\<exists>u h. runSender busyHost (sampleConfigMclst\<lparr>c_count := 3\<rparr>) [] = Some (Ok u, h) \<and> open_fds busyHost h = {} \<and>
    beacons_sent busyHost (sampleConfigMclst\<lparr>c_count := 3\<rparr>) (sent_packets h) \<and>
    run_sent busyHost (sampleConfigMclst\<lparr>c_count := 3\<rparr>) h"
proof -
  obtain r h where run: "runSender busyHost (sampleConfigMclst\<lparr>c_count := 3\<rparr>) [] = Some (r, h)" "open_fds busyHost h = {}"
    "beacons_sent busyHost (sampleConfigMclst\<lparr>c_count := 3\<rparr>) (sent_packets h)"
    "case r of Inl e \<Rightarrow> failing busyHost h | Inr u \<Rightarrow> run_sent busyHost (sampleConfigMclst\<lparr>c_count := 3\<rparr>) h"
    using sender_run [OF busyHost_ok(5,2,3) fresh_Nil] by blast
  then show ?thesis using busyHost_ok(4) by (cases r) auto
qed

section \<open>Runs of the program\<close>

text \<open>What a run with a configuration has done when it ends with the exit code 0.\<close>

definition mclst_done :: "('d, 'k) MclstHost_scheme \<Rightarrow> Config \<Rightarrow> Event list \<Rightarrow> bool" where
  "mclst_done N cfg h \<longleftrightarrow>
     (if c_showConfig cfg then h = [Stdout (showMclstConfig cfg)]
      else if c_sender cfg then beacons_sent N cfg (sent_packets h) \<and> run_sent N cfg h
      else run_counts N (if c_wildcard cfg then IPRawReceiver else UDPReceiver) cfg h)"

text \<open>
  The two reads beyond a buffer that a run can come to: by a receiver, and by a sender whose host name fills its buffer
  and is not terminated.
\<close>

definition mclst_overread :: "('d, 'k) MclstHost_scheme \<Rightarrow> Config \<Rightarrow> bool" where
  "mclst_overread N cfg =
     (if c_sender cfg then CHR 0x00 \<notin> set (take MessageSize (n_hostname N))
      else receiver_overread N (if c_wildcard cfg then IPRawReceiver else UDPReceiver) cfg)"

lemma runSender_overread:
  assumes "CHR 0x00 \<notin> set (take MessageSize (n_hostname N))" and "fresh N h0"
  shows "ends_or True (runSender N cfg h0) (\<lambda>r h. open_fds N h = {} \<and> (\<exists>e. r = Inl e \<and> failing N h))"
  using assms
  by (cases "k_ret N (GetHostName MessageSize # h0) = -1")
    (simp_all add: runSender_def initMessage_def syscall_def Let_def prog_bind_def prog_return_def prog_throw_def fresh_def
      call_fails_def ends_or_def)

lemma mclstRun_ends:
  assumes "network_ok N" and "stops N" and "closes N"
  shows "ends_or (mclst_overread N cfg) (mclstRun N progname cfg [])
    (\<lambda>r h. open_fds N h = {} \<and> (case r of Inl e \<Rightarrow> failing N h | Inr u \<Rightarrow> mclst_done N cfg h))"
proof (cases "c_showConfig cfg")
  case True
  then show ?thesis by (simp add: mclstRun_def mclst_done_def)
next
  case run: False
  show ?thesis
  proof (cases rule: quietlyE [OF quietly_installSignals [of N "[2, 15, 1]"], of "[]"])
    case (1 e h)
    then show ?thesis using run by (simp add: mclstRun_def quiet_def)
  next
    case (2 b h)
    have new: "fresh N h" using fresh_quiet [OF fresh_Nil 2(2)] .
    show ?thesis
    proof (cases "c_sender cfg")
      case sender: True
      then have start: "mclstRun N progname cfg [] = runSender N cfg h" using run 2(1) by (simp add: mclstRun_def)
      show ?thesis
      proof (cases "CHR 0x00 \<in> set (take MessageSize (n_hostname N))")
        case True
        obtain r h' where "runSender N cfg h = Some (r, h')" "open_fds N h' = {}" "beacons_sent N cfg (sent_packets h')"
          "case r of Inl e \<Rightarrow> failing N h' | Inr u \<Rightarrow> run_sent N cfg h'"
          using runSender_ends [OF True assms(2,3) new, of cfg] by blast
        then show ?thesis using run sender unfolding start by (cases r) (simp_all add: mclst_done_def)
      next
        case False
        from runSender_overread [OF this new, of cfg] show ?thesis
          using sender False unfolding start by (cases rule: ends_orE) (auto simp: mclst_overread_def)
      qed
    next
      case False
      let ?P = "if c_wildcard cfg then IPRawReceiver else UDPReceiver"
      have start: "mclstRun N progname cfg [] = runReceiver N ?P cfg progname h"
        using run False 2(1) by (simp add: mclstRun_def)
      from runReceiver_ends [OF assms new, of ?P cfg progname] show ?thesis
        unfolding start using run False
        by (cases rule: ends_orE) (auto simp: mclst_overread_def mclst_done_def split: sum.splits)
    qed
  qed
qed

text \<open>C10: A run of the program whose command line is read, and which is stopped at some time, ends and leaves no
  descriptor open, if \<open>close\<close> is not interrupted for ever and datagrams are no larger than IPv4 allows.  Help and version,
  and errors of the command line, are shown with the exit codes 0 and 1; an exception of the interface table that is
  not caught, if an interface has no index, terminates the program.  With a configuration, the exit code is 0 if the
  program has shown the configuration, sent its beacons or counted the packets it received, and it is 1, after an error
  message, only if a call failed.  A run has no outcome only where it reads beyond a buffer: a sender if the host name is
  not terminated, and a receiver if it shows a beacon without a zero byte from the name to its end while the last byte of
  its memory, which is never written, is not zero.
\<close>

theorem mclst_ends:
  assumes "fromArgs (n_tty N) (newTable (n_le N) (n_nametoindex N) (n_ifaddrs N)) (n_version N) (n_getopt N) argv = Some res"
    and "network_ok N" and "stops N" and "closes N"
  shows "case mclstMain N argv of
      Some (e, h) \<Rightarrow>
        open_fds N h = {} \<and>
        (case res of
           Finished cfg \<Rightarrow>
             e = MclstExit 0 \<and> mclst_done N cfg h \<or>
             e = MclstExit 1 \<and> failing N h \<and> (\<exists>m h'. h = Stderr (line (''error: '' @ m)) # h')
         | Exits t \<Rightarrow> e = MclstExit 0 \<and> h = [Stdout t]
         | ThrowsCommandLine m \<Rightarrow> e = MclstExit 1 \<and> h = [Stderr (line (''error: '' @ m))]
         | ThrowsRuntime m \<Rightarrow> e = MclstExit 1 \<and> h = [Stderr (line (''error: '' @ m))]
         | ThrowsLogic x \<Rightarrow> e = MclstTerminated x)
    | None \<Rightarrow> \<exists>cfg. res = Finished cfg \<and> \<not> c_showConfig cfg \<and> mclst_overread N cfg"
proof (cases res)
  case (Finished cfg)
  show ?thesis
    using mclstRun_ends [OF assms(2-4), of cfg "hd argv"]
  proof (cases rule: ends_orE)
    case (1 r h)
    then have run: "open_fds N h = {}" "case r of Inl e \<Rightarrow> failing N h | Inr u \<Rightarrow> mclst_done N cfg h" by auto
    show ?thesis
    proof (cases r)
      case (Inl m)
      then have "mclstMain N argv = Some (MclstExit 1, Stderr (line (''error: '' @ m)) # h)"
        using assms(1) Finished 1(1) by (simp add: mclstMain_def mclstError_def)
      then show ?thesis using Finished run Inl by auto
    next
      case (Inr u)
      then have "mclstMain N argv = Some (MclstExit 0, h)" using assms(1) Finished 1(1) by (simp add: mclstMain_def)
      then show ?thesis using Finished run Inr by simp
    qed
  next
    case 2
    then have "\<not> c_showConfig cfg" by (auto simp: mclstRun_def prog_return_def)
    with 2 show ?thesis using assms(1) Finished by (simp add: mclstMain_def)
  qed
qed (use assms(1) in \<open>simp_all add: mclstMain_def mclstError_def\<close>)

lemma busyHost_args:
  "fromArgs (n_tty busyHost) (newTable (n_le busyHost) (n_nametoindex busyHost) (n_ifaddrs busyHost)) (n_version busyHost)
     (n_getopt busyHost) [''mclst''] = Some (Finished sampleConfigMclst)"
proof -
  obtain g where g: "buildParser [] mclstHeader mclstOptions = Ok g" using mclst_parser by blast
  have colors: "c_colors sampleConfigMclst \<longleftrightarrow> uses mclstOptions 7 sampleCalls = [] \<and> True"
    using names_sample(1) [of 7] by (simp add: sampleConfigMclst_def) (simp add: mclstOptions_def)
  have "newTable True (\<lambda>_. 2) (Ok [\<lparr>ifa_name = ''eth0'', ifa_addr = Some (SockIn 150994954)\<rparr>]) = Ok (Ok sampleTable)"
    by code_simp
  moreover have "fromArgs True (Ok (Ok sampleTable)) ''1'' sampleGetopt [''mclst''] = Some (Finished sampleConfigMclst)"
    by (rule fromArgs_describes [OF g, where cs = sampleCalls and e = sampleLast, OF _ _ sample_names sample_describes _ sample_config_ok colors])
      (simp_all add: sampleGetopt_def sampleLast_def)
  ultimately show ?thesis by (simp add: busyHost_def busyNet_def Net.defs)
qed

lemma mclst_ends_witness:
  "\<exists>h. mclstMain busyHost [''mclst''] = Some (MclstExit 0, h) \<and> open_fds busyHost h = {} \<and>
    mclst_done busyHost sampleConfigMclst h"
proof -
  have "last (pi_receivedData (n_memory busyHost)) = 0"
    by (simp add: busyHost_def busyNet_def Net.defs BufferSize_def)
  then have "\<not> mclst_overread busyHost sampleConfigMclst"
    by (simp add: mclst_overread_def receiver_overread_def overread_def sampleConfigMclst_def)
  then show ?thesis
    using mclst_ends [OF busyHost_args busyHost_ok(1-3)] busyHost_ok(4) by (auto split: option.splits)
qed

end
