(* ===== verification/Spec2Isabelle.thy ===== *)
theory Spec2Isabelle
  imports Prelude IPv4 NumberParsers IPv4Parsers JPModel Builders Packing InversePacking SanityCheck
    Results Optionals Storage TypeTraits Overloads Bytes Checksum Headers AppleHeaders PIMPackets
    EventQueue Scheduler Texts IntfTables Yaml ConfigLoaders LoadedConfigs
    TextBlocks GetOptLong Formats Documents Programs Client ErrorHandlers FlowStatistics MclstConfig MclstBeacon
    Syscalls Loggers PIMInterface ClientSystem MclstOutput MclstReceiver MclstPrograms
begin

text \<open>
  A verification library of the PIMC network toolkit: the client \<open>pimc\<close> of PIM sparse mode, the multicast tester
  \<open>mclst\<close> and the library \<open>lib/pimc\<close> that both are built on.  Paths are relative to the directory of the sources.

  \<^bold>\<open>The programs.\<close>  \<open>pimc\<close> (\<open>apps/pimc/Main.cpp\<close>) reads its command line, loads a YAML document into a configuration of
  the groups to join, packs the configuration into Join/Prune updates that fit packets and into the inverse updates
  that withdraw it, checks both against the configuration, opens a raw socket under raised capabilities, and sends Hellos
  and updates at their periods until a signal stops it; then it sends the inverse updates and a Hello of holdtime zero.
  \<open>mclst\<close> (\<open>apps/mclst/Main.cpp\<close>) joins a group and shows and counts what it receives, by UDP or from raw IP
  packets, or sends beacons to the group.

  \<^bold>\<open>Conventions.\<close>  A machine integer is a word of its width, a class a record or a datatype.  A \<open>Result<T, E>\<close> is an
  \<open>outcome\<close>, \<open>Ok\<close> or \<open>Fail\<close>; a thrown exception is a value of an error type.  Undefined behaviour is
  \<open>None\<close>: a store outside the packet memory, a read of a dead member of a union, an overflow of a signed integer.
  A function that may not return is \<open>None\<close> where it does not: it is a partial function over options or runs
  with fuel, and returning is a property of its own.

  \<^bold>\<open>Foundations.\<close>
    \<^item> \<open>Prelude\<close>: the types, \<open>run_while\<close>, decimal texts, and the collections \<open>size_simps\<close>, \<open>wire_simps\<close>, \<open>result_simps\<close>.
    \<^item> \<open>Results\<close>, \<open>Optionals\<close> (\<open>lib/pimc/core/Result.hpp\<close>, \<open>Optional.hpp\<close>): the members, comparisons and swaps as functions
      of values.  \<open>Storage\<close>: the same classes as a union with a flag, where members live and die and arguments are
      references that are read when they are used; it refines the values, and the locale \<open>lifetime\<close>, interpreted as
      \<open>result_life\<close> and \<open>optional_life\<close>, shows that sequences of assignments of what is outside of the object, or of itself,
      are defined.  A reference to the member that an assignment destroys is not.  \<open>TypeTraits\<close> (\<open>TypeUtils.hpp\<close>): the special members that the concepts select.  \<open>Overloads\<close>: the constructor
      and the assignment operator that an argument selects.
    \<^item> \<open>IPv4\<close>, \<open>NumberParsers\<close>, \<open>IPv4Parsers\<close>: addresses, prefixes, masks, their texts and parsers.  The parsers of numbers
      are two algorithms; the locales \<open>uint_limits\<close> and \<open>sint_limits\<close> hold what they need of their constants and
      are interpreted at the four widths, \<open>p64\<close> to \<open>p8\<close> and \<open>s64\<close> to \<open>s8\<close>.
    \<^item> \<open>Texts\<close>, \<open>TextBlocks\<close>, \<open>Formats\<close>: the texts that the programs print, down to the characters.
    \<^item> \<open>Bytes\<close>, \<open>Checksum\<close>, \<open>Headers\<close>, \<open>AppleHeaders\<close>, \<open>PIMPackets\<close> (\<open>lib/pimc/packets\<close>, \<open>apps/pimc/packets\<close>): the packet memory
      as a list of bytes on a host of either byte order, the Internet checksum, the header writers and views for Linux
      and for Apple hosts, and the PIM messages, which decoders after RFC 7761 read back.
    \<^item> \<open>Yaml\<close> (\<open>lib/pimc/yaml/Structured\<close>), \<open>ErrorHandlers\<close>: the contexts of a YAML document, their errors, and the handlers that
      show them.
    \<^item> \<open>GetOptLong\<close> (\<open>lib/pimc/unix\<close>), \<open>Programs\<close>: the declaration and the reading of command lines.
    \<^item> \<open>IntfTables\<close> (\<open>lib/pimc/net/IntfTable\<close>): the table of the interfaces.  \<open>EventQueue\<close> (\<open>lib/pimc/events\<close>): the queue of events.
    \<^item> \<open>Syscalls\<close> (\<open>lib/pimc/net/SocketUtils\<close>, \<open>lib/pimc/unix/CapState\<close>, \<open>SignalHandler\<close>, \<open>lib/pimc/core/Deferred\<close>): programs over
      events.  A call of the kernel appends an event to a trace, and its answer is a function of the trace, a
      parameter; descriptors and capabilities that are open after a trace are computed from it.

  \<^bold>\<open>The client\<close>, in the order of its data:
    \<^item> \<open>ConfigLoaders\<close>, \<open>Documents\<close>, \<open>LoadedConfigs\<close> (\<open>apps/pimc/config\<close>): the loaders; what a document that represents a
      configuration holds, and that it loads to it; what every loaded configuration satisfies.  The concept
      \<open>GroupConfigBuilder\<close> is the locale \<open>group_config_builder\<close>, interpreted as \<open>jp\<close>.
    \<^item> \<open>JPModel\<close>, \<open>Builders\<close>, \<open>Packing\<close>, \<open>InversePacking\<close> (\<open>apps/pimc/pimsm\<close>): configurations and updates; the queue of builders
      with its cursor, over the concept \<open>UpdateBuilder\<close> as the locale \<open>update_builder\<close>, interpreted for both classes as
      \<open>ub\<close> and \<open>iub\<close>; the two packers.  A packer satisfies an invariant that relates its builders to the entries placed
      so far; from it follow that the updates fit, that they carry the configuration, and when the packer returns.
    \<^item> \<open>SanityCheck\<close>: the check of the updates, whose two converters are interpretations, \<open>cvt\<close> and \<open>icvt\<close>, of the locale
      \<open>converter\<close>.  It is shown to decide whether updates represent a configuration, to accept the updates of the packer,
      and to reject those of the inverse packer where that loses the prune of an RP.
    \<^item> \<open>Scheduler\<close> (\<open>apps/pimc/scheduler\<close>): the periodic events, which share the locale \<open>periodic_event\<close> (\<open>hello\<close> and
      \<open>jpUpdate\<close>), and \<open>ipv4exec\<close>, with the readings of the clock and the answers of the socket as lists.  \<open>Client\<close>: \<open>main\<close>
      over the record \<open>World\<close> of all that the program gets from outside.
    \<^item> \<open>Loggers\<close> (\<open>apps/pimc/logging\<close>), \<open>PIMInterface\<close> (\<open>apps/pimc/net\<close>), \<open>ClientSystem\<close>: the same program down to the calls of
      the kernel, with log files that refuse a write and exceptions that unwind the stack.  It refines \<open>Client\<close> where the
      log takes every write, and its use of descriptors and capabilities is followed to the end of the process.

  \<^bold>\<open>The multicast tester\<close> (\<open>apps/mclst\<close>):
    \<^item> \<open>MclstConfig\<close>: the configuration from the command line.  \<open>MclstBeacon\<close>: beacons and the dissection of packets.
      \<open>FlowStatistics\<close>, \<open>MclstOutput\<close>: the statistics of the flows and what is printed.
    \<^item> \<open>MclstReceiver\<close>: the receivers, over the locale \<open>receiver_provider\<close> of what a class derived from \<open>ReceiverBase\<close> adds,
      interpreted as \<open>rcv\<close> for both.  \<open>MclstPrograms\<close>: the sender and \<open>main\<close>.

  \<^bold>\<open>The lemmas.\<close>  Each theory proves the invariant of its state under every operation, the behaviour of each operation on
  every branch, and its contract: equivalence with a reference (checksum, parsers, the check of updates, the filling of
  lines), round trips (texts, packets, documents, command lines), bounds (packets, memory, periods), and how errors
  leave the program.  Below, the packers and the packets are composed: what a receiver decodes is the configuration.
  \<open>Client\<close> composes the rest, from the document to what is sent, and \<open>ClientSystem\<close> to the calls of the kernel.

  \<^bold>\<open>Termination and bounds.\<close>  The packers run their loops by \<open>run_while\<close>; \<open>pack_terminates_iff\<close> tells that the
  packer returns exactly if no group has more than 180 RPT prunes, so that no fuel is chosen.  \<open>ipv4exec\<close> of
  \<open>Scheduler\<close> runs over the list of the readings of the clock.  The loops that wait for a signal, \<open>clientLoop\<close>, \<open>receiving\<close> and
  \<open>sendLoop\<close>, are partial functions: that they return is proved for every kernel that answers a look at the variable
  of the signal with true at some time.  The loops that retry an interrupted call, \<open>retryLoop\<close>, return if
  some answer is another.

  \<^bold>\<open>Assumptions on the system.\<close>  A signal stops the loops at some time (\<open>client_stops\<close>, \<open>stops\<close>); \<open>close\<close> and \<open>fclose\<close> are
  not interrupted for ever (\<open>closes\<close>, \<open>fcloses\<close>); a datagram has at most 65535 bytes and the receive buffer has its size
  (\<open>network_ok\<close>).  Nothing is assumed of the calls that give up capabilities, whose failures are recorded by
  \<open>drop_failed\<close>, nor of the bytes of the receive buffer, which nothing initialises: the properties of \<open>mclst\<close> say where a
  run reads beyond a buffer.

  \<^bold>\<open>Parameters.\<close>  Code outside of the repository is an argument of the definitions: the nodes of yaml-cpp (record \<open>YAML\<close>),
  the results of \<open>getopt_long\<close>, the interfaces that the host lists, the file system, the clock, the random generation ID, the
  answers of the kernel and of stdio, the local time and the arithmetic and texts of \<open>double\<close>, and the traits of the standard
  library.

  \<^bold>\<open>Not modelled.\<close>  The loaders of the test data (\<open>apps/pimc/tests\<close>) and the tests; \<open>bindToDevice\<close> for macOS; \<open>lib/pimc/text/Location.hpp\<close>,
  which does not compile when it is used; the specialisations of \<open>std::hash\<close>; the pointers of \<open>operator->\<close>, which point to what
  \<open>operator*\<close> reads, and exception specifications; the unused escape codes of terminals; \<open>strerror_r\<close> and the conversions of
  clocks, whose results are parameters; the template
  metaprogramming of \<open>lib/pimc/core/Meta.hpp\<close> and \<open>TupleUtils.hpp\<close>, which leaves nothing at run time; and the generic
  wrappers by the version of IP, which only forward to IPv4.
\<close>

section \<open>From the configuration to the wire\<close>

text \<open>
  The packets of a list of updates, as a receiver gets them: each is built, fits an Ethernet frame, has a
  correct header and a checksum that verifies on the host of the receiver, and reads as entries of \<open>ess\<close>.
\<close>

definition transmitted ::
    "bool \<Rightarrow> u64 \<Rightarrow> IPv4Address \<Rightarrow> IPv4Address \<Rightarrow> u16 \<Rightarrow> Update list \<Rightarrow> GroupEntry list list \<Rightarrow> bool" where
  "transmitted le base source nbr holdtime us ess \<longleftrightarrow>
     (\<exists>ps. map (\<lambda>u. IPv4PIMUpdatePacket le base u source nbr holdtime) us = map (\<lambda>p. Some (Ok p)) ps \<and>
        map (\<lambda>p. dec_update (drop 20 p)) ps = map (\<lambda>es. Some (nbr, holdtime, es)) ess \<and>
        (\<forall>p \<in> set ps. length p \<le> 1500 \<and> pim_ipv4 le source p \<and>
           (\<forall>le' addr. ipChecksumNs le' addr (drop 20 p) = 0)))"

lemma transmitted_fits:
  assumes "\<forall>u \<in> set us. us_size (updateSummary n u) \<le> JPCapacity"
  shows "transmitted le base source nbr holdtime us (map upd_groups us)"
  using assms
proof (induction us)
  case (Cons u us)
  have fits: "us_size (updateSummary 0 u) \<le> 1466"
    using Cons.prems by (simp add: us_size_sum size_simps)
  obtain p where "IPv4PIMUpdatePacket le base u source nbr holdtime = Some (Ok p)"
    "length p = 34 + us_size (updateSummary 0 u)" "pim_ipv4 le source p"
    "\<forall>le' addr. ipChecksumNs le' addr (drop 20 p) = 0"
    "dec_update (drop 20 p) = Some (nbr, holdtime, upd_groups u)"
    using update_packet_ok [OF encodable_if_fits, of n u] Cons.prems fits by fastforce
  moreover obtain ps where
    "map (\<lambda>u. IPv4PIMUpdatePacket le base u source nbr holdtime) us = map (\<lambda>p. Some (Ok p)) ps"
    "map (\<lambda>p. dec_update (drop 20 p)) ps = map (\<lambda>es. Some (nbr, holdtime, es)) (map upd_groups us)"
    "\<forall>p \<in> set ps. length p \<le> 1500 \<and> pim_ipv4 le source p \<and>
       (\<forall>le' addr. ipChecksumNs le' addr (drop 20 p) = 0)"
    using Cons by (auto simp: transmitted_def)
  ultimately show ?case
    using fits unfolding transmitted_def by (intro exI [of _ "p # ps"]) simp
qed (simp add: transmitted_def)

text \<open>C30: For every configuration of distinct groups with at most 180 RPT prunes each, the updates of the packer and
  of the inverse packer go out in packets that fit an Ethernet frame, verify and decode.  The decoded entries of each
  group carry its configuration, those of the inverse updates prune exactly its SPT sources and join nothing, and they
  prune its RP too, unless the inverse packer loses this prune: a group with SPT sources and an RP of whose entries none
  prunes an RP and the first has a single prune.\<close>

theorem configuration_on_the_wire:
  assumes "distinct (map gc_group (jp_groups cfg))" and "\<forall>gc \<in> set (jp_groups cfg). prunes_bounded gc"
  shows "\<exists>us ess vs fss. pack cfg = Some (Ok us) \<and> inversePack cfg = Some (Ok vs) \<and>
    transmitted le base source nbr holdtime us ess \<and> transmitted le base source nbr holdtime vs fss \<and>
    (\<forall>gc \<in> set (jp_groups cfg). carries (entriesFor (gc_group gc) (concat ess)) gc \<and>
       withdrawsSpt (ownEntries (gc_group gc) (concat fss)) gc \<and>
       (withdrawsRp (ownEntries (gc_group gc) (concat fss)) gc \<or> losesRp (ownEntries (gc_group gc) (concat fss)) gc))"
proof -
  obtain up es where up: "pack cfg = Some (Ok (buildUpdates up))" "packer_inv es up"
    "\<forall>gc \<in> set (jp_groups cfg). carries (entriesFor (gc_group gc) es) gc"
    using pack_ok [OF assms] by blast
  obtain ip fs where ip: "inversePack cfg = Some (Ok (inverseBuildUpdates ip))" "ipacker_inv fs ip"
    "\<forall>gc \<in> set (jp_groups cfg). withdraws (ownEntries (gc_group gc) fs) gc"
    using inversePack_ok [OF assms(1)] by blast
  have "transmitted le base source nbr holdtime (buildUpdates up) (map upd_groups (buildUpdates up))"
    using buildUpdates_ok(2) [OF up(2)] by (intro transmitted_fits) blast
  moreover have "transmitted le base source nbr holdtime (inverseBuildUpdates ip) (map upd_groups (inverseBuildUpdates ip))"
    using inverseBuildUpdates_ok(2) [OF ip(2)] by (intro transmitted_fits) blast
  ultimately show ?thesis
    using up ip buildUpdates_ok(1) [OF up(2)] inverseBuildUpdates_ok(1) [OF ip(2)]
    by (intro exI [of _ "buildUpdates up"] exI [of _ "inverseBuildUpdates ip"]
        exI [of _ "map upd_groups (buildUpdates up)"] exI [of _ "map upd_groups (inverseBuildUpdates ip)"])
      (simp add: withdraws_def)
qed

lemma configuration_on_the_wire_witness:
  "\<exists>us ess vs fss. pack sampleConfig = Some (Ok us) \<and> inversePack sampleConfig = Some (Ok vs) \<and>
    transmitted True 0 (ofOctets 10 0 0 9) (ofOctets 10 0 0 1) 210 us ess \<and>
    transmitted True 0 (ofOctets 10 0 0 9) (ofOctets 10 0 0 1) 210 vs fss \<and>
    (\<forall>gc \<in> set (jp_groups sampleConfig). carries (entriesFor (gc_group gc) (concat ess)) gc \<and>
       withdrawsSpt (ownEntries (gc_group gc) (concat fss)) gc \<and>
       (withdrawsRp (ownEntries (gc_group gc) (concat fss)) gc \<or> losesRp (ownEntries (gc_group gc) (concat fss)) gc))"
  by (rule configuration_on_the_wire [OF sampleConfig_ok])

end
